(* ===== verification/Mz_Prelude.thy ===== *)
theory Mz_Prelude
  imports Complex_Main "HOL-Library.Multiset" "HOL-Library.AList" "HOL-Library.Word"
begin

text \<open>
  Shared vocabulary of the development: the JavaScript operations the sources use and HOL
  does not have (BigInt division, the remainder operator, a stable sort under a comparator,
  results that may throw), and the generic facts on lists the components share.

  \<^item> A value that a function may fail to produce because it throws is \<open>'e + 'a\<close>, \<open>Inl\<close> the
    error; \<open>bindE\<close> sequences such computations, as the exception would.
  \<^item> \<open>bigint\<close> and integral \<open>number\<close> values are \<open>int\<close>.
  \<^item> An amount that crosses the untyped boundary (\<open>number | bigint\<close>) is a \<open>js_amount\<close>;
    a finite \<open>number\<close> is read as the rational it denotes, so the rounding of IEEE double
    arithmetic itself is not modelled, only the explicit rounding calls of the code are.
  \<^item> A JavaScript \<open>Map\<close> keeps insertion order: it is an association list updated by
    \<open>AList.update\<close>, which keeps the position of a key that is present.
\<close>

named_theorems js_arith "facts that turn JavaScript arithmetic into HOL arithmetic"
named_theorems chip_sums "facts on sums of chips over seat lists"

section \<open>Results that may throw\<close>

fun bindE :: "'e + 'a \<Rightarrow> ('a \<Rightarrow> 'e + 'b) \<Rightarrow> 'e + 'b" where
  "bindE (Inl e) f = Inl e"
| "bindE (Inr x) f = f x"

lemma bindE_Inr_iff: "bindE m f = Inr y \<longleftrightarrow> (\<exists>x. m = Inr x \<and> f x = Inr y)"
  by (cases m) auto

lemma bindE_InrE [elim!]:
  assumes "bindE m f = Inr y"
  obtains x where "m = Inr x" "f x = Inr y"
  using assms by (auto simp: bindE_Inr_iff)

fun isOk :: "'e + 'a \<Rightarrow> bool" where
  "isOk (Inl e) = False"
| "isOk (Inr x) = True"

lemma isOk_iff: "isOk m \<longleftrightarrow> (\<exists>x. m = Inr x)"
  by (cases m) auto

text \<open>\<open>mapE f xs\<close> is \<open>xs.map(f)\<close> for an \<open>f\<close> that may throw: the first error wins.\<close>

fun mapE :: "('a \<Rightarrow> 'e + 'b) \<Rightarrow> 'a list \<Rightarrow> 'e + 'b list" where
  "mapE f [] = Inr []"
| "mapE f (x # xs) = bindE (f x) (\<lambda>y. bindE (mapE f xs) (\<lambda>ys. Inr (y # ys)))"

lemma mapE_Inr_length: "mapE f xs = Inr ys \<Longrightarrow> length ys = length xs"
  by (induction xs arbitrary: ys) auto

lemma mapE_total: "(\<And>x. x \<in> set xs \<Longrightarrow> f x = Inr (g x)) \<Longrightarrow> mapE f xs = Inr (map g xs)"
  by (induction xs) auto

lemma mapE_Inr_nth: "mapE f xs = Inr ys \<Longrightarrow> i < length xs \<Longrightarrow> f (xs ! i) = Inr (ys ! i)"
  by (induction xs arbitrary: ys i) (auto simp: nth_Cons split: nat.splits)

text \<open>\<open>x ?? d\<close>.\<close>

fun orElse :: "'a option \<Rightarrow> 'a \<Rightarrow> 'a" where
  "orElse None d = d"
| "orElse (Some x) d = x"

section \<open>BigInt arithmetic\<close>

text \<open>\<open>a / b\<close> on \<open>bigint\<close> truncates towards zero and \<open>a % b\<close> has the sign of \<open>a\<close>.
  Division by \<open>0n\<close> throws a RangeError; the code never divides by a zero it has not checked,
  and the model's callers keep those checks.\<close>

definition js_div :: "int \<Rightarrow> int \<Rightarrow> int" where
  "js_div a b = sgn a * sgn b * (\<bar>a\<bar> div \<bar>b\<bar>)"

definition js_rem :: "int \<Rightarrow> int \<Rightarrow> int" where
  "js_rem a b = sgn a * (\<bar>a\<bar> mod \<bar>b\<bar>)"

lemma js_div_nonneg [js_arith]: "0 \<le> a \<Longrightarrow> 0 < b \<Longrightarrow> js_div a b = a div b"
  by (cases "a = 0") (auto simp: js_div_def sgn_if)

lemma js_rem_nonneg [js_arith]: "0 \<le> a \<Longrightarrow> 0 < b \<Longrightarrow> js_rem a b = a mod b"
  by (cases "a = 0") (auto simp: js_rem_def sgn_if)

lemma js_div_rem: "js_div a b * b + js_rem a b = a"
proof -
  have *: "js_div a b * b = sgn a * (\<bar>a\<bar> div \<bar>b\<bar> * \<bar>b\<bar>)"
    by (auto simp: js_div_def sgn_if abs_if)
  have "js_div a b * b + js_rem a b = sgn a * (\<bar>a\<bar> div \<bar>b\<bar> * \<bar>b\<bar> + \<bar>a\<bar> mod \<bar>b\<bar>)"
    unfolding * js_rem_def by (simp only: distrib_left)
  also have "\<dots> = a"
    by (simp add: sgn_if abs_if)
  finally show ?thesis .
qed

lemma js_rem_eq_0_iff: "b \<noteq> 0 \<Longrightarrow> js_rem a b = 0 \<longleftrightarrow> b dvd a"
  by (auto simp: js_rem_def sgn_if mod_eq_0_iff_dvd)

lemma js_div_mult_cancel: "b \<noteq> 0 \<Longrightarrow> js_div (a * b) b = a"
  using js_div_rem [of "a * b" b] js_rem_eq_0_iff [of b "a * b"] by simp

section \<open>Amounts at the untyped boundary\<close>

datatype js_number = Finite rat | NonFinite

datatype js_amount = BigIntAmt int | NumberAmt js_number

text \<open>\<open>Math.round\<close>: round half up.\<close>

definition math_round :: "rat \<Rightarrow> int" where
  "math_round q = \<lfloor>q + 1 / 2\<rfloor>"

lemma math_round_of_int [simp]: "math_round (of_int n) = n"
  unfolding math_round_def by linarith

text \<open>JSON values.\<close>

datatype json = JNull | JBool bool | JNum rat | JStr string | JArr "json list" | JObj "(string \<times> json) list"

section \<open>Stable sort under a comparator\<close>

text \<open>\<open>Array.prototype.sort\<close> is stable. For a comparator that is a total preorder the stable
  sorted arrangement is unique, and insertion from the right computes it.\<close>

fun js_insert :: "('a \<Rightarrow> 'a \<Rightarrow> int) \<Rightarrow> 'a \<Rightarrow> 'a list \<Rightarrow> 'a list" where
  "js_insert cmp x [] = [x]"
| "js_insert cmp x (y # ys) = (if cmp x y \<le> 0 then x # y # ys else y # js_insert cmp x ys)"

fun js_sort :: "('a \<Rightarrow> 'a \<Rightarrow> int) \<Rightarrow> 'a list \<Rightarrow> 'a list" where
  "js_sort cmp [] = []"
| "js_sort cmp (x # xs) = js_insert cmp x (js_sort cmp xs)"

lemma mset_js_insert [simp]: "mset (js_insert cmp x xs) = add_mset x (mset xs)"
  by (induction xs) auto

lemma mset_js_sort [simp]: "mset (js_sort cmp xs) = mset xs"
  by (induction xs) auto

lemma set_js_insert [simp]: "set (js_insert cmp x xs) = insert x (set xs)"
  by (metis mset_js_insert set_mset_add_mset_insert set_mset_mset)

lemma set_js_sort [simp]: "set (js_sort cmp xs) = set xs"
  by (metis mset_js_sort set_mset_mset)

lemma length_js_sort [simp]: "length (js_sort cmp xs) = length xs"
  by (metis mset_js_sort size_mset)

lemma js_sort_Nil_iff [simp]: "js_sort cmp xs = [] \<longleftrightarrow> xs = []"
  by (metis length_0_conv length_js_sort)

lemma distinct_map_js_sort [simp]: "distinct (map f (js_sort cmp xs)) = distinct (map f xs)"
  by (metis mset_js_sort mset_map mset_eq_imp_distinct_iff)

lemma sum_list_js_sort [simp]:
  fixes f :: "'a \<Rightarrow> 'b::comm_monoid_add"
  shows "sum_list (map f (js_sort cmp xs)) = sum_list (map f xs)"
  by (metis mset_js_sort mset_map sum_mset_sum_list)

text \<open>The contract of a comparator, and what sorting under it promises its callers.\<close>

locale comparator =
  fixes cmp :: "'a \<Rightarrow> 'a \<Rightarrow> int"
  assumes total: "cmp x y \<le> 0 \<or> cmp y x \<le> 0"
    and trans: "cmp x y \<le> 0 \<Longrightarrow> cmp y z \<le> 0 \<Longrightarrow> cmp x z \<le> 0"
begin

lemma refl: "cmp x x \<le> 0"
  using total by blast

lemma sorted_js_insert:
  assumes "sorted_wrt (\<lambda>x y. cmp x y \<le> 0) ys"
  shows "sorted_wrt (\<lambda>x y. cmp x y \<le> 0) (js_insert cmp x ys)"
  using assms
proof (induction ys)
  case Nil
  then show ?case by simp
next
  case (Cons y ys)
  show ?case
  proof (cases "cmp x y \<le> 0")
    case True
    then show ?thesis using Cons.prems by (auto intro: trans)
  next
    case False
    then have "cmp y x \<le> 0" using total by blast
    then show ?thesis using False Cons by auto
  qed
qed

lemma sorted_js_sort: "sorted_wrt (\<lambda>x y. cmp x y \<le> 0) (js_sort cmp xs)"
  by (induction xs) (auto intro: sorted_js_insert)

lemma js_sort_hd_least:
  assumes "js_sort cmp xs = m # ms" and "x \<in> set xs"
  shows "cmp m x \<le> 0"
proof -
  have "x \<in> set (m # ms)" using assms by (metis set_js_sort)
  moreover have "sorted_wrt (\<lambda>x y. cmp x y \<le> 0) (m # ms)"
    using sorted_js_sort [of xs] assms(1) by simp
  ultimately show ?thesis by (auto intro: refl)
qed

lemma sorted_unique:
  assumes "sorted_wrt (\<lambda>x y. cmp x y \<le> 0) xs" "sorted_wrt (\<lambda>x y. cmp x y \<le> 0) ys" "mset xs = mset ys"
    and "\<And>x y. x \<in> set xs \<Longrightarrow> y \<in> set xs \<Longrightarrow> cmp x y \<le> 0 \<Longrightarrow> cmp y x \<le> 0 \<Longrightarrow> x = y"
  shows "xs = ys"
  using assms
proof (induction xs arbitrary: ys)
  case (Cons x xs)
  then obtain y ys' where ys: "ys = y # ys'" by (cases ys) auto
  have sets: "set (x # xs) = set (y # ys')" using Cons.prems(3) ys by (metis set_mset_mset)
  have "cmp x y \<le> 0" using Cons.prems(1) sets by (auto intro: refl)
  moreover have "cmp y x \<le> 0" using Cons.prems(2) ys sets by (auto intro: refl)
  ultimately have "x = y" using Cons.prems(4) [of x y] sets by auto
  then show ?case using Cons.IH [of ys'] Cons.prems ys by simp
qed simp

lemma js_sort_cong:
  assumes "mset xs = mset ys"
    and "\<And>x y. x \<in> set xs \<Longrightarrow> y \<in> set xs \<Longrightarrow> cmp x y \<le> 0 \<Longrightarrow> cmp y x \<le> 0 \<Longrightarrow> x = y"
  shows "js_sort cmp xs = js_sort cmp ys"
  using sorted_unique [OF sorted_js_sort sorted_js_sort, of xs ys] assms by simp

end

text \<open>Comparators \<open>(a, b) => key(a) - key(b)\<close> and their descending variants.\<close>

interpretation key_cmp: comparator "\<lambda>a b. (key :: 'a \<Rightarrow> int) a - key b" for key
  by unfold_locales auto

interpretation key_desc: comparator "\<lambda>a b. (key :: 'a \<Rightarrow> int) b - key a" for key
  by unfold_locales auto

text \<open>With distinct keys the sorted arrangement depends on the elements only.\<close>

lemma js_sort_key_cong:
  fixes key :: "'a \<Rightarrow> int"
  assumes "mset xs = mset ys" "distinct (map key xs)"
  shows "js_sort (\<lambda>a b. key a - key b) xs = js_sort (\<lambda>a b. key a - key b) ys"
proof -
  let ?s = "js_sort (\<lambda>a b. key a - key b)"
  have "sorted (map key (?s zs))" for zs
    using key_cmp.sorted_js_sort [of key zs] by (simp add: sorted_map)
  then have "map key (?s xs) = map key (?s ys)"
    using assms(1) by (metis mset_js_sort mset_map properties_for_sort)
  moreover have "inj_on key (set (?s xs) \<union> set (?s ys))"
    using assms by (metis Un_absorb distinct_map mset_eq_setD set_js_sort)
  ultimately show ?thesis by (rule map_inj_on)
qed

text \<open>\<open>(a, b) => (a < b ? -1 : a > b ? 1 : 0)\<close>, the comparator the code uses on \<open>bigint\<close>.\<close>

definition js_cmp3 :: "int \<Rightarrow> int \<Rightarrow> int" where
  "js_cmp3 a b = (if a < b then -1 else if a > b then 1 else 0)"

interpretation cmp3: comparator js_cmp3
  by unfold_locales (auto simp: js_cmp3_def split: if_splits)

interpretation cmp3_desc: comparator "\<lambda>a b. js_cmp3 (key b) (key a)" for key :: "'a \<Rightarrow> int"
  by unfold_locales (auto simp: js_cmp3_def split: if_splits)

section \<open>Lists\<close>

text \<open>\<open>[...new Set(xs)]\<close>: the distinct elements in order of first occurrence.\<close>

fun js_uniq :: "'a list \<Rightarrow> 'a list" where
  "js_uniq [] = []"
| "js_uniq (x # xs) = x # js_uniq (filter (\<lambda>y. y \<noteq> x) xs)"

lemma set_js_uniq [simp]: "set (js_uniq xs) = set xs"
  by (induction xs rule: js_uniq.induct) auto

lemma distinct_js_uniq [simp]: "distinct (js_uniq xs)"
  by (induction xs rule: js_uniq.induct) auto

lemma js_uniq_distinct: "distinct xs \<Longrightarrow> js_uniq xs = xs"
proof (induction xs)
  case (Cons x xs)
  then have "filter (\<lambda>y. y \<noteq> x) xs = xs" by (auto intro: filter_True)
  with Cons show ?case by simp
qed simp

text \<open>\<open>xs.indexOf(x)\<close>: the first position, or -1.\<close>

fun js_indexOf :: "'a list \<Rightarrow> 'a \<Rightarrow> int" where
  "js_indexOf [] x = -1"
| "js_indexOf (y # ys) x =
     (if y = x then 0 else let k = js_indexOf ys x in if k < 0 then -1 else k + 1)"

lemma js_indexOf_nonneg_iff: "0 \<le> js_indexOf xs x \<longleftrightarrow> x \<in> set xs"
  by (induction xs) (auto simp: Let_def)

lemma js_indexOf_nth:
  "distinct xs \<Longrightarrow> i < length xs \<Longrightarrow> js_indexOf xs (xs ! i) = int i"
proof (induction xs arbitrary: i)
  case (Cons x xs)
  then show ?case by (cases i) (auto simp: Let_def)
qed simp

lemma length_filter_map_eq: "map P xs = map P ys \<Longrightarrow> length (filter P xs) = length (filter P ys)"
proof (induction xs arbitrary: ys)
  case (Cons x xs)
  then show ?case by (cases ys) auto
qed simp

lemma distinct_submset: "mset xs \<subseteq># mset ys \<Longrightarrow> distinct ys \<Longrightarrow> distinct xs"
proof -
  assume s: "mset xs \<subseteq># mset ys" and d: "distinct ys"
  obtain zs where "mset zs = mset ys - mset xs" using ex_mset by blast
  then have "mset (xs @ zs) = mset ys" using s by simp
  then have "distinct (xs @ zs)" using d mset_eq_imp_distinct_iff by blast
  then show ?thesis by simp
qed

text \<open>A number is an integer in JavaScript's sense.\<close>

definition js_isInteger :: "rat \<Rightarrow> bool" where
  "js_isInteger q \<longleftrightarrow> of_int \<lfloor>q\<rfloor> = q"

lemma js_isInteger_of_int [simp]: "js_isInteger (of_int n)"
  by (simp add: js_isInteger_def)

text \<open>Decimal rendering of a natural number, as template literals do.\<close>

definition digit_char :: "nat \<Rightarrow> char" where
  "digit_char d = char_of (48 + d)"

fun nat_string :: "nat \<Rightarrow> string" where
  "nat_string n = (if n < 10 then [digit_char n] else nat_string (n div 10) @ [digit_char (n mod 10)])"

declare nat_string.simps [simp del]

definition int_string :: "int \<Rightarrow> string" where
  "int_string i = (if i < 0 then ''-'' @ nat_string (nat (- i)) else nat_string (nat i))"

text \<open>The rendering is read back by the value of its digits, and has no other characters than digits and a sign.\<close>

fun digits_value :: "nat \<Rightarrow> string \<Rightarrow> nat" where
  "digits_value a [] = a"
| "digits_value a (c # s) = digits_value (10 * a + (of_char c - 48)) s"

lemma digits_value_append: "digits_value a (s @ t) = digits_value (digits_value a s) t"
  by (induction a s rule: digits_value.induct) auto

lemma digits_value_nat_string: "digits_value 0 (nat_string n) = n"
proof (induction n rule: nat_string.induct)
  case (1 n)
  have "of_char (digit_char d) - 48 = d" if "d < 10" for d
    using that by (simp add: digit_char_def)
  then show ?case using 1 by (subst nat_string.simps) (simp add: digits_value_append)
qed

lemma nat_string_digits: "set (nat_string n) \<subseteq> digit_char ` {..<10}"
proof (induction n rule: nat_string.induct)
  case (1 n)
  show ?case using 1 by (subst nat_string.simps) auto
qed

lemma int_string_inj: "int_string a = int_string b \<Longrightarrow> a = b"
proof -
  assume eq: "int_string a = int_string b"
  have "hd (nat_string n) \<noteq> CHR ''-''" "nat_string n \<noteq> []" for n
  proof -
    show ne: "nat_string n \<noteq> []" by (subst nat_string.simps) simp
    have "hd (nat_string n) \<in> digit_char ` {..<10}" using nat_string_digits hd_in_set [OF ne] by blast
    then show "hd (nat_string n) \<noteq> CHR ''-''" by (auto simp: digit_char_def dest!: arg_cong [where f = "of_char :: char \<Rightarrow> nat"])
  qed
  then have sign: "(hd (int_string x) = CHR ''-'') = (x < 0)" for x by (simp add: int_string_def)
  then have "(a < 0) = (b < 0)" using eq by metis
  then have "nat_string (nat \<bar>a\<bar>) = nat_string (nat \<bar>b\<bar>)" using eq by (auto simp: int_string_def split: if_splits)
  then have "nat \<bar>a\<bar> = nat \<bar>b\<bar>" using digits_value_nat_string by metis
  then show "a = b" using \<open>(a < 0) = (b < 0)\<close> by linarith
qed

lemma int_string_no_colon: "CHR '':'' \<notin> set (int_string i)"
proof
  assume "CHR '':'' \<in> set (int_string i)"
  then have "CHR '':'' \<in> digit_char ` {..<10}" using nat_string_digits by (auto simp: int_string_def split: if_splits)
  then show False by (auto simp: digit_char_def dest!: arg_cong [where f = "of_char :: char \<Rightarrow> nat"])
qed

text \<open>What follows the last colon of a joined key is determined by the key.\<close>

lemma joined_suffix_inj:
  assumes "x @ c # a = y @ c # b" "c \<notin> set a" "c \<notin> set b"
  shows "x = y \<and> a = b"
proof -
  have part: "takeWhile (\<lambda>d. d \<noteq> c) (rev (u @ c # v)) = rev v" if "c \<notin> set v" for u v
    using that by (simp add: takeWhile_append2 takeWhile_tail) (metis append.right_neutral set_rev takeWhile.simps(2) takeWhile_append2)
  have "rev a = rev b" using part [OF assms(2)] part [OF assms(3)] assms(1) by metis
  then show ?thesis using assms(1) by simp
qed

section \<open>Sums\<close>

abbreviation sum_of :: "('a \<Rightarrow> int) \<Rightarrow> 'a list \<Rightarrow> int" where
  "sum_of f xs \<equiv> sum_list (map f xs)"

lemma sum_of_nonneg [chip_sums]: "(\<And>x. x \<in> set xs \<Longrightarrow> 0 \<le> f x) \<Longrightarrow> 0 \<le> sum_of f xs"
  by (induction xs) auto

lemma sum_of_mono: "(\<And>x. x \<in> set xs \<Longrightarrow> f x \<le> g x) \<Longrightarrow> sum_of f xs \<le> sum_of g xs"
  by (induction xs) (auto intro: add_mono)

lemma sum_of_cong: "(\<And>x. x \<in> set xs \<Longrightarrow> f x = g x) \<Longrightarrow> sum_of f xs = sum_of g xs"
  by (metis map_eq_conv)

lemma sum_of_member_le:
  "(\<And>x. x \<in> set xs \<Longrightarrow> 0 \<le> f x) \<Longrightarrow> x \<in> set xs \<Longrightarrow> f x \<le> sum_of f xs"
proof (induction xs)
  case (Cons y ys)
  have "0 \<le> sum_of f ys" using Cons.prems by (auto intro: sum_of_nonneg)
  with Cons show ?case by fastforce
qed simp

lemma sum_of_add: "sum_of (\<lambda>x. f x + g x) xs = sum_of f xs + sum_of g xs"
  by (induction xs) auto

lemma sum_of_diff: "sum_of (\<lambda>x. f x - g x) xs = sum_of f xs - sum_of g xs"
  by (induction xs) auto

lemma sum_of_filter_split: "sum_of f xs = sum_of f (filter P xs) + sum_of f (filter (\<lambda>x. \<not> P x) xs)"
  by (induction xs) auto

lemma sum_of_filter_zero:
  "(\<And>x. x \<in> set xs \<Longrightarrow> \<not> P x \<Longrightarrow> f x = 0) \<Longrightarrow> sum_of f (filter P xs) = sum_of f xs"
  by (induction xs) auto

section \<open>The Fisher--Yates loop\<close>

text \<open>\<open>for (let i = n - 1; i > 0; i--) { j = draw(i + 1); swap(i, j) }\<close> over a source of indices
  that threads its own state and may fail to produce an index. The three shuffles of the code
  are this loop over three sources.\<close>

definition js_swap :: "'a list \<Rightarrow> nat \<Rightarrow> nat \<Rightarrow> 'a list" where
  "js_swap xs i j = (xs[i := xs ! j])[j := xs ! i]"

fun fy_loop :: "('s \<Rightarrow> nat \<Rightarrow> (nat \<times> 's) option) \<Rightarrow> nat \<Rightarrow> 's \<Rightarrow> 'a list \<Rightarrow> ('a list \<times> 's) option" where
  "fy_loop draw 0 s xs = Some (xs, s)"
| "fy_loop draw (Suc i) s xs =
     (case draw s (Suc (Suc i)) of
        None \<Rightarrow> None
      | Some (j, s') \<Rightarrow> fy_loop draw i s' (js_swap xs (Suc i) j))"

lemma length_js_swap [simp]: "length (js_swap xs i j) = length xs"
  by (simp add: js_swap_def)

lemma mset_js_swap: "i < length xs \<Longrightarrow> j < length xs \<Longrightarrow> mset (js_swap xs i j) = mset xs"
  unfolding js_swap_def by (rule mset_swap)

locale index_source =
  fixes draw :: "'s \<Rightarrow> nat \<Rightarrow> (nat \<times> 's) option"
  assumes draw_below: "draw s b = Some (j, s') \<Longrightarrow> 1 < b \<Longrightarrow> j < b"
begin

lemma fy_loop_mset:
  "fy_loop draw i s xs = Some (ys, s') \<Longrightarrow> i < length xs \<Longrightarrow> mset ys = mset xs"
proof (induction i arbitrary: s xs)
  case (Suc i)
  then obtain j t where d: "draw s (Suc (Suc i)) = Some (j, t)"
    and r: "fy_loop draw i t (js_swap xs (Suc i) j) = Some (ys, s')"
    by (auto split: option.splits)
  have "j < length xs" using draw_below [OF d] Suc.prems by simp
  then show ?case using Suc.IH [OF r] Suc.prems by (simp add: mset_js_swap)
qed simp

end

end
