(* ===== verification/Cards.thy ===== *)
theory Cards
  imports Mz_Prelude
begin

text \<open>
  \<^verbatim>\<open>packages/game-rules/src/cards.ts\<close>: the 52 cards, their text and integer codes, and the
  commit-reveal shuffle. SHA-256 and HMAC-SHA-256 come from \<^verbatim>\<open>node:crypto\<close> and are parameters.
  The errors every function of the package can throw are one datatype, declared here.
\<close>

section \<open>Errors of the game-rules package\<close>

datatype PokerAction = Fold | Check | Call | Bet | Raise | AllIn

datatype game_error =
    CardCodeOutOfRange rat
  | NotFinite
  | ExceedsSafeInteger int
  | NotChipAligned int
  | MechanicNotSupported string
  | RankFiveArity nat
  | UndefinedRead            \<comment> \<open>a property read of \<open>undefined\<close> (TypeError)\<close>
  | NeedTwoPlayers
  | NobodyToAct
  | IllegalAction PokerAction
  | IllegalAmount PokerAction int int int

section \<open>Cards\<close>

datatype Rank = R2 | R3 | R4 | R5 | R6 | R7 | R8 | R9 | RT | RJ | RQ | RK | RA

datatype Suit = Sc | Sd | Sh | Ss

record Card =
  rank :: Rank
  suit :: Suit

definition RANKS :: "Rank list" where
  "RANKS = [R2, R3, R4, R5, R6, R7, R8, R9, RT, RJ, RQ, RK, RA]"

definition SUITS :: "Suit list" where
  "SUITS = [Sc, Sd, Sh, Ss]"

fun rank_char :: "Rank \<Rightarrow> char" where
  "rank_char R2 = CHR ''2''" | "rank_char R3 = CHR ''3''" | "rank_char R4 = CHR ''4''"
| "rank_char R5 = CHR ''5''" | "rank_char R6 = CHR ''6''" | "rank_char R7 = CHR ''7''"
| "rank_char R8 = CHR ''8''" | "rank_char R9 = CHR ''9''" | "rank_char RT = CHR ''T''"
| "rank_char RJ = CHR ''J''" | "rank_char RQ = CHR ''Q''" | "rank_char RK = CHR ''K''"
| "rank_char RA = CHR ''A''"

fun suit_char :: "Suit \<Rightarrow> char" where
  "suit_char Sc = CHR ''c''" | "suit_char Sd = CHR ''d''"
| "suit_char Sh = CHR ''h''" | "suit_char Ss = CHR ''s''"

definition cardKey :: "Card \<Rightarrow> string" where
  "cardKey c = [rank_char (rank c), suit_char (suit c)]"

text \<open>\<open>parseCard\<close> casts the first two characters without checking them; \<open>None\<close> marks the
  results of that cast that are not cards.\<close>

definition parseCard :: "string \<Rightarrow> Card option" where
  "parseCard s =
     (case s of
        r # x # _ \<Rightarrow>
          (case (find (\<lambda>k. rank_char k = r) RANKS, find (\<lambda>k. suit_char k = x) SUITS) of
             (Some k, Some u) \<Rightarrow> Some \<lparr>rank = k, suit = u\<rparr>
           | _ \<Rightarrow> None)
      | _ \<Rightarrow> None)"

definition fullDeck :: "Card list" where
  "fullDeck = concat (map (\<lambda>u. map (\<lambda>r. \<lparr>rank = r, suit = u\<rparr>) RANKS) SUITS)"

definition formatCard :: "Card \<Rightarrow> string" where
  "formatCard c = cardKey c"

fun rankValue :: "Rank \<Rightarrow> int" where
  "rankValue R2 = 2" | "rankValue R3 = 3" | "rankValue R4 = 4" | "rankValue R5 = 5"
| "rankValue R6 = 6" | "rankValue R7 = 7" | "rankValue R8 = 8" | "rankValue R9 = 9"
| "rankValue RT = 10" | "rankValue RJ = 11" | "rankValue RQ = 12" | "rankValue RK = 13"
| "rankValue RA = 14"

definition rankIndex :: "Rank \<Rightarrow> int" where
  "rankIndex r = rankValue r - 2"

definition suitIndex :: "Suit \<Rightarrow> int" where
  "suitIndex u = js_indexOf SUITS u"

definition cardCode :: "Card \<Rightarrow> int" where
  "cardCode c = suitIndex (suit c) * 13 + rankIndex (rank c)"

definition cardFromCode :: "rat \<Rightarrow> game_error + Card" where
  "cardFromCode code =
     (if \<not> js_isInteger code \<or> code < 0 \<or> code > 51 then Inl (CardCodeOutOfRange code)
      else Inr \<lparr>rank = RANKS ! nat (\<lfloor>code\<rfloor> mod 13), suit = SUITS ! nat (\<lfloor>code / 13\<rfloor>)\<rparr>)"

section \<open>Commit-reveal shuffle\<close>

text \<open>\<open>sha256\<close> and \<open>hmac\<close> are the digests of \<^verbatim>\<open>node:crypto\<close>, as 256-bit big-endian words.\<close>

type_synonym bytes32 = "256 word"

definition commitSeed :: "(string \<Rightarrow> bytes32) \<Rightarrow> string \<Rightarrow> bytes32" where
  "commitSeed sha256 serverSeed = sha256 serverSeed"

definition readUInt32BE0 :: "bytes32 \<Rightarrow> nat" where
  "readUInt32BE0 d = unat (drop_bit 224 d)"

definition hmac_next ::
  "(string \<Rightarrow> string \<Rightarrow> bytes32) \<Rightarrow> string \<Rightarrow> string \<Rightarrow> nat \<Rightarrow> nat \<Rightarrow> (nat \<times> nat) option" where
  "hmac_next hmac serverSeed handId counter bound =
     Some (readUInt32BE0 (hmac serverSeed (handId @ '':'' @ nat_string counter)) mod bound,
           counter + 1)"

definition shuffleDeck :: "(string \<Rightarrow> string \<Rightarrow> bytes32) \<Rightarrow> string \<Rightarrow> string \<Rightarrow> Card list" where
  "shuffleDeck hmac serverSeed handId =
     fst (the (fy_loop (hmac_next hmac serverSeed handId) (length fullDeck - 1) 0 fullDeck))"

section \<open>Card codes\<close>

lemma RANKS_nth_index: "RANKS ! nat (rankIndex r) = r"
  by (cases r) (simp_all add: RANKS_def rankIndex_def)

lemma SUITS_nth_index: "SUITS ! nat (suitIndex u) = u"
  by (cases u) (simp_all add: SUITS_def suitIndex_def)

lemma rankIndex_range: "0 \<le> rankIndex r" "rankIndex r \<le> 12"
  by (cases r; simp add: rankIndex_def)+

lemma suitIndex_range: "0 \<le> suitIndex u" "suitIndex u \<le> 3"
  by (cases u; simp add: suitIndex_def SUITS_def)+

lemma cardCode_range: "0 \<le> cardCode c" "cardCode c \<le> 51"
  using rankIndex_range [of "rank c"] suitIndex_range [of "suit c"] by (auto simp: cardCode_def)

lemma cardCode_mod: "cardCode c mod 13 = rankIndex (rank c)"
  using rankIndex_range [of "rank c"] by (simp add: cardCode_def)

lemma cardCode_div: "cardCode c div 13 = suitIndex (suit c)"
  using rankIndex_range [of "rank c"] by (simp add: cardCode_def)

lemma floor_div_13: "\<lfloor>(of_int n :: rat) / 13\<rfloor> = n div 13"
  using floor_divide_of_int_eq [of n 13, where 'a = rat] by simp

lemma cardFromCode_cardCode: "cardFromCode (of_int (cardCode c)) = Inr c"
proof -
  have "(of_int (cardCode c) :: rat) \<ge> 0" "(of_int (cardCode c) :: rat) \<le> 51"
    using cardCode_range [of c] by auto
  then show ?thesis
    by (simp add: cardFromCode_def floor_div_13 cardCode_mod cardCode_div RANKS_nth_index
        SUITS_nth_index not_less)
qed

lemma cardFromCode_ok_iff:
  "isOk (cardFromCode q) \<longleftrightarrow> (\<exists>n. q = of_int n \<and> 0 \<le> n \<and> n \<le> 51)"
proof
  assume "isOk (cardFromCode q)"
  then have q: "js_isInteger q" "0 \<le> q" "q \<le> 51"
    by (auto simp: cardFromCode_def split: if_splits)
  then have eq: "q = of_int \<lfloor>q\<rfloor>" by (metis js_isInteger_def)
  with q have "0 \<le> \<lfloor>q\<rfloor>" "\<lfloor>q\<rfloor> \<le> 51" by (simp_all add: floor_le_iff)
  with eq show "\<exists>n. q = of_int n \<and> 0 \<le> n \<and> n \<le> 51" by metis
qed (auto simp: cardFromCode_def)

lemma length_fullDeck [simp]: "length fullDeck = 52"
  by (simp add: fullDeck_def RANKS_def SUITS_def)

lemma fullDeck_codes: "map cardCode fullDeck = map int [0..<52]"
  by code_simp

lemma distinct_fullDeck: "distinct fullDeck"
proof -
  have "distinct (map cardCode fullDeck)"
    unfolding fullDeck_codes by (simp add: distinct_map)
  then show ?thesis by (simp add: distinct_map)
qed

lemma set_fullDeck: "set fullDeck = UNIV"
proof -
  have "c \<in> set fullDeck" for c :: Card
  proof -
    have "rank c \<in> set RANKS" by (cases "rank c") (simp_all add: RANKS_def)
    moreover have "suit c \<in> set SUITS" by (cases "suit c") (simp_all add: SUITS_def)
    ultimately show ?thesis by (force simp: fullDeck_def)
  qed
  then show ?thesis by auto
qed

section \<open>The shuffle\<close>

interpretation hmac_source: index_source "hmac_next hmac serverSeed handId"
  for hmac serverSeed handId
  by unfold_locales (auto simp: hmac_next_def)

lemma fy_loop_hmac_total: "\<exists>ys c'. fy_loop (hmac_next hmac s h) i c xs = Some (ys, c')"
  by (induction i arbitrary: c xs) (auto simp: hmac_next_def)

lemma mset_shuffleDeck: "mset (shuffleDeck hmac s h) = mset fullDeck"
proof -
  obtain ys c' where "fy_loop (hmac_next hmac s h) (length fullDeck - 1) 0 fullDeck = Some (ys, c')"
    using fy_loop_hmac_total by blast
  then show ?thesis
    using hmac_source.fy_loop_mset by (fastforce simp: shuffleDeck_def)
qed

lemma length_shuffleDeck [simp]: "length (shuffleDeck hmac s h) = 52"
  using mset_shuffleDeck [of hmac s h] by (metis length_fullDeck size_mset)

section \<open>Properties\<close>

text \<open>\<open>cardCode\<close> maps every card into \<open>0..51\<close>, \<open>cardFromCode\<close> is its inverse, and
  \<open>cardFromCode\<close> succeeds on exactly the integers \<open>0..51\<close> and throws on every other number.\<close>

theorem card_code_roundtrip:
  "0 \<le> cardCode c \<and> cardCode c \<le> 51 \<and> cardFromCode (of_int (cardCode c)) = Inr c
   \<and> isOk (cardFromCode q) = (\<exists>n. q = of_int n \<and> 0 \<le> n \<and> n \<le> 51)"
  using cardCode_range cardFromCode_cardCode cardFromCode_ok_iff by blast

text \<open>C10: whatever digests HMAC produces, the commit-reveal shuffle terminates with a
  permutation of the full deck: 52 cards, no card missing, none duplicated.\<close>

theorem shuffleDeck_permutation:
  "mset (shuffleDeck hmac serverSeed handId) = mset fullDeck
   \<and> length (shuffleDeck hmac serverSeed handId) = 52
   \<and> distinct (shuffleDeck hmac serverSeed handId)
   \<and> set (shuffleDeck hmac serverSeed handId) = UNIV"
  using mset_shuffleDeck [of hmac serverSeed handId] distinct_fullDeck set_fullDeck
  by (metis length_shuffleDeck mset_eq_imp_distinct_iff mset_eq_setD)

end
