(* ===== verification/Hand_Rank.thy ===== *)
theory Hand_Rank
  imports Cards "HOL-Library.Sublist"
begin

text \<open>
  \<^verbatim>\<open>packages/game-rules/src/hand-rank.ts\<close>: the five-card ranking, the lexicographic comparison of
  scores and the best five of up to seven cards. A card slot is \<open>Card option\<close>: \<open>None\<close> is the
  \<open>undefined\<close> that an exhausted deck or an empty card array yields, and reading its rank throws.
\<close>

datatype HandCategory =
    high_card | pair | two_pair | three_kind | straight | flush | full_house | four_kind
  | straight_flush

fun CAT_SCORE :: "HandCategory \<Rightarrow> int" where
  "CAT_SCORE high_card = 0"
| "CAT_SCORE pair = 1"
| "CAT_SCORE two_pair = 2"
| "CAT_SCORE three_kind = 3"
| "CAT_SCORE straight = 4"
| "CAT_SCORE flush = 5"
| "CAT_SCORE full_house = 6"
| "CAT_SCORE four_kind = 7"
| "CAT_SCORE straight_flush = 8"

record RankedHand =
  category :: HandCategory
  score :: "int list"
  label :: string

fun combinations :: "'a list \<Rightarrow> nat \<Rightarrow> 'a list list" where
  "combinations arr 0 = [[]]"
| "combinations [] (Suc k) = []"
| "combinations (x # xs) (Suc k) =
     (if length (x # xs) < Suc k then []
      else map ((#) x) (combinations xs k) @ combinations xs (Suc k))"

section \<open>Straights\<close>

definition straight_window :: "int list \<Rightarrow> nat \<Rightarrow> bool" where
  "straight_window uniq i \<longleftrightarrow>
     (let slice = take 5 (drop i uniq)
      in slice ! 0 - slice ! 4 = 4 \<and> length (js_uniq slice) = 5)"

definition isStraight_desc :: "int list \<Rightarrow> int option" where
  "isStraight_desc vals =
     (let u = js_sort (\<lambda>a b. b - a) (js_uniq vals);
          uniq = (if 14 \<in> set u then u @ [1] else u)
      in case find (straight_window uniq) [0..<length uniq - 4] of
           Some i \<Rightarrow> Some (if uniq ! i = 14 \<and> uniq ! (i + 4) = 1 then 5 else uniq ! i)
         | None \<Rightarrow> None)"

definition isStraight_asc :: "int list \<Rightarrow> int option" where
  "isStraight_asc vals =
     (let asc = js_sort (\<lambda>a b. a - b) (js_uniq vals);
          withWheel = (if 14 \<in> set asc then 1 # asc else asc)
      in case find (\<lambda>i. \<forall>j \<in> set [1..<5]. withWheel ! (i + j) = withWheel ! i + int j)
                [0..<length withWheel - 4] of
           Some i \<Rightarrow> Some (if withWheel ! (i + 4) = 14 \<and> withWheel ! i = 10 then 14
                           else withWheel ! (i + 4))
         | None \<Rightarrow> None)"

definition isStraight :: "int list \<Rightarrow> int option" where
  "isStraight vals =
     (case isStraight_desc vals of Some h \<Rightarrow> Some h | None \<Rightarrow> isStraight_asc vals)"

section \<open>Five cards\<close>

fun countValues :: "int list \<Rightarrow> (int \<times> nat) list \<Rightarrow> (int \<times> nat) list" where
  "countValues [] counts = counts"
| "countValues (v # vs) counts =
     countValues vs (AList.update v (case map_of counts v of Some n \<Rightarrow> n + 1 | None \<Rightarrow> 1) counts)"

definition byCount_cmp :: "int \<times> nat \<Rightarrow> int \<times> nat \<Rightarrow> int" where
  "byCount_cmp a b =
     (let d = int (snd b) - int (snd a) in if d \<noteq> 0 then d else fst b - fst a)"

definition byCount :: "int list \<Rightarrow> (int \<times> nat) list" where
  "byCount vals = js_sort byCount_cmp (countValues vals [])"

definition mk_hand :: "HandCategory \<Rightarrow> int list \<Rightarrow> string \<Rightarrow> RankedHand" where
  "mk_hand cat rest lab = \<lparr>category = cat, score = CAT_SCORE cat # rest, label = lab\<rparr>"

definition singles :: "(int \<times> nat) list \<Rightarrow> int list" where
  "singles bc = map fst (filter (\<lambda>x. snd x = 1) bc)"

text \<open>The decision list of \<open>rankFive\<close> over the three things it computes from the cards.\<close>

definition rankFrom ::
  "int list \<Rightarrow> bool \<Rightarrow> (int \<times> nat) list \<Rightarrow> int option \<Rightarrow> game_error + RankedHand" where
  "rankFrom vals isFlush bc straightHigh =
     (case bc of
        [] \<Rightarrow> Inl UndefinedRead
      | b0 # bs \<Rightarrow>
          let second = (case bs of [] \<Rightarrow> None | b1 # _ \<Rightarrow> Some b1);
              kicker = find (\<lambda>x. snd x = 1) bc
          in if isFlush \<and> straightHigh \<noteq> None then
               Inr (mk_hand straight_flush [the straightHigh]
                      (if straightHigh = Some 14 then ''Royal flush'' else ''Straight flush''))
             else if snd b0 = 4 then
               (case kicker of
                  Some k \<Rightarrow> Inr (mk_hand four_kind [fst b0, fst k] ''Four of a kind'')
                | None \<Rightarrow> Inl UndefinedRead)
             else if snd b0 = 3 \<and> map_option snd second = Some 2 then
               Inr (mk_hand full_house [fst b0, fst (the second)] ''Full house'')
             else if isFlush then Inr (mk_hand flush vals ''Flush'')
             else if straightHigh \<noteq> None then Inr (mk_hand straight [the straightHigh] ''Straight'')
             else if snd b0 = 3 then
               Inr (mk_hand three_kind (fst b0 # singles bc) ''Three of a kind'')
             else if snd b0 = 2 \<and> map_option snd second = Some 2 then
               (case kicker of
                  Some k \<Rightarrow>
                    (let pairs = js_sort (\<lambda>a b. b - a) [fst b0, fst (the second)]
                     in Inr (mk_hand two_pair [pairs ! 0, pairs ! 1, fst k] ''Two pair''))
                | None \<Rightarrow> Inl UndefinedRead)
             else if snd b0 = 2 then Inr (mk_hand pair (fst b0 # singles bc) ''Pair'')
             else Inr (mk_hand high_card vals ''High card''))"

definition card_values :: "Card list \<Rightarrow> int list" where
  "card_values cs = js_sort (\<lambda>a b. b - a) (map (\<lambda>c. rankValue (rank c)) cs)"

definition is_flush :: "Card list \<Rightarrow> bool" where
  "is_flush cs \<longleftrightarrow> (\<forall>u \<in> set (map suit cs). u = hd (map suit cs))"

definition rankFive :: "Card option list \<Rightarrow> game_error + RankedHand" where
  "rankFive cards =
     (if length cards \<noteq> 5 then Inl (RankFiveArity (length cards))
      else case those cards of
             None \<Rightarrow> Inl UndefinedRead
           | Some cs \<Rightarrow>
               (let vals = card_values cs
                in rankFrom vals (is_flush cs) (byCount vals) (isStraight vals)))"

section \<open>Comparing scores and choosing the best five\<close>

text \<open>\<open>(a[i] ?? 0) - (b[i] ?? 0)\<close> from the left until it differs.\<close>

fun hdz :: "int list \<Rightarrow> int" where
  "hdz [] = 0"
| "hdz (x # xs) = x"

function compareScores :: "int list \<Rightarrow> int list \<Rightarrow> int" where
  "compareScores a b =
     (if a = [] \<and> b = [] then 0
      else let d = hdz a - hdz b in if d \<noteq> 0 then d else compareScores (tl a) (tl b))"
  by pat_completeness auto
termination
  by (relation "measure (\<lambda>(a, b). length a + length b)") (auto simp: neq_Nil_conv)

declare compareScores.simps [simp del]

fun bestLoop ::
  "Card option list list \<Rightarrow> RankedHand option \<Rightarrow> game_error + RankedHand option" where
  "bestLoop [] best = Inr best"
| "bestLoop (five # rest) best =
     bindE (rankFive five) (\<lambda>ranked.
       bestLoop rest
         (case best of
            None \<Rightarrow> Some ranked
          | Some b \<Rightarrow> if compareScores (score ranked) (score b) > 0 then Some ranked else Some b))"

definition bestHand :: "Card option list \<Rightarrow> Card option list \<Rightarrow> game_error + RankedHand" where
  "bestHand hole board =
     (let all = hole @ board
      in if length all < 5
         then rankFive (all @ replicate (5 - length all) (case all of [] \<Rightarrow> None | c # _ \<Rightarrow> c))
         else bindE (bestLoop (combinations all 5) None) (\<lambda>best.
                case best of Some b \<Rightarrow> Inr b | None \<Rightarrow> Inl UndefinedRead))"

section \<open>Categories are ordered by their score\<close>

instantiation HandCategory :: linorder
begin

definition less_eq_HandCategory :: "HandCategory \<Rightarrow> HandCategory \<Rightarrow> bool" where
  "less_eq_HandCategory a b \<longleftrightarrow> CAT_SCORE a \<le> CAT_SCORE b"

definition less_HandCategory :: "HandCategory \<Rightarrow> HandCategory \<Rightarrow> bool" where
  "less_HandCategory a b \<longleftrightarrow> CAT_SCORE a < CAT_SCORE b"

instance
proof
  fix a b :: HandCategory
  show "a \<le> b \<Longrightarrow> b \<le> a \<Longrightarrow> a = b"
    by (cases a; cases b) (simp_all add: less_eq_HandCategory_def)
qed (auto simp: less_eq_HandCategory_def less_HandCategory_def)

end

section \<open>Comparison is a total preorder\<close>

lemma compareScores_swap: "compareScores b a = - compareScores a b"
proof (induction a b rule: compareScores.induct)
  case (1 a b)
  then show ?case
    by (subst (1 2) compareScores.simps) (auto simp: Let_def)
qed

lemma compareScores_refl [simp]: "compareScores a a = 0"
  using compareScores_swap [of a a] by simp

lemma compareScores_trans:
  "compareScores a b \<le> 0 \<Longrightarrow> compareScores b c \<le> 0 \<Longrightarrow> compareScores a c \<le> 0"
proof (induction "length a + length b + length c" arbitrary: a b c rule: less_induct)
  case less
  show ?case
  proof (cases "a = [] \<and> c = []")
    case True
    then show ?thesis by (simp add: compareScores.simps)
  next
    case ne: False
    have ab: "hdz a < hdz b \<or> hdz a = hdz b \<and> compareScores (tl a) (tl b) \<le> 0"
      using less.prems(1) by (subst (asm) compareScores.simps)
        (auto simp: Let_def compareScores.simps [of "[]" "[]"] split: if_splits)
    have bc: "hdz b < hdz c \<or> hdz b = hdz c \<and> compareScores (tl b) (tl c) \<le> 0"
      using less.prems(2) by (subst (asm) compareScores.simps)
        (auto simp: Let_def compareScores.simps [of "[]" "[]"] split: if_splits)
    have sm: "length (tl a) + length (tl b) + length (tl c) < length a + length b + length c"
      using ne by (cases a; cases c) auto
    have "hdz a < hdz c \<or> hdz a = hdz c \<and> compareScores (tl a) (tl c) \<le> 0"
      using ab bc less.hyps [OF sm] by auto
    then show ?thesis using ne by (subst compareScores.simps) (auto simp: Let_def)
  qed
qed

text \<open>\<open>contenders.sort((a, b) => compareScores(b.score, a.score))\<close> for any way to read a score.\<close>

interpretation score_desc: comparator "\<lambda>a b. compareScores (sc b) (sc a)" for sc :: "'a \<Rightarrow> int list"
proof
  fix x y z
  show "compareScores (sc y) (sc x) \<le> 0 \<or> compareScores (sc x) (sc y) \<le> 0"
    using compareScores_swap [of "sc x" "sc y"] by linarith
  show "compareScores (sc y) (sc x) \<le> 0 \<Longrightarrow> compareScores (sc z) (sc y) \<le> 0 \<Longrightarrow>
        compareScores (sc z) (sc x) \<le> 0"
    using compareScores_trans by blast
qed

section \<open>Combinations\<close>

lemma combinations_eq:
  "set (combinations xs k) = {ys. subseq ys xs \<and> length ys = k}"
proof (induction xs k rule: combinations.induct)
  case (3 x xs k)
  show ?case
  proof (cases "length (x # xs) < Suc k")
    case True
    then have "\<not> (subseq ys (x # xs) \<and> length ys = Suc k)" for ys
      using list_emb_length [of "(=)" ys "x # xs"] by auto
    then show ?thesis using True by auto
  next
    case False
    then have "set (combinations (x # xs) (Suc k)) =
        (#) x ` {ys. subseq ys xs \<and> length ys = k} \<union> {ys. subseq ys xs \<and> length ys = Suc k}"
      using "3.IH" by simp
    also have "\<dots> = {ys. subseq ys (x # xs) \<and> length ys = Suc k}"
    proof (intro equalityI subsetI)
      fix ys
      assume "ys \<in> {ys. subseq ys (x # xs) \<and> length ys = Suc k}"
      then obtain z zs where ys: "ys = z # zs" "length zs = k" and sub: "subseq (z # zs) (x # xs)"
        by (cases ys) auto
      show "ys \<in> (#) x ` {ys. subseq ys xs \<and> length ys = k} \<union> {ys. subseq ys xs \<and> length ys = Suc k}"
        using sub ys by (cases "z = x") (auto simp: subseq_Cons2_iff)
    qed (auto intro: subseq_Cons2 list_emb_Cons)
    finally show ?thesis .
  qed
qed auto

lemma subseq_of_submset:
  "M \<subseteq># mset xs \<Longrightarrow> \<exists>ys. subseq ys xs \<and> mset ys = M"
proof (induction xs arbitrary: M)
  case (Cons x xs)
  show ?case
  proof (cases "x \<in># M")
    case True
    then obtain N where M: "M = add_mset x N" by (metis multi_member_split)
    then have "N \<subseteq># mset xs" using Cons.prems by simp
    then obtain ys where "subseq ys xs" "mset ys = N" using Cons.IH by blast
    then show ?thesis using M by (intro exI [of _ "x # ys"]) auto
  next
    case False
    then have "M \<subseteq># mset xs"
      using Cons.prems by (metis diff_single_trivial diff_union_cancelR add_mset_add_single
          mset.simps(2) subset_eq_diff_conv)
    then show ?thesis using Cons.IH by (meson list_emb_Cons)
  qed
qed simp

lemma subseq_mset: "subseq ys xs \<Longrightarrow> mset ys \<subseteq># mset xs"
  by (induction rule: list_emb.induct) (auto intro: subset_mset.order_trans)

section \<open>The rank of five cards does not depend on their order\<close>

lemma sorted_desc_unique:
  fixes xs ys :: "int list"
  assumes "mset xs = mset ys"
  shows "js_sort (\<lambda>a b. b - a) xs = js_sort (\<lambda>a b. b - a) ys"
proof -
  have srt: "sorted (rev (js_sort (\<lambda>a b. b - a) zs))" for zs :: "int list"
    using key_desc.sorted_js_sort [of "\<lambda>x. x" zs]
    by (simp add: sorted_wrt_rev)
  have "sort zs = rev (js_sort (\<lambda>a b. b - a) zs)" for zs :: "int list"
    by (rule properties_for_sort) (simp_all add: srt)
  moreover have "sort xs = sort ys"
    using assms by (metis mset_sort properties_for_sort sorted_sort)
  ultimately show ?thesis by (metis rev_rev_ident)
qed

lemma card_values_perm: "mset cs = mset ds \<Longrightarrow> card_values cs = card_values ds"
  unfolding card_values_def by (rule sorted_desc_unique) (metis mset_map)

lemma is_flush_iff: "cs \<noteq> [] \<Longrightarrow> is_flush cs \<longleftrightarrow> (\<exists>u. suit ` set cs = {u})"
  by (cases cs) (auto simp: is_flush_def)

lemma is_flush_perm: "mset cs = mset ds \<Longrightarrow> is_flush cs = is_flush ds"
  by (metis is_flush_iff mset_eq_setD mset_zero_iff)

lemma those_map_Some [simp]: "those (map Some xs) = Some xs"
  by (induction xs) auto

lemma rankFive_perm: "mset cs = mset ds \<Longrightarrow> rankFive (map Some cs) = rankFive (map Some ds)"
  using card_values_perm [of cs ds] is_flush_perm [of cs ds] mset_eq_length [of cs ds]
  by (simp add: rankFive_def)

section \<open>Ranking five cards never throws\<close>

lemma map_snd_update_sum:
  "(\<Sum>p \<leftarrow> AList.update v (case map_of c v of Some n \<Rightarrow> n + 1 | None \<Rightarrow> (1::nat)) c. snd p)
   = Suc (\<Sum>p \<leftarrow> c. snd p)"
proof (induction c)
  case (Cons p c)
  then show ?case by (cases p) (auto split: option.splits)
qed simp

lemma sum_countValues: "(\<Sum>p \<leftarrow> countValues vs c. snd p) = length vs + (\<Sum>p \<leftarrow> c. snd p)"
  by (induction vs c rule: countValues.induct) (auto simp: map_snd_update_sum)

lemma set_update_subset: "set (AList.update k v al) \<subseteq> insert (k, v) (set al)"
  by (induction al) (auto split: if_splits)

lemma countValues_pos:
  "(\<forall>p \<in> set c. 0 < snd p) \<Longrightarrow> \<forall>p \<in> set (countValues vs c). 0 < snd p"
proof (induction vs c rule: countValues.induct)
  case (2 v vs counts)
  show ?case
    unfolding countValues.simps
    by (rule "2.IH") (use "2.prems" set_update_subset in \<open>fastforce split: option.splits\<close>)
qed simp

lemma byCount_sum: "(\<Sum>p \<leftarrow> byCount vs. snd p) = length vs"
  using sum_countValues [of vs "[]"] by (simp add: byCount_def)

lemma byCount_pos: "p \<in> set (byCount vs) \<Longrightarrow> 0 < snd p"
  using countValues_pos [of "[]" vs] by (auto simp: byCount_def)

text \<open>With counts that are positive and sum to five, a quad or two pairs leave one single.\<close>

lemma rankFrom_total:
  assumes "(\<Sum>p \<leftarrow> bc. snd p) = (5::nat)" "\<forall>p \<in> set bc. 0 < snd p"
  shows "\<exists>h. rankFrom vals fl bc st = Inr h"
proof -
  obtain b0 bs where bc: "bc = b0 # bs" using assms(1) by (cases bc) auto
  have quad: "find (\<lambda>x. snd x = 1) bc \<noteq> None" if "snd b0 = 4"
  proof -
    have "(\<Sum>p \<leftarrow> bs. snd p) = 1" using assms(1) bc that by simp
    then obtain b1 r where "bs = b1 # r" by (cases bs) auto
    then show ?thesis using assms(1,2) bc that by (auto simp: find_None_iff)
  qed
  have two: "find (\<lambda>x. snd x = 1) bc \<noteq> None"
    if "snd b0 = 2" "bs = b1 # r" "snd b1 = 2" for b1 r
  proof -
    have "(\<Sum>p \<leftarrow> r. snd p) = 1" using assms(1) bc that by simp
    then obtain b2 q where "r = b2 # q" by (cases r) auto
    then show ?thesis using assms(1,2) bc that by (auto simp: find_None_iff)
  qed
  show ?thesis
    using quad two unfolding rankFrom_def bc
    by (auto simp: Let_def split: option.splits list.splits)
qed

lemma rankFive_total: "length cs = 5 \<Longrightarrow> \<exists>h. rankFive (map Some cs) = Inr h"
  by (auto simp: rankFive_def Let_def card_values_def byCount_sum
      intro!: rankFrom_total dest: byCount_pos)

lemma rankFrom_category:
  "rankFrom vals fl bc st = Inr h \<Longrightarrow> \<exists>rest. score h = CAT_SCORE (category h) # rest"
  by (auto simp: rankFrom_def mk_hand_def Let_def split: list.splits if_splits option.splits)

lemma rankFive_category:
  "rankFive cs = Inr h \<Longrightarrow> \<exists>rest. score h = CAT_SCORE (category h) # rest"
  by (auto simp: rankFive_def Let_def split: if_splits option.splits dest: rankFrom_category)

lemma compareScores_category:
  assumes "rankFive cs = Inr h" "rankFive ds = Inr k" "category h < category k"
  shows "compareScores (score h) (score k) < 0"
proof -
  obtain r q where "score h = CAT_SCORE (category h) # r" "score k = CAT_SCORE (category k) # q"
    using rankFive_category assms(1,2) by meson
  then show ?thesis
    using assms(3) by (subst compareScores.simps) (auto simp: Let_def less_HandCategory_def)
qed

section \<open>Straights of five values\<close>

lemma js_sort_desc_sorted:
  fixes xs :: "int list"
  assumes "sorted_wrt (>) xs"
  shows "js_sort (\<lambda>a b. b - a) xs = xs"
  using assms
proof (induction xs)
  case (Cons x xs)
  then show ?case by (cases xs) auto
qed simp

lemma js_sort_asc_of_desc:
  fixes xs :: "int list"
  assumes "sorted_wrt (>) xs"
  shows "js_sort (\<lambda>a b. a - b) xs = rev xs"
proof -
  have *: "js_insert (\<lambda>a b. a - b) x ys = ys @ [x]" if "\<forall>y \<in> set ys. y < x" for x :: int and ys
    using that by (induction ys) auto
  show ?thesis using assms by (induction xs) (auto simp: *)
qed

lemma sorted_desc_distinct: "sorted_wrt (>) (xs :: int list) \<Longrightarrow> distinct xs"
  by (induction xs) auto

lemmas upt_small = upt_rec [of 0] upt_rec [of "Suc 0"] upt_rec [of 2] upt_rec [of 3] upt_rec [of 4]

lemma isStraight_five:
  assumes v: "vals = [a, b, c, d, e]" and dec: "a > b" "b > c" "c > d" "d > e"
    and rng: "a \<le> 14" "2 \<le> e"
  shows "isStraight vals =
     (if a - e = 4 then Some a else if vals = [14, 5, 4, 3, 2] then Some 5 else None)"
proof -
  have srt: "sorted_wrt (>) vals" using v dec by auto
  have u: "js_uniq vals = vals" "js_sort (\<lambda>a b. b - a) vals = vals" "js_sort (\<lambda>a b. a - b) vals = rev vals"
    using sorted_desc_distinct [OF srt] js_uniq_distinct js_sort_desc_sorted [OF srt]
      js_sort_asc_of_desc [OF srt] by auto
  have di: "js_uniq [a, b, c, d, e] = [a, b, c, d, e]" "js_uniq [b, c, d, e, 1] = [b, c, d, e, 1]"
    using dec rng by (auto intro!: js_uniq_distinct)
  show ?thesis
  proof (cases "a = 14")
    case True
    then have m: "14 \<in> set vals" using v by simp
    show ?thesis
      using dec rng True di
      by (auto simp: isStraight_def isStraight_desc_def isStraight_asc_def u m Let_def v
          straight_window_def numeral_eq_Suc upt_rec [of 0] upt_rec [of "Suc 0"]
          upt_rec [of "Suc (Suc 0)"] upt_rec [of "Suc (Suc (Suc 0))"]
          upt_rec [of "Suc (Suc (Suc (Suc 0)))"] simp del: js_uniq.simps upt_Suc)
  next
    case False
    then have m: "14 \<notin> set vals" using v dec rng by auto
    show ?thesis
      using dec rng False di
      by (auto simp: isStraight_def isStraight_desc_def isStraight_asc_def u m Let_def v
          straight_window_def numeral_eq_Suc upt_rec [of 0] upt_rec [of "Suc 0"]
          upt_rec [of "Suc (Suc 0)"] upt_rec [of "Suc (Suc (Suc 0))"]
          upt_rec [of "Suc (Suc (Suc (Suc 0)))"] simp del: js_uniq.simps upt_Suc)
  qed
qed

section \<open>The best five\<close>

lemma combinations_map: "combinations (map f xs) k = map (map f) (combinations xs k)"
  by (induction xs k rule: combinations.induct) auto

lemma bestLoop_total:
  "\<forall>f \<in> set fs. \<exists>h. rankFive f = Inr h \<Longrightarrow> \<exists>b. bestLoop fs best = Inr b"
  by (induction fs arbitrary: best) auto

lemma bestLoop_Some:
  assumes "bestLoop fs (Some b0) = Inr r"
  shows "\<exists>b. r = Some b \<and> compareScores (score b0) (score b) \<le> 0
    \<and> (b = b0 \<or> (\<exists>f \<in> set fs. rankFive f = Inr b))
    \<and> (\<forall>f \<in> set fs. \<exists>h. rankFive f = Inr h \<and> compareScores (score h) (score b) \<le> 0)"
  using assms
proof (induction fs arbitrary: b0)
  case (Cons f fs)
  then obtain h where h: "rankFive f = Inr h"
    and r: "bestLoop fs (Some (if compareScores (score h) (score b0) > 0 then h else b0)) = Inr r"
    by (auto split: if_splits)
  let ?b1 = "if compareScores (score h) (score b0) > 0 then h else b0"
  have up: "compareScores (score b0) (score ?b1) \<le> 0" "compareScores (score h) (score ?b1) \<le> 0"
    using compareScores_swap [of "score h" "score b0"] by auto
  from Cons.IH [OF r] obtain b where b: "r = Some b" "compareScores (score ?b1) (score b) \<le> 0"
    "b = ?b1 \<or> (\<exists>f \<in> set fs. rankFive f = Inr b)"
    "\<forall>f \<in> set fs. \<exists>h. rankFive f = Inr h \<and> compareScores (score h) (score b) \<le> 0"
    by blast
  have "compareScores (score b0) (score b) \<le> 0" "compareScores (score h) (score b) \<le> 0"
    using compareScores_trans [OF up(1) b(2)] compareScores_trans [OF up(2) b(2)] by auto
  moreover have "b = b0 \<or> (\<exists>f \<in> set (f # fs). rankFive f = Inr b)"
    using b(3) h by (auto split: if_splits)
  ultimately show ?case using b(1,4) h by auto
qed simp

lemma bestLoop_None:
  assumes "bestLoop fs None = Inr r" "fs \<noteq> []"
  shows "\<exists>b. r = Some b \<and> (\<exists>f \<in> set fs. rankFive f = Inr b)
    \<and> (\<forall>f \<in> set fs. \<exists>h. rankFive f = Inr h \<and> compareScores (score h) (score b) \<le> 0)"
proof -
  obtain f gs where fs: "fs = f # gs" using assms(2) by (cases fs) auto
  then obtain h where h: "rankFive f = Inr h" and r: "bestLoop gs (Some h) = Inr r"
    using assms(1) by auto
  show ?thesis using bestLoop_Some [OF r] h fs by auto
qed

lemma bestHand_best:
  assumes "5 \<le> length (hole @ board)"
  shows "\<exists>h. bestHand (map Some hole) (map Some board) = Inr h
    \<and> (\<exists>five. subseq five (hole @ board) \<and> length five = 5 \<and> rankFive (map Some five) = Inr h)
    \<and> (\<forall>five. mset five \<subseteq># mset (hole @ board) \<longrightarrow> length five = 5 \<longrightarrow>
         (\<exists>k. rankFive (map Some five) = Inr k \<and> compareScores (score k) (score h) \<le> 0))"
proof -
  let ?all = "hole @ board"
  let ?fs = "combinations (map Some ?all) 5"
  have fs: "set ?fs = map Some ` {ys. subseq ys ?all \<and> length ys = 5}"
    unfolding combinations_map by (simp add: combinations_eq)
  have "subseq (take 5 ?all) ?all" by (rule prefix_imp_subseq [OF take_is_prefix])
  then have "map Some (take 5 ?all) \<in> set ?fs" unfolding fs using assms by (intro imageI) simp
  then have ne: "?fs \<noteq> []" by (metis empty_iff empty_set)
  have "\<forall>f \<in> set ?fs. \<exists>h. rankFive f = Inr h"
    unfolding fs using rankFive_total by blast
  then obtain r where r: "bestLoop ?fs None = Inr r"
    using bestLoop_total by blast
  obtain b where b: "r = Some b" "\<exists>f \<in> set ?fs. rankFive f = Inr b"
    "\<forall>f \<in> set ?fs. \<exists>h. rankFive f = Inr h \<and> compareScores (score h) (score b) \<le> 0"
    using bestLoop_None [OF r ne] by auto
  have "bestHand (map Some hole) (map Some board) = Inr b"
    using assms r b(1) by (simp add: bestHand_def not_less flip: map_append)
  moreover have "\<exists>k. rankFive (map Some five) = Inr k \<and> compareScores (score k) (score b) \<le> 0"
    if sub: "mset five \<subseteq># mset ?all" and len: "length five = 5" for five
  proof -
    obtain ys where ys: "subseq ys ?all" "mset ys = mset five" 
      using subseq_of_submset [OF sub] by blast
    have "length ys = 5" using mset_eq_length [OF ys(2)] len by simp
    with ys(1) have "map Some ys \<in> set ?fs" unfolding fs by blast
    then show ?thesis using b(3) rankFive_perm [OF ys(2)] by metis
  qed
  ultimately show ?thesis using b(2) unfolding fs by blast
qed

section \<open>Properties\<close>

text \<open>C9: the best hand is the best: on at least five cards \<open>bestHand\<close> never throws, its result is the
  rank of five of the given cards, and no five of them rank higher.\<close>

theorem bestHand_is_maximum:
  assumes "5 \<le> length (hole @ board)"
  shows "\<exists>h. bestHand (map Some hole) (map Some board) = Inr h
    \<and> (\<exists>five. subseq five (hole @ board) \<and> length five = 5 \<and> rankFive (map Some five) = Inr h)
    \<and> (\<forall>five. mset five \<subseteq># mset (hole @ board) \<longrightarrow> length five = 5 \<longrightarrow>
         (\<exists>k. rankFive (map Some five) = Inr k \<and> compareScores (score k) (score h) \<le> 0))"
  using assms by (rule bestHand_best)

theorem bestHand_is_maximum_witness:
  "\<exists>h. bestHand (map Some (take 2 fullDeck)) (map Some (drop 49 fullDeck)) = Inr h"
proof -
  have "5 \<le> length (take 2 fullDeck @ drop 49 fullDeck)" by simp
  from bestHand_is_maximum [OF this] show ?thesis by blast
qed

text \<open>a hand is worth the same in whatever order its cards are dealt: permuting the cards, or
  moving them between hole and board, leaves the compared score unchanged.\<close>

theorem bestHand_order_irrelevant:
  assumes "mset (hole @ board) = mset (hole' @ board')" and "5 \<le> length (hole @ board)"
  shows "\<exists>h h'. bestHand (map Some hole) (map Some board) = Inr h
     \<and> bestHand (map Some hole') (map Some board') = Inr h'
     \<and> compareScores (score h) (score h') = 0"
proof -
  have len: "5 \<le> length (hole' @ board')" using assms mset_eq_length by metis
  obtain h f where h: "bestHand (map Some hole) (map Some board) = Inr h"
    "subseq f (hole @ board)" "length f = 5" "rankFive (map Some f) = Inr h"
    and hb: "\<And>five. mset five \<subseteq># mset (hole @ board) \<Longrightarrow> length five = 5 \<Longrightarrow>
         \<exists>k. rankFive (map Some five) = Inr k \<and> compareScores (score k) (score h) \<le> 0"
    using bestHand_best [OF assms(2)] by auto
  obtain h' f' where h': "bestHand (map Some hole') (map Some board') = Inr h'"
    "subseq f' (hole' @ board')" "length f' = 5" "rankFive (map Some f') = Inr h'"
    and hb': "\<And>five. mset five \<subseteq># mset (hole' @ board') \<Longrightarrow> length five = 5 \<Longrightarrow>
         \<exists>k. rankFive (map Some five) = Inr k \<and> compareScores (score k) (score h') \<le> 0"
    using bestHand_best [OF len] by auto
  have "compareScores (score h) (score h') \<le> 0"
    using hb' [of f] h subseq_mset [OF h(2)] assms(1) by auto
  moreover have "compareScores (score h') (score h) \<le> 0"
    using hb [of f'] h' subseq_mset [OF h'(2)] assms(1) by auto
  ultimately show ?thesis
    using h(1) h'(1) compareScores_swap [of "score h" "score h'"] by auto
qed

theorem bestHand_order_irrelevant_witness:
  "\<exists>h h'. bestHand (map Some (take 2 fullDeck)) (map Some (drop 47 fullDeck)) = Inr h
     \<and> bestHand (map Some (drop 47 fullDeck)) (map Some (take 2 fullDeck)) = Inr h'
     \<and> compareScores (score h) (score h') = 0"
  by (rule bestHand_order_irrelevant) simp_all

text \<open>the straight detector is exact on five distinct values in range: it reports the high card of
  five consecutive values, five for the wheel A-2-3-4-5, and nothing otherwise.\<close>

theorem isStraight_exact:
  assumes "a > b" "b > c" "c > d" "d > e" "a \<le> 14" "2 \<le> e"
  shows "isStraight [a, b, c, d, e] =
     (if a - e = 4 then Some a else if [a, b, c, d, e] = [14, 5, 4, 3, 2] then Some 5 else None)"
  by (rule isStraight_five [OF refl assms])

theorem isStraight_exact_witness: "isStraight [14, 5, 4, 3, 2] = Some 5"
  by (subst isStraight_exact) simp_all

text \<open>Categories decide: five cards always have a rank, and a hand of a higher category beats every
  hand of a lower one, whatever the kickers.\<close>

theorem category_dominates:
  assumes "length cs = 5" "length ds = 5"
  shows "\<exists>h k. rankFive (map Some cs) = Inr h \<and> rankFive (map Some ds) = Inr k
     \<and> (category h < category k \<longrightarrow> compareScores (score h) (score k) < 0)"
proof -
  obtain h k where hk: "rankFive (map Some cs) = Inr h" "rankFive (map Some ds) = Inr k"
    using rankFive_total assms by meson
  then show ?thesis using compareScores_category by blast
qed

theorem category_dominates_witness:
  "\<exists>h k. rankFive (map Some (take 5 fullDeck)) = Inr h \<and> rankFive (map Some (drop 47 fullDeck)) = Inr k"
proof -
  have "length (take 5 fullDeck) = 5" "length (drop 47 fullDeck) = 5" by simp_all
  from category_dominates [OF this] show ?thesis by blast
qed

end
