(* ===== verification/Money.thy ===== *)
theory Money
  imports Cards
begin

text \<open>
  \<^verbatim>\<open>packages/game-rules/src/money.ts\<close> and \<^verbatim>\<open>cash-mechanics.ts\<close>: the two integer money scales
  (atoms and chips) with the conversions between them, and the Season 1 table rules that are
  switched off. \<open>Chips\<close> and atoms are \<open>bigint\<close>, hence \<open>int\<close>.
\<close>

type_synonym Chips = int

definition ATOMS_PER_USDC :: int where
  "ATOMS_PER_USDC = 1000000"

definition CHIP_UNIT_ATOMS :: int where
  "CHIP_UNIT_ATOMS = 10000"

definition MAX_SAFE_INTEGER :: int where
  "MAX_SAFE_INTEGER = 9007199254740991"

fun asChips :: "js_amount \<Rightarrow> game_error + Chips" where
  "asChips (BigIntAmt n) = Inr n"
| "asChips (NumberAmt NonFinite) = Inl NotFinite"
| "asChips (NumberAmt (Finite q)) = (if js_isInteger q then Inr \<lfloor>q\<rfloor> else Inr (math_round (q * 100)))"

definition chipsToNumber :: "Chips \<Rightarrow> game_error + int" where
  "chipsToNumber chips =
     (if \<bar>chips\<bar> > MAX_SAFE_INTEGER then Inl (ExceedsSafeInteger chips) else Inr chips)"

fun usdToChips :: "js_number \<Rightarrow> game_error + Chips" where
  "usdToChips NonFinite = Inl NotFinite"
| "usdToChips (Finite usd) = Inr (math_round (usd * 100))"

definition chipsToUsd :: "Chips \<Rightarrow> game_error + rat" where
  "chipsToUsd chips = bindE (chipsToNumber chips) (\<lambda>n. Inr (of_int n / 100))"

fun usdcToAtoms :: "js_number \<Rightarrow> game_error + int" where
  "usdcToAtoms NonFinite = Inl NotFinite"
| "usdcToAtoms (Finite usdc) = Inr (math_round (usdc * of_int ATOMS_PER_USDC))"

definition atomsToUsdc :: "int \<Rightarrow> rat" where
  "atomsToUsdc atoms = of_int atoms / of_int ATOMS_PER_USDC"

definition atomsToChips :: "int \<Rightarrow> game_error + Chips" where
  "atomsToChips atoms =
     (if js_rem atoms CHIP_UNIT_ATOMS \<noteq> 0 then Inl (NotChipAligned atoms)
      else Inr (js_div atoms CHIP_UNIT_ATOMS))"

definition chipsToAtoms :: "Chips \<Rightarrow> int" where
  "chipsToAtoms chips = chips * CHIP_UNIT_ATOMS"

definition isChipAligned :: "int \<Rightarrow> bool" where
  "isChipAligned atoms \<longleftrightarrow> js_rem atoms CHIP_UNIT_ATOMS = 0"

definition assertChipAligned :: "int \<Rightarrow> game_error + unit" where
  "assertChipAligned atoms = (if \<not> isChipAligned atoms then Inl (NotChipAligned atoms) else Inr ())"

definition floorToChip :: "int \<Rightarrow> int" where
  "floorToChip atoms = js_div atoms CHIP_UNIT_ATOMS * CHIP_UNIT_ATOMS"

definition padStart2 :: "string \<Rightarrow> string" where
  "padStart2 s = replicate (2 - length s) (CHR ''0'') @ s"

definition formatUsdc :: "int \<Rightarrow> string" where
  "formatUsdc atoms =
     (let neg = atoms < 0;
          ab = (if neg then - atoms else atoms);
          whole = js_div ab ATOMS_PER_USDC;
          frac = js_rem ab ATOMS_PER_USDC;
          cents = js_div frac 10000
      in (if neg then ''-'' else '''') @ ''$'' @ int_string whole @ ''.'' @ padStart2 (int_string cents))"

record ConservationCheck =
  ok :: bool
  wagered :: Chips
  paidOut :: Chips
  cc_rake :: Chips
  drift :: Chips

definition checkConservation ::
  "js_amount \<Rightarrow> js_amount \<Rightarrow> js_amount \<Rightarrow> game_error + ConservationCheck" where
  "checkConservation inWagered inPaidOut inRake =
     bindE (asChips inWagered) (\<lambda>w. bindE (asChips inPaidOut) (\<lambda>p. bindE (asChips inRake) (\<lambda>r.
       let d = p + r - w
       in Inr \<lparr>ok = (d = 0), wagered = w, paidOut = p, cc_rake = r, drift = d\<rparr>)))"

section \<open>Season 1 cash mechanics\<close>

text \<open>The frozen table: each key is a boolean switch or another value.\<close>

datatype mech_value = MBool bool | MNum int | MStr string

definition SEASON1_CASH_MECHANICS :: "(string \<times> mech_value) list" where
  "SEASON1_CASH_MECHANICS =
     [(''game'', MStr ''NLHE''), (''antes'', MBool False), (''straddles'', MBool False),
      (''runItTwice'', MBool False), (''bombPots'', MBool False), (''insurance'', MBool False),
      (''minBuyInBb'', MNum 40), (''maxBuyInBb'', MNum 100),
      (''sitOutReturnPolicy'', MStr ''wait_for_big_blind'')]"

definition assertSeason1MechanicAllowed :: "string \<Rightarrow> game_error + unit" where
  "assertSeason1MechanicAllowed flag =
     (if map_of SEASON1_CASH_MECHANICS flag = Some (MBool False)
      then Inl (MechanicNotSupported flag) else Inr ())"

section \<open>Facts\<close>

lemma chip_unit_nz [simp]: "CHIP_UNIT_ATOMS \<noteq> 0" "0 < CHIP_UNIT_ATOMS"
  by (simp_all add: CHIP_UNIT_ATOMS_def)

lemma isChipAligned_iff: "isChipAligned a \<longleftrightarrow> (\<exists>c. a = chipsToAtoms c)"
  by (auto simp: isChipAligned_def js_rem_eq_0_iff chipsToAtoms_def dvd_def mult.commute)

lemma atomsToChips_chipsToAtoms: "atomsToChips (chipsToAtoms c) = Inr c"
  by (auto simp: atomsToChips_def chipsToAtoms_def js_div_mult_cancel js_rem_eq_0_iff)

lemma atomsToChips_Inr_iff: "atomsToChips a = Inr c \<longleftrightarrow> a = chipsToAtoms c"
proof
  assume "atomsToChips a = Inr c"
  then have "js_rem a CHIP_UNIT_ATOMS = 0" "js_div a CHIP_UNIT_ATOMS = c"
    by (auto simp: atomsToChips_def split: if_splits)
  then show "a = chipsToAtoms c"
    using js_div_rem [of a CHIP_UNIT_ATOMS] by (simp add: chipsToAtoms_def)
qed (simp add: atomsToChips_chipsToAtoms)

lemma floorToChip_bounds:
  assumes "0 \<le> a"
  shows "isChipAligned (floorToChip a)" "floorToChip a \<le> a" "a < floorToChip a + CHIP_UNIT_ATOMS"
proof -
  have fl: "floorToChip a = a div CHIP_UNIT_ATOMS * CHIP_UNIT_ATOMS"
    using assms by (simp add: floorToChip_def js_arith)
  show "isChipAligned (floorToChip a)"
    by (simp add: floorToChip_def isChipAligned_def js_rem_eq_0_iff)
  have "a = a div CHIP_UNIT_ATOMS * CHIP_UNIT_ATOMS + a mod CHIP_UNIT_ATOMS"
    by simp
  moreover have "0 \<le> a mod CHIP_UNIT_ATOMS" "a mod CHIP_UNIT_ATOMS < CHIP_UNIT_ATOMS"
    by (simp_all add: pos_mod_sign pos_mod_bound)
  ultimately show "floorToChip a \<le> a" "a < floorToChip a + CHIP_UNIT_ATOMS"
    unfolding fl by linarith+
qed

section \<open>Properties\<close>

text \<open>Chips and atoms convert without loss: \<open>atomsToChips\<close> inverts \<open>chipsToAtoms\<close>, succeeds on
  exactly the chip-aligned amounts, and flooring to the grid drops less than one chip.\<close>

theorem chips_atoms_roundtrip:
  "atomsToChips (chipsToAtoms c) = Inr c
   \<and> (atomsToChips a = Inr c \<longleftrightarrow> a = chipsToAtoms c)
   \<and> (isOk (atomsToChips a) \<longleftrightarrow> isChipAligned a)
   \<and> (a < 0 \<or> floorToChip a \<le> a \<and> a < floorToChip a + CHIP_UNIT_ATOMS \<and> isChipAligned (floorToChip a))"
proof -
  have "isOk (atomsToChips a) \<longleftrightarrow> isChipAligned a"
    by (auto simp: atomsToChips_def isChipAligned_def)
  then show ?thesis
    using atomsToChips_chipsToAtoms atomsToChips_Inr_iff floorToChip_bounds [of a]
    by (cases "a < 0") (auto simp: not_less)
qed

end
