(* ===== verification/Rake.thy ===== *)
theory Rake
  imports Money
begin

text \<open>
  \<^verbatim>\<open>packages/game-rules/src/rake.ts\<close>: the rake formula, the uncalled part of a street bet, and the
  two allocations of an assessed rake (over pot layers and over winners).
  Basis points, hand counts and seat numbers are integral \<open>number\<close>s, hence \<open>int\<close>.
\<close>

definition RAKE_BPS_DENOMINATOR :: int where
  "RAKE_BPS_DENOMINATOR = 10000"

record ComputeRakeInput =
  eligiblePot :: js_amount
  rakeBps :: int
  cr_rakeCap :: "js_amount option"
  liveHands :: int
  endedBeforeFlop :: "bool option"

definition computeRake :: "ComputeRakeInput \<Rightarrow> game_error + Chips" where
  "computeRake i =
     bindE (asChips (eligiblePot i)) (\<lambda>elig.
       if rakeBps i \<le> 0 \<or> elig \<le> 0 then Inr 0
       else if endedBeforeFlop i = Some True then Inr 0
       else if endedBeforeFlop i \<noteq> Some False \<and> liveHands i \<le> 1 then Inr 0
       else
         let rake = js_div (elig * rakeBps i) RAKE_BPS_DENOMINATOR
         in bindE
              (case cr_rakeCap i of
                 None \<Rightarrow> Inr rake
               | Some c \<Rightarrow> bindE (asChips c) (\<lambda>cap. Inr (if rake > cap then cap else rake)))
              (\<lambda>rake. Inr (if rake < 0 then 0 else rake)))"

fun rakePctToBps :: "js_number \<Rightarrow> int" where
  "rakePctToBps NonFinite = 0"
| "rakePctToBps (Finite rakePct) =
     (if rakePct \<le> 0 then 0 else \<lfloor>rakePct * of_int RAKE_BPS_DENOMINATOR + 1 / 2\<rfloor>)"

definition rakeBpsToPct :: "int \<Rightarrow> js_number" where
  "rakeBpsToPct bps = Finite (of_int bps / of_int RAKE_BPS_DENOMINATOR)"

definition computeRakeFromPct ::
  "js_amount \<Rightarrow> js_number \<Rightarrow> js_amount option \<Rightarrow> int \<Rightarrow> bool option \<Rightarrow> game_error + Chips" where
  "computeRakeFromPct pot rakePct cap live ended =
     computeRake \<lparr>eligiblePot = pot, rakeBps = rakePctToBps rakePct, cr_rakeCap = cap,
                  liveHands = live, endedBeforeFlop = ended\<rparr>"

text \<open>What \<open>uncalledBetAmount\<close> reads of a seat.\<close>

record RakeSeat =
  rs_seatIndex :: int
  rs_bet :: js_amount
  rs_folded :: bool

fun maxOtherBet :: "int \<Rightarrow> RakeSeat list \<Rightarrow> Chips \<Rightarrow> game_error + Chips" where
  "maxOtherBet w [] m = Inr m"
| "maxOtherBet w (s # ss) m =
     (if rs_seatIndex s = w then maxOtherBet w ss m
      else bindE (asChips (rs_bet s)) (\<lambda>b. maxOtherBet w ss (if b > m then b else m)))"

definition uncalledBetAmount :: "RakeSeat list \<Rightarrow> int \<Rightarrow> game_error + Chips" where
  "uncalledBetAmount seats w =
     (case find (\<lambda>s. rs_seatIndex s = w) seats of
        None \<Rightarrow> Inr 0
      | Some winner \<Rightarrow>
          bindE (asChips (rs_bet winner)) (\<lambda>winnerBet.
            if winnerBet \<le> 0 then Inr 0
            else bindE (maxOtherBet w seats 0) (\<lambda>maxOther.
              let excess = winnerBet - maxOther in Inr (if excess > 0 then excess else 0))))"

section \<open>Allocation over pot layers\<close>

fun sidePotShares :: "Chips \<Rightarrow> Chips \<Rightarrow> Chips list \<Rightarrow> Chips \<Rightarrow> Chips list" where
  "sidePotShares rake potPool [] rakeLeft = []"
| "sidePotShares rake potPool [a] rakeLeft = [rakeLeft]"
| "sidePotShares rake potPool (a # b # rest) rakeLeft =
     (let lr = js_div (a * rake) potPool
      in lr # sidePotShares rake potPool (b # rest) (rakeLeft - lr))"

definition allocateSidePotRake :: "js_amount list \<Rightarrow> js_amount \<Rightarrow> game_error + Chips list" where
  "allocateSidePotRake layers totalRake =
     (if layers = [] then Inr []
      else bindE (asChips totalRake) (\<lambda>rake.
        if rake \<le> 0 then Inr (map (\<lambda>_. 0) layers)
        else bindE (mapE asChips layers) (\<lambda>amounts.
          let potPool = sum_list amounts
          in if potPool \<le> 0 then Inr (map (\<lambda>_. 0) layers)
             else Inr (sidePotShares rake potPool amounts rake))))"

section \<open>Allocation over winners\<close>

text \<open>\<open>for (let i = 1; i <= seatCount; i++) order.push((button + i) % seatCount)\<close>\<close>

definition buttonOrder :: "int \<Rightarrow> int \<Rightarrow> int list" where
  "buttonOrder button seatCount =
     map (\<lambda>i. js_rem (button + int i) seatCount) [1..<Suc (nat seatCount)]"

fun equalShares :: "Chips \<Rightarrow> Chips \<Rightarrow> int list \<Rightarrow> (int \<times> Chips) list" where
  "equalShares share rem [] = []"
| "equalShares share rem (s # ss) =
     (s, share + (if rem > 0 then 1 else 0)) # equalShares share (if rem > 0 then rem - 1 else rem) ss"

definition allocateRakeAmongWinners ::
  "int list \<Rightarrow> js_amount \<Rightarrow> int \<Rightarrow> int \<Rightarrow> game_error + (int \<times> Chips) list" where
  "allocateRakeAmongWinners winners handRake button seatCount =
     bindE (asChips handRake) (\<lambda>rake.
       if rake \<le> 0 \<or> winners = [] \<or> seatCount \<le> 0 then Inr []
       else
         let order = buttonOrder button seatCount;
             unique = js_sort (\<lambda>a b. js_indexOf order a - js_indexOf order b) (js_uniq winners);
             n = int (length unique);
             share = js_div rake n;
             rem = rake - share * n
         in Inr (equalShares share rem unique))"

section \<open>Conservation helpers and caps\<close>

definition checkHandConservation ::
  "js_amount list \<Rightarrow> js_amount list \<Rightarrow> js_amount \<Rightarrow> game_error + bool" where
  "checkHandConservation stacksBefore stacksAfter handRake =
     bindE (mapE asChips stacksBefore) (\<lambda>before. bindE (mapE asChips stacksAfter) (\<lambda>after.
       bindE (asChips handRake) (\<lambda>r. Inr (sum_list before = sum_list after + r))))"

definition collectibleRakeFromProfit :: "js_amount \<Rightarrow> js_amount option \<Rightarrow> js_amount \<Rightarrow> Chips" where
  "collectibleRakeFromProfit stack buyIn rakeOwed = 0"

definition platformFeesForSessionPlayer ::
  "js_amount \<Rightarrow> js_amount \<Rightarrow> js_amount \<Rightarrow> game_error + int" where
  "platformFeesForSessionPlayer assessedTabs inBuyIn inCashOut =
     bindE (asChips assessedTabs) (\<lambda>assessed. bindE (asChips inBuyIn) (\<lambda>buyIn.
       bindE (asChips inCashOut) (\<lambda>cashOut.
         if \<not> assessed > 0 then Inr 0
         else if cashOut \<le> buyIn then Inr 0
         else Inr assessed)))"

definition checkSessionConservation ::
  "js_amount \<Rightarrow> js_amount \<Rightarrow> js_amount \<Rightarrow> game_error + bool" where
  "checkSessionConservation startingLocked finalPlayerPayouts totalRake =
     bindE (asChips startingLocked) (\<lambda>a. bindE (asChips finalPlayerPayouts) (\<lambda>b.
       bindE (asChips totalRake) (\<lambda>c. Inr (a = b + c))))"

fun rakeCapFromMilliBb :: "js_amount \<Rightarrow> js_number \<Rightarrow> game_error + Chips" where
  "rakeCapFromMilliBb bb NonFinite = Inr 0"
| "rakeCapFromMilliBb bb (Finite milliBB) =
     (if milliBB \<le> 0 then Inr 0
      else bindE (asChips bb) (\<lambda>chips. Inr (js_div (chips * \<lfloor>milliBB\<rfloor>) 1000)))"

fun rakeCapFromBb :: "js_amount \<Rightarrow> js_number \<Rightarrow> game_error + Chips" where
  "rakeCapFromBb bb NonFinite = Inr 0"
| "rakeCapFromBb bb (Finite bbMultiple) =
     (if bbMultiple \<le> 0 then Inr 0
      else rakeCapFromMilliBb bb (Finite (of_int (math_round (bbMultiple * 1000)))))"

section \<open>Facts: the formula\<close>

lemma rake_div_bounds:
  fixes e :: int
  assumes "0 \<le> e" "0 \<le> b" "b \<le> RAKE_BPS_DENOMINATOR"
  shows "0 \<le> js_div (e * b) RAKE_BPS_DENOMINATOR" "js_div (e * b) RAKE_BPS_DENOMINATOR \<le> e"
proof -
  have pos: "0 < RAKE_BPS_DENOMINATOR" by (simp add: RAKE_BPS_DENOMINATOR_def)
  have eq: "js_div (e * b) RAKE_BPS_DENOMINATOR = e * b div RAKE_BPS_DENOMINATOR"
    using assms pos by (simp add: js_arith)
  show "0 \<le> js_div (e * b) RAKE_BPS_DENOMINATOR"
    unfolding eq using assms pos by (simp add: pos_imp_zdiv_nonneg_iff)
  have "e * b \<le> e * RAKE_BPS_DENOMINATOR" using assms by (simp add: mult_left_mono)
  then have "e * b div RAKE_BPS_DENOMINATOR \<le> e * RAKE_BPS_DENOMINATOR div RAKE_BPS_DENOMINATOR"
    using pos by (intro zdiv_mono1) auto
  then show "js_div (e * b) RAKE_BPS_DENOMINATOR \<le> e"
    unfolding eq using pos by simp
qed

lemma computeRake_bounds:
  assumes "computeRake i = Inr r" "asChips (eligiblePot i) = Inr e"
    and "rakeBps i \<le> RAKE_BPS_DENOMINATOR"
  shows "0 \<le> r" "r \<le> max e 0"
proof -
  have "0 \<le> r \<and> r \<le> max e 0"
  proof (cases "rakeBps i \<le> 0 \<or> e \<le> 0")
    case True
    then show ?thesis using assms by (auto simp: computeRake_def)
  next
    case False
    then show ?thesis
      using assms rake_div_bounds [of e "rakeBps i"]
      by (auto simp: computeRake_def Let_def split: if_splits option.splits)
  qed
  then show "0 \<le> r" "r \<le> max e 0" by auto
qed

lemma computeRake_total:
  "isOk (asChips (eligiblePot i)) \<Longrightarrow> (\<forall>c. cr_rakeCap i = Some c \<longrightarrow> isOk (asChips c)) \<Longrightarrow>
   \<exists>r. computeRake i = Inr r"
  by (auto simp: computeRake_def isOk_iff Let_def split: option.split)

lemma computeRakeFromPct_total:
  "\<exists>r. computeRakeFromPct (BigIntAmt e) pct (map_option BigIntAmt cap) live ended = Inr r"
  unfolding computeRakeFromPct_def by (rule computeRake_total) auto

lemma computeRakeFromPct_bounds:
  assumes "computeRakeFromPct (BigIntAmt e) pct cap live ended = Inr r"
    and "rakePctToBps pct \<le> RAKE_BPS_DENOMINATOR"
  shows "0 \<le> r" "r \<le> max e 0"
  using computeRake_bounds [OF assms(1) [unfolded computeRakeFromPct_def], of e] assms(2) by auto

lemma rakePctToBps_roundtrip: "0 \<le> b \<Longrightarrow> rakePctToBps (rakeBpsToPct b) = b"
proof -
  assume "0 \<le> b"
  have "\<lfloor>(of_int b :: rat) + 1 / 2\<rfloor> = b" by linarith
  with \<open>0 \<le> b\<close> show ?thesis
    by (auto simp: rakeBpsToPct_def RAKE_BPS_DENOMINATOR_def divide_le_0_iff)
qed

section \<open>Facts: the uncalled bet\<close>

lemma maxOtherBet_bigint:
  assumes "\<And>s. s \<in> set ss \<Longrightarrow> rs_bet s = BigIntAmt (f s)"
  shows "maxOtherBet w ss m = Inr (foldl max m (map f (filter (\<lambda>s. rs_seatIndex s \<noteq> w) ss)))"
  using assms by (induction ss arbitrary: m) (auto simp: max_def)

lemma foldl_max_ge: "(m::int) \<le> foldl max m xs"
  by (induction xs arbitrary: m) (auto intro: order_trans [OF max.cobounded1])

lemma foldl_max_ge_member: "x \<in> set xs \<Longrightarrow> x \<le> foldl max (m::int) xs"
proof (induction xs arbitrary: m)
  case (Cons y ys)
  then show ?case
    using foldl_max_ge [of "max m y" ys] by (auto simp: max.bounded_iff)
qed simp

lemma uncalledBetAmount_bigint:
  assumes "\<And>s. s \<in> set ss \<Longrightarrow> rs_bet s = BigIntAmt (f s)"
    and "find (\<lambda>s. rs_seatIndex s = w) ss = Some winner"
  shows "\<exists>u. uncalledBetAmount ss w = Inr u \<and> 0 \<le> u \<and> u \<le> max 0 (f winner)"
proof -
  have "winner \<in> set ss" using assms(2) by (auto simp: find_Some_iff)
  then have "rs_bet winner = BigIntAmt (f winner)" using assms(1) by blast
  moreover have "0 \<le> foldl max 0 (map f (filter (\<lambda>s. rs_seatIndex s \<noteq> w) ss))"
    by (rule foldl_max_ge)
  ultimately show ?thesis
    using assms maxOtherBet_bigint [OF assms(1)]
    by (auto simp: uncalledBetAmount_def Let_def)
qed

section \<open>Facts: allocations\<close>

lemma sum_sidePotShares: "amounts \<noteq> [] \<Longrightarrow> sum_list (sidePotShares rake potPool amounts left) = left"
  by (induction rake potPool amounts left rule: sidePotShares.induct) (auto simp: Let_def)

lemma length_sidePotShares [simp]:
  "length (sidePotShares rake potPool amounts left) = length amounts"
  by (induction rake potPool amounts left rule: sidePotShares.induct) (auto simp: Let_def)

lemma sidePotShares_nonneg:
  assumes "0 \<le> rake" "0 < potPool" "\<forall>a \<in> set amounts. 0 \<le> a"
    and "sum_list amounts * rake \<le> left * potPool"
  shows "\<forall>x \<in> set (sidePotShares rake potPool amounts left). 0 \<le> x"
  using assms
proof (induction rake potPool amounts left rule: sidePotShares.induct)
  case (2 rake potPool a left)
  have "0 \<le> left * potPool"
    using "2.prems" by (auto intro: order_trans [OF mult_nonneg_nonneg])
  then show ?case using "2.prems" by (simp add: zero_le_mult_iff)
next
  case (3 rake potPool a b rest left)
  let ?lr = "js_div (a * rake) potPool"
  have lr: "?lr = a * rake div potPool" using "3.prems" by (simp add: js_arith)
  have "?lr * potPool \<le> a * rake"
    unfolding lr using minus_mod_eq_div_mult [of "a * rake" potPool] "3.prems"
    by (metis diff_ge_0_iff_ge minus_div_mult_eq_mod pos_mod_sign)
  moreover have "0 \<le> ?lr"
    unfolding lr using "3.prems" by (simp add: pos_imp_zdiv_nonneg_iff)
  ultimately show ?case
    using "3.IH" [OF refl] "3.prems" by (auto simp: Let_def algebra_simps)
qed simp

lemma map_fst_equalShares [simp]: "map fst (equalShares share rem ss) = ss"
  by (induction share rem ss rule: equalShares.induct) auto

lemma sum_equalShares:
  assumes "0 \<le> rem" "rem \<le> int (length ss)"
  shows "sum_of snd (equalShares share rem ss) = share * int (length ss) + rem"
  using assms by (induction share rem ss rule: equalShares.induct) (auto simp: algebra_simps)

lemma equalShares_range:
  "(s, a) \<in> set (equalShares share rem ss) \<Longrightarrow> share \<le> a \<and> a \<le> share + 1"
  by (induction share rem ss rule: equalShares.induct) (auto split: if_splits)

lemma split_remainder:
  fixes r n :: int
  assumes "0 \<le> r" "0 < n"
  shows "0 \<le> r - js_div r n * n" "r - js_div r n * n < n"
  using assms minus_div_mult_eq_mod [of r n] by (auto simp: js_arith)

lemma allocateRakeAmongWinners_total:
  "\<exists>tabs. allocateRakeAmongWinners ws (BigIntAmt r) button n = Inr tabs"
  unfolding allocateRakeAmongWinners_def Let_def by (simp split: if_split)

lemma allocateRakeAmongWinners_ok:
  assumes "allocateRakeAmongWinners ws (BigIntAmt r) button n = Inr tabs"
    and "0 < r" "ws \<noteq> []" "0 < n"
  shows "sum_of snd tabs = r" "set (map fst tabs) = set ws" "distinct (map fst tabs)"
    and "\<exists>share. \<forall>a \<in> set (map snd tabs). share \<le> a \<and> a \<le> share + 1"
proof -
  define order where "order = buttonOrder button n"
  define unique where
    "unique = js_sort (\<lambda>a b. js_indexOf order a - js_indexOf order b) (js_uniq ws)"
  define k where "k = int (length unique)"
  have "unique \<noteq> []" using assms(3) unfolding unique_def
    by (metis js_sort_Nil_iff set_empty2 set_js_uniq)
  then have k: "0 < k" unfolding k_def by simp
  have tabs: "tabs = equalShares (js_div r k) (r - js_div r k * k) unique"
    using assms
    by (auto simp: allocateRakeAmongWinners_def order_def unique_def k_def Let_def)
  show "sum_of snd tabs = r"
    using sum_equalShares [of "r - js_div r k * k" unique] split_remainder [of r k] assms(2) k
    unfolding tabs k_def by simp
  show "set (map fst tabs) = set ws" unfolding tabs by (simp only: map_fst_equalShares) (simp add: unique_def)
  show "distinct (map fst tabs)" unfolding tabs by (simp only: map_fst_equalShares)
      (metis distinct_js_uniq distinct_map_js_sort list.map_id unique_def)
  show "\<exists>share. \<forall>a \<in> set (map snd tabs). share \<le> a \<and> a \<le> share + 1"
    unfolding tabs using equalShares_range by fastforce
qed

section \<open>Properties\<close>

text \<open>the assessed rake never exceeds the eligible pot or the cap and is never negative, for
  every basis-point rate up to 100%; it is zero when the hand ended before the flop; and the
  assessment is total on integer amounts.\<close>

theorem computeRake_spec:
  assumes "rakeBps i \<le> RAKE_BPS_DENOMINATOR" and "eligiblePot i = BigIntAmt e"
    and "cr_rakeCap i = map_option BigIntAmt cap"
  shows "\<exists>r. computeRake i = Inr r \<and> 0 \<le> r \<and> r \<le> max e 0
     \<and> (\<forall>c. cap = Some c \<longrightarrow> r \<le> max c 0)
     \<and> (endedBeforeFlop i = Some True \<longrightarrow> r = 0)"
proof -
  have "isOk (asChips (eligiblePot i))" "\<forall>c. cr_rakeCap i = Some c \<longrightarrow> isOk (asChips c)"
    using assms by auto
  then obtain r where r: "computeRake i = Inr r"
    using computeRake_total [of i] by blast
  have "\<forall>c. cap = Some c \<longrightarrow> r \<le> max c 0"
    using r assms by (auto simp: computeRake_def Let_def split: if_splits)
  moreover have "endedBeforeFlop i = Some True \<longrightarrow> r = 0"
    using r assms by (auto simp: computeRake_def split: if_splits)
  ultimately show ?thesis
    using r computeRake_bounds [OF r, of e] assms by auto
qed

theorem computeRake_spec_witness:
  "\<exists>r. computeRake \<lparr>eligiblePot = BigIntAmt 1000, rakeBps = 500, cr_rakeCap = Some (BigIntAmt 30),
                    liveHands = 2, endedBeforeFlop = None\<rparr> = Inr r \<and> 0 \<le> r \<and> r \<le> 30"
proof -
  have "\<exists>r. computeRake \<lparr>eligiblePot = BigIntAmt 1000, rakeBps = 500,
              cr_rakeCap = Some (BigIntAmt 30), liveHands = 2, endedBeforeFlop = None\<rparr> = Inr r
          \<and> 0 \<le> r \<and> r \<le> max 1000 0 \<and> (\<forall>c. Some 30 = Some c \<longrightarrow> r \<le> max c 0)
          \<and> (None = Some True \<longrightarrow> r = 0)"
    using computeRake_spec [of "\<lparr>eligiblePot = BigIntAmt 1000, rakeBps = 500,
        cr_rakeCap = Some (BigIntAmt 30), liveHands = 2, endedBeforeFlop = None\<rparr>" 1000 "Some 30"]
    by (simp add: RAKE_BPS_DENOMINATOR_def)
  then show ?thesis by auto
qed

text \<open>Both allocations of an assessed rake are exact. Over pot layers the parts are
  non-negative and sum to the rake; over winners the parts go to each distinct winner once, sum
  to the rake, and differ by at most one chip.\<close>

theorem rake_allocation_exact:
  assumes "0 < r" and "\<forall>a \<in> set amounts. 0 \<le> a" and "0 < sum_list amounts"
    and "winners \<noteq> []" and "0 < seatCount"
  shows "(\<exists>parts. allocateSidePotRake (map BigIntAmt amounts) (BigIntAmt r) = Inr parts
            \<and> length parts = length amounts \<and> sum_list parts = r \<and> (\<forall>p \<in> set parts. 0 \<le> p))
       \<and> (\<exists>tabs share. allocateRakeAmongWinners winners (BigIntAmt r) button seatCount = Inr tabs
            \<and> sum_of snd tabs = r \<and> set (map fst tabs) = set winners \<and> distinct (map fst tabs)
            \<and> (\<forall>a \<in> set (map snd tabs). share \<le> a \<and> a \<le> share + 1))"
proof
  have ne: "amounts \<noteq> []" using assms(3) by auto
  have "mapE asChips (map BigIntAmt amounts) = Inr amounts"
    by (induction amounts) auto
  then have "allocateSidePotRake (map BigIntAmt amounts) (BigIntAmt r)
     = Inr (sidePotShares r (sum_list amounts) amounts r)"
    using assms ne by (simp add: allocateSidePotRake_def)
  moreover have "\<forall>p \<in> set (sidePotShares r (sum_list amounts) amounts r). 0 \<le> p"
    using sidePotShares_nonneg [of r "sum_list amounts" amounts r] assms by (simp add: mult.commute)
  ultimately show "\<exists>parts. allocateSidePotRake (map BigIntAmt amounts) (BigIntAmt r) = Inr parts
      \<and> length parts = length amounts \<and> sum_list parts = r \<and> (\<forall>p \<in> set parts. 0 \<le> p)"
    using sum_sidePotShares [OF ne] by auto
next
  obtain tabs where t: "allocateRakeAmongWinners winners (BigIntAmt r) button seatCount = Inr tabs"
    using allocateRakeAmongWinners_total by blast
  note ok = allocateRakeAmongWinners_ok [OF t assms(1) assms(4) assms(5)]
  show "\<exists>tabs share. allocateRakeAmongWinners winners (BigIntAmt r) button seatCount = Inr tabs
      \<and> sum_of snd tabs = r \<and> set (map fst tabs) = set winners \<and> distinct (map fst tabs)
      \<and> (\<forall>a \<in> set (map snd tabs). share \<le> a \<and> a \<le> share + 1)"
    using t ok by blast
qed

theorem rake_allocation_exact_witness:
  "\<exists>parts. allocateSidePotRake (map BigIntAmt [60, 40]) (BigIntAmt 7) = Inr parts
     \<and> sum_list parts = 7"
  using rake_allocation_exact [of 7 "[60, 40]" "[2, 0]" 3 0] by auto

end
