(* ===== verification/Holdem.thy ===== *)
theory Holdem
  imports Hand_Rank Rake
begin

text \<open>
  \<^verbatim>\<open>packages/game-rules/src/holdem.ts\<close>: the authoritative no-limit hold'em engine, operation by
  operation. The table is a record with the fields of \<open>HoldemState\<close>; seats are the list the code keeps,
  looked up by \<open>seatIndex\<close> with \<open>find\<close> as the code does; an operation returns the next state and the
  events it emits, or the error it throws. SHA-256 and HMAC are parameters of \<open>startHand\<close>.
\<close>

section \<open>Data\<close>

datatype Street =
    waiting | dealing | preflop | flop | turn | river | showdown | settlement

record SeatState =
  seatIndex :: int
  playerId :: string
  agentId :: string
  stack :: Chips
  bet :: Chips
  totalBet :: Chips
  hole :: "Card option list option"
  folded :: bool
  allIn :: bool
  sitOut :: bool

record LegalAction =
  la_action :: PokerAction
  minAmount :: "Chips option"
  maxAmount :: "Chips option"

record TableConfig =
  tableId :: string
  smallBlind :: Chips
  bigBlind :: Chips
  rakePct :: js_number
  rakeCap :: "Chips option"

record PotLayer =
  pl_amount :: Chips
  contributors :: "int list"
  eligible :: "int list"

record Payout =
  po_seatIndex :: int
  po_amount :: Chips
  po_label :: string

record HoldemState =
  config :: TableConfig
  handId :: "string option"
  handNumber :: int
  street :: Street
  button :: int
  deck :: "Card list"
  board :: "Card option list"
  pot :: Chips
  seats :: "SeatState list"
  actingIndex :: "int option"
  currentBet :: Chips
  minRaise :: Chips
  lastAggressor :: "int option"
  firstToAct :: "int option"
  serverSeed :: "string option"
  seedCommit :: "bytes32 option"
  winners :: "Payout list"
  rake :: Chips
  sessionRake :: Chips
  actedThisStreet :: "int set"
  lastRaiseComplete :: bool

datatype BlindKind = SB | BB

text \<open>The events this file emits (\<open>RUNOUT_REVEALED\<close> and \<open>EQUITY_UPDATED\<close> are emitted elsewhere).\<close>

datatype EngineEvent =
    HAND_STARTED string int bytes32 int
  | BLINDS_POSTED "(int \<times> Chips \<times> BlindKind) list" Chips
  | HOLE_CARDS_DEALT "(int \<times> Card option list) list"
  | PLAYER_ACTED int PokerAction "Chips option" Chips Chips Street
  | STREET_DEALT Street "Card option list"
  | POT_UPDATED Chips
  | UNCALLED_BET_RETURNED "int option" Chips Street
  | SHOWDOWN_REVEALED "(int \<times> Card option list \<times> string) list"
  | HAND_SETTLED "Payout list" Chips "(int \<times> Chips) list" "(int \<times> Chips) list" "(int \<times> Chips) list"
      "(int option \<times> Chips) option" "string option"
  | STACKS_UPDATED "(int \<times> Chips) list"

type_synonym step_result = "game_error + HoldemState \<times> EngineEvent list"

section \<open>Seats\<close>

definition seat_at :: "SeatState list \<Rightarrow> int \<Rightarrow> SeatState option" where
  "seat_at ss idx = find (\<lambda>s. seatIndex s = idx) ss"

text \<open>Mutating the object \<open>find\<close> returned: the first seat with that index.\<close>

fun update_seat :: "int \<Rightarrow> (SeatState \<Rightarrow> SeatState) \<Rightarrow> SeatState list \<Rightarrow> SeatState list" where
  "update_seat idx f [] = []"
| "update_seat idx f (s # ss) = (if seatIndex s = idx then f s # ss else s # update_seat idx f ss)"

definition nextSeat :: "HoldemState \<Rightarrow> int \<Rightarrow> (SeatState \<Rightarrow> bool) \<Rightarrow> int option" where
  "nextSeat st from pred =
     (let n = length (seats st)
      in find (\<lambda>idx. case seat_at (seats st) idx of Some seat \<Rightarrow> pred seat | None \<Rightarrow> False)
           (map (\<lambda>i. js_rem (from + int i) (int n)) [1..<Suc n]))"

definition takeChips :: "SeatState \<Rightarrow> Chips \<Rightarrow> SeatState \<times> Chips" where
  "takeChips seat amount =
     (let paid = (if stack seat < amount then stack seat else amount);
          s = seat\<lparr>stack := stack seat - paid, bet := bet seat + paid,
                   totalBet := totalBet seat + paid\<rparr>
      in (if stack s = 0 then s\<lparr>allIn := True\<rparr> else s, paid))"

section \<open>Table set-up\<close>

definition normalizeTableConfig ::
  "string \<Rightarrow> js_amount \<Rightarrow> js_amount \<Rightarrow> js_number \<Rightarrow> js_amount option \<Rightarrow> game_error + TableConfig" where
  "normalizeTableConfig tid sb bb pct cap =
     bindE (asChips sb) (\<lambda>s. bindE (asChips bb) (\<lambda>b.
       bindE (case cap of None \<Rightarrow> Inr None | Some c \<Rightarrow> bindE (asChips c) (\<lambda>k. Inr (Some k))) (\<lambda>k.
         Inr \<lparr>tableId = tid, smallBlind = s, bigBlind = b, rakePct = pct, rakeCap = k\<rparr>)))"

definition emptySeat :: "int \<Rightarrow> SeatState" where
  "emptySeat i = \<lparr>seatIndex = i, playerId = '''', agentId = '''', stack = 0, bet = 0, totalBet = 0,
     hole = None, folded = True, allIn = False, sitOut = True\<rparr>"

definition createTable ::
  "string \<Rightarrow> js_amount \<Rightarrow> js_amount \<Rightarrow> js_number \<Rightarrow> js_amount option \<Rightarrow> nat \<Rightarrow> game_error + HoldemState" where
  "createTable tid sb bb pct cap seatCount =
     bindE (normalizeTableConfig tid sb bb pct cap) (\<lambda>c.
       Inr \<lparr>config = c, handId = None, handNumber = 0, street = waiting, button = int seatCount - 1,
            deck = [], board = [], pot = 0, seats = map (\<lambda>i. emptySeat (int i)) [0..<seatCount],
            actingIndex = None, currentBet = 0, minRaise = bigBlind c, lastAggressor = None,
            firstToAct = None, serverSeed = None, seedCommit = None, winners = [], rake = 0,
            sessionRake = 0, actedThisStreet = {}, lastRaiseComplete = True\<rparr>)"

definition seatPlayer ::
  "HoldemState \<Rightarrow> int \<Rightarrow> string \<Rightarrow> string \<Rightarrow> js_amount \<Rightarrow> game_error + HoldemState" where
  "seatPlayer st idx pid aid amount =
     bindE (asChips amount) (\<lambda>chipStack.
       Inr (st\<lparr>seats := map (\<lambda>s. if seatIndex s = idx
          then s\<lparr>playerId := pid, agentId := aid, stack := chipStack, folded := False, allIn := False,
                 sitOut := False, bet := 0, totalBet := 0, hole := None\<rparr>
          else s) (seats st)\<rparr>))"

definition clearSeat :: "HoldemState \<Rightarrow> int \<Rightarrow> HoldemState" where
  "clearSeat st idx =
     st\<lparr>seats := map (\<lambda>s. if seatIndex s = idx
        then s\<lparr>playerId := '''', agentId := '''', stack := 0, sitOut := True, folded := True,
               hole := None, bet := 0, totalBet := 0, allIn := False\<rparr>
        else s) (seats st)\<rparr>"

definition applyRakeClawback :: "HoldemState \<Rightarrow> HoldemState" where
  "applyRakeClawback st = st"

definition foldSeat :: "HoldemState \<Rightarrow> int \<Rightarrow> HoldemState" where
  "foldSeat st idx =
     st\<lparr>seats := map (\<lambda>s. if seatIndex s = idx then s\<lparr>folded := True, hole := None, allIn := False\<rparr>
        else s) (seats st)\<rparr>"

definition setSitOut :: "HoldemState \<Rightarrow> int \<Rightarrow> bool \<Rightarrow> HoldemState" where
  "setSitOut st idx out =
     st\<lparr>seats := map (\<lambda>s.
        if seatIndex s \<noteq> idx then s
        else if out then
          (let midHand = (handId st \<noteq> None \<and> handId st \<noteq> Some '''' \<and> street st \<noteq> waiting
                          \<and> street st \<noteq> settlement)
           in s\<lparr>sitOut := True, folded := (if midHand then True else folded s),
                hole := (if midHand then None else hole s),
                allIn := (if midHand then False else allIn s)\<rparr>)
        else s\<lparr>sitOut := False\<rparr>) (seats st)\<rparr>"

section \<open>Legal actions\<close>

definition plain_action :: "PokerAction \<Rightarrow> LegalAction" where
  "plain_action a = \<lparr>la_action = a, minAmount = None, maxAmount = None\<rparr>"

definition sized_action :: "PokerAction \<Rightarrow> Chips \<Rightarrow> Chips \<Rightarrow> LegalAction" where
  "sized_action a lo hi = \<lparr>la_action = a, minAmount = Some lo, maxAmount = Some hi\<rparr>"

definition legal_for :: "HoldemState \<Rightarrow> SeatState \<Rightarrow> LegalAction list" where
  "legal_for st seat =
     (if folded seat \<or> allIn seat then []
      else
        let toCall = currentBet st - bet seat;
            capped = (\<not> lastRaiseComplete st \<and> seatIndex seat \<in> actedThisStreet st)
        in if toCall \<le> 0 then
             plain_action Check #
             (if stack seat > 0 \<and> \<not> capped then
                (let minBet = (if bigBlind (config st) < stack seat then bigBlind (config st)
                               else stack seat)
                 in [sized_action Bet minBet (stack seat),
                     sized_action AllIn (stack seat) (stack seat)])
              else [])
           else
             plain_action Fold #
             (if stack seat > toCall then
                sized_action Call toCall toCall #
                (if \<not> capped then
                   (let minRaiseExtra = currentBet st + minRaise st - bet seat;
                        minRaiseAmt = (if minRaiseExtra < stack seat then minRaiseExtra else stack seat)
                    in [sized_action Raise minRaiseAmt (stack seat),
                        sized_action AllIn (stack seat) (stack seat)])
                 else [])
              else
                sized_action AllIn (stack seat) (stack seat) #
                (if stack seat = toCall then [sized_action Call toCall toCall] else [])))"

definition getLegalActions :: "HoldemState \<Rightarrow> game_error + LegalAction list" where
  "getLegalActions st =
     (case actingIndex st of
        None \<Rightarrow> Inr []
      | Some i \<Rightarrow>
          (case seat_at (seats st) i of
             None \<Rightarrow> Inl UndefinedRead
           | Some seat \<Rightarrow> Inr (legal_for st seat)))"

definition timeoutFallbackAction :: "HoldemState \<Rightarrow> game_error + LegalAction option" where
  "timeoutFallbackAction st =
     bindE (getLegalActions st) (\<lambda>legal.
       Inr (case legal of
              [] \<Rightarrow> None
            | l0 # _ \<Rightarrow>
                (case find (\<lambda>l. la_action l = Fold) legal of
                   Some l \<Rightarrow> Some l
                 | None \<Rightarrow>
                     (case find (\<lambda>l. la_action l = Check) legal of
                        Some l \<Rightarrow> Some l
                      | None \<Rightarrow> Some l0))))"

section \<open>Starting a hand\<close>

record BlindSeats =
  bs_button :: int
  bs_sb :: "int option"
  bs_bb :: "int option"
  bs_headsUp :: bool

definition nextBlindSeats :: "HoldemState \<Rightarrow> int list \<Rightarrow> BlindSeats option" where
  "nextBlindSeats st extra =
     (let isEligible = (\<lambda>s. playerId s \<noteq> '''' \<and> stack s > 0 \<and> (\<not> sitOut s \<or> seatIndex s \<in> set extra));
          elig = filter isEligible (seats st)
      in if length elig < 2 then None
         else
           let btn = (case nextSeat st (button st) isEligible of Some b \<Rightarrow> b | None \<Rightarrow> seatIndex (hd elig));
               headsUp = (length elig = 2);
               afterButton = nextSeat (st\<lparr>button := btn\<rparr>) btn isEligible;
               sb = (if headsUp then Some btn else afterButton);
               bb = (if headsUp then afterButton
                     else case sb of
                            Some i \<Rightarrow> nextSeat (st\<lparr>button := btn\<rparr>) i isEligible
                          | None \<Rightarrow> nextSeat (st\<lparr>button := btn\<rparr>) 0 isEligible)
           in Some \<lparr>bs_button = btn, bs_sb = sb, bs_bb = bb, bs_headsUp = headsUp\<rparr>)"

fun shift_card :: "Card list \<Rightarrow> Card option \<times> Card list" where
  "shift_card [] = (None, [])"
| "shift_card (c # cs) = (Some c, cs)"

fun dealHoles ::
  "SeatState list \<Rightarrow> Card list \<Rightarrow> SeatState list \<times> Card list \<times> (int \<times> Card option list) list" where
  "dealHoles [] d = ([], d, [])"
| "dealHoles (s # ss) d =
     (if folded s then
        (let (ss', d', priv) = dealHoles ss d in (s # ss', d', priv))
      else
        (let (c1, d1) = shift_card d;
             (c2, d2) = shift_card d1;
             (ss', d', priv) = dealHoles ss d2
         in (s\<lparr>hole := Some [c1, c2]\<rparr> # ss', d', (seatIndex s, [c1, c2]) # priv)))"

definition resetSeat :: "SeatState \<Rightarrow> SeatState" where
  "resetSeat s = s\<lparr>bet := 0, totalBet := 0, allIn := False, hole := None,
     folded := (sitOut s \<or> playerId s = '''' \<or> stack s \<le> 0)\<rparr>"

definition dealtIn :: "SeatState \<Rightarrow> bool" where
  "dealtIn s \<longleftrightarrow> \<not> sitOut s \<and> playerId s \<noteq> '''' \<and> stack s > 0"

text \<open>Lines 358--389: the table as it stands before the blinds are posted.\<close>

definition handOpening ::
  "(string \<Rightarrow> bytes32) \<Rightarrow> (string \<Rightarrow> string \<Rightarrow> bytes32) \<Rightarrow> HoldemState \<Rightarrow> string \<Rightarrow> string \<Rightarrow> HoldemState" where
  "handOpening sha256 hmac st seed hid =
     (let elig = filter dealtIn (seats st);
          btn = (case nextSeat st (button st) (\<lambda>s. \<not> sitOut s \<and> stack s > 0) of
                   Some b \<Rightarrow> b | None \<Rightarrow> seatIndex (hd elig))
      in st\<lparr>handId := Some hid, handNumber := handNumber st + 1, button := btn,
            deck := shuffleDeck hmac seed hid, board := [], pot := 0, street := preflop,
            serverSeed := Some seed, seedCommit := Some (commitSeed sha256 seed), winners := [],
            rake := 0, currentBet := bigBlind (config st), minRaise := bigBlind (config st),
            actedThisStreet := {}, lastRaiseComplete := True, seats := map resetSeat (seats st)\<rparr>)"

text \<open>Lines 397--421: posting, dealing and the first player to act.\<close>

definition postAndDeal ::
  "HoldemState \<Rightarrow> bool \<Rightarrow> int \<Rightarrow> int \<Rightarrow> step_result" where
  "postAndDeal next headsUp sb bb =
     (case (seat_at (seats next) sb, seat_at (seats next) bb) of
        (Some sbSeat, Some _) \<Rightarrow>
          (let (sbSeat', sbPaid) = takeChips sbSeat (smallBlind (config next));
               seats1 = update_seat sb (\<lambda>_. sbSeat') (seats next)
           in case seat_at seats1 bb of
                None \<Rightarrow> Inl UndefinedRead
              | Some bbSeat \<Rightarrow>
                  (let (bbSeat', bbPaid) = takeChips bbSeat (bigBlind (config next));
                       seats2 = update_seat bb (\<lambda>_. bbSeat') seats1;
                       p = sbPaid + bbPaid;
                       (seats3, deck', priv) = dealHoles seats2 (deck next);
                       st = next\<lparr>pot := p, lastAggressor := Some bb, seats := seats3, deck := deck'\<rparr>;
                       first = (if headsUp then Some sb
                                else nextSeat st bb (\<lambda>s. \<not> folded s \<and> \<not> allIn s))
                   in Inr (st\<lparr>actingIndex := first, firstToAct := first\<rparr>,
                           [BLINDS_POSTED [(sb, sbPaid, SB), (bb, bbPaid, BB)] p, POT_UPDATED p,
                            HOLE_CARDS_DEALT priv])))
      | _ \<Rightarrow> Inl UndefinedRead)"

definition startHand ::
  "(string \<Rightarrow> bytes32) \<Rightarrow> (string \<Rightarrow> string \<Rightarrow> bytes32) \<Rightarrow> HoldemState \<Rightarrow> string \<Rightarrow> string \<Rightarrow> step_result" where
  "startHand sha256 hmac st seed hid =
     (let elig = filter dealtIn (seats st)
      in if length elig < 2 then Inl NeedTwoPlayers
         else
           let next = handOpening sha256 hmac st seed hid;
               btn = button next;
               headsUp = (length elig = 2);
               sb = (if headsUp then Some btn else nextSeat next btn (\<lambda>s. \<not> folded s));
               bb = (if headsUp then nextSeat next btn (\<lambda>s. \<not> folded s)
                     else case sb of
                            Some i \<Rightarrow> nextSeat next i (\<lambda>s. \<not> folded s)
                          | None \<Rightarrow> nextSeat next 0 (\<lambda>s. \<not> folded s))
           in case (sb, bb) of
                (Some i, Some j) \<Rightarrow>
                  bindE (postAndDeal next headsUp i j) (\<lambda>(s, ev).
                    Inr (s, HAND_STARTED hid (handNumber next) (commitSeed sha256 seed) btn # ev))
              | _ \<Rightarrow> Inl UndefinedRead)"

end
