(* ===== verification/Holdem_Pots.thy ===== *)
theory Holdem_Pots
  imports Holdem
begin

text \<open>
  The money part of a showdown in \<^verbatim>\<open>packages/game-rules/src/holdem.ts\<close> (lines 458--620): street reset
  and board dealing, main and side pots, odd-chip splitting, the uncalled excess, and the rake
  allocation by awards.
\<close>

section \<open>Streets\<close>

definition resetStreetBets :: "HoldemState \<Rightarrow> HoldemState" where
  "resetStreetBets st =
     st\<lparr>seats := map (\<lambda>s. s\<lparr>bet := 0\<rparr>) (seats st), currentBet := 0, minRaise := bigBlind (config st),
        lastAggressor := None, actedThisStreet := {}, lastRaiseComplete := True\<rparr>"

fun shift_cards :: "nat \<Rightarrow> Card list \<Rightarrow> Card option list \<times> Card list" where
  "shift_cards 0 d = ([], d)"
| "shift_cards (Suc n) d =
     (let (c, d1) = shift_card d; (cs, d2) = shift_cards n d1 in (c # cs, d2))"

definition dealBoard :: "HoldemState \<Rightarrow> nat \<Rightarrow> Street \<Rightarrow> HoldemState \<times> Card option list" where
  "dealBoard st k str =
     (let (burn, d1) = shift_card (deck st);
          (cards, d2) = shift_cards k d1;
          next = resetStreetBets (st\<lparr>deck := d2, board := board st @ cards, street := str\<rparr>);
          first = nextSeat next (button next) (\<lambda>s. \<not> folded s \<and> \<not> allIn s \<and> stack s > 0)
      in (next\<lparr>actingIndex := first, firstToAct := first\<rparr>, cards))"

section \<open>Pots\<close>

fun potLoop :: "SeatState list \<Rightarrow> Chips list \<Rightarrow> Chips \<Rightarrow> Chips \<Rightarrow> PotLayer list \<times> Chips" where
  "potLoop cs [] prev orphaned = ([], orphaned)"
| "potLoop cs (level # levels) prev orphaned =
     (let inLayer = filter (\<lambda>s. totalBet s \<ge> level) cs;
          amount = (level - prev) * int (length inLayer);
          elig = map seatIndex (filter (\<lambda>s. \<not> folded s) inLayer)
      in if amount \<le> 0 then potLoop cs levels level orphaned
         else if elig = [] then potLoop cs levels level (orphaned + amount)
         else let (pots, o') = potLoop cs levels level 0
              in (\<lparr>pl_amount = amount + orphaned, contributors = map seatIndex inLayer,
                   eligible = elig\<rparr> # pots, o'))"

fun addToLast :: "Chips \<Rightarrow> PotLayer list \<Rightarrow> PotLayer list" where
  "addToLast x [] = []"
| "addToLast x [p] = [p\<lparr>pl_amount := pl_amount p + x\<rparr>]"
| "addToLast x (p # q # ps) = p # addToLast x (q # ps)"

definition potLevels :: "SeatState list \<Rightarrow> Chips list" where
  "potLevels cs = js_sort js_cmp3 (js_uniq (map totalBet cs))"

definition buildPots :: "SeatState list \<Rightarrow> PotLayer list" where
  "buildPots ss =
     (let cs = filter (\<lambda>s. totalBet s > 0) ss
      in if cs = [] then []
         else let (pots, orphaned) = potLoop cs (potLevels cs) 0 0
              in if orphaned > 0 \<and> pots \<noteq> [] then addToLast orphaned pots else pots)"

definition chipUnitOf :: "TableConfig \<Rightarrow> Chips" where
  "chipUnitOf c = 1"

definition quantizeChips :: "js_amount \<Rightarrow> game_error + Chips" where
  "quantizeChips amount = asChips amount"

fun splitLoop :: "Chips \<Rightarrow> Chips \<Rightarrow> nat \<Rightarrow> Chips list" where
  "splitLoop share remainder 0 = []"
| "splitLoop share remainder (Suc n) =
     (share + (if remainder > 0 then 1 else 0)) #
     splitLoop share (if remainder > 0 then remainder - 1 else remainder) n"

definition splitPotShares :: "js_amount \<Rightarrow> int \<Rightarrow> game_error + Chips list" where
  "splitPotShares amount winnerCount =
     (if winnerCount \<le> 0 then Inr []
      else bindE (asChips amount) (\<lambda>total.
        let share = js_div total winnerCount;
            remainder = total - share * winnerCount
        in Inr (splitLoop share remainder (nat winnerCount))))"

section \<open>Uncalled excess\<close>

definition byTotalDesc :: "SeatState list \<Rightarrow> SeatState list" where
  "byTotalDesc = js_sort (\<lambda>a b. js_cmp3 (totalBet b) (totalBet a))"

definition topContributorSeat :: "SeatState list \<Rightarrow> int option" where
  "topContributorSeat ss =
     (case byTotalDesc (filter (\<lambda>s. totalBet s > 0) ss) of
        [] \<Rightarrow> None
      | [a] \<Rightarrow> Some (seatIndex a)
      | a # b # _ \<Rightarrow> if totalBet a = totalBet b then None else Some (seatIndex a))"

definition uncalledFromTotals :: "SeatState list \<Rightarrow> Chips" where
  "uncalledFromTotals ss =
     (case byTotalDesc (filter (\<lambda>s. totalBet s > 0) ss) of
        a # b # _ \<Rightarrow>
          if folded a then 0
          else if totalBet a = totalBet b then 0
          else let excess = totalBet a - totalBet b in if excess > 0 then excess else 0
      | _ \<Rightarrow> 0)"

definition seatsAfterButton :: "int \<Rightarrow> int \<Rightarrow> int list" where
  "seatsAfterButton btn seatCount =
     map (\<lambda>i. js_rem (btn + int i) seatCount) [1..<Suc (nat seatCount)]"

section \<open>Rake by awards\<close>

fun awardShares ::
  "Chips \<Rightarrow> Chips \<Rightarrow> (int \<times> Chips) list \<Rightarrow> Chips \<Rightarrow> (int \<times> Chips) list \<Rightarrow> (int \<times> Chips) list \<times> Chips" where
  "awardShares handRake totalGross [] allocated tabs = (tabs, allocated)"
| "awardShares handRake totalGross (p # ps) allocated tabs =
     (let share0 = (if ps = [] then handRake - allocated else js_div (snd p * handRake) totalGross);
          share1 = (if share0 > snd p then snd p else share0);
          share = (if share1 < 0 then 0 else share1)
      in awardShares handRake totalGross ps (allocated + share) (AList.update (fst p) share tabs))"

fun topUpShares :: "(int \<times> Chips) list \<Rightarrow> Chips \<Rightarrow> (int \<times> Chips) list \<Rightarrow> (int \<times> Chips) list" where
  "topUpShares [] remaining tabs = tabs"
| "topUpShares (p # ps) remaining tabs =
     (if remaining \<le> 0 then tabs
      else
        let had = (case map_of tabs (fst p) of Some h \<Rightarrow> h | None \<Rightarrow> 0);
            room = snd p - had
        in if room \<le> 0 then topUpShares ps remaining tabs
           else let add = (if remaining < room then remaining else room)
                in topUpShares ps (remaining - add) (AList.update (fst p) (had + add) tabs))"

definition allocateRakeByAwards ::
  "(int \<times> Chips) list \<Rightarrow> Chips \<Rightarrow> int \<Rightarrow> int \<Rightarrow> (int \<times> Chips) list" where
  "allocateRakeByAwards grossPays handRake btn seatCount =
     (if handRake \<le> 0 \<or> grossPays = [] then []
      else
        let totalGross = sum_of snd grossPays
        in if totalGross \<le> 0 then []
           else
             let order = seatsAfterButton btn seatCount;
                 ordered = js_sort (\<lambda>a b. js_indexOf order (fst a) - js_indexOf order (fst b)) grossPays;
                 (tabs, allocated) = awardShares handRake totalGross ordered 0 [];
                 remaining = handRake - allocated
             in if remaining > 0 then topUpShares ordered remaining tabs else tabs)"

section \<open>Facts: the layers hold exactly what was bet\<close>

lemma layer_step:
  fixes prev lv :: int
  assumes "prev < lv" "\<forall>s \<in> set cs. totalBet s \<le> prev \<or> lv \<le> totalBet s"
  shows "sum_of (\<lambda>s. max 0 (totalBet s - prev)) cs =
     (lv - prev) * int (length (filter (\<lambda>s. totalBet s \<ge> lv) cs)) + sum_of (\<lambda>s. max 0 (totalBet s - lv)) cs"
  using assms by (induction cs) (auto simp: algebra_simps max_def)

lemma potLoop_sum:
  assumes "sorted_wrt (<) (prev # levels)"
    and "\<forall>s \<in> set cs. totalBet s \<le> prev \<or> totalBet s \<in> set levels"
    and "potLoop cs levels prev orphaned = (pots, o')"
  shows "sum_of pl_amount pots + o' = orphaned + sum_of (\<lambda>s. max 0 (totalBet s - prev)) cs"
  using assms
proof (induction cs levels prev orphaned arbitrary: pots o' rule: potLoop.induct)
  case (1 cs prev orphaned)
  then have "sum_of (\<lambda>s. max 0 (totalBet s - prev)) cs = sum_of (\<lambda>_. 0) cs"
    by (intro sum_of_cong) auto
  then show ?case using "1.prems" by simp
next
  case (2 cs lv levels prev orphaned)
  let ?in = "filter (\<lambda>s. totalBet s \<ge> lv) cs"
  let ?amt = "(lv - prev) * int (length ?in)"
  let ?el = "map seatIndex (filter (\<lambda>s. \<not> folded s) ?in)"
  have sep: "prev < lv" "\<forall>s \<in> set cs. totalBet s \<le> prev \<or> lv \<le> totalBet s"
    using "2.prems"(1,2) by fastforce+
  have srt: "sorted_wrt (<) (lv # levels)" using "2.prems"(1) by auto
  have cov: "\<forall>s \<in> set cs. totalBet s \<le> lv \<or> totalBet s \<in> set levels"
    using "2.prems"(1,2) by fastforce
  note eq = layer_step [OF sep]
  have nn: "0 \<le> ?amt" using sep by simp
  show ?case
  proof (cases "?amt \<le> 0")
    case True
    then show ?thesis
      using "2.IH"(1) [OF refl refl refl True srt cov] "2.prems"(3) eq nn by (auto simp: Let_def)
  next
    case pos: False
    show ?thesis
    proof (cases "?el = []")
      case True
      then show ?thesis
        using "2.IH"(2) [OF refl refl refl pos True srt cov] "2.prems"(3) eq pos
        by (auto simp: Let_def)
    next
      case False
      obtain qs o'' where r: "potLoop cs levels lv 0 = (qs, o'')" by fastforce
      have "pots = \<lparr>pl_amount = ?amt + orphaned, contributors = map seatIndex ?in, eligible = ?el\<rparr> # qs"
        "o' = o''"
        using "2.prems"(3) pos False r by (auto simp: Let_def)
      then show ?thesis
        using "2.IH"(3) [OF refl refl refl pos False srt cov r] eq by auto
    qed
  qed
qed

lemma potLoop_nonempty:
  assumes "potLoop cs levels prev orphaned = (pots, o')" "sorted_wrt (<) (prev # levels)"
    and "s \<in> set cs" "\<not> folded s" "totalBet s \<in> set levels"
  shows "pots \<noteq> []"
proof -
  obtain lv lvs where lv: "levels = lv # lvs" using assms(5) by (cases levels) auto
  then have "prev < lv" "lv \<le> totalBet s" using assms(2,5) by auto
  then have mem: "s \<in> set (filter (\<lambda>s. totalBet s \<ge> lv) cs)" using assms(3) by simp
  then have "0 < (lv - prev) * int (length (filter (\<lambda>s. totalBet s \<ge> lv) cs))"
    using \<open>prev < lv\<close> length_pos_if_in_set [OF mem] by simp
  moreover have "filter (\<lambda>s. \<not> folded s) (filter (\<lambda>s. totalBet s \<ge> lv) cs) \<noteq> []"
    using mem assms(4) by (auto simp: filter_empty_conv)
  ultimately have "0 < (lv - prev) * int (length (filter (\<lambda>s. totalBet s \<ge> lv) cs))"
    "filter (\<lambda>s. \<not> folded s) (filter (\<lambda>s. totalBet s \<ge> lv) cs) \<noteq> []" .
  then show ?thesis
    using assms(1) lv by (auto simp: Let_def split: prod.splits)
qed

lemma potLoop_layer:
  assumes "potLoop cs levels prev orphaned = (pots, o')" "0 \<le> orphaned" "p \<in> set pots"
  shows "0 < pl_amount p \<and> eligible p \<noteq> []
    \<and> (\<exists>lv \<in> set levels. eligible p = map seatIndex (filter (\<lambda>s. \<not> folded s) (filter (\<lambda>s. totalBet s \<ge> lv) cs)))"
  using assms
proof (induction cs levels prev orphaned arbitrary: pots o' rule: potLoop.induct)
  case (2 cs lv levels prev orphaned)
  show ?case
    using "2.prems" "2.IH" by (fastforce simp: Let_def split: if_splits prod.splits)
qed simp

lemma sum_addToLast: "ps \<noteq> [] \<Longrightarrow> sum_of pl_amount (addToLast x ps) = sum_of pl_amount ps + x"
  by (induction x ps rule: addToLast.induct) auto

lemma addToLast_member:
  "q \<in> set (addToLast x ps) \<Longrightarrow> \<exists>p \<in> set ps. eligible q = eligible p
     \<and> (pl_amount q = pl_amount p \<or> pl_amount q = pl_amount p + x)"
  by (induction x ps rule: addToLast.induct) (auto split: if_splits)

lemma potLevels_sorted: "sorted_wrt (<) (potLevels cs)"
proof -
  have "sorted_wrt (\<lambda>x y. js_cmp3 x y \<le> 0) (potLevels cs)"
    unfolding potLevels_def by (rule cmp3.sorted_js_sort)
  then have "sorted (potLevels cs)"
    by (rule sorted_wrt_mono_rel [rotated]) (auto simp: js_cmp3_def split: if_splits)
  moreover have "distinct (potLevels cs)"
    unfolding potLevels_def
    using distinct_map_js_sort [of "\<lambda>x. x" js_cmp3 "js_uniq (map totalBet cs)"] by simp
  ultimately show ?thesis by (simp add: strict_sorted_iff)
qed

lemma set_potLevels: "set (potLevels cs) = totalBet ` set cs"
  by (simp add: potLevels_def)

lemma buildPots_sum:
  assumes "\<And>s. s \<in> set ss \<Longrightarrow> 0 \<le> totalBet s"
    and "\<exists>s \<in> set ss. \<not> folded s \<and> 0 < totalBet s"
  shows "sum_of pl_amount (buildPots ss) = sum_of totalBet ss"
proof -
  let ?cs = "filter (\<lambda>s. totalBet s > 0) ss"
  have ne: "?cs \<noteq> []" using assms(2) by (auto simp: filter_empty_conv)
  obtain pots orph where pl: "potLoop ?cs (potLevels ?cs) 0 0 = (pots, orph)" by fastforce
  have srt: "sorted_wrt (<) (0 # potLevels ?cs)"
    using potLevels_sorted by (auto simp: set_potLevels)
  have "sum_of pl_amount pots + orph = sum_of (\<lambda>s. max 0 (totalBet s - 0)) ?cs"
    using potLoop_sum [OF srt _ pl] by (auto simp: set_potLevels)
  also have "\<dots> = sum_of totalBet ?cs" by (rule sum_of_cong) auto
  also have "\<dots> = sum_of totalBet ss" using assms(1) by (intro sum_of_filter_zero) force
  finally have total: "sum_of pl_amount pots + orph = sum_of totalBet ss" .
  obtain s where "s \<in> set ?cs" "\<not> folded s" using assms(2) by auto
  then have "pots \<noteq> []"
    using potLoop_nonempty [OF pl srt] by (auto simp: set_potLevels)
  moreover have "0 \<le> orph"
  proof -
    have "0 \<le> o'" if "potLoop cs ls prev o0 = (ps, o')" "0 \<le> o0" for cs ls prev o0 ps o'
      using that
      by (induction cs ls prev o0 arbitrary: ps o' rule: potLoop.induct)
        (fastforce simp: Let_def split: if_splits prod.splits)+
    then show ?thesis using pl by blast
  qed
  ultimately show ?thesis
    using total ne pl by (auto simp: buildPots_def Let_def sum_addToLast)
qed

lemma buildPots_layer:
  assumes "p \<in> set (buildPots ss)"
  shows "0 < pl_amount p" "eligible p \<noteq> []"
    and "\<And>i. i \<in> set (eligible p) \<Longrightarrow> \<exists>s \<in> set ss. seatIndex s = i \<and> \<not> folded s \<and> 0 < totalBet s"
    and "distinct (map seatIndex ss) \<Longrightarrow> distinct (eligible p)"
proof -
  let ?cs = "filter (\<lambda>s. totalBet s > 0) ss"
  obtain pots orph where pl: "potLoop ?cs (potLevels ?cs) 0 0 = (pots, orph)" by fastforce
  obtain q where q: "q \<in> set pots" "eligible p = eligible q" "pl_amount q \<le> pl_amount p"
    using assms pl addToLast_member
    by (fastforce simp: buildPots_def Let_def split: if_splits)
  have lay: "0 < pl_amount q" "eligible q \<noteq> []"
    "\<exists>lv. eligible q = map seatIndex (filter (\<lambda>s. \<not> folded s) (filter (\<lambda>s. totalBet s \<ge> lv) ?cs))"
    using potLoop_layer [OF pl _ q(1)] by auto
  show "0 < pl_amount p" "eligible p \<noteq> []" using lay q by auto
  show "\<And>i. i \<in> set (eligible p) \<Longrightarrow> \<exists>s \<in> set ss. seatIndex s = i \<and> \<not> folded s \<and> 0 < totalBet s"
    using lay(3) q(2) by auto
  show "distinct (map seatIndex ss) \<Longrightarrow> distinct (eligible p)"
    using lay(3) q(2) by (auto simp: distinct_map_filter)
qed

section \<open>Facts: splitting a layer\<close>

lemma length_splitLoop [simp]: "length (splitLoop share rem n) = n"
  by (induction share rem n rule: splitLoop.induct) auto

lemma sum_splitLoop:
  "0 \<le> rem \<Longrightarrow> rem \<le> int n \<Longrightarrow> sum_list (splitLoop share rem n) = share * int n + rem"
  by (induction share rem n rule: splitLoop.induct) (auto simp: algebra_simps)

lemma splitLoop_range: "x \<in> set (splitLoop share rem n) \<Longrightarrow> share \<le> x \<and> x \<le> share + 1"
  by (induction share rem n rule: splitLoop.induct) (auto split: if_splits)

lemma splitPotShares_ok:
  assumes "0 \<le> tot" "0 < n"
  shows "\<exists>sh. splitPotShares (BigIntAmt tot) (int n) = Inr sh \<and> length sh = n
    \<and> sum_list sh = tot \<and> (\<forall>x \<in> set sh. 0 \<le> x)
    \<and> (\<forall>x \<in> set sh. \<forall>y \<in> set sh. x \<le> y + 1)"
proof -
  let ?sh = "splitLoop (js_div tot (int n)) (tot - js_div tot (int n) * int n) n"
  have eq: "splitPotShares (BigIntAmt tot) (int n) = Inr ?sh"
    using assms by (simp add: splitPotShares_def Let_def)
  have tot: "sum_list ?sh = tot"
    using split_remainder [of tot "int n"] assms by (subst sum_splitLoop) auto
  have nn: "0 \<le> js_div tot (int n)" using assms by (simp add: js_arith pos_imp_zdiv_nonneg_iff)
  have "0 \<le> x \<and> (\<forall>y \<in> set ?sh. x \<le> y + 1)" if "x \<in> set ?sh" for x
    using splitLoop_range [OF that] splitLoop_range nn by fastforce
  then show ?thesis
    using eq tot by (intro exI [of _ ?sh]) auto
qed

section \<open>Facts: rake by awards\<close>

text \<open>A tab that is present once is replaced in place.\<close>

lemma sum_update_present:
  fixes v :: int
  assumes "distinct (map fst al)" "map_of al k = Some h"
  shows "sum_of snd (AList.update k v al) = sum_of snd al - h + v"
  using assms by (induction al) (auto split: if_splits)

lemma img_of_key: "map_of al k = Some v \<Longrightarrow> k \<in> fst ` set al"
  by (metis map_of_eq_None_iff option.distinct(1))

lemma update_fresh: "k \<notin> fst ` set al \<Longrightarrow> AList.update k v al = al @ [(k, v)]"
  by (induction al) auto

definition tabs_within :: "(int \<times> Chips) list \<Rightarrow> (int \<times> Chips) list \<Rightarrow> bool" where
  "tabs_within tabs pays \<longleftrightarrow> list_all2 (\<lambda>t p. fst t = fst p \<and> 0 \<le> snd t \<and> snd t \<le> snd p) tabs pays"

text \<open>First pass: every share lies between zero and the award, and the total does not pass the rake.\<close>

lemma awardShares_spec:
  assumes "awardShares R G ps a tabs = (tabs', a')"
    and "distinct (map fst ps)" "fst ` set ps \<inter> fst ` set tabs = {}"
    and "\<forall>p \<in> set ps. 0 \<le> snd p" "0 < G" "0 \<le> R" "a * G + R * sum_of snd ps \<le> R * G"
  shows "\<exists>sh. tabs' = tabs @ sh \<and> tabs_within sh ps \<and> a' = a + sum_of snd sh \<and> a' \<le> R"
  using assms
proof (induction R G ps a tabs rule: awardShares.induct)
  case (1 R G a tabs)
  then have "a * G \<le> R * G" by simp
  then have "a \<le> R" using "1.prems"(5) by simp
  then show ?case using "1.prems"(1) by (auto simp: tabs_within_def)
next
  case (2 R G p ps a tabs)
  define s0 where "s0 = (if ps = [] then R - a else js_div (snd p * R) G)"
  define sh where "sh = (if (if s0 > snd p then snd p else s0) < 0 then 0 else (if s0 > snd p then snd p else s0))"
  have run: "awardShares R G ps (a + sh) (AList.update (fst p) sh tabs) = (tabs', a')"
    using "2.prems"(1) unfolding awardShares.simps Let_def s0_def sh_def .
  have upd: "AList.update (fst p) sh tabs = tabs @ [(fst p, sh)]"
    using "2.prems"(3) by (intro update_fresh) auto
  have p0: "0 \<le> snd p" using "2.prems"(4) by simp
  have rest: "0 \<le> sum_of snd ps" using "2.prems"(4) by (intro sum_of_nonneg) auto
  have aG: "a * G \<le> R * G"
    using "2.prems"(6,7) p0 rest by (auto simp: algebra_simps intro: order_trans [rotated])
  have s0G: "s0 * G \<le> (if ps = [] then (R - a) * G else snd p * R)"
  proof (cases "ps = []")
    case False
    have "js_div (snd p * R) G = snd p * R div G" using p0 "2.prems"(5,6) by (simp add: js_arith)
    then show ?thesis
      using False minus_div_mult_eq_mod [of "snd p * R" G] pos_mod_sign [OF "2.prems"(5), of "snd p * R"]
      by (simp add: s0_def)
  qed (simp add: s0_def)
  have s0nn: "0 \<le> s0"
  proof (cases "ps = []")
    case True
    then show ?thesis using aG "2.prems"(5) by (simp add: s0_def)
  next
    case False
    then show ?thesis using p0 "2.prems"(5,6) by (simp add: s0_def js_arith pos_imp_zdiv_nonneg_iff)
  qed
  have sh: "0 \<le> sh" "sh \<le> snd p" "sh \<le> s0" using s0nn p0 by (auto simp: sh_def)
  have "sh * G \<le> s0 * G" using sh(3) "2.prems"(5) by simp
  then have budget: "(a + sh) * G + R * sum_of snd ps \<le> R * G"
    using s0G "2.prems"(7) by (auto simp: algebra_simps split: if_splits)
  obtain sh' where sh': "tabs' = (tabs @ [(fst p, sh)]) @ sh'" "tabs_within sh' ps"
      "a' = a + sh + sum_of snd sh'" "a' \<le> R"
    using "2.IH" [OF refl refl refl, folded s0_def, folded sh_def, OF run _ _ _ "2.prems"(5,6) budget]
      "2.prems"(2,3,4) unfolding upd by auto
  show ?case
    using sh' sh by (intro exI [of _ "(fst p, sh) # sh'"]) (auto simp: tabs_within_def)
qed

text \<open>Second pass: what is left is handed out within the room each award still has.\<close>

lemma topUpShares_spec:
  assumes "distinct (map fst tabs)" "distinct (map fst ps)" "0 \<le> r"
    and "\<forall>p \<in> set ps. \<exists>h. map_of tabs (fst p) = Some h \<and> h \<le> snd p"
    and "r \<le> sum_of (\<lambda>p. snd p - the (map_of tabs (fst p))) ps"
  shows "sum_of snd (topUpShares ps r tabs) = sum_of snd tabs + r
    \<and> map fst (topUpShares ps r tabs) = map fst tabs
    \<and> (\<forall>k v. map_of tabs k = Some v \<longrightarrow>
         (\<exists>w. map_of (topUpShares ps r tabs) k = Some w \<and> v \<le> w
              \<and> (w = v \<or> (\<exists>p \<in> set ps. fst p = k \<and> w \<le> snd p))))"
  using assms
proof (induction ps r tabs rule: topUpShares.induct)
  case (2 p ps r tabs)
  obtain h where h: "map_of tabs (fst p) = Some h" "h \<le> snd p" using "2.prems"(4) by auto
  show ?case
  proof (cases "r \<le> 0")
    case True
    then show ?thesis using "2.prems"(3) by auto
  next
    case pos: False
    show ?thesis
    proof (cases "snd p - h \<le> 0")
      case True
      have eq: "topUpShares (p # ps) r tabs = topUpShares ps r tabs"
        using pos True h by (simp add: Let_def)
      have bud: "r \<le> sum_of (\<lambda>p. snd p - the (map_of tabs (fst p))) ps"
        using "2.prems"(5) h True by simp
      have cond: "(case map_of tabs (fst p) of Some h \<Rightarrow> h | None \<Rightarrow> 0) = h" using h by simp
      have ih: "sum_of snd (topUpShares ps r tabs) = sum_of snd tabs + r
          \<and> map fst (topUpShares ps r tabs) = map fst tabs
          \<and> (\<forall>k v. map_of tabs k = Some v \<longrightarrow>
               (\<exists>w. map_of (topUpShares ps r tabs) k = Some w \<and> v \<le> w
                    \<and> (w = v \<or> (\<exists>p \<in> set ps. fst p = k \<and> w \<le> snd p))))"
        by (rule "2.IH"(1) [OF pos cond [symmetric] refl True])
          (use "2.prems"(1-4) bud in auto)
      show ?thesis
        unfolding eq using ih by (metis list.set_intros(2))
    next
      case room: False
      have cond: "(case map_of tabs (fst p) of Some h \<Rightarrow> h | None \<Rightarrow> 0) = h" using h by simp
      define add where "add = (if r < snd p - h then r else snd p - h)"
      define tabs1 where "tabs1 = AList.update (fst p) (h + add) tabs"
      have eq: "topUpShares (p # ps) r tabs = topUpShares ps (r - add) tabs1"
        using pos room h by (simp add: Let_def add_def tabs1_def)
      have m1: "map_of tabs1 k = (if k = fst p then Some (h + add) else map_of tabs k)" for k
        by (simp add: tabs1_def update_conv')
      have add: "0 \<le> add" "add \<le> r" "h + add \<le> snd p" using pos room by (auto simp: add_def)
      have k1: "map fst tabs1 = map fst tabs"
        using img_of_key [OF h(1)] by (simp add: tabs1_def update_keys)
      have others: "fst q \<noteq> fst p" if "q \<in> set ps" for q
        using "2.prems"(2) that by (auto simp: image_iff)
      have "sum_of (\<lambda>q. snd q - the (map_of tabs1 (fst q))) ps
          = sum_of (\<lambda>q. snd q - the (map_of tabs (fst q))) ps"
        using others by (intro sum_of_cong) (auto simp: m1)
      then have budget: "r - add \<le> sum_of (\<lambda>q. snd q - the (map_of tabs1 (fst q))) ps"
        using "2.prems"(5) h add by (auto simp: add_def intro: sum_of_nonneg
            [of ps "\<lambda>q. snd q - the (map_of tabs (fst q))"] split: if_splits)
          (use "2.prems"(4) in \<open>force intro!: sum_of_nonneg\<close>)
      have "\<forall>q \<in> set ps. \<exists>h. map_of tabs1 (fst q) = Some h \<and> h \<le> snd q"
        using others "2.prems"(4) by (auto simp: m1)
      then have ih: "sum_of snd (topUpShares ps (r - add) tabs1) = sum_of snd tabs1 + (r - add)"
        "map fst (topUpShares ps (r - add) tabs1) = map fst tabs1"
        "\<And>k v. map_of tabs1 k = Some v \<Longrightarrow>
           \<exists>w. map_of (topUpShares ps (r - add) tabs1) k = Some w \<and> v \<le> w
             \<and> (w = v \<or> (\<exists>p \<in> set ps. fst p = k \<and> w \<le> snd p))"
        using "2.IH"(2) [OF pos cond [symmetric] refl room add_def, folded tabs1_def] k1 budget add
          "2.prems"(1,2) by auto
      have "sum_of snd tabs1 = sum_of snd tabs + add"
        using sum_update_present [OF "2.prems"(1) h(1), of "h + add"] by (simp add: tabs1_def)
      moreover have "\<exists>w. map_of (topUpShares ps (r - add) tabs1) k = Some w \<and> v \<le> w
          \<and> (w = v \<or> (\<exists>q \<in> set (p # ps). fst q = k \<and> w \<le> snd q))"
        if "map_of tabs k = Some v" for k v
      proof (cases "k = fst p")
        case True
        then have "v = h" using that h by simp
        then show ?thesis using ih(3) [of k "h + add"] True add m1 others by fastforce
      next
        case False
        then show ?thesis using ih(3) [of k v] that m1 by auto
      qed
      ultimately show ?thesis unfolding eq using ih(1,2) k1 by auto
    qed
  qed
qed simp

text \<open>Both passes together: the tabs of the award holders sum to the rake, and no tab exceeds its award.\<close>

lemma tabs_within_keys: "tabs_within sh ps \<Longrightarrow> map fst sh = map fst ps"
  unfolding tabs_within_def by (induction rule: list_all2_induct) auto

lemma tabs_within_lookup:
  assumes "tabs_within sh ps" "distinct (map fst ps)" "p \<in> set ps"
  shows "\<exists>h. map_of sh (fst p) = Some h \<and> 0 \<le> h \<and> h \<le> snd p"
  using assms unfolding tabs_within_def by (induction rule: list_all2_induct) (auto simp: image_iff)

lemma tabs_within_room:
  assumes "tabs_within sh ps" "distinct (map fst ps)"
  shows "sum_of (\<lambda>p. snd p - the (map_of sh (fst p))) ps = sum_of snd ps - sum_of snd sh"
proof -
  have "sum_of snd sh = sum_of (\<lambda>p. the (map_of sh (fst p))) sh"
    using assms(2) tabs_within_keys [OF assms(1)] by (intro sum_of_cong) auto
  also have "\<dots> = sum_of (\<lambda>k. the (map_of sh k)) (map fst sh)" by (simp add: comp_def)
  also have "\<dots> = sum_of (\<lambda>p. the (map_of sh (fst p))) ps"
    unfolding tabs_within_keys [OF assms(1)] by (simp add: comp_def)
  finally show ?thesis by (simp add: sum_of_diff)
qed

lemma allocateRakeByAwards_ok:
  assumes "distinct (map fst gross)" "\<forall>p \<in> set gross. 0 \<le> snd p" "0 < R" "R \<le> sum_of snd gross"
  shows "sum_of snd (allocateRakeByAwards gross R btn n) = R"
    and "set (map fst (allocateRakeByAwards gross R btn n)) = fst ` set gross"
    and "distinct (map fst (allocateRakeByAwards gross R btn n))"
    and "\<And>k t. (k, t) \<in> set (allocateRakeByAwards gross R btn n) \<Longrightarrow>
           0 \<le> t \<and> (\<exists>a. (k, a) \<in> set gross \<and> t \<le> a)"
proof -
  define ord where
    "ord = js_sort (\<lambda>a b. js_indexOf (seatsAfterButton btn n) (fst a)
                           - js_indexOf (seatsAfterButton btn n) (fst b)) gross"
  define G where "G = sum_of snd gross"
  obtain tabs al where aw: "awardShares R G ord 0 [] = (tabs, al)" by fastforce
  have dist: "distinct (map fst ord)" and nn: "\<forall>p \<in> set ord. 0 \<le> snd p"
    and G: "0 < G" "sum_of snd ord = G" and keys: "fst ` set ord = fst ` set gross"
    using assms by (auto simp: ord_def G_def)
  obtain sh where sh: "tabs = sh" "tabs_within sh ord" "al = sum_of snd sh" "al \<le> R"
    using awardShares_spec [OF aw dist _ nn G(1)] assms(3) G(2) by auto
  have dsh: "distinct (map fst sh)" using tabs_within_keys [OF sh(2)] dist by simp
  note look = tabs_within_lookup [OF sh(2) dist]
  define res where "res = topUpShares ord (R - al) sh"
  have top: "sum_of snd res = sum_of snd sh + (R - al)" "map fst res = map fst sh"
    "\<And>k v. map_of sh k = Some v \<Longrightarrow> \<exists>w. map_of res k = Some w \<and> v \<le> w
       \<and> (w = v \<or> (\<exists>p \<in> set ord. fst p = k \<and> w \<le> snd p))"
    using topUpShares_spec [OF dsh dist, of "R - al"] look tabs_within_room [OF sh(2) dist] sh(3,4)
      assms(4) G(2) unfolding res_def G_def by fastforce+
  have "topUpShares ord r sh = sh" if "\<not> r > 0" for r
    using that by (cases ord) auto
  then have eq: "allocateRakeByAwards gross R btn n = res"
    using assms(1,3) G(1) aw sh(1) unfolding allocateRakeByAwards_def res_def
    by (auto simp: Let_def ord_def G_def split: prod.splits)
  show "sum_of snd (allocateRakeByAwards gross R btn n) = R" unfolding eq using top(1) sh(3) by simp
  show "set (map fst (allocateRakeByAwards gross R btn n)) = fst ` set gross"
    unfolding eq top(2) tabs_within_keys [OF sh(2)] using keys by simp
  show d: "distinct (map fst (allocateRakeByAwards gross R btn n))"
    unfolding eq top(2) by (rule dsh)
  fix k t assume "(k, t) \<in> set (allocateRakeByAwards gross R btn n)"
  then have kt: "map_of res k = Some t" using d unfolding eq by simp
  then have "k \<in> fst ` set ord"
    using img_of_key [OF kt] top(2) tabs_within_keys [OF sh(2)] by (metis list.set_map)
  then obtain p where p: "p \<in> set ord" "fst p = k" by auto
  obtain h where h: "map_of sh k = Some h" "0 \<le> h" "h \<le> snd p" using look [OF p(1)] p(2) by auto
  have "0 \<le> t" "t = h \<or> (\<exists>q \<in> set ord. fst q = k \<and> t \<le> snd q)" using top(3) [OF h(1)] kt h(2) by auto
  then show "0 \<le> t \<and> (\<exists>a. (k, a) \<in> set gross \<and> t \<le> a)"
    using p h(3) by (auto simp: ord_def) (metis prod.collapse)+
qed

end
