(* ===== verification/Holdem_Play.thy ===== *)
theory Holdem_Play
  imports Holdem_Pots
begin

text \<open>
  \<^verbatim>\<open>packages/game-rules/src/holdem.ts\<close>, lines 622--1044: showdown and fold-win settlement, the all-in
  run-out, player actions, and the public and private projections of a table.
\<close>

section \<open>Showdown\<close>

record Ranked =
  rk_seatIndex :: int
  rk_cards :: "Card option list"
  rk_label :: string
  rk_score :: "int list"

definition rankSeat :: "Card option list \<Rightarrow> SeatState \<Rightarrow> game_error + Ranked" where
  "rankSeat brd s =
     (case hole s of
        None \<Rightarrow> Inl UndefinedRead
      | Some h \<Rightarrow>
          bindE (bestHand h brd) (\<lambda>hand.
            Inr \<lparr>rk_seatIndex = seatIndex s, rk_cards = h, rk_label = label hand,
                 rk_score = score hand\<rparr>))"

type_synonym won_map = "(int \<times> Chips \<times> string) list"

fun payWinners ::
  "Ranked list \<Rightarrow> Chips list \<Rightarrow> SeatState list \<times> won_map \<Rightarrow> game_error + SeatState list \<times> won_map" where
  "payWinners [] shares acc = Inr acc"
| "payWinners (w # ws) [] acc = Inl UndefinedRead"
| "payWinners (w # ws) (amount # shares) (ss, won) =
     (case seat_at ss (rk_seatIndex w) of
        None \<Rightarrow> Inl UndefinedRead
      | Some _ \<Rightarrow>
          (let ss' = update_seat (rk_seatIndex w) (\<lambda>s. s\<lparr>stack := stack s + amount\<rparr>) ss;
               prev = (case map_of won (rk_seatIndex w) of Some (a, _) \<Rightarrow> a | None \<Rightarrow> 0)
           in payWinners ws shares
                (ss', AList.update (rk_seatIndex w) (prev + amount, rk_label w) won)))"

text \<open>The winners of one layer, in button order.\<close>

definition layerWinners :: "Ranked list \<Rightarrow> int list \<Rightarrow> PotLayer \<Rightarrow> Ranked list" where
  "layerWinners ranked order layer =
     (let scoreOf = map_of (rev (map (\<lambda>r. (rk_seatIndex r, r)) ranked));
          contenders = js_sort (\<lambda>a b. compareScores (rk_score b) (rk_score a))
                         (List.map_filter scoreOf (eligible layer))
      in case contenders of
           [] \<Rightarrow> []
         | c # _ \<Rightarrow>
             js_sort (\<lambda>a b. js_indexOf order (rk_seatIndex a) - js_indexOf order (rk_seatIndex b))
               (filter (\<lambda>x. compareScores (rk_score x) (rk_score c) = 0) contenders))"

fun awardLayers ::
  "Ranked list \<Rightarrow> int list \<Rightarrow> PotLayer list \<Rightarrow> SeatState list \<times> won_map
     \<Rightarrow> game_error + SeatState list \<times> won_map" where
  "awardLayers ranked order [] acc = Inr acc"
| "awardLayers ranked order (layer # layers) acc =
     (if pl_amount layer \<le> 0 \<or> eligible layer = [] then awardLayers ranked order layers acc
      else
        let ws = layerWinners ranked order layer
        in if ws = [] then awardLayers ranked order layers acc
           else bindE (splitPotShares (BigIntAmt (pl_amount layer)) (int (length ws))) (\<lambda>shares.
                  bindE (payWinners ws shares acc) (\<lambda>acc'. awardLayers ranked order layers acc')))"

fun deductTabs :: "(int \<times> Chips) list \<Rightarrow> SeatState list \<Rightarrow> SeatState list" where
  "deductTabs [] ss = ss"
| "deductTabs (t # ts) ss =
     deductTabs ts (update_seat (fst t) (\<lambda>s. s\<lparr>stack := stack s - snd t\<rparr>) ss)"

definition stacks_event :: "SeatState list \<Rightarrow> EngineEvent" where
  "stacks_event ss = STACKS_UPDATED (map (\<lambda>s. (seatIndex s, stack s)) ss)"

text \<open>Lines 636--657: the part of the pot rake is assessed on.\<close>

definition eligibleForRake :: "HoldemState \<Rightarrow> Chips" where
  "eligibleForRake st =
     (let totalPot = sum_of pl_amount (buildPots (seats st));
          potPool = (if totalPot > 0 then totalPot else pot st);
          uncalled = uncalledFromTotals (seats st)
      in if potPool - uncalled > 0 then potPool - uncalled else 0)"

definition uncalledSeat :: "HoldemState \<Rightarrow> (int option \<times> Chips) option" where
  "uncalledSeat st =
     (let uncalled = uncalledFromTotals (seats st)
      in if uncalled > 0 then Some (topContributorSeat (seats st), uncalled) else None)"

text \<open>Lines 694--740: the rake is taken from the awards and the hand is closed.\<close>

definition finishShowdown ::
  "HoldemState \<Rightarrow> Ranked list \<Rightarrow> Chips \<Rightarrow> SeatState list \<times> won_map \<Rightarrow> HoldemState \<times> EngineEvent list" where
  "finishShowdown st ranked r acc =
     (let (ss, won) = acc;
          grossPays = map (\<lambda>(i, a, l). \<lparr>po_seatIndex = i, po_amount = a, po_label = l\<rparr>) won;
          gross = map (\<lambda>p. (po_seatIndex p, po_amount p)) grossPays;
          rakeTabs = allocateRakeByAwards gross r (button st) (int (length (seats st)));
          ss' = deductTabs rakeTabs ss;
          pays = map (\<lambda>p. p\<lparr>po_amount := po_amount p -
                   (case map_of (rev rakeTabs) (po_seatIndex p) of Some t \<Rightarrow> t | None \<Rightarrow> 0)\<rparr>) grossPays
      in (st\<lparr>seats := ss', pot := 0, rake := r, sessionRake := sessionRake st + r,
             winners := pays, street := settlement, actingIndex := None\<rparr>,
          SHOWDOWN_REVEALED (map (\<lambda>k. (rk_seatIndex k, rk_cards k, rk_label k)) ranked) #
          (case uncalledSeat st of
             Some (i, a) \<Rightarrow> [UNCALLED_BET_RETURNED i a (street st)]
           | None \<Rightarrow> []) @
          [HAND_SETTLED pays r rakeTabs gross (map (\<lambda>p. (po_seatIndex p, po_amount p)) pays)
             (uncalledSeat st) (serverSeed st),
           stacks_event ss']))"

definition settleShowdown :: "HoldemState \<Rightarrow> step_result" where
  "settleShowdown st =
     (let live = filter (\<lambda>s. \<not> folded s \<and> hole s \<noteq> None) (seats st)
      in bindE (mapE (rankSeat (board st)) live) (\<lambda>ranked.
         bindE (computeRakeFromPct (BigIntAmt (eligibleForRake st)) (rakePct (config st))
                  (map_option BigIntAmt (rakeCap (config st))) (int (length live)) None) (\<lambda>r.
         bindE (awardLayers ranked (seatsAfterButton (button st) (int (length (seats st))))
                  (buildPots (seats st)) (seats st, [])) (\<lambda>acc.
           Inr (finishShowdown st ranked r acc)))))"

section \<open>Fold win\<close>

definition rake_seats :: "SeatState list \<Rightarrow> RakeSeat list" where
  "rake_seats = map (\<lambda>s. \<lparr>rs_seatIndex = seatIndex s, rs_bet = BigIntAmt (bet s), rs_folded = folded s\<rparr>)"

definition foldWin :: "HoldemState \<Rightarrow> step_result" where
  "foldWin st =
     (case find (\<lambda>s. \<not> folded s \<and> playerId s \<noteq> '''' \<and> \<not> sitOut s) (seats st) of
        None \<Rightarrow> Inr (st\<lparr>pot := 0, street := settlement, actingIndex := None, winners := []\<rparr>, [])
      | Some winner \<Rightarrow>
          bindE (uncalledBetAmount (rake_seats (seats st)) (seatIndex winner)) (\<lambda>uncalled.
            let eligible = (if pot st - uncalled > 0 then pot st - uncalled else 0);
                ended = (board st = [])
            in bindE (computeRakeFromPct (BigIntAmt eligible) (rakePct (config st))
                        (map_option BigIntAmt (rakeCap (config st))) 1 (Some ended)) (\<lambda>r.
                 let netAward = (if eligible - r > 0 then eligible - r else 0)
                 in bindE (allocateRakeAmongWinners [seatIndex winner] (BigIntAmt r) (button st)
                             (int (length (seats st)))) (\<lambda>rakeTabs.
                      let ss = map (\<lambda>s. if seatIndex s = seatIndex winner
                                 then s\<lparr>stack := stack s + uncalled + netAward, bet := 0\<rparr>
                                 else s\<lparr>bet := 0\<rparr>) (seats st);
                          pays = [\<lparr>po_seatIndex = seatIndex winner, po_amount = netAward,
                                   po_label = ''Won without showdown''\<rparr>]
                      in Inr (st\<lparr>seats := ss, pot := 0, rake := r, sessionRake := sessionRake st + r,
                                 winners := pays, street := settlement, actingIndex := None\<rparr>,
                              (if uncalled > 0
                               then [UNCALLED_BET_RETURNED (Some (seatIndex winner)) uncalled (street st)]
                               else []) @
                              [HAND_SETTLED pays r rakeTabs [(seatIndex winner, eligible)]
                                 [(seatIndex winner, netAward)]
                                 (if uncalled > 0 then Some (Some (seatIndex winner), uncalled) else None)
                                 (serverSeed st),
                               stacks_event ss])))))"

section \<open>Run-out\<close>

definition isAllInRunout :: "HoldemState \<Rightarrow> bool" where
  "isAllInRunout st =
     (if handId st = None \<or> handId st = Some '''' then False
      else if street st \<in> {waiting, settlement, showdown} then False
      else
        let live = filter (\<lambda>s. \<not> folded s \<and> playerId s \<noteq> '''') (seats st)
        in if length live < 2 then False
           else length (filter (\<lambda>s. \<not> allIn s \<and> stack s > 0) live) \<le> 1)"

text \<open>\<open>{ ...d.state, actingIndex: null }\<close> with the street event, as the run-out deals a street.\<close>

definition runoutStreet :: "HoldemState \<Rightarrow> nat \<Rightarrow> Street \<Rightarrow> step_result" where
  "runoutStreet st k str =
     (let (s, cards) = dealBoard st k str
      in Inr (s\<lparr>actingIndex := None\<rparr>, [STREET_DEALT str cards]))"

definition continueRunout :: "HoldemState \<Rightarrow> step_result" where
  "continueRunout st =
     (let s0 = st\<lparr>actingIndex := None\<rparr>;
          live = filter (\<lambda>x. \<not> folded x) (seats s0)
      in if length live = 1 then foldWin s0
         else if length live < 2 then Inr (s0\<lparr>street := settlement, pot := 0\<rparr>, [])
         else if length (board s0) = 0 then runoutStreet s0 3 flop
         else if length (board s0) = 3 then runoutStreet s0 1 turn
         else if length (board s0) = 4 then runoutStreet s0 1 river
         else settleShowdown (s0\<lparr>street := showdown\<rparr>))"

definition prepend :: "EngineEvent list \<Rightarrow> step_result \<Rightarrow> step_result" where
  "prepend ev r = bindE r (\<lambda>(s, ev'). Inr (s, ev @ ev'))"

definition nextStreet :: "HoldemState \<Rightarrow> nat \<Rightarrow> Street \<Rightarrow> step_result" where
  "nextStreet st k str =
     (let (s, cards) = dealBoard st k str in Inr (s, [STREET_DEALT str cards]))"

definition maybeRunout :: "HoldemState \<Rightarrow> EngineEvent list \<Rightarrow> step_result" where
  "maybeRunout st ev =
     (let live = filter (\<lambda>x. \<not> folded x) (seats st)
      in if length live = 1 then prepend ev (foldWin st)
         else if \<not> length (filter (\<lambda>x. \<not> allIn x) live) \<le> 1 then
           (if actingIndex st \<noteq> None then Inr (st, ev)
            else if length (board st) = 0 then prepend ev (nextStreet st 3 flop)
            else if length (board st) = 3 then prepend ev (nextStreet st 1 turn)
            else if length (board st) = 4 then prepend ev (nextStreet st 1 river)
            else if street st = river \<or> length (board st) \<ge> 5
              then prepend ev (settleShowdown (st\<lparr>street := showdown\<rparr>))
            else Inr (st, ev))
         else if length (board st) \<ge> 5 then prepend ev (settleShowdown (st\<lparr>street := showdown\<rparr>))
         else Inr (st\<lparr>actingIndex := None\<rparr>, ev))"

section \<open>Player actions\<close>

definition streetComplete :: "HoldemState \<Rightarrow> bool" where
  "streetComplete st =
     (let live = filter (\<lambda>s. \<not> folded s) (seats st)
      in if length live \<le> 1 then True
         else
           let active = filter (\<lambda>s. \<not> allIn s) live
           in if active = [] then True
              else if list_ex (\<lambda>s. bet s \<noteq> currentBet st) active then False
              else list_all (\<lambda>s. seatIndex s \<in> actedThisStreet st) active)"

text \<open>Lines 907--953: the effect of a checked action on the acting seat and the street's counters.
  The result is the state with the seat and counters updated, and the chips paid.\<close>

definition actOn :: "HoldemState \<Rightarrow> SeatState \<Rightarrow> LegalAction \<Rightarrow> PokerAction \<Rightarrow> Chips option
    \<Rightarrow> HoldemState \<times> Chips" where
  "actOn st seat match action amt =
     (let put = (\<lambda>s st. st\<lparr>seats := update_seat (seatIndex seat) (\<lambda>_. s) (seats st)\<rparr>)
      in case action of
        Fold \<Rightarrow> (put (seat\<lparr>folded := True\<rparr>) st, 0)
      | Check \<Rightarrow> (st, 0)
      | Call \<Rightarrow>
          (let (s, paid) = takeChips seat (currentBet st - bet seat)
           in (put s (st\<lparr>pot := pot st + paid\<rparr>), paid))
      | Bet \<Rightarrow>
          (let betAmt = (case amt of Some a \<Rightarrow> a | None \<Rightarrow>
                          (case minAmount match of Some m \<Rightarrow> m | None \<Rightarrow> bigBlind (config st)));
               (s, paid) = takeChips seat betAmt
           in (put s (st\<lparr>pot := pot st + paid, minRaise := paid, currentBet := bet s,
                         lastAggressor := Some (seatIndex s), lastRaiseComplete := True,
                         actedThisStreet := {}\<rparr>), paid))
      | Raise \<Rightarrow>
          (let target = (case amt of Some a \<Rightarrow> a | None \<Rightarrow>
                          (case minAmount match of Some m \<Rightarrow> m
                           | None \<Rightarrow> currentBet st + minRaise st - bet seat));
               (s, paid) = takeChips seat target;
               raiseSize = bet s - currentBet st
           in (put s (st\<lparr>pot := pot st + paid,
                         minRaise := (if raiseSize \<ge> minRaise st then raiseSize else minRaise st),
                         currentBet := bet s, lastAggressor := Some (seatIndex s),
                         lastRaiseComplete := True, actedThisStreet := {}\<rparr>), paid))
      | AllIn \<Rightarrow>
          (let (s, paid) = takeChips seat (stack seat);
               st1 = put s (st\<lparr>pot := pot st + paid\<rparr>);
               raiseSize = bet s - currentBet st
           in (if bet s > currentBet st then
                 (if raiseSize \<ge> minRaise st
                  then st1\<lparr>minRaise := raiseSize, lastAggressor := Some (seatIndex s),
                           lastRaiseComplete := True, actedThisStreet := {}, currentBet := bet s\<rparr>
                  else st1\<lparr>lastRaiseComplete := False, currentBet := bet s\<rparr>)
               else st1, paid)))"

text \<open>Lines 978--996: closing the street or passing the turn, after the action of seat \<open>i\<close>.\<close>

definition advance :: "HoldemState \<Rightarrow> int \<Rightarrow> EngineEvent list \<Rightarrow> step_result" where
  "advance next i ev =
     (if streetComplete next then
        (if street next = river then prepend ev (settleShowdown (next\<lparr>street := showdown\<rparr>))
         else maybeRunout (next\<lparr>actingIndex := None\<rparr>) ev)
      else
        (case nextSeat next i (\<lambda>s. \<not> folded s \<and> \<not> allIn s \<and>
                 (bet s < currentBet next \<or> seatIndex s \<notin> actedThisStreet next)) of
           None \<Rightarrow> maybeRunout (next\<lparr>actingIndex := None\<rparr>) ev
         | Some n \<Rightarrow> Inr (next\<lparr>actingIndex := Some n\<rparr>, ev)))"

text \<open>Lines 886--899: the guards of an action.\<close>

definition checkAction ::
  "HoldemState \<Rightarrow> PokerAction \<Rightarrow> js_amount option \<Rightarrow> game_error + LegalAction \<times> Chips option" where
  "checkAction st action amount =
     (if actingIndex st = None then Inl NobodyToAct
      else bindE (getLegalActions st) (\<lambda>legal.
        case find (\<lambda>l. la_action l = action) legal of
          None \<Rightarrow> Inl (IllegalAction action)
        | Some match \<Rightarrow>
            bindE (case amount of None \<Rightarrow> Inr None | Some a \<Rightarrow> bindE (asChips a) (\<lambda>c. Inr (Some c)))
              (\<lambda>amt.
                case (minAmount match, maxAmount match, amt) of
                  (Some lo, Some hi, Some a) \<Rightarrow>
                    if a < lo \<or> a > hi then Inl (IllegalAmount action a lo hi) else Inr (match, amt)
                | _ \<Rightarrow> Inr (match, amt))))"

definition applyAction :: "HoldemState \<Rightarrow> PokerAction \<Rightarrow> js_amount option \<Rightarrow> step_result" where
  "applyAction st action amount =
     bindE (checkAction st action amount) (\<lambda>(match, amt).
       case actingIndex st of
         None \<Rightarrow> Inl NobodyToAct
       | Some i \<Rightarrow>
           (case seat_at (seats st) i of
              None \<Rightarrow> Inl UndefinedRead
            | Some seat \<Rightarrow>
                (let (st1, paid) = actOn st seat match action amt;
                     next = st1\<lparr>actedThisStreet := insert (seatIndex seat) (actedThisStreet st1)\<rparr>
                 in advance next (seatIndex seat)
                      [PLAYER_ACTED (seatIndex seat) action (if paid = 0 then None else Some paid)
                         (pot st) (pot st1) (street st),
                       POT_UPDATED (pot st1)])))"

section \<open>Projections\<close>

record SeatView =
  sv_seatIndex :: int
  sv_playerId :: string
  sv_agentId :: string
  sv_stack :: int
  sv_bet :: int
  sv_folded :: bool
  sv_allIn :: bool
  sv_sitOut :: bool
  sv_hasCards :: bool

record PublicView =
  pv_tableId :: string
  pv_handId :: "string option"
  pv_handNumber :: int
  pv_street :: Street
  pv_button :: int
  pv_board :: "Card option list"
  pv_pot :: int
  pv_currentBet :: int
  pv_actingIndex :: "int option"
  pv_seedCommit :: "bytes32 option"
  pv_seats :: "SeatView list"
  pv_winners :: "(int \<times> int \<times> string) list"
  pv_rake :: int
  pv_sessionRake :: int
  pv_feesOnTab :: int

definition seatView :: "SeatState \<Rightarrow> game_error + SeatView" where
  "seatView s =
     bindE (chipsToNumber (stack s)) (\<lambda>stk. bindE (chipsToNumber (bet s)) (\<lambda>b.
       Inr \<lparr>sv_seatIndex = seatIndex s, sv_playerId = playerId s, sv_agentId = agentId s,
            sv_stack = stk, sv_bet = b, sv_folded = folded s, sv_allIn = allIn s,
            sv_sitOut = sitOut s, sv_hasCards = (hole s \<noteq> None \<and> \<not> folded s)\<rparr>))"

definition publicView :: "HoldemState \<Rightarrow> game_error + PublicView" where
  "publicView st =
     bindE (chipsToNumber (pot st)) (\<lambda>p. bindE (chipsToNumber (currentBet st)) (\<lambda>cb.
       bindE (mapE seatView (seats st)) (\<lambda>svs.
         bindE (mapE (\<lambda>w. bindE (chipsToNumber (po_amount w)) (\<lambda>a.
                   Inr (po_seatIndex w, a, po_label w))) (winners st)) (\<lambda>ws.
           bindE (chipsToNumber (rake st)) (\<lambda>r. bindE (chipsToNumber (sessionRake st)) (\<lambda>sr.
             Inr \<lparr>pv_tableId = tableId (config st), pv_handId = handId st,
                  pv_handNumber = handNumber st, pv_street = street st, pv_button = button st,
                  pv_board = board st, pv_pot = p, pv_currentBet = cb,
                  pv_actingIndex = actingIndex st, pv_seedCommit = seedCommit st, pv_seats = svs,
                  pv_winners = ws, pv_rake = r, pv_sessionRake = sr, pv_feesOnTab = 0\<rparr>))))))"

record PrivateView =
  pr_public :: PublicView
  pr_holeCards :: "Card option list"
  pr_legalActions :: "(PokerAction \<times> int option \<times> int option) list"

definition optNumber :: "Chips option \<Rightarrow> game_error + int option" where
  "optNumber c = (case c of None \<Rightarrow> Inr None | Some x \<Rightarrow> bindE (chipsToNumber x) (\<lambda>n. Inr (Some n)))"

definition privateView :: "HoldemState \<Rightarrow> int \<Rightarrow> game_error + PrivateView" where
  "privateView st idx =
     bindE (publicView st) (\<lambda>pv.
       bindE (if actingIndex st = Some idx
              then bindE (getLegalActions st) (mapE (\<lambda>a.
                     bindE (optNumber (minAmount a)) (\<lambda>lo. bindE (optNumber (maxAmount a)) (\<lambda>hi.
                       Inr (la_action a, lo, hi)))))
              else Inr []) (\<lambda>legal.
         Inr \<lparr>pr_public = pv,
              pr_holeCards = (case seat_at (seats st) idx of
                                Some s \<Rightarrow> (case hole s of Some h \<Rightarrow> h | None \<Rightarrow> [])
                              | None \<Rightarrow> []),
              pr_legalActions = legal\<rparr>))"

end
