(* ===== verification/Holdem_Seats.thy ===== *)
theory Holdem_Seats
  imports Holdem_Play
begin

text \<open>
  Facts on the seat list of a table: lookup, update, the clockwise search \<open>nextSeat\<close>, and the chips a
  seat pays. A table made by \<open>createTable\<close> numbers its seats \<open>0 .. n-1\<close> in order, and no operation
  renumbers them.
\<close>

definition indexed :: "SeatState list \<Rightarrow> bool" where
  "indexed ss \<longleftrightarrow> map seatIndex ss = map int [0..<length ss]"

lemma indexed_distinct: "indexed ss \<Longrightarrow> distinct (map seatIndex ss)"
  by (simp add: indexed_def distinct_map)

lemma indexed_nth: "indexed ss \<Longrightarrow> i < length ss \<Longrightarrow> seatIndex (ss ! i) = int i"
  unfolding indexed_def by (metis add_0 length_map nth_map nth_upt diff_zero length_upt)

lemma indexed_range: "indexed ss \<Longrightarrow> s \<in> set ss \<Longrightarrow> 0 \<le> seatIndex s \<and> seatIndex s < int (length ss)"
  by (auto simp: in_set_conv_nth indexed_nth)

lemma indexed_map: "(\<And>s. s \<in> set ss \<Longrightarrow> seatIndex (f s) = seatIndex s) \<Longrightarrow> indexed (map f ss) = indexed ss"
  by (simp add: indexed_def comp_def cong: map_cong)

lemma seat_at_SomeD: "seat_at ss i = Some s \<Longrightarrow> s \<in> set ss \<and> seatIndex s = i"
  by (auto simp: seat_at_def find_Some_iff)

lemma seat_at_member: "distinct (map seatIndex ss) \<Longrightarrow> s \<in> set ss \<Longrightarrow> seat_at ss (seatIndex s) = Some s"
  unfolding seat_at_def by (induction ss) (auto simp: image_iff)

lemma seat_at_nth: "indexed ss \<Longrightarrow> i < length ss \<Longrightarrow> seat_at ss (int i) = Some (ss ! i)"
  using seat_at_member [OF indexed_distinct, of ss "ss ! i"] indexed_nth [of ss i] by simp

lemma update_seat_map:
  "distinct (map seatIndex ss) \<Longrightarrow> update_seat i f ss = map (\<lambda>s. if seatIndex s = i then f s else s) ss"
proof (induction ss)
  case (Cons s ss)
  then have "seatIndex s = i \<Longrightarrow> map (\<lambda>s. if seatIndex s = i then f s else s) ss = ss"
    by (intro map_idI) (auto simp: image_iff)
  with Cons show ?case by auto
qed simp

lemma length_update_seat [simp]: "length (update_seat i f ss) = length ss"
  by (induction ss) auto

lemma map_update_seat_same:
  "(\<And>s. g (f s) = g s) \<Longrightarrow> map g (update_seat i f ss) = map g ss"
  by (induction ss) auto

lemma map_put_seat_same:
  "seat_at ss i = Some s \<Longrightarrow> g s' = g s \<Longrightarrow> map g (update_seat i (\<lambda>_. s') ss) = map g ss"
  unfolding seat_at_def by (induction ss) (auto split: if_splits)

lemma seat_at_put_other:
  "seatIndex s' = i \<Longrightarrow> j \<noteq> i \<Longrightarrow> seat_at (update_seat i (\<lambda>_. s') ss) j = seat_at ss j"
  unfolding seat_at_def by (induction ss) auto

lemma set_put_seat: "t \<in> set (update_seat i (\<lambda>_. s') ss) \<Longrightarrow> t = s' \<or> t \<in> set ss"
  by (induction ss) (auto split: if_splits)

lemma set_put_seat_distinct:
  "distinct (map seatIndex ss) \<Longrightarrow> t \<in> set (update_seat i (\<lambda>_. s') ss) \<Longrightarrow>
     t = s' \<or> (t \<in> set ss \<and> seatIndex t \<noteq> i)"
  by (auto simp: update_seat_map split: if_splits)

lemma sum_put_seat [chip_sums]:
  "seat_at ss i = Some s \<Longrightarrow> sum_of g (update_seat i (\<lambda>_. s') ss) = sum_of g ss - g s + g s'"
  unfolding seat_at_def by (induction ss) (auto split: if_splits)

lemma length_filter_put_seat:
  "seat_at ss i = Some s \<Longrightarrow>
   int (length (filter P (update_seat i (\<lambda>_. s') ss))) =
   int (length (filter P ss)) - (if P s then 1 else 0) + (if P s' then 1 else 0)"
  unfolding seat_at_def by (induction ss) (auto split: if_splits)

section \<open>The clockwise search\<close>

lemma nextSeat_SomeD:
  assumes "nextSeat st from P = Some j"
  shows "\<exists>s. seat_at (seats st) j = Some s \<and> P s"
proof -
  have "case seat_at (seats st) j of Some s \<Rightarrow> P s | None \<Rightarrow> False"
    using assms unfolding nextSeat_def Let_def find_Some_iff by (elim exE conjE) simp
  then show ?thesis by (auto split: option.splits)
qed

lemma clockwise_covers:
  assumes "0 \<le> (from :: int)" "k < n"
  shows "\<exists>d. 1 \<le> d \<and> d \<le> n \<and> js_rem (from + int d) (int n) = int k"
proof -
  define d0 where "d0 = nat ((int k - from) mod int n)"
  have n: "0 < n" using assms(2) by simp
  then have d0: "int d0 = (int k - from) mod int n" "d0 < n"
    unfolding d0_def by (auto simp: nat_less_iff)
  define d where "d = (if d0 = 0 then n else d0)"
  have "(from + int d) mod int n = (from + int d0) mod int n" by (simp add: d_def)
  also have "\<dots> = (from + (int k - from)) mod int n" unfolding d0(1) by (simp add: mod_add_right_eq)
  also have "\<dots> = int k" using assms(2) by simp
  finally have "js_rem (from + int d) (int n) = int k" using n assms(1) by (simp add: js_arith)
  then show ?thesis using d0(2) n by (intro exI [of _ d]) (auto simp: d_def)
qed

lemma nextSeat_None_iff:
  assumes "indexed (seats st)" "0 \<le> from"
  shows "nextSeat st from P = None \<longleftrightarrow> (\<forall>s \<in> set (seats st). \<not> P s)"
proof
  assume none: "nextSeat st from P = None"
  show "\<forall>s \<in> set (seats st). \<not> P s"
  proof
    fix s assume "s \<in> set (seats st)"
    then obtain k where k: "k < length (seats st)" "s = seats st ! k" by (auto simp: in_set_conv_nth)
    obtain d where d: "1 \<le> d" "d \<le> length (seats st)"
        "js_rem (from + int d) (int (length (seats st))) = int k"
      using clockwise_covers [OF assms(2) k(1)] by auto
    have "d \<in> set [1..<Suc (length (seats st))]" using d by auto
    then have "\<not> (case seat_at (seats st) (int k) of Some s \<Rightarrow> P s | None \<Rightarrow> False)"
      using none d(3) unfolding nextSeat_def Let_def find_None_iff by (metis image_eqI list.set_map)
    then show "\<not> P s" using seat_at_nth [OF assms(1) k(1)] k(2) by simp
  qed
next
  assume "\<forall>s \<in> set (seats st). \<not> P s"
  then show "nextSeat st from P = None"
    using nextSeat_SomeD [of st "from" P] seat_at_SomeD by (cases "nextSeat st from P") blast+
qed

text \<open>What \<open>nextSeat\<close> returns is the nearest seat clockwise from \<open>from\<close> that satisfies the predicate,
  \<open>from\<close> itself being the last one considered.\<close>

lemma nextSeat_first:
  assumes "indexed (seats st)" "0 \<le> from" "nextSeat st from P = Some j"
  shows "\<exists>d. 1 \<le> d \<and> d \<le> length (seats st) \<and> j = (from + int d) mod int (length (seats st))
     \<and> nat j < length (seats st) \<and> P (seats st ! nat j)
     \<and> (\<forall>e. 1 \<le> e \<and> e < d \<longrightarrow> \<not> P (seats st ! nat ((from + int e) mod int (length (seats st)))))"
proof -
  let ?n = "length (seats st)"
  let ?Q = "\<lambda>idx. case seat_at (seats st) idx of Some s \<Rightarrow> P s | None \<Rightarrow> False"
  let ?xs = "map (\<lambda>i. js_rem (from + int i) (int ?n)) [1..<Suc ?n]"
  have nth: "?xs ! e = js_rem (from + int (Suc e)) (int ?n)" if "e < ?n" for e
    using that by (simp del: upt.simps)
  obtain i where i0: "i < length ?xs" "?Q (?xs ! i)" "j = ?xs ! i" "\<forall>e<i. \<not> ?Q (?xs ! e)"
    using assms(3) unfolding nextSeat_def Let_def find_Some_iff by blast
  have len: "i < ?n" using i0(1) by (simp del: upt.simps)
  have i: "i < ?n" "?Q (js_rem (from + int (Suc i)) (int ?n))"
      "j = js_rem (from + int (Suc i)) (int ?n)"
      "\<forall>e<i. \<not> ?Q (js_rem (from + int (Suc e)) (int ?n))"
    using len i0(2,3,4) unfolding nth [OF len] using nth less_trans [OF _ len] by metis+
  have n: "0 < int ?n" using i(1) by (cases "seats st") auto
  have rem: "js_rem (from + int d) (int ?n) = (from + int d) mod int ?n" for d
    using n assms(2) by (simp add: js_arith)
  have at: "?Q (x mod int ?n) \<longleftrightarrow> P (seats st ! nat (x mod int ?n))" for x
  proof -
    have "nat (x mod int ?n) < ?n" using n by (simp add: nat_less_iff)
    moreover have "int (nat (x mod int ?n)) = x mod int ?n" using n by simp
    ultimately show ?thesis using seat_at_nth [OF assms(1)] by (metis option.simps(5))
  qed
  show ?thesis
  proof (intro exI [of _ "Suc i"] conjI allI impI)
    show "j = (from + int (Suc i)) mod int ?n" using i(3) rem by metis
    then show "nat j < ?n" "P (seats st ! nat j)"
      using i(2) n at [of "from + int (Suc i)"] unfolding i(3) rem by (simp_all add: nat_less_iff)
    fix e assume e: "1 \<le> e \<and> e < Suc i"
    then obtain e' where "e = Suc e'" "e' < i" by (cases e) auto
    then show "\<not> P (seats st ! nat ((from + int e) mod int ?n))"
      using i(4) at unfolding rem by blast
  qed (use i(1) in auto)
qed

section \<open>Paying chips\<close>

lemma takeChips_spec:
  assumes "takeChips s a = (s', paid)" "0 \<le> stack s" "0 \<le> a"
  shows "paid = min (stack s) a" "stack s' = stack s - paid" "bet s' = bet s + paid"
    "totalBet s' = totalBet s + paid" "allIn s' = (allIn s \<or> stack s' = 0)"
    "seatIndex s' = seatIndex s" "playerId s' = playerId s" "hole s' = hole s"
    "folded s' = folded s" "sitOut s' = sitOut s" "agentId s' = agentId s"
  using assms by (auto simp: takeChips_def Let_def min_def split: if_splits)

end
