(* ===== verification/Holdem_Settle.thy ===== *)
theory Holdem_Settle
  imports Holdem_Seats
begin

text \<open>
  What the two settlements of a hand do with the chips: \<open>settleShowdown\<close> and \<open>foldWin\<close> are total on a
  well-formed hand, pay out exactly the pot less the rake, and leave no stack smaller than before.
\<close>

section \<open>Chips by seat\<close>

definition amt_of :: "(int \<times> Chips) list \<Rightarrow> int \<Rightarrow> Chips" where
  "amt_of al k = (case map_of al k of Some x \<Rightarrow> x | None \<Rightarrow> 0)"

definition gross_of :: "won_map \<Rightarrow> (int \<times> Chips) list" where
  "gross_of won = map (\<lambda>(i, a, l). (i, a)) won"

definition credit :: "(int \<Rightarrow> Chips) \<Rightarrow> SeatState list \<Rightarrow> SeatState list" where
  "credit w ss = map (\<lambda>s. s\<lparr>stack := stack s + w (seatIndex s)\<rparr>) ss"

lemma amt_of_simps [simp]:
  "amt_of [] i = 0"
  "amt_of ((k, v) # al) i = (if i = k then v else amt_of al i)"
  "amt_of (AList.update k v al) i = (if i = k then v else amt_of al i)"
  by (auto simp: amt_of_def update_conv')

lemma map_fst_gross_of [simp]: "map fst (gross_of won) = map fst won"
  by (induction won) (auto simp: gross_of_def)

lemma gross_of_update [simp]: "gross_of (AList.update k (a, l) won) = AList.update k a (gross_of won)"
  by (induction won) (auto simp: gross_of_def)

lemma amt_of_gross: "(case map_of won k of Some (a, _) \<Rightarrow> a | None \<Rightarrow> 0) = amt_of (gross_of won) k"
  by (induction won) (auto simp: gross_of_def amt_of_def)

lemma amt_of_fresh: "k \<notin> fst ` set al \<Longrightarrow> amt_of al k = 0"
  by (simp add: amt_of_def map_of_eq_None_iff [THEN iffD2])

lemma amt_of_nonneg: "(\<And>p. p \<in> set al \<Longrightarrow> 0 \<le> snd p) \<Longrightarrow> 0 \<le> amt_of al k"
  by (auto simp: amt_of_def split: option.splits dest: map_of_SomeD)

lemma sum_update:
  "distinct (map fst al) \<Longrightarrow> sum_of snd (AList.update k v al) = sum_of snd al - amt_of al k + v"
  by (induction al) (auto simp: amt_of_fresh)

lemma sum_indicator:
  "distinct (map seatIndex ss) \<Longrightarrow> k \<in> seatIndex ` set ss \<Longrightarrow>
   sum_of (\<lambda>s. if seatIndex s = k then v else 0) ss = v"
proof (induction ss)
  case (Cons s ss)
  show ?case
  proof (cases "seatIndex s = k")
    case True
    then have "sum_of (\<lambda>s. if seatIndex s = k then v else 0) ss = sum_of (\<lambda>_. 0) ss"
      using Cons.prems by (intro sum_of_cong) (auto simp: image_iff)
    then show ?thesis using True by simp
  qed (use Cons in auto)
qed simp

text \<open>Summing the entries over the seats is summing the association list.\<close>

lemma sum_amt_of [chip_sums]:
  assumes "distinct (map seatIndex ss)" "distinct (map fst al)" "fst ` set al \<subseteq> seatIndex ` set ss"
  shows "sum_of (\<lambda>s. amt_of al (seatIndex s)) ss = sum_of snd al"
  using assms(2,3)
proof (induction al)
  case (Cons p al)
  obtain k v where p: "p = (k, v)" by (cases p)
  have "amt_of (p # al) i = (if i = k then v else 0) + amt_of al i" for i
    using Cons.prems(1) p by (auto simp: amt_of_fresh)
  then have "sum_of (\<lambda>s. amt_of (p # al) (seatIndex s)) ss
      = sum_of (\<lambda>s. (if seatIndex s = k then v else 0) + amt_of al (seatIndex s)) ss" by simp
  also have "\<dots> = v + sum_of snd al"
    using Cons p sum_indicator [OF assms(1), of k v] unfolding sum_of_add by auto
  finally show ?case using p by simp
qed simp

lemma credit_simps [simp]:
  "map seatIndex (credit w ss) = map seatIndex ss" "length (credit w ss) = length ss"
  "credit (\<lambda>_. 0) ss = ss"
  by (auto simp: credit_def comp_def)

lemma sum_stack_credit [chip_sums]:
  "sum_of stack (credit w ss) = sum_of stack ss + sum_of (\<lambda>s. w (seatIndex s)) ss"
  by (induction ss) (auto simp: credit_def)

lemma update_credit:
  "distinct (map seatIndex ss) \<Longrightarrow>
   update_seat k (\<lambda>s. s\<lparr>stack := stack s + d\<rparr>) (credit w ss) = credit (\<lambda>i. if i = k then w i + d else w i) ss"
  unfolding update_seat_map [of "credit w ss", unfolded credit_simps(1)] by (auto simp: credit_def)

lemma seat_at_ex: "k \<in> set (map seatIndex ss) \<Longrightarrow> \<exists>s. seat_at ss k = Some s"
  unfolding seat_at_def by (induction ss) auto

lemma seat_at_credit: "k \<in> seatIndex ` set ss \<Longrightarrow> \<exists>s. seat_at (credit w ss) k = Some s"
  by (rule seat_at_ex) simp

section \<open>Paying the layers\<close>

lemma payWinners_spec:
  assumes "distinct (map seatIndex base)" "distinct (map fst won)"
    and "rk_seatIndex ` set ws \<subseteq> seatIndex ` set base" "length shares = length ws"
    and "\<forall>x \<in> set shares. 0 \<le> x" "\<forall>p \<in> set (gross_of won). 0 \<le> snd p"
  shows "\<exists>won'. payWinners ws shares (credit (amt_of (gross_of won)) base, won)
       = Inr (credit (amt_of (gross_of won')) base, won')
     \<and> distinct (map fst won') \<and> (\<forall>p \<in> set (gross_of won'). 0 \<le> snd p)
     \<and> sum_of snd (gross_of won') = sum_of snd (gross_of won) + sum_list shares
     \<and> fst ` set won' \<subseteq> fst ` set won \<union> rk_seatIndex ` set ws"
  using assms(2-)
proof (induction ws arbitrary: shares won)
  case (Cons w ws)
  obtain a sh where sh: "shares = a # sh" "length sh = length ws" using Cons.prems(3)
    by (cases shares) auto
  let ?k = "rk_seatIndex w"
  define won1 where "won1 = AList.update ?k (amt_of (gross_of won) ?k + a, rk_label w) won"
  obtain s where s: "seat_at (credit (amt_of (gross_of won)) base) ?k = Some s"
    using seat_at_credit Cons.prems(2) by (metis image_subset_iff list.set_intros(1))
  have fn: "(\<lambda>i. if i = ?k then amt_of (gross_of won) i + a else amt_of (gross_of won) i)
      = amt_of (gross_of won1)"
    by (auto simp: won1_def fun_eq_iff)
  have step: "payWinners (w # ws) shares (credit (amt_of (gross_of won)) base, won)
      = payWinners ws sh (credit (amt_of (gross_of won1)) base, won1)"
    using s unfolding sh(1)
    by (simp add: update_credit [OF assms(1)] fn amt_of_gross Let_def flip: won1_def)
  have d1: "distinct (map fst won1)" unfolding won1_def by (rule distinct_update [OF Cons.prems(1)])
  have nn: "0 \<le> amt_of (gross_of won) ?k" using Cons.prems(5) by (intro amt_of_nonneg) auto
  have n1: "\<forall>p \<in> set (gross_of won1). 0 \<le> snd p"
    using Cons.prems(4,5) nn sh(1) set_update_subset [of ?k "amt_of (gross_of won) ?k + a" "gross_of won"]
    by (auto simp: won1_def)
  have s1: "sum_of snd (gross_of won1) = sum_of snd (gross_of won) + a"
    unfolding won1_def gross_of_update using Cons.prems(1) by (subst sum_update) auto
  have k1: "fst ` set won1 = insert ?k (fst ` set won)"
    unfolding won1_def dom_map_of_conv_image_fst [symmetric] by (simp add: update_conv')
  obtain won' where "payWinners ws sh (credit (amt_of (gross_of won1)) base, won1)
      = Inr (credit (amt_of (gross_of won')) base, won')" "distinct (map fst won')"
      "\<forall>p \<in> set (gross_of won'). 0 \<le> snd p"
      "sum_of snd (gross_of won') = sum_of snd (gross_of won1) + sum_list sh"
      "fst ` set won' \<subseteq> fst ` set won1 \<union> rk_seatIndex ` set ws"
    using Cons.IH [OF d1 _ sh(2) _ n1] Cons.prems(2,4) sh(1) by auto
  then show ?case
    unfolding step using s1 k1 sh(1) by (intro exI [of _ won']) auto
qed (auto intro!: exI [of _ won])

text \<open>The winners of a layer are the eligible live hands that no other eligible live hand beats.\<close>

lemma map_of_rev_ranked:
  assumes "map_of (rev (map (\<lambda>r. (rk_seatIndex r, r)) ranked)) i = Some r"
  shows "r \<in> set ranked \<and> rk_seatIndex r = i"
  using map_of_SomeD [OF assms] by auto

lemma map_of_rev_ranked_ex:
  "i \<in> rk_seatIndex ` set ranked \<Longrightarrow>
   \<exists>r. map_of (rev (map (\<lambda>r. (rk_seatIndex r, r)) ranked)) i = Some r"
  by (rule ccontr) (force simp: map_of_eq_None_iff)

lemma layerWinners_best:
  fixes ranked layer
  defines "cont \<equiv> set (List.map_filter (map_of (rev (map (\<lambda>r. (rk_seatIndex r, r)) ranked))) (eligible layer))"
  shows "set (layerWinners ranked order layer)
    = {w \<in> cont. \<forall>c \<in> cont. compareScores (rk_score c) (rk_score w) \<le> 0}"
proof -
  let ?cs = "js_sort (\<lambda>a b. compareScores (rk_score b) (rk_score a))
               (List.map_filter (map_of (rev (map (\<lambda>r. (rk_seatIndex r, r)) ranked))) (eligible layer))"
  have cs: "set ?cs = cont" by (simp add: cont_def)
  show ?thesis
  proof (cases ?cs)
    case Nil
    then show ?thesis using cs by (simp add: layerWinners_def Let_def)
  next
    case (Cons m ms)
    have best: "compareScores (rk_score c) (rk_score m) \<le> 0" if "c \<in> cont" for c
      using score_desc.js_sort_hd_least [OF Cons] that by (simp add: cont_def)
    have m: "m \<in> cont" using Cons cs by auto
    have "set (layerWinners ranked order layer)
        = {w \<in> cont. compareScores (rk_score w) (rk_score m) = 0}"
      using Cons cs by (auto simp: layerWinners_def Let_def)
    also have "\<dots> = {w \<in> cont. \<forall>c \<in> cont. compareScores (rk_score c) (rk_score w) \<le> 0}"
    proof (intro Collect_cong conj_cong refl iffI ballI)
      fix w c assume w: "w \<in> cont" "compareScores (rk_score w) (rk_score m) = 0" and c: "c \<in> cont"
      then have "compareScores (rk_score m) (rk_score w) \<le> 0"
        using compareScores_swap [of "rk_score w" "rk_score m"] by linarith
      then show "compareScores (rk_score c) (rk_score w) \<le> 0"
        using best [OF c] compareScores_trans by blast
    next
      fix w assume w: "w \<in> cont" "\<forall>c \<in> cont. compareScores (rk_score c) (rk_score w) \<le> 0"
      then show "compareScores (rk_score w) (rk_score m) = 0"
        using best [OF w(1)] m compareScores_swap [of "rk_score w" "rk_score m"] by force
    qed
    finally show ?thesis .
  qed
qed

lemma layerWinners_sub: "set (layerWinners ranked order layer) \<subseteq> set ranked"
  unfolding layerWinners_best using map_of_rev_ranked by (fastforce simp: List.map_filter_def)

lemma layerWinners_nonempty:
  assumes "eligible layer \<noteq> []" "set (eligible layer) \<subseteq> rk_seatIndex ` set ranked"
  shows "layerWinners ranked order layer \<noteq> []"
proof -
  let ?f = "map_of (rev (map (\<lambda>r. (rk_seatIndex r, r)) ranked))"
  let ?cs = "js_sort (\<lambda>a b. compareScores (rk_score b) (rk_score a)) (List.map_filter ?f (eligible layer))"
  obtain i where i: "i \<in> set (eligible layer)" using assms(1) by (meson list.set_sel(1))
  then obtain r where "?f i = Some r" using map_of_rev_ranked_ex assms(2) by blast
  then have "List.map_filter ?f (eligible layer) \<noteq> []"
    using i by (auto simp: List.map_filter_def filter_empty_conv)
  then obtain m ms where ms: "?cs = m # ms" by (cases ?cs) auto
  then have "m \<in> set (layerWinners ranked order layer)" by (simp add: layerWinners_def Let_def)
  then show ?thesis by auto
qed

lemma awardLayers_spec:
  assumes "distinct (map seatIndex base)" "distinct (map fst won)"
    and "rk_seatIndex ` set ranked \<subseteq> seatIndex ` set base" "\<forall>p \<in> set (gross_of won). 0 \<le> snd p"
    and "\<forall>l \<in> set layers. 0 < pl_amount l \<and> eligible l \<noteq> [] \<and> set (eligible l) \<subseteq> rk_seatIndex ` set ranked"
    and "fst ` set won \<subseteq> rk_seatIndex ` set ranked"
  shows "\<exists>won'. awardLayers ranked order layers (credit (amt_of (gross_of won)) base, won)
       = Inr (credit (amt_of (gross_of won')) base, won')
     \<and> distinct (map fst won') \<and> (\<forall>p \<in> set (gross_of won'). 0 \<le> snd p)
     \<and> sum_of snd (gross_of won') = sum_of snd (gross_of won) + sum_of pl_amount layers
     \<and> fst ` set won' \<subseteq> rk_seatIndex ` set ranked"
  using assms(2,4-)
proof (induction layers arbitrary: won)
  case (Cons l ls)
  let ?ws = "layerWinners ranked order l"
  have l: "0 < pl_amount l" "eligible l \<noteq> []" "?ws \<noteq> []"
    using Cons.prems(3) layerWinners_nonempty by auto
  obtain sh where sh: "splitPotShares (BigIntAmt (pl_amount l)) (int (length ?ws)) = Inr sh"
      "length sh = length ?ws" "sum_list sh = pl_amount l" "\<forall>x \<in> set sh. 0 \<le> x"
    using splitPotShares_ok [of "pl_amount l" "length ?ws"] l by auto
  have sub: "rk_seatIndex ` set ?ws \<subseteq> rk_seatIndex ` set ranked" using layerWinners_sub by blast
  obtain won1 where w1: "payWinners ?ws sh (credit (amt_of (gross_of won)) base, won)
       = Inr (credit (amt_of (gross_of won1)) base, won1)"
      "distinct (map fst won1)" "\<forall>p \<in> set (gross_of won1). 0 \<le> snd p"
      "sum_of snd (gross_of won1) = sum_of snd (gross_of won) + pl_amount l"
      "fst ` set won1 \<subseteq> fst ` set won \<union> rk_seatIndex ` set ?ws"
    using payWinners_spec [OF assms(1) Cons.prems(1) order_trans [OF sub assms(3)] sh(2,4) Cons.prems(2)]
    unfolding sh(3) by blast
  have keys1: "fst ` set won1 \<subseteq> rk_seatIndex ` set ranked" using w1(5) sub Cons.prems(4) by blast
  obtain won' where "awardLayers ranked order ls (credit (amt_of (gross_of won1)) base, won1)
       = Inr (credit (amt_of (gross_of won')) base, won')"
      "distinct (map fst won')" "\<forall>p \<in> set (gross_of won'). 0 \<le> snd p"
      "sum_of snd (gross_of won') = sum_of snd (gross_of won1) + sum_of pl_amount ls"
      "fst ` set won' \<subseteq> rk_seatIndex ` set ranked"
    using Cons.IH [OF w1(2,3)] Cons.prems(3,4) keys1 by auto
  then show ?case
    using l sh(1) w1 by (intro exI [of _ won']) (auto simp: Let_def)
qed (auto intro!: exI [of _ won])

section \<open>Showdown\<close>

lemma deductTabs_credit:
  assumes "distinct (map seatIndex base)" "distinct (map fst tabs)"
  shows "deductTabs tabs (credit w base) = credit (\<lambda>i. w i - amt_of tabs i) base"
  using assms(2)
proof (induction tabs arbitrary: w)
  case (Cons t ts)
  have "(\<lambda>i. (if i = fst t then w i + - snd t else w i) - amt_of ts i) = (\<lambda>i. w i - amt_of (t # ts) i)"
    using Cons.prems by (cases t) (auto simp: fun_eq_iff amt_of_fresh)
  then show ?case
    using Cons update_credit [OF assms(1), of "fst t" "- snd t" w] by simp
qed simp

text \<open>The tabs of an assessed rake between zero and the sum of the awards.\<close>

lemma rake_tabs_ok:
  assumes "distinct (map fst gross)" "\<forall>p \<in> set gross. 0 \<le> snd p" "0 \<le> R" "R \<le> sum_of snd gross"
  shows "sum_of snd (allocateRakeByAwards gross R btn n) = R"
    and "distinct (map fst (allocateRakeByAwards gross R btn n))"
    and "fst ` set (allocateRakeByAwards gross R btn n) \<subseteq> fst ` set gross"
    and "0 \<le> amt_of (allocateRakeByAwards gross R btn n) k"
    and "amt_of (allocateRakeByAwards gross R btn n) k \<le> amt_of gross k"
proof -
  let ?tabs = "allocateRakeByAwards gross R btn n"
  have all: "sum_of snd ?tabs = R \<and> distinct (map fst ?tabs) \<and> fst ` set ?tabs \<subseteq> fst ` set gross
      \<and> 0 \<le> amt_of ?tabs k \<and> amt_of ?tabs k \<le> amt_of gross k"
  proof (cases "0 < R")
    case True
    note ok = allocateRakeByAwards_ok [OF assms(1,2) True assms(4), where btn = btn and n = n]
    have "0 \<le> amt_of ?tabs k \<and> amt_of ?tabs k \<le> amt_of gross k"
    proof (cases "map_of ?tabs k")
      case None
      then show ?thesis using amt_of_nonneg [of gross k] assms(2) by (simp add: amt_of_def)
    next
      case (Some t)
      then obtain a where "(k, a) \<in> set gross" "t \<le> a" "0 \<le> t" using ok(4) [OF map_of_SomeD [OF Some]] by blast
      then show ?thesis using Some assms(1) by (simp add: amt_of_def)
    qed
    then show ?thesis using ok by auto
  next
    case False
    then have "?tabs = []" "R = 0" using assms(3) by (auto simp: allocateRakeByAwards_def)
    then show ?thesis using amt_of_nonneg [of gross k] assms(2) by simp
  qed
  show "sum_of snd ?tabs = R" "distinct (map fst ?tabs)" "fst ` set ?tabs \<subseteq> fst ` set gross"
    "0 \<le> amt_of ?tabs k" "amt_of ?tabs k \<le> amt_of gross k" using all by blast+
qed

definition showdown_ready :: "HoldemState \<Rightarrow> bool" where
  "showdown_ready st \<longleftrightarrow> distinct (map seatIndex (seats st))
     \<and> (\<forall>s \<in> set (seats st). 0 \<le> totalBet s \<and> (\<not> folded s \<longrightarrow> (\<exists>a b. hole s = Some [Some a, Some b])))
     \<and> (\<exists>cs. board st = map Some cs \<and> 3 \<le> length cs)
     \<and> (\<exists>s \<in> set (seats st). \<not> folded s \<and> 0 < totalBet s)
     \<and> rakePctToBps (rakePct (config st)) \<le> RAKE_BPS_DENOMINATOR"

lemma rankSeat_total:
  assumes "hole s = Some [Some a, Some b]" "3 \<le> length cs"
  shows "\<exists>r. rankSeat (map Some cs) s = Inr r \<and> rk_seatIndex r = seatIndex s"
  using bestHand_best [of "[a, b]" cs] assms by (auto simp: rankSeat_def)

lemma mapE_rankSeat:
  assumes "\<forall>s \<in> set ss. \<exists>r. rankSeat brd s = Inr r \<and> rk_seatIndex r = seatIndex s"
  shows "\<exists>ranked. mapE (rankSeat brd) ss = Inr ranked \<and> map rk_seatIndex ranked = map seatIndex ss"
  using assms by (induction ss) auto

lemma uncalledFromTotals_nonneg: "0 \<le> uncalledFromTotals ss"
  by (auto simp: uncalledFromTotals_def Let_def split: list.splits)

text \<open>The showdown pays every seat a non-negative amount, a folded seat nothing, and the amounts with the
  rake are the bets of the hand.\<close>

lemma settleShowdown_spec:
  assumes "showdown_ready st"
  shows "\<exists>w r ps ev. settleShowdown st = Inr (st\<lparr>seats := credit w (seats st), pot := 0, rake := r,
            sessionRake := sessionRake st + r, winners := ps, street := settlement, actingIndex := None\<rparr>, ev)
     \<and> (\<forall>i. 0 \<le> w i) \<and> 0 \<le> r \<and> (\<forall>s \<in> set (seats st). folded s \<longrightarrow> w (seatIndex s) = 0)
     \<and> sum_of (\<lambda>s. w (seatIndex s)) (seats st) + r = sum_of totalBet (seats st)"
proof -
  let ?live = "filter (\<lambda>s. \<not> folded s \<and> hole s \<noteq> None) (seats st)"
  let ?n = "int (length (seats st))"
  have dist: "distinct (map seatIndex (seats st))" and nn: "\<And>s. s \<in> set (seats st) \<Longrightarrow> 0 \<le> totalBet s"
    and some: "\<exists>s \<in> set (seats st). \<not> folded s \<and> 0 < totalBet s"
    and hole: "\<And>s. s \<in> set (seats st) \<Longrightarrow> \<not> folded s \<Longrightarrow> \<exists>a b. hole s = Some [Some a, Some b]"
    and bps: "rakePctToBps (rakePct (config st)) \<le> RAKE_BPS_DENOMINATOR"
    using assms by (auto simp: showdown_ready_def)
  obtain cs where cs: "board st = map Some cs" "3 \<le> length cs" using assms by (auto simp: showdown_ready_def)
  obtain ranked where rk: "mapE (rankSeat (board st)) ?live = Inr ranked"
      "map rk_seatIndex ranked = map seatIndex ?live"
    using mapE_rankSeat [of ?live "board st"] rankSeat_total [OF _ cs(2)] hole cs(1) by fastforce
  have ridx: "rk_seatIndex ` set ranked = seatIndex ` set ?live" using rk(2) by (metis list.set_map)
  define layers where "layers = buildPots (seats st)"
  have tot: "sum_of pl_amount layers = sum_of totalBet (seats st)"
    unfolding layers_def using nn some by (rule buildPots_sum)
  have lay: "0 < pl_amount l \<and> eligible l \<noteq> [] \<and> set (eligible l) \<subseteq> rk_seatIndex ` set ranked"
    if "l \<in> set layers" for l
    using buildPots_layer(1,2,3) [OF that [unfolded layers_def]] hole unfolding ridx by fastforce
  define e where "e = eligibleForRake st"
  obtain s0 where "s0 \<in> set (seats st)" "0 < totalBet s0" using some by blast
  then have "0 < sum_of totalBet (seats st)"
    using sum_of_member_le [of "seats st" totalBet s0] nn by force
  then have e: "0 \<le> e" "e \<le> sum_of totalBet (seats st)"
    using uncalledFromTotals_nonneg [of "seats st"] tot by (auto simp: e_def eligibleForRake_def layers_def Let_def)
  obtain r where r: "computeRakeFromPct (BigIntAmt e) (rakePct (config st))
      (map_option BigIntAmt (rakeCap (config st))) (int (length ?live)) None = Inr r"
    using computeRakeFromPct_total by blast
  have rb: "0 \<le> r" "r \<le> sum_of totalBet (seats st)"
    using computeRakeFromPct_bounds [OF r bps] e by auto
  have sub: "rk_seatIndex ` set ranked \<subseteq> seatIndex ` set (seats st)" using ridx by auto
  have c0: "credit (amt_of (gross_of [])) (seats st) = seats st" by (simp add: gross_of_def credit_def)
  obtain won where won: "awardLayers ranked (seatsAfterButton (button st) ?n) layers (seats st, [])
       = Inr (credit (amt_of (gross_of won)) (seats st), won)"
      "distinct (map fst won)" "\<forall>p \<in> set (gross_of won). 0 \<le> snd p"
      "sum_of snd (gross_of won) = sum_of totalBet (seats st)" "fst ` set won \<subseteq> rk_seatIndex ` set ranked"
    using awardLayers_spec [OF dist, of "[]" ranked layers "seatsAfterButton (button st) ?n", unfolded c0]
      sub lay tot by (auto simp: gross_of_def)
  define tabs where "tabs = allocateRakeByAwards (gross_of won) r (button st) ?n"
  have dg: "distinct (map fst (gross_of won))" using won(2) by simp
  have rg: "r \<le> sum_of snd (gross_of won)" using rb(2) won(4) by simp
  note tk = rake_tabs_ok [OF dg won(3) rb(1) rg, where btn = "button st" and n = ?n, folded tabs_def]
  define w where "w = (\<lambda>i. amt_of (gross_of won) i - amt_of tabs i)"
  have gkeys: "fst ` set (gross_of won) \<subseteq> seatIndex ` set (seats st)"
    using won(5) sub by (metis list.set_map map_fst_gross_of order_trans)
  have "sum_of (\<lambda>s. w (seatIndex s)) (seats st) + r = sum_of totalBet (seats st)"
    using sum_amt_of [OF dist dg gkeys] sum_amt_of [OF dist tk(2) order_trans [OF tk(3) gkeys]] tk(1) won(4)
    by (simp add: w_def sum_of_diff)
  moreover have "\<forall>s \<in> set (seats st). folded s \<longrightarrow> w (seatIndex s) = 0"
  proof (intro ballI impI)
    fix s assume s: "s \<in> set (seats st)" "folded s"
    then have "seatIndex s \<notin> seatIndex ` set ?live"
      using dist by (auto simp: distinct_map dest: inj_onD)
    then have "seatIndex s \<notin> fst ` set (gross_of won)"
      using won(5) ridx by (metis list.set_map map_fst_gross_of subsetD)
    moreover from this have "seatIndex s \<notin> fst ` set tabs" using tk(3) by blast
    ultimately show "w (seatIndex s) = 0" by (simp add: w_def amt_of_fresh)
  qed
  moreover have "\<forall>i. 0 \<le> w i" using tk(5) by (simp add: w_def)
  moreover have "\<exists>ps ev. settleShowdown st = Inr (st\<lparr>seats := credit w (seats st), pot := 0, rake := r,
       sessionRake := sessionRake st + r, winners := ps, street := settlement, actingIndex := None\<rparr>, ev)"
  proof -
    have g: "map (\<lambda>p. (po_seatIndex p, po_amount p))
          (map (\<lambda>(i, a, l). \<lparr>po_seatIndex = i, po_amount = a, po_label = l\<rparr>) won) = gross_of won"
      by (auto simp: gross_of_def)
    have "settleShowdown st = Inr (finishShowdown st ranked r (credit (amt_of (gross_of won)) (seats st), won))"
      using rk(1) r won(1) by (simp only: settleShowdown_def Let_def bindE.simps layers_def e_def)
    moreover have "deductTabs tabs (credit (amt_of (gross_of won)) (seats st)) = credit w (seats st)"
      unfolding w_def by (rule deductTabs_credit [OF dist tk(2)])
    ultimately show ?thesis
      unfolding finishShowdown_def Let_def prod.case g tabs_def [symmetric] by auto
  qed
  ultimately show ?thesis using rb(1) by blast
qed

section \<open>Fold win\<close>

lemma find_rake_seats:
  "distinct (map seatIndex ss) \<Longrightarrow> s \<in> set ss \<Longrightarrow>
   find (\<lambda>x. rs_seatIndex x = seatIndex s) (rake_seats ss)
     = Some \<lparr>rs_seatIndex = seatIndex s, rs_bet = BigIntAmt (bet s), rs_folded = folded s\<rparr>"
  unfolding rake_seats_def by (induction ss) (auto simp: image_iff)

definition foldwin_ready :: "HoldemState \<Rightarrow> bool" where
  "foldwin_ready st \<longleftrightarrow> distinct (map seatIndex (seats st))
     \<and> (\<forall>s \<in> set (seats st). 0 \<le> bet s \<and> bet s \<le> totalBet s)
     \<and> (\<exists>s \<in> set (seats st). \<not> folded s \<and> playerId s \<noteq> '''' \<and> \<not> sitOut s)
     \<and> pot st = sum_of totalBet (seats st)
     \<and> rakePctToBps (rakePct (config st)) \<le> RAKE_BPS_DENOMINATOR"

lemma foldWin_spec:
  assumes "foldwin_ready st"
  shows "\<exists>w r ps ev. foldWin st = Inr (st\<lparr>seats := map (\<lambda>s. s\<lparr>bet := 0\<rparr>) (credit w (seats st)), pot := 0,
            rake := r, sessionRake := sessionRake st + r, winners := ps, street := settlement,
            actingIndex := None\<rparr>, ev)
     \<and> (\<forall>i. 0 \<le> w i) \<and> 0 \<le> r \<and> (\<forall>s \<in> set (seats st). folded s \<longrightarrow> w (seatIndex s) = 0)
     \<and> sum_of (\<lambda>s. w (seatIndex s)) (seats st) + r = sum_of totalBet (seats st)"
proof -
  have dist: "distinct (map seatIndex (seats st))"
    and b: "\<And>s. s \<in> set (seats st) \<Longrightarrow> 0 \<le> bet s \<and> bet s \<le> totalBet s"
    and pot: "pot st = sum_of totalBet (seats st)"
    and bps: "rakePctToBps (rakePct (config st)) \<le> RAKE_BPS_DENOMINATOR"
    using assms by (auto simp: foldwin_ready_def)
  let ?P = "\<lambda>s. \<not> folded s \<and> playerId s \<noteq> '''' \<and> \<not> sitOut s"
  obtain x where x: "find ?P (seats st) = Some x"
    using assms by (cases "find ?P (seats st)") (auto simp: foldwin_ready_def find_None_iff)
  then have xin: "x \<in> set (seats st)" by (auto simp: find_Some_iff)
  obtain u where u: "uncalledBetAmount (rake_seats (seats st)) (seatIndex x) = Inr u" "0 \<le> u" "u \<le> bet x"
  proof -
    have "\<exists>u. uncalledBetAmount (rake_seats (seats st)) (seatIndex x) = Inr u \<and> 0 \<le> u
        \<and> u \<le> max 0 (case rs_bet \<lparr>rs_seatIndex = seatIndex x, rs_bet = BigIntAmt (bet x),
              rs_folded = folded x\<rparr> of BigIntAmt k \<Rightarrow> k | _ \<Rightarrow> 0)"
      by (rule uncalledBetAmount_bigint [OF _ find_rake_seats [OF dist xin]]) (auto simp: rake_seats_def)
    then show ?thesis using that b [OF xin] by auto
  qed
  have "bet x \<le> sum_of totalBet (seats st)"
    using sum_of_member_le [of "seats st" totalBet x] b xin by force
  then have upot: "u \<le> pot st" using u pot by simp
  define e where "e = (if pot st - u > 0 then pot st - u else 0)"
  have e: "e = pot st - u" "0 \<le> e" using upot by (auto simp: e_def)
  obtain r where r: "computeRakeFromPct (BigIntAmt e) (rakePct (config st))
      (map_option BigIntAmt (rakeCap (config st))) 1 (Some (board st = [])) = Inr r"
    using computeRakeFromPct_total by blast
  have rb: "0 \<le> r" "r \<le> e" using computeRakeFromPct_bounds [OF r bps] e by auto
  obtain tabs where t: "allocateRakeAmongWinners [seatIndex x] (BigIntAmt r) (button st)
      (int (length (seats st))) = Inr tabs" using allocateRakeAmongWinners_total by blast
  define w where "w = (\<lambda>i. if i = seatIndex x then u + (if e - r > 0 then e - r else 0) else 0)"
  have "sum_of (\<lambda>s. w (seatIndex s)) (seats st) = u + (e - r)"
    using sum_indicator [OF dist, of "seatIndex x" "u + (if e - r > 0 then e - r else 0)"] xin rb
    unfolding w_def by (auto split: if_splits)
  then have "sum_of (\<lambda>s. w (seatIndex s)) (seats st) + r = sum_of totalBet (seats st)"
    using e(1) pot by simp
  moreover have "\<forall>s \<in> set (seats st). folded s \<longrightarrow> w (seatIndex s) = 0"
  proof (intro ballI impI)
    fix s assume "s \<in> set (seats st)" "folded s"
    moreover have "\<not> folded x" using x by (auto simp: find_Some_iff)
    ultimately show "w (seatIndex s) = 0"
      using dist xin by (auto simp: w_def distinct_map dest: inj_onD)
  qed
  moreover have "\<forall>i. 0 \<le> w i" using u rb by (simp add: w_def)
  moreover have "map (\<lambda>s. if seatIndex s = seatIndex x
        then s\<lparr>stack := stack s + u + (if e - r > 0 then e - r else 0), bet := 0\<rparr> else s\<lparr>bet := 0\<rparr>) (seats st)
      = map (\<lambda>s. s\<lparr>bet := 0\<rparr>) (credit w (seats st))"
    by (simp add: credit_def w_def)
  then have "\<exists>ps ev. foldWin st = Inr (st\<lparr>seats := map (\<lambda>s. s\<lparr>bet := 0\<rparr>) (credit w (seats st)), pot := 0,
      rake := r, sessionRake := sessionRake st + r, winners := ps, street := settlement,
      actingIndex := None\<rparr>, ev)"
    using x u(1) r t unfolding foldWin_def Let_def
    by (simp only: option.case bindE.simps e_def) blast
  ultimately show ?thesis using rb(1) by blast
qed

end
