(* ===== verification/Holdem_Inv.thy ===== *)
theory Holdem_Inv
  imports Holdem_Settle
begin

text \<open>
  The invariant of a hand in progress and what every engine operation keeps of it. A hand state is
  either settled (\<open>between_ok\<close>) or in progress (\<open>hand_ok\<close>); every operation is total on the states the
  other operations leave, keeps the chips of the table (\<open>bank\<close>), and brings the hand closer to its end
  (\<open>hmeasure\<close>).
\<close>

section \<open>The invariant\<close>

definition bank :: "HoldemState \<Rightarrow> Chips" where
  "bank st = sum_of stack (seats st) + pot st + sessionRake st"

definition config_ok :: "TableConfig \<Rightarrow> bool" where
  "config_ok c \<longleftrightarrow> 0 \<le> smallBlind c \<and> smallBlind c \<le> bigBlind c \<and> 0 < bigBlind c
     \<and> rakePctToBps (rakePct c) \<le> RAKE_BPS_DENOMINATOR"

text \<open>Twenty-two seats are what one deck can serve: two cards each, five on the board, three burnt.\<close>

definition table_ok :: "HoldemState \<Rightarrow> bool" where
  "table_ok st \<longleftrightarrow> indexed (seats st) \<and> length (seats st) \<le> 22
     \<and> 0 \<le> button st \<and> button st < int (length (seats st)) \<and> config_ok (config st)
     \<and> (\<forall>s \<in> set (seats st). 0 \<le> stack s \<and> (playerId s = '''' \<longrightarrow> stack s = 0))"

definition between_ok :: "HoldemState \<Rightarrow> bool" where
  "between_ok st \<longleftrightarrow> table_ok st \<and> street st \<in> {waiting, settlement} \<and> pot st = 0
     \<and> actingIndex st = None"

definition live_ok :: "SeatState \<Rightarrow> bool" where
  "live_ok s \<longleftrightarrow> (\<exists>a b. hole s = Some [Some a, Some b]) \<and> playerId s \<noteq> '''' \<and> \<not> sitOut s
     \<and> (allIn s \<longleftrightarrow> stack s = 0) \<and> 0 < stack s + totalBet s"

definition seat_ok :: "Chips \<Rightarrow> SeatState \<Rightarrow> bool" where
  "seat_ok cb s \<longleftrightarrow> 0 \<le> bet s \<and> bet s \<le> totalBet s \<and> bet s \<le> cb \<and> (\<not> folded s \<longrightarrow> live_ok s)"

definition all_called :: "SeatState list \<Rightarrow> bool" where
  "all_called ss \<longleftrightarrow> (\<forall>s \<in> set ss. \<not> folded s \<longrightarrow> 0 < totalBet s)"

text \<open>Nothing is left but the run-out: every live seat has chips in the pot and at most one still has
  chips behind.\<close>

definition runout_ready :: "SeatState list \<Rightarrow> bool" where
  "runout_ready ss \<longleftrightarrow> all_called ss \<and> length (filter (\<lambda>s. \<not> allIn s) (filter (\<lambda>s. \<not> folded s) ss)) \<le> 1"

definition street_ok :: "HoldemState \<Rightarrow> bool" where
  "street_ok st \<longleftrightarrow> (\<exists>cs. board st = map Some cs) \<and>
     (street st = preflop \<and> board st = [] \<and> 8 \<le> length (deck st) \<and> bigBlind (config st) \<le> currentBet st
      \<or> street st = flop \<and> length (board st) = 3 \<and> 4 \<le> length (deck st) \<and> all_called (seats st)
      \<or> street st = turn \<and> length (board st) = 4 \<and> 2 \<le> length (deck st) \<and> all_called (seats st)
      \<or> street st = river \<and> length (board st) = 5 \<and> all_called (seats st))"

text \<open>Every card of the hand: in somebody's hand, on the board, or still in the deck.\<close>

definition hole_cards :: "SeatState \<Rightarrow> Card option list" where
  "hole_cards s = (case hole s of Some h \<Rightarrow> h | None \<Rightarrow> [])"

definition cards_in :: "HoldemState \<Rightarrow> Card option list" where
  "cards_in st = concat (map hole_cards (seats st)) @ board st @ map Some (deck st)"

definition cards_ok :: "HoldemState \<Rightarrow> bool" where
  "cards_ok st \<longleftrightarrow> mset (cards_in st) \<subseteq># mset (map Some fullDeck)"

definition live_seats :: "HoldemState \<Rightarrow> SeatState list" where
  "live_seats st = filter (\<lambda>s. \<not> folded s) (seats st)"

definition core_ok :: "HoldemState \<Rightarrow> bool" where
  "core_ok st \<longleftrightarrow> table_ok st \<and> (\<forall>s \<in> set (seats st). seat_ok (currentBet st) s)
     \<and> pot st = sum_of totalBet (seats st) \<and> street_ok st \<and> cards_ok st
     \<and> 0 \<le> minRaise st \<and> 0 \<le> currentBet st \<and> live_seats st \<noteq> []
     \<and> handId st \<noteq> None \<and> handId st \<noteq> Some ''''"

text \<open>The player to act is live and still owes a decision; when nobody is to act, or the player to act
  is all-in from a blind, only the run-out is left.\<close>

definition acting_ok :: "HoldemState \<Rightarrow> bool" where
  "acting_ok st \<longleftrightarrow>
     (case actingIndex st of
        None \<Rightarrow> runout_ready (seats st)
      | Some i \<Rightarrow>
          (case seat_at (seats st) i of
             None \<Rightarrow> False
           | Some s \<Rightarrow> \<not> folded s \<and>
               (if allIn s then runout_ready (seats st)
                else bet s < currentBet st \<or> i \<notin> actedThisStreet st)))"

definition hand_ok :: "HoldemState \<Rightarrow> bool" where
  "hand_ok st \<longleftrightarrow> core_ok st \<and> 2 \<le> length (live_seats st) \<and> acting_ok st"

section \<open>The distance to the end of the hand\<close>

definition unacted :: "HoldemState \<Rightarrow> SeatState list" where
  "unacted st = filter (\<lambda>s. \<not> folded s \<and> seatIndex s \<notin> actedThisStreet st) (seats st)"

definition chips_left :: "HoldemState \<Rightarrow> nat" where
  "chips_left st = nat (sum_of stack (seats st)) + (5 - length (board st))"

definition turns_left :: "HoldemState \<Rightarrow> nat" where
  "turns_left st = length (live_seats st) + length (unacted st) + (if actingIndex st = None then 0 else 1)"

definition hmeasure :: "HoldemState \<Rightarrow> nat" where
  "hmeasure st = chips_left st * (2 * length (seats st) + 2) + turns_left st"

lemma turns_left_le: "turns_left st < 2 * length (seats st) + 2"
proof -
  have "length (live_seats st) \<le> length (seats st)" "length (unacted st) \<le> length (seats st)"
    unfolding live_seats_def unacted_def by (rule length_filter_le)+
  then show ?thesis by (auto simp: turns_left_def)
qed

lemma hmeasure_less:
  assumes "length (seats st') = length (seats st)" "chips_left st' < chips_left st"
  shows "hmeasure st' < hmeasure st"
proof -
  let ?k = "2 * length (seats st) + 2"
  have "hmeasure st' < Suc (chips_left st') * ?k"
    using turns_left_le [of st'] assms(1) by (simp add: hmeasure_def)
  also have "\<dots> \<le> chips_left st * ?k" using assms(2) by (intro mult_le_mono) auto
  also have "\<dots> \<le> hmeasure st" by (simp add: hmeasure_def)
  finally show ?thesis .
qed

lemma hmeasure_mono:
  assumes "length (seats st') = length (seats st)" "chips_left st' \<le> chips_left st"
  shows "turns_left st' \<le> turns_left st \<Longrightarrow> hmeasure st' \<le> hmeasure st"
    and "turns_left st' < turns_left st \<Longrightarrow> hmeasure st' < hmeasure st"
proof -
  have "chips_left st' * (2 * length (seats st) + 2) \<le> chips_left st * (2 * length (seats st) + 2)"
    using assms(2) by (intro mult_le_mono) auto
  then show "turns_left st' \<le> turns_left st \<Longrightarrow> hmeasure st' \<le> hmeasure st"
    "turns_left st' < turns_left st \<Longrightarrow> hmeasure st' < hmeasure st"
    by (simp_all add: hmeasure_def assms(1))
qed

section \<open>The contract of an operation\<close>

definition same_table :: "HoldemState \<Rightarrow> HoldemState \<Rightarrow> bool" where
  "same_table st st' \<longleftrightarrow> bank st' = bank st \<and> config st' = config st
     \<and> length (seats st') = length (seats st)"

definition good_step :: "HoldemState \<Rightarrow> HoldemState \<Rightarrow> bool" where
  "good_step st st' \<longleftrightarrow> same_table st st'
     \<and> (between_ok st' \<or> hand_ok st' \<and> hmeasure st' < hmeasure st)"

lemma good_step_from:
  assumes "good_step st1 st'" "same_table st st1" "hmeasure st1 \<le> hmeasure st"
  shows "good_step st st'"
  using assms by (auto simp: good_step_def same_table_def)

locale hand_op =
  fixes op :: "HoldemState \<Rightarrow> step_result" and pre :: "HoldemState \<Rightarrow> bool"
  assumes op_ok: "pre st \<Longrightarrow> \<exists>st' ev. op st = Inr (st', ev) \<and> good_step st st'"
begin

lemma op_conserves: "pre st \<Longrightarrow> op st = Inr (st', ev) \<Longrightarrow> bank st' = bank st"
  using op_ok [of st] by (auto simp: good_step_def same_table_def)

lemma op_total: "pre st \<Longrightarrow> isOk (op st)"
  using op_ok [of st] by (auto simp: isOk_iff)

lemma prepend_ok: "pre st \<Longrightarrow> \<exists>st' ev'. prepend ev (op st) = Inr (st', ev') \<and> good_step st st'"
  using op_ok [of st] by (auto simp: prepend_def)

text \<open>An operation whose precondition also holds after it, until the hand is settled, settles the hand
  in at most \<open>hmeasure\<close> repetitions.\<close>

lemma op_settles:
  assumes "\<And>s s' ev. pre s \<Longrightarrow> op s = Inr (s', ev) \<Longrightarrow> hand_ok s' \<Longrightarrow> pre s'" and "pre st"
  shows "\<exists>k \<le> Suc (hmeasure st). \<exists>tr. tr 0 = st \<and> between_ok (tr k)
     \<and> (\<forall>j<k. \<exists>ev. op (tr j) = Inr (tr (Suc j), ev))"
  using assms(2)
proof (induction "hmeasure st" arbitrary: st rule: less_induct)
  case less
  obtain st' ev where s: "op st = Inr (st', ev)" "good_step st st'" using op_ok [OF less.prems] by blast
  show ?case
  proof (cases "between_ok st'")
    case True
    then show ?thesis
      using s(1) by (intro exI [of _ 1] conjI exI [of _ "\<lambda>k. if k = 0 then st else st'"]) auto
  next
    case False
    then have h: "hand_ok st'" "hmeasure st' < hmeasure st" using s(2) by (auto simp: good_step_def)
    then obtain k tr where k: "k \<le> Suc (hmeasure st')" "tr 0 = st'" "between_ok (tr k)"
        "\<forall>j<k. \<exists>ev. op (tr j) = Inr (tr (Suc j), ev)"
      using less.hyps [of st'] assms(1) [OF less.prems s(1)] by blast
    let ?tr = "\<lambda>j. case j of 0 \<Rightarrow> st | Suc j \<Rightarrow> tr j"
    have "\<exists>ev. op (?tr j) = Inr (?tr (Suc j), ev)" if "j < Suc k" for j
      using that s(1) k(2,4) by (cases j) auto
    then show ?thesis
      using k(1,3) h(2) by (intro exI [of _ "Suc k"] conjI exI [of _ ?tr]) auto
  qed
qed

end

section \<open>Settlements\<close>

lemma core_seats:
  assumes "core_ok st"
  shows "distinct (map seatIndex (seats st))" "indexed (seats st)"
    and "\<And>s. s \<in> set (seats st) \<Longrightarrow> 0 \<le> stack s \<and> 0 \<le> bet s \<and> bet s \<le> totalBet s \<and> bet s \<le> currentBet st"
    and "\<And>s. s \<in> set (seats st) \<Longrightarrow> \<not> folded s \<Longrightarrow> live_ok s"
    and "rakePctToBps (rakePct (config st)) \<le> RAKE_BPS_DENOMINATOR"
  using assms by (auto simp: core_ok_def table_ok_def seat_ok_def config_ok_def intro: indexed_distinct)

text \<open>Closing a hand: stacks grow by what is paid, the pot empties into them and the rake.\<close>

lemma settled_good:
  assumes "core_ok st" "seats st' = map f (credit w (seats st))"
    and "\<And>s. stack (f s) = stack s \<and> seatIndex (f s) = seatIndex s \<and> playerId (f s) = playerId s"
    and "\<forall>i. 0 \<le> w i" "\<forall>s \<in> set (seats st). folded s \<longrightarrow> w (seatIndex s) = 0"
    and "sum_of (\<lambda>s. w (seatIndex s)) (seats st) + r = sum_of totalBet (seats st)"
    and "pot st' = 0" "sessionRake st' = sessionRake st + r" "street st' = settlement"
    and "actingIndex st' = None" "config st' = config st" "button st' = button st"
  shows "good_step st st'"
proof -
  have idx: "map seatIndex (seats st') = map seatIndex (seats st)"
    using assms(2,3) by (simp add: credit_def)
  have "sum_of stack (seats st') = sum_of stack (credit w (seats st))"
    using assms(2,3) by (simp add: comp_def)
  then have "bank st' = bank st"
    using assms(1,6,7,8) by (simp add: bank_def core_ok_def sum_stack_credit)
  moreover have "table_ok st'"
  proof -
    have "indexed (seats st')" using assms(1) idx
      by (metis core_seats(2) indexed_def length_map)
    moreover have "0 \<le> stack s \<and> (playerId s = '''' \<longrightarrow> stack s = 0)" if s: "s \<in> set (seats st')" for s
    proof -
      obtain t where t: "t \<in> set (seats st)" "stack s = stack t + w (seatIndex t)" "playerId s = playerId t"
        using s assms(2,3) by (auto simp: credit_def)
      have "playerId t = '''' \<Longrightarrow> folded t \<and> stack t = 0"
        using core_seats(4) [OF assms(1) t(1)] assms(1) t(1)
        by (auto simp: live_ok_def core_ok_def table_ok_def)
      then show ?thesis
        using t core_seats(3) [OF assms(1) t(1)] assms(4,5) by (auto simp: add_nonneg_nonneg)
    qed
    moreover have "length (seats st') = length (seats st)" using idx by (metis length_map)
    ultimately show ?thesis using assms(1,11,12) by (auto simp: core_ok_def table_ok_def)
  qed
  ultimately show ?thesis
    using assms(7,9,10,11) idx by (auto simp: good_step_def same_table_def between_ok_def dest: map_eq_imp_length_eq)
qed

definition showdown_pre :: "HoldemState \<Rightarrow> bool" where
  "showdown_pre st \<longleftrightarrow> core_ok st \<and> 3 \<le> length (board st)"

lemma core_has_live: "core_ok st \<Longrightarrow> \<exists>s \<in> set (seats st). \<not> folded s"
  by (auto simp: core_ok_def live_seats_def filter_empty_conv)

lemma core_live_called:
  assumes "core_ok st" "3 \<le> length (board st)"
  shows "\<exists>s \<in> set (seats st). \<not> folded s \<and> 0 < totalBet s"
proof -
  have "all_called (seats st)" using assms by (auto simp: core_ok_def street_ok_def)
  then show ?thesis using core_has_live [OF assms(1)] by (auto simp: all_called_def)
qed

lemma showdown_ready_core: "showdown_pre st \<Longrightarrow> showdown_ready st"
  using core_seats [of st] core_live_called [of st]
  by (fastforce simp: showdown_pre_def showdown_ready_def live_ok_def core_ok_def street_ok_def)

interpretation showdown: hand_op "\<lambda>st. settleShowdown (st\<lparr>street := showdown\<rparr>)" showdown_pre
proof
  fix st assume pre: "showdown_pre st"
  let ?st = "st\<lparr>street := showdown\<rparr>"
  have "showdown_ready ?st" using showdown_ready_core [OF pre] by (simp add: showdown_ready_def)
  then obtain w r ps ev where r: "settleShowdown ?st = Inr (?st\<lparr>seats := credit w (seats ?st), pot := 0,
        rake := r, sessionRake := sessionRake ?st + r, winners := ps, street := settlement,
        actingIndex := None\<rparr>, ev)"
      "\<forall>i. 0 \<le> w i" "\<forall>s \<in> set (seats st). folded s \<longrightarrow> w (seatIndex s) = 0"
      "sum_of (\<lambda>s. w (seatIndex s)) (seats st) + r = sum_of totalBet (seats st)"
    using settleShowdown_spec [of ?st] by auto
  have "core_ok st" using pre by (simp add: showdown_pre_def)
  then have "good_step st (?st\<lparr>seats := credit w (seats ?st), pot := 0, rake := r,
      sessionRake := sessionRake ?st + r, winners := ps, street := settlement, actingIndex := None\<rparr>)"
    using r(2,3,4) by (intro settled_good [where f = "\<lambda>s. s" and w = w and r = r]) simp_all
  then show "\<exists>st' ev. settleShowdown ?st = Inr (st', ev) \<and> good_step st st'" using r(1) by blast
qed

definition foldwin_pre :: "HoldemState \<Rightarrow> bool" where
  "foldwin_pre st \<longleftrightarrow> core_ok st"

interpretation fold_win: hand_op foldWin foldwin_pre
proof
  fix st assume "foldwin_pre st"
  then have core: "core_ok st" by (simp add: foldwin_pre_def)
  have "foldwin_ready st"
    using core core_seats [OF core] core_has_live [OF core]
    by (auto simp: foldwin_ready_def live_ok_def core_ok_def)
  then obtain w r ps ev where r: "foldWin st = Inr (st\<lparr>seats := map (\<lambda>s. s\<lparr>bet := 0\<rparr>) (credit w (seats st)),
        pot := 0, rake := r, sessionRake := sessionRake st + r, winners := ps, street := settlement,
        actingIndex := None\<rparr>, ev)"
      "\<forall>i. 0 \<le> w i" "\<forall>s \<in> set (seats st). folded s \<longrightarrow> w (seatIndex s) = 0"
      "sum_of (\<lambda>s. w (seatIndex s)) (seats st) + r = sum_of totalBet (seats st)"
    using foldWin_spec by blast
  have "good_step st (st\<lparr>seats := map (\<lambda>s. s\<lparr>bet := 0\<rparr>) (credit w (seats st)), pot := 0, rake := r,
      sessionRake := sessionRake st + r, winners := ps, street := settlement, actingIndex := None\<rparr>)"
    using r(2,3,4) by (intro settled_good [OF core, where f = "\<lambda>s. s\<lparr>bet := 0\<rparr>" and w = w and r = r]) simp_all
  then show "\<exists>st' ev. foldWin st = Inr (st', ev) \<and> good_step st st'" using r(1) by blast
qed

section \<open>Dealing a street\<close>

lemma shift_cards_take: "k \<le> length d \<Longrightarrow> shift_cards k d = (map Some (take k d), drop k d)"
  by (induction k d rule: shift_cards.induct) (auto split: prod.splits simp: Let_def take_Suc_conv_app_nth
      neq_Nil_conv Suc_le_length_iff)

definition street_move :: "nat \<Rightarrow> nat \<Rightarrow> Street \<Rightarrow> bool" where
  "street_move b k str \<longleftrightarrow> (b, k, str) \<in> {(0, 3, flop), (3, 1, turn), (4, 1, river)}"

lemma dealBoard_fields:
  assumes "Suc k \<le> length (deck st)" "dealBoard st k str = (st', cards)"
  shows "seats st' = map (\<lambda>s. s\<lparr>bet := 0\<rparr>) (seats st)" "deck st' = drop (Suc k) (deck st)"
    "board st' = board st @ map Some (take k (tl (deck st)))" "street st' = str" "config st' = config st"
    "button st' = button st" "pot st' = pot st" "sessionRake st' = sessionRake st" "handId st' = handId st"
    "currentBet st' = 0" "minRaise st' = bigBlind (config st)" "actedThisStreet st' = {}"
    "actingIndex st' = nextSeat (st'\<lparr>actingIndex := actingIndex st, firstToAct := firstToAct st\<rparr>)
       (button st) (\<lambda>s. \<not> folded s \<and> \<not> allIn s \<and> stack s > 0)"
proof -
  obtain c d where d: "deck st = c # d" using assms(1) by (cases "deck st") auto
  then have "shift_cards k d = (map Some (take k d), drop k d)" using assms(1) by (intro shift_cards_take) simp
  then show "seats st' = map (\<lambda>s. s\<lparr>bet := 0\<rparr>) (seats st)" "deck st' = drop (Suc k) (deck st)"
    "board st' = board st @ map Some (take k (tl (deck st)))" "street st' = str" "config st' = config st"
    "button st' = button st" "pot st' = pot st" "sessionRake st' = sessionRake st" "handId st' = handId st"
    "currentBet st' = 0" "minRaise st' = bigBlind (config st)" "actedThisStreet st' = {}"
    "actingIndex st' = nextSeat (st'\<lparr>actingIndex := actingIndex st, firstToAct := firstToAct st\<rparr>)
       (button st) (\<lambda>s. \<not> folded s \<and> \<not> allIn s \<and> stack s > 0)"
    using assms(2) d by (auto simp: dealBoard_def resetStreetBets_def Let_def)
qed

lemma core_deck:
  assumes "core_ok st" "street_move (length (board st)) k str"
  shows "Suc k \<le> length (deck st)"
    and "str = flop \<Longrightarrow> 4 + Suc k \<le> length (deck st)" "str = turn \<Longrightarrow> 2 + Suc k \<le> length (deck st)"
  using assms by (auto simp: core_ok_def street_ok_def street_move_def)

lemma dealt_cards_ok:
  assumes "cards_ok st" "seats st' = map (\<lambda>s. s\<lparr>bet := 0\<rparr>) (seats st)" "deck st' = drop (Suc k) (deck st)"
    and "board st' = board st @ map Some (take k (tl (deck st)))" "Suc k \<le> length (deck st)"
  shows "cards_ok st'"
proof -
  obtain c d where d: "deck st = c # d" using assms(5) by (cases "deck st") auto
  have "mset d = mset (take k d) + mset (drop k d)" by (metis append_take_drop_id mset_append)
  then have "mset (map Some (take k d)) + mset (map Some (drop k d)) \<subseteq># mset (map Some (deck st))"
    using d by (simp flip: image_mset_union)
  moreover have "map hole_cards (seats st') = map hole_cards (seats st)"
    using assms(2) by (simp add: hole_cards_def)
  ultimately have "mset (cards_in st') \<subseteq># mset (cards_in st)"
    using assms(3,4) d by (simp add: cards_in_def)
  then show ?thesis using assms(1) by (auto simp: cards_ok_def intro: subset_mset.order_trans)
qed

lemma dealBoard_core:
  assumes core: "core_ok st" and called: "all_called (seats st)"
    and move: "street_move (length (board st)) k str" and deal: "dealBoard st k str = (st', cards)"
  shows "core_ok st'" "same_table st st'" "length (live_seats st') = length (live_seats st)"
    "all_called (seats st')" "chips_left st' < chips_left st"
proof -
  note deck = core_deck [OF core move]
  note f = dealBoard_fields [OF deck(1) deal]
  have lb: "length (board st') = length (board st) + k" using f(3) deck(1) by simp

  have lv: "length (live_seats st') = length (live_seats st)"
    unfolding live_seats_def f(1) by (simp add: filter_map comp_def)
  show "length (live_seats st') = length (live_seats st)" by (rule lv)
  have st: "sum_of stack (seats st') = sum_of stack (seats st)"
    "sum_of totalBet (seats st') = sum_of totalBet (seats st)" by (simp_all add: f(1) comp_def)
  show "same_table st st'" using st(1) by (simp add: same_table_def bank_def f(5,7,8)) (simp add: f(1))
  show called': "all_called (seats st')" using called by (auto simp: all_called_def f(1))
  show "chips_left st' < chips_left st"
    unfolding chips_left_def st(1) lb using move by (auto simp: street_move_def)
  have "table_ok st'"
    using core by (auto simp: core_ok_def table_ok_def f indexed_map)
  moreover have "\<forall>s \<in> set (seats st'). seat_ok (currentBet st') s"
    using core_seats(3,4) [OF core] by (fastforce simp: f seat_ok_def live_ok_def)
  moreover have "street_ok st'"
  proof -
    obtain cs where "board st = map Some cs" using core by (auto simp: core_ok_def street_ok_def)
    then have "\<exists>cs. board st' = map Some cs" using f(3) by (metis map_append)
    moreover have "length (deck st') = length (deck st) - Suc k" using f(2) by simp
    ultimately show ?thesis
      using move lb deck(2,3) f(4) called' by (auto simp: street_ok_def street_move_def)
  qed
  moreover have "cards_ok st'"
    using dealt_cards_ok [OF _ f(1,2,3) deck(1)] core by (simp add: core_ok_def)
  ultimately show "core_ok st'"
    using core st lv by (auto simp: core_ok_def f table_ok_def config_ok_def)
qed

lemma core_ok_acting [simp]: "core_ok (st\<lparr>actingIndex := a\<rparr>) = core_ok st"
  by (simp add: core_ok_def table_ok_def street_ok_def cards_ok_def cards_in_def live_seats_def)

lemma same_table_acting [simp]: "same_table st (st'\<lparr>actingIndex := a\<rparr>) = same_table st st'"
  "same_table (st\<lparr>actingIndex := a\<rparr>) st' = same_table st st'" "same_table st st"
  by (simp_all add: same_table_def bank_def)

lemma live_seats_acting [simp]: "live_seats (st\<lparr>actingIndex := a\<rparr>) = live_seats st"
  by (simp add: live_seats_def)

lemma same_table_length: "same_table st st' \<Longrightarrow> length (seats st') = length (seats st)"
  by (simp add: same_table_def)

text \<open>A street is dealt either to be played (the first live seat with chips after the button acts) or
  inside an all-in run-out (nobody acts).\<close>

lemma nextStreet_good:
  assumes core: "core_ok st" and called: "all_called (seats st)" "2 \<le> length (live_seats st)"
    and move: "street_move (length (board st)) k str"
    and two: "\<not> length (filter (\<lambda>x. \<not> allIn x) (live_seats st)) \<le> 1"
  shows "\<exists>st' ev. nextStreet st k str = Inr (st', ev) \<and> good_step st st'"
proof -
  obtain st' cards where deal: "dealBoard st k str = (st', cards)" by fastforce
  note d = dealBoard_core [OF core called(1) move deal]
  note f = dealBoard_fields [OF core_deck(1) [OF core move] deal]
  let ?P = "\<lambda>s. \<not> folded s \<and> \<not> allIn s \<and> stack s > 0"
  have "filter (\<lambda>x. \<not> allIn x) (live_seats st) \<noteq> []" using two by auto
  then obtain s where s: "s \<in> set (seats st)" "\<not> folded s" "\<not> allIn s"
    by (auto simp: filter_empty_conv live_seats_def)
  then have "0 < stack s" using core_seats(3,4) [OF core s(1)] by (auto simp: live_ok_def)
  then have "\<exists>t \<in> set (seats st'). ?P t" using s f(1) by auto
  then obtain i where i: "actingIndex st' = Some i"
    unfolding f(13) using nextSeat_None_iff [of "st'\<lparr>actingIndex := actingIndex st, firstToAct := firstToAct st\<rparr>"
        "button st" ?P] core_seats(2) [OF d(1)] core
    by (cases "nextSeat (st'\<lparr>actingIndex := actingIndex st, firstToAct := firstToAct st\<rparr>) (button st) ?P")
      (auto simp: core_ok_def table_ok_def)
  then obtain t where "seat_at (seats st') i = Some t" "?P t"
    using nextSeat_SomeD f(13) by fastforce
  then have "acting_ok st'" using i f(12) by (simp add: acting_ok_def)
  then have "good_step st st'"
    using d called(2) hmeasure_less [OF same_table_length [OF d(2)] d(5)]
    by (simp add: good_step_def hand_ok_def)
  then show ?thesis using deal by (simp add: nextStreet_def)
qed

lemma runoutStreet_good:
  assumes core: "core_ok st" and ready: "runout_ready (seats st)" "2 \<le> length (live_seats st)"
    and move: "street_move (length (board st)) k str"
  shows "\<exists>st' ev. runoutStreet st k str = Inr (st', ev) \<and> good_step st st'"
proof -
  obtain st' cards where deal: "dealBoard st k str = (st', cards)" by fastforce
  have called: "all_called (seats st)" using ready(1) by (simp add: runout_ready_def)
  note d = dealBoard_core [OF core called move deal]
  note f = dealBoard_fields [OF core_deck(1) [OF core move] deal]
  have "runout_ready (seats st')"
    using ready(1) d(4) unfolding runout_ready_def f(1) by (simp add: filter_map comp_def)
  note ready' = this
  let ?st = "st'\<lparr>actingIndex := None\<rparr>"
  have "chips_left ?st < chips_left st" using d(5) by (simp add: chips_left_def)
  then have "hmeasure ?st < hmeasure st"
    using same_table_length [OF d(2)] by (intro hmeasure_less) simp_all
  then have "good_step st ?st"
    using d ready(2) ready' by (simp add: good_step_def hand_ok_def acting_ok_def)
  then show ?thesis using deal by (simp add: runoutStreet_def)
qed

text \<open>The run-out is called when nobody is left to act.\<close>

definition runout_pre :: "HoldemState \<Rightarrow> bool" where
  "runout_pre st \<longleftrightarrow> hand_ok st \<and> actingIndex st = None"

lemma core_board: "core_ok st \<Longrightarrow> length (board st) \<in> {0, 3, 4, 5}"
  by (auto simp: core_ok_def street_ok_def)

interpretation runout: hand_op continueRunout runout_pre
proof
  fix st assume pre: "runout_pre st"
  then have core: "core_ok st" and called: "runout_ready (seats st)" "2 \<le> length (live_seats st)"
    and none: "st\<lparr>actingIndex := None\<rparr> = st"
    by (auto simp: runout_pre_def hand_ok_def acting_ok_def)
  have live: "length (filter (\<lambda>x. \<not> folded x) (seats st)) \<noteq> 1"
    "\<not> length (filter (\<lambda>x. \<not> folded x) (seats st)) < 2" using called(2) by (simp_all add: live_seats_def)
  note go = runoutStreet_good [OF core called]
  consider "length (board st) = 0" | "length (board st) = 3" | "length (board st) = 4"
    | "length (board st) = 5" using core_board [OF core] by auto
  then show "\<exists>st' ev. continueRunout st = Inr (st', ev) \<and> good_step st st'"
  proof cases
    case 1
    then show ?thesis using go [of 3 flop] live by (simp add: continueRunout_def none street_move_def Let_def)
  next
    case 2
    then show ?thesis using go [of 1 turn] live by (auto simp: continueRunout_def none street_move_def Let_def)
  next
    case 3
    then show ?thesis using go [of 1 river] live by (auto simp: continueRunout_def none street_move_def Let_def)
  next
    case 4
    then show ?thesis
      using showdown.op_ok [of st] core live by (auto simp: continueRunout_def none showdown_pre_def Let_def)
  qed
qed

text \<open>\<open>maybeRunout\<close> is called at the end of a street with no player to act.\<close>

definition street_end :: "HoldemState \<Rightarrow> bool" where
  "street_end st \<longleftrightarrow> core_ok st \<and> actingIndex st = None \<and>
     (2 \<le> length (live_seats st) \<longrightarrow> all_called (seats st))"

definition weak_step :: "HoldemState \<Rightarrow> HoldemState \<Rightarrow> bool" where
  "weak_step st st' \<longleftrightarrow> same_table st st' \<and> (between_ok st' \<or> hand_ok st' \<and> hmeasure st' \<le> hmeasure st)"

lemma good_weak: "good_step st st' \<Longrightarrow> weak_step st st'"
  by (auto simp: good_step_def weak_step_def)

lemma prepend_good:
  "\<exists>st' ev'. r = Inr (st', ev') \<and> good_step st st' \<Longrightarrow>
   \<exists>st' ev'. prepend ev r = Inr (st', ev') \<and> weak_step st st'"
  by (auto simp: prepend_def good_weak)

lemma maybeRunout_ok:
  assumes "street_end st"
  shows "\<exists>st' ev'. maybeRunout st ev = Inr (st', ev') \<and> weak_step st st'"
proof -
  have core: "core_ok st" and none: "actingIndex st = None" "st\<lparr>actingIndex := None\<rparr> = st"
    using assms by (auto simp: street_end_def)
  have ls: "filter (\<lambda>x. \<not> folded x) (seats st) = live_seats st" by (simp add: live_seats_def)
  show ?thesis
  proof (cases "length (live_seats st) = 1")
    case True
    then show ?thesis
      using prepend_good [OF fold_win.op_ok, of st ev] core
      by (simp add: maybeRunout_def Let_def ls foldwin_pre_def)
  next
    case False
    then have two: "2 \<le> length (live_seats st)"
      using core by (cases "live_seats st") (auto simp: core_ok_def Suc_le_eq)
    then have called: "all_called (seats st)" using assms by (simp add: street_end_def)
    have stay: "length (filter (\<lambda>x. \<not> allIn x) (live_seats st)) \<le> 1 \<Longrightarrow> weak_step st (st\<lparr>actingIndex := None\<rparr>)"
      unfolding none(2) using core two called none(1)
      by (simp add: weak_step_def hand_ok_def acting_ok_def runout_ready_def live_seats_def)
    note go = prepend_good [OF nextStreet_good [OF core called two]]
    have sd: "5 \<le> length (board st) \<Longrightarrow> \<exists>st' ev'. prepend ev (settleShowdown (st\<lparr>street := showdown\<rparr>)) = Inr (st', ev')
        \<and> weak_step st st'"
      using prepend_good [OF showdown.op_ok, of st ev] core by (simp add: showdown_pre_def)
    show ?thesis
      using core_board [OF core] False none stay sd go
      by (auto simp: maybeRunout_def Let_def ls street_move_def)
  qed
qed

end
