(* ===== verification/Holdem_Act.thy ===== *)
theory Holdem_Act
  imports Holdem_Inv
begin

text \<open>
  Player actions keep the invariant of a hand. The six actions have one effect in common (\<open>effect\<close>): the
  acting seat pays \<open>paid\<close> chips into the pot, and either pays something, folds, or checks; the invariant
  is proved once for that effect.
\<close>

section \<open>What an action does\<close>

definition effect :: "HoldemState \<Rightarrow> SeatState \<Rightarrow> SeatState \<Rightarrow> Chips \<Rightarrow> HoldemState \<Rightarrow> bool" where
  "effect st s s' paid st1 \<longleftrightarrow>
     seats st1 = update_seat (seatIndex s) (\<lambda>_. s') (seats st) \<and> pot st1 = pot st + paid
   \<and> currentBet st1 = max (currentBet st) (bet s') \<and> 0 \<le> minRaise st1
   \<and> (actedThisStreet st1 = actedThisStreet st \<or> 0 < paid)
   \<and> 0 \<le> paid \<and> paid \<le> stack s
   \<and> stack s' = stack s - paid \<and> bet s' = bet s + paid \<and> totalBet s' = totalBet s + paid
   \<and> seatIndex s' = seatIndex s \<and> playerId s' = playerId s \<and> hole s' = hole s \<and> sitOut s' = sitOut s
   \<and> (allIn s' \<longleftrightarrow> stack s' = 0)
   \<and> (0 < paid \<and> \<not> folded s' \<or> folded s' \<and> paid = 0 \<or> \<not> folded s' \<and> paid = 0 \<and> bet s = currentBet st)
   \<and> config st1 = config st \<and> button st1 = button st \<and> board st1 = board st \<and> deck st1 = deck st
   \<and> street st1 = street st \<and> sessionRake st1 = sessionRake st \<and> handId st1 = handId st
   \<and> actingIndex st1 = actingIndex st"

definition sized_ok :: "LegalAction \<Rightarrow> Chips option \<Rightarrow> bool" where
  "sized_ok m amt \<longleftrightarrow>
     (case (minAmount m, maxAmount m, amt) of
        (Some lo, Some hi, Some a) \<Rightarrow> lo \<le> a \<and> a \<le> hi | _ \<Rightarrow> True)"

text \<open>The legal actions of a seat, one by one.\<close>

lemma legal_forD:
  assumes "m \<in> set (legal_for st s)" "seat_ok (currentBet st) s" "0 \<le> stack s" "0 \<le> minRaise st"
    and "0 < bigBlind (config st)"
  shows "\<not> folded s \<and> \<not> allIn s \<and> 0 < stack s
    \<and> (la_action m = Check \<longrightarrow> bet s = currentBet st)
    \<and> (la_action m = Call \<longrightarrow> 0 < currentBet st - bet s \<and> currentBet st - bet s \<le> stack s)
    \<and> (la_action m = Bet \<longrightarrow> bet s = currentBet st \<and> maxAmount m = Some (stack s) \<and>
         (\<exists>lo. minAmount m = Some lo \<and> 0 < lo \<and> lo \<le> stack s))
    \<and> (la_action m = Raise \<longrightarrow> maxAmount m = Some (stack s) \<and>
         (\<exists>lo. minAmount m = Some lo \<and> currentBet st - bet s < lo + (if minRaise st = 0 then 1 else 0)
           \<and> 0 < lo \<and> currentBet st - bet s \<le> lo \<and> lo \<le> stack s))"
proof -
  have live: "\<not> folded s" "\<not> allIn s" using assms(1) by (auto simp: legal_for_def split: if_splits)
  then have "0 < stack s" using assms(2,3) by (auto simp: seat_ok_def live_ok_def)
  moreover have "bet s \<le> currentBet st" using assms(2) by (simp add: seat_ok_def)
  ultimately show ?thesis
    using assms(1,4,5) live
    by (auto simp: legal_for_def plain_action_def sized_action_def Let_def split: if_splits)
qed

lemma takeChips_live:
  assumes "takeChips s a = (s', paid)" "0 < a" "a \<le> stack s" "\<not> folded s" "\<not> allIn s"
  shows "paid = a" "stack s' = stack s - a" "bet s' = bet s + a" "totalBet s' = totalBet s + a"
    "seatIndex s' = seatIndex s" "playerId s' = playerId s" "hole s' = hole s" "sitOut s' = sitOut s"
    "\<not> folded s'" "allIn s' \<longleftrightarrow> stack s' = 0"
  using takeChips_spec [OF assms(1)] assms by auto

lemma actOn_effect:
  assumes leg: "m \<in> set (legal_for st s)" and act: "la_action m = a" and amt: "sized_ok m amt"
    and ok: "seat_ok (currentBet st) s" "0 \<le> stack s" "0 \<le> minRaise st" "0 < bigBlind (config st)"
    and at: "seat_at (seats st) (seatIndex s) = Some s"
    and run: "actOn st s m a amt = (st1, paid)"
  shows "\<exists>s'. effect st s s' paid st1"
proof -
  note l = legal_forD [OF leg ok]
  have live: "\<not> folded s" "\<not> allIn s" "0 < stack s" using l by auto
  have bc: "bet s \<le> currentBet st" using ok by (simp add: seat_ok_def)
  have same: "update_seat (seatIndex s) (\<lambda>_. s) (seats st) = seats st"
    using map_put_seat_same [OF at, of "\<lambda>x. x" s] by simp
  show ?thesis
  proof (cases a)
    case Fold
    then show ?thesis
      using run live bc ok(3)
      by (intro exI [of _ "s\<lparr>folded := True\<rparr>"]) (auto simp: actOn_def effect_def Let_def)
  next
    case Check
    then show ?thesis
      using run live bc ok(3) l act same
      by (intro exI [of _ s]) (auto simp: actOn_def effect_def Let_def)
  next
    case Call
    obtain s' p where t: "takeChips s (currentBet st - bet s) = (s', p)" by fastforce
    show ?thesis
      using run takeChips_live [OF t] Call l act live bc ok(3) t
      by (intro exI [of _ s']) (auto simp: actOn_def effect_def Let_def)
  next
    case Bet
    define x where "x = (case amt of Some a \<Rightarrow> a | None \<Rightarrow>
        (case minAmount m of Some m \<Rightarrow> m | None \<Rightarrow> bigBlind (config st)))"
    have x: "0 < x" "x \<le> stack s"
      using l act amt Bet by (auto simp: x_def sized_ok_def split: option.splits)
    obtain s' p where t: "takeChips s x = (s', p)" by fastforce
    show ?thesis
      using run takeChips_live [OF t x live(1,2)] Bet l act live bc ok(3) t x
      by (intro exI [of _ s']) (auto simp: actOn_def effect_def Let_def x_def [symmetric])
  next
    case Raise
    define x where "x = (case amt of Some a \<Rightarrow> a | None \<Rightarrow>
        (case minAmount m of Some m \<Rightarrow> m | None \<Rightarrow> currentBet st + minRaise st - bet s))"
    have x: "0 < x" "x \<le> stack s" "currentBet st - bet s \<le> x"
      using l act amt Raise by (auto simp: x_def sized_ok_def split: option.splits)
    obtain s' p where t: "takeChips s x = (s', p)" by fastforce
    show ?thesis
      using run takeChips_live [OF t x(1,2) live(1,2)] Raise l act live bc ok(3) t x
      by (intro exI [of _ s']) (auto simp: actOn_def effect_def Let_def x_def [symmetric])
  next
    case AllIn
    obtain s' p where t: "takeChips s (stack s) = (s', p)" by fastforce
    show ?thesis
      using run takeChips_live [OF t live(3) order_refl live(1,2)] AllIn live bc ok(3) t
      by (intro exI [of _ s']) (auto simp: actOn_def effect_def Let_def split: if_splits)
  qed
qed

section \<open>The invariant after an action\<close>

definition mark_acted :: "int \<Rightarrow> HoldemState \<Rightarrow> HoldemState" where
  "mark_acted i st = st\<lparr>actedThisStreet := insert i (actedThisStreet st)\<rparr>"

lemma mark_acted_simps [simp]:
  "seats (mark_acted i st) = seats st" "pot (mark_acted i st) = pot st" "config (mark_acted i st) = config st"
  "currentBet (mark_acted i st) = currentBet st" "board (mark_acted i st) = board st"
  "street (mark_acted i st) = street st" "sessionRake (mark_acted i st) = sessionRake st"
  "actingIndex (mark_acted i st) = actingIndex st" "button (mark_acted i st) = button st"
  "actedThisStreet (mark_acted i st) = insert i (actedThisStreet st)"
  "core_ok (mark_acted i st) = core_ok st" "live_seats (mark_acted i st) = live_seats st"
  by (simp_all add: mark_acted_def core_ok_def table_ok_def street_ok_def cards_ok_def cards_in_def live_seats_def)

text \<open>The situation after a legal action of the live seat \<open>s\<close>.\<close>

definition act_step :: "HoldemState \<Rightarrow> SeatState \<Rightarrow> SeatState \<Rightarrow> Chips \<Rightarrow> HoldemState \<Rightarrow> bool" where
  "act_step st s s' paid st1 \<longleftrightarrow> hand_ok st \<and> seat_at (seats st) (seatIndex s) = Some s
     \<and> \<not> folded s \<and> \<not> allIn s \<and> effect st s s' paid st1"

lemma act_stepD:
  assumes "act_step st s s' paid st1"
  shows "core_ok st" "2 \<le> length (live_seats st)" "acting_ok st" "seat_at (seats st) (seatIndex s) = Some s"
    "\<not> folded s" "\<not> allIn s" "effect st s s' paid st1" "s \<in> set (seats st)"
    "seats st1 = update_seat (seatIndex s) (\<lambda>_. s') (seats st)"
  using assms seat_at_SomeD [of "seats st" "seatIndex s" s]
  unfolding act_step_def hand_ok_def effect_def by blast+

lemma eff_member:
  "act_step st s s' paid st1 \<Longrightarrow> t \<in> set (seats st1) \<Longrightarrow>
   t = s' \<or> t \<in> set (seats st) \<and> seatIndex t \<noteq> seatIndex s"
  using set_put_seat_distinct [OF core_seats(1) [OF act_stepD(1)]] act_stepD(9) by metis

lemma eff_map:
  assumes "act_step st s s' paid st1" "g s' = g s"
  shows "map g (seats st1) = map g (seats st)"
  unfolding act_stepD(9) [OF assms(1)] using act_stepD(4) [OF assms(1)] assms(2) by (rule map_put_seat_same)

lemma eff_seat_ok:
  assumes "act_step st s s' paid st1"
  shows "0 \<le> stack s'" "seat_ok (currentBet st1) s'"
proof -
  note d = act_stepD [OF assms]
  have "0 \<le> stack s" "seat_ok (currentBet st) s"
    using d(1,8) by (auto simp: core_ok_def table_ok_def)
  then show "0 \<le> stack s'" "seat_ok (currentBet st1) s'"
    using d(5-7) by (simp_all add: effect_def seat_ok_def live_ok_def max_def)
qed

lemma eff_same_table:
  assumes "act_step st s s' paid st1"
  shows "same_table st st1"
  using act_stepD [OF assms] sum_put_seat [of "seats st" "seatIndex s" s stack s']
  by (simp add: effect_def same_table_def bank_def)

lemma eff_live:
  assumes "act_step st s s' paid st1"
  shows "int (length (live_seats st1)) = int (length (live_seats st)) - (if folded s' then 1 else 0)"
  using length_filter_put_seat [of "seats st" "seatIndex s" s "\<lambda>s. \<not> folded s" s'] act_stepD [OF assms]
  by (auto simp: live_seats_def)

lemma eff_called:
  assumes "act_step st s s' paid st1" "all_called (seats st)"
  shows "all_called (seats st1)"
proof -
  note d = act_stepD [OF assms(1)]
  have "0 < totalBet s" using assms(2) d(5,8) by (auto simp: all_called_def)
  then have "0 < totalBet s'" using d(7) by (simp add: effect_def)
  then show ?thesis using assms(2) eff_member [OF assms(1)] by (auto simp: all_called_def)
qed

lemma eff_table:
  assumes "act_step st s s' paid st1"
  shows "table_ok st1"
proof -
  note d = act_stepD [OF assms]
  have idx: "map seatIndex (seats st1) = map seatIndex (seats st)"
    using d(7) by (intro eff_map [OF assms]) (simp add: effect_def)
  have len: "length (seats st1) = length (seats st)" by (simp add: d(9))
  have "live_ok s" using d(1,5,8) core_seats(4) by blast
  then have "playerId s' \<noteq> ''''" using d(7) by (simp add: effect_def live_ok_def)
  then have "\<forall>t \<in> set (seats st1). 0 \<le> stack t \<and> (playerId t = '''' \<longrightarrow> stack t = 0)"
    using eff_member [OF assms] eff_seat_ok(1) [OF assms] d(1) by (auto simp: core_ok_def table_ok_def)
  moreover have "config st1 = config st" "button st1 = button st" using d(7) by (simp_all add: effect_def)
  ultimately show ?thesis using d(1) idx len by (simp add: core_ok_def table_ok_def indexed_def)
qed

lemma eff_core:
  assumes "act_step st s s' paid st1"
  shows "core_ok st1"
proof -
  note d = act_stepD [OF assms]
  have same: "config st1 = config st" "board st1 = board st" "deck st1 = deck st" "street st1 = street st"
    "handId st1 = handId st" "0 \<le> minRaise st1" "currentBet st \<le> currentBet st1"
    "pot st1 = pot st + paid" "totalBet s' = totalBet s + paid" "hole s' = hole s"
    using d(7) by (simp_all add: effect_def)
  have "seat_ok (currentBet st1) t" if "t \<in> set (seats st1)" for t
    using eff_member [OF assms that] eff_seat_ok(2) [OF assms] d(1) same(7)
    by (auto simp: core_ok_def seat_ok_def)
  moreover have "pot st1 = sum_of totalBet (seats st1)"
    using d(1) same(8,9) sum_put_seat [OF d(4), of totalBet s'] by (simp add: core_ok_def d(9))
  moreover have "street_ok st1"
    using d(1) same(1-4,7) eff_called [OF assms] by (auto simp: core_ok_def street_ok_def)
  moreover have "cards_ok st1"
    using d(1) same(2,3) eff_map [OF assms, of hole_cards] same(10)
    by (simp add: core_ok_def cards_ok_def cards_in_def hole_cards_def)
  moreover have "live_seats st1 \<noteq> []" using eff_live [OF assms] d(2) by (auto split: if_splits)
  moreover have "0 \<le> currentBet st1" "handId st1 \<noteq> None" "handId st1 \<noteq> Some ''''" using d(1) same(5,7) by (auto simp: core_ok_def)
  ultimately show ?thesis using eff_table [OF assms] same(6) by (simp add: core_ok_def)
qed

lemma unacted_after:
  assumes "act_step st s s' paid st1" "actedThisStreet st1 = actedThisStreet st"
  shows "length (unacted (mark_acted (seatIndex s) st1)) = length (filter (\<lambda>t. seatIndex t \<noteq> seatIndex s) (unacted st))"
proof -
  let ?i = "seatIndex s"
  let ?P = "\<lambda>t. \<not> folded t \<and> seatIndex t \<notin> insert ?i (actedThisStreet st)"
  have m: "map ?P (seats st1) = map ?P (seats st)"
    using act_stepD(7) [OF assms(1)] by (intro eff_map [OF assms(1)]) (simp add: effect_def)
  have "length (filter ?P (seats st1)) = length (filter ?P (seats st))" using m by (rule length_filter_map_eq)
  moreover have "filter (\<lambda>t. seatIndex t \<noteq> ?i) (unacted st) = filter ?P (seats st)"
    unfolding unacted_def filter_filter by (rule filter_cong) auto
  ultimately show ?thesis by (simp add: unacted_def assms(2))
qed

lemma eff_turns:
  assumes "act_step st s s' paid st1" "paid = 0" "actingIndex st = Some (seatIndex s)"
  shows "turns_left (mark_acted (seatIndex s) st1) < turns_left st"
proof -
  let ?i = "seatIndex s"
  let ?n = "mark_acted ?i st1"
  note d = act_stepD [OF assms(1)]
  have acted: "actedThisStreet st1 = actedThisStreet st" and ai: "actingIndex st1 = actingIndex st"
    using d(7) assms(2) by (auto simp: effect_def)
  note un = unacted_after [OF assms(1) acted]
  have act: "bet s < currentBet st \<or> ?i \<notin> actedThisStreet st"
    using d(3-6) assms(3) by (simp add: acting_ok_def)
  have le: "length (unacted ?n) \<le> length (unacted st)" unfolding un by (rule length_filter_le)
  show ?thesis
  proof (cases "folded s'")
    case True
    then show ?thesis using le eff_live [OF assms(1)] ai by (auto simp: turns_left_def)
  next
    case False
    then have "?i \<notin> actedThisStreet st" using act d(7) assms(2) by (auto simp: effect_def)
    then have "s \<in> set (unacted st)" using d(5,8) by (simp add: unacted_def)
    then have "length (unacted ?n) < length (unacted st)"
      unfolding un by (intro length_filter_less [of s]) auto
    then show ?thesis using False eff_live [OF assms(1)] ai by (auto simp: turns_left_def)
  qed
qed

lemma eff_measure:
  assumes "act_step st s s' paid st1" "actingIndex st = Some (seatIndex s)"
  shows "hmeasure (mark_acted (seatIndex s) st1) < hmeasure st"
proof -
  let ?n = "mark_acted (seatIndex s) st1"
  note d = act_stepD [OF assms(1)]
  have len: "length (seats ?n) = length (seats st)" by (simp add: d(9))
  have brd: "board st1 = board st" using d(7) by (simp add: effect_def)
  have sum: "sum_of stack (seats st1) = sum_of stack (seats st) - paid"
    unfolding d(9) using sum_put_seat [OF d(4), of stack s'] d(7) by (simp add: effect_def)
  have nn: "0 \<le> sum_of stack (seats st1)"
    using eff_table [OF assms(1)] by (intro sum_of_nonneg) (auto simp: table_ok_def)
  show ?thesis
  proof (cases "paid = 0")
    case True
    have "chips_left ?n \<le> chips_left st" using sum True brd by (simp add: chips_left_def)
    then show ?thesis using hmeasure_mono(2) [OF len] eff_turns [OF assms(1) True assms(2)] by blast
  next
    case False
    then have "0 < paid" using d(7) by (simp add: effect_def)
    then have "chips_left ?n < chips_left st"
      using sum nn brd by (simp add: chips_left_def nat_less_iff)
    then show ?thesis using hmeasure_less [OF len] by blast
  qed
qed

section \<open>Closing the street or passing the turn\<close>

lemma same_table_trans: "same_table a b \<Longrightarrow> same_table b c \<Longrightarrow> same_table a c"
  by (simp add: same_table_def)

lemma weak_step_from:
  assumes "weak_step st1 st'" "same_table st st1"
  shows "hmeasure st1 \<le> hmeasure st \<Longrightarrow> weak_step st st'"
    and "hmeasure st1 < hmeasure st \<Longrightarrow> good_step st st'"
  using assms same_table_trans by (auto simp: weak_step_def good_step_def)

lemma hmeasure_acting:
  "hmeasure (st\<lparr>actingIndex := None\<rparr>) \<le> hmeasure st"
  "actingIndex st \<noteq> None \<Longrightarrow> hmeasure (st\<lparr>actingIndex := Some i\<rparr>) \<le> hmeasure st"
  "actingIndex st \<noteq> None \<Longrightarrow> hmeasure (st\<lparr>actingIndex := None\<rparr>) < hmeasure st"
  by (auto simp: hmeasure_def chips_left_def turns_left_def live_seats_def unacted_def)

lemma street_complete_called:
  assumes core: "core_ok st" and c: "streetComplete st" "2 \<le> length (live_seats st)"
  shows "all_called (seats st)"
  unfolding all_called_def
proof (intro ballI impI)
  fix s assume s: "s \<in> set (seats st)" "\<not> folded s"
  have ok: "0 \<le> totalBet s" "bet s \<le> totalBet s" "live_ok s"
    using core_seats(3,4) [OF core s(1)] s(2) by auto
  show "0 < totalBet s"
  proof (cases "allIn s \<or> street st \<noteq> preflop")
    case True
    then show ?thesis using ok core s by (auto simp: live_ok_def core_ok_def street_ok_def all_called_def)
  next
    case False
    then have "s \<in> set (filter (\<lambda>s. \<not> allIn s) (live_seats st))" using s by (simp add: live_seats_def)
    then have "bet s = currentBet st"
      using c unfolding streetComplete_def live_seats_def Let_def list_ex_iff
      by (auto split: if_splits simp: filter_empty_conv)
    moreover have "0 < currentBet st"
      using core False by (auto simp: core_ok_def street_ok_def table_ok_def config_ok_def)
    ultimately show ?thesis using ok(2) by simp
  qed
qed

lemma street_incomplete:
  assumes core: "core_ok st" and c: "\<not> streetComplete st"
  shows "2 \<le> length (live_seats st)"
    and "\<exists>s \<in> set (seats st). \<not> folded s \<and> \<not> allIn s \<and> (bet s < currentBet st \<or> seatIndex s \<notin> actedThisStreet st)"
proof -
  show "2 \<le> length (live_seats st)" using c by (auto simp: streetComplete_def live_seats_def Let_def split: if_splits)
  show "\<exists>s \<in> set (seats st). \<not> folded s \<and> \<not> allIn s \<and> (bet s < currentBet st \<or> seatIndex s \<notin> actedThisStreet st)"
    using c core_seats(3) [OF core]
    by (force simp: streetComplete_def Let_def list_ex_iff list_all_iff split: if_splits)
qed

lemma advance_ok:
  assumes core: "core_ok st" and act: "actingIndex st \<noteq> None" and i: "0 \<le> i"
  shows "\<exists>st' ev'. advance st i ev = Inr (st', ev') \<and> weak_step st st'"
proof (cases "streetComplete st")
  case True
  show ?thesis
  proof (cases "street st = river")
    case river: True
    then have "showdown_pre st" using core by (auto simp: showdown_pre_def core_ok_def street_ok_def)
    then show ?thesis
      using prepend_good [OF showdown.op_ok, of st ev] True river by (simp add: advance_def)
  next
    case False
    let ?n = "st\<lparr>actingIndex := None\<rparr>"
    have "street_end ?n" using core street_complete_called [OF core True] by (simp add: street_end_def)
    then obtain st' ev' where r: "maybeRunout ?n ev = Inr (st', ev')" "weak_step ?n st'"
      using maybeRunout_ok by blast
    have "weak_step st st'" by (rule weak_step_from(1) [OF r(2)]) (simp_all add: hmeasure_acting)
    then show ?thesis using r(1) True False by (simp add: advance_def)
  qed
next
  case False
  let ?P = "\<lambda>s. \<not> folded s \<and> \<not> allIn s \<and> (bet s < currentBet st \<or> seatIndex s \<notin> actedThisStreet st)"
  note inc = street_incomplete [OF core False]
  have "nextSeat st i ?P \<noteq> None"
    using nextSeat_None_iff [OF core_seats(2) [OF core] i, of ?P] inc(2) by blast
  then obtain n where n: "nextSeat st i ?P = Some n" by blast
  then obtain s where s: "seat_at (seats st) n = Some s" "?P s" using nextSeat_SomeD by blast
  then have "acting_ok (st\<lparr>actingIndex := Some n\<rparr>)"
    using seat_at_SomeD [OF s(1)] by (auto simp: acting_ok_def)
  then have "weak_step st (st\<lparr>actingIndex := Some n\<rparr>)"
    using core inc(1) hmeasure_acting(2) [OF act] by (simp add: weak_step_def hand_ok_def)
  then show ?thesis using n False by (simp add: advance_def)
qed

section \<open>Applying an action\<close>

lemma checkAction_ok:
  assumes "checkAction st a amount = Inr (m, amt)"
  shows "\<exists>i s. actingIndex st = Some i \<and> seat_at (seats st) i = Some s \<and> m \<in> set (legal_for st s)
    \<and> la_action m = a \<and> sized_ok m amt"
proof -
  obtain i where i: "actingIndex st = Some i"
    using assms by (cases "actingIndex st") (auto simp: checkAction_def)
  obtain legal where l: "getLegalActions st = Inr legal" using assms i by (auto simp: checkAction_def)
  then obtain s where s: "seat_at (seats st) i = Some s" "legal = legal_for st s"
    using i by (auto simp: getLegalActions_def split: option.splits)
  obtain m' where m': "find (\<lambda>l. la_action l = a) legal = Some m'"
    using assms i l by (cases "find (\<lambda>l. la_action l = a) legal") (auto simp: checkAction_def)
  have "m' = m \<and> sized_ok m amt"
    using assms i l m' by (auto simp: checkAction_def sized_ok_def split: option.splits if_splits)
  moreover have "m' \<in> set legal" "la_action m' = a" using m' by (auto simp: find_Some_iff)
  ultimately show ?thesis using i s by auto
qed

text \<open>An action that passes its guards on a hand in progress always succeeds.\<close>

lemma applyAction_ok:
  assumes hand: "hand_ok st" and chk: "checkAction st a amount = Inr (m, amt)"
  shows "\<exists>st' ev. applyAction st a amount = Inr (st', ev) \<and> good_step st st'"
proof -
  obtain i s where i: "actingIndex st = Some i" "seat_at (seats st) i = Some s"
      "m \<in> set (legal_for st s)" "la_action m = a" "sized_ok m amt"
    using checkAction_ok [OF chk] by blast
  have core: "core_ok st" using hand by (simp add: hand_ok_def)
  have s: "s \<in> set (seats st)" "seatIndex s = i" using seat_at_SomeD [OF i(2)] by auto
  have at: "seat_at (seats st) (seatIndex s) = Some s" using i(2) s(2) by simp
  have ok: "seat_ok (currentBet st) s" "0 \<le> stack s" "0 \<le> minRaise st" "0 < bigBlind (config st)"
    using core s(1) by (auto simp: core_ok_def table_ok_def config_ok_def)
  obtain st1 paid where run: "actOn st s m a amt = (st1, paid)" by fastforce
  obtain s' where eff: "effect st s s' paid st1"
    using actOn_effect [OF i(3,4,5) ok at run] by blast
  have step: "act_step st s s' paid st1"
    using hand at eff legal_forD [OF i(3) ok] by (simp add: act_step_def)
  let ?n = "mark_acted (seatIndex s) st1"
  have ai: "actingIndex st1 = actingIndex st" using eff by (simp add: effect_def)
  have "0 \<le> seatIndex s" using indexed_range [OF core_seats(2) [OF core] s(1)] by simp
  then obtain st' ev where adv: "advance ?n (seatIndex s)
      [PLAYER_ACTED (seatIndex s) a (if paid = 0 then None else Some paid) (pot st) (pot st1) (street st),
       POT_UPDATED (pot st1)] = Inr (st', ev)" "weak_step ?n st'"
    using advance_ok [of ?n "seatIndex s"] eff_core [OF step] ai i(1) by fastforce
  have "same_table st ?n" using eff_same_table [OF step] by (simp add: same_table_def bank_def)
  then have "good_step st st'"
    using weak_step_from(2) [OF adv(2)] eff_measure [OF step] i(1) s(2) by simp
  then show ?thesis
    using chk i(1,2) run adv(1) by (simp add: applyAction_def mark_acted_def Let_def)
qed

definition action_pre :: "PokerAction \<Rightarrow> js_amount option \<Rightarrow> HoldemState \<Rightarrow> bool" where
  "action_pre a amount st \<longleftrightarrow> hand_ok st \<and> isOk (checkAction st a amount)"

interpretation action: hand_op "\<lambda>st. applyAction st a amount" "action_pre a amount" for a amount
  by unfold_locales (auto simp: action_pre_def isOk_iff dest: applyAction_ok)

end
