(* ===== verification/Holdem_Start.thy ===== *)
theory Holdem_Start
  imports Holdem_Act
begin

text \<open>
  \<open>startHand\<close> on a settled table with at least two players to deal in: it succeeds, keeps the chips of
  the table, and leaves a hand in progress.
\<close>

section \<open>Dealing the hole cards\<close>

definition dealt :: "SeatState \<Rightarrow> SeatState \<Rightarrow> bool" where
  "dealt s s' \<longleftrightarrow> (\<exists>h. s' = s\<lparr>hole := h\<rparr> \<and> (if folded s then h = hole s else \<exists>a b. h = Some [Some a, Some b]))"

lemma dealt_same:
  "dealt s s' \<Longrightarrow> stack s' = stack s \<and> bet s' = bet s \<and> totalBet s' = totalBet s \<and> folded s' = folded s
     \<and> allIn s' = allIn s \<and> sitOut s' = sitOut s \<and> playerId s' = playerId s \<and> seatIndex s' = seatIndex s"
  by (auto simp: dealt_def)

lemma dealHoles_ok:
  assumes "2 * length (filter (\<lambda>s. \<not> folded s) ss) \<le> length d" "\<forall>s \<in> set ss. hole s = None"
  shows "\<exists>ss' d' priv. dealHoles ss d = (ss', d', priv) \<and> list_all2 dealt ss ss'
     \<and> length d' = length d - 2 * length (filter (\<lambda>s. \<not> folded s) ss)
     \<and> mset (concat (map hole_cards ss')) + mset (map Some d') = mset (map Some d)"
  using assms
proof (induction ss arbitrary: d)
  case (Cons s ss)
  show ?case
  proof (cases "folded s")
    case True
    then obtain ss' d' priv where r: "dealHoles ss d = (ss', d', priv)" "list_all2 dealt ss ss'"
        "length d' = length d - 2 * length (filter (\<lambda>s. \<not> folded s) ss)"
        "mset (concat (map hole_cards ss')) + mset (map Some d') = mset (map Some d)"
      using Cons.IH [of d] Cons.prems by auto
    have "dealt s s" using True by (simp add: dealt_def)
    moreover have "hole_cards s = []" using Cons.prems(2) by (simp add: hole_cards_def)
    ultimately show ?thesis using r True by simp
  next
    case False
    then obtain a b e where d: "d = a # b # e" "2 * length (filter (\<lambda>s. \<not> folded s) ss) \<le> length e"
      using Cons.prems(1) by (auto simp: Suc_le_length_iff)
    then obtain ss' d' priv where r: "dealHoles ss e = (ss', d', priv)" "list_all2 dealt ss ss'"
        "length d' = length e - 2 * length (filter (\<lambda>s. \<not> folded s) ss)"
        "mset (concat (map hole_cards ss')) + mset (map Some d') = mset (map Some e)"
      using Cons.IH [of e] Cons.prems(2) by auto
    moreover have "dealt s (s\<lparr>hole := Some [Some a, Some b]\<rparr>)" using False by (auto simp: dealt_def)
    moreover have "hole_cards (s\<lparr>hole := Some [Some a, Some b]\<rparr>) = [Some a, Some b]"
      by (simp add: hole_cards_def)
    ultimately show ?thesis using False d by simp
  qed
qed (simp add: hole_cards_def)

lemma dealt_map: "list_all2 dealt ss ss' \<Longrightarrow> (\<And>s s'. dealt s s' \<Longrightarrow> g s' = g s) \<Longrightarrow> map g ss' = map g ss"
  by (induction rule: list_all2_induct) auto

lemma dealt_member: "list_all2 dealt ss ss' \<Longrightarrow> s' \<in> set ss' \<Longrightarrow> \<exists>s \<in> set ss. dealt s s'"
  by (induction rule: list_all2_induct) auto

section \<open>Posting the blinds\<close>

text \<open>The seats of a hand being opened, before the cards: bets at most the big blind, live seats funded.\<close>

definition open_ok :: "Chips \<Rightarrow> SeatState \<Rightarrow> bool" where
  "open_ok cb s \<longleftrightarrow> 0 \<le> stack s \<and> (playerId s = '''' \<longrightarrow> stack s = 0) \<and> 0 \<le> bet s \<and> bet s \<le> totalBet s \<and> bet s \<le> cb
     \<and> hole s = None \<and> (\<not> folded s \<longrightarrow> playerId s \<noteq> '''' \<and> \<not> sitOut s \<and> (allIn s \<longleftrightarrow> stack s = 0)
         \<and> 0 < stack s + totalBet s)"

text \<open>A live seat that has not bet posts a blind of \<open>a\<close> chips.\<close>

lemma post_ok:
  assumes "open_ok cb s" "\<not> folded s" "totalBet s = 0" "takeChips s a = (s', paid)" "0 \<le> a" "a \<le> cb"
  shows "open_ok cb s'" "\<not> folded s'" "seatIndex s' = seatIndex s" "totalBet s' = paid"
    "stack s' = stack s - paid" "0 < a \<Longrightarrow> 0 < paid" "allIn s' \<Longrightarrow> 0 < paid"
proof -
  have "0 \<le> stack s" "bet s = 0" "0 < stack s" "\<not> allIn s" using assms(1,2,3) by (auto simp: open_ok_def)
  note t = takeChips_spec [OF assms(4) \<open>0 \<le> stack s\<close> assms(5)]
  show "open_ok cb s'" using assms(1-3,5,6) t \<open>bet s = 0\<close> \<open>0 < stack s\<close> \<open>\<not> allIn s\<close>
    by (auto simp: open_ok_def)
  show "\<not> folded s'" "seatIndex s' = seatIndex s" "totalBet s' = paid" "stack s' = stack s - paid"
    "0 < a \<Longrightarrow> 0 < paid" "allIn s' \<Longrightarrow> 0 < paid"
    using t assms(2,3) \<open>0 < stack s\<close> \<open>\<not> allIn s\<close> by auto
qed

lemma resetSeat_ok:
  assumes "0 \<le> stack s" "playerId s = '''' \<longrightarrow> stack s = 0" "0 \<le> cb"
  shows "open_ok cb (resetSeat s)" "folded (resetSeat s) \<longleftrightarrow> \<not> dealtIn s" "totalBet (resetSeat s) = 0"
    "stack (resetSeat s) = stack s" "seatIndex (resetSeat s) = seatIndex s" "bet (resetSeat s) = 0"
  using assms by (auto simp: resetSeat_def open_ok_def dealtIn_def)

section \<open>The neighbours of the button\<close>

lemma nextSeat_other:
  assumes "indexed (seats st)" "0 \<le> from" "s \<in> set (seats st)" "P s" "seatIndex s \<noteq> from"
  shows "\<exists>j t. nextSeat st from P = Some j \<and> j \<noteq> from \<and> seat_at (seats st) j = Some t \<and> P t"
proof -
  let ?n = "length (seats st)"
  obtain j where j: "nextSeat st from P = Some j"
    using nextSeat_None_iff [OF assms(1,2), of P] assms(3,4) by (cases "nextSeat st from P") auto
  then obtain t where t: "seat_at (seats st) j = Some t" "P t" using nextSeat_SomeD by blast
  have "j \<noteq> from"
  proof
    assume eq: "j = from"
    obtain d where d: "1 \<le> d" "d \<le> ?n" "j = (from + int d) mod int ?n"
        "\<forall>e. 1 \<le> e \<and> e < d \<longrightarrow> \<not> P (seats st ! nat ((from + int e) mod int ?n))"
      using nextSeat_first [OF assms(1,2) j] by blast
    have rng: "from < int ?n" using eq seat_at_SomeD [OF t(1)] indexed_range [OF assms(1)] by blast
    then have "int d mod int ?n = 0"
      using eq d(3) assms(2) by (metis add_diff_cancel_left' diff_self mod_diff_cong mod_pos_pos_trivial mod_0)
    then have dn: "d = ?n" using d(1,2) by (metis le_antisym mod_pos_pos_trivial nat_dvd_not_less not_le
        of_nat_0 of_nat_dvd_iff dvd_eq_mod_eq_0 One_nat_def Suc_le_eq dvd_imp_le)
    obtain k where k: "k < ?n" "s = seats st ! k" using assms(3) by (auto simp: in_set_conv_nth)
    have "int k \<noteq> from" using indexed_nth [OF assms(1) k(1)] k(2) assms(5) by simp
    obtain e where e: "1 \<le> e" "e \<le> ?n" "js_rem (from + int e) (int ?n) = int k"
      using clockwise_covers [OF assms(2) k(1)] by blast
    then have em: "(from + int e) mod int ?n = int k" using k(1) assms(2) js_rem_nonneg [of "from + int e" "int ?n"] by fastforce
    then have "e \<noteq> ?n" using \<open>int k \<noteq> from\<close> rng assms(2) by auto
    then show False using d(4) dn e em k(2) assms(4) by (metis le_neq_implies_less nat_int)
  qed
  then show ?thesis using j t by blast
qed

section \<open>The opened table\<close>

definition opened :: "HoldemState \<Rightarrow> bool" where
  "opened st \<longleftrightarrow> indexed (seats st) \<and> length (seats st) \<le> 22 \<and> 0 \<le> button st
     \<and> button st < int (length (seats st)) \<and> config_ok (config st)
     \<and> (\<forall>s \<in> set (seats st). open_ok (bigBlind (config st)) s \<and> totalBet s = 0)
     \<and> mset (deck st) = mset fullDeck \<and> board st = [] \<and> street st = preflop
     \<and> currentBet st = bigBlind (config st) \<and> minRaise st = bigBlind (config st)
     \<and> actedThisStreet st = {} \<and> handId st \<noteq> None \<and> handId st \<noteq> Some ''''"

text \<open>Both blinds are posted by live seats.\<close>

definition posted :: "SeatState list \<Rightarrow> SeatState \<Rightarrow> SeatState \<Rightarrow> SeatState list" where
  "posted ss a b = update_seat (seatIndex b) (\<lambda>_. b) (update_seat (seatIndex a) (\<lambda>_. a) ss)"

definition blinds :: "HoldemState \<Rightarrow> SeatState \<Rightarrow> SeatState \<Rightarrow> SeatState \<Rightarrow> SeatState \<Rightarrow> Chips \<Rightarrow> Chips \<Rightarrow> bool" where
  "blinds st a b a' b' pa pb \<longleftrightarrow> opened st \<and> a \<in> set (seats st) \<and> b \<in> set (seats st)
     \<and> seatIndex a \<noteq> seatIndex b \<and> \<not> folded a \<and> \<not> folded b
     \<and> takeChips a (smallBlind (config st)) = (a', pa) \<and> takeChips b (bigBlind (config st)) = (b', pb)"

lemma blindsD:
  assumes "blinds st a b a' b' pa pb"
  shows "opened st" "distinct (map seatIndex (seats st))" "seat_at (seats st) (seatIndex a) = Some a"
    "seat_at (seats st) (seatIndex b) = Some b"
    "seat_at (update_seat (seatIndex a) (\<lambda>_. a') (seats st)) (seatIndex b) = Some b"
    "seatIndex a' = seatIndex a" "seatIndex b' = seatIndex b" "\<not> folded a'" "\<not> folded b'"
    "totalBet a' = pa" "totalBet b' = pb" "stack a' = stack a - pa" "stack b' = stack b - pb" "0 < pb"
    "allIn a' \<Longrightarrow> 0 < pa" "open_ok (bigBlind (config st)) a'" "open_ok (bigBlind (config st)) b'"
proof -
  have o: "opened st" and mem: "a \<in> set (seats st)" "b \<in> set (seats st)" and ne: "seatIndex a \<noteq> seatIndex b"
    and lv: "\<not> folded a" "\<not> folded b"
    and t: "takeChips a (smallBlind (config st)) = (a', pa)" "takeChips b (bigBlind (config st)) = (b', pb)"
    using assms by (auto simp: blinds_def)
  have ok: "open_ok (bigBlind (config st)) s" "totalBet s = 0" if "s \<in> set (seats st)" for s
    using o that by (auto simp: opened_def)
  have cfg: "0 \<le> smallBlind (config st)" "smallBlind (config st) \<le> bigBlind (config st)"
    "0 < bigBlind (config st)" using o by (auto simp: opened_def config_ok_def)
  show d: "distinct (map seatIndex (seats st))" using o by (simp add: opened_def indexed_distinct)
  note pa = post_ok [OF ok(1) [OF mem(1)] lv(1) ok(2) [OF mem(1)] t(1) cfg(1,2)]
  note pb = post_ok [OF ok(1) [OF mem(2)] lv(2) ok(2) [OF mem(2)] t(2) less_imp_le [OF cfg(3)] order_refl]
  show "opened st" by (rule o)
  show "seat_at (seats st) (seatIndex a) = Some a" "seat_at (seats st) (seatIndex b) = Some b"
    using seat_at_member [OF d] mem by auto
  show "seat_at (update_seat (seatIndex a) (\<lambda>_. a') (seats st)) (seatIndex b) = Some b"
    using seat_at_member [OF d mem(2)] pa(3) ne by (simp add: seat_at_put_other)
  show "seatIndex a' = seatIndex a" "seatIndex b' = seatIndex b" "\<not> folded a'" "\<not> folded b'"
    "totalBet a' = pa" "totalBet b' = pb" "stack a' = stack a - pa" "stack b' = stack b - pb" "0 < pb"
    "allIn a' \<Longrightarrow> 0 < pa" "open_ok (bigBlind (config st)) a'" "open_ok (bigBlind (config st)) b'"
    using pa pb cfg(3) by auto
qed

lemma posted_map:
  assumes "blinds st a b a' b' pa pb" "g a' = g a" "g b' = g b"
  shows "map g (posted (seats st) a' b') = map g (seats st)"
  using map_put_seat_same [of _ "seatIndex b" b g b'] map_put_seat_same [of _ "seatIndex a" a g a']
    blindsD(3,5,6,7) [OF assms(1)] assms(2,3) by (simp add: posted_def)

lemma posted_member:
  assumes "blinds st a b a' b' pa pb" "t \<in> set (posted (seats st) a' b')"
  shows "t = a' \<or> t = b' \<or> t \<in> set (seats st) \<and> seatIndex t \<noteq> seatIndex a \<and> seatIndex t \<noteq> seatIndex b"
proof -
  note d = blindsD [OF assms(1)]
  let ?s1 = "update_seat (seatIndex a) (\<lambda>_. a') (seats st)"
  have "distinct (map seatIndex ?s1)"
    using map_put_seat_same [OF d(3), of seatIndex a'] d(2,6) by simp
  then have "t = b' \<or> t \<in> set ?s1 \<and> seatIndex t \<noteq> seatIndex b"
    using set_put_seat_distinct assms(2) d(6,7) by (metis posted_def)
  then show ?thesis using set_put_seat_distinct [OF d(2), of t "seatIndex a" a'] by blast
qed

lemma posted_ok:
  assumes "blinds st a b a' b' pa pb" "t \<in> set (posted (seats st) a' b')"
  shows "open_ok (bigBlind (config st)) t"
  using posted_member [OF assms] blindsD(1,16,17) [OF assms(1)] by (auto simp: opened_def)

lemma posted_sums:
  assumes "blinds st a b a' b' pa pb"
  shows "sum_of totalBet (posted (seats st) a' b') = pa + pb"
    "sum_of stack (posted (seats st) a' b') = sum_of stack (seats st) - (pa + pb)"
proof -
  note d = blindsD [OF assms]
  have z: "totalBet s = 0" if "s \<in> set (seats st)" for s using d(1) that by (auto simp: opened_def)
  have z0: "sum_of totalBet (seats st) = 0" using sum_of_cong [of "seats st" totalBet "\<lambda>_. 0"] z by simp
  have "totalBet a = 0" "totalBet b = 0" using z seat_at_SomeD [OF d(3)] seat_at_SomeD [OF d(4)] by auto
  then show "sum_of totalBet (posted (seats st) a' b') = pa + pb"
    unfolding posted_def d(6,7) using sum_put_seat [OF d(5), of totalBet b'] sum_put_seat [OF d(3), of totalBet a']
      d(10,11) z0 by simp
  show "sum_of stack (posted (seats st) a' b') = sum_of stack (seats st) - (pa + pb)"
    unfolding posted_def d(6,7) using sum_put_seat [OF d(5), of stack b'] sum_put_seat [OF d(3), of stack a']
      d(12,13) by simp
qed

section \<open>Posting and dealing leave a hand in progress\<close>

lemma dealt_live_ok: "open_ok cb s \<Longrightarrow> dealt s s' \<Longrightarrow> seat_ok cb s'"
proof -
  assume o: "open_ok cb s" and d: "dealt s s'"
  have h: "\<not> folded s \<longrightarrow> (\<exists>a b. hole s' = Some [Some a, Some b])" using d by (auto simp: dealt_def)
  show ?thesis using o dealt_same [OF d] h by (simp add: open_ok_def seat_ok_def live_ok_def)
qed

text \<open>The state \<open>postAndDeal\<close> builds before it picks the first player to act.\<close>

lemma dealt_core:
  assumes bl: "blinds st a b a' b' pa pb"
    and dl: "list_all2 dealt (posted (seats st) a' b') ss3"
      "length d = 52 - 2 * length (filter (\<lambda>s. \<not> folded s) (posted (seats st) a' b'))"
      "mset (concat (map hole_cards ss3)) + mset (map Some d) = mset (map Some fullDeck)"
    and st': "seats st' = ss3" "deck st' = d" "pot st' = pa + pb" "board st' = []" "street st' = preflop"
      "config st' = config st" "button st' = button st" "currentBet st' = bigBlind (config st)"
      "minRaise st' = bigBlind (config st)" "sessionRake st' = sessionRake st" "handId st' \<noteq> None" "handId st' \<noteq> Some ''''"
  shows "core_ok st'" "sum_of stack (seats st') + pot st' = sum_of stack (seats st)"
    "length (live_seats st') = length (live_seats st)" "length (seats st') = length (seats st)"
proof -
  let ?ss2 = "posted (seats st) a' b'"
  note bd = blindsD [OF bl]
  have op: "opened st" by (rule bd(1))
  have same: "map stack ss3 = map stack ?ss2" "map totalBet ss3 = map totalBet ?ss2"
    "map seatIndex ss3 = map seatIndex ?ss2" "map (\<lambda>s. \<not> folded s) ss3 = map (\<lambda>s. \<not> folded s) ?ss2"
    by (rule dealt_map [OF dl(1)]; simp add: dealt_same)+
  have idx: "map seatIndex ss3 = map seatIndex (seats st)"
    unfolding same(3) by (rule posted_map [OF bl bd(6,7)])
  have fa: "\<not> folded a" "\<not> folded b" using bl by (auto simp: blinds_def)
  have fol: "map (\<lambda>s. \<not> folded s) ?ss2 = map (\<lambda>s. \<not> folded s) (seats st)"
    using bd(8,9) fa by (intro posted_map [OF bl]) auto
  show len: "length (seats st') = length (seats st)" using idx st'(1) by (metis length_map)
  show lv: "length (live_seats st') = length (live_seats st)"
    unfolding live_seats_def st'(1) using same(4) fol by (intro length_filter_map_eq) simp
  show "sum_of stack (seats st') + pot st' = sum_of stack (seats st)"
    unfolding st'(1,3) same(1) posted_sums(2) [OF bl] by simp
  have ok: "seat_ok (bigBlind (config st)) s \<and> 0 \<le> stack s \<and> (playerId s = '''' \<longrightarrow> stack s = 0)"
    if s: "s \<in> set ss3" for s
  proof -
    obtain t where t: "t \<in> set ?ss2" "dealt t s" using dealt_member [OF dl(1) s] by blast
    show ?thesis
      using posted_ok [OF bl t(1)] dealt_live_ok [OF posted_ok [OF bl t(1)] t(2)] dealt_same [OF t(2)]
      by (simp add: open_ok_def)
  qed
  have "table_ok st'"
    using op idx len ok st'(1,6,7) by (simp add: table_ok_def opened_def indexed_def)
  moreover have "pot st' = sum_of totalBet (seats st')"
    unfolding st'(1,3) same(2) posted_sums(1) [OF bl] by simp
  moreover have "street_ok st'"
  proof -
    have "length (filter (\<lambda>s. \<not> folded s) ?ss2) \<le> 22"
      using length_filter_le [of "\<lambda>s. \<not> folded s" ?ss2] map_eq_imp_length_eq [OF fol] op
      by (simp add: opened_def)
    then show ?thesis using dl(2) st' by (simp add: street_ok_def)
  qed
  moreover have "cards_ok st'" using dl(3) st'(1,2,4) by (simp add: cards_ok_def cards_in_def)
  moreover have "0 \<le> bigBlind (config st)" using op by (simp add: opened_def config_ok_def)
  moreover have "a \<in> set (seats st)" "\<not> folded a" using bl by (auto simp: blinds_def)
  then have "live_seats st \<noteq> []" by (auto simp: live_seats_def filter_empty_conv)
  then have "live_seats st' \<noteq> []" using lv by (metis length_0_conv)
  ultimately show "core_ok st'" using ok st' by (simp add: core_ok_def)
qed

text \<open>Who acts first: heads-up the small blind, otherwise the first live seat with chips after the big
  blind, and there is one because a third live seat has not posted.\<close>

lemma first_to_act_ok:
  assumes core: "core_ok st'" and acted: "actedThisStreet st' = {}" and bb: "0 \<le> seatIndex b"
    and dl: "list_all2 dealt (posted (seats st) a' b') (seats st')" and bl: "blinds st a b a' b' pa pb"
    and hu: "headsUp \<longrightarrow> (\<forall>s \<in> set (seats st). \<not> folded s \<longrightarrow> seatIndex s \<in> {seatIndex a, seatIndex b})"
    and multi: "\<not> headsUp \<longrightarrow> (\<exists>s \<in> set (seats st). \<not> folded s \<and> seatIndex s \<notin> {seatIndex a, seatIndex b})"
  defines "first \<equiv> (if headsUp then Some (seatIndex a)
      else nextSeat st' (seatIndex b) (\<lambda>s. \<not> folded s \<and> \<not> allIn s))"
  shows "acting_ok (st'\<lparr>actingIndex := first, firstToAct := first\<rparr>)"
proof -
  note bd = blindsD [OF bl]
  note dist = core_seats(1) [OF core]
  have idx: "map seatIndex (seats st') = map seatIndex (seats st)"
    using dealt_map [OF dl, of seatIndex] dealt_same posted_map [OF bl bd(6,7)] by metis
  show ?thesis
  proof (cases headsUp)
    case True
    have "seatIndex a \<in> set (map seatIndex (seats st'))" using idx bl by (simp add: blinds_def)
    then obtain t where t: "seat_at (seats st') (seatIndex a) = Some t" using seat_at_ex by blast
    obtain u where u: "u \<in> set (posted (seats st) a' b')" "dealt u t"
      using dealt_member [OF dl] seat_at_SomeD [OF t] by blast
    have ne: "seatIndex a \<noteq> seatIndex b" using bl by (simp add: blinds_def)
    have "seatIndex u = seatIndex a" using dealt_same [OF u(2)] seat_at_SomeD [OF t] by simp
    then have ua: "u = a'" using posted_member [OF bl u(1)] bd(7) ne by auto
    have "all_called (seats st')" if allin: "allIn t"
      unfolding all_called_def
    proof (intro ballI impI)
      fix x assume x: "x \<in> set (seats st')" "\<not> folded x"
      obtain y where y: "y \<in> set (posted (seats st) a' b')" "dealt y x" using dealt_member [OF dl x(1)] by blast
      have "y = a' \<or> y = b'" using posted_member [OF bl y(1)] hu True dealt_same [OF y(2)] x(2) by auto
      moreover have "0 < pa" using bd(15) allin dealt_same [OF u(2)] ua by simp
      ultimately show "0 < totalBet x" using bd(10,11,14) dealt_same [OF y(2)] by auto
    qed
    moreover have "runout_ready (seats st')" if allin: "allIn t" "all_called (seats st')"
    proof -
      let ?xs = "filter (\<lambda>s. \<not> allIn s) (filter (\<lambda>s. \<not> folded s) (seats st'))"
      have "distinct (map seatIndex ?xs)" using dist by (intro distinct_map_filter)
      moreover have "set (map seatIndex ?xs) \<subseteq> {seatIndex b}"
      proof
        fix i assume "i \<in> set (map seatIndex ?xs)"
        then obtain x where x: "x \<in> set (seats st')" "\<not> folded x" "\<not> allIn x" "i = seatIndex x" by auto
        obtain y where y: "y \<in> set (posted (seats st) a' b')" "dealt y x" using dealt_member [OF dl x(1)] by blast
        have "y = a' \<or> y = b'" using posted_member [OF bl y(1)] hu True dealt_same [OF y(2)] x(2) by auto
        moreover have "y \<noteq> a'" using x(3) allin(1) dealt_same [OF y(2)] dealt_same [OF u(2)] ua by auto
        ultimately show "i \<in> {seatIndex b}" using x(4) dealt_same [OF y(2)] bd(7) by simp
      qed
      ultimately have "length ?xs \<le> 1"
        using card_mono [of "{seatIndex b}" "set (map seatIndex ?xs)"] distinct_card [of "map seatIndex ?xs"]
        by simp
      then show ?thesis using allin(2) by (simp add: runout_ready_def)
    qed
    ultimately show ?thesis
      using t True dealt_same [OF u(2)] ua bd(8) acted by (simp add: acting_ok_def first_def)
  next
    case False
    then obtain s where s: "s \<in> set (seats st)" "\<not> folded s" "seatIndex s \<notin> {seatIndex a, seatIndex b}"
      using multi by blast
    have "s \<in> set (posted (seats st) a' b')"
    proof -
      have i1: "distinct (map seatIndex (update_seat (seatIndex a) (\<lambda>_. a') (seats st)))"
        using map_put_seat_same [OF bd(3), of seatIndex a'] bd(2,6) by simp
      show ?thesis using s bd(2,6,7) unfolding posted_def
        by (auto simp: update_seat_map [OF bd(2)] update_seat_map [OF i1 [unfolded update_seat_map [OF bd(2)]]] image_iff)
    qed
    then obtain x where x: "x \<in> set (seats st')" "dealt s x"
      using dl by (metis list_all2_conv_all_nth in_set_conv_nth)
    have "open_ok (bigBlind (config st)) s" "totalBet s = 0" using bd(1) s(1) by (auto simp: opened_def)
    then have "\<not> allIn s" using s(2) by (auto simp: open_ok_def)
    then have "\<not> folded x \<and> \<not> allIn x" using dealt_same [OF x(2)] s(2) by simp
    then have "first \<noteq> None"
      using nextSeat_None_iff [OF core_seats(2) [OF core] bb] x(1) False unfolding first_def by auto
    then obtain n where n: "first = Some n" by blast
    then have "nextSeat st' (seatIndex b) (\<lambda>s. \<not> folded s \<and> \<not> allIn s) = Some n"
      using False by (simp add: first_def)
    then show ?thesis using nextSeat_SomeD n acted by (fastforce simp: acting_ok_def)
  qed
qed

lemma postAndDeal_ok:
  assumes bl: "blinds st a b a' b' pa pb" and two: "2 \<le> length (live_seats st)"
    and hu: "headsUp \<longrightarrow> (\<forall>s \<in> set (seats st). \<not> folded s \<longrightarrow> seatIndex s \<in> {seatIndex a, seatIndex b})"
    and multi: "\<not> headsUp \<longrightarrow> (\<exists>s \<in> set (seats st). \<not> folded s \<and> seatIndex s \<notin> {seatIndex a, seatIndex b})"
  shows "\<exists>st' ev. postAndDeal st headsUp (seatIndex a) (seatIndex b) = Inr (st', ev) \<and> hand_ok st'
     \<and> sum_of stack (seats st') + pot st' = sum_of stack (seats st) \<and> sessionRake st' = sessionRake st
     \<and> config st' = config st \<and> length (seats st') = length (seats st)"
proof -
  note bd = blindsD [OF bl]
  let ?ss2 = "posted (seats st) a' b'"
  have op: "opened st" by (rule bd(1))
  have len52: "length (deck st) = 52" using op by (metis opened_def length_fullDeck mset_eq_length)
  have "length ?ss2 = length (seats st)" by (simp add: posted_def)
  then have "2 * length (filter (\<lambda>s. \<not> folded s) ?ss2) \<le> length (deck st)"
    using length_filter_le [of "\<lambda>s. \<not> folded s" ?ss2] op len52 by (simp add: opened_def)
  moreover have "\<forall>s \<in> set ?ss2. hole s = None" using posted_ok [OF bl] by (simp add: open_ok_def)
  ultimately obtain ss3 d priv where dl: "dealHoles ?ss2 (deck st) = (ss3, d, priv)" "list_all2 dealt ?ss2 ss3"
      "length d = 52 - 2 * length (filter (\<lambda>s. \<not> folded s) ?ss2)"
      "mset (concat (map hole_cards ss3)) + mset (map Some d) = mset (map Some (deck st))"
    using dealHoles_ok [of ?ss2 "deck st"] len52 by auto
  have full: "mset (map Some (deck st)) = mset (map Some fullDeck)" using op by (simp add: opened_def)
  define s1 where "s1 = st\<lparr>pot := pa + pb, lastAggressor := Some (seatIndex b), seats := ss3, deck := d\<rparr>"
  define first where "first = (if headsUp then Some (seatIndex a)
      else nextSeat s1 (seatIndex b) (\<lambda>s. \<not> folded s \<and> \<not> allIn s))"
  let ?st' = "s1\<lparr>actingIndex := first, firstToAct := first\<rparr>"
  have c: "core_ok s1" "sum_of stack (seats s1) + pot s1 = sum_of stack (seats st)"
    "length (live_seats s1) = length (live_seats st)" "length (seats s1) = length (seats st)"
    using dealt_core [OF bl dl(2,3) dl(4) [unfolded full], of s1] op by (auto simp: s1_def opened_def)
  have bb: "0 \<le> seatIndex b" using indexed_range op seat_at_SomeD [OF bd(4)] by (auto simp: opened_def)
  have "acting_ok ?st'"
    unfolding first_def using first_to_act_ok [OF c(1) _ bb _ bl hu multi] dl(2) op
    by (simp add: s1_def opened_def)
  moreover have "core_ok ?st'" using c(1) by (simp add: core_ok_def table_ok_def street_ok_def cards_ok_def
        cards_in_def live_seats_def)
  ultimately have "hand_ok ?st'" using two c(3) by (simp add: hand_ok_def live_seats_def)
  moreover have "\<exists>ev. postAndDeal st headsUp (seatIndex a) (seatIndex b) = Inr (?st', ev)"
  proof -
    have t: "takeChips a (smallBlind (config st)) = (a', pa)" "takeChips b (bigBlind (config st)) = (b', pb)"
      using bl by (auto simp: blinds_def)
    have "update_seat (seatIndex b) (\<lambda>_. b') (update_seat (seatIndex a) (\<lambda>_. a') (seats st)) = ?ss2"
      using bd(6,7) by (simp add: posted_def)
    then show ?thesis
      using bd(3,4,5) t dl(1) unfolding postAndDeal_def by (simp add: first_def s1_def Let_def)
  qed
  ultimately show ?thesis using c by (auto simp: s1_def)
qed

section \<open>Starting a hand\<close>

definition live_idx :: "HoldemState \<Rightarrow> int set" where
  "live_idx st = seatIndex ` set (live_seats st)"

lemma card_live_idx: "indexed (seats st) \<Longrightarrow> card (live_idx st) = length (live_seats st)"
proof -
  assume "indexed (seats st)"
  then have "distinct (map seatIndex (live_seats st))"
    unfolding live_seats_def by (intro distinct_map_filter indexed_distinct)
  then show ?thesis using distinct_card [of "map seatIndex (live_seats st)"] by (simp add: live_idx_def)
qed

lemma more_live:
  assumes "indexed (seats st)" "finite A" "card A < length (live_seats st)"
  shows "\<exists>s \<in> set (seats st). \<not> folded s \<and> seatIndex s \<notin> A"
proof (rule ccontr)
  assume "\<not> ?thesis"
  then have "live_idx st \<subseteq> A" by (auto simp: live_idx_def live_seats_def)
  then have "card (live_idx st) \<le> card A" by (rule card_mono [OF assms(2)])
  then show False using card_live_idx [OF assms(1)] assms(3) by simp
qed

lemma only_two_live:
  assumes "indexed (seats st)" "length (live_seats st) = 2" "a \<in> set (seats st)" "b \<in> set (seats st)"
    and "\<not> folded a" "\<not> folded b" "seatIndex a \<noteq> seatIndex b" "s \<in> set (seats st)" "\<not> folded s"
  shows "seatIndex s \<in> {seatIndex a, seatIndex b}"
proof -
  have "{seatIndex a, seatIndex b} \<subseteq> live_idx st" using assms by (auto simp: live_idx_def live_seats_def)
  then have "{seatIndex a, seatIndex b} = live_idx st"
    using card_live_idx [OF assms(1)] assms(2,7)
    by (intro card_subset_eq) (auto simp: live_idx_def)
  then show ?thesis using assms(8,9) by (auto simp: live_idx_def live_seats_def)
qed

lemma handOpening_opened:
  assumes "table_ok st" "filter dealtIn (seats st) \<noteq> []" "hid \<noteq> ''''"
  shows "opened (handOpening sha hm st seed hid)"
    and "length (live_seats (handOpening sha hm st seed hid)) = length (filter dealtIn (seats st))"
    and "\<exists>a \<in> set (seats (handOpening sha hm st seed hid)). \<not> folded a
           \<and> seatIndex a = button (handOpening sha hm st seed hid)"
proof -
  let ?o = "handOpening sha hm st seed hid"
  let ?P = "\<lambda>s. \<not> sitOut s \<and> stack s > 0"
  have ok: "indexed (seats st)" "length (seats st) \<le> 22" "0 \<le> button st" "config_ok (config st)"
    "\<And>s. s \<in> set (seats st) \<Longrightarrow> 0 \<le> stack s \<and> (playerId s = '''' \<longrightarrow> stack s = 0)"
    using assms(1) by (auto simp: table_ok_def)
  have "\<exists>s \<in> set (seats st). ?P s" using assms(2) by (auto simp: filter_empty_conv dealtIn_def)
  then obtain i where i: "nextSeat st (button st) ?P = Some i"
    using nextSeat_None_iff [OF ok(1,3), of ?P] by (cases "nextSeat st (button st) ?P") auto
  then obtain t where t: "seat_at (seats st) i = Some t" "?P t" using nextSeat_SomeD by blast
  have tm: "t \<in> set (seats st)" "seatIndex t = i" using seat_at_SomeD [OF t(1)] by auto
  have bb: "0 \<le> bigBlind (config st)" using ok(4) by (simp add: config_ok_def)
  note rs = resetSeat_ok [where cb = "bigBlind (config st)"]
  have seats: "seats ?o = map resetSeat (seats st)" by (simp add: handOpening_def Let_def)
  have btn: "button ?o = i" using i by (simp add: handOpening_def Let_def)
  have "dealtIn t" using t(2) ok(5) [OF tm(1)] by (auto simp: dealtIn_def)
  then show "\<exists>a \<in> set (seats ?o). \<not> folded a \<and> seatIndex a = button ?o"
    using rs(2,5) [of t] ok(5) [OF tm(1)] tm bb unfolding seats btn by auto
  show "length (live_seats ?o) = length (filter dealtIn (seats st))"
  proof -
    have "(\<lambda>s. \<not> folded (resetSeat s)) = dealtIn" by (auto simp: resetSeat_def dealtIn_def)
    then show ?thesis unfolding live_seats_def seats by (simp add: filter_map comp_def)
  qed
  show "opened ?o"
  proof -
    have "\<forall>s \<in> set (seats ?o). open_ok (bigBlind (config st)) s \<and> totalBet s = 0"
      unfolding seats using rs(1,3) ok(5) bb by auto
    moreover have "indexed (seats ?o)" "length (seats ?o) = length (seats st)"
      unfolding seats using ok(1) by (simp_all add: indexed_map resetSeat_def)
    moreover have "0 \<le> button ?o" "button ?o < int (length (seats st))"
      unfolding btn using indexed_range [OF ok(1) tm(1)] tm(2) by auto
    moreover have "config ?o = config st" "mset (deck ?o) = mset fullDeck" "board ?o = []"
      "street ?o = preflop" "currentBet ?o = bigBlind (config st)" "minRaise ?o = bigBlind (config st)"
      "actedThisStreet ?o = {}" "handId ?o \<noteq> None" "handId ?o \<noteq> Some ''''"
      using assms(3) by (simp_all add: handOpening_def Let_def mset_shuffleDeck)
    ultimately show ?thesis using ok(2,4) by (simp add: opened_def)
  qed
qed

lemma startHand_ok:
  assumes table: "table_ok st" "pot st = 0" and two: "2 \<le> length (filter dealtIn (seats st))"
    and hid: "hid \<noteq> ''''"
  shows "\<exists>st' ev. startHand sha hm st seed hid = Inr (st', ev) \<and> hand_ok st' \<and> same_table st st'"
proof -
  let ?o = "handOpening sha hm st seed hid"
  let ?P = "\<lambda>s. \<not> folded s"
  let ?hu = "length (filter dealtIn (seats st)) = 2"
  have ne: "filter dealtIn (seats st) \<noteq> []" using two by auto
  note op = handOpening_opened [OF table(1) ne hid, of sha hm seed]
  have idx: "indexed (seats ?o)" and btn0: "0 \<le> button ?o" using op(1) by (auto simp: opened_def)
  have lv2: "2 \<le> length (live_seats ?o)" using op(2) two by simp
  obtain x where x: "x \<in> set (seats ?o)" "\<not> folded x" "seatIndex x = button ?o" using op(3) by blast
  have other: "\<exists>j t. nextSeat ?o i ?P = Some j \<and> j \<noteq> i \<and> seat_at (seats ?o) j = Some t \<and> \<not> folded t"
    if "0 \<le> i" for i
  proof -
    obtain s where "s \<in> set (seats ?o)" "\<not> folded s" "seatIndex s \<noteq> i"
      using more_live [OF idx, of "{i}"] lv2 by auto
    then show ?thesis using nextSeat_other [OF idx that, of s ?P] by blast
  qed
  obtain j1 t1 where j1: "nextSeat ?o (button ?o) ?P = Some j1" "j1 \<noteq> button ?o"
      "seat_at (seats ?o) j1 = Some t1" "\<not> folded t1" using other [OF btn0] by blast
  have t1: "t1 \<in> set (seats ?o)" "seatIndex t1 = j1" using seat_at_SomeD [OF j1(3)] by auto
  have j10: "0 \<le> j1" using indexed_range [OF idx t1(1)] t1(2) by simp
  obtain j2 t2 where j2: "nextSeat ?o j1 ?P = Some j2" "j2 \<noteq> j1" "seat_at (seats ?o) j2 = Some t2" "\<not> folded t2"
    using other [OF j10] by blast
  have t2: "t2 \<in> set (seats ?o)" "seatIndex t2 = j2" using seat_at_SomeD [OF j2(3)] by auto
  define a b where "a = (if ?hu then x else t1)" and "b = (if ?hu then t1 else t2)"
  have ab: "a \<in> set (seats ?o)" "b \<in> set (seats ?o)" "\<not> folded a" "\<not> folded b" "seatIndex a \<noteq> seatIndex b"
    using x t1 t2 j1 j2 by (auto simp: a_def b_def)
  obtain a' pa b' pb where "takeChips a (smallBlind (config ?o)) = (a', pa)"
      "takeChips b (bigBlind (config ?o)) = (b', pb)" by fastforce
  then have bl: "blinds ?o a b a' b' pa pb" using op(1) ab by (simp add: blinds_def)
  have hu: "?hu \<longrightarrow> (\<forall>s \<in> set (seats ?o). \<not> folded s \<longrightarrow> seatIndex s \<in> {seatIndex a, seatIndex b})"
    using only_two_live [OF idx _ ab(1,2,3,4,5)] op(2) by metis
  have "card {seatIndex a, seatIndex b} = 2" using ab(5) by simp
  then have multi: "\<not> ?hu \<longrightarrow> (\<exists>s \<in> set (seats ?o). \<not> folded s \<and> seatIndex s \<notin> {seatIndex a, seatIndex b})"
    using more_live [OF idx, of "{seatIndex a, seatIndex b}"] op(2) two by auto
  obtain st' ev where r: "postAndDeal ?o ?hu (seatIndex a) (seatIndex b) = Inr (st', ev)" "hand_ok st'"
      "sum_of stack (seats st') + pot st' = sum_of stack (seats ?o)" "sessionRake st' = sessionRake ?o"
      "config st' = config ?o" "length (seats st') = length (seats ?o)"
    using postAndDeal_ok [OF bl lv2 hu multi] by blast
  have "sum_of stack (seats ?o) = sum_of stack (seats st)"
    by (simp add: handOpening_def Let_def resetSeat_def comp_def)
  then have "same_table st st'"
    using r(3-6) table(2) by (simp add: same_table_def bank_def handOpening_def Let_def)
  moreover have "\<exists>ev. startHand sha hm st seed hid = Inr (st', ev)"
    using two r(1) j1(1) j2(1) x(3) t1(2) t2(2)
    by (auto simp: startHand_def Let_def a_def b_def split: if_splits)
  ultimately show ?thesis using r(2) by blast
qed

end
