(* ===== verification/Holdem_Session.thy ===== *)
theory Holdem_Session
  imports Holdem_Start
begin

text \<open>
  A table over a whole session, as the game server drives the engine (\<^verbatim>\<open>table-runtime.ts\<close>, \<open>loop\<close> and
  \<open>actForCurrent\<close>): hands are dealt, players act, a seat with no legal action is skipped, the run-out deals
  the rest of the board, and between hands players sit down, leave and sit out.
\<close>

section \<open>Steps of a hand\<close>

definition in_hand :: "HoldemState \<Rightarrow> bool" where
  "in_hand st \<longleftrightarrow> street st \<noteq> waiting \<and> street st \<noteq> settlement"

inductive hand_step :: "HoldemState \<Rightarrow> HoldemState \<Rightarrow> bool" where
  act: "in_hand st \<Longrightarrow> applyAction st a amount = Inr (st', ev) \<Longrightarrow> hand_step st st'"
| skip: "in_hand st \<Longrightarrow> actingIndex st = Some i \<Longrightarrow> getLegalActions st = Inr [] \<Longrightarrow>
    hand_step st (st\<lparr>actingIndex := None\<rparr>)"
| run: "in_hand st \<Longrightarrow> actingIndex st = None \<Longrightarrow> handId st \<noteq> None \<Longrightarrow>
    isAllInRunout st \<or> 5 \<le> length (board st) \<Longrightarrow> continueRunout st = Inr (st', ev) \<Longrightarrow> hand_step st st'"

inductive_cases hand_stepE: "hand_step st st'"

lemma hand_in_hand: "hand_ok st \<Longrightarrow> in_hand st"
  by (auto simp: hand_ok_def core_ok_def street_ok_def in_hand_def)

lemma between_not_in_hand: "between_ok st \<Longrightarrow> \<not> in_hand st"
  by (auto simp: between_ok_def in_hand_def)

lemma acting_legal:
  assumes "hand_ok st" "actingIndex st = Some i"
  shows "\<exists>s. seat_at (seats st) i = Some s \<and> \<not> folded s \<and> getLegalActions st = Inr (legal_for st s)"
  using assms by (auto simp: hand_ok_def acting_ok_def getLegalActions_def split: option.splits)

lemma legal_empty_iff: "\<not> folded s \<Longrightarrow> legal_for st s = [] \<longleftrightarrow> allIn s"
  by (simp add: legal_for_def Let_def)

lemma skip_good:
  assumes hand: "hand_ok st" and act: "actingIndex st = Some i" and none: "getLegalActions st = Inr []"
  shows "good_step st (st\<lparr>actingIndex := None\<rparr>)"
proof -
  obtain s where s: "seat_at (seats st) i = Some s" "\<not> folded s" "legal_for st s = []"
    using acting_legal [OF hand act] none by auto
  then have "allIn s" by (simp add: legal_empty_iff)
  note s = s(1,2) this
  have "runout_ready (seats st)" using hand act s by (simp add: hand_ok_def acting_ok_def)
  then show ?thesis
    using hand hmeasure_acting(3) [of st] act by (simp add: good_step_def hand_ok_def acting_ok_def)
qed

lemma hand_step_good:
  assumes "hand_step st st'" "hand_ok st"
  shows "good_step st st'"
  using assms
proof cases
  case (act a amount ev)
  obtain m amt where "checkAction st a amount = Inr (m, amt)"
    using act(2) by (auto simp: applyAction_def)
  then show ?thesis using applyAction_ok [OF assms(2)] act(2) by fastforce
next
  case (skip i)
  then show ?thesis using skip_good [OF assms(2)] by simp
next
  case (run ev)
  then show ?thesis using runout.op_ok [of st] assms(2) by (auto simp: runout_pre_def)
qed

text \<open>A hand in progress can always continue: the time-out fallback is a legal action, and when nobody
  is to act the run-out is enabled.\<close>

lemma checkAction_plain:
  assumes "actingIndex st = Some i" "getLegalActions st = Inr legal"
    and "find (\<lambda>l. la_action l = a) legal = Some (plain_action a)"
  shows "checkAction st a None = Inr (plain_action a, None)"
  using assms by (simp add: checkAction_def plain_action_def)

lemma fallback_legal:
  assumes "hand_ok st" "actingIndex st = Some i" "getLegalActions st = Inr legal" "legal \<noteq> []"
  shows "\<exists>l. timeoutFallbackAction st = Inr (Some l) \<and> l \<in> set legal \<and> la_action l \<in> {Fold, Check}
     \<and> checkAction st (la_action l) None = Inr (l, None)"
proof -
  obtain s where s: "\<not> folded s" "getLegalActions st = Inr (legal_for st s)"
    using acting_legal [OF assms(1,2)] by blast
  then have l: "legal = legal_for st s" "\<not> allIn s" using assms(3,4) legal_empty_iff by auto
  show ?thesis
  proof (cases "currentBet st - bet s \<le> 0")
    case True
    then have "find (\<lambda>l. la_action l = Fold) legal = None" "find (\<lambda>l. la_action l = Check) legal = Some (plain_action Check)"
      using l s(1) by (auto simp: legal_for_def Let_def plain_action_def sized_action_def find_None_iff)
    moreover from this have "timeoutFallbackAction st = Inr (Some (plain_action Check))"
      using assms(3,4) by (cases legal) (simp_all add: timeoutFallbackAction_def)
    moreover have "plain_action Check \<in> set legal" using calculation(2) by (auto simp: find_Some_iff)
    ultimately show ?thesis
      using checkAction_plain [OF assms(2,3), of Check] by (simp add: plain_action_def)
  next
    case False
    then have "find (\<lambda>l. la_action l = Fold) legal = Some (plain_action Fold)"
      using l s(1) by (simp add: legal_for_def Let_def plain_action_def)
    moreover from this have "timeoutFallbackAction st = Inr (Some (plain_action Fold))"
      using assms(3,4) by (cases legal) (simp_all add: timeoutFallbackAction_def)
    moreover have "plain_action Fold \<in> set legal" using calculation(1) by (auto simp: find_Some_iff)
    ultimately show ?thesis
      using checkAction_plain [OF assms(2,3), of Fold] by (simp add: plain_action_def)
  qed
qed

lemma run_enabled:
  assumes "hand_ok st" "actingIndex st = None"
  shows "isAllInRunout st"
proof -
  have core: "core_ok st" and two: "2 \<le> length (live_seats st)" and rr: "runout_ready (seats st)"
    using assms by (auto simp: hand_ok_def acting_ok_def)
  have "filter (\<lambda>s. \<not> folded s \<and> playerId s \<noteq> '''') (seats st) = live_seats st"
    unfolding live_seats_def using core_seats(4) [OF core] by (auto simp: live_ok_def intro: filter_cong)
  moreover have "length (filter (\<lambda>s. \<not> allIn s \<and> stack s > 0) (live_seats st))
      \<le> length (filter (\<lambda>s. \<not> allIn s) (live_seats st))"
    by (metis (mono_tags, lifting) filter_filter length_filter_le filter_cong)
  moreover have "street st \<notin> {waiting, settlement, showdown}"
    using core by (auto simp: core_ok_def street_ok_def)
  ultimately show ?thesis
    using core two rr by (auto simp: isAllInRunout_def Let_def core_ok_def runout_ready_def live_seats_def)
qed

lemma hand_step_exists:
  assumes hand: "hand_ok st"
  shows "\<exists>st'. hand_step st st'"
proof (cases "actingIndex st")
  case None
  then obtain st' ev where "continueRunout st = Inr (st', ev)"
    using runout.op_ok [of st] hand by (auto simp: runout_pre_def)
  then show ?thesis
    using hand_step.run [OF hand_in_hand [OF hand] None] run_enabled [OF hand None] hand
    by (auto simp: hand_ok_def core_ok_def)
next
  case (Some i)
  then obtain s where s: "\<not> folded s" "getLegalActions st = Inr (legal_for st s)"
    using acting_legal [OF hand] by blast
  show ?thesis
  proof (cases "legal_for st s = []")
    case True
    then show ?thesis using hand_step.skip [OF hand_in_hand [OF hand] Some] s by auto
  next
    case False
    then obtain l where "checkAction st (la_action l) None = Inr (l, None)"
      using fallback_legal [OF hand Some s(2)] by blast
    then show ?thesis
      using applyAction_ok [OF hand] hand_step.act [OF hand_in_hand [OF hand]] by blast
  qed
qed

lemma hand_ends:
  assumes "hand_ok (f 0)" "\<forall>k. hand_ok (f k) \<longrightarrow> hand_step (f k) (f (Suc k))"
  shows "\<exists>k \<le> Suc (hmeasure (f 0)). between_ok (f k)"
  using assms
proof (induction "hmeasure (f 0)" arbitrary: f rule: less_induct)
  case less
  have g: "good_step (f 0) (f 1)"
    using hand_step_good less.prems by (metis One_nat_def)
  show ?case
  proof (cases "between_ok (f 1)")
    case True
    then show ?thesis by (intro exI [of _ 1]) simp
  next
    case False
    then have h: "hand_ok (f 1)" "hmeasure (f 1) < hmeasure (f 0)" using g by (auto simp: good_step_def)
    then obtain k where "k \<le> Suc (hmeasure (f 1))" "between_ok (f (Suc k))"
      using less.hyps [of "\<lambda>k. f (Suc k)"] less.prems(2) by auto
    then show ?thesis using h(2) by (intro exI [of _ "Suc k"]) simp
  qed
qed

section \<open>A session\<close>

definition deposit :: "HoldemState \<Rightarrow> int \<Rightarrow> Chips \<Rightarrow> Chips" where
  "deposit st i c = (case seat_at (seats st) i of Some s \<Rightarrow> c - stack s | None \<Rightarrow> 0)"

text \<open>\<open>session sha hm st0 d st\<close>: the table went from \<open>st0\<close> to \<open>st\<close> and \<open>d\<close> chips were brought to it on
  balance (buy-ins less cash-outs).\<close>

inductive session ::
  "(string \<Rightarrow> bytes32) \<Rightarrow> (string \<Rightarrow> string \<Rightarrow> bytes32) \<Rightarrow> HoldemState \<Rightarrow> Chips \<Rightarrow> HoldemState \<Rightarrow> bool"
  for sha hm st0 where
  init: "session sha hm st0 0 st0"
| play: "session sha hm st0 d st \<Longrightarrow> hand_step st st' \<Longrightarrow> session sha hm st0 d st'"
| deal: "session sha hm st0 d st \<Longrightarrow> \<not> in_hand st \<Longrightarrow> hid \<noteq> '''' \<Longrightarrow>
    startHand sha hm st seed hid = Inr (st', ev) \<Longrightarrow> session sha hm st0 d st'"
| sit: "session sha hm st0 d st \<Longrightarrow> \<not> in_hand st \<Longrightarrow> pid \<noteq> '''' \<Longrightarrow> asChips amount = Inr c \<Longrightarrow> 0 \<le> c \<Longrightarrow>
    seatPlayer st i pid aid amount = Inr st' \<Longrightarrow> session sha hm st0 (d + deposit st i c) st'"
| leave: "session sha hm st0 d st \<Longrightarrow> \<not> in_hand st \<Longrightarrow>
    session sha hm st0 (d + deposit st i 0) (clearSeat st i)"
| sit_out: "session sha hm st0 d st \<Longrightarrow> \<not> in_hand st \<Longrightarrow> session sha hm st0 d (setSitOut st i out)"

text \<open>Rewriting one seat between hands.\<close>

lemma between_map:
  assumes "between_ok st" "\<And>s. seatIndex (f s) = seatIndex s"
    and "\<And>s. s \<in> set (seats st) \<Longrightarrow> 0 \<le> stack (f s) \<and> (playerId (f s) = '''' \<longrightarrow> stack (f s) = 0)"
  shows "between_ok (st\<lparr>seats := map f (seats st)\<rparr>)"
  using assms by (simp add: between_ok_def table_ok_def indexed_map)

lemma sum_rewrite:
  assumes "distinct (map seatIndex ss)"
  shows "sum_of stack (map (\<lambda>s. if seatIndex s = i then f s else s) ss)
    = sum_of stack ss + (case seat_at ss i of Some s \<Rightarrow> stack (f s) - stack s | None \<Rightarrow> 0)"
proof -
  have "update_seat i f ss = map (\<lambda>s. if seatIndex s = i then f s else s) ss"
    using assms by (rule update_seat_map)
  moreover have "sum_of stack (update_seat i f ss)
      = sum_of stack ss + (case seat_at ss i of Some s \<Rightarrow> stack (f s) - stack s | None \<Rightarrow> 0)"
    unfolding seat_at_def by (induction ss) auto
  ultimately show ?thesis by simp
qed

lemma session_inv:
  assumes "session sha hm st0 d st" "between_ok st0 \<or> hand_ok st0"
  shows "(between_ok st \<or> hand_ok st) \<and> bank st = bank st0 + d \<and> config st = config st0
     \<and> length (seats st) = length (seats st0)"
  using assms
proof (induction rule: session.induct)
  case (play d st st')
  then have inv: "between_ok st \<or> hand_ok st" "bank st = bank st0 + d" "config st = config st0"
      "length (seats st) = length (seats st0)" by auto
  have "in_hand st" using play.hyps(2) by (auto elim: hand_stepE)
  then have "hand_ok st" using inv(1) between_not_in_hand by blast
  then have "good_step st st'" using hand_step_good play.hyps(2) by blast
  then show ?case using inv(2-4) by (auto simp: good_step_def same_table_def)
next
  case (deal d st hid seed st' ev)
  then have "between_ok st" using hand_in_hand by blast
  then have b: "table_ok st" "pot st = 0" by (auto simp: between_ok_def)
  have "2 \<le> length (filter dealtIn (seats st))" using deal.hyps(4) by (auto simp: startHand_def Let_def split: if_splits)
  then show ?case using startHand_ok [OF b _ deal.hyps(3), of sha hm seed] deal by (auto simp: same_table_def)
next
  case (sit d st pid amount c i aid st')
  then have b: "between_ok st" "distinct (map seatIndex (seats st))" using hand_in_hand
    by (auto simp: between_ok_def table_ok_def indexed_distinct)
  let ?f = "\<lambda>s. s\<lparr>playerId := pid, agentId := aid, stack := c, folded := False, allIn := False,
                 sitOut := False, bet := 0, totalBet := 0, hole := None\<rparr>"
  have st': "st' = st\<lparr>seats := map (\<lambda>s. if seatIndex s = i then ?f s else s) (seats st)\<rparr>"
    using sit.hyps(4,6) by (simp add: seatPlayer_def)
  have "between_ok st'" unfolding st' using b(1) sit.hyps(3,5)
    by (intro between_map) (auto simp: between_ok_def table_ok_def)
  moreover have "bank st' = bank st + deposit st i c"
    unfolding st' using sum_rewrite [OF b(2), of i ?f] by (simp add: bank_def deposit_def split: option.splits)
  ultimately show ?case using sit.IH sit.prems st' by auto
next
  case (leave d st i)
  then have b: "between_ok st" "distinct (map seatIndex (seats st))" using hand_in_hand
    by (auto simp: between_ok_def table_ok_def indexed_distinct)
  let ?f = "\<lambda>s. s\<lparr>playerId := '''', agentId := '''', stack := 0, sitOut := True, folded := True,
               hole := None, bet := 0, totalBet := 0, allIn := False\<rparr>"
  have "between_ok (clearSeat st i)" unfolding clearSeat_def using b(1)
    by (intro between_map) (auto simp: between_ok_def table_ok_def)
  moreover have "bank (clearSeat st i) = bank st + deposit st i 0"
    using sum_rewrite [OF b(2), of i ?f] by (simp add: bank_def deposit_def clearSeat_def split: option.splits)
  ultimately show ?case using leave.IH leave.prems by (auto simp: clearSeat_def)
next
  case (sit_out d st i out)
  then have b: "between_ok st" using hand_in_hand by blast
  have "between_ok (setSitOut st i out)" unfolding setSitOut_def using b
    by (intro between_map) (auto simp: between_ok_def table_ok_def Let_def)
  moreover have "sum_of stack (seats (setSitOut st i out)) = sum_of stack (seats st)"
    unfolding setSitOut_def by (simp add: comp_def Let_def cong: map_cong) (rule sum_of_cong, auto simp: Let_def)
  ultimately show ?case using sit_out.IH sit_out.prems by (auto simp: setSitOut_def bank_def)
qed simp

end
