(* ===== verification/Holdem_Props.thy ===== *)
theory Holdem_Props
  imports Holdem_Session
begin

text \<open>
  The properties of the hold'em engine: what a whole session keeps, that hands always move on and end,
  what settlements pay, and who is next.
\<close>

section \<open>A concrete table for the witnesses\<close>

definition demo_seat :: "int \<Rightarrow> string \<Rightarrow> Chips \<Rightarrow> SeatState" where
  "demo_seat i pid c = \<lparr>seatIndex = i, playerId = pid, agentId = '''', stack = c, bet = 0, totalBet = 0,
     hole = None, folded = False, allIn = False, sitOut = False\<rparr>"

definition demo_table :: HoldemState where
  "demo_table = \<lparr>config = \<lparr>tableId = ''t'', smallBlind = 1, bigBlind = 2, rakePct = Finite (5 / 100), rakeCap = None\<rparr>,
     handId = None, handNumber = 0, street = waiting, button = 1, deck = [], board = [], pot = 0,
     seats = [demo_seat 0 ''a'' 100, demo_seat 1 ''b'' 50], actingIndex = None, currentBet = 0, minRaise = 2,
     lastAggressor = None, firstToAct = None, serverSeed = None, seedCommit = None, winners = [], rake = 0,
     sessionRake = 0, actedThisStreet = {}, lastRaiseComplete = True\<rparr>"

lemma demo_between: "between_ok demo_table"
  by (simp add: demo_table_def demo_seat_def between_ok_def table_ok_def indexed_def config_ok_def
      RAKE_BPS_DENOMINATOR_def floor_less_iff upt_rec)

lemma demo_deals:
  "\<exists>st ev. startHand sha hm demo_table seed ''h'' = Inr (st, ev) \<and> hand_ok st \<and> same_table demo_table st"
proof (rule startHand_ok)
  show "table_ok demo_table" using demo_between by (simp add: between_ok_def)
qed (simp_all add: demo_table_def demo_seat_def dealtIn_def)

lemma demo_bank: "bank demo_table = 150"
  by (simp add: demo_table_def demo_seat_def bank_def)

section \<open>Properties\<close>

text \<open>C1: over a whole session, however hands are played and players come and go between them, the chips
  in the stacks, the pot and the collected rake are the chips the table started with plus the buy-ins less
  the cash-outs; no stack and no pot is ever negative; and no engine state outside the two invariants
  (settled, or a well-formed hand) is reached.\<close>

theorem session_conserves_chips:
  assumes "between_ok st0" "session sha hm st0 d st"
  shows "sum_of stack (seats st) + pot st + sessionRake st
           = sum_of stack (seats st0) + pot st0 + sessionRake st0 + d
       \<and> (\<forall>s \<in> set (seats st). 0 \<le> stack s) \<and> 0 \<le> pot st \<and> (between_ok st \<or> hand_ok st)"
proof -
  have inv: "between_ok st \<or> hand_ok st" "bank st = bank st0 + d" using session_inv [OF assms(2)] assms(1) by auto
  have "(\<forall>s \<in> set (seats st). 0 \<le> stack s) \<and> 0 \<le> pot st"
  proof (cases "between_ok st")
    case True
    then show ?thesis by (simp add: between_ok_def table_ok_def)
  next
    case False
    then have core: "core_ok st" using inv by (simp add: hand_ok_def)
    have "0 \<le> sum_of totalBet (seats st)" using core_seats(3) [OF core] by (intro sum_of_nonneg) force
    then show ?thesis using core by (auto simp: core_ok_def table_ok_def)
  qed
  then show ?thesis using inv by (simp add: bank_def)
qed

theorem session_conserves_chips_witness:
  "\<exists>st. session (\<lambda>_. 0) (\<lambda>_ _. 7) demo_table 0 st \<and> in_hand st
     \<and> sum_of stack (seats st) + pot st + sessionRake st = 150"
proof -
  obtain st ev where s: "startHand (\<lambda>_. 0) (\<lambda>_ _. 7) demo_table ''s'' ''h'' = Inr (st, ev)" "hand_ok st"
    using demo_deals by blast
  have "\<not> in_hand demo_table" by (simp add: demo_table_def in_hand_def)
  then have "session (\<lambda>_. 0) (\<lambda>_ _. 7) demo_table 0 st"
    using session.deal [OF session.init _ _ s(1)] by simp
  then show ?thesis
    using session_conserves_chips [OF demo_between, of "\<lambda>_. 0" "\<lambda>_ _. 7" 0 st] hand_in_hand [OF s(2)] demo_bank
    by (auto simp: bank_def)
qed

text \<open>C2: in every hand of a session no card is in two places: the hole cards, the board and the rest of
  the deck are pairwise different cards of the one deck.\<close>

theorem no_card_dealt_twice:
  assumes "between_ok st0" "session sha hm st0 d st" "in_hand st"
  shows "distinct (cards_in st) \<and> set (cards_in st) \<subseteq> Some ` set fullDeck"
proof -
  have "hand_ok st" using session_inv [OF assms(2)] assms(1,3) between_not_in_hand by blast
  then have sub: "mset (cards_in st) \<subseteq># mset (map Some fullDeck)" by (simp add: hand_ok_def core_ok_def cards_ok_def)
  moreover have "distinct (map Some fullDeck)" using distinct_fullDeck by (simp add: distinct_map)
  ultimately have "distinct (cards_in st)" by (rule distinct_submset)
  then show ?thesis using set_mset_mono [OF sub] by auto
qed

theorem no_card_dealt_twice_witness:
  "\<exists>st. session (\<lambda>_. 0) (\<lambda>_ _. 7) demo_table 0 st \<and> in_hand st \<and> distinct (cards_in st)"
proof -
  obtain st ev where s: "startHand (\<lambda>_. 0) (\<lambda>_ _. 7) demo_table ''s'' ''h'' = Inr (st, ev)" "hand_ok st"
    using demo_deals by blast
  have "\<not> in_hand demo_table" by (simp add: demo_table_def in_hand_def)
  then have "session (\<lambda>_. 0) (\<lambda>_ _. 7) demo_table 0 st"
    using session.deal [OF session.init _ _ s(1)] by simp
  then show ?thesis
    using no_card_dealt_twice [OF demo_between, of "\<lambda>_. 0" "\<lambda>_ _. 7" 0 st] hand_in_hand [OF s(2)] by auto
qed

text \<open>C3: a hand never gets stuck and always ends. From a well-formed hand a step is always enabled, and
  every way of continuing it (players acting as they like, seats without a legal action skipped, the
  run-out dealt) is settled after at most \<open>hmeasure + 1\<close> steps, a bound given by the chips in play, the
  streets to come and the number of seats.\<close>

theorem hand_progresses_and_ends:
  assumes "hand_ok st"
  shows "(\<exists>st'. hand_step st st')
     \<and> (\<forall>f. f 0 = st \<longrightarrow> (\<forall>k. hand_ok (f k) \<longrightarrow> hand_step (f k) (f (Suc k))) \<longrightarrow>
           (\<exists>k \<le> Suc (hmeasure st). between_ok (f k)))"
  using hand_step_exists [OF assms] hand_ends assms by blast

theorem hand_progresses_and_ends_witness:
  "\<exists>st st' ev. startHand (\<lambda>_. 0) (\<lambda>_ _. 7) demo_table ''s'' ''h'' = Inr (st, ev) \<and> hand_step st st'"
proof -
  obtain st ev where s: "startHand (\<lambda>_. 0) (\<lambda>_ _. 7) demo_table ''s'' ''h'' = Inr (st, ev)" "hand_ok st"
    using demo_deals by blast
  then show ?thesis using hand_progresses_and_ends [OF s(2)] by blast
qed



text \<open>C6: a showdown on a well-formed hand never fails; it pays every seat a non-negative amount and a
  folded seat nothing, empties the pot, and what it pays out together with the rake is exactly what was
  bet in the hand. Only the stacks, the pot, the rake counters and the outcome change.\<close>

theorem showdown_pays_the_pot:
  assumes "showdown_ready st"
  shows "\<exists>w r ps ev. settleShowdown st = Inr (st\<lparr>seats := credit w (seats st), pot := 0, rake := r,
            sessionRake := sessionRake st + r, winners := ps, street := settlement, actingIndex := None\<rparr>, ev)
     \<and> (\<forall>i. 0 \<le> w i) \<and> 0 \<le> r \<and> (\<forall>s \<in> set (seats st). folded s \<longrightarrow> w (seatIndex s) = 0)
     \<and> sum_of (\<lambda>s. w (seatIndex s)) (seats st) + r = sum_of totalBet (seats st)"
  using assms by (rule settleShowdown_spec)

definition demo_live :: "int \<Rightarrow> Chips \<Rightarrow> Chips \<Rightarrow> Card \<Rightarrow> Card \<Rightarrow> SeatState" where
  "demo_live i stk bt a b = (demo_seat i ''p'' stk)\<lparr>totalBet := bt, hole := Some [Some a, Some b]\<rparr>"

definition demo_river :: HoldemState where
  "demo_river = demo_table\<lparr>street := river, board := map Some (take 5 fullDeck), pot := 70,
     seats := [demo_live 0 60 40 (fullDeck ! 10) (fullDeck ! 11), demo_live 1 0 30 (fullDeck ! 12) (fullDeck ! 13)]\<rparr>"

lemma demo_river_ready: "showdown_ready demo_river"
proof -
  have "\<exists>cs. board demo_river = map Some cs \<and> 3 \<le> length cs"
    by (rule exI [of _ "take 5 fullDeck"]) (simp add: demo_river_def)
  then show ?thesis
    by (simp add: showdown_ready_def demo_river_def demo_table_def demo_live_def demo_seat_def
        RAKE_BPS_DENOMINATOR_def floor_less_iff)
qed

theorem showdown_pays_the_pot_witness:
  "\<exists>st' ev. settleShowdown demo_river = Inr (st', ev) \<and> pot st' = 0
     \<and> sum_of stack (seats st') + rake st' = 130"
proof -
  obtain w r ps ev where s: "settleShowdown demo_river = Inr (demo_river\<lparr>seats := credit w (seats demo_river), pot := 0,
        rake := r, sessionRake := sessionRake demo_river + r, winners := ps, street := settlement,
        actingIndex := None\<rparr>, ev)"
      "sum_of (\<lambda>s. w (seatIndex s)) (seats demo_river) + r = sum_of totalBet (seats demo_river)"
    using showdown_pays_the_pot [OF demo_river_ready] by blast
  have "sum_of stack (seats demo_river) = 60" "sum_of totalBet (seats demo_river) = 70"
    by (simp_all add: demo_river_def demo_live_def demo_seat_def)
  then show ?thesis using s by (auto simp: sum_stack_credit)
qed

text \<open>when all but one player have folded, the pot goes to that player: the hand is settled without
  failing, the uncalled part of the last bet comes back unraked, and the payment with the rake is exactly
  what was bet.\<close>

theorem foldWin_pays_the_pot:
  assumes "foldwin_ready st"
  shows "\<exists>w r ps ev. foldWin st = Inr (st\<lparr>seats := map (\<lambda>s. s\<lparr>bet := 0\<rparr>) (credit w (seats st)), pot := 0,
            rake := r, sessionRake := sessionRake st + r, winners := ps, street := settlement,
            actingIndex := None\<rparr>, ev)
     \<and> (\<forall>i. 0 \<le> w i) \<and> 0 \<le> r \<and> (\<forall>s \<in> set (seats st). folded s \<longrightarrow> w (seatIndex s) = 0)
     \<and> sum_of (\<lambda>s. w (seatIndex s)) (seats st) + r = sum_of totalBet (seats st)"
  using assms by (rule foldWin_spec)

theorem foldWin_pays_the_pot_witness:
  "\<exists>st' ev. foldWin demo_river = Inr (st', ev) \<and> pot st' = 0"
proof -
  have "foldwin_ready demo_river"
    by (simp add: foldwin_ready_def demo_river_def demo_table_def demo_live_def demo_seat_def
        RAKE_BPS_DENOMINATOR_def floor_less_iff)
  then show ?thesis using foldWin_pays_the_pot [of demo_river] by fastforce
qed

text \<open>C7: a layer of the pot goes to exactly the eligible live hands that no eligible live hand beats, so
  ties share it and a beaten hand takes nothing of it.\<close>

theorem layer_goes_to_best_hands:
  "set (layerWinners ranked order layer)
     = {w \<in> set (List.map_filter (map_of (rev (map (\<lambda>r. (rk_seatIndex r, r)) ranked))) (eligible layer)).
          \<forall>c \<in> set (List.map_filter (map_of (rev (map (\<lambda>r. (rk_seatIndex r, r)) ranked))) (eligible layer)).
            compareScores (rk_score c) (rk_score w) \<le> 0}"
  by (rule layerWinners_best)

theorem layer_goes_to_best_hands_witness:
  "\<lparr>rk_seatIndex = 1, rk_cards = [], rk_label = '''', rk_score = [5]\<rparr> \<in>
     set (layerWinners [\<lparr>rk_seatIndex = 0, rk_cards = [], rk_label = '''', rk_score = [2]\<rparr>,
                        \<lparr>rk_seatIndex = 1, rk_cards = [], rk_label = '''', rk_score = [5]\<rparr>] [1, 0]
            \<lparr>pl_amount = 10, contributors = [0, 1], eligible = [0, 1]\<rparr>)"
  unfolding layer_goes_to_best_hands by (simp add: List.map_filter_def compareScores.simps)

text \<open>C8: the main pot and the side pots hold exactly the chips bet, provided some live player has chips
  in; each layer is positive, somebody live is eligible for it, every eligible seat is live and has bet,
  and no seat is listed twice.\<close>

theorem pots_hold_the_bets:
  assumes "\<forall>s \<in> set ss. 0 \<le> totalBet s" and "\<exists>s \<in> set ss. \<not> folded s \<and> 0 < totalBet s"
    and "distinct (map seatIndex ss)"
  shows "sum_of pl_amount (buildPots ss) = sum_of totalBet ss
     \<and> (\<forall>p \<in> set (buildPots ss). 0 < pl_amount p \<and> eligible p \<noteq> [] \<and> distinct (eligible p)
          \<and> (\<forall>i \<in> set (eligible p). \<exists>s \<in> set ss. seatIndex s = i \<and> \<not> folded s \<and> 0 < totalBet s))"
  using buildPots_sum [of ss] buildPots_layer [of _ ss] assms by blast

theorem pots_hold_the_bets_witness:
  "sum_of pl_amount (buildPots [demo_live 0 0 40 (fullDeck ! 0) (fullDeck ! 1),
      demo_live 1 0 30 (fullDeck ! 2) (fullDeck ! 3), (demo_live 2 5 90 (fullDeck ! 4) (fullDeck ! 5))\<lparr>folded := True\<rparr>]) = 160"
  using pots_hold_the_bets [of "[demo_live 0 0 40 (fullDeck ! 0) (fullDeck ! 1),
      demo_live 1 0 30 (fullDeck ! 2) (fullDeck ! 3), (demo_live 2 5 90 (fullDeck ! 4) (fullDeck ! 5))\<lparr>folded := True\<rparr>]"]
  by (simp add: demo_live_def demo_seat_def)

text \<open>splitting a layer among tied winners loses no chip and favours nobody by more than one chip.\<close>

theorem split_is_exact_and_fair:
  assumes "0 \<le> amount" "0 < n"
  shows "\<exists>sh. splitPotShares (BigIntAmt amount) (int n) = Inr sh \<and> length sh = n \<and> sum_list sh = amount
    \<and> (\<forall>x \<in> set sh. 0 \<le> x) \<and> (\<forall>x \<in> set sh. \<forall>y \<in> set sh. x \<le> y + 1)"
  using assms by (rule splitPotShares_ok)

theorem split_is_exact_and_fair_witness:
  "\<exists>sh. splitPotShares (BigIntAmt 101) (int 3) = Inr sh \<and> sum_list sh = 101"
  using split_is_exact_and_fair [of 101 3] by auto

text \<open>the rake of a showdown is charged to the winners exactly: the tabs sum to the rake, each award
  holder has one tab, and nobody is charged more than the award.\<close>

theorem rake_tabs_exact:
  assumes "distinct (map fst gross)" "\<forall>p \<in> set gross. 0 \<le> snd p" "0 < R" "R \<le> sum_of snd gross"
  shows "sum_of snd (allocateRakeByAwards gross R btn n) = R
     \<and> set (map fst (allocateRakeByAwards gross R btn n)) = fst ` set gross
     \<and> distinct (map fst (allocateRakeByAwards gross R btn n))
     \<and> (\<forall>(k, t) \<in> set (allocateRakeByAwards gross R btn n). 0 \<le> t \<and> (\<exists>a. (k, a) \<in> set gross \<and> t \<le> a))"
  using allocateRakeByAwards_ok(1,2,3) [OF assms, of btn n] allocateRakeByAwards_ok(4) [OF assms] by blast

theorem rake_tabs_exact_witness:
  "sum_of snd (allocateRakeByAwards [(2, 7), (0, 100)] 9 1 3) = 9"
  using rake_tabs_exact [of "[(2, 7), (0, 100)]" 9 1 3] by simp

text \<open>\<open>nextSeat\<close> finds the nearest seat clockwise that satisfies the predicate, looking at the starting
  seat last, and returns null exactly when no seat satisfies it.\<close>

theorem nextSeat_is_clockwise:
  assumes "indexed (seats st)" "0 \<le> from"
  shows "(nextSeat st from P = None \<longleftrightarrow> (\<forall>s \<in> set (seats st). \<not> P s))
     \<and> (\<forall>j. nextSeat st from P = Some j \<longrightarrow>
         (\<exists>d. 1 \<le> d \<and> d \<le> length (seats st) \<and> j = (from + int d) mod int (length (seats st))
            \<and> nat j < length (seats st) \<and> P (seats st ! nat j)
            \<and> (\<forall>e. 1 \<le> e \<and> e < d \<longrightarrow> \<not> P (seats st ! nat ((from + int e) mod int (length (seats st)))))))"
proof (intro conjI allI impI)
  show "nextSeat st from P = None \<longleftrightarrow> (\<forall>s \<in> set (seats st). \<not> P s)" by (rule nextSeat_None_iff [OF assms])
next
  fix j assume "nextSeat st from P = Some j"
  then show "\<exists>d. 1 \<le> d \<and> d \<le> length (seats st) \<and> j = (from + int d) mod int (length (seats st))
      \<and> nat j < length (seats st) \<and> P (seats st ! nat j)
      \<and> (\<forall>e. 1 \<le> e \<and> e < d \<longrightarrow> \<not> P (seats st ! nat ((from + int e) mod int (length (seats st)))))"
    by (rule nextSeat_first [OF assms])
qed

theorem nextSeat_is_clockwise_witness: "nextSeat demo_table 1 (\<lambda>s. stack s > 60) \<noteq> None"
proof -
  have i: "indexed (seats demo_table)" using demo_between by (simp add: between_ok_def table_ok_def)
  show ?thesis
    using nextSeat_is_clockwise [OF i, of 1 "\<lambda>s. stack s > 60"] by (simp add: demo_table_def demo_seat_def)
qed

text \<open>C5: every state of a session is well formed. No stack is ever negative and empty chairs hold nothing. Between hands the
  pot is empty and nobody is to act. In a hand the pot is the sum of what the seats put in, no bet is negative, above
  the current bet or above the seat's contribution, every live seat belongs to a player who is not sitting out, holds
  two cards and is all-in exactly when it has no chips left, at least two seats are live, the board has the cards of
  its street, and the seat to act is a live one.\<close>

theorem session_states_wellformed:
  assumes "between_ok st0" "session sha hm st0 d st"
  shows "(\<forall>s \<in> set (seats st). 0 \<le> stack s \<and> (playerId s = '''' \<longrightarrow> stack s = 0)) \<and>
    (\<not> in_hand st \<longrightarrow> pot st = 0 \<and> actingIndex st = None) \<and>
    (in_hand st \<longrightarrow>
       pot st = sum_of totalBet (seats st) \<and> 2 \<le> length (live_seats st) \<and>
       (\<forall>s \<in> set (seats st). 0 \<le> bet s \<and> bet s \<le> currentBet st \<and> bet s \<le> totalBet s) \<and>
       (\<forall>s \<in> set (live_seats st). (\<exists>a b. hole s = Some [Some a, Some b]) \<and> playerId s \<noteq> '''' \<and> \<not> sitOut s \<and>
          (allIn s \<longleftrightarrow> stack s = 0)) \<and>
       (\<exists>cs. board st = map Some cs) \<and>
       (street st, length (board st)) \<in> {(preflop, 0), (flop, 3), (turn, 4), (river, 5)} \<and>
       (\<forall>i. actingIndex st = Some i \<longrightarrow> (\<exists>s. seat_at (seats st) i = Some s \<and> \<not> folded s)))"
proof -
  consider (b) "between_ok st" | (h) "hand_ok st" using session_inv [OF assms(2)] assms(1) by blast
  then show ?thesis
  proof cases
    case b
    then show ?thesis using between_not_in_hand [OF b] by (simp add: between_ok_def table_ok_def)
  next
    case h
    then have c: "core_ok st" "2 \<le> length (live_seats st)" "acting_ok st" "in_hand st"
      using hand_in_hand by (auto simp: hand_ok_def)
    have "\<exists>s. seat_at (seats st) i = Some s \<and> \<not> folded s" if "actingIndex st = Some i" for i
      using c(3) that by (auto simp: acting_ok_def split: option.splits)
    moreover have "(street st, length (board st)) \<in> {(preflop, 0), (flop, 3), (turn, 4), (river, 5)}" "\<exists>cs. board st = map Some cs"
      using c(1) by (auto simp: core_ok_def street_ok_def)
    moreover have "\<forall>s \<in> set (live_seats st). (\<exists>a b. hole s = Some [Some a, Some b]) \<and> playerId s \<noteq> '''' \<and> \<not> sitOut s \<and>
        (allIn s \<longleftrightarrow> stack s = 0)"
      using c(1) by (simp add: core_ok_def seat_ok_def live_ok_def live_seats_def)
    ultimately show ?thesis using c by (simp add: core_ok_def seat_ok_def table_ok_def)
  qed
qed

theorem session_states_wellformed_witness:
  "\<exists>st. session (\<lambda>_. 0) (\<lambda>_ _. 7) demo_table 0 st \<and> in_hand st \<and> 2 \<le> length (live_seats st)"
proof -
  obtain st ev where s: "startHand (\<lambda>_. 0) (\<lambda>_ _. 7) demo_table ''s'' ''h'' = Inr (st, ev)" "hand_ok st"
    using demo_deals by blast
  have "\<not> in_hand demo_table" by (simp add: demo_table_def in_hand_def)
  then have n: "session (\<lambda>_. 0) (\<lambda>_ _. 7) demo_table 0 st"
    using session.deal [OF session.init _ _ s(1)] by simp
  show ?thesis
    using session_states_wellformed [OF demo_between n] hand_in_hand [OF s(2)] n by blast
qed

end
