(* ===== verification/Protocol.thy ===== *)
theory Protocol
  imports Mz_Prelude
begin

text \<open>
  \<^verbatim>\<open>packages/protocol-vectors-ts/src\<close>: the frozen encodings of the protocol. Every hash is an ABI
  encoding of a tagged tuple (\<^verbatim>\<open>encode.ts\<close>, \<^verbatim>\<open>domains.ts\<close>). The hashing and encoding functions come from
  the viem package, so they are one parameter, the record \<open>viem\<close>; a hex string is a \<open>string\<close>, as in the
  code, and \<open>toLowerCase\<close> is \<open>js_lower\<close>.
\<close>

section \<open>Hex strings\<close>

type_synonym Hex = string

definition lower_char :: "char \<Rightarrow> char" where
  "lower_char c =
     (let n = of_char c :: nat
      in if 65 \<le> n \<and> n \<le> 90 \<or> 192 \<le> n \<and> n \<le> 222 \<and> n \<noteq> 215 then char_of (n + 32) else c)"

text \<open>\<open>toLowerCase\<close> on the characters of Latin-1.\<close>

definition js_lower :: "string \<Rightarrow> string" where
  "js_lower = map lower_char"

lemma lower_char_idem [simp]: "lower_char (lower_char c) = lower_char c"
proof -
  have "of_char (lower_char c) = (if 65 \<le> (of_char c :: nat) \<and> (of_char c :: nat) \<le> 90 \<or> 192 \<le> (of_char c :: nat)
      \<and> (of_char c :: nat) \<le> 222 \<and> (of_char c :: nat) \<noteq> 215 then of_char c + 32 else (of_char c :: nat))"
    by (auto simp: lower_char_def Let_def)
  then show ?thesis
    by (auto simp: lower_char_def [of "lower_char c"] Let_def split: if_splits)
qed

lemma js_lower_idem [simp]: "js_lower (js_lower s) = js_lower s"
  by (simp add: js_lower_def)

lemma length_js_lower [simp]: "length (js_lower s) = length s"
  by (simp add: js_lower_def)

definition hex_digit :: "char \<Rightarrow> bool" where
  "hex_digit c \<longleftrightarrow> c \<in> set ''0123456789abcdefABCDEF''"

text \<open>The test \<open>/^0x[0-9a-fA-F]{64}$/\<close>.\<close>

definition is_hex32 :: "string \<Rightarrow> bool" where
  "is_hex32 s \<longleftrightarrow> length s = 66 \<and> take 2 s = ''0x'' \<and> list_all hex_digit (drop 2 s)"

definition ZERO32 :: Hex where
  "ZERO32 = ''0x'' @ replicate 64 (CHR ''0'')"

lemma lower_ZERO32 [simp]: "js_lower ZERO32 = ZERO32"
  by (simp add: ZERO32_def js_lower_def lower_char_def map_replicate_const)

section \<open>The viem functions\<close>

text \<open>A value handed to \<open>encodeAbiParameters\<close>; \<open>ATuples\<close> is an array of tuples.\<close>

datatype abi_val = AHex Hex | AInt int | ABool bool | ATuples "abi_val list list"

datatype enc_error = AbiError string

text \<open>\<open>encodeAbi t vs\<close> is \<open>encodeAbiParameters(parseAbiParameters(t), vs)\<close>, which throws on a value that
  does not fit its type; \<open>toBytes\<close> is UTF-8; \<open>stringToHex s n\<close> is \<open>stringToHex(s, { size: n })\<close>; \<open>getAddress\<close> puts an
  address in its checksummed form and throws on what is not an address.\<close>

record viem =
  encodeAbi :: "string \<Rightarrow> abi_val list \<Rightarrow> enc_error + Hex"
  keccak256 :: "Hex \<Rightarrow> Hex"
  toBytes :: "string \<Rightarrow> Hex"
  concatHex :: "Hex list \<Rightarrow> Hex"
  stringToHex :: "string \<Rightarrow> nat \<Rightarrow> Hex"
  getAddress :: "string \<Rightarrow> enc_error + Hex"

record HashResult =
  canonicalBytesHex :: Hex
  hash :: Hex

section \<open>Domains\<close>

datatype DomainKey =
    SESSION_V2 | SESSION_ID_V1 | HAND_ID_V1 | PARTICIPANT_LEAF_V1 | EVENT_V1 | CARD_LEAF_V1 |
    DECK_ROOT_V1 | SECRET_LEAF_V1 | HAND_SEED_V1 | BALANCE_LEAF_V1 | PROFILE_V1 |
    MODEL_POLICY_V1 | PROOF_BATCH_V1 | SETTLEMENT_V3 | ENERGY_OP_V1 | ENERGY_LEDGER_V1 |
    GAME_TEMPLATE_V2 | CONTROLLER_REQ_V1 | CONTROLLER_RESP_V1 | OPENING_BALANCE_LEAF_V1 |
    CONTROLLER_LEAF_V1 | DECK_BATCH_V1 | HAND_ROOT_V1

fun DOMAIN_STRINGS :: "DomainKey \<Rightarrow> string" where
  "DOMAIN_STRINGS SESSION_V2 = ''MOZETTO_SESSION_V2''"
| "DOMAIN_STRINGS SESSION_ID_V1 = ''MOZETTO_SESSION_ID_V1''"
| "DOMAIN_STRINGS HAND_ID_V1 = ''MOZETTO_HAND_ID_V1''"
| "DOMAIN_STRINGS PARTICIPANT_LEAF_V1 = ''MOZETTO_PARTICIPANT_LEAF_V1''"
| "DOMAIN_STRINGS EVENT_V1 = ''MOZETTO_EVENT_V1''"
| "DOMAIN_STRINGS CARD_LEAF_V1 = ''MOZETTO_CARD_LEAF_V1''"
| "DOMAIN_STRINGS DECK_ROOT_V1 = ''MOZETTO_DECK_ROOT_V1''"
| "DOMAIN_STRINGS SECRET_LEAF_V1 = ''MOZETTO_SECRET_LEAF_V1''"
| "DOMAIN_STRINGS HAND_SEED_V1 = ''MOZETTO_HAND_SEED_V1''"
| "DOMAIN_STRINGS BALANCE_LEAF_V1 = ''MOZETTO_BALANCE_LEAF_V1''"
| "DOMAIN_STRINGS PROFILE_V1 = ''MOZETTO_PROFILE_V1''"
| "DOMAIN_STRINGS MODEL_POLICY_V1 = ''MOZETTO_MODEL_POLICY_V1''"
| "DOMAIN_STRINGS PROOF_BATCH_V1 = ''MOZETTO_PROOF_BATCH_V1''"
| "DOMAIN_STRINGS SETTLEMENT_V3 = ''MOZETTO_SETTLEMENT_V3''"
| "DOMAIN_STRINGS ENERGY_OP_V1 = ''MOZETTO_ENERGY_OP_V1''"
| "DOMAIN_STRINGS ENERGY_LEDGER_V1 = ''MOZETTO_ENERGY_LEDGER_V1''"
| "DOMAIN_STRINGS GAME_TEMPLATE_V2 = ''MOZETTO_GAME_TEMPLATE_V2''"
| "DOMAIN_STRINGS CONTROLLER_REQ_V1 = ''MOZETTO_CONTROLLER_REQUEST_V1''"
| "DOMAIN_STRINGS CONTROLLER_RESP_V1 = ''MOZETTO_CONTROLLER_RESPONSE_V1''"
| "DOMAIN_STRINGS OPENING_BALANCE_LEAF_V1 = ''MOZETTO_OPENING_BALANCE_LEAF_V1''"
| "DOMAIN_STRINGS CONTROLLER_LEAF_V1 = ''MOZETTO_CONTROLLER_LEAF_V1''"
| "DOMAIN_STRINGS DECK_BATCH_V1 = ''MOZETTO_DECK_BATCH_V1''"
| "DOMAIN_STRINGS HAND_ROOT_V1 = ''MOZETTO_HAND_ROOT_V1''"

definition domainTag :: "viem \<Rightarrow> string \<Rightarrow> Hex" where
  "domainTag v domainString = keccak256 v (toBytes v domainString)"

text \<open>The tags the encoders use; the code's table has an entry for each key an encoder refers to.\<close>

definition DOMAINS :: "viem \<Rightarrow> DomainKey \<Rightarrow> Hex" where
  "DOMAINS v k = domainTag v (DOMAIN_STRINGS k)"

definition DOMAIN_KEYS :: "DomainKey list" where
  "DOMAIN_KEYS = [SESSION_V2, SESSION_ID_V1, HAND_ID_V1, PARTICIPANT_LEAF_V1, EVENT_V1, CARD_LEAF_V1,
     DECK_ROOT_V1, SECRET_LEAF_V1, HAND_SEED_V1, BALANCE_LEAF_V1, PROFILE_V1,
     MODEL_POLICY_V1, PROOF_BATCH_V1, SETTLEMENT_V3, ENERGY_OP_V1, ENERGY_LEDGER_V1,
     GAME_TEMPLATE_V2, CONTROLLER_REQ_V1, CONTROLLER_RESP_V1, OPENING_BALANCE_LEAF_V1,
     CONTROLLER_LEAF_V1, DECK_BATCH_V1, HAND_ROOT_V1]"

definition allDomainDigests :: "viem \<Rightarrow> (DomainKey \<times> Hex) list" where
  "allDomainDigests v = map (\<lambda>k. (k, domainTag v (DOMAIN_STRINGS k))) DOMAIN_KEYS"

section \<open>Encodings\<close>

definition hashEnc :: "viem \<Rightarrow> string \<Rightarrow> abi_val list \<Rightarrow> enc_error + HashResult" where
  "hashEnc v types vals =
     bindE (encodeAbi v types vals) (\<lambda>b. Inr \<lparr>canonicalBytesHex = b, hash = keccak256 v b\<rparr>)"

definition enc :: "viem \<Rightarrow> string \<Rightarrow> abi_val list \<Rightarrow> enc_error + Hex" where
  "enc v types vals = encodeAbi v types vals"

definition keccakEnc :: "viem \<Rightarrow> string \<Rightarrow> abi_val list \<Rightarrow> enc_error + Hex" where
  "keccakEnc v types vals = bindE (enc v types vals) (\<lambda>b. Inr (keccak256 v b))"

record ParticipantLeafInput =
  pl_owner :: Hex
  pl_arenaAccount :: Hex
  pl_seat :: int
  pl_buyIn :: int
  pl_controllerHash :: Hex
  pl_profileHash :: Hex
  pl_ratingPool :: Hex
  pl_rated :: bool
  pl_seatTicketNonce :: int

definition participantLeaf :: "viem \<Rightarrow> ParticipantLeafInput \<Rightarrow> enc_error + HashResult" where
  "participantLeaf v x =
     hashEnc v
       (''bytes32 domain, address owner, address arenaAccount, uint8 seat, uint256 buyIn, '' @
        ''bytes32 controllerHash, bytes32 profileHash, bytes32 ratingPool, bool rated, '' @
        ''uint256 seatTicketNonce'')
       [AHex (DOMAINS v PARTICIPANT_LEAF_V1), AHex (pl_owner x), AHex (pl_arenaAccount x),
        AInt (pl_seat x), AInt (pl_buyIn x), AHex (pl_controllerHash x), AHex (pl_profileHash x),
        AHex (pl_ratingPool x), ABool (pl_rated x), AInt (pl_seatTicketNonce x)]"

record OpeningBalanceInput =
  ob_sessionId :: Hex
  ob_arenaAccount :: Hex
  ob_seat :: int
  ob_openingBalance :: int

definition openingBalanceLeaf :: "viem \<Rightarrow> OpeningBalanceInput \<Rightarrow> enc_error + HashResult" where
  "openingBalanceLeaf v x =
     hashEnc v
       (''bytes32 domain, bytes32 sessionId, address arenaAccount, uint8 seat, '' @
        ''uint256 openingBalance'')
       [AHex (DOMAINS v OPENING_BALANCE_LEAF_V1), AHex (ob_sessionId x),
        AHex (ob_arenaAccount x), AInt (ob_seat x), AInt (ob_openingBalance x)]"

record ControllerLeafInput =
  cl_seat :: int
  cl_controllerHash :: Hex

definition controllerLeaf :: "viem \<Rightarrow> ControllerLeafInput \<Rightarrow> enc_error + HashResult" where
  "controllerLeaf v x =
     hashEnc v
       (''bytes32 domain, uint8 seat, bytes32 controllerHash'')
       [AHex (DOMAINS v CONTROLLER_LEAF_V1), AInt (cl_seat x), AHex (cl_controllerHash x)]"

record ProfileInput =
  pf_profileId :: Hex
  pf_profileVersion :: int
  pf_presetId :: Hex
  pf_aggression :: int
  pf_riskTolerance :: int
  pf_deception :: int
  pf_opponentAdaptation :: int
  pf_trapPreference :: int
  pf_tempo :: int
  pf_variancePreference :: int
  pf_energyConservation :: int
  pf_allowedSchedulerWeights :: int
  pf_createdAt :: int
  pf_ownerCustomizationVersion :: int

definition profileHash :: "viem \<Rightarrow> ProfileInput \<Rightarrow> enc_error + HashResult" where
  "profileHash v x =
     hashEnc v
       (''bytes32 domain, bytes32 profileId, uint16 profileVersion, bytes32 presetId, '' @
        ''uint8 aggression, uint8 riskTolerance, uint8 deception, uint8 opponentAdaptation, '' @
        ''uint8 trapPreference, uint8 tempo, uint8 variancePreference, uint8 energyConservation, '' @
        ''uint32 allowedSchedulerWeights, uint64 createdAt, uint32 ownerCustomizationVersion'')
       [AHex (DOMAINS v PROFILE_V1), AHex (pf_profileId x), AInt (pf_profileVersion x),
        AHex (pf_presetId x), AInt (pf_aggression x), AInt (pf_riskTolerance x),
        AInt (pf_deception x), AInt (pf_opponentAdaptation x), AInt (pf_trapPreference x),
        AInt (pf_tempo x), AInt (pf_variancePreference x), AInt (pf_energyConservation x),
        AInt (pf_allowedSchedulerWeights x), AInt (pf_createdAt x),
        AInt (pf_ownerCustomizationVersion x)]"

record ModelPolicyInput =
  mp_policyId :: Hex
  mp_policyVersion :: int
  mp_providerId :: Hex
  mp_modelId :: Hex
  mp_reasoningEffortPolicy :: Hex
  mp_outputMode :: Hex
  mp_maxOutputTokens :: int
  mp_temperatureMilli :: int
  mp_masterPolicyHash :: Hex
  mp_profileSetHash :: Hex
  mp_energyPolicyHash :: Hex
  mp_contextTruncationPolicy :: Hex
  mp_fallbackPolicyHash :: Hex
  mp_toolsDisabled :: bool

definition modelPolicyHash :: "viem \<Rightarrow> ModelPolicyInput \<Rightarrow> enc_error + HashResult" where
  "modelPolicyHash v x =
     hashEnc v
       (''bytes32 domain, bytes32 policyId, uint16 policyVersion, bytes32 providerId, '' @
        ''bytes32 modelId, bytes32 reasoningEffortPolicy, bytes32 outputMode, '' @
        ''uint32 maxOutputTokens, uint32 temperatureMilli, bytes32 masterPolicyHash, '' @
        ''bytes32 profileSetHash, bytes32 energyPolicyHash, bytes32 contextTruncationPolicy, '' @
        ''bytes32 fallbackPolicyHash, bool toolsDisabled'')
       [AHex (DOMAINS v MODEL_POLICY_V1), AHex (mp_policyId x), AInt (mp_policyVersion x),
        AHex (mp_providerId x), AHex (mp_modelId x), AHex (mp_reasoningEffortPolicy x),
        AHex (mp_outputMode x), AInt (mp_maxOutputTokens x), AInt (mp_temperatureMilli x),
        AHex (mp_masterPolicyHash x), AHex (mp_profileSetHash x), AHex (mp_energyPolicyHash x),
        AHex (mp_contextTruncationPolicy x), AHex (mp_fallbackPolicyHash x),
        ABool (mp_toolsDisabled x)]"

record PokerEventV1 =
  pe_protocolVersion :: int
  pe_sessionId :: Hex
  pe_epoch :: int
  pe_handNumber :: int
  pe_sequence :: int
  pe_eventType :: int
  pe_hasActorSeat :: bool
  pe_actorSeat :: int
  pe_publicPayloadHash :: Hex
  pe_privatePayloadCommitment :: Hex
  pe_elapsedMs :: int
  pe_previousEventHash :: Hex
  pe_engineHash :: Hex

definition eventHash :: "viem \<Rightarrow> PokerEventV1 \<Rightarrow> enc_error + HashResult" where
  "eventHash v x =
     hashEnc v
       (''bytes32 domain, uint16 protocolVersion, bytes32 sessionId, uint64 epoch, '' @
        ''uint64 handNumber, uint64 sequence, uint16 eventType, bool hasActorSeat, '' @
        ''uint8 actorSeat, bytes32 publicPayloadHash, bytes32 privatePayloadCommitment, '' @
        ''uint64 elapsedMs, bytes32 previousEventHash, bytes32 engineHash'')
       [AHex (DOMAINS v EVENT_V1), AInt (pe_protocolVersion x), AHex (pe_sessionId x),
        AInt (pe_epoch x), AInt (pe_handNumber x), AInt (pe_sequence x), AInt (pe_eventType x),
        ABool (pe_hasActorSeat x), AInt (pe_actorSeat x), AHex (pe_publicPayloadHash x),
        AHex (pe_privatePayloadCommitment x), AInt (pe_elapsedMs x), AHex (pe_previousEventHash x),
        AHex (pe_engineHash x)]"

record SessionDescriptorInput =
  sd_chainId :: int
  sd_protocolVersion :: int
  sd_sessionId :: Hex
  sd_gameTemplateId :: Hex
  sd_participantRoot :: Hex
  sd_openingBalanceRoot :: Hex
  sd_controllerRoot :: Hex
  sd_profileRoot :: Hex
  sd_dealerSecretRoot :: Hex
  sd_randomnessPolicyId :: Hex
  sd_settlementPolicyId :: Hex
  sd_createdAt :: int
  sd_sealDeadline :: int
  sd_sessionNonce :: Hex

definition sessionDescriptorHash :: "viem \<Rightarrow> SessionDescriptorInput \<Rightarrow> enc_error + HashResult" where
  "sessionDescriptorHash v x =
     hashEnc v
       (''bytes32 domain, uint256 chainId, uint16 protocolVersion, bytes32 sessionId, '' @
        ''bytes32 gameTemplateId, bytes32 participantRoot, bytes32 openingBalanceRoot, '' @
        ''bytes32 controllerRoot, bytes32 profileRoot, bytes32 dealerSecretRoot, '' @
        ''bytes32 randomnessPolicyId, bytes32 settlementPolicyId, uint64 createdAt, '' @
        ''uint64 sealDeadline, bytes32 sessionNonce'')
       [AHex (DOMAINS v SESSION_V2), AInt (sd_chainId x), AInt (sd_protocolVersion x),
        AHex (sd_sessionId x), AHex (sd_gameTemplateId x), AHex (sd_participantRoot x),
        AHex (sd_openingBalanceRoot x), AHex (sd_controllerRoot x), AHex (sd_profileRoot x),
        AHex (sd_dealerSecretRoot x), AHex (sd_randomnessPolicyId x),
        AHex (sd_settlementPolicyId x), AInt (sd_createdAt x), AInt (sd_sealDeadline x),
        AHex (sd_sessionNonce x)]"

record SessionIdInput =
  si_chainId :: int
  si_gameTemplateId :: Hex
  si_participantRoot :: Hex
  si_sessionNonce :: Hex
  si_createdAt :: int

definition deriveSessionId :: "viem \<Rightarrow> SessionIdInput \<Rightarrow> enc_error + HashResult" where
  "deriveSessionId v x =
     hashEnc v
       (''bytes32 domain, uint256 chainId, bytes32 gameTemplateId, bytes32 participantRoot, '' @
        ''bytes32 sessionNonce, uint64 createdAt'')
       [AHex (DOMAINS v SESSION_ID_V1), AInt (si_chainId x), AHex (si_gameTemplateId x),
        AHex (si_participantRoot x), AHex (si_sessionNonce x), AInt (si_createdAt x)]"

record BalanceLeafInput =
  bl_sessionId :: Hex
  bl_epoch :: int
  bl_arenaAccount :: Hex
  bl_seat :: int
  bl_openingBalance :: int
  bl_currentBalance :: int
  bl_cumulativeRake :: int
  bl_lastSequence :: int

definition balanceLeaf :: "viem \<Rightarrow> BalanceLeafInput \<Rightarrow> enc_error + HashResult" where
  "balanceLeaf v x =
     hashEnc v
       (''bytes32 domain, bytes32 sessionId, uint64 epoch, address arenaAccount, uint8 seat, '' @
        ''uint256 openingBalance, uint256 currentBalance, uint256 cumulativeRake, '' @
        ''uint64 lastSequence'')
       [AHex (DOMAINS v BALANCE_LEAF_V1), AHex (bl_sessionId x), AInt (bl_epoch x),
        AHex (bl_arenaAccount x), AInt (bl_seat x), AInt (bl_openingBalance x),
        AInt (bl_currentBalance x), AInt (bl_cumulativeRake x), AInt (bl_lastSequence x)]"

record HandRootFields =
  hr_handId :: Hex
  hr_eventChainTip :: Hex
  hr_deckRoot :: Hex
  hr_openingStateHash :: Hex
  hr_endingStateHash :: Hex
  hr_handRake :: int
  hr_energyLedgerRoot :: Hex

definition handRoot :: "viem \<Rightarrow> HandRootFields \<Rightarrow> enc_error + HashResult" where
  "handRoot v x =
     hashEnc v
       (''bytes32 domain, bytes32 handId, bytes32 eventChainTip, bytes32 deckRoot, '' @
        ''bytes32 openingStateHash, bytes32 endingStateHash, uint256 handRake, '' @
        ''bytes32 energyLedgerRoot'')
       [AHex (DOMAINS v HAND_ROOT_V1), AHex (hr_handId x), AHex (hr_eventChainTip x),
        AHex (hr_deckRoot x), AHex (hr_openingStateHash x), AHex (hr_endingStateHash x),
        AInt (hr_handRake x), AHex (hr_energyLedgerRoot x)]"

record EnergyOpFields =
  eo_sessionId :: Hex
  eo_handId :: Hex
  eo_seat :: int
  eo_opIndex :: int
  eo_operationType :: int
  eo_energyDebit :: int
  eo_remainingEnergy :: int
  eo_providerRequestId :: Hex
  eo_observationHash :: Hex
  eo_resultHash :: Hex
  eo_fallbackFlag :: bool

definition energyOpHash :: "viem \<Rightarrow> EnergyOpFields \<Rightarrow> enc_error + HashResult" where
  "energyOpHash v x =
     hashEnc v
       (''bytes32 domain, bytes32 sessionId, bytes32 handId, uint8 seat, uint32 opIndex, '' @
        ''uint16 operationType, uint16 energyDebit, uint16 remainingEnergy, '' @
        ''bytes32 providerRequestId, bytes32 observationHash, bytes32 resultHash, '' @
        ''bool fallbackFlag'')
       [AHex (DOMAINS v ENERGY_OP_V1), AHex (eo_sessionId x), AHex (eo_handId x),
        AInt (eo_seat x), AInt (eo_opIndex x), AInt (eo_operationType x), AInt (eo_energyDebit x),
        AInt (eo_remainingEnergy x), AHex (eo_providerRequestId x), AHex (eo_observationHash x),
        AHex (eo_resultHash x), ABool (eo_fallbackFlag x)]"

record EnergyLedgerFields =
  el_sessionId :: Hex
  el_handId :: Hex
  el_seat :: int
  el_startingEnergy :: int
  el_opsRoot :: Hex
  el_endingEnergy :: int

definition energyLedgerHash :: "viem \<Rightarrow> EnergyLedgerFields \<Rightarrow> enc_error + HashResult" where
  "energyLedgerHash v x =
     hashEnc v
       (''bytes32 domain, bytes32 sessionId, bytes32 handId, uint8 seat, uint16 startingEnergy, '' @
        ''bytes32 opsRoot, uint16 endingEnergy'')
       [AHex (DOMAINS v ENERGY_LEDGER_V1), AHex (el_sessionId x), AHex (el_handId x),
        AInt (el_seat x), AInt (el_startingEnergy x), AHex (el_opsRoot x), AInt (el_endingEnergy x)]"

record ProofBatchFields =
  pb_sequence :: int
  pb_previousBatchRoot :: Hex
  pb_globalRoot :: Hex
  pb_dataManifestHash :: Hex
  pb_createdAt :: int

definition proofBatchLeaf :: "viem \<Rightarrow> ProofBatchFields \<Rightarrow> enc_error + HashResult" where
  "proofBatchLeaf v x =
     hashEnc v
       (''bytes32 domain, uint64 sequence, bytes32 previousBatchRoot, bytes32 globalRoot, '' @
        ''bytes32 dataManifestHash, uint64 createdAt'')
       [AHex (DOMAINS v PROOF_BATCH_V1), AInt (pb_sequence x), AHex (pb_previousBatchRoot x),
        AHex (pb_globalRoot x), AHex (pb_dataManifestHash x), AInt (pb_createdAt x)]"

record OddChipInput =
  oc_pot :: int
  oc_button :: int
  oc_w0 :: int
  oc_w1 :: int
  oc_a0 :: int
  oc_a1 :: int

definition oddChipSplitHash :: "viem \<Rightarrow> OddChipInput \<Rightarrow> enc_error + HashResult" where
  "oddChipSplitHash v x =
     hashEnc v
       (''uint256 pot, uint8 button, uint8 w0, uint8 w1, uint256 a0, uint256 a1'')
       [AInt (oc_pot x), AInt (oc_button x), AInt (oc_w0 x), AInt (oc_w1 x), AInt (oc_a0 x),
        AInt (oc_a1 x)]"

definition deriveHandId :: "viem \<Rightarrow> Hex \<Rightarrow> int \<Rightarrow> int \<Rightarrow> enc_error + HashResult" where
  "deriveHandId v sessionId epoch handNumber =
     hashEnc v ''bytes32 domain, bytes32 sessionId, uint64 epoch, uint64 handNumber''
       [AHex (DOMAINS v HAND_ID_V1), AHex sessionId, AInt epoch, AInt handNumber]"

definition cardLeaf :: "viem \<Rightarrow> Hex \<Rightarrow> int \<Rightarrow> int \<Rightarrow> Hex \<Rightarrow> enc_error + HashResult" where
  "cardLeaf v handId position code salt =
     hashEnc v ''bytes32 domain, bytes32 handId, uint8 position, uint8 cardCode, bytes32 cardSalt''
       [AHex (DOMAINS v CARD_LEAF_V1), AHex handId, AInt position, AInt code, AHex salt]"

definition secretLeaf :: "viem \<Rightarrow> Hex \<Rightarrow> int \<Rightarrow> int \<Rightarrow> Hex \<Rightarrow> enc_error + HashResult" where
  "secretLeaf v sessionId randomnessEpoch index secret =
     hashEnc v ''bytes32 domain, bytes32 sessionId, uint64 randomnessEpoch, uint16 index, bytes32 secret''
       [AHex (DOMAINS v SECRET_LEAF_V1), AHex sessionId, AInt randomnessEpoch, AInt index, AHex secret]"

definition handSeed :: "viem \<Rightarrow> Hex \<Rightarrow> Hex \<Rightarrow> Hex \<Rightarrow> int \<Rightarrow> int \<Rightarrow> enc_error + Hex" where
  "handSeed v secret vrfR sessionId epoch index =
     keccakEnc v ''bytes32 domain, bytes32 secret, bytes32 vrfR, bytes32 sessionId, uint64 epoch, uint16 index''
       [AHex (DOMAINS v HAND_SEED_V1), AHex secret, AHex vrfR, AHex sessionId, AInt epoch, AInt index]"

definition randomnessEpochId :: "viem \<Rightarrow> Hex \<Rightarrow> int \<Rightarrow> enc_error + Hex" where
  "randomnessEpochId v sessionId epoch =
     keccakEnc v ''bytes32 sessionId, uint64 epoch'' [AHex sessionId, AInt epoch]"

section \<open>The settlement digest\<close>

record FinalSettlementInput =
  fs_sessionId :: Hex
  fs_finalSequence :: int
  fs_finalEventRoot :: Hex
  fs_handRoot :: Hex
  fs_balanceRoot :: Hex
  fs_randomnessEpochId :: Hex
  fs_openingTotal :: int
  fs_endingPlayerTotal :: int
  fs_totalRake :: int
  fs_proofBatchSequence :: int
  fs_modelPolicyHash :: Hex
  fs_profileSetHash :: Hex
  fs_gameTemplateId :: Hex
  fs_engineHash :: Hex
  fs_deadline :: int
  fs_chainId :: int
  fs_verifyingContract :: Hex

definition FINAL_SETTLEMENT_TYPESTRING :: string where
  "FINAL_SETTLEMENT_TYPESTRING =
     ''FinalSettlementV3(bytes32 sessionId,uint64 finalSequence,bytes32 finalEventRoot,bytes32 handRoot,'' @
     ''bytes32 balanceRoot,bytes32 randomnessEpochId,uint256 openingTotal,uint256 endingPlayerTotal,'' @
     ''uint256 totalRake,uint64 proofBatchSequence,bytes32 modelPolicyHash,bytes32 profileSetHash,'' @
     ''bytes32 gameTemplateId,bytes32 engineHash,uint256 deadline)''"

record SettlementDigest =
  TYPEHASH :: Hex
  structHash :: Hex
  domainSeparator :: Hex
  digest :: Hex

definition settlementStruct :: "FinalSettlementInput \<Rightarrow> abi_val list" where
  "settlementStruct s =
     [AHex (fs_sessionId s), AInt (fs_finalSequence s), AHex (fs_finalEventRoot s), AHex (fs_handRoot s),
      AHex (fs_balanceRoot s), AHex (fs_randomnessEpochId s), AInt (fs_openingTotal s),
      AInt (fs_endingPlayerTotal s), AInt (fs_totalRake s), AInt (fs_proofBatchSequence s),
      AHex (fs_modelPolicyHash s), AHex (fs_profileSetHash s), AHex (fs_gameTemplateId s),
      AHex (fs_engineHash s), AInt (fs_deadline s)]"

definition structTypes :: string where
  "structTypes =
     ''bytes32 typehash, bytes32 sessionId, uint64 finalSequence, bytes32 finalEventRoot, '' @
     ''bytes32 handRoot, bytes32 balanceRoot, bytes32 randomnessEpochId, uint256 openingTotal, '' @
     ''uint256 endingPlayerTotal, uint256 totalRake, uint64 proofBatchSequence, '' @
     ''bytes32 modelPolicyHash, bytes32 profileSetHash, bytes32 gameTemplateId, '' @
     ''bytes32 engineHash, uint256 deadline''"

definition settlementDomain :: "viem \<Rightarrow> FinalSettlementInput \<Rightarrow> abi_val list" where
  "settlementDomain v s =
     [AHex (keccak256 v (toBytes v
        ''EIP712Domain(string name,string version,uint256 chainId,address verifyingContract)'')),
      AHex (keccak256 v (toBytes v ''MozettoPokerSettlement'')),
      AHex (keccak256 v (toBytes v ''3'')), AInt (fs_chainId s), AHex (fs_verifyingContract s)]"

definition domainTypes :: string where
  "domainTypes = ''bytes32 typehash, bytes32 name, bytes32 version, uint256 chainId, address verifyingContract''"

definition settlementEip712Digest :: "viem \<Rightarrow> FinalSettlementInput \<Rightarrow> enc_error + SettlementDigest" where
  "settlementEip712Digest v s =
     (let typehash = keccak256 v (toBytes v FINAL_SETTLEMENT_TYPESTRING)
      in bindE (keccakEnc v structTypes (AHex typehash # settlementStruct s)) (\<lambda>sh.
         bindE (keccakEnc v domainTypes (settlementDomain v s)) (\<lambda>ds.
           Inr \<lparr>TYPEHASH = typehash, structHash = sh, domainSeparator = ds,
                digest = keccak256 v (concatHex v [''0x1901'', ds, sh])\<rparr>)))"

section \<open>Binding\<close>

text \<open>Two hex strings denote the same bytes when they agree up to case.\<close>

fun abi_norm :: "abi_val \<Rightarrow> abi_val" where
  "abi_norm (AHex h) = AHex (js_lower h)"
| "abi_norm (AInt i) = AInt i"
| "abi_norm (ABool b) = ABool b"
| "abi_norm (ATuples rows) = ATuples (map (map abi_norm) rows)"

text \<open>The ABI encoding of a tuple of static types determines its values.\<close>

definition abi_injective :: "viem \<Rightarrow> bool" where
  "abi_injective v \<longleftrightarrow> (\<forall>t vs ws b. encodeAbi v t vs = Inr b \<longrightarrow> encodeAbi v t ws = Inr b \<longrightarrow>
     map abi_norm vs = map abi_norm ws)"

text \<open>What the code relies on of \<open>keccak256\<close> and \<open>concat\<close>: a digest is 32 bytes in lower case, hashing
  reads bytes (so the case of the digits is irrelevant), and \<open>concat\<close> appends digits.\<close>

definition hash_lib :: "viem \<Rightarrow> bool" where
  "hash_lib v \<longleftrightarrow>
     (\<forall>x. is_hex32 (keccak256 v x) \<and> js_lower (keccak256 v x) = keccak256 v x \<and>
          keccak256 v (js_lower x) = keccak256 v x) \<and>
     (\<forall>xs. list_all is_hex32 xs \<longrightarrow> concatHex v (map js_lower xs) = js_lower (concatHex v xs)) \<and>
     (\<forall>xs ys. map length xs = map length ys \<longrightarrow> list_all (\<lambda>x. take 2 x = ''0x'') (xs @ ys) \<longrightarrow>
          concatHex v xs = concatHex v ys \<longrightarrow> xs = ys)"

lemma hash_lib_concat2:
  assumes "hash_lib v" "is_hex32 a" "is_hex32 b" "is_hex32 c" "is_hex32 d" "concatHex v [a, b] = concatHex v [c, d]"
  shows "a = c \<and> b = d"
proof -
  have "[a, b] = [c, d]"
    using assms(1) [unfolded hash_lib_def] assms(2-6)
    by (elim conjE allE [where x = "[a, b]"] allE [where x = "[c, d]"]) (simp add: is_hex32_def)
  then show ?thesis by simp
qed

text \<open>Two given inputs of keccak that collide. Collisions of a hash function exist; a binding statement
  therefore names the two inputs, both of which the parties have computed.\<close>

definition collides :: "viem \<Rightarrow> Hex \<Rightarrow> Hex \<Rightarrow> bool" where
  "collides v x y \<longleftrightarrow> x \<noteq> y \<and> keccak256 v x = keccak256 v y"

lemma hashEnc_InrD:
  "hashEnc v t vs = Inr h \<Longrightarrow> encodeAbi v t vs = Inr (canonicalBytesHex h) \<and> hash h = keccak256 v (canonicalBytesHex h)"
  by (auto simp: hashEnc_def)

lemma hashEnc_hash:
  assumes "hash_lib v" "hashEnc v t vs = Inr h"
  shows "is_hex32 (hash h)" "js_lower (hash h) = hash h"
  using hashEnc_InrD [OF assms(2)] assms(1) by (simp_all add: hash_lib_def)

lemma keccakEnc_InrD: "keccakEnc v t vs = Inr h \<Longrightarrow> \<exists>b. encodeAbi v t vs = Inr b \<and> h = keccak256 v b"
  by (auto simp: keccakEnc_def enc_def)

lemma keccakEnc_hex: "hash_lib v \<Longrightarrow> keccakEnc v t vs = Inr h \<Longrightarrow> is_hex32 h"
  by (auto simp: hash_lib_def dest!: keccakEnc_InrD)

text \<open>The encoded bytes, or nothing where encoding throws.\<close>

definition bytesOf :: "viem \<Rightarrow> string \<Rightarrow> abi_val list \<Rightarrow> Hex" where
  "bytesOf v t vs = (case encodeAbi v t vs of Inl _ \<Rightarrow> [] | Inr b \<Rightarrow> b)"

lemma keccakEnc_binding:
  assumes "keccakEnc v t vs = Inr h" "keccakEnc v t ws = Inr h" "abi_injective v"
  shows "map abi_norm vs = map abi_norm ws \<or> collides v (bytesOf v t vs) (bytesOf v t ws)"
proof -
  obtain b c where bc: "encodeAbi v t vs = Inr b" "encodeAbi v t ws = Inr c" "keccak256 v b = keccak256 v c"
    using keccakEnc_InrD assms(1,2) by metis
  show ?thesis
  proof (cases "b = c")
    case True
    then show ?thesis using bc assms(3) unfolding abi_injective_def by blast
  next
    case False
    then show ?thesis using bc by (simp add: collides_def bytesOf_def)
  qed
qed

lemma hashEnc_binding:
  assumes "hashEnc v t vs = Inr h" "hashEnc v t ws = Inr k" "hash h = hash k" "abi_injective v"
  shows "map abi_norm vs = map abi_norm ws \<or> collides v (canonicalBytesHex h) (canonicalBytesHex k)"
  using hashEnc_InrD [OF assms(1)] hashEnc_InrD [OF assms(2)] assms(3,4)
  unfolding abi_injective_def collides_def by metis

text \<open>A concrete encoder that satisfies the hypothesis: every value is written with its length in unary
  in front.\<close>

definition self_delim :: "string \<Rightarrow> string" where
  "self_delim s = replicate (length s) (CHR ''1'') @ CHR ''0'' # s"

fun abi_show :: "abi_val \<Rightarrow> string" where
  "abi_show (AHex h) = CHR ''h'' # self_delim (js_lower h)"
| "abi_show (AInt i) = (if i < 0 then CHR ''m'' else CHR ''p'') # self_delim (replicate (nat \<bar>i\<bar>) (CHR ''i''))"
| "abi_show (ABool b) = (if b then ''t'' else ''f'')"
| "abi_show (ATuples rows) = CHR ''r'' # self_delim (concat (map (\<lambda>r. self_delim (concat (map abi_show r))) rows))"

definition hex_of :: "char \<Rightarrow> char" where
  "hex_of c = ''0123456789abcdef'' ! (of_char c mod 16)"

definition demo_keccak :: "string \<Rightarrow> Hex" where
  "demo_keccak x = ''0x'' @ take 64 (map hex_of (js_lower x) @ replicate 64 (CHR ''0''))"

definition demo_viem :: viem where
  "demo_viem = \<lparr>encodeAbi = \<lambda>t vs. Inr (concat (map abi_show vs)), keccak256 = demo_keccak, toBytes = \<lambda>x. x,
     concatHex = \<lambda>xs. ''0x'' @ concat (map (drop 2) xs), stringToHex = \<lambda>s n. ''0x'' @ s, getAddress = Inr\<rparr>"

lemma unary_prefix:
  "replicate m (CHR ''1'') @ CHR ''0'' # x = replicate n (CHR ''1'') @ CHR ''0'' # y \<Longrightarrow> m = n \<and> x = y"
proof (induction m arbitrary: n)
  case 0
  then show ?case by (cases n) auto
next
  case (Suc m)
  then show ?case by (cases n) auto
qed

lemma self_delim_prefix: "self_delim a @ x = self_delim b @ y \<Longrightarrow> a = b \<and> x = y"
  using unary_prefix [of "length a" "a @ x" "length b" "b @ y"] by (auto simp: self_delim_def)

lemma abi_show_ne [simp]: "abi_show a \<noteq> []"
  by (cases a) auto

lemma self_delim_ne [simp]: "self_delim s \<noteq> []"
  by (simp add: self_delim_def)

text \<open>A list written with a prefix-free code is determined by its concatenation.\<close>

lemma concat_prefix_free:
  assumes "\<And>a b x y. a \<in> set vs \<Longrightarrow> f a @ x = f b @ y \<Longrightarrow> g a = g b \<and> x = y" "\<And>a. f a \<noteq> []"
  shows "concat (map f vs) = concat (map f ws) \<Longrightarrow> map g vs = map g ws"
  using assms(1)
proof (induction vs arbitrary: ws)
  case Nil
  then show ?case using assms(2) by (cases ws) auto
next
  case (Cons a vs)
  have "concat (map f ws) \<noteq> []" using Cons.prems(1) assms(2) [of a] by (simp add: append_eq_Cons_conv del: concat_eq_Nil_conv Nil_eq_concat_conv flip: Cons.prems(1))
  then obtain b ws' where w: "ws = b # ws'" by (cases ws) auto
  have "f a @ concat (map f vs) = f b @ concat (map f ws')" using Cons.prems(1) w by simp
  then have "g a = g b \<and> concat (map f vs) = concat (map f ws')" by (rule Cons.prems(2) [OF list.set_intros(1)])
  then have ab: "g a = g b" "concat (map f vs) = concat (map f ws')" by simp_all
  have "map g vs = map g ws'"
    by (rule Cons.IH [OF ab(2)], rule Cons.prems(2) [OF list.set_intros(2)])
  then show ?case using ab(1) w by simp
qed

lemma abi_show_prefix_flat:
  assumes "abi_show a @ x = abi_show b @ y" "\<And>rows. a \<noteq> ATuples rows"
  shows "abi_norm a = abi_norm b \<and> x = y"
proof (cases b)
  case (ATuples rows)
  then show ?thesis using assms by (cases a) (auto split: if_splits)
qed (use assms in \<open>(cases a; auto split: if_splits dest!: self_delim_prefix dest: arg_cong [where f = length])\<close>)+

lemma abi_show_prefix: "abi_show a @ x = abi_show b @ y \<Longrightarrow> abi_norm a = abi_norm b \<and> x = y"
proof (induction a arbitrary: b x y rule: abi_show.induct)
  case (4 rows)
  obtain rows' where b: "b = ATuples rows'" using 4(2) by (cases b) (auto split: if_splits)
  let ?row = "\<lambda>r. self_delim (concat (map abi_show r))"
  have eq: "concat (map ?row rows) = concat (map ?row rows')" and xy: "x = y"
    using 4(2) b by (auto dest!: self_delim_prefix)
  have "map abi_norm r = map abi_norm r' \<and> u = w" if "r \<in> set rows" "?row r @ u = ?row r' @ w" for r r' u w
  proof -
    have "map abi_norm r = map abi_norm r'"
    proof (rule concat_prefix_free)
      show "abi_norm c = abi_norm d \<and> p = q" if "c \<in> set r" "abi_show c @ p = abi_show d @ q" for c d p q
        by (rule 4(1) [OF \<open>r \<in> set rows\<close> that])
    qed (use self_delim_prefix [OF that(2)] in simp_all)
    then show ?thesis using self_delim_prefix [OF that(2)] by simp
  qed
  then have "map (map abi_norm) rows = map (map abi_norm) rows'"
    by (rule concat_prefix_free [OF _ _ eq]) simp_all
  then show ?case using b xy by simp
qed (rule abi_show_prefix_flat; simp)+

lemma abi_show_inj: "concat (map abi_show vs) = concat (map abi_show ws) \<Longrightarrow> map abi_norm vs = map abi_norm ws"
  by (rule concat_prefix_free) (auto dest: abi_show_prefix)

lemma demo_viem_injective: "abi_injective demo_viem"
  by (auto simp: abi_injective_def demo_viem_def dest: abi_show_inj)

lemma lower_hex_of [simp]: "lower_char (hex_of c) = hex_of c"
proof -
  have "hex_of c \<in> set ''0123456789abcdef''"
    unfolding hex_of_def by (intro nth_mem) simp
  then show ?thesis by (auto simp: lower_char_def)
qed

lemma hex_digit_hex_of [simp]: "hex_digit (hex_of c)"
proof -
  have "hex_of c \<in> set ''0123456789abcdef''"
    unfolding hex_of_def by (intro nth_mem) simp
  then show ?thesis by (auto simp: hex_digit_def)
qed

lemma is_hex32_demo_keccak: "is_hex32 (demo_keccak x)"
proof -
  have "hex_digit c" if "c \<in> set (take 64 (map hex_of (js_lower x) @ replicate 64 (CHR ''0'')))" for c
    using in_set_takeD [OF that] by (auto simp: hex_digit_def [of "CHR ''0''"])
  then show ?thesis by (auto simp: is_hex32_def demo_keccak_def list_all_iff)
qed

lemma lower_demo_keccak: "js_lower (demo_keccak x) = demo_keccak x"
  unfolding demo_keccak_def js_lower_def
  by (simp add: take_map [symmetric] lower_char_def [of "CHR ''0''"] lower_char_def [of "CHR ''x''"] comp_def)

lemma demo_concat_lower:
  "''0x'' @ concat (map (drop 2) (map js_lower xs)) = js_lower (''0x'' @ concat (map (drop 2) xs))"
  by (simp add: js_lower_def map_concat comp_def drop_map lower_char_def [of "CHR ''0''"]
      lower_char_def [of "CHR ''x''"])

lemma hex32_split: "is_hex32 a \<Longrightarrow> a = ''0x'' @ drop 2 a"
  unfolding is_hex32_def by (metis append_take_drop_id)

lemma demo_concat_inj:
  "map length xs = map length ys \<Longrightarrow> list_all (\<lambda>x. take 2 x = ''0x'') (xs @ ys) \<Longrightarrow>
     concat (map (drop 2) xs) = concat (map (drop 2) ys) \<Longrightarrow> xs = ys"
proof (induction xs arbitrary: ys)
  case (Cons x xs)
  then obtain y ys' where y: "ys = y # ys'" by (cases ys) auto
  have "drop 2 x = drop 2 y \<and> concat (map (drop 2) xs) = concat (map (drop 2) ys')"
    using Cons.prems y by (intro append_eq_append_conv [THEN iffD1]) auto
  moreover have "take 2 x = take 2 y" using Cons.prems(2) y by simp
  ultimately have "x = y \<and> concat (map (drop 2) xs) = concat (map (drop 2) ys')"
    using append_take_drop_id by metis
  then show ?case using Cons.IH [of ys'] Cons.prems y by simp
qed simp

lemma demo_keccak_lower [simp]: "demo_keccak (js_lower x) = demo_keccak x"
  by (simp add: demo_keccak_def)

lemma demo_viem_hash_lib: "hash_lib demo_viem"
  unfolding hash_lib_def demo_viem_def
  using demo_concat_inj demo_concat_lower
  by (auto simp: is_hex32_demo_keccak lower_demo_keccak)

end
