(* ===== verification/Merkle.thy ===== *)
theory Merkle
  imports Protocol
begin

unbundle bit_operations_syntax

text \<open>
  \<^verbatim>\<open>packages/protocol-vectors-ts/src/merkle.ts\<close> and \<^verbatim>\<open>packages/root-builder/src/merkle.ts\<close>: ordered
  Merkle trees over hex digests. A level is padded with zero leaves to a power of two, each parent is the
  hash of the concatenation of its children, and a proof lists the siblings on the way up. An array read
  out of range is \<open>undefined\<close> in the code; \<open>js_nth\<close> returns \<open>None\<close> there, and verifying a proof with such a
  step throws, which is \<open>None\<close> as well.
\<close>

section \<open>Building\<close>

definition js_nth :: "'a list \<Rightarrow> nat \<Rightarrow> 'a option" where
  "js_nth xs i = (if i < length xs then Some (xs ! i) else None)"

lemma pow2_and: "(2 ^ k :: nat) AND (2 ^ k - 1) = 0"
proof -
  have "(2 ^ k :: nat) AND mask k = take_bit k (2 ^ k)" by (simp add: take_bit_eq_mask)
  then show ?thesis by (simp add: mask_eq_exp_minus_1)
qed

lemma and_pred_pow2: "0 < n \<Longrightarrow> n AND (n - 1) = 0 \<Longrightarrow> \<exists>k. n = 2 ^ k" for n :: nat
proof (induction n rule: less_induct)
  case (less n)
  show ?case
  proof (cases "even n")
    case True
    then obtain m where m: "n = 2 * m" by blast
    have "(n - 1) div 2 = m - 1" using m less.prems(1) by simp
    then have "m AND (m - 1) = 0" using less.prems m and_rec [of n "n - 1"] by simp
    then obtain k where "m = 2 ^ k" using less.IH [of m] less.prems(1) m by auto
    then show ?thesis using m power_Suc by metis
  next
    case False
    then obtain m where m: "n = 2 * m + 1" using oddE by blast
    have "m AND m = 0" using less.prems(2) m and_rec [of n "n - 1"] by simp
    then show ?thesis using m by (intro exI [of _ 0]) simp
  qed
qed

text \<open>The least exponent whose power of two holds a level.\<close>

definition height :: "nat \<Rightarrow> nat" where
  "height n = (LEAST k. n \<le> 2 ^ k)"

lemma le_height: "n \<le> 2 ^ height n"
  unfolding height_def by (rule LeastI [of _ n]) (simp add: less_imp_le)

lemma height_le: "n \<le> 2 ^ k \<Longrightarrow> height n \<le> k"
  unfolding height_def by (rule Least_le)

lemma height_pow2 [simp]: "height (2 ^ k) = k"
  using le_height [of "2 ^ k"] height_le [of "2 ^ k" k] by (simp add: power_increasing_iff)

lemma height_step:
  assumes "n AND (n - 1) \<noteq> 0"
  shows "n < 2 ^ height n" "height (Suc n) = height n"
proof -
  have "n \<noteq> 2 ^ height n" using assms pow2_and by metis
  then show lt: "n < 2 ^ height n" using le_height [of n] by simp
  then have "height (Suc n) \<le> height n" by (intro height_le) simp
  moreover have "height n \<le> height (Suc n)" using le_height [of "Suc n"] by (intro height_le) simp
  ultimately show "height (Suc n) = height n" by simp
qed

text \<open>\<open>while (level.length & (level.length - 1)) level.push(ZERO32)\<close>; the lengths are below \<open>2 ^ 31\<close>, where
  the operator agrees with the one on unbounded naturals.\<close>

function padLevel :: "Hex list \<Rightarrow> Hex list" where
  "padLevel level =
     (if length level AND (length level - 1) \<noteq> 0 then padLevel (level @ [ZERO32]) else level)"
  by auto
termination
  by (relation "measure (\<lambda>l. 2 ^ height (length l) - length l)") (auto simp: height_step diff_less_mono2)

declare padLevel.simps [simp del]

lemma padLevel_spec:
  "level \<noteq> [] \<Longrightarrow>
     padLevel level = level @ replicate (2 ^ height (length level) - length level) ZERO32"
proof (induction level rule: padLevel.induct)
  case (1 l)
  show ?case
  proof (cases "length l AND (length l - 1) = 0")
    case True
    then obtain k where "length l = 2 ^ k" using and_pred_pow2 "1.prems" by blast
    then show ?thesis using True by (simp add: padLevel.simps [of l])
  next
    case False
    have "2 ^ height (length l) - length l = Suc (2 ^ height (length l) - length (l @ [ZERO32]))"
      using height_step(1) [OF False] by simp
    then show ?thesis
      using False "1.IH" height_step(2) [OF False] by (simp add: padLevel.simps [of l])
  qed
qed

lemma length_padLevel: "level \<noteq> [] \<Longrightarrow> length (padLevel level) = 2 ^ height (length level)"
  using le_height [of "length level"] by (simp add: padLevel_spec)

lemma padLevel_nth: "i < length level \<Longrightarrow> padLevel level ! i = level ! i"
  by (cases "level = []") (simp_all add: padLevel_spec nth_append)

definition hashPair :: "viem \<Rightarrow> Hex \<Rightarrow> Hex \<Rightarrow> Hex" where
  "hashPair v l r = keccak256 v (concatHex v [l, r])"

text \<open>The inner loop over \<open>i += 2\<close>; the levels it meets have even length.\<close>

fun nextLevel :: "viem \<Rightarrow> Hex list \<Rightarrow> Hex list" where
  "nextLevel v (l # r # rest) = hashPair v l r # nextLevel v rest"
| "nextLevel v [l] = []"
| "nextLevel v [] = []"

lemma length_nextLevel [simp]: "length (nextLevel v level) = length level div 2"
  by (induction v level rule: nextLevel.induct) auto

function buildLayers :: "viem \<Rightarrow> Hex list \<Rightarrow> Hex list list" where
  "buildLayers v level =
     (if 1 < length level then level # buildLayers v (nextLevel v level) else [level])"
  by auto
termination
  by (relation "measure (\<lambda>(v, l). length l)") auto

declare buildLayers.simps [simp del]

record MerkleTree =
  root :: Hex
  layers :: "Hex list list"

definition merkleRoot :: "viem \<Rightarrow> Hex list \<Rightarrow> MerkleTree" where
  "merkleRoot v leaves =
     (if leaves = [] then \<lparr>root = ZERO32, layers = [[ZERO32]]\<rparr>
      else let ls = buildLayers v (padLevel leaves) in \<lparr>root = hd (last ls), layers = ls\<rparr>)"

section \<open>Proofs\<close>

record MerkleProofStep =
  sibling :: "Hex option"
  isLeft :: bool

fun proofLoop :: "Hex list list \<Rightarrow> nat \<Rightarrow> MerkleProofStep list" where
  "proofLoop (l # l' # ls) idx =
     (let s = idx XOR 1
      in \<lparr>sibling = js_nth l s, isLeft = (s < idx)\<rparr> # proofLoop (l' # ls) (idx div 2))"
| "proofLoop [l] idx = []"
| "proofLoop [] idx = []"

definition merkleProof :: "viem \<Rightarrow> Hex list \<Rightarrow> nat \<Rightarrow> MerkleProofStep list" where
  "merkleProof v leaves index = proofLoop (layers (merkleRoot v leaves)) index"

definition proofForIndex :: "viem \<Rightarrow> Hex list \<Rightarrow> nat \<Rightarrow> MerkleProofStep list" where
  "proofForIndex v leaves index = merkleProof v leaves index"

fun climb :: "viem \<Rightarrow> Hex \<Rightarrow> MerkleProofStep list \<Rightarrow> Hex option" where
  "climb v h [] = Some h"
| "climb v h (step # proof) =
     (case sibling step of
        None \<Rightarrow> None
      | Some s0 \<Rightarrow>
          (let s = js_lower s0
           in climb v (js_lower (if isLeft step then hashPair v s h else hashPair v h s)) proof))"

definition verifyMerkleProof :: "viem \<Rightarrow> Hex \<Rightarrow> MerkleProofStep list \<Rightarrow> Hex \<Rightarrow> bool option" where
  "verifyMerkleProof v leaf proof expectedRoot =
     map_option (\<lambda>h. h = js_lower expectedRoot) (climb v (js_lower leaf) proof)"

section \<open>Completeness\<close>

lemma nextLevel_nth:
  "Suc (2 * i) < length level \<Longrightarrow> nextLevel v level ! i = hashPair v (level ! (2 * i)) (level ! Suc (2 * i))"
proof (induction v level arbitrary: i rule: nextLevel.induct)
  case (1 v l r rest)
  then show ?case by (cases i) auto
qed auto

lemma xor_one: "idx XOR Suc 0 = (if even idx then Suc idx else idx - 1)" for idx :: nat
  by (cases "even idx") (auto simp: xor_rec [of idx "Suc 0"] elim!: evenE oddE)

lemma hash_lib_pair_lower:
  assumes "hash_lib v" "is_hex32 a" "is_hex32 b"
  shows "js_lower (hashPair v (js_lower a) (js_lower b)) = hashPair v a b"
proof -
  have "concatHex v [js_lower a, js_lower b] = js_lower (concatHex v [a, b])"
    using assms unfolding hash_lib_def by (auto dest: spec [where x = "[a, b]"])
  then show ?thesis using assms(1) by (simp add: hash_lib_def hashPair_def)
qed

lemma hash_lib_pair [simp]:
  "hash_lib v \<Longrightarrow> is_hex32 (hashPair v a b)" "hash_lib v \<Longrightarrow> js_lower (hashPair v a b) = hashPair v a b"
  by (simp_all add: hash_lib_def hashPair_def)

lemma nextLevel_hex: "hash_lib v \<Longrightarrow> list_all is_hex32 (nextLevel v level)"
  by (induction v level rule: nextLevel.induct) auto

lemma is_hex32_ZERO32 [simp]: "is_hex32 ZERO32"
  by (simp add: is_hex32_def ZERO32_def list_all_iff hex_digit_def)

text \<open>Climbing along the proof of a node of a perfect level ends at the root of that level.\<close>

lemma buildLayers_ne [simp]: "buildLayers v l \<noteq> []"
  by (subst buildLayers.simps) simp

lemma last_buildLayers: "1 < length l \<Longrightarrow> last (buildLayers v l) = last (buildLayers v (nextLevel v l))"
  by (subst buildLayers.simps) simp

lemma proofLoop_buildLayers:
  assumes "1 < length l"
  shows "proofLoop (buildLayers v l) i =
    \<lparr>sibling = js_nth l (i XOR 1), isLeft = (i XOR 1 < i)\<rparr> # proofLoop (buildLayers v (nextLevel v l)) (i div 2)"
proof -
  obtain x xs where "buildLayers v (nextLevel v l) = x # xs" by (meson buildLayers_ne neq_Nil_conv)
  then show ?thesis using assms by (subst buildLayers.simps) (simp add: Let_def)
qed

lemma climb_level:
  assumes "hash_lib v"
  shows "length level = 2 ^ k \<Longrightarrow> i < length level \<Longrightarrow> list_all is_hex32 level \<Longrightarrow>
    climb v (js_lower (level ! i)) (proofLoop (buildLayers v level) i) =
      Some (js_lower (hd (last (buildLayers v level))))"
proof (induction k arbitrary: level i)
  case 0
  then obtain x where "level = [x]" by (metis One_nat_def length_0_conv length_Suc_conv power_0)
  then show ?case using 0 by (simp add: buildLayers.simps)
next
  case (Suc k)
  let ?n = "nextLevel v level"
  have len: "length level = 2 * 2 ^ k" using Suc.prems by simp
  have gt: "1 < length level" unfolding len using one_le_power [of "2 :: nat" k] by linarith
  have ib: "i div 2 < length ?n" and nl: "length ?n = 2 ^ k" using len Suc.prems(2) by auto
  have sib: "i XOR 1 < length level" using len Suc.prems(2) by (auto simp: xor_one elim!: evenE)
  have hx: "is_hex32 (level ! i)" "is_hex32 (level ! (i XOR 1))"
    using Suc.prems(2,3) sib by (auto simp: list_all_length)
  have st: "js_lower (if i XOR 1 < i then hashPair v (js_lower (level ! (i XOR 1))) (js_lower (level ! i))
        else hashPair v (js_lower (level ! i)) (js_lower (level ! (i XOR 1)))) = ?n ! (i div 2)"
    using hash_lib_pair_lower [OF assms hx] hash_lib_pair_lower [OF assms hx(2,1)] nextLevel_nth [of "i div 2" level v]
      len Suc.prems(2) by (auto simp: xor_one elim!: evenE oddE)
  have "js_lower (?n ! (i div 2)) = ?n ! (i div 2)"
    using nextLevel_nth [of "i div 2" level v] ib nl assms len by simp
  then have IH: "climb v (?n ! (i div 2)) (proofLoop (buildLayers v ?n) (i div 2)) =
      Some (js_lower (hd (last (buildLayers v ?n))))"
    using Suc.IH [OF nl ib nextLevel_hex [OF assms]] by simp
  have "climb v (js_lower (level ! i)) (proofLoop (buildLayers v level) i) =
      climb v (?n ! (i div 2)) (proofLoop (buildLayers v ?n) (i div 2))"
    unfolding proofLoop_buildLayers [OF gt] st [symmetric] using sib by (simp add: js_nth_def Let_def)
  then show ?case using IH last_buildLayers [OF gt] by simp
qed

lemma merkle_proof_complete:
  assumes "hash_lib v" "list_all is_hex32 leaves" "i < length leaves"
  shows "verifyMerkleProof v (leaves ! i) (proofForIndex v leaves i) (root (merkleRoot v leaves)) = Some True"
proof -
  have ne: "leaves \<noteq> []" using assms(3) by auto
  have "list_all is_hex32 (padLevel leaves)"
    using assms(2) ne by (auto simp: padLevel_spec list_all_iff)
  then show ?thesis
    using climb_level [OF assms(1) length_padLevel [OF ne], of i] assms(3) ne length_padLevel [OF ne]
      le_height [of "length leaves"]
    by (simp add: verifyMerkleProof_def proofForIndex_def merkleProof_def merkleRoot_def Let_def padLevel_nth)
qed

section \<open>Binding\<close>

text \<open>The inputs hashed while a proof is climbed.\<close>

fun climb_inputs :: "viem \<Rightarrow> Hex \<Rightarrow> MerkleProofStep list \<Rightarrow> Hex list" where
  "climb_inputs v h [] = []"
| "climb_inputs v h (step # proof) =
     (case sibling step of
        None \<Rightarrow> []
      | Some s0 \<Rightarrow>
          (let x = (if isLeft step then concatHex v [js_lower s0, h] else concatHex v [h, js_lower s0])
           in x # climb_inputs v (js_lower (keccak256 v x)) proof))"

definition path_collision :: "viem \<Rightarrow> Hex list \<Rightarrow> Hex list \<Rightarrow> bool" where
  "path_collision v xs ys \<longleftrightarrow> list_ex (\<lambda>(x, y). collides v x y) (zip xs ys)"

definition hex_step :: "MerkleProofStep \<Rightarrow> bool" where
  "hex_step s \<longleftrightarrow> (case sibling s of None \<Rightarrow> False | Some h \<Rightarrow> is_hex32 h)"

lemma lower_hex_digit: "hex_digit c \<Longrightarrow> hex_digit (lower_char c)"
proof -
  assume c: "hex_digit c"
  have "list_all (\<lambda>c. hex_digit (lower_char c)) ''0123456789abcdefABCDEF''" by code_simp
  then show ?thesis using c by (auto simp: hex_digit_def [of c])
qed

lemma is_hex32_lower [simp]: "is_hex32 h \<Longrightarrow> is_hex32 (js_lower h)"
  by (auto simp: is_hex32_def js_lower_def take_map drop_map list_all_iff lower_hex_digit
      lower_char_def [of "CHR ''0''"] lower_char_def [of "CHR ''x''"])

lemma climb_binding:
  assumes "hash_lib v"
  shows "map isLeft p = map isLeft q \<Longrightarrow> list_all hex_step p \<Longrightarrow> list_all hex_step q \<Longrightarrow>
    is_hex32 a \<Longrightarrow> is_hex32 b \<Longrightarrow> climb v a p = Some r \<Longrightarrow> climb v b q = Some r \<Longrightarrow>
    a = b \<or> path_collision v (climb_inputs v a p) (climb_inputs v b q)"
proof (induction p arbitrary: q a b)
  case Nil
  then show ?case by simp
next
  case (Cons s p)
  then obtain t q' where q: "q = t # q'" by (cases q) auto
  obtain c d where c: "sibling s = Some c" "is_hex32 c" and d: "sibling t = Some d" "is_hex32 d"
    using Cons.prems q by (auto simp: hex_step_def split: option.splits)
  have side: "isLeft t = isLeft s" using Cons.prems(1) q by simp
  define x where "x = (if isLeft s then concatHex v [js_lower c, a] else concatHex v [a, js_lower c])"
  define y where "y = (if isLeft s then concatHex v [js_lower d, b] else concatHex v [b, js_lower d])"
  have kec: "is_hex32 (keccak256 v z)" "js_lower (keccak256 v z) = keccak256 v z" for z
    using assms by (auto simp: hash_lib_def)
  have up: "climb v (keccak256 v x) p = Some r" "climb v (keccak256 v y) q' = Some r"
    using Cons.prems(6,7) q c d side kec(2)
    by (simp_all add: x_def y_def hashPair_def Let_def split: if_splits)
  have ins: "climb_inputs v a (s # p) = x # climb_inputs v (keccak256 v x) p"
    "climb_inputs v b q = y # climb_inputs v (keccak256 v y) q'"
    using q c d side kec(2) by (simp_all add: x_def y_def Let_def)
  have IH: "keccak256 v x = keccak256 v y \<or>
      path_collision v (climb_inputs v (keccak256 v x) p) (climb_inputs v (keccak256 v y) q')"
    using Cons.IH [of q' "keccak256 v x" "keccak256 v y"] Cons.prems(1-3) q kec(1) up by simp
  have "x = y \<Longrightarrow> a = b"
    using hash_lib_concat2 [OF assms is_hex32_lower [OF c(2)] Cons.prems(4) is_hex32_lower [OF d(2)] Cons.prems(5)]
      hash_lib_concat2 [OF assms Cons.prems(4) is_hex32_lower [OF c(2)] Cons.prems(5) is_hex32_lower [OF d(2)]]
    unfolding x_def y_def by (simp split: if_splits)
  then show ?case
    using IH unfolding ins path_collision_def collides_def by auto
qed

lemma hex_step_level:
  assumes "hash_lib v"
  shows "length level = 2 ^ k \<Longrightarrow> i < length level \<Longrightarrow> list_all is_hex32 level \<Longrightarrow>
    list_all hex_step (proofLoop (buildLayers v level) i)"
proof (induction k arbitrary: level i)
  case 0
  then show ?case by (simp add: buildLayers.simps)
next
  case (Suc k)
  have len: "length level = 2 * 2 ^ k" using Suc.prems by simp
  have gt: "1 < length level" unfolding len using one_le_power [of "2 :: nat" k] by linarith
  have sib: "i XOR 1 < length level" using len Suc.prems(2) by (auto simp: xor_one elim!: evenE)
  then have "is_hex32 (level ! (i XOR 1))" using Suc.prems(3) by (simp add: list_all_length)
  moreover have "i div 2 < 2 ^ k" using Suc.prems(2) len by simp
  ultimately show ?case
    using Suc.IH [of "nextLevel v level" "i div 2"] nextLevel_hex [OF assms] sib len gt
    by (simp add: proofLoop_buildLayers js_nth_def hex_step_def)
qed

lemma padLevel_hex: "list_all is_hex32 leaves \<Longrightarrow> list_all is_hex32 (padLevel leaves)"
proof (cases "leaves = []")
  case True
  then show ?thesis by (simp add: padLevel.simps)
next
  case False
  then show "list_all is_hex32 leaves \<Longrightarrow> ?thesis" by (auto simp: padLevel_spec list_all_iff)
qed

lemma hex_step_proof:
  assumes "hash_lib v" "list_all is_hex32 leaves" "i < length leaves"
  shows "list_all hex_step (proofForIndex v leaves i)"
proof -
  have ne: "leaves \<noteq> []" using assms(3) by auto
  then show ?thesis
    using hex_step_level [OF assms(1) length_padLevel [OF ne], of i] padLevel_hex [OF assms(2)]
      length_padLevel [OF ne] le_height [of "length leaves"] assms(3)
    by (simp add: proofForIndex_def merkleProof_def merkleRoot_def Let_def)
qed

lemma merkle_binding:
  assumes "hash_lib v" "list_all is_hex32 leaves" "i < length leaves"
    and "is_hex32 x" "list_all hex_step steps" "map isLeft steps = map isLeft (proofForIndex v leaves i)"
    and "verifyMerkleProof v x steps (root (merkleRoot v leaves)) = Some True"
  shows "js_lower x = js_lower (leaves ! i) \<or>
    path_collision v (climb_inputs v (js_lower x) steps)
      (climb_inputs v (js_lower (leaves ! i)) (proofForIndex v leaves i))"
proof -
  have hx: "is_hex32 (leaves ! i)" using assms(2,3) by (auto simp: list_all_length)
  show ?thesis
    using merkle_proof_complete [OF assms(1-3)] assms(7)
      climb_binding [OF assms(1,6,5) hex_step_proof [OF assms(1-3)] is_hex32_lower [OF assms(4)] is_hex32_lower [OF hx]]
    by (auto simp: verifyMerkleProof_def)
qed

text \<open>C12: Inclusion proofs are complete and binding. For a list of 32-byte leaves and any index in it, the
  proof that \<open>proofForIndex\<close> builds verifies against the root of \<open>merkleRoot\<close>; and if any proof with
  the same left/right path makes another 32-byte leaf verify against that root, then either it is the same
  leaf up to the case of its digits or two hashed nodes on the two paths are an explicit collision of keccak.
  \<open>hash_lib\<close> is the documented behaviour of \<open>keccak256\<close> and \<open>concat\<close>.\<close>

theorem merkle_inclusion:
  assumes "hash_lib v" "list_all is_hex32 leaves" "i < length leaves"
  shows "verifyMerkleProof v (leaves ! i) (proofForIndex v leaves i) (root (merkleRoot v leaves)) = Some True \<and>
    (is_hex32 x \<and> list_all hex_step steps \<and> map isLeft steps = map isLeft (proofForIndex v leaves i) \<and>
     verifyMerkleProof v x steps (root (merkleRoot v leaves)) = Some True \<longrightarrow>
       js_lower x = js_lower (leaves ! i) \<or>
       path_collision v (climb_inputs v (js_lower x) steps)
         (climb_inputs v (js_lower (leaves ! i)) (proofForIndex v leaves i)))"
  using merkle_proof_complete [OF assms] merkle_binding [OF assms] by blast

text \<open>The hypotheses hold for a concrete tree of three leaves.\<close>

definition demo_leaves :: "Hex list" where
  "demo_leaves = map demo_keccak [''a'', ''b'', ''c'']"

theorem merkle_inclusion_witness:
  "verifyMerkleProof demo_viem (demo_leaves ! 2) (proofForIndex demo_viem demo_leaves 2)
     (root (merkleRoot demo_viem demo_leaves)) = Some True"
  using merkle_inclusion [OF demo_viem_hash_lib, of demo_leaves 2]
  by (simp add: demo_leaves_def is_hex32_demo_keccak)

end
