(* ===== verification/Energy.thy ===== *)
theory Energy
  imports Merkle
begin

text \<open>
  \<^verbatim>\<open>services/agent-runtime/src/energy\<close>: the Energy budget of a seat for one hand. A ledger is granted with
  exactly 100, executed operations debit it, background work has to leave a reserve of 12 for the final
  decision while the seat is active, and the end of the hand seals it. The ledger functions are pure in the
  code too; a thrown error is \<open>Inl\<close>, a rejection is the value \<open>DebitErr\<close>, as in the code.
\<close>

section \<open>Costs\<close>

definition ENERGY_POLICY_COMMITMENT_LABEL :: string where
  "ENERGY_POLICY_COMMITMENT_LABEL = ''energy-policy-season1-100-v1''"

definition ENERGY_POLICY_HASH :: "viem \<Rightarrow> Hex" where
  "ENERGY_POLICY_HASH v = keccak256 v (toBytes v ENERGY_POLICY_COMMITMENT_LABEL)"

definition ENERGY_PER_HAND :: int where
  "ENERGY_PER_HAND = 100"

definition MANDATORY_RESERVE :: int where
  "MANDATORY_RESERVE = 12"

definition EnergyOperationType :: "(string \<times> int) list" where
  "EnergyOperationType =
     [(''DETERMINISTIC_INGEST'', 1), (''LIGHT_UPDATE'', 2), (''TIMING_UPDATE'', 3), (''OPPONENT_UPDATE'', 4),
      (''STREET_PLAN'', 5), (''MEMORY_RETRIEVAL'', 6), (''STANDARD_FINAL_DECISION'', 7),
      (''DEEP_FINAL_DECISION'', 8), (''MAXIMUM_FINAL_DECISION'', 9)]"

definition SEASON1_ENERGY_COSTS :: "(int \<times> int) list" where
  "SEASON1_ENERGY_COSTS = [(1, 0), (2, 2), (3, 2), (4, 4), (5, 6), (6, 3), (7, 8), (8, 16), (9, 24)]"

definition FINAL_DECISION_TYPES :: "int list" where
  "FINAL_DECISION_TYPES = [7, 8, 9]"

definition BACKGROUND_OPERATION_TYPES :: "int list" where
  "BACKGROUND_OPERATION_TYPES = [1, 2, 3, 4, 5, 6]"

datatype EnergySpendClass = Background | Final

datatype energy_error =
    UnknownOperationType int | NotBytes32 string | SeatOutOfRange int | StartingEnergy int |
    EnergyEncoding enc_error

definition operationNameOf :: "int \<Rightarrow> energy_error + string" where
  "operationNameOf type =
     (case find (\<lambda>(name, code). code = type) EnergyOperationType of
        Some (name, code) \<Rightarrow> Inr name
      | None \<Rightarrow> Inl (UnknownOperationType type))"

definition costOf :: "int \<Rightarrow> energy_error + int" where
  "costOf type =
     (case map_of SEASON1_ENERGY_COSTS type of Some c \<Rightarrow> Inr c | None \<Rightarrow> Inl (UnknownOperationType type))"

definition combinedFinalDebit :: "int \<Rightarrow> bool \<Rightarrow> energy_error + int" where
  "combinedFinalDebit decisionMode includeMemoryRetrieval =
     bindE (costOf decisionMode) (\<lambda>d.
       if includeMemoryRetrieval then bindE (costOf 6) (\<lambda>m. Inr (d + m)) else Inr (d + 0))"

definition defaultSpendClass :: "int \<Rightarrow> EnergySpendClass" where
  "defaultSpendClass type = (if type \<in> set FINAL_DECISION_TYPES then Final else Background)"

section \<open>Ledgers\<close>

record EnergyLedgerKey =
  lk_sessionId :: Hex
  lk_handId :: Hex
  lk_seat :: int

record EnergyOpInput =
  oi_operationType :: int
  oi_energyDebit :: "js_number option"
  oi_spendClass :: "EnergySpendClass option"
  oi_providerRequestId :: "Hex option"
  oi_observationHash :: Hex
  oi_resultHash :: Hex
  oi_fallbackFlag :: "bool option"
  oi_executed :: "bool option"

record EnergyOpRecord =
  or_opIndex :: nat
  or_operationType :: int
  or_energyDebit :: int
  or_remainingEnergy :: int
  or_providerRequestId :: Hex
  or_observationHash :: Hex
  or_resultHash :: Hex
  or_fallbackFlag :: bool
  or_spendClass :: EnergySpendClass
  or_opHash :: Hex
  or_canonicalBytesHex :: Hex

datatype EnergyLedgerStatus = LOpen | LExpired

record EnergyLedger =
  le_sessionId :: Hex
  le_handId :: Hex
  le_seat :: int
  le_energyPolicyHash :: Hex
  le_startingEnergy :: int
  le_remainingEnergy :: int
  le_seatActive :: bool
  le_status :: EnergyLedgerStatus
  le_ops :: "EnergyOpRecord list"
  le_endingEnergy :: "int option"
  le_opsRoot :: "Hex option"
  le_ledgerHash :: "Hex option"

datatype EnergyDebitRejectReason =
    Ledger_expired | Not_executed | Unknown_operation | Invalid_debit | Overspend | Reserve_breach |
    Starting_energy_invalid

datatype EnergyDebitResult =
    DebitOk EnergyLedger EnergyOpRecord | DebitErr EnergyDebitRejectReason EnergyLedger

record EnergyAffordability =
  af_reason :: "EnergyDebitRejectReason option"
  af_remainingEnergy :: int
  af_requiredReserve :: int
  af_spendable :: int

text \<open>\<open>affordable\<close> is true exactly where the code gives no \<open>reason\<close>.\<close>

definition af_affordable :: "EnergyAffordability \<Rightarrow> bool" where
  "af_affordable a \<longleftrightarrow> af_reason a = None"

section \<open>Hashing\<close>

fun liftEnergy :: "enc_error + 'a \<Rightarrow> energy_error + 'a" where
  "liftEnergy (Inl e) = Inl (EnergyEncoding e)"
| "liftEnergy (Inr x) = Inr x"

lemma liftEnergy_Inr_iff [simp]: "liftEnergy m = Inr x \<longleftrightarrow> m = Inr x"
  by (cases m) auto

definition hashEnergyOp :: "viem \<Rightarrow> EnergyOpFields \<Rightarrow> energy_error + HashResult" where
  "hashEnergyOp v op = liftEnergy (energyOpHash v op)"

definition hashEnergyLedgerHeader :: "viem \<Rightarrow> EnergyLedgerFields \<Rightarrow> energy_error + HashResult" where
  "hashEnergyLedgerHeader v args = liftEnergy (energyLedgerHash v args)"

definition opsMerkleRoot :: "viem \<Rightarrow> Hex list \<Rightarrow> Hex" where
  "opsMerkleRoot v opHashes = root (merkleRoot v opHashes)"

record LedgerHashes =
  lh_opsRoot :: Hex
  lh_ledgerHash :: Hex
  lh_endingEnergy :: int
  lh_header :: HashResult

definition computeLedgerHashes :: "viem \<Rightarrow> EnergyLedger \<Rightarrow> energy_error + LedgerHashes" where
  "computeLedgerHashes v ledger =
     (let endingEnergy = le_remainingEnergy ledger;
          opsRoot = opsMerkleRoot v (map or_opHash (le_ops ledger))
      in bindE (hashEnergyLedgerHeader v
           \<lparr>el_sessionId = le_sessionId ledger, el_handId = le_handId ledger, el_seat = le_seat ledger,
            el_startingEnergy = le_startingEnergy ledger, el_opsRoot = opsRoot, el_endingEnergy = endingEnergy\<rparr>)
         (\<lambda>header. Inr \<lparr>lh_opsRoot = opsRoot, lh_ledgerHash = hash header, lh_endingEnergy = endingEnergy,
                        lh_header = header\<rparr>))"

text \<open>\<open>attachOpHash\<close> is given the record without its two hash fields; here they are empty until it sets them.\<close>

definition attachOpHash :: "viem \<Rightarrow> EnergyLedger \<Rightarrow> EnergyOpRecord \<Rightarrow> energy_error + EnergyOpRecord" where
  "attachOpHash v ledger f =
     bindE (hashEnergyOp v
       \<lparr>eo_sessionId = le_sessionId ledger, eo_handId = le_handId ledger, eo_seat = le_seat ledger,
        eo_opIndex = int (or_opIndex f), eo_operationType = or_operationType f,
        eo_energyDebit = or_energyDebit f, eo_remainingEnergy = or_remainingEnergy f,
        eo_providerRequestId = or_providerRequestId f, eo_observationHash = or_observationHash f,
        eo_resultHash = or_resultHash f, eo_fallbackFlag = or_fallbackFlag f\<rparr>) (\<lambda>h.
       Inr (f\<lparr>or_opHash := hash h, or_canonicalBytesHex := canonicalBytesHex h\<rparr>))"

section \<open>Grant, debit, expire\<close>

definition assertHex32 :: "string \<Rightarrow> Hex \<Rightarrow> energy_error + unit" where
  "assertHex32 label value = (if \<not> is_hex32 value then Inl (NotBytes32 label) else Inr ())"

definition grantHandEnergy ::
  "viem \<Rightarrow> EnergyLedgerKey \<Rightarrow> bool option \<Rightarrow> Hex option \<Rightarrow> energy_error + EnergyLedger" where
  "grantHandEnergy v key seatActive policyHash =
     bindE (assertHex32 ''sessionId'' (lk_sessionId key)) (\<lambda>_.
     bindE (assertHex32 ''handId'' (lk_handId key)) (\<lambda>_.
       if lk_seat key < 0 \<or> 255 < lk_seat key then Inl (SeatOutOfRange (lk_seat key))
       else Inr \<lparr>le_sessionId = js_lower (lk_sessionId key), le_handId = js_lower (lk_handId key),
                 le_seat = lk_seat key,
                 le_energyPolicyHash = js_lower (orElse policyHash (ENERGY_POLICY_HASH v)),
                 le_startingEnergy = ENERGY_PER_HAND, le_remainingEnergy = ENERGY_PER_HAND,
                 le_seatActive = orElse seatActive True, le_status = LOpen, le_ops = [],
                 le_endingEnergy = None, le_opsRoot = None, le_ledgerHash = None\<rparr>))"

definition setSeatActive :: "EnergyLedger \<Rightarrow> bool \<Rightarrow> EnergyLedger" where
  "setSeatActive ledger seatActive =
     (if le_status ledger \<noteq> LOpen then ledger else ledger\<lparr>le_seatActive := seatActive\<rparr>)"

definition spendableBackground :: "EnergyLedger \<Rightarrow> int" where
  "spendableBackground ledger =
     (if le_status ledger \<noteq> LOpen then 0
      else if \<not> le_seatActive ledger then le_remainingEnergy ledger
      else max 0 (le_remainingEnergy ledger - MANDATORY_RESERVE))"

definition spendableFinal :: "EnergyLedger \<Rightarrow> int" where
  "spendableFinal ledger = (if le_status ledger \<noteq> LOpen then 0 else le_remainingEnergy ledger)"

definition requiredReserve :: "EnergyLedger \<Rightarrow> int" where
  "requiredReserve ledger =
     (if le_status ledger \<noteq> LOpen \<or> \<not> le_seatActive ledger then 0 else MANDATORY_RESERVE)"

text \<open>The debit to charge, or why there is none.\<close>

definition resolveDebit :: "int \<Rightarrow> js_number option \<Rightarrow> EnergyDebitRejectReason + int" where
  "resolveDebit operationType energyDebit =
     (case map_of SEASON1_ENERGY_COSTS operationType of
        None \<Rightarrow> Inl Unknown_operation
      | Some table \<Rightarrow>
          (case energyDebit of
             None \<Rightarrow> Inr table
           | Some NonFinite \<Rightarrow> Inl Invalid_debit
           | Some (Finite q) \<Rightarrow>
               if \<not> js_isInteger q \<or> q < 0 \<or> of_int ENERGY_PER_HAND < q then Inl Invalid_debit
               else Inr \<lfloor>q\<rfloor>))"

definition canAfford ::
  "EnergyLedger \<Rightarrow> int \<Rightarrow> js_number option \<Rightarrow> EnergySpendClass option \<Rightarrow> EnergyAffordability" where
  "canAfford ledger operationType energyDebit spendClass0 =
     (let spendClass = orElse spendClass0 (defaultSpendClass operationType);
          spendable = (if spendClass = Final then spendableFinal ledger else spendableBackground ledger);
          answer = (\<lambda>reason s. \<lparr>af_reason = reason, af_remainingEnergy = le_remainingEnergy ledger,
                                af_requiredReserve = requiredReserve ledger, af_spendable = s\<rparr>)
      in if le_status ledger \<noteq> LOpen then answer (Some Ledger_expired) 0
         else if le_startingEnergy ledger \<noteq> ENERGY_PER_HAND then answer (Some Starting_energy_invalid) spendable
         else case resolveDebit operationType energyDebit of
                Inl reason \<Rightarrow> answer (Some reason) spendable
              | Inr debit \<Rightarrow>
                  if le_remainingEnergy ledger < debit then answer (Some Overspend) spendable
                  else if spendClass = Background \<and> le_seatActive ledger \<and>
                          le_remainingEnergy ledger - debit < MANDATORY_RESERVE
                  then answer (Some Reserve_breach) spendable
                  else answer None spendable)"

definition opOf :: "EnergyLedger \<Rightarrow> EnergyOpInput \<Rightarrow> int \<Rightarrow> EnergyOpRecord" where
  "opOf ledger x debit =
     \<lparr>or_opIndex = length (le_ops ledger), or_operationType = oi_operationType x, or_energyDebit = debit,
      or_remainingEnergy = le_remainingEnergy ledger - debit,
      or_providerRequestId = js_lower (orElse (oi_providerRequestId x) ZERO32),
      or_observationHash = js_lower (oi_observationHash x), or_resultHash = js_lower (oi_resultHash x),
      or_fallbackFlag = orElse (oi_fallbackFlag x) False,
      or_spendClass = orElse (oi_spendClass x) (defaultSpendClass (oi_operationType x)),
      or_opHash = [], or_canonicalBytesHex = []\<rparr>"

definition debitEnergy :: "viem \<Rightarrow> EnergyLedger \<Rightarrow> EnergyOpInput \<Rightarrow> energy_error + EnergyDebitResult" where
  "debitEnergy v ledger x =
     (if le_status ledger \<noteq> LOpen then Inr (DebitErr Ledger_expired ledger)
      else if oi_executed x = Some False then Inr (DebitErr Not_executed ledger)
      else
        let spendClass = orElse (oi_spendClass x) (defaultSpendClass (oi_operationType x));
            check = canAfford ledger (oi_operationType x) (oi_energyDebit x) (Some spendClass)
        in case af_reason check of
             Some reason \<Rightarrow> Inr (DebitErr reason ledger)
           | None \<Rightarrow>
               (let debit = (case resolveDebit (oi_operationType x) (oi_energyDebit x) of Inl _ \<Rightarrow> 0 | Inr d \<Rightarrow> d);
                    f = opOf ledger x debit
                in bindE (assertHex32 ''observationHash'' (or_observationHash f)) (\<lambda>_.
                   bindE (assertHex32 ''resultHash'' (or_resultHash f)) (\<lambda>_.
                   bindE (assertHex32 ''providerRequestId'' (or_providerRequestId f)) (\<lambda>_.
                   bindE (attachOpHash v ledger f) (\<lambda>op.
                     Inr (DebitOk (ledger\<lparr>le_remainingEnergy := or_remainingEnergy f, le_ops := le_ops ledger @ [op],
                       le_opsRoot := None, le_ledgerHash := None, le_endingEnergy := None\<rparr>) op)))))))"

definition expireUnusedEnergy :: "viem \<Rightarrow> EnergyLedger \<Rightarrow> energy_error + EnergyLedger" where
  "expireUnusedEnergy v ledger =
     (if le_status ledger = LExpired \<and> le_ledgerHash ledger \<noteq> None then Inr ledger
      else if le_startingEnergy ledger \<noteq> ENERGY_PER_HAND then Inl (StartingEnergy (le_startingEnergy ledger))
      else bindE (computeLedgerHashes v ledger) (\<lambda>h.
        Inr (ledger\<lparr>le_status := LExpired, le_endingEnergy := Some (lh_endingEnergy h),
               le_opsRoot := Some (lh_opsRoot h), le_ledgerHash := Some (lh_ledgerHash h),
               le_remainingEnergy := lh_endingEnergy h\<rparr>)))"

definition startingEnergyForAgentState :: int where
  "startingEnergyForAgentState = ENERGY_PER_HAND"

section \<open>The invariant of a ledger\<close>

definition debits :: "EnergyOpRecord list \<Rightarrow> int" where
  "debits ops = sum_of or_energyDebit ops"

definition ledger_inv :: "EnergyLedger \<Rightarrow> bool" where
  "ledger_inv l \<longleftrightarrow>
     le_startingEnergy l = 100 \<and> 0 \<le> le_remainingEnergy l \<and> le_remainingEnergy l = 100 - debits (le_ops l) \<and>
     (\<forall>i < length (le_ops l). let op = le_ops l ! i in
        or_opIndex op = i \<and> 0 \<le> or_energyDebit op \<and> or_operationType op \<in> fst ` set SEASON1_ENERGY_COSTS \<and>
        or_remainingEnergy op = 100 - debits (take (Suc i) (le_ops l))) \<and>
     (le_status l = LExpired \<longrightarrow> le_ledgerHash l \<noteq> None \<and> le_endingEnergy l = Some (le_remainingEnergy l))"

lemma debits_snoc [simp]: "debits (ops @ [op]) = debits ops + or_energyDebit op"
  by (simp add: debits_def)

lemma debits_Nil [simp]: "debits [] = 0"
  by (simp add: debits_def)

lemma resolveDebit_bounds:
  assumes "resolveDebit ty d = Inr n"
  shows "0 \<le> n \<and> n \<le> 100 \<and> ty \<in> fst ` set SEASON1_ENERGY_COSTS"
proof -
  obtain c where c: "map_of SEASON1_ENERGY_COSTS ty = Some c"
    using assms by (auto simp: resolveDebit_def split: option.splits)
  then have mem: "(ty, c) \<in> set SEASON1_ENERGY_COSTS" by (rule map_of_SomeD)
  then have "0 \<le> c \<and> c \<le> 100" by (auto simp: SEASON1_ENERGY_COSTS_def)
  moreover have "ty \<in> fst ` set SEASON1_ENERGY_COSTS" using mem by force
  ultimately show ?thesis
    using assms c
    by (auto simp: resolveDebit_def ENERGY_PER_HAND_def js_isInteger_def floor_le_iff
        split: option.splits js_number.splits if_splits)
qed

lemma attachOpHash_InrD:
  assumes "attachOpHash v l f = Inr op"
  shows "or_opIndex op = or_opIndex f" "or_operationType op = or_operationType f" "or_energyDebit op = or_energyDebit f"
    "or_remainingEnergy op = or_remainingEnergy f" "or_spendClass op = or_spendClass f"
  using assms by (auto simp: attachOpHash_def)

lemma debitEnergy_okD:
  assumes "debitEnergy v l x = Inr (DebitOk l' op)"
  obtains n where "resolveDebit (oi_operationType x) (oi_energyDebit x) = Inr n"
    "le_status l = LOpen" "oi_executed x \<noteq> Some False" "le_startingEnergy l = 100"
    "n \<le> le_remainingEnergy l"
    "orElse (oi_spendClass x) (defaultSpendClass (oi_operationType x)) = Background \<Longrightarrow> le_seatActive l \<Longrightarrow>
       12 \<le> le_remainingEnergy l - n"
    "attachOpHash v l (opOf l x n) = Inr op"
    "l' = l\<lparr>le_remainingEnergy := le_remainingEnergy l - n, le_ops := le_ops l @ [op], le_opsRoot := None,
       le_ledgerHash := None, le_endingEnergy := None\<rparr>"
proof -
  let ?c = "orElse (oi_spendClass x) (defaultSpendClass (oi_operationType x))"
  have 1: "le_status l = LOpen" "oi_executed x \<noteq> Some False"
    using assms by (auto simp: debitEnergy_def split: if_splits)
  have af: "af_reason (canAfford l (oi_operationType x) (oi_energyDebit x) (Some ?c)) = None"
    using assms 1 by (auto simp: debitEnergy_def Let_def split: option.splits)
  then obtain n where n: "resolveDebit (oi_operationType x) (oi_energyDebit x) = Inr n" "le_startingEnergy l = 100"
      "n \<le> le_remainingEnergy l" "?c = Background \<Longrightarrow> le_seatActive l \<Longrightarrow> 12 \<le> le_remainingEnergy l - n"
    using 1 by (auto simp: canAfford_def Let_def ENERGY_PER_HAND_def MANDATORY_RESERVE_def split: if_splits sum.splits)
  have "attachOpHash v l (opOf l x n) = Inr op \<and> l' = l\<lparr>le_remainingEnergy := le_remainingEnergy l - n,
      le_ops := le_ops l @ [op], le_opsRoot := None, le_ledgerHash := None, le_endingEnergy := None\<rparr>"
    using assms 1 af n(1) by (auto simp: debitEnergy_def Let_def opOf_def)
  then show thesis using that n 1 by blast
qed

lemma debitEnergy_errD: "debitEnergy v l x = Inr (DebitErr r l') \<Longrightarrow> l' = l"
  by (auto simp: debitEnergy_def Let_def split: if_splits option.splits)

inductive energy_step :: "viem \<Rightarrow> EnergyLedger \<Rightarrow> EnergyLedger \<Rightarrow> bool" for v where
  debit: "debitEnergy v l x = Inr (DebitOk l' op) \<Longrightarrow> energy_step v l l'"
| reject: "debitEnergy v l x = Inr (DebitErr r l') \<Longrightarrow> energy_step v l l'"
| activity: "energy_step v l (setSeatActive l b)"
| expire: "expireUnusedEnergy v l = Inr l' \<Longrightarrow> energy_step v l l'"

inductive energy_run :: "viem \<Rightarrow> EnergyLedger \<Rightarrow> EnergyLedger \<Rightarrow> bool" for v where
  start: "energy_run v l l"
| step: "energy_run v l l' \<Longrightarrow> energy_step v l' l'' \<Longrightarrow> energy_run v l l''"

inductive_cases energy_stepE: "energy_step v l l'"

lemma grant_inv: "grantHandEnergy v key a p = Inr l \<Longrightarrow> ledger_inv l"
  by (auto simp: grantHandEnergy_def ledger_inv_def ENERGY_PER_HAND_def split: if_splits)

lemma debit_inv:
  assumes "ledger_inv l" "debitEnergy v l x = Inr (DebitOk l' op)"
  shows "ledger_inv l'"
proof -
  obtain n where n: "resolveDebit (oi_operationType x) (oi_energyDebit x) = Inr n" "le_status l = LOpen"
    "n \<le> le_remainingEnergy l" "attachOpHash v l (opOf l x n) = Inr op"
    "l' = l\<lparr>le_remainingEnergy := le_remainingEnergy l - n, le_ops := le_ops l @ [op], le_opsRoot := None,
       le_ledgerHash := None, le_endingEnergy := None\<rparr>"
    by (rule debitEnergy_okD [OF assms(2)], rule that; assumption)
  have op: "or_opIndex op = length (le_ops l)" "or_operationType op = oi_operationType x" "or_energyDebit op = n"
    "or_remainingEnergy op = le_remainingEnergy l - n"
    using attachOpHash_InrD [OF n(4)] by (simp_all add: opOf_def)
  show ?thesis
    using assms(1) resolveDebit_bounds [OF n(1)] op n(2,3)
    unfolding n(5) ledger_inv_def by (auto simp: nth_append less_Suc_eq Let_def)
qed

lemma expire_cases:
  assumes "expireUnusedEnergy v l = Inr l'"
  shows "l' = l \<and> le_status l = LExpired \<or>
    (\<exists>h. computeLedgerHashes v l = Inr h \<and> l' = l\<lparr>le_status := LExpired, le_endingEnergy := Some (le_remainingEnergy l),
       le_opsRoot := Some (lh_opsRoot h), le_ledgerHash := Some (lh_ledgerHash h)\<rparr>)"
  using assms by (auto simp: expireUnusedEnergy_def computeLedgerHashes_def Let_def split: if_splits)

lemma energy_step_inv: "energy_step v l l' \<Longrightarrow> ledger_inv l \<Longrightarrow> ledger_inv l'"
proof (induction rule: energy_step.induct)
  case (debit l x l' op)
  then show ?case using debit_inv by blast
next
  case (reject l x r l')
  then show ?case using debitEnergy_errD by blast
next
  case (activity l b)
  then show ?case by (simp add: setSeatActive_def ledger_inv_def)
next
  case (expire l l')
  then show ?case using expire_cases [OF expire(1)] by (auto simp: ledger_inv_def)
qed

lemma energy_run_inv: "energy_run v l l' \<Longrightarrow> ledger_inv l \<Longrightarrow> ledger_inv l'"
  by (induction rule: energy_run.induct) (auto intro: energy_step_inv)

lemma energy_step_ops: "energy_step v l l' \<Longrightarrow> \<exists>ys. le_ops l' = le_ops l @ ys"
proof (induction rule: energy_step.induct)
  case (debit l x l' op)
  show ?case by (rule debitEnergy_okD [OF debit]) simp
next
  case (reject l x r l')
  then show ?case using debitEnergy_errD by fastforce
next
  case (activity l b)
  then show ?case by (simp add: setSeatActive_def)
next
  case (expire l l')
  then show ?case using expire_cases [OF expire] by auto
qed

lemma sealed_step:
  assumes "energy_step v l l'" "le_status l = LExpired" "ledger_inv l"
  shows "l' = l"
  using assms
  by (auto elim!: energy_stepE simp: debitEnergy_def setSeatActive_def expireUnusedEnergy_def ledger_inv_def)

lemma sealed_run: "energy_run v l l' \<Longrightarrow> le_status l = LExpired \<Longrightarrow> ledger_inv l \<Longrightarrow> l' = l"
  by (induction rule: energy_run.induct) (auto dest: sealed_step)

lemma energy_run_ops: "energy_run v l l' \<Longrightarrow> \<exists>ys. le_ops l' = le_ops l @ ys"
proof (induction rule: energy_run.induct)
  case (step l l' l'')
  then show ?case using energy_step_ops by fastforce
qed simp

text \<open>Background thinking of an active seat: executed debits of the background class.\<close>

inductive think :: "viem \<Rightarrow> EnergyLedger \<Rightarrow> EnergyLedger \<Rightarrow> bool" for v where
  idle: "think v l l"
| work: "think v l l' \<Longrightarrow> debitEnergy v l' x = Inr (DebitOk l'' op) \<Longrightarrow> or_spendClass op = Background \<Longrightarrow> think v l l''"

lemma think_reserve:
  "think v l l' \<Longrightarrow> le_seatActive l \<Longrightarrow> le_status l = LOpen \<Longrightarrow> le_startingEnergy l = 100 \<Longrightarrow> 12 \<le> le_remainingEnergy l \<Longrightarrow>
     le_seatActive l' \<and> le_status l' = LOpen \<and> le_startingEnergy l' = 100 \<and> 12 \<le> le_remainingEnergy l'"
proof (induction rule: think.induct)
  case (work l l' x l'' op)
  obtain n where n: "orElse (oi_spendClass x) (defaultSpendClass (oi_operationType x)) = Background \<Longrightarrow>
      le_seatActive l' \<Longrightarrow> 12 \<le> le_remainingEnergy l' - n" "attachOpHash v l' (opOf l' x n) = Inr op"
    "l'' = l'\<lparr>le_remainingEnergy := le_remainingEnergy l' - n, le_ops := le_ops l' @ [op], le_opsRoot := None,
       le_ledgerHash := None, le_endingEnergy := None\<rparr>"
    by (rule debitEnergy_okD [OF work(2)], rule that; assumption)
  then show ?case using work attachOpHash_InrD(5) [OF n(2)] by (simp add: opOf_def)
qed simp

text \<open>The conditions under which an executed operation is charged \<open>n\<close>.\<close>

definition chargeable :: "EnergyLedger \<Rightarrow> EnergyOpInput \<Rightarrow> int \<Rightarrow> bool" where
  "chargeable l x n \<longleftrightarrow> le_status l = LOpen \<and> oi_executed x \<noteq> Some False \<and>
     resolveDebit (oi_operationType x) (oi_energyDebit x) = Inr n \<and> n \<le> le_remainingEnergy l \<and>
     (orElse (oi_spendClass x) (defaultSpendClass (oi_operationType x)) = Background \<and> le_seatActive l \<longrightarrow>
        12 \<le> le_remainingEnergy l - n)"

definition op_hashes_ok :: "viem \<Rightarrow> EnergyLedger \<Rightarrow> EnergyOpInput \<Rightarrow> bool" where
  "op_hashes_ok v l x \<longleftrightarrow> is_hex32 (oi_observationHash x) \<and> is_hex32 (oi_resultHash x) \<and>
     is_hex32 (orElse (oi_providerRequestId x) ZERO32) \<and> (\<forall>f. isOk (attachOpHash v l f))"

lemma debitEnergy_chargeable:
  assumes "le_startingEnergy l = 100" "op_hashes_ok v l x" "chargeable l x n"
  shows "\<exists>op. debitEnergy v l x = Inr (DebitOk (l\<lparr>le_remainingEnergy := le_remainingEnergy l - n,
    le_ops := le_ops l @ [op], le_opsRoot := None, le_ledgerHash := None, le_endingEnergy := None\<rparr>) op) \<and>
    or_energyDebit op = n"
proof -
  obtain op where op: "attachOpHash v l (opOf l x n) = Inr op"
    using assms(2) unfolding op_hashes_ok_def isOk_iff by blast
  have hx: "is_hex32 (or_observationHash (opOf l x n))" "is_hex32 (or_resultHash (opOf l x n))"
    "is_hex32 (or_providerRequestId (opOf l x n))"
    using assms(2) by (simp_all add: op_hashes_ok_def opOf_def)
  have "af_reason (canAfford l (oi_operationType x) (oi_energyDebit x)
      (Some (orElse (oi_spendClass x) (defaultSpendClass (oi_operationType x))))) = None"
    using assms(1,3) by (auto simp: canAfford_def Let_def chargeable_def ENERGY_PER_HAND_def MANDATORY_RESERVE_def)
  then show ?thesis
    using assms(3) op hx attachOpHash_InrD(3) [OF op]
    by (auto simp: debitEnergy_def Let_def chargeable_def assertHex32_def opOf_def)
qed

lemma debitEnergy_not_chargeable:
  assumes "le_startingEnergy l = 100" "\<And>n. \<not> chargeable l x n"
  shows "\<exists>r. debitEnergy v l x = Inr (DebitErr r l)"
proof -
  have "af_reason (canAfford l (oi_operationType x) (oi_energyDebit x)
      (Some (orElse (oi_spendClass x) (defaultSpendClass (oi_operationType x))))) \<noteq> None"
    if "le_status l = LOpen" "oi_executed x \<noteq> Some False"
  proof (cases "resolveDebit (oi_operationType x) (oi_energyDebit x)")
    case (Inl r)
    then show ?thesis using assms(1) that by (simp add: canAfford_def Let_def ENERGY_PER_HAND_def)
  next
    case (Inr n)
    then show ?thesis
      using assms(1) assms(2) [of n] that
      by (auto simp: canAfford_def Let_def chargeable_def ENERGY_PER_HAND_def MANDATORY_RESERVE_def)
  qed
  then show ?thesis by (auto simp: debitEnergy_def Let_def)
qed

section \<open>Properties\<close>

text \<open>C16: The Energy books always balance. From a granted ledger, through any sequence of debits, rejections,
  activity changes and expiry, the remaining Energy is 100 less the recorded debits and never negative, every
  record carries its index and the balance after it, records are never dropped or rewritten, and once the hand
  is sealed nothing changes the ledger any more.\<close>

theorem energy_books_balance:
  assumes "grantHandEnergy v key a p = Inr l0" "energy_run v l0 l" "energy_run v l l'"
  shows "le_remainingEnergy l = 100 - sum_of or_energyDebit (le_ops l) \<and> 0 \<le> le_remainingEnergy l \<and>
    (\<forall>i < length (le_ops l). or_opIndex (le_ops l ! i) = i \<and> 0 \<le> or_energyDebit (le_ops l ! i) \<and>
       or_remainingEnergy (le_ops l ! i) = 100 - sum_of or_energyDebit (take (Suc i) (le_ops l))) \<and>
    take (length (le_ops l)) (le_ops l') = le_ops l \<and>
    (le_status l = LExpired \<longrightarrow> l' = l \<and> le_endingEnergy l = Some (le_remainingEnergy l))"
proof -
  have inv: "ledger_inv l" by (rule energy_run_inv [OF assms(2) grant_inv [OF assms(1)]])
  obtain ys where "le_ops l' = le_ops l @ ys" using energy_run_ops [OF assms(3)] by blast
  then show ?thesis
    using inv sealed_run [OF assms(3)] unfolding ledger_inv_def debits_def Let_def by auto
qed


definition demo_key :: EnergyLedgerKey where
  "demo_key = \<lparr>lk_sessionId = ZERO32, lk_handId = ZERO32, lk_seat = 3\<rparr>"

definition demo_op :: "int \<Rightarrow> EnergyOpInput" where
  "demo_op ty = \<lparr>oi_operationType = ty, oi_energyDebit = None, oi_spendClass = None, oi_providerRequestId = None,
     oi_observationHash = ZERO32, oi_resultHash = ZERO32, oi_fallbackFlag = None, oi_executed = None\<rparr>"

definition demo_ledger :: EnergyLedger where
  "demo_ledger = (case grantHandEnergy demo_viem demo_key None None of
     Inr l \<Rightarrow> l | Inl _ \<Rightarrow> undefined)"

lemma demo_grant: "grantHandEnergy demo_viem demo_key None None = Inr demo_ledger"
proof -
  have "isOk (grantHandEnergy demo_viem demo_key None None)"
    by (simp add: grantHandEnergy_def demo_key_def assertHex32_def)
  then show ?thesis by (auto simp: isOk_iff demo_ledger_def)
qed

lemma demo_op_hashes: "op_hashes_ok demo_viem l (demo_op ty)"
  by (simp add: op_hashes_ok_def demo_op_def attachOpHash_def hashEnergyOp_def energyOpHash_def hashEnc_def demo_viem_def)

lemma demo_debit:
  assumes "ledger_inv l" "chargeable l (demo_op ty) n"
  shows "\<exists>l' op. debitEnergy demo_viem l (demo_op ty) = Inr (DebitOk l' op) \<and> or_energyDebit op = n \<and>
    le_remainingEnergy l' = le_remainingEnergy l - n"
  using debitEnergy_chargeable [OF _ demo_op_hashes assms(2)] assms(1) by (fastforce simp: ledger_inv_def)

lemma demo_ledger_facts:
  "ledger_inv demo_ledger" "le_status demo_ledger = LOpen" "le_remainingEnergy demo_ledger = 100"
proof -
  show "ledger_inv demo_ledger" by (rule grant_inv [OF demo_grant])
  show "le_status demo_ledger = LOpen" "le_remainingEnergy demo_ledger = 100"
    by (simp_all add: demo_ledger_def grantHandEnergy_def ENERGY_PER_HAND_def demo_key_def assertHex32_def)
qed

lemma demo_chargeable: "chargeable demo_ledger (demo_op 5) 6"
  using demo_ledger_facts(2,3) by (simp add: chargeable_def demo_op_def) code_simp

theorem energy_books_balance_witness:
  "\<exists>l. energy_run demo_viem demo_ledger l \<and> le_remainingEnergy l = 94 \<and> sum_of or_energyDebit (le_ops l) = 6"
proof -
  obtain l op where l: "debitEnergy demo_viem demo_ledger (demo_op 5) = Inr (DebitOk l op)" "le_remainingEnergy l = 94"
    using demo_debit [OF demo_ledger_facts(1) demo_chargeable] demo_ledger_facts(3) by auto
  have "energy_run demo_viem demo_ledger l"
    using energy_run.step [OF energy_run.start energy_step.debit [OF l(1)]] .
  then show ?thesis
    using energy_books_balance [OF demo_grant _ energy_run.start, of l] l(2) by auto
qed


text \<open>Exactly the affordable operations are charged. For well-formed hashes, an operation is charged if and
  only if the ledger is open, the call was executed, the operation is known with an integral debit of at most
  100, the debit is covered, and background work of an active seat leaves 12; it then costs exactly its debit.
  In every other case the ledger is returned unchanged with a reason, in particular for calls that were never
  executed.\<close>

theorem debit_exact:
  assumes "ledger_inv l" "op_hashes_ok v l x"
  shows "(\<forall>n. chargeable l x n \<longrightarrow>
      (\<exists>l' op. debitEnergy v l x = Inr (DebitOk l' op) \<and> or_energyDebit op = n \<and>
         le_remainingEnergy l' = le_remainingEnergy l - n \<and> le_ops l' = le_ops l @ [op])) \<and>
    ((\<nexists>n. chargeable l x n) \<longrightarrow> (\<exists>r. debitEnergy v l x = Inr (DebitErr r l))) \<and>
    (oi_executed x = Some False \<longrightarrow> (\<nexists>l' op. debitEnergy v l x = Inr (DebitOk l' op)))"
proof (intro conjI allI impI)
  have st: "le_startingEnergy l = 100" using assms(1) by (simp add: ledger_inv_def)
  show "\<exists>l' op. debitEnergy v l x = Inr (DebitOk l' op) \<and> or_energyDebit op = n \<and>
      le_remainingEnergy l' = le_remainingEnergy l - n \<and> le_ops l' = le_ops l @ [op]" if "chargeable l x n" for n
    using debitEnergy_chargeable [OF st assms(2) that] by fastforce
  show "\<exists>r. debitEnergy v l x = Inr (DebitErr r l)" if "\<nexists>n. chargeable l x n"
    using debitEnergy_not_chargeable [OF st] that by blast
  show "\<nexists>l' op. debitEnergy v l x = Inr (DebitOk l' op)" if "oi_executed x = Some False"
    using that by (auto elim: debitEnergy_okD)
qed

theorem debit_exact_witness:
  "\<exists>l' op. debitEnergy demo_viem demo_ledger (demo_op 5) = Inr (DebitOk l' op) \<and> or_energyDebit op = 6 \<and>
     le_remainingEnergy l' = 94"
  using debit_exact [OF demo_ledger_facts(1) demo_op_hashes, of 5] demo_chargeable demo_ledger_facts(3) by fastforce

end
