(* ===== verification/Energy_Store.thy ===== *)
theory Energy_Store
  imports Energy
begin

text \<open>
  \<^verbatim>\<open>services/agent-runtime/src/energy/store.ts\<close> and \<^verbatim>\<open>memory-store.ts\<close>: snapshots of ledgers by session, hand, seat
  and policy. The interface is the locale \<open>ledger_store\<close>; the in-memory store, a \<open>Map\<close> from the joined key
  string to the ledger, implements it. A JSON clone of a ledger is the ledger. The order in which
  \<open>localeCompare\<close> lists keys is a parameter.
\<close>

record EnergyLedgerStoreKey =
  sk_sessionId :: Hex
  sk_handId :: Hex
  sk_seat :: int
  sk_energyPolicyHash :: Hex

definition energyLedgerStoreKeyOf :: "EnergyLedger \<Rightarrow> EnergyLedgerStoreKey" where
  "energyLedgerStoreKeyOf l =
     \<lparr>sk_sessionId = le_sessionId l, sk_handId = le_handId l, sk_seat = le_seat l,
      sk_energyPolicyHash = le_energyPolicyHash l\<rparr>"

definition energyLedgerKeyToString :: "EnergyLedgerStoreKey \<Rightarrow> string" where
  "energyLedgerKeyToString k =
     js_lower (sk_sessionId k) @ '':'' @ js_lower (sk_handId k) @ '':'' @ int_string (sk_seat k) @ '':'' @
     js_lower (sk_energyPolicyHash k)"

type_synonym ledger_map = "(string \<times> EnergyLedger) list"

definition store_get :: "ledger_map \<Rightarrow> EnergyLedgerStoreKey \<Rightarrow> EnergyLedger option" where
  "store_get m k = map_of m (energyLedgerKeyToString k)"

definition lowerLedger :: "EnergyLedger \<Rightarrow> EnergyLedger" where
  "lowerLedger l = l\<lparr>le_sessionId := js_lower (le_sessionId l), le_handId := js_lower (le_handId l),
     le_energyPolicyHash := js_lower (le_energyPolicyHash l)\<rparr>"

definition store_put :: "ledger_map \<Rightarrow> EnergyLedger \<Rightarrow> EnergyLedger \<times> ledger_map" where
  "store_put m l =
     (let next = lowerLedger l
      in (next, AList.update (energyLedgerKeyToString (energyLedgerStoreKeyOf next)) next m))"

definition store_delete :: "ledger_map \<Rightarrow> EnergyLedgerStoreKey \<Rightarrow> bool \<times> ledger_map" where
  "store_delete m k =
     (map_of m (energyLedgerKeyToString k) \<noteq> None, AList.delete (energyLedgerKeyToString k) m)"

definition store_listKeys ::
  "(string \<Rightarrow> string \<Rightarrow> int) \<Rightarrow> ledger_map \<Rightarrow> Hex option \<Rightarrow> EnergyLedgerStoreKey list" where
  "store_listKeys localeCompare m sessionId =
     js_sort (\<lambda>a b. localeCompare (energyLedgerKeyToString a) (energyLedgerKeyToString b))
       (map energyLedgerStoreKeyOf
         (filter (\<lambda>l. case sessionId of None \<Rightarrow> True | Some s \<Rightarrow> js_lower (le_sessionId l) = js_lower s)
           (map snd m)))"

section \<open>Keys\<close>

text \<open>Two keys name the same slot when they agree up to the case of digits. On 32-byte keys the joined string
  tells slots apart.\<close>

definition key_norm :: "EnergyLedgerStoreKey \<Rightarrow> EnergyLedgerStoreKey" where
  "key_norm k = k\<lparr>sk_sessionId := js_lower (sk_sessionId k), sk_handId := js_lower (sk_handId k),
     sk_energyPolicyHash := js_lower (sk_energyPolicyHash k)\<rparr>"

definition key_ok :: "EnergyLedgerStoreKey \<Rightarrow> bool" where
  "key_ok k \<longleftrightarrow> is_hex32 (sk_sessionId k) \<and> is_hex32 (sk_handId k) \<and> is_hex32 (sk_energyPolicyHash k) \<and> 0 \<le> sk_seat k"

lemma energyLedgerKeyToString_inj:
  assumes "key_ok k" "key_ok k'" "energyLedgerKeyToString k = energyLedgerKeyToString k'"
  shows "key_norm k = key_norm k'"
proof -
  have len: "length (js_lower (sk_sessionId x)) = 66" "length (js_lower (sk_handId x)) = 66"
    "length (js_lower (sk_energyPolicyHash x)) = 66" if "key_ok x" for x
    using that by (simp_all add: key_ok_def is_hex32_def)
  have 1: "js_lower (sk_sessionId k) = js_lower (sk_sessionId k')"
    "js_lower (sk_handId k) = js_lower (sk_handId k')"
    and 2: "int_string (sk_seat k) @ '':'' @ js_lower (sk_energyPolicyHash k) =
      int_string (sk_seat k') @ '':'' @ js_lower (sk_energyPolicyHash k')"
    using assms(3) len [OF assms(1)] len [OF assms(2)] by (auto simp: energyLedgerKeyToString_def)
  have "int_string (sk_seat k) = int_string (sk_seat k') \<and>
      '':'' @ js_lower (sk_energyPolicyHash k) = '':'' @ js_lower (sk_energyPolicyHash k')"
    using 2 len(3) [OF assms(1)] len(3) [OF assms(2)] by (intro append_eq_append_conv [THEN iffD1]) auto
  moreover have "nat_string (nat (sk_seat k)) = nat_string (nat (sk_seat k')) \<Longrightarrow> sk_seat k = sk_seat k'"
    using digits_value_nat_string assms(1,2) by (metis key_ok_def nat_0_le)
  ultimately show ?thesis
    using 1 assms(1,2) by (cases k; cases k') (auto simp: key_norm_def int_string_def key_ok_def)
qed

section \<open>The interface\<close>

locale ledger_store =
  fixes get :: "'m \<Rightarrow> EnergyLedgerStoreKey \<Rightarrow> EnergyLedger option"
    and put :: "'m \<Rightarrow> EnergyLedger \<Rightarrow> EnergyLedger \<times> 'm"
    and delete :: "'m \<Rightarrow> EnergyLedgerStoreKey \<Rightarrow> bool \<times> 'm"
  assumes put_result: "fst (put m l) = lowerLedger l"
    and get_put_same: "key_norm k = key_norm (energyLedgerStoreKeyOf l) \<Longrightarrow> get (snd (put m l)) k = Some (lowerLedger l)"
    and get_put_other: "key_ok k \<Longrightarrow> key_ok (energyLedgerStoreKeyOf l) \<Longrightarrow>
      key_norm k \<noteq> key_norm (energyLedgerStoreKeyOf l) \<Longrightarrow> get (snd (put m l)) k = get m k"
    and delete_same: "get (snd (delete m k)) k = None"
    and delete_found: "fst (delete m k) \<longleftrightarrow> get m k \<noteq> None"
begin

text \<open>Writing what was read back changes nothing a reader can see.\<close>

lemma reload_put:
  assumes "get (snd (put m l)) (energyLedgerStoreKeyOf l) = Some l'"
  shows "l' = lowerLedger l \<and> get (snd (put (snd (put m l)) l')) (energyLedgerStoreKeyOf l) = Some l'"
proof -
  have l': "l' = lowerLedger l" using assms get_put_same by simp
  moreover have "key_norm (energyLedgerStoreKeyOf l) = key_norm (energyLedgerStoreKeyOf (lowerLedger l))"
    by (simp add: key_norm_def energyLedgerStoreKeyOf_def lowerLedger_def)
  moreover have "lowerLedger (lowerLedger l) = lowerLedger l" by (simp add: lowerLedger_def)
  ultimately show ?thesis using get_put_same by metis
qed

end

lemma keyString_norm: "key_norm k = key_norm k' \<Longrightarrow> energyLedgerKeyToString k = energyLedgerKeyToString k'"
  by (cases k; cases k') (simp add: key_norm_def energyLedgerKeyToString_def)

lemma key_norm_lowerLedger: "key_norm (energyLedgerStoreKeyOf (lowerLedger l)) = key_norm (energyLedgerStoreKeyOf l)"
  by (simp add: key_norm_def energyLedgerStoreKeyOf_def lowerLedger_def)

interpretation mem: ledger_store store_get store_put store_delete
proof unfold_locales
  fix m l k
  have s: "energyLedgerKeyToString (energyLedgerStoreKeyOf (lowerLedger l)) =
      energyLedgerKeyToString (energyLedgerStoreKeyOf l)"
    by (rule keyString_norm [OF key_norm_lowerLedger])
  show "fst (store_put m l) = lowerLedger l" by (simp add: store_put_def Let_def)
  show "store_get (snd (store_put m l)) k = Some (lowerLedger l)" if "key_norm k = key_norm (energyLedgerStoreKeyOf l)"
    using keyString_norm [OF that] s by (simp add: store_get_def store_put_def Let_def update_conv')
  show "store_get (snd (store_put m l)) k = store_get m k"
    if "key_ok k" "key_ok (energyLedgerStoreKeyOf l)" "key_norm k \<noteq> key_norm (energyLedgerStoreKeyOf l)"
    using energyLedgerKeyToString_inj [OF that(1,2)] that(3) s
    by (auto simp: store_get_def store_put_def Let_def update_conv')
  show "store_get (snd (store_delete m k)) k = None"
    by (simp add: store_get_def store_delete_def delete_conv')
  show "fst (store_delete m k) \<longleftrightarrow> store_get m k \<noteq> None"
    by (simp add: store_get_def store_delete_def)
qed

text \<open>The ledger store keeps every ledger apart. After a put, reading the same slot in any spelling of its hex
  keys returns the stored ledger, reading any other well-formed slot is unaffected, putting back what was read
  is idempotent, and a deleted slot is empty.\<close>

theorem ledger_store_roundtrip:
  assumes "key_ok (energyLedgerStoreKeyOf l)" "key_ok k"
  shows "store_get (snd (store_put m l)) k =
      (if key_norm k = key_norm (energyLedgerStoreKeyOf l) then Some (lowerLedger l) else store_get m k) \<and>
    snd (store_put (snd (store_put m l)) (lowerLedger l)) = snd (store_put m l) \<and>
    store_get (snd (store_delete m k)) k = None"
proof -
  have "energyLedgerKeyToString (energyLedgerStoreKeyOf (lowerLedger (lowerLedger l))) =
      energyLedgerKeyToString (energyLedgerStoreKeyOf (lowerLedger l))" "lowerLedger (lowerLedger l) = lowerLedger l"
    by (simp_all add: lowerLedger_def)
  then have "snd (store_put (snd (store_put m l)) (lowerLedger l)) = snd (store_put m l)"
    by (simp add: store_put_def Let_def)
  then show ?thesis using mem.get_put_same mem.get_put_other assms mem.delete_same by simp
qed

theorem ledger_store_roundtrip_witness:
  "store_get (snd (store_put [] demo_ledger)) (energyLedgerStoreKeyOf demo_ledger) = Some (lowerLedger demo_ledger)"
proof -
  have "key_ok (energyLedgerStoreKeyOf demo_ledger)"
    by (simp add: key_ok_def energyLedgerStoreKeyOf_def demo_ledger_def grantHandEnergy_def demo_key_def
        assertHex32_def ENERGY_POLICY_HASH_def demo_viem_def is_hex32_demo_keccak lower_demo_keccak)
  then show ?thesis using ledger_store_roundtrip by simp
qed

end
