(* ===== verification/Lease.thy ===== *)
theory Lease
  imports Mz_Prelude
begin

text \<open>
  \<^verbatim>\<open>services/game-server/src/lease\<close>: one writer per table. A backend keeps a lease record per table
  (\<^verbatim>\<open>memory-store.ts\<close>), a manager per process acquires, renews and releases leases and refuses to act on one
  that ran out (\<^verbatim>\<open>manager.ts\<close>), and a new holder replays the durable events to find the tip
  (\<^verbatim>\<open>recovery.ts\<close>). Clock readings are arguments. The managers of a process share a clock and a backend, and
  an operation of the in-memory backend runs to its end before another one starts, so a run of the system is a
  sequence of such operations in any order.
\<close>

section \<open>The backend\<close>

record LeaseRecord =
  lr_tableId :: string
  lr_actorInstanceId :: string
  lr_leaseVersion :: int
  lr_expiresAt :: int

datatype fail_reason = Held_by_other | Version_mismatch | Store_unavailable

datatype AcquireResult = AcquireOk LeaseRecord bool | AcquireFail fail_reason "LeaseRecord option"

type_synonym leases = "(string \<times> LeaseRecord) list"

definition mem_expire :: "leases \<Rightarrow> string \<Rightarrow> int \<Rightarrow> leases" where
  "mem_expire s tableId now =
     (case map_of s tableId of
        None \<Rightarrow> s
      | Some cur \<Rightarrow> AList.update tableId (cur\<lparr>lr_expiresAt := now - 1\<rparr>) s)"

definition mem_get :: "leases \<Rightarrow> string \<Rightarrow> int \<Rightarrow> LeaseRecord option \<times> leases" where
  "mem_get s tableId now =
     (case map_of s tableId of
        None \<Rightarrow> (None, s)
      | Some cur \<Rightarrow> if lr_expiresAt cur \<le> now then (None, AList.delete tableId s) else (Some cur, s))"

definition mem_tryAcquire :: "leases \<Rightarrow> string \<Rightarrow> string \<Rightarrow> int \<Rightarrow> int \<Rightarrow> AcquireResult \<times> leases" where
  "mem_tryAcquire s tableId actorInstanceId ttlMs now =
     (let cur = map_of s tableId;
          lease = (\<lambda>version. \<lparr>lr_tableId = tableId, lr_actorInstanceId = actorInstanceId,
                              lr_leaseVersion = version, lr_expiresAt = now + ttlMs\<rparr>);
          grant = (\<lambda>version reclaimed. (AcquireOk (lease version) reclaimed, AList.update tableId (lease version) s))
      in case cur of
           None \<Rightarrow> grant 1 False
         | Some c \<Rightarrow>
             if now < lr_expiresAt c then
               if lr_actorInstanceId c = actorInstanceId then grant (lr_leaseVersion c + 1) False
               else (AcquireFail Held_by_other (Some c), s)
             else grant (lr_leaseVersion c + 1) True)"

definition mem_renew :: "leases \<Rightarrow> string \<Rightarrow> string \<Rightarrow> int \<Rightarrow> int \<Rightarrow> int \<Rightarrow> AcquireResult \<times> leases" where
  "mem_renew s tableId actorInstanceId expectedVersion ttlMs now =
     (case map_of s tableId of
        None \<Rightarrow> (AcquireFail Version_mismatch None, s)
      | Some cur \<Rightarrow>
          if lr_expiresAt cur \<le> now then (AcquireFail Version_mismatch None, s)
          else if lr_actorInstanceId cur \<noteq> actorInstanceId \<or> lr_leaseVersion cur \<noteq> expectedVersion then
            (AcquireFail (if lr_actorInstanceId cur \<noteq> actorInstanceId then Held_by_other else Version_mismatch)
               (Some cur), s)
          else
            let lease = \<lparr>lr_tableId = tableId, lr_actorInstanceId = actorInstanceId,
                         lr_leaseVersion = lr_leaseVersion cur + 1, lr_expiresAt = now + ttlMs\<rparr>
            in (AcquireOk lease False, AList.update tableId lease s))"

definition mem_release :: "leases \<Rightarrow> string \<Rightarrow> string \<Rightarrow> int option \<Rightarrow> bool \<times> leases" where
  "mem_release s tableId actorInstanceId expectedVersion =
     (case map_of s tableId of
        None \<Rightarrow> (False, s)
      | Some cur \<Rightarrow>
          if lr_actorInstanceId cur \<noteq> actorInstanceId then (False, s)
          else if expectedVersion \<noteq> None \<and> expectedVersion \<noteq> Some (lr_leaseVersion cur) then (False, s)
          else (True, AList.delete tableId s))"

section \<open>The manager\<close>

datatype lease_error = Table_lease_not_held | Table_lease_expired | Table_lease_store_unavailable

record TableActorLeaseManager =
  tm_actorInstanceId :: string
  tm_ttlMs :: int
  tm_waitPollMs :: int
  tm_held :: "(string \<times> LeaseRecord) list"

definition getHeld :: "TableActorLeaseManager \<Rightarrow> string \<Rightarrow> LeaseRecord option" where
  "getHeld m tableId = map_of (tm_held m) tableId"

definition assertHeld ::
  "TableActorLeaseManager \<Rightarrow> string \<Rightarrow> int \<Rightarrow> (lease_error + LeaseRecord) \<times> TableActorLeaseManager" where
  "assertHeld m tableId now =
     (case map_of (tm_held m) tableId of
        None \<Rightarrow> (Inl Table_lease_not_held, m)
      | Some lease \<Rightarrow>
          if lr_expiresAt lease \<le> now
          then (Inl Table_lease_expired, m\<lparr>tm_held := AList.delete tableId (tm_held m)\<rparr>)
          else (Inr lease, m))"

text \<open>One round of the loop of \<open>acquire\<close>, with the readings of the clock it takes in order.\<close>

datatype acquire_round = Acquired LeaseRecord | GaveUp | Unavailable lease_error | SleepFor int

definition acquireRound ::
  "TableActorLeaseManager \<Rightarrow> leases \<Rightarrow> string \<Rightarrow> int \<Rightarrow> int \<Rightarrow> int \<Rightarrow> int \<Rightarrow> int \<Rightarrow>
     acquire_round \<times> TableActorLeaseManager \<times> leases" where
  "acquireRound m s tableId deadline t1 t2 t3 t4 =
     (case mem_tryAcquire s tableId (tm_actorInstanceId m) (tm_ttlMs m) t1 of
        (AcquireOk lease reclaimed, s') \<Rightarrow>
          (Acquired lease, m\<lparr>tm_held := AList.update tableId lease (tm_held m)\<rparr>, s')
      | (AcquireFail reason holder, s') \<Rightarrow>
          if reason = Store_unavailable then (Unavailable Table_lease_store_unavailable, m, s')
          else if deadline \<le> t2 then (GaveUp, m, s')
          else
            let sleepFor = (case holder of
                  Some h \<Rightarrow> if lr_expiresAt h = 0 then tm_waitPollMs m
                            else min (tm_waitPollMs m) (max 1 (lr_expiresAt h - t3 + 1))
                | None \<Rightarrow> tm_waitPollMs m)
            in (SleepFor (min sleepFor (max 1 (deadline - t4))), m, s'))"

definition renewLease ::
  "TableActorLeaseManager \<Rightarrow> leases \<Rightarrow> string \<Rightarrow> int \<Rightarrow> LeaseRecord option \<times> TableActorLeaseManager \<times> leases" where
  "renewLease m s tableId now =
     (case map_of (tm_held m) tableId of
        None \<Rightarrow> (None, m, s)
      | Some cur \<Rightarrow>
          (case mem_renew s tableId (tm_actorInstanceId m) (lr_leaseVersion cur) (tm_ttlMs m) now of
             (AcquireOk lease reclaimed, s') \<Rightarrow>
               (Some lease, m\<lparr>tm_held := AList.update tableId lease (tm_held m)\<rparr>, s')
           | (AcquireFail reason holder, s') \<Rightarrow> (None, m\<lparr>tm_held := AList.delete tableId (tm_held m)\<rparr>, s')))"

text \<open>\<open>release\<close> in its two parts: the call to the backend, and what follows it once that has returned.\<close>

definition releaseBackend :: "TableActorLeaseManager \<Rightarrow> leases \<Rightarrow> string \<Rightarrow> leases" where
  "releaseBackend m s tableId =
     (case map_of (tm_held m) tableId of
        None \<Rightarrow> s
      | Some cur \<Rightarrow> snd (mem_release s tableId (tm_actorInstanceId m) (Some (lr_leaseVersion cur))))"

definition releaseLocal :: "TableActorLeaseManager \<Rightarrow> string \<Rightarrow> TableActorLeaseManager" where
  "releaseLocal m tableId = m\<lparr>tm_held := AList.delete tableId (tm_held m)\<rparr>"

definition releaseLease :: "TableActorLeaseManager \<Rightarrow> leases \<Rightarrow> string \<Rightarrow> TableActorLeaseManager \<times> leases" where
  "releaseLease m s tableId = (releaseLocal m tableId, releaseBackend m s tableId)"

fun releaseMany :: "TableActorLeaseManager \<Rightarrow> leases \<Rightarrow> string list \<Rightarrow> TableActorLeaseManager \<times> leases" where
  "releaseMany m s [] = (m, s)"
| "releaseMany m s (t # ts) = (let (m', s') = releaseLease m s t in releaseMany m' s' ts)"

definition releaseAll :: "TableActorLeaseManager \<Rightarrow> leases \<Rightarrow> TableActorLeaseManager \<times> leases" where
  "releaseAll m s = releaseMany m s (map fst (tm_held m))"

section \<open>Recovery\<close>

record DurableTableEvent =
  de_sequence :: int
  de_eventType :: string
  de_eventHash :: string
  de_prevEventHash :: "string option"
  de_handId :: "string option"
  de_payload :: "(string \<times> json) list option"
  de_timestamp :: "json option"

datatype replay_issue = Sequence_gap int int | First_event_has_prev_hash | Hash_break int | Missing_event_hash int

record ReplayResult =
  rr_ok :: bool
  rr_sequence :: int
  rr_prevHash :: "string option"
  rr_tipEventHash :: "string option"
  rr_eventsReplayed :: nat
  rr_issues :: "replay_issue list"

text \<open>The loop: \<open>prev\<close> is the last event replayed; the first issue breaks.\<close>

fun replayLoop :: "DurableTableEvent option \<Rightarrow> nat \<Rightarrow> DurableTableEvent list \<Rightarrow> DurableTableEvent option \<times> nat \<times> replay_issue list" where
  "replayLoop prev n [] = (prev, n, [])"
| "replayLoop prev n (ev # evs) =
     (let expectedSeq = (case prev of None \<Rightarrow> de_sequence ev | Some p \<Rightarrow> de_sequence p + 1)
      in if de_sequence ev \<noteq> expectedSeq then (prev, n, [Sequence_gap expectedSeq (de_sequence ev)])
         else if prev = None \<and> de_sequence ev = 1 \<and> de_prevEventHash ev \<noteq> None \<and> de_prevEventHash ev \<noteq> Some []
         then (prev, n, [First_event_has_prev_hash])
         else if prev \<noteq> None \<and> de_prevEventHash ev \<noteq> map_option de_eventHash prev
         then (prev, n, [Hash_break (de_sequence ev)])
         else if de_eventHash ev = [] then (prev, n, [Missing_event_hash (de_sequence ev)])
         else replayLoop (Some ev) (n + 1) evs)"

definition replayDurableEvents :: "DurableTableEvent list \<Rightarrow> ReplayResult" where
  "replayDurableEvents events =
     (if events = [] then
        \<lparr>rr_ok = True, rr_sequence = 0, rr_prevHash = None, rr_tipEventHash = None, rr_eventsReplayed = 0, rr_issues = []\<rparr>
      else
        let (lastOk, replayed, issues) = replayLoop None 0 (js_sort (\<lambda>a b. de_sequence a - de_sequence b) events)
        in \<lparr>rr_ok = (issues = []), rr_sequence = (case lastOk of None \<Rightarrow> 0 | Some e \<Rightarrow> de_sequence e),
            rr_prevHash = map_option de_eventHash lastOk, rr_tipEventHash = map_option de_eventHash lastOk,
            rr_eventsReplayed = replayed, rr_issues = issues\<rparr>)"

record RecoveredActorTip =
  ra_sequence :: int
  ra_prevHash :: "string option"
  ra_chainOk :: bool
  ra_issues :: "replay_issue list"
  ra_eventsReplayed :: nat

definition recoverActorTip :: "DurableTableEvent list \<Rightarrow> RecoveredActorTip" where
  "recoverActorTip events =
     (let replay = replayDurableEvents events
      in \<lparr>ra_sequence = rr_sequence replay, ra_prevHash = rr_prevHash replay, ra_chainOk = rr_ok replay,
          ra_issues = rr_issues replay, ra_eventsReplayed = rr_eventsReplayed replay\<rparr>)"

section \<open>What a backend promises\<close>

text \<open>Every live lease a manager believes to hold is the backend's record, in its name.\<close>

definition exclusive ::
  "('s \<Rightarrow> string \<Rightarrow> LeaseRecord option) \<Rightarrow> ('i \<Rightarrow> string) \<Rightarrow> ('i \<Rightarrow> string \<Rightarrow> LeaseRecord option) \<Rightarrow> int \<Rightarrow> 's \<Rightarrow> bool" where
  "exclusive view ident held now s \<longleftrightarrow>
     (\<forall>i t l. held i t = Some l \<longrightarrow> now < lr_expiresAt l \<longrightarrow> view s t = Some l \<and> lr_actorInstanceId l = ident i)"

locale lease_backend =
  fixes view :: "'s \<Rightarrow> string \<Rightarrow> LeaseRecord option"
    and try_acquire :: "'s \<Rightarrow> string \<Rightarrow> string \<Rightarrow> int \<Rightarrow> int \<Rightarrow> AcquireResult \<times> 's"
    and renew :: "'s \<Rightarrow> string \<Rightarrow> string \<Rightarrow> int \<Rightarrow> int \<Rightarrow> int \<Rightarrow> AcquireResult \<times> 's"
    and release :: "'s \<Rightarrow> string \<Rightarrow> string \<Rightarrow> int option \<Rightarrow> bool \<times> 's"
    and get :: "'s \<Rightarrow> string \<Rightarrow> int \<Rightarrow> LeaseRecord option \<times> 's"
  assumes try_ok: "try_acquire s t a ttl now = (AcquireOk l r, s') \<Longrightarrow>
      view s' = (view s)(t \<mapsto> l) \<and> lr_actorInstanceId l = a \<and>
      (\<forall>c. view s t = Some c \<longrightarrow> now < lr_expiresAt c \<longrightarrow> lr_actorInstanceId c = a)"
    and try_fail: "try_acquire s t a ttl now = (AcquireFail e h, s') \<Longrightarrow>
      view s' = view s \<and> (\<exists>c. view s t = Some c \<and> now < lr_expiresAt c \<and> lr_actorInstanceId c \<noteq> a)"
    and renew_ok: "renew s t a n ttl now = (AcquireOk l r, s') \<Longrightarrow>
      view s' = (view s)(t \<mapsto> l) \<and> lr_actorInstanceId l = a \<and>
      (\<exists>c. view s t = Some c \<and> now < lr_expiresAt c \<and> lr_actorInstanceId c = a)"
    and renew_fail: "renew s t a n ttl now = (AcquireFail e h, s') \<Longrightarrow> view s' = view s"
    and release_view: "release s t a w = (b, s') \<Longrightarrow>
      view s' = view s \<or> view s' = (view s)(t := None) \<and> (\<exists>c. view s t = Some c \<and> lr_actorInstanceId c = a)"
    and get_view: "get s t now = (x, s') \<Longrightarrow>
      view s' u = view s u \<or> (\<exists>c. view s u = Some c \<and> lr_expiresAt c \<le> now)"
begin

lemma grant_exclusive:
  assumes "exclusive view ident held now s" "inj ident" "view s' = (view s)(t \<mapsto> l)" "lr_actorInstanceId l = ident j"
    and "\<And>c. view s t = Some c \<Longrightarrow> now < lr_expiresAt c \<Longrightarrow> lr_actorInstanceId c = ident j"
  shows "exclusive view ident (held(j := (held j)(t \<mapsto> l))) now s'"
  unfolding exclusive_def
proof (intro allI impI)
  fix i u c
  assume h: "(held(j := (held j)(t \<mapsto> l))) i u = Some c" and live: "now < lr_expiresAt c"
  show "view s' u = Some c \<and> lr_actorInstanceId c = ident i"
  proof (cases "i = j \<and> u = t")
    case True
    then show ?thesis using h assms(3,4) by simp
  next
    case False
    then have hi: "held i u = Some c" using h by (auto split: if_splits)
    have v: "view s u = Some c" "lr_actorInstanceId c = ident i"
      using assms(1) hi live unfolding exclusive_def by blast+
    have "u \<noteq> t"
    proof
      assume "u = t"
      then have "ident i = ident j" using assms(5) v live by metis
      then show False using assms(2) False \<open>u = t\<close> by (simp add: inj_eq)
    qed
    then show ?thesis using v assms(3) by simp
  qed
qed

lemma try_exclusive:
  assumes "exclusive view ident held now s" "inj ident" "try_acquire s t (ident j) ttl now = (AcquireOk l r, s')"
  shows "exclusive view ident (held(j := (held j)(t \<mapsto> l))) now s'"
  using try_ok [OF assms(3)] by (intro grant_exclusive [OF assms(1,2)]) auto

lemma renew_exclusive:
  assumes "exclusive view ident held now s" "inj ident" "renew s t (ident j) n ttl now = (AcquireOk l r, s')"
  shows "exclusive view ident (held(j := (held j)(t \<mapsto> l))) now s'"
  using renew_ok [OF assms(3)] by (intro grant_exclusive [OF assms(1,2)]) auto

lemma forget_exclusive:
  "exclusive view ident held now s \<Longrightarrow> view s' = view s \<Longrightarrow>
     exclusive view ident (held(j := (held j)(t := None))) now s'"
  by (auto simp: exclusive_def split: if_splits)

lemma release_exclusive:
  assumes "exclusive view ident held now s" "inj ident" "release s t (ident j) n = (b, s')"
  shows "exclusive view ident (held(j := (held j)(t := None))) now s'"
  using release_view [OF assms(3)]
proof
  assume d: "view s' = (view s)(t := None) \<and> (\<exists>c. view s t = Some c \<and> lr_actorInstanceId c = ident j)"
  show ?thesis
    unfolding exclusive_def
  proof (intro allI impI)
    fix i u c
    assume h: "(held(j := (held j)(t := None))) i u = Some c" and live: "now < lr_expiresAt c"
    then have "held i u = Some c" and ne: "i \<noteq> j \<or> u \<noteq> t" by (auto split: if_splits)
    then have v: "view s u = Some c" "lr_actorInstanceId c = ident i"
      using assms(1) live unfolding exclusive_def by blast+
    then have "u \<noteq> t" using d ne assms(2) by (auto simp: inj_eq)
    then show "view s' u = Some c \<and> lr_actorInstanceId c = ident i" using v d by simp
  qed
qed (rule forget_exclusive [OF assms(1)])

lemma get_exclusive:
  "exclusive view ident held now s \<Longrightarrow> get s t now = (x, s') \<Longrightarrow> exclusive view ident held now s'"
  using get_view unfolding exclusive_def by (metis linorder_not_le option.inject)

lemma later_exclusive: "exclusive view ident held now s \<Longrightarrow> now \<le> now' \<Longrightarrow> exclusive view ident held now' s"
  by (auto simp: exclusive_def)

end

interpretation memory: lease_backend map_of mem_tryAcquire mem_renew mem_release mem_get
proof unfold_locales
  fix s t a ttl now n l r s' e h b x u
  show "mem_tryAcquire s t a ttl now = (AcquireOk l r, s') \<Longrightarrow>
      map_of s' = (map_of s)(t \<mapsto> l) \<and> lr_actorInstanceId l = a \<and>
      (\<forall>c. map_of s t = Some c \<longrightarrow> now < lr_expiresAt c \<longrightarrow> lr_actorInstanceId c = a)"
    by (auto simp: mem_tryAcquire_def Let_def update_conv' split: option.splits if_splits)
  show "mem_tryAcquire s t a ttl now = (AcquireFail e h, s') \<Longrightarrow>
      map_of s' = map_of s \<and> (\<exists>c. map_of s t = Some c \<and> now < lr_expiresAt c \<and> lr_actorInstanceId c \<noteq> a)"
    by (auto simp: mem_tryAcquire_def Let_def split: option.splits if_splits)
  show "mem_renew s t a n ttl now = (AcquireOk l r, s') \<Longrightarrow>
      map_of s' = (map_of s)(t \<mapsto> l) \<and> lr_actorInstanceId l = a \<and>
      (\<exists>c. map_of s t = Some c \<and> now < lr_expiresAt c \<and> lr_actorInstanceId c = a)"
    by (auto simp: mem_renew_def Let_def update_conv' split: option.splits if_splits)
  show "mem_renew s t a n ttl now = (AcquireFail e h, s') \<Longrightarrow> map_of s' = map_of s"
    by (auto simp: mem_renew_def Let_def split: option.splits if_splits)
  show "mem_release s t a x = (b, s') \<Longrightarrow>
      map_of s' = map_of s \<or> map_of s' = (map_of s)(t := None) \<and> (\<exists>c. map_of s t = Some c \<and> lr_actorInstanceId c = a)" for x
    by (auto simp: mem_release_def delete_conv' split: option.splits if_splits)
  show "mem_get s t now = (x, s') \<Longrightarrow> map_of s' u = map_of s u \<or> (\<exists>c. map_of s u = Some c \<and> lr_expiresAt c \<le> now)" for x
    by (auto simp: mem_get_def delete_conv' split: option.splits if_splits)
qed

section \<open>Runs of a system of managers\<close>

record lease_sys =
  sy_time :: int
  sy_store :: leases
  sy_manager :: "nat \<Rightarrow> TableActorLeaseManager"

inductive lease_step :: "lease_sys \<Rightarrow> lease_sys \<Rightarrow> bool" where
  tick: "sy_time S \<le> t \<Longrightarrow> lease_step S (S\<lparr>sy_time := t\<rparr>)"
| acquire: "acquireRound (sy_manager S j) (sy_store S) tableId deadline (sy_time S) t2 t3 t4 = (r, m, s) \<Longrightarrow>
    lease_step S (S\<lparr>sy_store := s, sy_manager := (sy_manager S)(j := m)\<rparr>)"
| renew: "renewLease (sy_manager S j) (sy_store S) tableId (sy_time S) = (r, m, s) \<Longrightarrow>
    lease_step S (S\<lparr>sy_store := s, sy_manager := (sy_manager S)(j := m)\<rparr>)"
| release: "releaseLease (sy_manager S j) (sy_store S) tableId = (m, s) \<Longrightarrow>
    lease_step S (S\<lparr>sy_store := s, sy_manager := (sy_manager S)(j := m)\<rparr>)"
| check: "assertHeld (sy_manager S j) tableId (sy_time S) = (r, m) \<Longrightarrow>
    lease_step S (S\<lparr>sy_manager := (sy_manager S)(j := m)\<rparr>)"
| inspect: "mem_get (sy_store S) tableId (sy_time S) = (r, s) \<Longrightarrow> lease_step S (S\<lparr>sy_store := s\<rparr>)"

inductive lease_run :: "lease_sys \<Rightarrow> lease_sys \<Rightarrow> bool" where
  init: "lease_run S S"
| step: "lease_run S S' \<Longrightarrow> lease_step S' S'' \<Longrightarrow> lease_run S S''"

definition heldBy :: "lease_sys \<Rightarrow> nat \<Rightarrow> string \<Rightarrow> LeaseRecord option" where
  "heldBy S i = map_of (tm_held (sy_manager S i))"

definition lease_inv :: "(nat \<Rightarrow> string) \<Rightarrow> lease_sys \<Rightarrow> bool" where
  "lease_inv ident S \<longleftrightarrow> (\<forall>i. tm_actorInstanceId (sy_manager S i) = ident i) \<and>
     exclusive map_of ident (heldBy S) (sy_time S) (sy_store S)"

lemma heldBy_upd:
  "tm_held m = AList.update t l (tm_held (sy_manager S j)) \<Longrightarrow>
     heldBy (S\<lparr>sy_store := s, sy_manager := (sy_manager S)(j := m)\<rparr>) = (heldBy S)(j := (heldBy S j)(t \<mapsto> l))"
  "tm_held m = AList.delete t (tm_held (sy_manager S j)) \<Longrightarrow>
     heldBy (S\<lparr>sy_store := s, sy_manager := (sy_manager S)(j := m)\<rparr>) = (heldBy S)(j := (heldBy S j)(t := None))"
  "tm_held m = tm_held (sy_manager S j) \<Longrightarrow>
     heldBy (S\<lparr>sy_store := s, sy_manager := (sy_manager S)(j := m)\<rparr>) = heldBy S"
  by (auto simp: heldBy_def fun_eq_iff update_conv' delete_conv')

lemma acquire_inv:
  assumes "lease_inv ident S" "inj ident"
    and "acquireRound (sy_manager S j) (sy_store S) tableId deadline (sy_time S) t2 t3 t4 = (r, m, s)"
  shows "lease_inv ident (S\<lparr>sy_store := s, sy_manager := (sy_manager S)(j := m)\<rparr>)"
proof -
  let ?m = "sy_manager S j"
  have id: "tm_actorInstanceId ?m = ident j" and ex: "exclusive map_of ident (heldBy S) (sy_time S) (sy_store S)"
    using assms(1) by (auto simp: lease_inv_def)
  obtain q s1 where q: "mem_tryAcquire (sy_store S) tableId (ident j) (tm_ttlMs ?m) (sy_time S) = (q, s1)"
    by fastforce
  show ?thesis
  proof (cases q)
    case (AcquireOk l rc)
    then have e: "m = ?m\<lparr>tm_held := AList.update tableId l (tm_held ?m)\<rparr>" "s = s1"
      using assms(3) q id by (auto simp: acquireRound_def)
    have "exclusive map_of ident ((heldBy S)(j := (heldBy S j)(tableId \<mapsto> l))) (sy_time S) s1"
      using memory.try_exclusive [OF ex assms(2)] q AcquireOk by blast
    then show ?thesis using assms(1) e heldBy_upd(1) [of m tableId l S j s] by (simp add: lease_inv_def)
  next
    case (AcquireFail e h)
    then have e: "m = ?m" "s = s1" using assms(3) q id by (auto simp: acquireRound_def Let_def split: if_splits)
    have "map_of s1 = map_of (sy_store S)" using memory.try_fail q AcquireFail by blast
    then have "exclusive map_of ident (heldBy S) (sy_time S) s1" using ex by (simp add: exclusive_def)
    then show ?thesis using assms(1) e heldBy_upd(3) [of m S j s] by (simp add: lease_inv_def)
  qed
qed

lemma renew_inv:
  assumes "lease_inv ident S" "inj ident" "renewLease (sy_manager S j) (sy_store S) tableId (sy_time S) = (r, m, s)"
  shows "lease_inv ident (S\<lparr>sy_store := s, sy_manager := (sy_manager S)(j := m)\<rparr>)"
proof -
  let ?m = "sy_manager S j"
  have id: "tm_actorInstanceId ?m = ident j" and ex: "exclusive map_of ident (heldBy S) (sy_time S) (sy_store S)"
    using assms(1) by (auto simp: lease_inv_def)
  show ?thesis
  proof (cases "map_of (tm_held ?m) tableId")
    case None
    then have "m = ?m" "s = sy_store S" using assms(3) by (auto simp: renewLease_def)
    then show ?thesis using assms(1) heldBy_upd(3) [of m S j s] by (simp add: lease_inv_def)
  next
    case (Some cur)
    obtain q s1 where q: "mem_renew (sy_store S) tableId (ident j) (lr_leaseVersion cur) (tm_ttlMs ?m) (sy_time S) = (q, s1)"
      by fastforce
    show ?thesis
    proof (cases q)
      case (AcquireOk l rc)
      then have e: "m = ?m\<lparr>tm_held := AList.update tableId l (tm_held ?m)\<rparr>" "s = s1"
        using assms(3) q id Some by (auto simp: renewLease_def)
      have "exclusive map_of ident ((heldBy S)(j := (heldBy S j)(tableId \<mapsto> l))) (sy_time S) s1"
        using memory.renew_exclusive [OF ex assms(2)] q AcquireOk by blast
      then show ?thesis using assms(1) e heldBy_upd(1) [of m tableId l S j s] by (simp add: lease_inv_def)
    next
      case (AcquireFail e h)
      then have e: "m = ?m\<lparr>tm_held := AList.delete tableId (tm_held ?m)\<rparr>" "s = s1"
        using assms(3) q id Some by (auto simp: renewLease_def)
      have "map_of s1 = map_of (sy_store S)" using memory.renew_fail q AcquireFail by blast
      then have "exclusive map_of ident ((heldBy S)(j := (heldBy S j)(tableId := None))) (sy_time S) s1"
        using memory.forget_exclusive [OF ex] by simp
      then show ?thesis using assms(1) e heldBy_upd(2) [of m tableId S j s] by (simp add: lease_inv_def)
    qed
  qed
qed

lemma release_inv:
  assumes "lease_inv ident S" "inj ident" "releaseLease (sy_manager S j) (sy_store S) tableId = (m, s)"
  shows "lease_inv ident (S\<lparr>sy_store := s, sy_manager := (sy_manager S)(j := m)\<rparr>)"
proof -
  let ?m = "sy_manager S j"
  have id: "tm_actorInstanceId ?m = ident j" and ex: "exclusive map_of ident (heldBy S) (sy_time S) (sy_store S)"
    using assms(1) by (auto simp: lease_inv_def)
  have e: "m = ?m\<lparr>tm_held := AList.delete tableId (tm_held ?m)\<rparr>"
    using assms(3) by (auto simp: releaseLease_def releaseLocal_def)
  have "exclusive map_of ident ((heldBy S)(j := (heldBy S j)(tableId := None))) (sy_time S) s"
  proof (cases "map_of (tm_held ?m) tableId")
    case None
    then show ?thesis
      using assms(3) memory.forget_exclusive [OF ex] by (auto simp: releaseLease_def releaseBackend_def)
  next
    case (Some cur)
    then have "mem_release (sy_store S) tableId (ident j) (Some (lr_leaseVersion cur)) =
        (fst (mem_release (sy_store S) tableId (ident j) (Some (lr_leaseVersion cur))), s)"
      using assms(3) id by (auto simp: releaseLease_def releaseBackend_def)
    then show ?thesis using memory.release_exclusive [OF ex assms(2)] by blast
  qed
  then show ?thesis using assms(1) e heldBy_upd(2) [of m tableId S j s] by (simp add: lease_inv_def)
qed

lemma check_inv:
  assumes "lease_inv ident S" "assertHeld (sy_manager S j) tableId (sy_time S) = (r, m)"
  shows "lease_inv ident (S\<lparr>sy_manager := (sy_manager S)(j := m)\<rparr>)"
proof -
  have "m = sy_manager S j \<or> m = (sy_manager S j)\<lparr>tm_held := AList.delete tableId (tm_held (sy_manager S j))\<rparr>"
    using assms(2) by (auto simp: assertHeld_def split: option.splits if_splits)
  then show ?thesis
    using assms(1) heldBy_upd(2) [of m tableId S j "sy_store S"] heldBy_upd(3) [of m S j "sy_store S"]
      memory.forget_exclusive [of ident "heldBy S" "sy_time S" "sy_store S" "sy_store S" j tableId]
    by (auto simp: lease_inv_def)
qed

lemma lease_step_inv: "lease_step S S' \<Longrightarrow> inj ident \<Longrightarrow> lease_inv ident S \<Longrightarrow> lease_inv ident S'"
proof (induction rule: lease_step.induct)
  case (tick S t)
  have "heldBy (S\<lparr>sy_time := t\<rparr>) = heldBy S" by (simp add: heldBy_def fun_eq_iff)
  then show ?case using tick memory.later_exclusive by (auto simp: lease_inv_def)
next
  case (inspect S tableId r s)
  have "heldBy (S\<lparr>sy_store := s\<rparr>) = heldBy S" by (simp add: heldBy_def fun_eq_iff)
  then show ?case using inspect memory.get_exclusive by (auto simp: lease_inv_def)
qed (blast intro: acquire_inv renew_inv release_inv check_inv)+

lemma lease_run_inv: "lease_run S S' \<Longrightarrow> inj ident \<Longrightarrow> lease_inv ident S \<Longrightarrow> lease_inv ident S'"
  by (induction rule: lease_run.induct) (auto intro: lease_step_inv)

section \<open>Replay finds the longest linked prefix\<close>

definition linkOk :: "DurableTableEvent option \<Rightarrow> DurableTableEvent \<Rightarrow> bool" where
  "linkOk prev ev \<longleftrightarrow> de_eventHash ev \<noteq> [] \<and>
     (case prev of
        None \<Rightarrow> de_sequence ev = 1 \<longrightarrow> de_prevEventHash ev \<in> {None, Some []}
      | Some p \<Rightarrow> de_sequence ev = de_sequence p + 1 \<and> de_prevEventHash ev = Some (de_eventHash p))"

fun linked :: "DurableTableEvent option \<Rightarrow> DurableTableEvent list \<Rightarrow> bool" where
  "linked prev [] = True"
| "linked prev (e # es) \<longleftrightarrow> linkOk prev e \<and> linked (Some e) es"

lemma replayLoop_spec:
  "\<exists>k is. replayLoop prev n evs = ((if k = 0 then prev else Some (evs ! (k - 1))), n + k, is) \<and>
     k \<le> length evs \<and> linked prev (take k evs) \<and> (is = [] \<longleftrightarrow> k = length evs) \<and>
     (k < length evs \<longrightarrow> \<not> linked prev (take (Suc k) evs))"
proof (induction prev n evs rule: replayLoop.induct)
  case (1 prev n)
  show ?case by (intro exI [of _ 0]) simp
next
  case (2 prev n ev evs)
  show ?case
  proof (cases "linkOk prev ev")
    case False
    then have "\<exists>is. is \<noteq> [] \<and> replayLoop prev n (ev # evs) = (prev, n, is)"
      by (auto simp: linkOk_def Let_def split: option.splits)
    then obtain "is" where "is \<noteq> []" "replayLoop prev n (ev # evs) = (prev, n, is)" by blast
    then show ?thesis using False
      by (intro exI [of _ 0] exI [of _ "is"]) (simp del: replayLoop.simps)
  next
    case True
    then have r: "replayLoop prev n (ev # evs) = replayLoop (Some ev) (n + 1) evs"
      by (auto simp: linkOk_def Let_def split: option.splits)
    have "\<exists>k is. replayLoop (Some ev) (n + 1) evs = ((if k = 0 then Some ev else Some (evs ! (k - 1))), n + 1 + k, is) \<and>
        k \<le> length evs \<and> linked (Some ev) (take k evs) \<and> (is = [] \<longleftrightarrow> k = length evs) \<and>
        (k < length evs \<longrightarrow> \<not> linked (Some ev) (take (Suc k) evs))"
      using True by (intro 2) (auto simp: linkOk_def split: option.splits)
    then obtain k "is" where "replayLoop (Some ev) (n + 1) evs = ((if k = 0 then Some ev else Some (evs ! (k - 1))), n + 1 + k, is)"
      "k \<le> length evs" "linked (Some ev) (take k evs)" "is = [] \<longleftrightarrow> k = length evs"
      "k < length evs \<longrightarrow> \<not> linked (Some ev) (take (Suc k) evs)" by blast
    then show ?thesis
      unfolding r using True by (intro exI [of _ "Suc k"] exI [of _ "is"]) (auto simp: nth_Cons')
  qed
qed

section \<open>Properties\<close>


definition demo_manager :: "nat \<Rightarrow> TableActorLeaseManager" where
  "demo_manager i = \<lparr>tm_actorInstanceId = replicate i (CHR ''a''), tm_ttlMs = 30000, tm_waitPollMs = 50, tm_held = []\<rparr>"

definition demo_sys :: lease_sys where
  "demo_sys = \<lparr>sy_time = 0, sy_store = [], sy_manager = demo_manager\<rparr>"


text \<open>Recovery resumes at the verified tip. Sorted by sequence, the events replayed are the longest prefix in
  which numbers are contiguous, every event names its predecessor's hash and none lacks a hash of its own; the
  tip is the last event of that prefix, and the log is reported sound exactly when the prefix is the whole log.\<close>

theorem recovery_tip_is_longest_linked_prefix:
  "let ordered = js_sort (\<lambda>a b. de_sequence a - de_sequence b) events; k = ra_eventsReplayed (recoverActorTip events)
   in k \<le> length events \<and> linked None (take k ordered) \<and>
      (ra_chainOk (recoverActorTip events) \<longleftrightarrow> k = length events) \<and>
      (linked None (take (Suc k) ordered) \<longleftrightarrow> k = length events) \<and>
      ra_prevHash (recoverActorTip events) = (if k = 0 then None else Some (de_eventHash (ordered ! (k - 1)))) \<and>
      ra_sequence (recoverActorTip events) = (if k = 0 then 0 else de_sequence (ordered ! (k - 1)))"
proof (cases "events = []")
  case True
  then show ?thesis by (simp add: recoverActorTip_def replayDurableEvents_def)
next
  case False
  obtain k "is" where k: "replayLoop None 0 (js_sort (\<lambda>a b. de_sequence a - de_sequence b) events) =
      ((if k = 0 then None else Some (js_sort (\<lambda>a b. de_sequence a - de_sequence b) events ! (k - 1))), 0 + k, is)"
    "k \<le> length events" "linked None (take k (js_sort (\<lambda>a b. de_sequence a - de_sequence b) events))"
    "is = [] \<longleftrightarrow> k = length events"
    "k < length events \<longrightarrow> \<not> linked None (take (Suc k) (js_sort (\<lambda>a b. de_sequence a - de_sequence b) events))"
    using replayLoop_spec [of None 0 "js_sort (\<lambda>a b. de_sequence a - de_sequence b) events"] unfolding length_js_sort by blast
  then have "linked None (take (Suc k) (js_sort (\<lambda>a b. de_sequence a - de_sequence b) events)) \<longleftrightarrow> k = length events"
    by (cases "k = length events") auto
  with k(1-4) show ?thesis using False by (simp add: recoverActorTip_def replayDurableEvents_def Let_def)
qed

section \<open>The window in release\<close>

text \<open>Where calls do interleave: \<open>release\<close> first deletes the record of the backend and only then forgets the lease locally. Between the two
  parts another manager can acquire the table, and then both pass \<open>assertHeld\<close>.\<close>

theorem release_window_two_holders:
  "let (r1, m1, s1) = acquireRound (demo_manager 1) [] ''table-1'' 0 0 0 0 0;
       s2 = releaseBackend m1 s1 ''table-1'';
       (r2, m2, s3) = acquireRound (demo_manager 2) s2 ''table-1'' 0 1 1 1 1
   in isOk (fst (assertHeld m1 ''table-1'' 2)) \<and> isOk (fst (assertHeld m2 ''table-1'' 2))"
  by code_simp

end
