(* ===== verification/Outbox.thy ===== *)
theory Outbox
  imports Mz_Prelude
begin

text \<open>
  \<^verbatim>\<open>services/game-server/src/outbox\<close>: persist before broadcast. An event is written durably together with a
  pending outbox row, only then published to the sockets, and marked; rows that stayed pending are republished
  on restart. The store is an interface in the code, so the pipeline takes a record of its operations, whose
  contract is the locale \<open>outbox_store\<close>; the in-memory store implements it. Fresh ids and clock readings are
  arguments, publishing is a function that says whether it threw, and \<open>ow_calls\<close> lists every call to it. A
  recovery drains twice, so it takes one such function per drain. Failures of the store itself are not modelled.
\<close>

section \<open>Messages and the store interface\<close>

datatype SchemaKind = Legacy_json | Poker_event_v1

datatype OutboxVisibility = Public | Owner_private | System

datatype OutboxStatus = Pending | Published | Failed

record OutboxMessage =
  om_id :: string
  om_sessionId :: string
  om_tableId :: "string option"
  om_epoch :: int
  om_sequence :: int
  om_eventHash :: string
  om_channel :: string
  om_payload :: "(string \<times> json) list"
  om_schemaKind :: SchemaKind
  om_visibility :: OutboxVisibility
  om_status :: OutboxStatus
  om_attempts :: nat
  om_lastError :: "string option"
  om_createdAtMs :: int
  om_publishedAtMs :: "int option"

record AppendOutboxInput =
  ao_sessionId :: string
  ao_tableId :: "string option"
  ao_epoch :: "int option"
  ao_sequence :: int
  ao_eventHash :: string
  ao_channel :: "string option"
  ao_payload :: "(string \<times> json) list"
  ao_schemaKind :: "SchemaKind option"
  ao_visibility :: "OutboxVisibility option"

record ListOpts =
  lo_tableId :: "string option"
  lo_sessionId :: "string option"
  lo_limit :: "nat option"

record 's OutboxStore =
  appendPending :: "'s \<Rightarrow> AppendOutboxInput \<Rightarrow> string \<Rightarrow> int \<Rightarrow> OutboxMessage \<times> 's"
  markPublished :: "'s \<Rightarrow> string \<Rightarrow> int \<Rightarrow> 's"
  markFailed :: "'s \<Rightarrow> string \<Rightarrow> string \<Rightarrow> 's"
  bumpAttempt :: "'s \<Rightarrow> string \<Rightarrow> string \<Rightarrow> 's"
  listPending :: "'s \<Rightarrow> ListOpts \<Rightarrow> OutboxMessage list"

section \<open>The in-memory store\<close>

type_synonym outbox_rows = "(string \<times> OutboxMessage) list"

definition sameSlot :: "AppendOutboxInput \<Rightarrow> OutboxMessage \<Rightarrow> bool" where
  "sameSlot x r \<longleftrightarrow> om_sessionId r = ao_sessionId x \<and> om_epoch r = orElse (ao_epoch x) 0 \<and> om_sequence r = ao_sequence x"

definition mem_all :: "outbox_rows \<Rightarrow> OutboxMessage list" where
  "mem_all rows = js_sort (\<lambda>a b. om_sequence a - om_sequence b) (map snd rows)"

definition pendingMessage :: "AppendOutboxInput \<Rightarrow> OutboxMessage option \<Rightarrow> string \<Rightarrow> int \<Rightarrow> OutboxMessage" where
  "pendingMessage x existing uuid now =
     \<lparr>om_id = (case existing of Some e \<Rightarrow> om_id e | None \<Rightarrow> uuid), om_sessionId = ao_sessionId x,
      om_tableId = ao_tableId x, om_epoch = orElse (ao_epoch x) 0, om_sequence = ao_sequence x,
      om_eventHash = ao_eventHash x, om_channel = orElse (ao_channel x) ''table:public'',
      om_payload = ao_payload x, om_schemaKind = orElse (ao_schemaKind x) Legacy_json,
      om_visibility = orElse (ao_visibility x) Public, om_status = Pending, om_attempts = 0,
      om_lastError = None, om_createdAtMs = (case existing of Some e \<Rightarrow> om_createdAtMs e | None \<Rightarrow> now),
      om_publishedAtMs = None\<rparr>"

definition mem_appendPending :: "outbox_rows \<Rightarrow> AppendOutboxInput \<Rightarrow> string \<Rightarrow> int \<Rightarrow> OutboxMessage \<times> outbox_rows" where
  "mem_appendPending rows x uuid now =
     (let existing = find (sameSlot x) (map snd rows)
      in case existing of
           Some e \<Rightarrow>
             if om_status e = Published then (e, rows)
             else let msg = pendingMessage x existing uuid now in (msg, AList.update (om_id msg) msg rows)
         | None \<Rightarrow> let msg = pendingMessage x existing uuid now in (msg, AList.update (om_id msg) msg rows))"

definition mem_change :: "(OutboxMessage \<Rightarrow> OutboxMessage) \<Rightarrow> outbox_rows \<Rightarrow> string \<Rightarrow> outbox_rows" where
  "mem_change f rows i = (case map_of rows i of None \<Rightarrow> rows | Some cur \<Rightarrow> AList.update i (f cur) rows)"

definition mem_markPublished :: "outbox_rows \<Rightarrow> string \<Rightarrow> int \<Rightarrow> outbox_rows" where
  "mem_markPublished rows i now =
     mem_change (\<lambda>cur. cur\<lparr>om_status := Published, om_publishedAtMs := Some now, om_lastError := None\<rparr>) rows i"

definition mem_markFailed :: "outbox_rows \<Rightarrow> string \<Rightarrow> string \<Rightarrow> outbox_rows" where
  "mem_markFailed rows i error =
     mem_change (\<lambda>cur. cur\<lparr>om_status := Failed, om_attempts := om_attempts cur + 1, om_lastError := Some (take 2000 error)\<rparr>) rows i"

definition mem_bumpAttempt :: "outbox_rows \<Rightarrow> string \<Rightarrow> string \<Rightarrow> outbox_rows" where
  "mem_bumpAttempt rows i error =
     mem_change (\<lambda>cur. cur\<lparr>om_status := Pending, om_attempts := om_attempts cur + 1, om_lastError := Some (take 2000 error)\<rparr>) rows i"

text \<open>A filter applies when its option is a non-empty string.\<close>

definition wants :: "string option \<Rightarrow> string option \<Rightarrow> bool" where
  "wants opt val \<longleftrightarrow> (case opt of Some (c # cs) \<Rightarrow> val = Some (c # cs) | _ \<Rightarrow> True)"

definition matches :: "ListOpts \<Rightarrow> OutboxMessage \<Rightarrow> bool" where
  "matches opts r \<longleftrightarrow> om_status r = Pending \<and> wants (lo_tableId opts) (om_tableId r) \<and>
     wants (lo_sessionId opts) (Some (om_sessionId r))"

definition outboxOrder :: "OutboxMessage \<Rightarrow> OutboxMessage \<Rightarrow> int" where
  "outboxOrder a b =
     (if om_createdAtMs a - om_createdAtMs b \<noteq> 0 then om_createdAtMs a - om_createdAtMs b
      else om_sequence a - om_sequence b)"

definition mem_listPending :: "outbox_rows \<Rightarrow> ListOpts \<Rightarrow> OutboxMessage list" where
  "mem_listPending rows opts =
     take (orElse (lo_limit opts) 500) (js_sort outboxOrder (filter (matches opts) (map snd rows)))"

definition MemoryOutboxStore :: "outbox_rows OutboxStore" where
  "MemoryOutboxStore = \<lparr>appendPending = mem_appendPending, markPublished = mem_markPublished,
     markFailed = mem_markFailed, bumpAttempt = mem_bumpAttempt, listPending = mem_listPending\<rparr>"

section \<open>The pipeline\<close>

record ('d, 's) outbox_world =
  ow_durable :: 'd
  ow_store :: 's
  ow_calls :: "OutboxMessage list"

record PersistThenBroadcastResult =
  pr_message :: OutboxMessage
  pr_published :: bool

text \<open>Publishing one message and recording the outcome; \<open>publish\<close> returns the error it throws.\<close>

definition deliver ::
  "'s OutboxStore \<Rightarrow> (OutboxMessage \<Rightarrow> string option) \<Rightarrow> int \<Rightarrow> OutboxMessage \<Rightarrow> ('d, 's) outbox_world \<Rightarrow>
     PersistThenBroadcastResult \<times> ('d, 's) outbox_world" where
  "deliver st publish now msg w =
     (case publish msg of
        None \<Rightarrow>
          (\<lparr>pr_message = msg\<lparr>om_status := Published, om_publishedAtMs := Some now\<rparr>, pr_published = True\<rparr>,
           w\<lparr>ow_store := markPublished st (ow_store w) (om_id msg) now, ow_calls := ow_calls w @ [msg]\<rparr>)
      | Some detail \<Rightarrow>
          (\<lparr>pr_message = msg\<lparr>om_status := Pending, om_attempts := om_attempts msg + 1, om_lastError := Some detail\<rparr>,
            pr_published = False\<rparr>,
           w\<lparr>ow_store := bumpAttempt st (ow_store w) (om_id msg) detail, ow_calls := ow_calls w @ [msg]\<rparr>))"

text \<open>\<open>atomicPersist\<close>, when given, does the durable write and the outbox row in one transaction.\<close>

definition persist ::
  "'s OutboxStore \<Rightarrow> ('d \<Rightarrow> string + 'd) \<Rightarrow> ('d \<Rightarrow> 's \<Rightarrow> string + OutboxMessage \<times> 'd \<times> 's) option \<Rightarrow> AppendOutboxInput \<Rightarrow>
     string \<Rightarrow> int \<Rightarrow> 'd \<Rightarrow> 's \<Rightarrow> string + OutboxMessage \<times> 'd \<times> 's" where
  "persist st durableWrite atomicPersist x uuid now d s =
     (case atomicPersist of
        Some f \<Rightarrow> f d s
      | None \<Rightarrow> bindE (durableWrite d) (\<lambda>d'. let (msg, s') = appendPending st s x uuid now in Inr (msg, d', s')))"

definition persistThenBroadcast ::
  "'s OutboxStore \<Rightarrow> ('d \<Rightarrow> string + 'd) \<Rightarrow> ('d \<Rightarrow> 's \<Rightarrow> string + OutboxMessage \<times> 'd \<times> 's) option \<Rightarrow> AppendOutboxInput \<Rightarrow>
     (OutboxMessage \<Rightarrow> string option) \<Rightarrow> string \<Rightarrow> int \<Rightarrow> ('d, 's) outbox_world \<Rightarrow>
     (string + PersistThenBroadcastResult) \<times> ('d, 's) outbox_world" where
  "persistThenBroadcast st durableWrite atomicPersist x publish uuid now w =
     (case persist st durableWrite atomicPersist x uuid now (ow_durable w) (ow_store w) of
        Inl e \<Rightarrow> (Inl e, w)
      | Inr (msg, d, s) \<Rightarrow>
          (let w' = w\<lparr>ow_durable := d, ow_store := s\<rparr>
           in if om_status msg = Published then (Inr \<lparr>pr_message = msg, pr_published = True\<rparr>, w')
              else let (r, w'') = deliver st publish now msg w' in (Inr r, w'')))"

record DrainResult =
  dr_drained :: nat
  dr_failed :: nat
  dr_messages :: "OutboxMessage list"

fun drainLoop ::
  "'s OutboxStore \<Rightarrow> (OutboxMessage \<Rightarrow> string option) \<Rightarrow> int \<Rightarrow> OutboxMessage list \<Rightarrow> DrainResult \<Rightarrow> ('d, 's) outbox_world \<Rightarrow>
     DrainResult \<times> ('d, 's) outbox_world" where
  "drainLoop st publish now [] acc w = (acc, w)"
| "drainLoop st publish now (msg # msgs) acc w =
     (let (r, w') = deliver st publish now msg w
      in drainLoop st publish now msgs
           \<lparr>dr_drained = dr_drained acc + (if pr_published r then 1 else 0),
            dr_failed = dr_failed acc + (if pr_published r then 0 else 1),
            dr_messages = dr_messages acc @ [pr_message r]\<rparr> w')"

definition drainPendingOutbox ::
  "'s OutboxStore \<Rightarrow> (OutboxMessage \<Rightarrow> string option) \<Rightarrow> int \<Rightarrow> ListOpts \<Rightarrow> ('d, 's) outbox_world \<Rightarrow>
     DrainResult \<times> ('d, 's) outbox_world" where
  "drainPendingOutbox st publish now opts w =
     drainLoop st publish now (listPending st (ow_store w) opts) \<lparr>dr_drained = 0, dr_failed = 0, dr_messages = []\<rparr> w"

section \<open>Recovery\<close>

record OutboxRecoveryResult =
  or_ok :: bool
  or_drained :: nat
  or_failed :: nat
  or_remainingPending :: nat
  or_messages :: "OutboxMessage list"

fun mergeMessages :: "OutboxMessage list \<Rightarrow> DrainResult \<Rightarrow> DrainResult" where
  "mergeMessages [] acc = acc"
| "mergeMessages (m # ms) acc =
     (if om_id m \<in> om_id ` set (dr_messages acc) then mergeMessages ms acc
      else mergeMessages ms
        \<lparr>dr_drained = dr_drained acc + (if om_status m = Published then 1 else 0),
         dr_failed = dr_failed acc + (if om_status m = Published then 0 else 1),
         dr_messages = dr_messages acc @ [m]\<rparr>)"

definition recoverUndeliveredOutbox ::
  "'s OutboxStore \<Rightarrow> (OutboxMessage \<Rightarrow> string option) \<Rightarrow> (OutboxMessage \<Rightarrow> string option) \<Rightarrow> int \<Rightarrow> string \<Rightarrow> string option \<Rightarrow>
     nat option \<Rightarrow> ('d, 's) outbox_world \<Rightarrow> OutboxRecoveryResult \<times> ('d, 's) outbox_world" where
  "recoverUndeliveredOutbox st publish1 publish2 now tableId sessionId limit w =
     (let (first, w1) = drainPendingOutbox st publish1 now \<lparr>lo_tableId = Some tableId, lo_sessionId = None, lo_limit = limit\<rparr> w;
          (total, w2) = (case sessionId of
             Some (c # cs) \<Rightarrow>
               (let (second, w2) = drainPendingOutbox st publish2 now
                      \<lparr>lo_tableId = None, lo_sessionId = Some (c # cs), lo_limit = limit\<rparr> w1
                in (mergeMessages (dr_messages second) first, w2))
           | _ \<Rightarrow> (first, w1));
          still = listPending st (ow_store w2) \<lparr>lo_tableId = Some tableId, lo_sessionId = None, lo_limit = Some (orElse limit 500)\<rparr>
      in (\<lparr>or_ok = (dr_failed total = 0 \<and> still = []), or_drained = dr_drained total, or_failed = dr_failed total,
           or_remainingPending = length still, or_messages = dr_messages total\<rparr>, w2))"

section \<open>What a store promises\<close>

definition setPublished :: "int \<Rightarrow> OutboxMessage \<Rightarrow> OutboxMessage" where
  "setPublished now m = m\<lparr>om_status := Published, om_publishedAtMs := Some now, om_lastError := None\<rparr>"

definition setRetry :: "string \<Rightarrow> OutboxMessage \<Rightarrow> OutboxMessage" where
  "setRetry e m = m\<lparr>om_status := Pending, om_attempts := om_attempts m + 1, om_lastError := Some (take 2000 e)\<rparr>"

text \<open>The copy of a message that a drain reports.\<close>

definition attempted :: "(OutboxMessage \<Rightarrow> string option) \<Rightarrow> int \<Rightarrow> OutboxMessage \<Rightarrow> OutboxMessage" where
  "attempted publish now m =
     (case publish m of
        None \<Rightarrow> m\<lparr>om_status := Published, om_publishedAtMs := Some now\<rparr>
      | Some e \<Rightarrow> m\<lparr>om_status := Pending, om_attempts := om_attempts m + 1, om_lastError := Some e\<rparr>)"

lemma attempted_facts [simp]:
  "om_id (attempted publish now m) = om_id m" "om_status (attempted publish now m) = Published \<longleftrightarrow> publish m = None"
  by (auto simp: attempted_def split: option.splits)

lemma drainLoop_messages:
  "drainLoop st publish now ms acc w = (a, w') \<Longrightarrow> dr_messages a = dr_messages acc @ map (attempted publish now) ms"
proof (induction ms arbitrary: acc w)
  case (Cons m ms)
  obtain r w1 where d: "deliver st publish now m w = (r, w1)" by fastforce
  have "pr_message r = attempted publish now m"
    using d by (auto simp: deliver_def attempted_def split: option.splits)
  then show ?case using Cons.IH [of _ w1] Cons.prems d by fastforce
qed simp

lemma mergeMessages_new:
  "distinct (map om_id ms) \<Longrightarrow> om_id ` set ms \<inter> om_id ` set (dr_messages acc) = {} \<Longrightarrow>
     mergeMessages ms acc =
       \<lparr>dr_drained = dr_drained acc + length (filter (\<lambda>m. om_status m = Published) ms),
        dr_failed = dr_failed acc + length (filter (\<lambda>m. om_status m \<noteq> Published) ms),
        dr_messages = dr_messages acc @ ms\<rparr>"
  by (induction ms acc rule: mergeMessages.induct) auto

locale outbox_store =
  fixes st :: "'s OutboxStore" and view :: "'s \<Rightarrow> string \<Rightarrow> OutboxMessage option" and inv :: "'s \<Rightarrow> bool"
  assumes append_row: "inv s \<Longrightarrow> view s uuid = None \<Longrightarrow> appendPending st s x uuid now = (m, s') \<Longrightarrow>
      inv s' \<and> view s' (om_id m) = Some m \<and> sameSlot x m \<and>
      (om_status m = Pending \<or> om_status m = Published \<and> s' = s)"
    and append_again: "inv s \<Longrightarrow> view s i = Some m \<Longrightarrow> sameSlot x m \<Longrightarrow> om_status m = Published \<Longrightarrow>
      appendPending st s x uuid now = (m, s)"
    and mark_inv: "inv s \<Longrightarrow> inv (markPublished st s i now)"
    and mark_view: "inv s \<Longrightarrow> view (markPublished st s i now) = (view s)(i := map_option (setPublished now) (view s i))"
    and bump_inv: "inv s \<Longrightarrow> inv (bumpAttempt st s i e)"
    and bump_view: "inv s \<Longrightarrow> view (bumpAttempt st s i e) = (view s)(i := map_option (setRetry e) (view s i))"
    and list_sound: "inv s \<Longrightarrow> m \<in> set (listPending st s opts) \<Longrightarrow> view s (om_id m) = Some m \<and> matches opts m"
    and list_distinct: "inv s \<Longrightarrow> distinct (map om_id (listPending st s opts))"
    and list_complete: "inv s \<Longrightarrow> length (listPending st s opts) < orElse (lo_limit opts) 500 \<Longrightarrow>
      view s i = Some m \<Longrightarrow> matches opts m \<Longrightarrow> m \<in> set (listPending st s opts)"
begin

text \<open>The row of a message after an attempt to deliver it.\<close>

lemma deliver_spec:
  assumes "inv (ow_store w)" "view (ow_store w) (om_id m) = Some m" "deliver st publish now m w = (r, w')"
  shows "inv (ow_store w')" "ow_durable w' = ow_durable w" "ow_calls w' = ow_calls w @ [m]"
    "pr_published r \<longleftrightarrow> publish m = None"
    "view (ow_store w') = (view (ow_store w))(om_id m \<mapsto>
       (case publish m of None \<Rightarrow> setPublished now m | Some e \<Rightarrow> setRetry e m))"
  using assms mark_inv mark_view bump_inv bump_view
  by (auto simp: deliver_def split: option.splits)

lemma persist_spec:
  assumes "inv (ow_store w)" "view (ow_store w) uuid = None"
    and "persistThenBroadcast st dw None x publish uuid now w = (res, w')"
  shows "(\<forall>e. dw (ow_durable w) = Inl e \<longrightarrow> res = Inl e \<and> w' = w) \<and>
    (\<forall>d. dw (ow_durable w) = Inr d \<longrightarrow> (\<exists>m s r. appendPending st (ow_store w) x uuid now = (m, s) \<and> res = Inr r \<and>
       inv (ow_store w') \<and> ow_durable w' = d \<and> sameSlot x m \<and> view s (om_id m) = Some m \<and>
       (if om_status m = Published then ow_calls w' = ow_calls w \<and> pr_published r \<and> ow_store w' = ow_store w
        else ow_calls w' = ow_calls w @ [m] \<and> (pr_published r \<longleftrightarrow> publish m = None) \<and>
          view (ow_store w') (om_id m) = Some (case publish m of None \<Rightarrow> setPublished now m | Some e \<Rightarrow> setRetry e m))))"
proof (rule conjI; intro allI impI)
  show "res = Inl e \<and> w' = w" if "dw (ow_durable w) = Inl e" for e
    using assms(3) that by (simp add: persistThenBroadcast_def persist_def)
  fix d assume d: "dw (ow_durable w) = Inr d"
  obtain m s where a: "appendPending st (ow_store w) x uuid now = (m, s)" by fastforce
  note ar = append_row [OF assms(1,2) a]
  let ?w = "w\<lparr>ow_durable := d, ow_store := s\<rparr>"
  obtain r w2 where dl: "deliver st publish now m ?w = (r, w2)" by fastforce
  note ds = deliver_spec [OF _ _ dl]
  show "\<exists>m s r. appendPending st (ow_store w) x uuid now = (m, s) \<and> res = Inr r \<and>
       inv (ow_store w') \<and> ow_durable w' = d \<and> sameSlot x m \<and> view s (om_id m) = Some m \<and>
       (if om_status m = Published then ow_calls w' = ow_calls w \<and> pr_published r \<and> ow_store w' = ow_store w
        else ow_calls w' = ow_calls w @ [m] \<and> (pr_published r \<longleftrightarrow> publish m = None) \<and>
          view (ow_store w') (om_id m) = Some (case publish m of None \<Rightarrow> setPublished now m | Some e \<Rightarrow> setRetry e m))"
  proof (cases "om_status m = Published")
    case True
    then have "res = Inr \<lparr>pr_message = m, pr_published = True\<rparr>" "w' = ?w" "s = ow_store w"
      using assms(3) d a ar by (auto simp: persistThenBroadcast_def persist_def)
    then show ?thesis using ar a True by (intro exI) auto
  next
    case False
    then have "res = Inr r" "w' = w2"
      using assms(3) d a dl by (auto simp: persistThenBroadcast_def persist_def Let_def)
    then show ?thesis using ar a False ds by (intro exI) auto
  qed
qed

lemma drainLoop_spec:
  assumes "drainLoop st publish now ms acc w = (a, w')" "inv (ow_store w)" "distinct (map om_id ms)"
    and "\<And>m. m \<in> set ms \<Longrightarrow> view (ow_store w) (om_id m) = Some m"
  shows "inv (ow_store w') \<and> ow_calls w' = ow_calls w @ ms \<and> ow_durable w' = ow_durable w \<and>
    dr_drained a = dr_drained acc + length (filter (\<lambda>m. publish m = None) ms) \<and>
    dr_failed a = dr_failed acc + length (filter (\<lambda>m. publish m \<noteq> None) ms) \<and>
    (\<forall>i. i \<notin> om_id ` set ms \<longrightarrow> view (ow_store w') i = view (ow_store w) i) \<and>
    (\<forall>m \<in> set ms. view (ow_store w') (om_id m) =
       Some (case publish m of None \<Rightarrow> setPublished now m | Some e \<Rightarrow> setRetry e m))"
  using assms
proof (induction ms arbitrary: acc w)
  case (Cons m ms)
  obtain r w1 where d: "deliver st publish now m w = (r, w1)" by fastforce
  note ds = deliver_spec [OF Cons.prems(2) _ d]
  have v: "view (ow_store w) (om_id m) = Some m" using Cons.prems(4) by simp
  let ?acc = "\<lparr>dr_drained = dr_drained acc + (if pr_published r then 1 else 0),
    dr_failed = dr_failed acc + (if pr_published r then 0 else 1), dr_messages = dr_messages acc @ [pr_message r]\<rparr>"
  have rest: "drainLoop st publish now ms ?acc w1 = (a, w')" using Cons.prems(1) d by simp
  have "view (ow_store w1) (om_id n) = Some n" if "n \<in> set ms" for n
    using ds(5) [OF v] Cons.prems(3,4) that by (auto simp: rev_image_eqI)
  note IH = Cons.IH [OF rest ds(1) [OF v] _ this]
  show ?case using IH Cons.prems(3) ds [OF v] by auto
qed simp

lemma drain_empties:
  assumes "drainPendingOutbox st publish now opts w = (a, w')" "inv (ow_store w)"
    and "length (listPending st (ow_store w) opts) < orElse (lo_limit opts) 500"
    and "\<And>m. publish m = None"
  shows "listPending st (ow_store w') opts = []"
proof -
  let ?ms = "listPending st (ow_store w) opts"
  note d = drainLoop_spec [OF assms(1) [unfolded drainPendingOutbox_def] assms(2) list_distinct [OF assms(2)]]
  have sp: "inv (ow_store w')" "\<forall>i. i \<notin> om_id ` set ?ms \<longrightarrow> view (ow_store w') i = view (ow_store w) i"
    "\<forall>m \<in> set ?ms. view (ow_store w') (om_id m) = Some (setPublished now m)"
    using d list_sound [OF assms(2)] assms(4) by auto
  have "m \<notin> set (listPending st (ow_store w') opts)" for m
  proof
    assume m: "m \<in> set (listPending st (ow_store w') opts)"
    then have v: "view (ow_store w') (om_id m) = Some m" "matches opts m" using list_sound [OF sp(1)] by auto
    show False
    proof (cases "om_id m \<in> om_id ` set ?ms")
      case True
      then have "om_status m = Published" using sp(3) v(1) by (auto simp: setPublished_def)
      then show False using v(2) by (simp add: matches_def)
    next
      case False
      then have "view (ow_store w) (om_id m) = Some m" using sp(2) v(1) by simp
      then show False using list_complete [OF assms(2,3) _ v(2)] False by blast
    qed
  qed
  then show ?thesis by (metis last_in_set)
qed

lemma persist_once:
  assumes "inv (ow_store w)" "view (ow_store w) i = Some m" "sameSlot x m" "om_status m = Published"
    and "persistThenBroadcast st dw None x publish uuid now w = (res, w')"
  shows "ow_calls w' = ow_calls w \<and> ow_store w' = ow_store w"
  using append_again [OF assms(1-4)] assms(4,5)
  by (cases "dw (ow_durable w)") (auto simp: persistThenBroadcast_def persist_def)

lemma drain_spec:
  assumes "drainPendingOutbox st publish now opts w = (a, w')" "inv (ow_store w)"
  shows "inv (ow_store w')" "ow_durable w' = ow_durable w"
    "ow_calls w' = ow_calls w @ listPending st (ow_store w) opts"
    "dr_drained a = length (filter (\<lambda>m. publish m = None) (listPending st (ow_store w) opts))"
    "dr_failed a = length (filter (\<lambda>m. publish m \<noteq> None) (listPending st (ow_store w) opts))"
    "i \<notin> om_id ` set (listPending st (ow_store w) opts) \<Longrightarrow> view (ow_store w') i = view (ow_store w) i"
    "m \<in> set (listPending st (ow_store w) opts) \<Longrightarrow> view (ow_store w') (om_id m) =
       Some (case publish m of None \<Rightarrow> setPublished now m | Some e \<Rightarrow> setRetry e m)"
  using drainLoop_spec [OF assms(1) [unfolded drainPendingOutbox_def] assms(2) list_distinct [OF assms(2)]]
    list_sound [OF assms(2)]
  by auto

text \<open>What is pending after a drain that delivered everything was pending before and not part of it.\<close>

lemma pending_after_drain:
  assumes "drainPendingOutbox st publish now opts w = (a, w')" "inv (ow_store w)" "\<And>m. publish m = None"
    and "m \<in> set (listPending st (ow_store w') opts')"
  shows "om_id m \<notin> om_id ` set (listPending st (ow_store w) opts)" "view (ow_store w) (om_id m) = Some m" "matches opts' m"
proof -
  note d = drain_spec [OF assms(1,2)]
  note v = list_sound [OF d(1) assms(4)]
  show n: "om_id m \<notin> om_id ` set (listPending st (ow_store w) opts)"
  proof
    assume "om_id m \<in> om_id ` set (listPending st (ow_store w) opts)"
    then obtain n where "n \<in> set (listPending st (ow_store w) opts)" "om_id n = om_id m" by auto
    then have "m = setPublished now n" using d(7) [of n] v assms(3) by simp
    then show False using v by (simp add: matches_def setPublished_def)
  qed
  show "view (ow_store w) (om_id m) = Some m" using d(6) [OF n] v by simp
  show "matches opts' m" using v by blast
qed

lemma pending_shrinks:
  assumes "drainPendingOutbox st publish now opts w = (a, w')" "inv (ow_store w)" "\<And>m. publish m = None"
    and "length (listPending st (ow_store w) opts') < orElse (lo_limit opts') 500"
  shows "length (listPending st (ow_store w') opts') < orElse (lo_limit opts') 500"
proof -
  let ?l = "listPending st (ow_store w) opts'" and ?l' = "listPending st (ow_store w') opts'"
  have "set ?l' \<subseteq> set ?l"
    using pending_after_drain [OF assms(1-3)] list_complete [OF assms(2,4)] by blast
  then have "card (set ?l') \<le> card (set ?l)" by (simp add: card_mono)
  moreover have "distinct ?l" "distinct ?l'"
    using list_distinct [OF assms(2)] list_distinct [OF drain_spec(1) [OF assms(1,2)]] by (auto simp: distinct_map)
  ultimately show ?thesis using assms(4) by (simp add: distinct_card)
qed

lemma recover_spec:
  fixes w :: "('d, 's) outbox_world" and tableId sessionId :: string and lm :: "nat option"
  defines "opt1 \<equiv> \<lparr>lo_tableId = Some tableId, lo_sessionId = None, lo_limit = lm\<rparr>"
    and "opt2 \<equiv> \<lparr>lo_tableId = None, lo_sessionId = Some sessionId, lo_limit = lm\<rparr>"
  assumes "recoverUndeliveredOutbox st publish1 publish2 now tableId (Some sessionId) lm w = (r, w')" "sessionId \<noteq> []"
    and "inv (ow_store w)" "\<And>m. publish1 m = None" "\<And>m. publish2 m = None"
    and "length (listPending st (ow_store w) opt1) < orElse lm 500" "length (listPending st (ow_store w) opt2) < orElse lm 500"
  shows "\<exists>ms. ow_calls w' = ow_calls w @ ms \<and> distinct (map om_id ms) \<and>
    set ms = {m. view (ow_store w) (om_id m) = Some m \<and> (matches opt1 m \<or> matches opt2 m)} \<and>
    (\<forall>m \<in> set ms. view (ow_store w') (om_id m) = Some (setPublished now m)) \<and>
    or_ok r \<and> or_failed r = 0 \<and> or_remainingPending r = 0 \<and> or_drained r = length ms \<and>
    or_messages r = map (attempted publish1 now) ms \<and> inv (ow_store w')"
proof -
  obtain a w1 where d1: "drainPendingOutbox st publish1 now opt1 w = (a, w1)" by fastforce
  obtain b w2 where d2: "drainPendingOutbox st publish2 now opt2 w1 = (b, w2)" by fastforce
  let ?l1 = "listPending st (ow_store w) opt1" and ?l2 = "listPending st (ow_store w1) opt2"
  note s1 = drain_spec [OF d1 assms(5)]
  note s2 = drain_spec [OF d2 s1(1)]
  note pa = pending_after_drain [OF d1 assms(5,6)]
  note lims = assms(8,9)
  have lim1: "length ?l1 < orElse (lo_limit opt1) 500" "length ?l2 < orElse (lo_limit opt2) 500"
    using lims pending_shrinks [OF d1 assms(5,6), of opt2] by (simp_all add: opt1_def opt2_def)
  have lim2: "length (listPending st (ow_store w) opt2) < orElse (lo_limit opt2) 500"
    using lims by (simp add: opt2_def)
  have msg: "dr_messages a = map (attempted publish1 now) ?l1" "dr_messages b = map (attempted publish2 now) ?l2"
    using drainLoop_messages [OF d1 [unfolded drainPendingOutbox_def]] drainLoop_messages [OF d2 [unfolded drainPendingOutbox_def]]
    by simp_all
  have disj: "om_id ` set ?l1 \<inter> om_id ` set ?l2 = {}"
  proof -
    have "om_id m \<in> - om_id ` set ?l1" if "m \<in> set ?l2" for m using pa(1) [OF that] by simp
    then have "om_id ` set ?l2 \<subseteq> - om_id ` set ?l1" by (rule image_subsetI)
    then show ?thesis unfolding Int_commute [of "om_id ` set ?l1"] disjoint_eq_subset_Compl .
  qed
  have ids: "map om_id (map (attempted p now) xs) = map om_id xs" for p xs by simp
  have same: "attempted publish2 now = attempted publish1 now"
    using assms(6,7) by (auto simp: attempted_def fun_eq_iff)
  have "map om_id (dr_messages b) = map om_id ?l2" unfolding msg by simp
  moreover have "om_id ` set (dr_messages a) = om_id ` set ?l1" unfolding msg by (simp add: image_image)
  moreover have "om_id ` set (dr_messages b) = om_id ` set ?l2" unfolding msg by (simp add: image_image)
  ultimately have mm: "mergeMessages (dr_messages b) a =
      \<lparr>dr_drained = length ?l1 + length ?l2, dr_failed = 0, dr_messages = map (attempted publish1 now) (?l1 @ ?l2)\<rparr>"
    using mergeMessages_new [of "dr_messages b" a] list_distinct [OF s1(1)] disj s1(4,5) assms(6,7) same msg
    by (auto simp: filter_map comp_def Int_commute)
  have still: "listPending st (ow_store w2) \<lparr>lo_tableId = Some tableId, lo_sessionId = None, lo_limit = Some (orElse lm 500)\<rparr> = []"
    (is "?still = []")
  proof -
    have "False" if m: "m \<in> set ?still" for m
    proof -
      note p2 = pending_after_drain [OF d2 s1(1) assms(7) m]
      have m1: "matches opt1 m" using p2(3) by (simp add: matches_def opt1_def)
      show False
      proof (cases "om_id m \<in> om_id ` set ?l1")
        case True
        then obtain n where "n \<in> set ?l1" "om_id n = om_id m" by auto
        then have "m = setPublished now n" using s1(7) [of n] p2(2) assms(6) by simp
        then show False using m1 by (simp add: matches_def setPublished_def)
      next
        case False
        then have "view (ow_store w) (om_id m) = Some m" using s1(6) p2(2) by simp
        then show False using list_complete [OF assms(5) lim1(1) _ m1] False by blast
      qed
    qed
    then show ?thesis by (cases ?still) auto
  qed
  have r: "w' = w2" "r = \<lparr>or_ok = True, or_drained = length ?l1 + length ?l2, or_failed = 0,
      or_remainingPending = 0, or_messages = map (attempted publish1 now) (?l1 @ ?l2)\<rparr>"
    using assms(3,4) d1 d2 mm still unfolding opt1_def opt2_def
    by (cases sessionId; simp add: recoverUndeliveredOutbox_def)+
  have pend: "set (?l1 @ ?l2) = {m. view (ow_store w) (om_id m) = Some m \<and> (matches opt1 m \<or> matches opt2 m)}"
  proof -
    have "m \<in> set ?l1 \<or> m \<in> set ?l2" if "view (ow_store w) (om_id m) = Some m" "matches opt2 m" for m
    proof (cases "om_id m \<in> om_id ` set ?l1")
      case True
      then obtain n where "n \<in> set ?l1" "om_id n = om_id m" by auto
      then show ?thesis using list_sound [OF assms(5)] that(1) by fastforce
    next
      case False
      then have "view (ow_store w1) (om_id m) = Some m" using s1(6) that(1) by simp
      then show ?thesis using list_complete [OF s1(1) lim1(2) _ that(2)] by blast
    qed
    then show ?thesis
      using list_sound [OF assms(5)] pa(2,3) list_complete [OF assms(5) lim1(1)] by fastforce
  qed
  have out: "view (ow_store w2) (om_id m) = Some (setPublished now m)" if "m \<in> set (?l1 @ ?l2)" for m
    using that
  proof (simp only: set_append Un_iff, elim disjE)
    assume "m \<in> set ?l1"
    then have "om_id m \<notin> om_id ` set ?l2" "view (ow_store w1) (om_id m) = Some (setPublished now m)"
      using disj s1(7) assms(6) by auto
    then show ?thesis using s2(6) by simp
  qed (use s2(7) assms(7) in simp)
  have "distinct (map om_id (?l1 @ ?l2))" using list_distinct [OF assms(5)] list_distinct [OF s1(1)] disj by simp
  then show ?thesis using pend out s1(3) s2(1,3) by (intro exI [of _ "?l1 @ ?l2"]) (simp add: r)
qed

end

section \<open>The in-memory store keeps the promise\<close>

definition slotOf :: "OutboxMessage \<Rightarrow> string \<times> int \<times> int" where
  "slotOf m = (om_sessionId m, om_epoch m, om_sequence m)"

definition rows_ok :: "outbox_rows \<Rightarrow> bool" where
  "rows_ok rows \<longleftrightarrow> distinct (map fst rows) \<and> list_all (\<lambda>(k, m). om_id m = k) rows \<and> distinct (map (slotOf \<circ> snd) rows)"

lemma update_new: "k \<notin> fst ` set rows \<Longrightarrow> AList.update k v rows = rows @ [(k, v)]"
  by (induction rows) auto

lemma update_slots:
  "distinct (map fst rows) \<Longrightarrow> map_of rows k = Some c \<Longrightarrow> slotOf v = slotOf c \<Longrightarrow>
     map (slotOf \<circ> snd) (AList.update k v rows) = map (slotOf \<circ> snd) rows"
  by (induction rows) (auto split: if_splits)

lemma rows_ok_replace:
  assumes "rows_ok rows" "map_of rows k = Some c" "slotOf v = slotOf c" "om_id v = k"
  shows "rows_ok (AList.update k v rows)"
proof -
  have "list_all (\<lambda>(k, m). om_id m = k) (AList.update k v rows)"
    using assms(1,4) unfolding rows_ok_def by (induction rows) auto
  then show ?thesis
    using assms(1) update_slots [OF _ assms(2,3)] distinct_update [of rows k v]
    by (simp add: rows_ok_def)
qed

lemma rows_ok_add:
  assumes "rows_ok rows" "map_of rows k = None" "slotOf v \<notin> slotOf ` snd ` set rows" "om_id v = k"
  shows "rows_ok (AList.update k v rows)"
proof -
  have "k \<notin> fst ` set rows" using assms(2) by (simp add: map_of_eq_None_iff)
  then show ?thesis using assms by (auto simp: update_new rows_ok_def image_image)
qed

lemma rows_ok_row: "rows_ok rows \<Longrightarrow> (k, m) \<in> set rows \<Longrightarrow> map_of rows (om_id m) = Some m \<and> om_id m = k"
  by (auto simp: rows_ok_def list_all_iff)

lemma rows_ok_slot: "rows_ok rows \<Longrightarrow> (k, m) \<in> set rows \<Longrightarrow> (k', m') \<in> set rows \<Longrightarrow> slotOf m = slotOf m' \<Longrightarrow> m = m'"
proof -
  assume a: "rows_ok rows" "(k, m) \<in> set rows" "(k', m') \<in> set rows" "slotOf m = slotOf m'"
  have "inj_on (slotOf \<circ> snd) (set rows)" using a(1) by (simp add: rows_ok_def distinct_map)
  then have "(k, m) = (k', m')"
    by (rule inj_onD) (use a(2-4) in simp_all)
  then show "m = m'" by simp
qed

lemma sameSlot_slotOf: "sameSlot x m \<longleftrightarrow> slotOf m = (ao_sessionId x, orElse (ao_epoch x) 0, ao_sequence x)"
  by (auto simp: sameSlot_def slotOf_def)

lemma slotOf_pending: "slotOf (pendingMessage x e u now) = (ao_sessionId x, orElse (ao_epoch x) 0, ao_sequence x)"
  by (simp add: slotOf_def pendingMessage_def)

lemma pendingMessage_facts [simp]:
  "sameSlot x (pendingMessage x e u now)" "om_status (pendingMessage x e u now) = Pending"
  "om_id (pendingMessage x None u now) = u" "om_id (pendingMessage x (Some r) u now) = om_id r"
  by (simp_all add: sameSlot_def pendingMessage_def)

lemma find_row:
  assumes "find (sameSlot x) (map snd rows) = Some e"
  obtains k where "(k, e) \<in> set rows" "sameSlot x e"
proof -
  have "find p xs = Some e \<Longrightarrow> e \<in> set xs \<and> p e" for p and xs :: "OutboxMessage list"
    by (induction xs) (auto split: if_splits)
  then have "e \<in> snd ` set rows" "sameSlot x e" using assms by fastforce+
  then show thesis using that by auto
qed

lemma mem_append_row:
  assumes "rows_ok rows" "map_of rows uuid = None" "mem_appendPending rows x uuid now = (m, rows')"
  shows "rows_ok rows' \<and> map_of rows' (om_id m) = Some m \<and> sameSlot x m \<and>
    (om_status m = Pending \<or> om_status m = Published \<and> rows' = rows)"
proof (cases "find (sameSlot x) (map snd rows)")
  case None
  then have "slotOf (pendingMessage x None uuid now) \<notin> slotOf ` snd ` set rows"
    unfolding slotOf_pending find_None_iff by (auto simp: sameSlot_slotOf)
  then have "rows_ok (AList.update uuid (pendingMessage x None uuid now) rows)"
    using assms(1,2) by (intro rows_ok_add) auto
  then show ?thesis using None assms(3) by (auto simp: mem_appendPending_def Let_def update_conv')
next
  case (Some e)
  then obtain k where e: "(k, e) \<in> set rows" "sameSlot x e" by (rule find_row)
  note re = rows_ok_row [OF assms(1) e(1)]
  show ?thesis
  proof (cases "om_status e = Published")
    case True
    then show ?thesis using Some assms(1,3) re e(2) by (auto simp: mem_appendPending_def)
  next
    case False
    let ?m = "pendingMessage x (Some e) uuid now"
    have "rows_ok (AList.update (om_id e) ?m rows)"
      using re e(2) by (intro rows_ok_replace [OF assms(1), of _ e]) (auto simp: slotOf_pending sameSlot_slotOf)
    moreover have "m = ?m" "rows' = AList.update (om_id e) ?m rows"
      using Some False assms(3) by (auto simp: mem_appendPending_def Let_def)
    ultimately show ?thesis by (auto simp: update_conv')
  qed
qed

lemma mem_append_again:
  assumes "rows_ok rows" "map_of rows i = Some m" "sameSlot x m" "om_status m = Published"
  shows "mem_appendPending rows x uuid now = (m, rows)"
proof -
  have mm: "(i, m) \<in> set rows" using assms(2) by (rule map_of_SomeD)
  then have "m \<in> set (map snd rows)" by force
  then have "find (sameSlot x) (map snd rows) \<noteq> None" using assms(3) unfolding find_None_iff by blast
  then obtain e where f: "find (sameSlot x) (map snd rows) = Some e" by blast
  then obtain k where e: "(k, e) \<in> set rows" "sameSlot x e" by (rule find_row)
  then have "e = m" using rows_ok_slot [OF assms(1) e(1) mm] assms(3) by (simp add: sameSlot_slotOf)
  then show ?thesis using f assms(4) by (simp add: mem_appendPending_def)
qed

lemma mem_change_facts:
  assumes "rows_ok rows" "\<And>m. slotOf (f m) = slotOf m \<and> om_id (f m) = om_id m"
  shows "rows_ok (mem_change f rows i)" "map_of (mem_change f rows i) = (map_of rows)(i := map_option f (map_of rows i))"
proof -
  show "rows_ok (mem_change f rows i)"
  proof (cases "map_of rows i")
    case (Some c)
    then have "om_id c = i" using rows_ok_row [OF assms(1) map_of_SomeD [OF Some]] by simp
    then show ?thesis using Some assms rows_ok_replace [OF assms(1) Some] by (simp add: mem_change_def)
  qed (simp add: mem_change_def assms(1))
  show "map_of (mem_change f rows i) = (map_of rows)(i := map_option f (map_of rows i))"
    by (auto simp: mem_change_def update_conv' split: option.splits)
qed

interpretation memory_outbox: outbox_store MemoryOutboxStore map_of rows_ok
proof unfold_locales
  fix s :: outbox_rows and uuid x now m s' i e opts
  assume ok: "rows_ok s"
  show "rows_ok s' \<and> map_of s' (om_id m) = Some m \<and> sameSlot x m \<and>
      (om_status m = Pending \<or> om_status m = Published \<and> s' = s)"
    if "map_of s uuid = None" "appendPending MemoryOutboxStore s x uuid now = (m, s')"
    using mem_append_row [OF ok that(1)] that(2) by (simp add: MemoryOutboxStore_def)
  show "appendPending MemoryOutboxStore s x uuid now = (m, s)"
    if "map_of s i = Some m" "sameSlot x m" "om_status m = Published"
    using mem_append_again [OF ok that] by (simp add: MemoryOutboxStore_def)
  show "rows_ok (markPublished MemoryOutboxStore s i now)"
    "map_of (markPublished MemoryOutboxStore s i now) = (map_of s)(i := map_option (setPublished now) (map_of s i))"
    using mem_change_facts [OF ok, of "setPublished now" i]
    by (simp_all add: MemoryOutboxStore_def mem_markPublished_def setPublished_def [abs_def] slotOf_def)
  show "rows_ok (bumpAttempt MemoryOutboxStore s i e)"
    "map_of (bumpAttempt MemoryOutboxStore s i e) = (map_of s)(i := map_option (setRetry e) (map_of s i))"
    using mem_change_facts [OF ok, of "setRetry e" i]
    by (simp_all add: MemoryOutboxStore_def mem_bumpAttempt_def setRetry_def [abs_def] slotOf_def)
  let ?l = "js_sort outboxOrder (filter (matches opts) (map snd s))"
  have pend: "listPending MemoryOutboxStore s opts = take (orElse (lo_limit opts) 500) ?l"
    by (simp add: MemoryOutboxStore_def mem_listPending_def)
  show "map_of s (om_id m) = Some m \<and> matches opts m" if "m \<in> set (listPending MemoryOutboxStore s opts)"
  proof -
    have "m \<in> set ?l" by (rule in_set_takeD [OF that [unfolded pend]])
    then obtain a where "(a, m) \<in> set s" "matches opts m" by auto
    then show ?thesis using rows_ok_row [OF ok] by blast
  qed
  have "distinct (map om_id (map snd s))"
    using ok unfolding rows_ok_def by (induction s) (auto simp: list_all_iff rev_image_eqI)
  then have "distinct (map om_id ?l)" by (simp add: distinct_map_filter del: map_map)
  then show "distinct (map om_id (listPending MemoryOutboxStore s opts))"
    unfolding pend by (simp add: take_map [symmetric])
  show "m \<in> set (listPending MemoryOutboxStore s opts)"
    if "length (listPending MemoryOutboxStore s opts) < orElse (lo_limit opts) 500" "map_of s i = Some m" "matches opts m"
  proof -
    have "m \<in> set ?l" using that(2,3) by (force dest: map_of_SomeD)
    moreover have "listPending MemoryOutboxStore s opts = ?l" using that(1) unfolding pend by simp
    ultimately show ?thesis by simp
  qed
qed

section \<open>Properties\<close>


definition demo_input :: AppendOutboxInput where
  "demo_input = \<lparr>ao_sessionId = ''s'', ao_tableId = Some ''t'', ao_epoch = None, ao_sequence = 1, ao_eventHash = ''0x01'',
     ao_channel = None, ao_payload = [], ao_schemaKind = None, ao_visibility = None\<rparr>"

definition demo_outbox_world :: "(int, outbox_rows) outbox_world" where
  "demo_outbox_world = \<lparr>ow_durable = 0, ow_store = snd (mem_appendPending [] demo_input ''u1'' 5), ow_calls = []\<rparr>"

lemmas demo_defs = demo_outbox_world_def demo_input_def mem_appendPending_def pendingMessage_def rows_ok_def
  sameSlot_def slotOf_def Let_def


text \<open>C22: restart recovery. When publishing works, and fewer rows are pending than the batch limit, recovery publishes
  every pending row of the table or of the session exactly once and nothing else, marks them published, and reports
  success with nothing remaining.\<close>

theorem recovery_delivers_every_pending_row:
  fixes w :: "('d, outbox_rows) outbox_world"
  assumes "recoverUndeliveredOutbox MemoryOutboxStore publish1 publish2 now tableId (Some sessionId) limit w = (r, w')"
    and "sessionId \<noteq> []" "rows_ok (ow_store w)" "\<And>m. publish1 m = None" "\<And>m. publish2 m = None"
    and "length (mem_listPending (ow_store w) \<lparr>lo_tableId = Some tableId, lo_sessionId = None, lo_limit = limit\<rparr>) < orElse limit 500"
    and "length (mem_listPending (ow_store w) \<lparr>lo_tableId = None, lo_sessionId = Some sessionId, lo_limit = limit\<rparr>) < orElse limit 500"
  shows "\<exists>ms. ow_calls w' = ow_calls w @ ms \<and> distinct (map om_id ms) \<and>
    set ms = {m. map_of (ow_store w) (om_id m) = Some m \<and> om_status m = Pending \<and>
      (wants (Some tableId) (om_tableId m) \<or> om_sessionId m = sessionId)} \<and>
    (\<forall>m \<in> set ms. map_of (ow_store w') (om_id m) = Some (setPublished now m)) \<and>
    or_ok r \<and> or_failed r = 0 \<and> or_remainingPending r = 0 \<and> or_drained r = length ms \<and> rows_ok (ow_store w')"
proof -
  have ml: "listPending MemoryOutboxStore = mem_listPending" by (simp add: MemoryOutboxStore_def)
  have wn: "wants None v" "wants (Some sessionId) (Some t) \<longleftrightarrow> t = sessionId" for v t
    using assms(2) by (auto simp: wants_def split: list.splits)
  show ?thesis
    using memory_outbox.recover_spec [OF assms(1-5), unfolded ml, OF assms(6,7)]
    by (auto simp: matches_def wn)
qed

theorem recovery_delivers_every_pending_row_witness:
  "\<exists>r w'. recoverUndeliveredOutbox MemoryOutboxStore (\<lambda>m. None) (\<lambda>m. None) 9 ''t'' (Some ''s'') None demo_outbox_world = (r, w') \<and>
     or_ok r \<and> rows_ok (ow_store w')"
proof -
  have ok: "rows_ok (ow_store demo_outbox_world)" by (simp add: demo_defs)
  have len: "length (mem_listPending (ow_store demo_outbox_world) opts) \<le> 1" for opts
    by (simp add: demo_defs mem_listPending_def)
  obtain r w' where p: "recoverUndeliveredOutbox MemoryOutboxStore (\<lambda>m. None) (\<lambda>m. None) 9 ''t'' (Some ''s'') None demo_outbox_world = (r, w')"
    by fastforce
  show ?thesis
    using recovery_delivers_every_pending_row [OF p _ ok] le_less_trans [OF len, of 500] p by auto
qed

text \<open>A drain with a publisher that may fail attempts every listed row once, in order; a row whose publication failed is
  still pending, with its attempt counted and the error kept; the counts are exact; other rows are untouched.\<close>

theorem drain_exact:
  fixes w :: "('d, outbox_rows) outbox_world"
  assumes "drainPendingOutbox MemoryOutboxStore publish now opts w = (a, w')" "rows_ok (ow_store w)"
  shows "rows_ok (ow_store w') \<and> ow_durable w' = ow_durable w \<and>
    ow_calls w' = ow_calls w @ mem_listPending (ow_store w) opts \<and>
    dr_drained a = length (filter (\<lambda>m. publish m = None) (mem_listPending (ow_store w) opts)) \<and>
    dr_failed a = length (filter (\<lambda>m. publish m \<noteq> None) (mem_listPending (ow_store w) opts)) \<and>
    (\<forall>i. i \<notin> om_id ` set (mem_listPending (ow_store w) opts) \<longrightarrow> map_of (ow_store w') i = map_of (ow_store w) i) \<and>
    (\<forall>m \<in> set (mem_listPending (ow_store w) opts). map_of (ow_store w') (om_id m) =
       Some (case publish m of None \<Rightarrow> setPublished now m | Some e \<Rightarrow> setRetry e m))"
proof -
  have ml: "listPending MemoryOutboxStore = mem_listPending" by (simp add: MemoryOutboxStore_def)
  show ?thesis using memory_outbox.drain_spec [OF assms, unfolded ml] by blast
qed

theorem drain_exact_witness:
  "\<exists>a w'. drainPendingOutbox MemoryOutboxStore (\<lambda>m. Some ''closed'') 9 \<lparr>lo_tableId = None, lo_sessionId = None, lo_limit = None\<rparr>
      demo_outbox_world = (a, w') \<and> dr_drained a = 0 \<and> rows_ok (ow_store w')"
proof -
  have ok: "rows_ok (ow_store demo_outbox_world)" by (simp add: demo_defs)
  obtain a w' where p: "drainPendingOutbox MemoryOutboxStore (\<lambda>m. Some ''closed'') 9
      \<lparr>lo_tableId = None, lo_sessionId = None, lo_limit = None\<rparr> demo_outbox_world = (a, w')" by fastforce
  show ?thesis using drain_exact [OF p ok] p by auto
qed

end
