(* ===== verification/Event_Store.thy ===== *)
theory Event_Store
  imports Merkle
begin

text \<open>
  \<^verbatim>\<open>packages/event-store/src\<close>: the append-only chain of poker events of one session and epoch. An event's
  hash covers its predecessor's hash, so the tip commits to the whole log. The chain object is the record
  \<open>EventHashChain\<close>; \<open>append\<close> returns the stored row and the changed chain or the error it throws. The
  texts of error messages and of issue details are not modelled, their codes are.
\<close>

section \<open>Event types\<close>

definition EVENT_TYPE :: "(string \<times> int) list" where
  "EVENT_TYPE =
     [(''HAND_START'', 1), (''POST_BLIND'', 2), (''DEAL_HOLE'', 3), (''ACTION_FOLD'', 10),
      (''ACTION_CHECK'', 11), (''ACTION_CALL'', 12), (''ACTION_BET'', 13), (''ACTION_RAISE'', 14),
      (''ACTION_ALL_IN'', 15), (''STREET_FLOP'', 20), (''STREET_TURN'', 21), (''STREET_RIVER'', 22),
      (''SHOWDOWN'', 30), (''HAND_END'', 40), (''HAND_ABORT'', 50)]"

definition NAME_BY_CODE :: "(int \<times> string) list" where
  "NAME_BY_CODE = map (\<lambda>(name, code). (code, name)) EVENT_TYPE"

definition isKnownEventType :: "int \<Rightarrow> bool" where
  "isKnownEventType code \<longleftrightarrow> map_of NAME_BY_CODE code \<noteq> None"

definition eventTypeName :: "int \<Rightarrow> string" where
  "eventTypeName code =
     (case map_of NAME_BY_CODE code of Some n \<Rightarrow> n | None \<Rightarrow> ''UNKNOWN_'' @ int_string code)"

definition eventTypeRequiresActor :: "int \<Rightarrow> bool" where
  "eventTypeRequiresActor code \<longleftrightarrow>
     code = the (map_of EVENT_TYPE ''POST_BLIND'') \<or>
     (the (map_of EVENT_TYPE ''ACTION_FOLD'') \<le> code \<and> code \<le> the (map_of EVENT_TYPE ''ACTION_ALL_IN''))"

section \<open>Hashes of events and payloads\<close>

datatype store_code =
    SESSION_MISMATCH | EPOCH_MISMATCH | UNKNOWN_EVENT_TYPE | ACTOR_SEAT_INVALID | SEQUENCE_GAP |
    PREV_BREAK | HASH_MISMATCH | CANONICAL_BYTES_MISMATCH

datatype store_error = EventStoreError store_code | Encoding enc_error | StreetTooLong | UndefinedHash

fun liftEnc :: "enc_error + 'a \<Rightarrow> store_error + 'a" where
  "liftEnc (Inl e) = Inl (Encoding e)"
| "liftEnc (Inr x) = Inr x"

lemma liftEnc_Inr_iff [simp]: "liftEnc m = Inr x \<longleftrightarrow> m = Inr x"
  by (cases m) auto

definition ZERO_EVENT_HASH :: Hex where
  "ZERO_EVENT_HASH = ''0x'' @ concat (replicate 32 ''00'')"

definition PROTOCOL_V3_ENGINE_BUILD_ID :: string where
  "PROTOCOL_V3_ENGINE_BUILD_ID = ''mozetto-nlhe-engine-v3-draft''"

definition protocolV3EngineHash :: "viem \<Rightarrow> Hex" where
  "protocolV3EngineHash v = keccak256 v (toBytes v PROTOCOL_V3_ENGINE_BUILD_ID)"

definition hashPokerEventV1 :: "viem \<Rightarrow> PokerEventV1 \<Rightarrow> store_error + HashResult" where
  "hashPokerEventV1 v event = liftEnc (eventHash v event)"

definition hashActionPayload :: "viem \<Rightarrow> int \<Rightarrow> int \<Rightarrow> int \<Rightarrow> store_error + Hex" where
  "hashActionPayload v seat action amount =
     liftEnc (keccakEnc v ''uint8 seat, uint16 action, uint256 amount'' [AInt seat, AInt action, AInt amount])"

definition hashBlindPayload :: "viem \<Rightarrow> int \<Rightarrow> int \<Rightarrow> store_error + Hex" where
  "hashBlindPayload v seat amount =
     liftEnc (keccakEnc v ''uint8 seat, uint256 amount'' [AInt seat, AInt amount])"

text \<open>\<open>toString(16)\<close> of a non-negative \<open>bigint\<close> and \<open>padStart\<close>.\<close>

definition hex_char :: "nat \<Rightarrow> char" where
  "hex_char d = ''0123456789abcdef'' ! d"

fun hex_string :: "nat \<Rightarrow> string" where
  "hex_string n = (if n < 16 then [hex_char n] else hex_string (n div 16) @ [hex_char (n mod 16)])"

declare hex_string.simps [simp del]

definition padStart :: "nat \<Rightarrow> char \<Rightarrow> string \<Rightarrow> string" where
  "padStart w c s = replicate (w - length s) c @ s"

fun packCards :: "nat \<Rightarrow> int list \<Rightarrow> nat \<Rightarrow> nat" where
  "packCards i [] word = word"
| "packCards i (c # cs) word = packCards (Suc i) cs (word OR push_bit (8 * i) (nat (c AND 255)))"

definition hashStreetPayload :: "viem \<Rightarrow> int list \<Rightarrow> store_error + Hex" where
  "hashStreetPayload v cardCodes =
     (let n = length cardCodes
      in if 5 < n then Inl StreetTooLong
         else let cardsWord = ''0x'' @ padStart 64 (CHR ''0'') (hex_string (packCards 0 cardCodes 0))
              in liftEnc (keccakEnc v ''uint8 nCards, bytes32 cardsWord'' [AInt (int n), AHex cardsWord]))"

definition assertActorSeatValid :: "bool \<Rightarrow> int \<Rightarrow> store_error + unit" where
  "assertActorSeatValid hasActorSeat actorSeat =
     (if \<not> hasActorSeat \<and> actorSeat \<noteq> 0 then Inl (EventStoreError ACTOR_SEAT_INVALID)
      else if actorSeat < 0 \<or> 255 < actorSeat then Inl (EventStoreError ACTOR_SEAT_INVALID)
      else Inr ())"

section \<open>Rows\<close>

record AppendEventInput =
  ai_protocolVersion :: "int option"
  ai_sessionId :: Hex
  ai_epoch :: int
  ai_handNumber :: int
  ai_sequence :: "int option"
  ai_eventType :: int
  ai_hasActorSeat :: bool
  ai_actorSeat :: int
  ai_publicPayloadHash :: Hex
  ai_privatePayloadCommitment :: "Hex option"
  ai_elapsedMs :: int
  ai_previousEventHash :: "Hex option"
  ai_engineHash :: Hex
  ai_resultingStateHash :: "Hex option"
  ai_publicPayloadJson :: "json option"
  ai_privatePayloadCiphertext :: "nat list option"
  ai_actorIdentity :: "string option"

record StoredEvent =
  se_event :: PokerEventV1
  se_eventHash :: Hex
  se_canonicalBytesHex :: Hex
  se_resultingStateHash :: "Hex option"
  se_publicPayloadJson :: "json option"
  se_privatePayloadCiphertext :: "nat list option"
  se_actorIdentity :: "string option"
  se_persistedAtMs :: int

record ChainVerifyIssue =
  is_sequence :: int
  is_code :: store_code

record ChainVerifyResult =
  cv_ok :: bool
  cv_tip :: Hex
  cv_length :: nat
  cv_issues :: "ChainVerifyIssue list"

record CanonicalEventRow =
  cr_sessionId :: Hex
  cr_epoch :: int
  cr_handNumber :: int
  cr_sequence :: int
  cr_eventTypeCode :: int
  cr_eventTypeName :: string
  cr_hasActorSeat :: bool
  cr_actorSeat :: int
  cr_publicPayloadHash :: Hex
  cr_privatePayloadCommitment :: Hex
  cr_elapsedMs :: int
  cr_previousEventHash :: Hex
  cr_engineHash :: Hex
  cr_eventHash :: Hex
  cr_canonicalBytes :: Hex
  cr_resultingStateHash :: "Hex option"
  cr_publicPayloadJson :: "json option"
  cr_privatePayloadCiphertext :: "nat list option"
  cr_actorIdentity :: "string option"
  cr_protocolVersion :: int
  cr_persistedAtMs :: int

section \<open>The chain\<close>

definition DEFAULT_PROTOCOL_VERSION :: int where
  "DEFAULT_PROTOCOL_VERSION = 3"

definition normalizeHex :: "Hex \<Rightarrow> Hex" where
  "normalizeHex h = js_lower h"

record EventHashChain =
  ch_sessionId :: Hex
  ch_epoch :: int
  ch_rows :: "StoredEvent list"
  ch_tipHash :: Hex

definition newChain :: "Hex \<Rightarrow> int \<Rightarrow> EventHashChain" where
  "newChain sessionId epoch =
     \<lparr>ch_sessionId = normalizeHex sessionId, ch_epoch = epoch, ch_rows = [], ch_tipHash = ZERO_EVENT_HASH\<rparr>"

definition nextSequence :: "EventHashChain \<Rightarrow> int" where
  "nextSequence c = int (length (ch_rows c))"

text \<open>\<open>h ? normalizeHex(h) : null\<close>; the empty string is falsy.\<close>

definition normalizeState :: "Hex option \<Rightarrow> Hex option" where
  "normalizeState h = (case h of None \<Rightarrow> None | Some x \<Rightarrow> if x = [] then None else Some (normalizeHex x))"

definition eventOf :: "EventHashChain \<Rightarrow> AppendEventInput \<Rightarrow> PokerEventV1" where
  "eventOf c x =
     \<lparr>pe_protocolVersion = orElse (ai_protocolVersion x) DEFAULT_PROTOCOL_VERSION,
      pe_sessionId = ch_sessionId c,
      pe_epoch = ch_epoch c,
      pe_handNumber = ai_handNumber x,
      pe_sequence = orElse (ai_sequence x) (nextSequence c),
      pe_eventType = ai_eventType x,
      pe_hasActorSeat = ai_hasActorSeat x,
      pe_actorSeat = ai_actorSeat x,
      pe_publicPayloadHash = normalizeHex (ai_publicPayloadHash x),
      pe_privatePayloadCommitment = normalizeHex (orElse (ai_privatePayloadCommitment x) ZERO_EVENT_HASH),
      pe_elapsedMs = ai_elapsedMs x,
      pe_previousEventHash = normalizeHex (orElse (ai_previousEventHash x) (ch_tipHash c)),
      pe_engineHash = normalizeHex (ai_engineHash x)\<rparr>"

definition append_chain :: "viem \<Rightarrow> EventHashChain \<Rightarrow> AppendEventInput \<Rightarrow> int \<Rightarrow> store_error + StoredEvent \<times> EventHashChain" where
  "append_chain v c x nowMs =
     (if normalizeHex (ai_sessionId x) \<noteq> ch_sessionId c then Inl (EventStoreError SESSION_MISMATCH)
      else if ai_epoch x \<noteq> ch_epoch c then Inl (EventStoreError EPOCH_MISMATCH)
      else if \<not> isKnownEventType (ai_eventType x) then Inl (EventStoreError UNKNOWN_EVENT_TYPE)
      else bindE (assertActorSeatValid (ai_hasActorSeat x) (ai_actorSeat x)) (\<lambda>_.
        if orElse (ai_sequence x) (nextSequence c) \<noteq> nextSequence c then Inl (EventStoreError SEQUENCE_GAP)
        else if normalizeHex (orElse (ai_previousEventHash x) (ch_tipHash c)) \<noteq> normalizeHex (ch_tipHash c)
        then Inl (EventStoreError PREV_BREAK)
        else bindE (hashPokerEventV1 v (eventOf c x)) (\<lambda>hashed.
          let stored =
            \<lparr>se_event = eventOf c x, se_eventHash = hash hashed,
             se_canonicalBytesHex = canonicalBytesHex hashed,
             se_resultingStateHash = normalizeState (ai_resultingStateHash x),
             se_publicPayloadJson = ai_publicPayloadJson x,
             se_privatePayloadCiphertext = ai_privatePayloadCiphertext x,
             se_actorIdentity = ai_actorIdentity x, se_persistedAtMs = nowMs\<rparr>
          in Inr (stored, c\<lparr>ch_rows := ch_rows c @ [stored], ch_tipHash := hash hashed\<rparr>))))"

definition issueIf :: "bool \<Rightarrow> int \<Rightarrow> store_code \<Rightarrow> ChainVerifyIssue list" where
  "issueIf b s c = (if b then [\<lparr>is_sequence = s, is_code = c\<rparr>] else [])"

definition rowIssues :: "viem \<Rightarrow> nat \<Rightarrow> Hex \<Rightarrow> StoredEvent \<Rightarrow> store_error + ChainVerifyIssue list" where
  "rowIssues v i expectedPrev row =
     (let e = se_event row; s = pe_sequence e
      in bindE (hashPokerEventV1 v e) (\<lambda>recomputed. Inr (
           issueIf (s \<noteq> int i) s SEQUENCE_GAP @
           issueIf (\<not> isKnownEventType (pe_eventType e)) s UNKNOWN_EVENT_TYPE @
           issueIf (\<not> isOk (assertActorSeatValid (pe_hasActorSeat e) (pe_actorSeat e))) s ACTOR_SEAT_INVALID @
           issueIf (normalizeHex (pe_previousEventHash e) \<noteq> normalizeHex expectedPrev) s PREV_BREAK @
           issueIf (normalizeHex (hash recomputed) \<noteq> normalizeHex (se_eventHash row)) s HASH_MISMATCH @
           issueIf (normalizeHex (canonicalBytesHex recomputed) \<noteq> normalizeHex (se_canonicalBytesHex row)) s
             CANONICAL_BYTES_MISMATCH)))"

fun verifyRows :: "viem \<Rightarrow> nat \<Rightarrow> Hex \<Rightarrow> StoredEvent list \<Rightarrow> store_error + ChainVerifyIssue list" where
  "verifyRows v i expectedPrev [] = Inr []"
| "verifyRows v i expectedPrev (row # rows) =
     bindE (rowIssues v i expectedPrev row) (\<lambda>is.
       bindE (verifyRows v (Suc i) (se_eventHash row) rows) (\<lambda>js. Inr (is @ js)))"

definition verify :: "viem \<Rightarrow> EventHashChain \<Rightarrow> store_error + ChainVerifyResult" where
  "verify v c =
     bindE (verifyRows v 0 ZERO_EVENT_HASH (ch_rows c)) (\<lambda>issues.
       Inr \<lparr>cv_ok = (issues = []), cv_tip = ch_tipHash c, cv_length = length (ch_rows c), cv_issues = issues\<rparr>)"

definition toCanonicalRow :: "StoredEvent \<Rightarrow> CanonicalEventRow" where
  "toCanonicalRow row =
     (let e = se_event row
      in \<lparr>cr_sessionId = pe_sessionId e, cr_epoch = pe_epoch e, cr_handNumber = pe_handNumber e,
          cr_sequence = pe_sequence e, cr_eventTypeCode = pe_eventType e,
          cr_eventTypeName = eventTypeName (pe_eventType e), cr_hasActorSeat = pe_hasActorSeat e,
          cr_actorSeat = pe_actorSeat e, cr_publicPayloadHash = pe_publicPayloadHash e,
          cr_privatePayloadCommitment = pe_privatePayloadCommitment e, cr_elapsedMs = pe_elapsedMs e,
          cr_previousEventHash = pe_previousEventHash e, cr_engineHash = pe_engineHash e,
          cr_eventHash = se_eventHash row, cr_canonicalBytes = se_canonicalBytesHex row,
          cr_resultingStateHash = se_resultingStateHash row, cr_publicPayloadJson = se_publicPayloadJson row,
          cr_privatePayloadCiphertext = se_privatePayloadCiphertext row,
          cr_actorIdentity = se_actorIdentity row, cr_protocolVersion = pe_protocolVersion e,
          cr_persistedAtMs = se_persistedAtMs row\<rparr>)"

definition toCanonicalRows :: "EventHashChain \<Rightarrow> CanonicalEventRow list" where
  "toCanonicalRows c = map toCanonicalRow (ch_rows c)"

definition normalizeRow :: "StoredEvent \<Rightarrow> StoredEvent" where
  "normalizeRow row =
     (let e = se_event row
      in row\<lparr>se_event := e\<lparr>pe_sessionId := normalizeHex (pe_sessionId e),
               pe_publicPayloadHash := normalizeHex (pe_publicPayloadHash e),
               pe_privatePayloadCommitment := normalizeHex (pe_privatePayloadCommitment e),
               pe_previousEventHash := normalizeHex (pe_previousEventHash e),
               pe_engineHash := normalizeHex (pe_engineHash e)\<rparr>,
             se_eventHash := normalizeHex (se_eventHash row),
             se_canonicalBytesHex := normalizeHex (se_canonicalBytesHex row),
             se_resultingStateHash := normalizeState (se_resultingStateHash row)\<rparr>)"

fun loadRows :: "EventHashChain \<Rightarrow> StoredEvent list \<Rightarrow> EventHashChain" where
  "loadRows c [] = c"
| "loadRows c (row # rows) =
     loadRows (c\<lparr>ch_rows := ch_rows c @ [normalizeRow row], ch_tipHash := normalizeHex (se_eventHash row)\<rparr>) rows"

definition fromStored :: "viem \<Rightarrow> Hex \<Rightarrow> int \<Rightarrow> StoredEvent list \<Rightarrow> store_error + EventHashChain" where
  "fromStored v sessionId epoch stored =
     (let c = loadRows (newChain sessionId epoch) stored
      in bindE (verify v c) (\<lambda>check.
           if \<not> cv_ok check then Inl (EventStoreError (is_code (hd (cv_issues check)))) else Inr c))"

text \<open>The standalone check; \<open>storedHashes[i]!.toLowerCase()\<close> throws where the array is too short.\<close>

fun verifyEvents ::
  "viem \<Rightarrow> nat \<Rightarrow> Hex \<Rightarrow> Hex list option \<Rightarrow> PokerEventV1 list \<Rightarrow> store_error + Hex \<times> ChainVerifyIssue list" where
  "verifyEvents v i expectedPrev storedHashes [] = Inr (expectedPrev, [])"
| "verifyEvents v i expectedPrev storedHashes (e # es) =
     (let s = pe_sequence e
      in bindE (hashPokerEventV1 v e) (\<lambda>recomputed.
         bindE (case storedHashes of
                  None \<Rightarrow> Inr []
                | Some hs \<Rightarrow>
                    (case js_nth hs i of
                       None \<Rightarrow> Inl UndefinedHash
                     | Some h \<Rightarrow> Inr (issueIf (normalizeHex h \<noteq> normalizeHex (hash recomputed)) s HASH_MISMATCH)))
           (\<lambda>hi. bindE (verifyEvents v (Suc i) (hash recomputed) storedHashes es) (\<lambda>(tip, js).
             Inr (tip,
               issueIf (s \<noteq> int i) s SEQUENCE_GAP @
               issueIf (normalizeHex (pe_previousEventHash e) \<noteq> normalizeHex expectedPrev) s PREV_BREAK @
               hi @ js)))))"

definition verifyEventHashChain ::
  "viem \<Rightarrow> PokerEventV1 list \<Rightarrow> Hex list option \<Rightarrow> store_error + ChainVerifyResult" where
  "verifyEventHashChain v events storedHashes =
     bindE (verifyEvents v 0 ZERO_EVENT_HASH storedHashes events) (\<lambda>(tip, issues).
       Inr \<lparr>cv_ok = (issues = []), cv_tip = tip, cv_length = length events, cv_issues = issues\<rparr>)"

section \<open>The invariant of a chain\<close>

definition lastHash :: "Hex \<Rightarrow> StoredEvent list \<Rightarrow> Hex" where
  "lastHash p rows = (if rows = [] then p else se_eventHash (last rows))"

lemma lastHash_simps [simp]:
  "lastHash p [] = p" "lastHash p (rows @ [r]) = se_eventHash r"
  "lastHash p (r # rows) = lastHash (se_eventHash r) rows"
  by (auto simp: lastHash_def)

lemma normalizeHex_idem [simp]: "normalizeHex (normalizeHex h) = normalizeHex h"
  by (simp add: normalizeHex_def)

lemma issueIf_Nil [simp]: "issueIf b s c = [] \<longleftrightarrow> \<not> b"
  by (simp add: issueIf_def)

lemma verifyRows_append:
  "verifyRows v i p (xs @ ys) =
     bindE (verifyRows v i p xs) (\<lambda>a. bindE (verifyRows v (i + length xs) (lastHash p xs) ys) (\<lambda>b. Inr (a @ b)))"
proof (induction xs arbitrary: i p)
  case Nil
  show ?case by (cases "verifyRows v i p ys") auto
next
  case (Cons r xs)
  show ?case
    by (cases "rowIssues v i p r"; cases "verifyRows v (Suc i) (se_eventHash r) xs";
        cases "verifyRows v (Suc (i + length xs)) (lastHash (se_eventHash r) xs) ys")
      (auto simp: Cons.IH)
qed

text \<open>The encoder writes its digits in lower case.\<close>

definition enc_lower :: "viem \<Rightarrow> bool" where
  "enc_lower v \<longleftrightarrow> (\<forall>t vs b. encodeAbi v t vs = Inr b \<longrightarrow> js_lower b = b)"

lemma hashPokerEventV1_InrD:
  assumes "hashPokerEventV1 v e = Inr h"
  shows "eventHash v e = Inr h" "hash h = keccak256 v (canonicalBytesHex h)"
    "\<exists>t vs. encodeAbi v t vs = Inr (canonicalBytesHex h)"
  using assms hashEnc_InrD unfolding hashPokerEventV1_def liftEnc_Inr_iff eventHash_def by blast+

lemma hashPokerEventV1_lower:
  assumes "hashPokerEventV1 v e = Inr h" "hash_lib v" "enc_lower v"
  shows "js_lower (hash h) = hash h" "js_lower (canonicalBytesHex h) = canonicalBytesHex h"
  using hashPokerEventV1_InrD [OF assms(1)] assms(2,3) by (auto simp: hash_lib_def enc_lower_def)

definition chain_inv :: "viem \<Rightarrow> EventHashChain \<Rightarrow> bool" where
  "chain_inv v c \<longleftrightarrow>
     normalizeHex (ch_sessionId c) = ch_sessionId c \<and>
     ch_tipHash c = lastHash ZERO_EVENT_HASH (ch_rows c) \<and>
     verifyRows v 0 ZERO_EVENT_HASH (ch_rows c) = Inr [] \<and>
     (\<forall>r \<in> set (ch_rows c). pe_sessionId (se_event r) = ch_sessionId c \<and> pe_epoch (se_event r) = ch_epoch c)"

lemma chain_inv_new [simp]: "chain_inv v (newChain s e)"
  by (simp add: chain_inv_def newChain_def)

lemma append_chain_InrD:
  assumes "append_chain v c x t = Inr (r, c')"
  obtains h where "hashPokerEventV1 v (eventOf c x) = Inr h"
    "normalizeHex (ai_sessionId x) = ch_sessionId c" "ai_epoch x = ch_epoch c"
    "isKnownEventType (ai_eventType x)" "assertActorSeatValid (ai_hasActorSeat x) (ai_actorSeat x) = Inr ()"
    "pe_sequence (eventOf c x) = nextSequence c"
    "pe_previousEventHash (eventOf c x) = normalizeHex (ch_tipHash c)"
    "se_event r = eventOf c x" "se_eventHash r = hash h" "se_canonicalBytesHex r = canonicalBytesHex h"
    "se_resultingStateHash r = normalizeState (ai_resultingStateHash x)"
    "c' = c\<lparr>ch_rows := ch_rows c @ [r], ch_tipHash := hash h\<rparr>"
  using assms
  by (auto simp: append_chain_def Let_def eventOf_def split: if_splits)

lemma append_chain_inv:
  assumes "chain_inv v c" "append_chain v c x t = Inr (r, c')"
  shows "chain_inv v c'"
proof -
  obtain h where h: "hashPokerEventV1 v (eventOf c x) = Inr h" "isKnownEventType (ai_eventType x)"
    "assertActorSeatValid (ai_hasActorSeat x) (ai_actorSeat x) = Inr ()"
    "pe_sequence (eventOf c x) = nextSequence c"
    "pe_previousEventHash (eventOf c x) = normalizeHex (ch_tipHash c)"
    "se_event r = eventOf c x" "se_eventHash r = hash h" "se_canonicalBytesHex r = canonicalBytesHex h"
    "c' = c\<lparr>ch_rows := ch_rows c @ [r], ch_tipHash := hash h\<rparr>"
    using append_chain_InrD [OF assms(2)] by metis
  have "rowIssues v (length (ch_rows c)) (ch_tipHash c) r = Inr []"
    using h by (simp add: rowIssues_def Let_def nextSequence_def) (simp add: eventOf_def)
  then show ?thesis
    using assms(1) h by (auto simp: chain_inv_def verifyRows_append eventOf_def)
qed

fun appendAll :: "viem \<Rightarrow> EventHashChain \<Rightarrow> (AppendEventInput \<times> int) list \<Rightarrow> store_error + EventHashChain" where
  "appendAll v c [] = Inr c"
| "appendAll v c ((x, t) # xs) = bindE (append_chain v c x t) (\<lambda>(r, c'). appendAll v c' xs)"

lemma appendAll_inv:
  "appendAll v c xs = Inr c' \<Longrightarrow> chain_inv v c \<Longrightarrow>
     chain_inv v c' \<and> length (ch_rows c') = length (ch_rows c) + length xs \<and>
     ch_sessionId c' = ch_sessionId c \<and> ch_epoch c' = ch_epoch c"
proof (induction v c xs rule: appendAll.induct)
  case (2 v c x t xs)
  then obtain r c1 where a: "append_chain v c x t = Inr (r, c1)" and b: "appendAll v c1 xs = Inr c'" by auto
  have "length (ch_rows c1) = Suc (length (ch_rows c)) \<and> ch_sessionId c1 = ch_sessionId c \<and> ch_epoch c1 = ch_epoch c"
    using append_chain_InrD [OF a] by (metis (no_types, lifting) EventHashChain.simps EventHashChain.surjective
      EventHashChain.update_convs(3) EventHashChain.update_convs(4) length_append_singleton)
  then show ?case using 2(1) [OF b] append_chain_inv [OF 2(3) a] by auto
qed auto

lemma verify_chain_inv:
  "chain_inv v c \<Longrightarrow> verify v c =
     Inr \<lparr>cv_ok = True, cv_tip = lastHash ZERO_EVENT_HASH (ch_rows c), cv_length = length (ch_rows c), cv_issues = []\<rparr>"
  by (simp add: chain_inv_def verify_def)

section \<open>Persisting and reloading\<close>

lemma normalizeState_idem [simp]: "normalizeState (normalizeState h) = normalizeState h"
  by (auto simp: normalizeState_def normalizeHex_def js_lower_def split: option.splits)

lemma append_chain_normal:
  assumes "append_chain v c x t = Inr (r, c')" "chain_inv v c" "hash_lib v" "enc_lower v"
  shows "normalizeRow r = r"
proof -
  obtain h where h: "hashPokerEventV1 v (eventOf c x) = Inr h" "se_event r = eventOf c x"
    "se_eventHash r = hash h" "se_canonicalBytesHex r = canonicalBytesHex h"
    "se_resultingStateHash r = normalizeState (ai_resultingStateHash x)"
    using append_chain_InrD [OF assms(1)] by metis
  have "normalizeHex (hash h) = hash h" "normalizeHex (canonicalBytesHex h) = canonicalBytesHex h"
    using hashPokerEventV1_lower [OF h(1) assms(3,4)] by (simp_all add: normalizeHex_def)
  then show ?thesis
    using h(2-5) assms(2) by (cases r) (simp add: normalizeRow_def Let_def eventOf_def chain_inv_def)
qed

lemma appendAll_normal:
  "appendAll v c xs = Inr c' \<Longrightarrow> chain_inv v c \<Longrightarrow> hash_lib v \<Longrightarrow> enc_lower v \<Longrightarrow>
     map normalizeRow (ch_rows c) = ch_rows c \<Longrightarrow> map normalizeRow (ch_rows c') = ch_rows c'"
proof (induction v c xs rule: appendAll.induct)
  case (2 v c x t xs)
  then obtain r c1 where a: "append_chain v c x t = Inr (r, c1)" and b: "appendAll v c1 xs = Inr c'" by auto
  have "ch_rows c1 = ch_rows c @ [r]" using append_chain_InrD [OF a] by (metis (no_types, lifting)
      EventHashChain.select_convs(3) EventHashChain.surjective EventHashChain.update_convs(3,4))
  then have "map normalizeRow (ch_rows c1) = ch_rows c1"
    using append_chain_normal [OF a 2(3-5)] 2(6) by simp
  then show ?case using 2(1) [OF b append_chain_inv [OF 2(3) a] 2(4,5)] by blast
qed auto

lemma loadRows_eq:
  "loadRows c rows = c\<lparr>ch_rows := ch_rows c @ map normalizeRow rows,
     ch_tipHash := (if rows = [] then ch_tipHash c else normalizeHex (se_eventHash (last rows)))\<rparr>"
  by (induction c rows rule: loadRows.induct) (auto simp: normalizeRow_def Let_def)

lemma fromStored_reload:
  assumes "chain_inv v c" "map normalizeRow (ch_rows c) = ch_rows c" "normalizeHex s = ch_sessionId c"
  shows "fromStored v s (ch_epoch c) (ch_rows c) = Inr c"
proof -
  have n: "normalizeHex (se_eventHash (last (ch_rows c))) = se_eventHash (last (ch_rows c))" if "ch_rows c \<noteq> []"
  proof -
    have "normalizeRow (last (ch_rows c)) = last (ch_rows c)"
      using assms(2) that by (metis last_map)
    then show ?thesis
      by (metis (no_types, lifting) StoredEvent.select_convs(2) StoredEvent.surjective
          StoredEvent.update_convs(1-4) normalizeRow_def)
  qed
  have "loadRows (newChain s (ch_epoch c)) (ch_rows c) = c"
    using assms n unfolding loadRows_eq
    by (cases c) (auto simp: newChain_def chain_inv_def lastHash_def)
  then show ?thesis using verify_chain_inv [OF assms(1)] by (simp add: fromStored_def)
qed

section \<open>Tamper evidence\<close>

definition ev_norm :: "PokerEventV1 \<Rightarrow> PokerEventV1" where
  "ev_norm e = e\<lparr>pe_sessionId := js_lower (pe_sessionId e),
     pe_publicPayloadHash := js_lower (pe_publicPayloadHash e),
     pe_privatePayloadCommitment := js_lower (pe_privatePayloadCommitment e),
     pe_previousEventHash := js_lower (pe_previousEventHash e), pe_engineHash := js_lower (pe_engineHash e)\<rparr>"

definition event_bytes :: "viem \<Rightarrow> PokerEventV1 \<Rightarrow> Hex" where
  "event_bytes v e = (case eventHash v e of Inl _ \<Rightarrow> [] | Inr h \<Rightarrow> canonicalBytesHex h)"

lemma eventHash_binding:
  assumes "eventHash v e = Inr h" "eventHash v f = Inr k" "hash h = hash k" "abi_injective v"
  shows "ev_norm e = ev_norm f \<or> collides v (event_bytes v e) (event_bytes v f)"
proof -
  have "ev_norm e = ev_norm f" if "\<not> collides v (event_bytes v e) (event_bytes v f)"
    using hashEnc_binding [OF assms(1,2) [unfolded eventHash_def] assms(3,4)] that assms(1,2)
    by (cases e; cases f) (simp add: event_bytes_def ev_norm_def)
  then show ?thesis by blast
qed

lemma verifyEvents_append:
  "verifyEvents v i p None (xs @ [e]) = Inr (tip, []) \<longleftrightarrow>
     (\<exists>q h. verifyEvents v i p None xs = Inr (q, []) \<and> hashPokerEventV1 v e = Inr h \<and> tip = hash h \<and>
        pe_sequence e = int (i + length xs) \<and> normalizeHex (pe_previousEventHash e) = normalizeHex q)"
proof (induction xs arbitrary: i p)
  case Nil
  show ?case by (auto simp: Let_def bindE_Inr_iff)
next
  case (Cons x xs)
  show ?case by (auto simp: Let_def bindE_Inr_iff Cons.IH)
qed

lemma verifyEvents_nonempty_lower:
  assumes "verifyEvents v i p None xs = Inr (tip, [])" "xs \<noteq> []" "hash_lib v"
  shows "js_lower tip = tip"
proof -
  obtain ys e where "xs = ys @ [e]" using assms(2) rev_exhaust by blast
  then obtain h where "hashPokerEventV1 v e = Inr h" "tip = hash h" using assms(1) verifyEvents_append by blast
  then show ?thesis using hashPokerEventV1_InrD(2) assms(3) by (simp add: hash_lib_def)
qed

lemma verified_tip_binds:
  assumes "hash_lib v" "abi_injective v"
  shows "verifyEvents v 0 ZERO_EVENT_HASH None es = Inr (tip, []) \<Longrightarrow>
    verifyEvents v 0 ZERO_EVENT_HASH None fs = Inr (tip, []) \<Longrightarrow> es \<noteq> [] \<Longrightarrow> fs \<noteq> [] \<Longrightarrow>
    map ev_norm es = map ev_norm fs \<or> (\<exists>e \<in> set es. \<exists>f \<in> set fs. collides v (event_bytes v e) (event_bytes v f))"
proof (induction es arbitrary: fs tip rule: rev_induct)
  case (snoc e es)
  obtain f fs' where fs: "fs = fs' @ [f]" using snoc.prems(4) rev_exhaust by blast
  obtain q h where e: "verifyEvents v 0 ZERO_EVENT_HASH None es = Inr (q, [])" "hashPokerEventV1 v e = Inr h"
    "tip = hash h" "pe_sequence e = int (length es)" "normalizeHex (pe_previousEventHash e) = normalizeHex q"
    using snoc.prems(1) by (auto simp: verifyEvents_append)
  obtain q' k where f: "verifyEvents v 0 ZERO_EVENT_HASH None fs' = Inr (q', [])" "hashPokerEventV1 v f = Inr k"
    "tip = hash k" "pe_sequence f = int (length fs')" "normalizeHex (pe_previousEventHash f) = normalizeHex q'"
    using snoc.prems(2) fs by (auto simp: verifyEvents_append)
  show ?case
  proof (cases "collides v (event_bytes v e) (event_bytes v f)")
    case False
    then have n: "ev_norm e = ev_norm f"
      using eventHash_binding [OF hashPokerEventV1_InrD(1) [OF e(2)] hashPokerEventV1_InrD(1) [OF f(2)] _ assms(2)]
        e(3) f(3) by auto
    then have seq: "length es = length fs'" and prev: "js_lower q = js_lower q'"
      using e(4,5) f(4,5) unfolding ev_norm_def normalizeHex_def
      by (auto dest: arg_cong [where f = pe_sequence] arg_cong [where f = pe_previousEventHash])
    show ?thesis
    proof (cases "es = []")
      case True
      then show ?thesis using seq n fs by auto
    next
      case False
      then have ne: "fs' \<noteq> []" using seq by auto
      have "q = q'" using prev verifyEvents_nonempty_lower [OF e(1) False assms(1)]
        verifyEvents_nonempty_lower [OF f(1) ne assms(1)] by simp
      then show ?thesis using snoc.IH [OF e(1) _ False ne] f(1) n fs by auto
    qed
  qed (auto simp: fs)
qed simp

section \<open>Street payloads\<close>

text \<open>The packing as a base-256 numeral, and the digits read back.\<close>

fun pack_ref :: "int list \<Rightarrow> nat" where
  "pack_ref [] = 0"
| "pack_ref (c # cs) = nat (c AND 255) + 256 * pack_ref cs"

lemma and_255: "c AND 255 = c mod 256" for c :: int
  using take_bit_eq_mask [of 8 c] by (simp add: take_bit_eq_mod mask_eq_exp_minus_1)

lemma packCards_ref: "word < 2 ^ (8 * i) \<Longrightarrow> packCards i cs word = word + 2 ^ (8 * i) * pack_ref cs"
proof (induction cs arbitrary: i word)
  case (Cons c cs)
  let ?b = "nat (c AND 255)"
  have b: "?b < 256" by (simp add: and_255)
  have "word AND push_bit (8 * i) ?b = 0"
  proof (rule bit_eqI)
    fix n
    have "bit word n \<Longrightarrow> n < 8 * i"
      using Cons.prems by (metis bit_take_bit_iff take_bit_nat_eq_self)
    then show "bit (word AND push_bit (8 * i) ?b) n = bit 0 n"
      by (auto simp: bit_and_iff bit_push_bit_iff)
  qed
  then have w: "word OR push_bit (8 * i) ?b = word + 2 ^ (8 * i) * ?b"
    by (simp add: disjunctive_add_eq_or [symmetric] push_bit_eq_mult mult.commute)
  have "(2 :: nat) ^ (8 * i) * ?b \<le> 2 ^ (8 * i) * 255" using b by (intro mult_le_mono2) linarith
  moreover have "(2 :: nat) ^ (8 * Suc i) = 256 * 2 ^ (8 * i)" by (simp add: power_add)
  ultimately have "word OR push_bit (8 * i) ?b < 2 ^ (8 * Suc i)"
    unfolding w using Cons.prems by linarith
  then have "packCards i (c # cs) word = word + 2 ^ (8 * i) * ?b + 2 ^ (8 * Suc i) * pack_ref cs"
    using Cons.IH w by simp
  then show ?case by (simp add: algebra_simps power_add)
qed simp

lemma pack_ref_inj:
  "length cs = length ds \<Longrightarrow> list_all (\<lambda>c. 0 \<le> c \<and> c < 256) cs \<Longrightarrow> list_all (\<lambda>c. 0 \<le> c \<and> c < 256) ds \<Longrightarrow>
     pack_ref cs = pack_ref ds \<Longrightarrow> cs = ds"
proof (induction cs ds rule: list_induct2)
  case (Cons c cs d ds)
  have cd: "nat (c AND 255) < 256" "nat (d AND 255) < 256" by (simp_all add: and_255)
  have "pack_ref (c # cs) mod 256 = nat (c AND 255)" "pack_ref (d # ds) mod 256 = nat (d AND 255)"
    "pack_ref (c # cs) div 256 = pack_ref cs" "pack_ref (d # ds) div 256 = pack_ref ds"
    using cd by simp_all
  then have "nat (c AND 255) = nat (d AND 255) \<and> pack_ref cs = pack_ref ds"
    unfolding Cons.prems(3) by simp
  then show ?case using Cons by (simp add: and_255 nat_eq_iff)
qed simp

definition hex_digit_value :: "char \<Rightarrow> nat" where
  "hex_digit_value c = nat (js_indexOf ''0123456789abcdef'' c)"

fun hex_value :: "nat \<Rightarrow> string \<Rightarrow> nat" where
  "hex_value a [] = a"
| "hex_value a (c # s) = hex_value (16 * a + hex_digit_value c) s"

lemma hex_value_append: "hex_value a (s @ t) = hex_value (hex_value a s) t"
  by (induction a s rule: hex_value.induct) auto

lemma hex_char_value: "d < 16 \<Longrightarrow> hex_digit_value (hex_char d) = d"
  unfolding hex_char_def hex_digit_value_def by (subst js_indexOf_nth) auto

lemma hex_value_hex_string: "hex_value 0 (hex_string n) = n"
proof (induction n rule: hex_string.induct)
  case (1 n)
  then show ?case
    by (subst hex_string.simps) (simp add: hex_char_value hex_value_append)
qed

lemma hex_value_padStart: "hex_value 0 (padStart w (CHR ''0'') s) = hex_value 0 s"
proof -
  have "hex_digit_value (CHR ''0'') = 0" by code_simp
  then have "hex_value 0 (replicate k (CHR ''0'')) = 0" for k by (induction k) auto
  then show ?thesis by (simp add: padStart_def hex_value_append)
qed

lemma lower_hex_string [simp]: "js_lower (hex_string n) = hex_string n"
proof (induction n rule: hex_string.induct)
  case (1 n)
  have low: "lower_char (hex_char d) = hex_char d" if "d < 16" for d
  proof -
    have "hex_char d \<in> set ''0123456789abcdef''" using that unfolding hex_char_def by (intro nth_mem) simp
    then show ?thesis by (auto simp: lower_char_def)
  qed
  show ?case
    using 1 low by (subst (1 2) hex_string.simps) (auto simp: js_lower_def)
qed

lemma lower_cardsWord:
  "js_lower (''0x'' @ padStart 64 (CHR ''0'') (hex_string n)) = ''0x'' @ padStart 64 (CHR ''0'') (hex_string n)"
  using lower_hex_string [of n] unfolding js_lower_def padStart_def
  by (simp add: lower_char_def [of "CHR ''0''"] lower_char_def [of "CHR ''x''"] map_replicate_const)

definition streetWord :: "int list \<Rightarrow> Hex" where
  "streetWord cs = ''0x'' @ padStart 64 (CHR ''0'') (hex_string (packCards 0 cs 0))"

lemma streetWord_inj:
  assumes "length cs = length ds" "list_all (\<lambda>c. 0 \<le> c \<and> c < 256) cs" "list_all (\<lambda>c. 0 \<le> c \<and> c < 256) ds"
    and "streetWord cs = streetWord ds"
  shows "cs = ds"
proof -
  have "padStart 64 (CHR ''0'') (hex_string (packCards 0 cs 0)) = padStart 64 (CHR ''0'') (hex_string (packCards 0 ds 0))"
    using assms(4) by (simp add: streetWord_def)
  then have "packCards 0 cs 0 = packCards 0 ds 0"
    by (metis hex_value_padStart hex_value_hex_string)
  then show ?thesis using pack_ref_inj [OF assms(1-3)] by (simp add: packCards_ref)
qed

definition street_bytes :: "viem \<Rightarrow> int list \<Rightarrow> Hex" where
  "street_bytes v cs =
     (case enc v ''uint8 nCards, bytes32 cardsWord'' [AInt (int (length cs)), AHex (streetWord cs)] of
        Inl _ \<Rightarrow> [] | Inr b \<Rightarrow> b)"

lemma verifyRows_sequence:
  "verifyRows v i p rows = Inr [] \<Longrightarrow> k < length rows \<Longrightarrow> pe_sequence (se_event (rows ! k)) = int (i + k)"
proof (induction rows arbitrary: i p k)
  case (Cons r rows)
  then show ?case by (cases k) (auto simp: rowIssues_def Let_def)
qed simp

lemma js_lower_append [simp]: "js_lower (x @ y) = js_lower x @ js_lower y"
  by (simp add: js_lower_def)

lemma js_lower_concat_fixed: "(\<And>x. x \<in> set xs \<Longrightarrow> js_lower x = x) \<Longrightarrow> js_lower (concat xs) = concat xs"
proof (induction xs)
  case (Cons x xs)
  then show ?case by simp
qed (simp add: js_lower_def)

lemma lower_self_delim: "js_lower s = s \<Longrightarrow> js_lower (self_delim s) = self_delim s"
  by (simp add: self_delim_def js_lower_def lower_char_def [of "CHR ''0''"] lower_char_def [of "CHR ''1''"]
      map_replicate_const)

lemma lower_abi_show: "js_lower (abi_show a) = abi_show a"
proof (induction a rule: abi_show.induct)
  case (4 rows)
  have "js_lower (concat (map abi_show r)) = concat (map abi_show r)" if "r \<in> set rows" for r
    using 4 [OF that] by (intro js_lower_concat_fixed) auto
  then have "js_lower (concat (map (\<lambda>r. self_delim (concat (map abi_show r))) rows)) =
      concat (map (\<lambda>r. self_delim (concat (map abi_show r))) rows)"
    by (intro js_lower_concat_fixed) (auto intro: lower_self_delim)
  then have "js_lower (self_delim (concat (map (\<lambda>r. self_delim (concat (map abi_show r))) rows))) =
      self_delim (concat (map (\<lambda>r. self_delim (concat (map abi_show r))) rows))"
    by (rule lower_self_delim)
  then show ?case by (simp add: js_lower_def lower_char_def [of "CHR ''r''"])
next
  case (1 h)
  have "js_lower (self_delim (js_lower h)) = self_delim (js_lower h)" by (rule lower_self_delim) simp
  then show ?case by (simp add: js_lower_def lower_char_def [of "CHR ''h''"])
next
  case (2 i)
  have "list_all (\<lambda>c. lower_char c = c) ''01mpi''" by code_simp
  then show ?case by (simp add: self_delim_def js_lower_def map_replicate_const)
next
  case (3 b)
  have "list_all (\<lambda>c. lower_char c = c) ''tf''" by code_simp
  then show ?case by (simp add: js_lower_def)
qed

lemma demo_viem_enc_lower: "enc_lower demo_viem"
proof -
  have "js_lower (concat (map abi_show vs)) = concat (map abi_show vs)" for vs
    by (rule js_lower_concat_fixed) (auto simp: lower_abi_show)
  then show ?thesis by (auto simp: enc_lower_def demo_viem_def)
qed

section \<open>Properties\<close>

text \<open>What is appended verifies and survives a reload. Whatever rows a fresh chain accepts, \<open>verify\<close>
  reports no issue on the result, the tip is the last event's hash, the rows carry the sequence numbers
  0, 1, 2, ... without a gap, and rebuilding the chain from the stored rows with \<open>fromStored\<close> gives back
  exactly the same chain.\<close>

theorem event_log_verifies_and_reloads:
  assumes "hash_lib v" "enc_lower v" "appendAll v (newChain s ep) xs = Inr c"
  shows "verify v c = Inr \<lparr>cv_ok = True, cv_tip = ch_tipHash c, cv_length = length xs, cv_issues = []\<rparr> \<and>
    ch_tipHash c = lastHash ZERO_EVENT_HASH (ch_rows c) \<and>
    (\<forall>i < length xs. pe_sequence (se_event (ch_rows c ! i)) = int i) \<and>
    fromStored v s ep (ch_rows c) = Inr c"
proof -
  have inv: "chain_inv v c" "length (ch_rows c) = length xs" "ch_sessionId c = normalizeHex s" "ch_epoch c = ep"
    using appendAll_inv [OF assms(3) chain_inv_new] by (auto simp: newChain_def)
  have "map normalizeRow (ch_rows c) = ch_rows c"
    using appendAll_normal [OF assms(3) chain_inv_new assms(1,2)] by (simp add: newChain_def)
  then have "fromStored v s ep (ch_rows c) = Inr c"
    using fromStored_reload [OF inv(1), of s] inv(3,4) by simp
  moreover have "pe_sequence (se_event (ch_rows c ! i)) = int i" if "i < length xs" for i
    using verifyRows_sequence inv(1,2) that unfolding chain_inv_def by fastforce
  ultimately show ?thesis using verify_chain_inv [OF inv(1)] inv(1,2) by (simp add: chain_inv_def)
qed

definition demo_input :: "int \<Rightarrow> AppendEventInput" where
  "demo_input ty = \<lparr>ai_protocolVersion = None, ai_sessionId = ''0xAB'', ai_epoch = 0, ai_handNumber = 1,
     ai_sequence = None, ai_eventType = ty, ai_hasActorSeat = False, ai_actorSeat = 0,
     ai_publicPayloadHash = ''0x01'', ai_privatePayloadCommitment = None, ai_elapsedMs = 5,
     ai_previousEventHash = None, ai_engineHash = ''0x02'', ai_resultingStateHash = None,
     ai_publicPayloadJson = None, ai_privatePayloadCiphertext = None, ai_actorIdentity = None\<rparr>"

lemma demo_eventHash:
  "eventHash demo_viem e = Inr \<lparr>canonicalBytesHex = event_bytes demo_viem e, hash = demo_keccak (event_bytes demo_viem e)\<rparr>"
  by (simp add: event_bytes_def eventHash_def hashEnc_def demo_viem_def)

definition demo_chain :: EventHashChain where
  "demo_chain = (case appendAll demo_viem (newChain ''0xAb'' 0) [(demo_input 1, 7), (demo_input 40, 8)] of
     Inl _ \<Rightarrow> newChain [] 0 | Inr c \<Rightarrow> c)"

lemma demo_chain_appended:
  "appendAll demo_viem (newChain ''0xAb'' 0) [(demo_input 1, 7), (demo_input 40, 8)] = Inr demo_chain"
proof -
  have "isKnownEventType 1" "isKnownEventType 40" "normalizeHex ''0xAB'' = normalizeHex ''0xAb''"
    by code_simp+
  then have "isOk (appendAll demo_viem (newChain ''0xAb'' 0) [(demo_input 1, 7), (demo_input 40, 8)])"
    by (simp add: append_chain_def demo_input_def newChain_def assertActorSeatValid_def nextSequence_def
        hashPokerEventV1_def demo_eventHash Let_def)
  then show ?thesis unfolding demo_chain_def isOk_iff by auto
qed

theorem event_log_verifies_and_reloads_witness:
  "fromStored demo_viem ''0xAb'' 0 (ch_rows demo_chain) = Inr demo_chain"
  using event_log_verifies_and_reloads [OF demo_viem_hash_lib demo_viem_enc_lower demo_chain_appended] by simp

text \<open>C11: The tip of a verified log commits to the whole log. If two non-empty event lists pass
  \<open>verifyEventHashChain\<close> and end in the same tip, they are the same events in the same order, up to the case
  of hex digits, or two of their events have colliding encodings; no assumption on the lengths is needed.\<close>

theorem event_tip_commits_to_log:
  assumes "hash_lib v" "abi_injective v"
    and "verifyEventHashChain v es None = Inr r" "cv_ok r" "verifyEventHashChain v fs None = Inr q" "cv_ok q"
    and "cv_tip r = cv_tip q" "es \<noteq> []" "fs \<noteq> []"
  shows "map ev_norm es = map ev_norm fs \<or>
    (\<exists>e \<in> set es. \<exists>f \<in> set fs. collides v (event_bytes v e) (event_bytes v f))"
proof -
  have "verifyEvents v 0 ZERO_EVENT_HASH None es = Inr (cv_tip r, [])"
    "verifyEvents v 0 ZERO_EVENT_HASH None fs = Inr (cv_tip r, [])"
    using assms(3-7) by (auto simp: verifyEventHashChain_def)
  then show ?thesis using verified_tip_binds [OF assms(1,2)] assms(8,9) by blast
qed

definition demo_event :: PokerEventV1 where
  "demo_event = eventOf (newChain ''0xab'' 0) (demo_input 1)"

lemma demo_event_facts:
  "eventHash demo_viem (demo_event\<lparr>pe_sessionId := ''0xAB''\<rparr>) = eventHash demo_viem demo_event"
  "pe_sequence demo_event = 0" "pe_previousEventHash demo_event = ZERO_EVENT_HASH"
proof -
  have "js_lower ''0xAB'' = js_lower ''0xab''" "normalizeHex ''0xab'' = ''0xab''" by code_simp+
  then show "eventHash demo_viem (demo_event\<lparr>pe_sessionId := ''0xAB''\<rparr>) = eventHash demo_viem demo_event"
    by (simp add: eventHash_def hashEnc_def demo_viem_def demo_event_def eventOf_def newChain_def demo_input_def)
  show "pe_sequence demo_event = 0" "pe_previousEventHash demo_event = ZERO_EVENT_HASH"
    by (code_simp, code_simp)
qed

theorem event_tip_commits_to_log_witness:
  "map ev_norm [demo_event] = map ev_norm [demo_event\<lparr>pe_sessionId := ''0xAB''\<rparr>] \<or>
   (\<exists>e \<in> set [demo_event]. \<exists>f \<in> set [demo_event\<lparr>pe_sessionId := ''0xAB''\<rparr>].
      collides demo_viem (event_bytes demo_viem e) (event_bytes demo_viem f))"
  by (rule event_tip_commits_to_log [OF demo_viem_hash_lib demo_viem_injective,
        where r = "\<lparr>cv_ok = True, cv_tip = demo_keccak (event_bytes demo_viem demo_event), cv_length = 1, cv_issues = []\<rparr>"
          and q = "\<lparr>cv_ok = True, cv_tip = demo_keccak (event_bytes demo_viem demo_event), cv_length = 1, cv_issues = []\<rparr>"])
    (simp_all add: verifyEventHashChain_def Let_def hashPokerEventV1_def demo_event_facts issueIf_def demo_eventHash [of demo_event])

text \<open>No fork and no replay. After an accepted append, an input that names any other sequence number than
  the next one is refused with SEQUENCE_GAP, and one that builds on anything but the new tip is refused with
  PREV_BREAK; in particular the same numbered input cannot be appended twice.\<close>

theorem append_refuses_forks:
  assumes "append_chain v c x t = Inr (r, c')"
  shows "(n \<noteq> int (length (ch_rows c')) \<longrightarrow>
      append_chain v c' (x\<lparr>ai_sequence := Some n\<rparr>) u = Inl (EventStoreError SEQUENCE_GAP)) \<and>
    (normalizeHex h \<noteq> normalizeHex (se_eventHash r) \<longrightarrow>
      append_chain v c' (x\<lparr>ai_sequence := None, ai_previousEventHash := Some h\<rparr>) u = Inl (EventStoreError PREV_BREAK)) \<and>
    (ai_sequence x \<noteq> None \<longrightarrow> append_chain v c' x u = Inl (EventStoreError SEQUENCE_GAP))"
proof -
  obtain k :: HashResult where k: "normalizeHex (ai_sessionId x) = ch_sessionId c" "ai_epoch x = ch_epoch c"
    "isKnownEventType (ai_eventType x)" "assertActorSeatValid (ai_hasActorSeat x) (ai_actorSeat x) = Inr ()"
    "pe_sequence (eventOf c x) = nextSequence c" "se_eventHash r = hash k"
    "c' = c\<lparr>ch_rows := ch_rows c @ [r], ch_tipHash := hash k\<rparr>"
    by (rule append_chain_InrD [OF assms], rule that; assumption)
  have "ai_sequence x = Some n \<Longrightarrow> n = nextSequence c" for n using k(5) by (simp add: eventOf_def)
  then show ?thesis
    using k by (cases "ai_sequence x") (simp_all add: append_chain_def nextSequence_def)
qed

theorem append_refuses_forks_witness:
  "\<exists>r c. append_chain demo_viem (newChain ''0xAb'' 0) (demo_input 1) 7 = Inr (r, c) \<and>
     append_chain demo_viem c ((demo_input 1)\<lparr>ai_sequence := Some 0\<rparr>) 9 = Inl (EventStoreError SEQUENCE_GAP)"
proof -
  obtain p where "append_chain demo_viem (newChain ''0xAb'' 0) (demo_input 1) 7 = Inr p"
    using demo_chain_appended unfolding appendAll.simps by (rule bindE_InrE)
  then obtain r c where a: "append_chain demo_viem (newChain ''0xAb'' 0) (demo_input 1) 7 = Inr (r, c)"
    by (cases p) simp
  have "length (ch_rows c) = 1" by (rule append_chain_InrD [OF a]) (simp add: newChain_def)
  then show ?thesis using append_refuses_forks [OF a, of 0 9] a by auto
qed

text \<open>A street payload commits to its cards: two payloads of at most five card codes with the same hash list
  the same codes in the same order, or their encodings are an explicit collision; more than five are refused.\<close>

theorem street_payload_binding:
  assumes "abi_injective v" "list_all (\<lambda>c. 0 \<le> c \<and> c < 256) cs" "list_all (\<lambda>c. 0 \<le> c \<and> c < 256) ds"
    and "hashStreetPayload v cs = Inr h" "hashStreetPayload v ds = Inr h"
  shows "length cs \<le> 5 \<and> (cs = ds \<or> collides v (street_bytes v cs) (street_bytes v ds))"
proof -
  obtain b where b: "enc v ''uint8 nCards, bytes32 cardsWord'' [AInt (int (length cs)), AHex (streetWord cs)] = Inr b"
    "h = keccak256 v b" and len: "length cs \<le> 5"
    using assms(4) by (auto simp: hashStreetPayload_def Let_def keccakEnc_def streetWord_def split: if_splits)
  obtain d where d: "enc v ''uint8 nCards, bytes32 cardsWord'' [AInt (int (length ds)), AHex (streetWord ds)] = Inr d"
    "h = keccak256 v d"
    using assms(5) by (auto simp: hashStreetPayload_def Let_def keccakEnc_def streetWord_def split: if_splits)
  have "cs = ds" if "b = d"
  proof -
    have "map abi_norm [AInt (int (length cs)), AHex (streetWord cs)] = map abi_norm [AInt (int (length ds)), AHex (streetWord ds)]"
      using assms(1) b(1) d(1) that unfolding abi_injective_def enc_def by blast
    then show ?thesis
      using streetWord_inj [OF _ assms(2,3)] lower_cardsWord by (simp add: streetWord_def)
  qed
  then show ?thesis using b d len by (auto simp: collides_def street_bytes_def)
qed

theorem street_payload_binding_witness:
  "\<exists>h. hashStreetPayload demo_viem [3, 20, 51] = Inr h \<and> length [3 :: int, 20, 51] \<le> 5"
proof -
  have "isOk (hashStreetPayload demo_viem [3, 20, 51])"
    by (simp add: hashStreetPayload_def Let_def keccakEnc_def enc_def demo_viem_def)
  then obtain h where h: "hashStreetPayload demo_viem [3, 20, 51] = Inr h" by (auto simp: isOk_iff)
  show ?thesis
    using street_payload_binding [OF demo_viem_injective _ _ h h] h by auto
qed

end
