(* ===== verification/Root_Builder.thy ===== *)
theory Root_Builder
  imports Event_Store
begin

text \<open>
  \<^verbatim>\<open>packages/root-builder/src\<close>: the roots a settlement is proposed with. Balance leaves are sorted by seat
  and hashed into a Merkle root, a hand root commits to the tip of the hand's events, a proof batch to
  checkpoint roots, and the settlement digest to all of them, after the conservation check. The texts of
  the errors are not modelled.
\<close>

datatype RootBuilderCode =
    DUPLICATE_SEAT | NEGATIVE_BALANCE | EMPTY_LEAVES | SEAT_NOT_FOUND | CONSERVATION_BROKEN | PROOF_INVALID

datatype StubRootCode = MISSING_EVENT_ROOT | MISSING_HAND_ROOT | MISSING_BALANCE_ROOT | STUB_FORBIDDEN

datatype root_error =
    RootBuilderError RootBuilderCode | StubRootError StubRootCode | HandIdRequired | RootEncoding enc_error

fun liftRoot :: "enc_error + 'a \<Rightarrow> root_error + 'a" where
  "liftRoot (Inl e) = Inl (RootEncoding e)"
| "liftRoot (Inr x) = Inr x"

lemma liftRoot_Inr_iff [simp]: "liftRoot m = Inr x \<longleftrightarrow> m = Inr x"
  by (cases m) auto

section \<open>Balance root\<close>

record EncodedBalanceLeaf =
  lf_seat :: int
  lf_arenaAccount :: Hex
  lf_fields :: BalanceLeafInput
  lf_canonicalBytesHex :: Hex
  lf_leafHash :: Hex

record BalanceRootResult =
  br_leaves :: "EncodedBalanceLeaf list"
  br_balanceRoot :: Hex

definition encodeOne :: "viem \<Rightarrow> BalanceLeafInput \<Rightarrow> root_error + EncodedBalanceLeaf" where
  "encodeOne v leaf =
     (if bl_currentBalance leaf < 0 \<or> bl_openingBalance leaf < 0
      then Inl (RootBuilderError NEGATIVE_BALANCE)
      else bindE (liftRoot (balanceLeaf v leaf)) (\<lambda>hashed.
        Inr \<lparr>lf_seat = bl_seat leaf, lf_arenaAccount = bl_arenaAccount leaf, lf_fields = leaf,
             lf_canonicalBytesHex = canonicalBytesHex hashed, lf_leafHash = hash hashed\<rparr>))"

fun checkSeats :: "int list \<Rightarrow> BalanceLeafInput list \<Rightarrow> root_error + unit" where
  "checkSeats seats [] = Inr ()"
| "checkSeats seats (l # ls) =
     (if bl_seat l \<in> set seats then Inl (RootBuilderError DUPLICATE_SEAT)
      else checkSeats (bl_seat l # seats) ls)"

definition buildBalanceRoot :: "viem \<Rightarrow> BalanceLeafInput list \<Rightarrow> root_error + BalanceRootResult" where
  "buildBalanceRoot v inputs =
     (if inputs = [] then Inl (RootBuilderError EMPTY_LEAVES)
      else bindE (checkSeats [] inputs) (\<lambda>_.
        let ordered = js_sort (\<lambda>a b. bl_seat a - bl_seat b) inputs
        in bindE (mapE (encodeOne v) ordered) (\<lambda>leaves.
             Inr \<lparr>br_leaves = leaves, br_balanceRoot = root (merkleRoot v (map lf_leafHash leaves))\<rparr>)))"

definition encodeBalanceLeaf :: "viem \<Rightarrow> BalanceLeafInput \<Rightarrow> root_error + EncodedBalanceLeaf" where
  "encodeBalanceLeaf v leaf = encodeOne v leaf"

text \<open>\<open>xs.findIndex(p)\<close> with \<open>None\<close> for -1.\<close>

fun findIndex :: "('a \<Rightarrow> bool) \<Rightarrow> 'a list \<Rightarrow> nat option" where
  "findIndex p [] = None"
| "findIndex p (x # xs) = (if p x then Some 0 else map_option Suc (findIndex p xs))"

definition balanceProofForSeat ::
  "viem \<Rightarrow> BalanceRootResult \<Rightarrow> int \<Rightarrow> root_error + EncodedBalanceLeaf \<times> nat \<times> MerkleProofStep list" where
  "balanceProofForSeat v result seat =
     (case findIndex (\<lambda>l. lf_seat l = seat) (br_leaves result) of
        None \<Rightarrow> Inl (RootBuilderError SEAT_NOT_FOUND)
      | Some index \<Rightarrow>
          Inr (br_leaves result ! index, index, proofForIndex v (map lf_leafHash (br_leaves result)) index))"

definition verifyBalanceInclusion :: "viem \<Rightarrow> Hex \<Rightarrow> MerkleProofStep list \<Rightarrow> Hex \<Rightarrow> bool option" where
  "verifyBalanceInclusion v leafHash steps balanceRoot = verifyMerkleProof v leafHash steps balanceRoot"

section \<open>Hand root\<close>

record EventHashLike =
  eh_eventHash :: Hex
  eh_handNumber :: "int option"
  eh_sequence :: "int option"

datatype EventChainTipSource =
    FromTip Hex | FromEvents "EventHashLike list" | FromHashes "Hex list"

definition resolveEventChainTip :: "EventChainTipSource \<Rightarrow> Hex" where
  "resolveEventChainTip source =
     (case source of
        FromTip tip \<Rightarrow> js_lower tip
      | FromHashes hashes \<Rightarrow> if hashes = [] then ZERO32 else js_lower (last hashes)
      | FromEvents events \<Rightarrow> if events = [] then ZERO32 else js_lower (eh_eventHash (last events)))"

definition tipForHand :: "EventHashLike list \<Rightarrow> int \<Rightarrow> Hex" where
  "tipForHand events handNumber =
     (let filtered = filter (\<lambda>e. eh_handNumber e = Some handNumber) events
      in if filtered = [] then ZERO32 else js_lower (eh_eventHash (last filtered)))"

record HandRootInput =
  hi_handId :: Hex
  hi_eventChainTip :: Hex
  hi_deckRoot :: Hex
  hi_openingStateHash :: Hex
  hi_endingStateHash :: Hex
  hi_handRake :: int
  hi_energyLedgerRoot :: "Hex option"

record HandRootResult =
  hs_handId :: Hex
  hs_eventChainTip :: Hex
  hs_deckRoot :: Hex
  hs_openingStateHash :: Hex
  hs_endingStateHash :: Hex
  hs_handRake :: int
  hs_energyLedgerRoot :: Hex
  hs_canonicalBytesHex :: Hex
  hs_handRoot :: Hex

definition buildHandRoot :: "viem \<Rightarrow> HandRootInput \<Rightarrow> root_error + HandRootResult" where
  "buildHandRoot v x =
     (let energyLedgerRoot = js_lower (orElse (hi_energyLedgerRoot x) ZERO32)
      in bindE (liftRoot (handRoot v
           \<lparr>hr_handId = hi_handId x, hr_eventChainTip = hi_eventChainTip x, hr_deckRoot = hi_deckRoot x,
            hr_openingStateHash = hi_openingStateHash x, hr_endingStateHash = hi_endingStateHash x,
            hr_handRake = hi_handRake x, hr_energyLedgerRoot = energyLedgerRoot\<rparr>)) (\<lambda>hashed.
         Inr \<lparr>hs_handId = hi_handId x, hs_eventChainTip = js_lower (hi_eventChainTip x),
              hs_deckRoot = js_lower (hi_deckRoot x), hs_openingStateHash = js_lower (hi_openingStateHash x),
              hs_endingStateHash = js_lower (hi_endingStateHash x), hs_handRake = hi_handRake x,
              hs_energyLedgerRoot = energyLedgerRoot, hs_canonicalBytesHex = canonicalBytesHex hashed,
              hs_handRoot = hash hashed\<rparr>))"

record HandRootArgs =
  ha_sessionId :: "Hex option"
  ha_epoch :: "int option"
  ha_handNumber :: "int option"
  ha_handId :: "Hex option"
  ha_events :: "EventHashLike list option"
  ha_chain :: "Hex option"
  ha_eventHashes :: "Hex list option"
  ha_deckRoot :: Hex
  ha_openingStateHash :: Hex
  ha_endingStateHash :: Hex
  ha_handRake :: int
  ha_energyLedgerRoot :: "Hex option"

definition tipOfArgs :: "HandRootArgs \<Rightarrow> Hex" where
  "tipOfArgs a =
     (case (ha_handNumber a, ha_events a, ha_chain a, ha_eventHashes a) of
        (Some n, Some es, _, _) \<Rightarrow> tipForHand es n
      | (_, _, Some tip, _) \<Rightarrow> resolveEventChainTip (FromTip tip)
      | (_, Some es, None, _) \<Rightarrow> resolveEventChainTip (FromEvents es)
      | (_, None, None, Some hs) \<Rightarrow> resolveEventChainTip (FromHashes hs)
      | (_, None, None, None) \<Rightarrow> ZERO32)"

definition handIdOfArgs :: "viem \<Rightarrow> HandRootArgs \<Rightarrow> root_error + Hex" where
  "handIdOfArgs v a =
     (case ha_handId a of
        Some (c # cs) \<Rightarrow> Inr (c # cs)
      | _ \<Rightarrow>
          (case (ha_sessionId a, ha_epoch a, ha_handNumber a) of
             (Some s, Some e, Some n) \<Rightarrow> bindE (liftRoot (deriveHandId v s e n)) (\<lambda>h. Inr (hash h))
           | _ \<Rightarrow> Inl HandIdRequired))"

definition buildHandRootFromEvents :: "viem \<Rightarrow> HandRootArgs \<Rightarrow> root_error + HandRootResult" where
  "buildHandRootFromEvents v a =
     (let eventChainTip = tipOfArgs a
      in bindE (handIdOfArgs v a) (\<lambda>handId.
           buildHandRoot v
             \<lparr>hi_handId = handId, hi_eventChainTip = eventChainTip, hi_deckRoot = ha_deckRoot a,
              hi_openingStateHash = ha_openingStateHash a, hi_endingStateHash = ha_endingStateHash a,
              hi_handRake = ha_handRake a, hi_energyLedgerRoot = ha_energyLedgerRoot a\<rparr>))"

section \<open>Proof batch\<close>

record ProofBatchInput =
  pi_sequence :: int
  pi_previousBatchRoot :: Hex
  pi_checkpointRoots :: "Hex list"
  pi_dataManifestHash :: Hex
  pi_createdAt :: int

record ProofBatchResult =
  pr_sequence :: int
  pr_previousBatchRoot :: Hex
  pr_globalRoot :: Hex
  pr_dataManifestHash :: Hex
  pr_createdAt :: int
  pr_canonicalBytesHex :: Hex
  pr_proofBatchHash :: Hex

definition buildGlobalProofBatchRoot :: "viem \<Rightarrow> Hex list \<Rightarrow> Hex" where
  "buildGlobalProofBatchRoot v checkpointRoots = root (merkleRoot v checkpointRoots)"

definition buildProofBatch :: "viem \<Rightarrow> ProofBatchInput \<Rightarrow> root_error + ProofBatchResult" where
  "buildProofBatch v x =
     (let globalRoot = buildGlobalProofBatchRoot v (pi_checkpointRoots x)
      in bindE (liftRoot (proofBatchLeaf v
           \<lparr>pb_sequence = pi_sequence x, pb_previousBatchRoot = pi_previousBatchRoot x,
            pb_globalRoot = globalRoot, pb_dataManifestHash = pi_dataManifestHash x,
            pb_createdAt = pi_createdAt x\<rparr>)) (\<lambda>hashed.
         Inr \<lparr>pr_sequence = pi_sequence x, pr_previousBatchRoot = pi_previousBatchRoot x,
              pr_globalRoot = globalRoot, pr_dataManifestHash = pi_dataManifestHash x,
              pr_createdAt = pi_createdAt x, pr_canonicalBytesHex = canonicalBytesHex hashed,
              pr_proofBatchHash = hash hashed\<rparr>))"

section \<open>Settlement digest\<close>

definition checkConservation_totals :: "int \<Rightarrow> int \<Rightarrow> int \<Rightarrow> bool" where
  "checkConservation_totals openingTotal endingPlayerTotal totalRake \<longleftrightarrow>
     openingTotal = endingPlayerTotal + totalRake"

definition assertConservation :: "int \<Rightarrow> int \<Rightarrow> int \<Rightarrow> root_error + unit" where
  "assertConservation openingTotal endingPlayerTotal totalRake =
     (if \<not> checkConservation_totals openingTotal endingPlayerTotal totalRake
      then Inl (RootBuilderError CONSERVATION_BROKEN) else Inr ())"

definition randomnessEpochId_of :: "viem \<Rightarrow> Hex \<Rightarrow> int \<Rightarrow> root_error + Hex" where
  "randomnessEpochId_of v sessionId epoch = liftRoot (randomnessEpochId v sessionId epoch)"

record FinalSettlementResult = SettlementDigest +
  conservationOk :: bool

definition buildFinalSettlementDigest ::
  "viem \<Rightarrow> FinalSettlementInput \<Rightarrow> bool option \<Rightarrow> root_error + FinalSettlementResult" where
  "buildFinalSettlementDigest v x requireConservation =
     (let ok = checkConservation_totals (fs_openingTotal x) (fs_endingPlayerTotal x) (fs_totalRake x)
      in bindE (if requireConservation \<noteq> Some False \<and> \<not> ok
                then assertConservation (fs_openingTotal x) (fs_endingPlayerTotal x) (fs_totalRake x)
                else Inr ()) (\<lambda>_.
         bindE (liftRoot (settlementEip712Digest v x)) (\<lambda>dig.
           Inr \<lparr>TYPEHASH = TYPEHASH dig, structHash = structHash dig, domainSeparator = domainSeparator dig,
                digest = digest dig, conservationOk = ok\<rparr>)))"

section \<open>Session roots\<close>

record HandRootBuildInput =
  hb_handNumber :: int
  hb_deckRoot :: Hex
  hb_openingStateHash :: Hex
  hb_endingStateHash :: Hex
  hb_handRake :: int
  hb_energyLedgerRoot :: "Hex option"
  hb_handId :: "Hex option"

record BuildCanonicalSettlementRootsInput =
  bi_sessionId :: Hex
  bi_epoch :: "int option"
  bi_chain :: EventChainTipSource
  bi_events :: "EventHashLike list option"
  bi_finalSequence :: "int option"
  bi_hands :: "HandRootBuildInput list"
  bi_balances :: "BalanceLeafInput list"

record CanonicalSettlementRoots =
  cs_sessionId :: Hex
  cs_epoch :: int
  cs_finalEventRoot :: Hex
  cs_finalSequence :: int
  cs_handRoot :: Hex
  cs_handRoots :: "HandRootResult list"
  cs_balanceRoot :: Hex
  cs_balance :: BalanceRootResult

text \<open>The environment is a partial map; a variable that is not set reads as the empty string.\<close>

definition truthyEnv :: "string option \<Rightarrow> bool" where
  "truthyEnv x = (js_lower (orElse x []) \<in> {''1'', ''true'', ''yes''})"

definition requireRealRoots :: "(string \<rightharpoonup> string) \<Rightarrow> bool" where
  "requireRealRoots env \<longleftrightarrow> truthyEnv (env ''REQUIRE_REAL_ROOTS'') \<or> truthyEnv (env ''MOZETTO_GOLDEN'')"

definition assertRealRoot :: "Hex option \<Rightarrow> root_error + Hex" where
  "assertRealRoot value =
     (case value of
        None \<Rightarrow> Inl (StubRootError STUB_FORBIDDEN)
      | Some x \<Rightarrow>
          if \<not> is_hex32 x then Inl (StubRootError STUB_FORBIDDEN)
          else if js_lower x = ZERO32 then Inl (StubRootError STUB_FORBIDDEN) else Inr (js_lower x))"

definition finalSequenceOf :: "BuildCanonicalSettlementRootsInput \<Rightarrow> int" where
  "finalSequenceOf x =
     (case bi_finalSequence x of
        Some s \<Rightarrow> s
      | None \<Rightarrow>
          (case bi_events x of
             Some (e # es) \<Rightarrow> orElse (eh_sequence (last (e # es))) (int (length (e # es)) - 1)
           | _ \<Rightarrow> 0))"

definition handArgs :: "BuildCanonicalSettlementRootsInput \<Rightarrow> HandRootBuildInput \<Rightarrow> HandRootArgs" where
  "handArgs x h =
     \<lparr>ha_sessionId = Some (js_lower (bi_sessionId x)), ha_epoch = Some (orElse (bi_epoch x) 0),
      ha_handNumber = Some (hb_handNumber h), ha_handId = hb_handId h, ha_events = bi_events x,
      ha_chain = (case bi_chain x of FromTip t \<Rightarrow> Some t | _ \<Rightarrow> None),
      ha_eventHashes = (case bi_chain x of FromHashes hs \<Rightarrow> Some hs | _ \<Rightarrow> None),
      ha_deckRoot = hb_deckRoot h, ha_openingStateHash = hb_openingStateHash h,
      ha_endingStateHash = hb_endingStateHash h, ha_handRake = hb_handRake h,
      ha_energyLedgerRoot = hb_energyLedgerRoot h\<rparr>"

definition buildCanonicalSettlementRoots ::
  "viem \<Rightarrow> BuildCanonicalSettlementRootsInput \<Rightarrow> root_error + CanonicalSettlementRoots" where
  "buildCanonicalSettlementRoots v x =
     (let finalEventRoot = resolveEventChainTip (bi_chain x)
      in if finalEventRoot = ZERO32 then Inl (StubRootError MISSING_EVENT_ROOT)
         else if bi_hands x = [] then Inl (StubRootError MISSING_HAND_ROOT)
         else if bi_balances x = [] then Inl (StubRootError MISSING_BALANCE_ROOT)
         else bindE (mapE (\<lambda>h. buildHandRootFromEvents v (handArgs x h)) (bi_hands x)) (\<lambda>handRoots.
              bindE (buildBalanceRoot v (bi_balances x)) (\<lambda>balance.
                Inr \<lparr>cs_sessionId = js_lower (bi_sessionId x), cs_epoch = orElse (bi_epoch x) 0,
                     cs_finalEventRoot = finalEventRoot, cs_finalSequence = finalSequenceOf x,
                     cs_handRoot = hs_handRoot (last handRoots), cs_handRoots = handRoots,
                     cs_balanceRoot = br_balanceRoot balance, cs_balance = balance\<rparr>)))"

section \<open>Balance roots\<close>

lemma checkSeats_iff:
  "checkSeats seats ls =
     (if distinct (map bl_seat ls) \<and> set (map bl_seat ls) \<inter> set seats = {} then Inr ()
      else Inl (RootBuilderError DUPLICATE_SEAT))"
  by (induction seats ls rule: checkSeats.induct) auto

lemma encodeOne_Inr_iff:
  "encodeOne v x = Inr l \<longleftrightarrow>
     0 \<le> bl_currentBalance x \<and> 0 \<le> bl_openingBalance x \<and>
     (\<exists>h. balanceLeaf v x = Inr h \<and>
        l = \<lparr>lf_seat = bl_seat x, lf_arenaAccount = bl_arenaAccount x, lf_fields = x,
             lf_canonicalBytesHex = canonicalBytesHex h, lf_leafHash = hash h\<rparr>)"
  by (auto simp: encodeOne_def bindE_Inr_iff)

lemma encodeOne_facts:
  assumes "encodeOne v x = Inr l"
  shows "lf_fields l = x" "lf_seat l = bl_seat x" "balanceLeaf v x = Inr \<lparr>canonicalBytesHex = lf_canonicalBytesHex l, hash = lf_leafHash l\<rparr>"
  using assms by (auto simp: encodeOne_Inr_iff)

lemma mapE_encodeOne:
  "mapE (encodeOne v) xs = Inr ls \<Longrightarrow>
     map lf_fields ls = xs \<and> map lf_seat ls = map bl_seat xs \<and> (\<forall>l \<in> set ls. encodeOne v (lf_fields l) = Inr l)"
proof (induction xs arbitrary: ls)
  case (Cons x xs)
  then obtain l ls' where l: "encodeOne v x = Inr l" "mapE (encodeOne v) xs = Inr ls'" "ls = l # ls'" by auto
  then show ?case using Cons.IH [OF l(2)] encodeOne_facts [OF l(1)] by auto
qed simp

lemma buildBalanceRoot_InrD:
  assumes "buildBalanceRoot v xs = Inr r"
  shows "xs \<noteq> []" "distinct (map bl_seat xs)"
    "mapE (encodeOne v) (js_sort (\<lambda>a b. bl_seat a - bl_seat b) xs) = Inr (br_leaves r)"
    "br_balanceRoot r = root (merkleRoot v (map lf_leafHash (br_leaves r)))"
  using assms by (auto simp: buildBalanceRoot_def checkSeats_iff Let_def split: if_splits)

lemma buildBalanceRoot_cong:
  assumes "mset xs = mset ys"
  shows "buildBalanceRoot v xs = buildBalanceRoot v ys"
proof -
  have "xs = [] \<longleftrightarrow> ys = []" using assms by (metis mset_zero_iff)
  moreover have "distinct (map bl_seat xs) = distinct (map bl_seat ys)"
    using assms by (metis mset_map mset_eq_imp_distinct_iff)
  ultimately show ?thesis
    using js_sort_key_cong [OF assms, of bl_seat] by (simp add: buildBalanceRoot_def checkSeats_iff)
qed

lemma leaf_hash_hex:
  "hash_lib v \<Longrightarrow> encodeOne v x = Inr l \<Longrightarrow> is_hex32 (lf_leafHash l)"
  using encodeOne_facts(3) [of v x l] hashEnc_hash(1) [of v] unfolding balanceLeaf_def by fastforce

lemma findIndex_SomeD: "findIndex p xs = Some i \<Longrightarrow> i < length xs \<and> p (xs ! i)"
  by (induction xs arbitrary: i) (auto split: if_splits)

lemma findIndex_None_iff: "findIndex p xs = None \<longleftrightarrow> (\<forall>x \<in> set xs. \<not> p x)"
  by (induction xs) auto

definition bl_norm :: "BalanceLeafInput \<Rightarrow> BalanceLeafInput" where
  "bl_norm x = x\<lparr>bl_sessionId := js_lower (bl_sessionId x), bl_arenaAccount := js_lower (bl_arenaAccount x)\<rparr>"

lemma balanceLeaf_binding:
  assumes "balanceLeaf v x = Inr h" "balanceLeaf v y = Inr k" "hash h = hash k" "abi_injective v"
  shows "bl_norm x = bl_norm y \<or> collides v (canonicalBytesHex h) (canonicalBytesHex k)"
  using hashEnc_binding [OF assms(1,2) [unfolded balanceLeaf_def] assms(3,4)]
  by (cases x; cases y) (simp add: bl_norm_def)

lemma mapE_Inl: "mapE f xs = Inl e \<Longrightarrow> \<exists>x \<in> set xs. f x = Inl e"
proof (induction xs)
  case (Cons x xs)
  then show ?case by (cases "f x"; cases "mapE f xs") auto
qed simp

lemma buildBalanceRoot_isOk:
  "isOk (buildBalanceRoot v xs) \<longleftrightarrow>
     xs \<noteq> [] \<and> distinct (map bl_seat xs) \<and>
     list_all (\<lambda>x. 0 \<le> bl_currentBalance x \<and> 0 \<le> bl_openingBalance x \<and> isOk (balanceLeaf v x)) xs"
proof -
  let ?s = "js_sort (\<lambda>a b. bl_seat a - bl_seat b) xs"
  have e: "isOk (encodeOne v x) \<longleftrightarrow> 0 \<le> bl_currentBalance x \<and> 0 \<le> bl_openingBalance x \<and> isOk (balanceLeaf v x)" for x
    by (auto simp: isOk_iff encodeOne_Inr_iff)
  have "isOk (mapE (encodeOne v) zs) \<longleftrightarrow> list_all (\<lambda>x. isOk (encodeOne v x)) zs" for zs
    by (induction zs) (auto simp: isOk_iff bindE_Inr_iff)
  moreover have "list_all P ?s = list_all P xs" for P by (simp add: list_all_iff)
  ultimately show ?thesis
    by (auto simp: buildBalanceRoot_def checkSeats_iff Let_def e isOk_iff [of "bindE _ _"] bindE_Inr_iff
        isOk_iff [of "mapE _ _", symmetric])
qed

definition demo_balance :: "int \<Rightarrow> int \<Rightarrow> BalanceLeafInput" where
  "demo_balance seat amount = \<lparr>bl_sessionId = ''0x01'', bl_epoch = 0, bl_arenaAccount = ''0x02'', bl_seat = seat,
     bl_openingBalance = 100, bl_currentBalance = amount, bl_cumulativeRake = 0, bl_lastSequence = 9\<rparr>"

lemma demo_balanceLeaf_ok [simp]: "isOk (balanceLeaf demo_viem x)"
  by (simp add: balanceLeaf_def hashEnc_def demo_viem_def)

text \<open>C13: The balance root is a function of the set of balances. It is built exactly when there is at least one
  leaf, no seat occurs twice, no balance is negative and every leaf encodes; the leaves are then the inputs
  in ascending seat order. Two input orders give the same result, the same error included.\<close>

theorem balance_root_canonical:
  "(isOk (buildBalanceRoot v xs) \<longleftrightarrow>
      xs \<noteq> [] \<and> distinct (map bl_seat xs) \<and>
      list_all (\<lambda>x. 0 \<le> bl_currentBalance x \<and> 0 \<le> bl_openingBalance x \<and> isOk (balanceLeaf v x)) xs) \<and>
   (buildBalanceRoot v xs = Inr r \<longrightarrow>
      sorted (map lf_seat (br_leaves r)) \<and> mset (map lf_fields (br_leaves r)) = mset xs) \<and>
   (mset xs = mset ys \<longrightarrow> buildBalanceRoot v xs = buildBalanceRoot v ys)"
proof (intro conjI impI, rule buildBalanceRoot_isOk)
  assume "buildBalanceRoot v xs = Inr r"
  note m = mapE_encodeOne [OF buildBalanceRoot_InrD(3) [OF this]]
  show "sorted (map lf_seat (br_leaves r))"
    using m key_cmp.sorted_js_sort [of bl_seat xs] by (simp add: sorted_map)
  show "mset (map lf_fields (br_leaves r)) = mset xs" using m by simp
qed (rule buildBalanceRoot_cong)

theorem balance_root_canonical_witness:
  "\<exists>r. buildBalanceRoot demo_viem [demo_balance 2 110, demo_balance 0 140, demo_balance 1 50] = Inr r \<and>
     buildBalanceRoot demo_viem [demo_balance 0 140, demo_balance 1 50, demo_balance 2 110] = Inr r \<and>
     sorted (map lf_seat (br_leaves r))"
proof -
  let ?xs = "[demo_balance 2 110, demo_balance 0 140, demo_balance 1 50]"
  let ?ys = "[demo_balance 0 140, demo_balance 1 50, demo_balance 2 110]"
  have "isOk (buildBalanceRoot demo_viem ?xs)"
    using balance_root_canonical [of demo_viem ?xs] by (simp add: demo_balance_def)
  then obtain r where r: "buildBalanceRoot demo_viem ?xs = Inr r" by (auto simp: isOk_iff)
  have "mset ?xs = mset ?ys" by (simp add: add_mset_commute)
  then have "sorted (map lf_seat (br_leaves r))" "buildBalanceRoot demo_viem ?ys = Inr r"
    using balance_root_canonical [of demo_viem ?xs r ?ys] r by simp_all
  then show ?thesis using r by blast
qed

lemma leaf_of_seat:
  assumes "buildBalanceRoot v xs = Inr r" "x \<in> set xs"
  obtains i where "findIndex (\<lambda>l. lf_seat l = bl_seat x) (br_leaves r) = Some i" "i < length (br_leaves r)"
    "lf_fields (br_leaves r ! i) = x" "encodeOne v x = Inr (br_leaves r ! i)"
proof -
  note m = mapE_encodeOne [OF buildBalanceRoot_InrD(3) [OF assms(1)]]
  have seat: "lf_seat l = bl_seat (lf_fields l)" if "l \<in> set (br_leaves r)" for l
    using m that encodeOne_facts(2) by blast
  have img: "lf_fields ` set (br_leaves r) = set xs"
    using m by (metis set_js_sort set_map)
  obtain l0 where "l0 \<in> set (br_leaves r)" "lf_fields l0 = x" using assms(2) img [symmetric] by auto
  then obtain i where i: "findIndex (\<lambda>l. lf_seat l = bl_seat x) (br_leaves r) = Some i"
    using seat findIndex_None_iff [of "\<lambda>l. lf_seat l = bl_seat x" "br_leaves r"] by fastforce
  let ?l = "br_leaves r ! i"
  have il: "i < length (br_leaves r)" "lf_seat ?l = bl_seat x" "?l \<in> set (br_leaves r)"
    using findIndex_SomeD [OF i] by auto
  have "lf_fields ?l = x"
    using buildBalanceRoot_InrD(2) [OF assms(1)] seat [OF il(3)] il(2,3) assms(2) img
    by (metis distinct_map image_eqI inj_onD)
  then show thesis using that [OF i il(1)] m il(3) by auto
qed

lemma no_leaf_of_seat:
  assumes "buildBalanceRoot v xs = Inr r" "seat \<notin> bl_seat ` set xs"
  shows "balanceProofForSeat v r seat = Inl (RootBuilderError SEAT_NOT_FOUND)"
proof -
  have "map lf_seat (br_leaves r) = map bl_seat (js_sort (\<lambda>a b. bl_seat a - bl_seat b) xs)"
    using mapE_encodeOne [OF buildBalanceRoot_InrD(3) [OF assms(1)]] by simp
  then have "lf_seat ` set (br_leaves r) = bl_seat ` set xs" by (metis set_js_sort set_map)
  then have "findIndex (\<lambda>l. lf_seat l = seat) (br_leaves r) = None"
    unfolding findIndex_None_iff using assms(2) by blast
  then show ?thesis by (simp add: balanceProofForSeat_def)
qed

text \<open>C14: Every player can prove their balance, and nobody another one. From a balance root, each input seat gets
  its own leaf and a proof that verifies; a seat without a leaf gets SEAT_NOT_FOUND. Any balance leaf that
  verifies at that position of the root states the same balances, or the parties hold an explicit keccak
  collision, on the path or between the two leaf encodings.\<close>

theorem balance_inclusion_sound:
  assumes "hash_lib v" "abi_injective v" "buildBalanceRoot v xs = Inr r"
  shows "(seat \<notin> bl_seat ` set xs \<longrightarrow> balanceProofForSeat v r seat = Inl (RootBuilderError SEAT_NOT_FOUND)) \<and>
    (x \<in> set xs \<longrightarrow>
      (\<exists>l i p. balanceProofForSeat v r (bl_seat x) = Inr (l, i, p) \<and> lf_fields l = x \<and>
         verifyBalanceInclusion v (lf_leafHash l) p (br_balanceRoot r) = Some True \<and>
         (\<forall>y h q. balanceLeaf v y = Inr h \<longrightarrow> list_all hex_step q \<longrightarrow> map isLeft q = map isLeft p \<longrightarrow>
            verifyBalanceInclusion v (hash h) q (br_balanceRoot r) = Some True \<longrightarrow>
            bl_norm y = bl_norm x \<or> collides v (canonicalBytesHex h) (lf_canonicalBytesHex l) \<or>
            path_collision v (climb_inputs v (hash h) q) (climb_inputs v (lf_leafHash l) p))))"
proof (intro conjI impI)
  note rt = buildBalanceRoot_InrD(4) [OF assms(3)]
  let ?hs = "map lf_leafHash (br_leaves r)"
  show "balanceProofForSeat v r seat = Inl (RootBuilderError SEAT_NOT_FOUND)" if "seat \<notin> bl_seat ` set xs"
    by (rule no_leaf_of_seat [OF assms(3) that])
  assume x: "x \<in> set xs"
  obtain i where i: "findIndex (\<lambda>l. lf_seat l = bl_seat x) (br_leaves r) = Some i" "i < length (br_leaves r)"
    "lf_fields (br_leaves r ! i) = x" "encodeOne v x = Inr (br_leaves r ! i)"
    by (rule leaf_of_seat [OF assms(3) x])
  let ?l = "br_leaves r ! i" and ?p = "proofForIndex v (map lf_leafHash (br_leaves r)) i"
  note lb = encodeOne_facts(3) [OF i(4)]
  have hx: "list_all is_hex32 ?hs"
    using mapE_encodeOne [OF buildBalanceRoot_InrD(3) [OF assms(3)]] leaf_hash_hex [OF assms(1)]
    unfolding list_all_iff by auto
  have low: "js_lower (lf_leafHash ?l) = lf_leafHash ?l"
    using lb hashEnc_hash(2) [OF assms(1)] unfolding balanceLeaf_def by fastforce
  have bind: "bl_norm y = bl_norm x \<or> collides v (canonicalBytesHex h) (lf_canonicalBytesHex ?l) \<or>
      path_collision v (climb_inputs v (hash h) q) (climb_inputs v (lf_leafHash ?l) ?p)"
    if y: "balanceLeaf v y = Inr h" "list_all hex_step q" "map isLeft q = map isLeft ?p"
      "verifyBalanceInclusion v (hash h) q (br_balanceRoot r) = Some True" for y h q
  proof -
    have hh: "is_hex32 (hash h)" "js_lower (hash h) = hash h"
      using y(1) hashEnc_hash [OF assms(1)] unfolding balanceLeaf_def by blast+
    have "hash h = lf_leafHash ?l \<or>
        path_collision v (climb_inputs v (hash h) q) (climb_inputs v (lf_leafHash ?l) ?p)"
      using merkle_binding [OF assms(1) hx _ hh(1) y(2,3)] y(4) i(2) hh(2) low rt
      by (simp add: verifyBalanceInclusion_def)
    then show ?thesis using balanceLeaf_binding [OF y(1) lb] assms(2) by auto
  qed
  show "\<exists>l i p. balanceProofForSeat v r (bl_seat x) = Inr (l, i, p) \<and> lf_fields l = x \<and>
      verifyBalanceInclusion v (lf_leafHash l) p (br_balanceRoot r) = Some True \<and>
      (\<forall>y h q. balanceLeaf v y = Inr h \<longrightarrow> list_all hex_step q \<longrightarrow> map isLeft q = map isLeft p \<longrightarrow>
         verifyBalanceInclusion v (hash h) q (br_balanceRoot r) = Some True \<longrightarrow>
         bl_norm y = bl_norm x \<or> collides v (canonicalBytesHex h) (lf_canonicalBytesHex l) \<or>
         path_collision v (climb_inputs v (hash h) q) (climb_inputs v (lf_leafHash l) p))"
    using i bind rt merkle_proof_complete [OF assms(1) hx, of i]
    by (intro exI [of _ ?l] exI [of _ i] exI [of _ ?p])
      (simp add: balanceProofForSeat_def verifyBalanceInclusion_def)
qed

theorem balance_inclusion_sound_witness:
  "\<exists>r l i p. buildBalanceRoot demo_viem [demo_balance 2 110, demo_balance 0 140, demo_balance 1 50] = Inr r \<and>
     balanceProofForSeat demo_viem r 1 = Inr (l, i, p) \<and> lf_fields l = demo_balance 1 50 \<and>
     verifyBalanceInclusion demo_viem (lf_leafHash l) p (br_balanceRoot r) = Some True"
proof -
  have "isOk (buildBalanceRoot demo_viem [demo_balance 2 110, demo_balance 0 140, demo_balance 1 50])"
    unfolding buildBalanceRoot_isOk by (simp add: demo_balance_def)
  then obtain r where r: "buildBalanceRoot demo_viem [demo_balance 2 110, demo_balance 0 140, demo_balance 1 50] = Inr r"
    by (auto simp: isOk_iff)
  have "bl_seat (demo_balance 1 50) = 1" by (simp add: demo_balance_def)
  then show ?thesis
    using balance_inclusion_sound [OF demo_viem_hash_lib demo_viem_injective r, of 0 "demo_balance 1 50"] r by auto
qed

section \<open>Settlement digests\<close>

definition fs_norm :: "FinalSettlementInput \<Rightarrow> abi_val list" where
  "fs_norm s = map abi_norm (settlementStruct s @ [AInt (fs_chainId s), AHex (fs_verifyingContract s)])"

lemma hash_lib_concat3:
  assumes "hash_lib v" "is_hex32 a" "is_hex32 b" "is_hex32 c" "is_hex32 d"
    "concatHex v [''0x1901'', a, b] = concatHex v [''0x1901'', c, d]"
  shows "a = c \<and> b = d"
proof -
  have "[''0x1901'', a, b] = [''0x1901'', c, d]"
    using assms(1) [unfolded hash_lib_def] assms(2-6)
    by (elim conjE allE [where x = "[''0x1901'', a, b]"] allE [where x = "[''0x1901'', c, d]"])
      (simp add: is_hex32_def)
  then show ?thesis by simp
qed

definition preimage1901 :: "viem \<Rightarrow> FinalSettlementResult \<Rightarrow> Hex" where
  "preimage1901 v r = concatHex v [''0x1901'', domainSeparator r, structHash r]"

lemma buildFinalSettlementDigest_InrD:
  assumes "buildFinalSettlementDigest v x rc = Inr r"
  shows "keccakEnc v structTypes (AHex (keccak256 v (toBytes v FINAL_SETTLEMENT_TYPESTRING)) # settlementStruct x) = Inr (structHash r)"
    "keccakEnc v domainTypes (settlementDomain v x) = Inr (domainSeparator r)"
    "digest r = keccak256 v (preimage1901 v r)"
    "conservationOk r = (fs_openingTotal x = fs_endingPlayerTotal x + fs_totalRake x)"
    "rc \<noteq> Some False \<Longrightarrow> conservationOk r"
  using assms
  by (auto simp: buildFinalSettlementDigest_def settlementEip712Digest_def Let_def preimage1901_def
      assertConservation_def checkConservation_totals_def split: if_splits)

text \<open>C15: A settlement digest is only signed over conserved totals and commits to every field. Unless the caller
  opts out, a digest exists only if the opening total is the players' ending total plus the rake, and
  otherwise the call fails with CONSERVATION_BROKEN. Two settlements with the same digest agree in all
  seventeen fields, the chain and the contract included, or exhibit a keccak collision between bytes both
  sides hashed.\<close>

theorem settlement_digest_sound:
  assumes "hash_lib v" "abi_injective v"
    and "buildFinalSettlementDigest v x rc = Inr r" "buildFinalSettlementDigest v y rc' = Inr q"
    and "digest r = digest q"
  shows "(rc \<noteq> Some False \<longrightarrow> fs_openingTotal x = fs_endingPlayerTotal x + fs_totalRake x) \<and>
    (fs_openingTotal z \<noteq> fs_endingPlayerTotal z + fs_totalRake z \<longrightarrow>
       buildFinalSettlementDigest v z None = Inl (RootBuilderError CONSERVATION_BROKEN)) \<and>
    (fs_norm x = fs_norm y \<or> collides v (preimage1901 v r) (preimage1901 v q) \<or>
     collides v (bytesOf v domainTypes (settlementDomain v x)) (bytesOf v domainTypes (settlementDomain v y)) \<or>
     collides v (bytesOf v structTypes (AHex (keccak256 v (toBytes v FINAL_SETTLEMENT_TYPESTRING)) # settlementStruct x))
       (bytesOf v structTypes (AHex (keccak256 v (toBytes v FINAL_SETTLEMENT_TYPESTRING)) # settlementStruct y)))"
proof (intro conjI impI)
  note dx = buildFinalSettlementDigest_InrD [OF assms(3)] and dy = buildFinalSettlementDigest_InrD [OF assms(4)]
  show "fs_openingTotal x = fs_endingPlayerTotal x + fs_totalRake x" if "rc \<noteq> Some False"
    using dx(4,5) that by simp
  show "buildFinalSettlementDigest v z None = Inl (RootBuilderError CONSERVATION_BROKEN)"
    if "fs_openingTotal z \<noteq> fs_endingPlayerTotal z + fs_totalRake z"
    using that by (simp add: buildFinalSettlementDigest_def Let_def assertConservation_def checkConservation_totals_def)
  have eq: "structHash r = structHash q \<and> domainSeparator r = domainSeparator q" if "preimage1901 v r = preimage1901 v q"
    using hash_lib_concat3 [OF assms(1) keccakEnc_hex [OF assms(1) dx(2)] keccakEnc_hex [OF assms(1) dx(1)]
      keccakEnc_hex [OF assms(1) dy(2)] keccakEnc_hex [OF assms(1) dy(1)]] that
    by (simp add: preimage1901_def)
  have nn: "fs_norm x = fs_norm y"
    if "map abi_norm (settlementDomain v x) = map abi_norm (settlementDomain v y)"
      "map abi_norm (a # settlementStruct x) = map abi_norm (a # settlementStruct y)" for a
    using that by (simp add: fs_norm_def settlementDomain_def)
  show "fs_norm x = fs_norm y \<or> collides v (preimage1901 v r) (preimage1901 v q) \<or>
     collides v (bytesOf v domainTypes (settlementDomain v x)) (bytesOf v domainTypes (settlementDomain v y)) \<or>
     collides v (bytesOf v structTypes (AHex (keccak256 v (toBytes v FINAL_SETTLEMENT_TYPESTRING)) # settlementStruct x))
       (bytesOf v structTypes (AHex (keccak256 v (toBytes v FINAL_SETTLEMENT_TYPESTRING)) # settlementStruct y))"
  proof (cases "preimage1901 v r = preimage1901 v q")
    case True
    note e = eq [OF True]
    show ?thesis
      using keccakEnc_binding [OF dx(1) dy(1) [folded conjunct1 [OF e]] assms(2)]
        keccakEnc_binding [OF dx(2) dy(2) [folded conjunct2 [OF e]] assms(2)] nn by blast
  next
    case False
    then show ?thesis using dx(3) dy(3) assms(5) by (simp add: collides_def)
  qed
qed

definition demo_settlement :: FinalSettlementInput where
  "demo_settlement = \<lparr>fs_sessionId = ''0x01'', fs_finalSequence = 9, fs_finalEventRoot = ''0x02'', fs_handRoot = ''0x03'',
     fs_balanceRoot = ''0x04'', fs_randomnessEpochId = ''0x05'', fs_openingTotal = 300, fs_endingPlayerTotal = 297,
     fs_totalRake = 3, fs_proofBatchSequence = 1, fs_modelPolicyHash = ''0x06'', fs_profileSetHash = ''0x07'',
     fs_gameTemplateId = ''0x08'', fs_engineHash = ''0x09'', fs_deadline = 1000, fs_chainId = 8453,
     fs_verifyingContract = ''0x0a''\<rparr>"

theorem settlement_digest_sound_witness:
  "\<exists>r. buildFinalSettlementDigest demo_viem demo_settlement None = Inr r \<and>
     fs_openingTotal demo_settlement = fs_endingPlayerTotal demo_settlement + fs_totalRake demo_settlement \<and>
     buildFinalSettlementDigest demo_viem (demo_settlement\<lparr>fs_totalRake := 2\<rparr>) None =
       Inl (RootBuilderError CONSERVATION_BROKEN)"
proof -
  have "isOk (buildFinalSettlementDigest demo_viem demo_settlement None)"
    by (simp add: buildFinalSettlementDigest_def settlementEip712Digest_def keccakEnc_def enc_def demo_viem_def
        checkConservation_totals_def demo_settlement_def Let_def)
  then obtain r where r: "buildFinalSettlementDigest demo_viem demo_settlement None = Inr r" by (auto simp: isOk_iff)
  show ?thesis
    using settlement_digest_sound [OF demo_viem_hash_lib demo_viem_injective r r refl, of "demo_settlement\<lparr>fs_totalRake := 2\<rparr>"] r
    by (simp add: demo_settlement_def)
qed

section \<open>From the event log to the settlement roots\<close>

text \<open>The event surface a settlement reads from a chain.\<close>

definition likeRow :: "StoredEvent \<Rightarrow> EventHashLike" where
  "likeRow r = \<lparr>eh_eventHash = se_eventHash r, eh_handNumber = Some (pe_handNumber (se_event r)),
     eh_sequence = Some (pe_sequence (se_event r))\<rparr>"

lemma ZERO_hashes: "ZERO_EVENT_HASH = ZERO32"
  by code_simp

lemma chain_row_hash:
  assumes "chain_inv v c" "hash_lib v" "r \<in> set (ch_rows c)"
  shows "js_lower (se_eventHash r) = js_lower (keccak256 v (event_bytes v (se_event r)))"
proof -
  have "verifyRows v i p rows = Inr [] \<Longrightarrow> r \<in> set rows \<Longrightarrow>
      js_lower (se_eventHash r) = js_lower (keccak256 v (event_bytes v (se_event r)))" for i p rows
  proof (induction rows arbitrary: i p)
    case (Cons x rows)
    obtain h where h: "hashPokerEventV1 v (se_event x) = Inr h" "js_lower (hash h) = js_lower (se_eventHash x)"
      and rest: "verifyRows v (Suc i) (se_eventHash x) rows = Inr []"
      using Cons.prems(1) by (auto simp: rowIssues_def Let_def normalizeHex_def)
    have "hash h = keccak256 v (event_bytes v (se_event x))"
      using hashPokerEventV1_InrD(1,2) [OF h(1)] by (simp add: event_bytes_def)
    then show ?case using Cons.IH [OF rest] Cons.prems(2) h(2) by auto
  qed simp
  then show ?thesis using assms unfolding chain_inv_def by blast
qed

lemma buildHandRoot_tip: "buildHandRoot v x = Inr r \<Longrightarrow> hs_eventChainTip r = js_lower (hi_eventChainTip x)"
  by (auto simp: buildHandRoot_def Let_def)

lemma handArgs_tip:
  "bi_events x = Some es \<Longrightarrow> tipOfArgs (handArgs x h) = tipForHand es (hb_handNumber h)"
  by (simp add: tipOfArgs_def handArgs_def split: option.splits)

lemma js_lower_tipForHand: "js_lower (tipForHand es n) = tipForHand es n"
  by (simp add: tipForHand_def Let_def)

lemma buildCanonicalSettlementRoots_InrD:
  assumes "buildCanonicalSettlementRoots v x = Inr r"
  shows "cs_finalEventRoot r = resolveEventChainTip (bi_chain x)" "cs_finalEventRoot r \<noteq> ZERO32"
    "cs_finalSequence r = finalSequenceOf x" "bi_hands x \<noteq> []"
    "mapE (\<lambda>h. buildHandRootFromEvents v (handArgs x h)) (bi_hands x) = Inr (cs_handRoots r)"
    "cs_handRoot r = hs_handRoot (last (cs_handRoots r))"
    "buildBalanceRoot v (bi_balances x) = Inr (cs_balance r)" "cs_balanceRoot r = br_balanceRoot (cs_balance r)"
  using assms by (auto simp: buildCanonicalSettlementRoots_def Let_def split: if_splits)

text \<open>Settlement roots come from the real log. For a chain grown by \<open>append\<close> and the roots built from its
  tip and rows, the final event root is the chain's tip, the final sequence is the number of the last event,
  and each hand root binds the hash of that hand's last event (zero if it has none); the proposal's hand
  root is the last hand's. A chain without events is refused, so no stub root is ever produced.\<close>

theorem settlement_roots_from_log:
  assumes "hash_lib v" "enc_lower v" "appendAll v (newChain s ep) evs = Inr c"
    and "bi_chain x = FromTip (ch_tipHash c)" "bi_events x = Some (map likeRow (ch_rows c))" "bi_finalSequence x = None"
  shows "(evs = [] \<longrightarrow> buildCanonicalSettlementRoots v x = Inl (StubRootError MISSING_EVENT_ROOT)) \<and>
    (buildCanonicalSettlementRoots v x = Inr r \<longrightarrow>
       cs_finalEventRoot r = ch_tipHash c \<and> cs_finalSequence r = int (length evs) - 1 \<and>
       cs_handRoot r = hs_handRoot (last (cs_handRoots r)) \<and>
       (\<forall>i < length (bi_hands x). hs_eventChainTip (cs_handRoots r ! i) =
          tipForHand (map likeRow (ch_rows c)) (hb_handNumber (bi_hands x ! i))))"
proof (intro conjI impI allI)
  have inv: "chain_inv v c" "length (ch_rows c) = length evs"
    using appendAll_inv [OF assms(3) chain_inv_new] by (auto simp: newChain_def)
  show "buildCanonicalSettlementRoots v x = Inl (StubRootError MISSING_EVENT_ROOT)" if "evs = []"
    using assms(3,4) that
    by (auto simp: buildCanonicalSettlementRoots_def resolveEventChainTip_def newChain_def ZERO_hashes)
  assume r: "buildCanonicalSettlementRoots v x = Inr r"
  note d = buildCanonicalSettlementRoots_InrD [OF r]
  have ne: "ch_rows c \<noteq> []"
    using d(1,2) assms(4) inv(1) by (auto simp: resolveEventChainTip_def chain_inv_def ZERO_hashes)
  have norm: "normalizeRow (last (ch_rows c)) = last (ch_rows c)"
    using appendAll_normal [OF assms(3) chain_inv_new assms(1,2)] ne by (simp add: newChain_def) (metis last_map)
  have "js_lower (ch_tipHash c) = ch_tipHash c"
    using inv(1) ne arg_cong [OF norm, of se_eventHash]
    by (simp add: chain_inv_def lastHash_def normalizeRow_def Let_def normalizeHex_def)
  then show "cs_finalEventRoot r = ch_tipHash c" using d(1) assms(4) by (simp add: resolveEventChainTip_def)
  have "pe_sequence (se_event (last (ch_rows c))) = int (length evs) - 1"
    using verifyRows_sequence [of v 0 ZERO_EVENT_HASH "ch_rows c" "length evs - 1"] inv ne
    by (cases evs) (auto simp: chain_inv_def last_conv_nth)
  then show "cs_finalSequence r = int (length evs) - 1"
    using d(3) assms(5,6) ne by (cases "ch_rows c") (auto simp: finalSequenceOf_def likeRow_def last_map split: if_splits)
  show "cs_handRoot r = hs_handRoot (last (cs_handRoots r))" by (rule d(6))
  fix i assume i: "i < length (bi_hands x)"
  have "buildHandRootFromEvents v (handArgs x (bi_hands x ! i)) = Inr (cs_handRoots r ! i)"
    by (rule mapE_Inr_nth [OF d(5) i])
  then show "hs_eventChainTip (cs_handRoots r ! i) =
      tipForHand (map likeRow (ch_rows c)) (hb_handNumber (bi_hands x ! i))"
    using handArgs_tip [OF assms(5)] js_lower_tipForHand
    by (auto simp: buildHandRootFromEvents_def Let_def dest: buildHandRoot_tip)
qed

definition demo_hand :: HandRootBuildInput where
  "demo_hand = \<lparr>hb_handNumber = 1, hb_deckRoot = ''0x11'', hb_openingStateHash = ''0x12'', hb_endingStateHash = ''0x13'',
     hb_handRake = 0, hb_energyLedgerRoot = None, hb_handId = None\<rparr>"

definition demo_roots_input :: BuildCanonicalSettlementRootsInput where
  "demo_roots_input = \<lparr>bi_sessionId = ''0xAb'', bi_epoch = None, bi_chain = FromTip (ch_tipHash demo_chain),
     bi_events = Some (map likeRow (ch_rows demo_chain)), bi_finalSequence = None, bi_hands = [demo_hand],
     bi_balances = [demo_balance 0 150, demo_balance 1 50]\<rparr>"

lemma demo_event_bytes_hash: "js_lower (demo_keccak (event_bytes demo_viem e)) \<noteq> ZERO32"
proof -
  have "\<exists>s. event_bytes demo_viem e = CHR ''h'' # s"
    by (simp add: event_bytes_def eventHash_def hashEnc_def demo_viem_def)
  then obtain s where s: "event_bytes demo_viem e = CHR ''h'' # s" by blast
  have "hex_of (lower_char (CHR ''h'')) = CHR ''8''" by code_simp
  then have "demo_keccak (event_bytes demo_viem e) ! 2 = CHR ''8''" by (simp add: demo_keccak_def s js_lower_def)
  moreover have "ZERO32 ! 2 = CHR ''0''" by (simp add: ZERO32_def)
  ultimately have "demo_keccak (event_bytes demo_viem e) \<noteq> ZERO32" by auto
  then show ?thesis by (simp add: lower_demo_keccak)
qed

lemma demo_chain_tip: "js_lower (ch_tipHash demo_chain) \<noteq> ZERO32"
proof -
  have inv: "chain_inv demo_viem demo_chain" "length (ch_rows demo_chain) = 2"
    using appendAll_inv [OF demo_chain_appended chain_inv_new] by (simp_all add: newChain_def)
  then have "ch_rows demo_chain \<noteq> []" by auto
  then have "js_lower (ch_tipHash demo_chain) =
      js_lower (demo_keccak (event_bytes demo_viem (se_event (last (ch_rows demo_chain)))))"
    using chain_row_hash [OF inv(1) demo_viem_hash_lib, of "last (ch_rows demo_chain)"] inv(1)
    by (simp add: chain_inv_def lastHash_def demo_viem_def)
  then show ?thesis using demo_event_bytes_hash by simp
qed

theorem settlement_roots_from_log_witness:
  "\<exists>r. buildCanonicalSettlementRoots demo_viem demo_roots_input = Inr r \<and>
     cs_finalEventRoot r = ch_tipHash demo_chain \<and> cs_finalSequence r = 1"
proof -
  have "isOk (buildBalanceRoot demo_viem [demo_balance 0 150, demo_balance 1 50])"
    unfolding buildBalanceRoot_isOk by (simp add: demo_balance_def)
  then have "isOk (buildCanonicalSettlementRoots demo_viem demo_roots_input)"
    using demo_chain_tip
    by (auto simp: buildCanonicalSettlementRoots_def demo_roots_input_def resolveEventChainTip_def isOk_iff
        buildHandRootFromEvents_def handIdOfArgs_def handArgs_def demo_hand_def deriveHandId_def hashEnc_def
        buildHandRoot_def handRoot_def demo_viem_def Let_def)
  then obtain r where r: "buildCanonicalSettlementRoots demo_viem demo_roots_input = Inr r" by (auto simp: isOk_iff)
  show ?thesis
    using settlement_roots_from_log [OF demo_viem_hash_lib demo_viem_enc_lower demo_chain_appended,
        of demo_roots_input r] r
    by (simp add: demo_roots_input_def)
qed

end
