(* ===== verification/Proof_Batch.thy ===== *)
theory Proof_Batch
  imports Root_Builder
begin

text \<open>
  \<^verbatim>\<open>packages/proof-batch-publisher/src\<close>: table checkpoints are collected, put in a normative order, aggregated
  into a global Merkle root and registered as the next batch of a chain of batches. The registry is an interface
  in the code (the contract, or the in-process stand-in \<open>MockRegistryClient\<close>), so the publisher takes a record of
  its operations; what it promises is the locale \<open>registry_client\<close>, which the stand-in implements. An error is its
  code; message texts are not modelled. A call that may throw returns the state it leaves behind beside its result.
\<close>

section \<open>Data\<close>

datatype publisher_error = ProofBatchPublisherError string | PublisherRoot root_error | PublisherEnc enc_error

fun liftBatch :: "root_error + 'a \<Rightarrow> publisher_error + 'a" where
  "liftBatch (Inl e) = Inl (PublisherRoot e)"
| "liftBatch (Inr x) = Inr x"

fun liftPub :: "enc_error + 'a \<Rightarrow> publisher_error + 'a" where
  "liftPub (Inl e) = Inl (PublisherEnc e)"
| "liftPub (Inr x) = Inr x"

lemma liftBatch_Inr_iff [simp]: "liftBatch m = Inr x \<longleftrightarrow> m = Inr x"
  by (cases m) auto

lemma liftPub_Inr_iff [simp]: "liftPub m = Inr x \<longleftrightarrow> m = Inr x"
  by (cases m) auto

record CheckpointLeaf =
  cp_sessionId :: Hex
  cp_checkpointId :: int
  cp_checkpointRoot :: Hex

record ContinuityState =
  cs_nextSequence :: int
  cs_previousBatchRoot :: Hex
  cs_hasBatches :: bool

record DataManifestInput =
  dm_packageCidHash :: "Hex option"
  dm_packageDigest :: "Hex option"
  dm_dataManifestHash :: "Hex option"

record CheckpointInclusionProof =
  ip_sessionId :: Hex
  ip_checkpointId :: int
  ip_checkpointRoot :: Hex
  ip_leafIndex :: nat
  ip_proof :: "MerkleProofStep list"
  ip_globalRoot :: Hex

record PreparedProofBatch =
  pp_continuity :: ContinuityState
  pp_checkpoints :: "CheckpointLeaf list"
  pp_orderedRoots :: "Hex list"
  pp_dataManifestHash :: Hex
  pp_createdAt :: int
  pp_batch :: ProofBatchResult
  pp_inclusionProofs :: "CheckpointInclusionProof list"

record RegisterBatchParams =
  rb_sequence :: int
  rb_previousBatchRoot :: Hex
  rb_globalRoot :: Hex
  rb_dataManifestHash :: Hex
  rb_createdAt :: int

record RegisterBatchResult =
  rs_proofBatchHash :: Hex
  rs_txHash :: "Hex option"

record 's RegistryClient =
  readContinuity :: "'s \<Rightarrow> ContinuityState"
  getBatch :: "'s \<Rightarrow> int \<Rightarrow> RegisterBatchParams option"
  registerBatch :: "'s \<Rightarrow> RegisterBatchParams \<Rightarrow> (publisher_error + RegisterBatchResult) \<times> 's"

record PublishResult =
  pl_skipped :: bool
  pl_reason :: "string option"
  pl_prepared :: "PreparedProofBatch option"
  pl_register :: "RegisterBatchResult option"
  pl_continuityAfter :: "ContinuityState option"

section \<open>Order of the leaves\<close>

text \<open>\<open><\<close> on strings compares code units from the left.\<close>

fun js_less :: "string \<Rightarrow> string \<Rightarrow> bool" where
  "js_less xs [] = False"
| "js_less [] (y # ys) = True"
| "js_less (x # xs) (y # ys) \<longleftrightarrow> (of_char x :: nat) < of_char y \<or> x = y \<and> js_less xs ys"

definition compareBytes32 :: "Hex \<Rightarrow> Hex \<Rightarrow> int" where
  "compareBytes32 a b =
     (if js_less (js_lower a) (js_lower b) then -1 else if js_less (js_lower b) (js_lower a) then 1 else 0)"

definition leafOrder :: "CheckpointLeaf \<Rightarrow> CheckpointLeaf \<Rightarrow> int" where
  "leafOrder x y =
     (let bySession = compareBytes32 (cp_sessionId x) (cp_sessionId y)
      in if bySession \<noteq> 0 then bySession
         else if cp_checkpointId x < cp_checkpointId y then -1
         else if cp_checkpointId x > cp_checkpointId y then 1 else 0)"

definition sortCheckpointLeaves :: "CheckpointLeaf list \<Rightarrow> CheckpointLeaf list" where
  "sortCheckpointLeaves leaves = js_sort leafOrder leaves"

definition orderedCheckpointRoots :: "CheckpointLeaf list \<Rightarrow> Hex list" where
  "orderedCheckpointRoots leaves = map cp_checkpointRoot (sortCheckpointLeaves leaves)"

section \<open>Checkpoint roots and the data manifest\<close>

definition assertBytes32 :: "Hex \<Rightarrow> publisher_error + unit" where
  "assertBytes32 h = (if is_hex32 h then Inr () else Inl (ProofBatchPublisherError ''INVALID_BYTES32''))"

definition buildTableCheckpointRoot :: "viem \<Rightarrow> Hex \<Rightarrow> Hex \<Rightarrow> publisher_error + Hex" where
  "buildTableCheckpointRoot v eventRoot balanceRoot =
     bindE (assertBytes32 eventRoot) (\<lambda>_. bindE (assertBytes32 balanceRoot) (\<lambda>_.
       liftPub (keccakEnc v ''bytes32, bytes32'' [AHex (js_lower eventRoot), AHex (js_lower balanceRoot)])))"

text \<open>A hash counts as given when it is a non-empty string.\<close>

definition given :: "Hex option \<Rightarrow> bool" where
  "given h \<longleftrightarrow> h \<noteq> None \<and> h \<noteq> Some []"

definition leafTuple :: "CheckpointLeaf \<Rightarrow> abi_val list" where
  "leafTuple c = [AHex (js_lower (cp_sessionId c)), AInt (cp_checkpointId c), AHex (js_lower (cp_checkpointRoot c))]"

definition buildDataManifestHash :: "viem \<Rightarrow> CheckpointLeaf list \<Rightarrow> DataManifestInput \<Rightarrow> publisher_error + Hex" where
  "buildDataManifestHash v checkpoints input =
     (if given (dm_dataManifestHash input) then
        let h = orElse (dm_dataManifestHash input) [] in bindE (assertBytes32 h) (\<lambda>_. Inr (js_lower h))
      else if given (dm_packageCidHash input) \<or> given (dm_packageDigest input) then
        let cid = js_lower (orElse (dm_packageCidHash input) ZERO32);
            digest = js_lower (orElse (dm_packageDigest input) ZERO32)
        in bindE (assertBytes32 cid) (\<lambda>_. bindE (assertBytes32 digest) (\<lambda>_.
             liftPub (keccakEnc v ''bytes32, bytes32'' [AHex cid, AHex digest])))
      else
        let ordered = sortCheckpointLeaves checkpoints
        in if ordered = [] then Inl (ProofBatchPublisherError ''EMPTY_MANIFEST'')
           else liftPub (keccakEnc v ''(bytes32 sessionId, uint64 checkpointId, bytes32 checkpointRoot)[]''
                  [ATuples (map leafTuple ordered)]))"

section \<open>Continuity\<close>

definition ZERO_ROOT :: Hex where
  "ZERO_ROOT = ZERO32"

definition genesisContinuity :: ContinuityState where
  "genesisContinuity = \<lparr>cs_nextSequence = 0, cs_previousBatchRoot = ZERO_ROOT, cs_hasBatches = False\<rparr>"

definition assertContinuityLink :: "ContinuityState \<Rightarrow> int \<Rightarrow> Hex \<Rightarrow> publisher_error + unit" where
  "assertContinuityLink state sequence previousBatchRoot =
     (if sequence \<noteq> cs_nextSequence state then Inl (ProofBatchPublisherError ''SEQUENCE_GAP'')
      else if js_lower (cs_previousBatchRoot state) \<noteq> js_lower previousBatchRoot
      then Inl (ProofBatchPublisherError ''CONTINUITY_BROKEN'')
      else if sequence = 0 \<and> js_lower previousBatchRoot \<noteq> ZERO_ROOT
      then Inl (ProofBatchPublisherError ''CONTINUITY_BROKEN'')
      else Inr ())"

definition advanceContinuity :: "ContinuityState \<Rightarrow> int \<Rightarrow> Hex \<Rightarrow> publisher_error + ContinuityState" where
  "advanceContinuity state sequence globalRoot =
     (if sequence \<noteq> cs_nextSequence state then Inl (ProofBatchPublisherError ''SEQUENCE_GAP'')
      else if js_lower globalRoot = ZERO_ROOT then Inl (ProofBatchPublisherError ''ZERO_GLOBAL_ROOT'')
      else Inr \<lparr>cs_nextSequence = sequence + 1, cs_previousBatchRoot = js_lower globalRoot, cs_hasBatches = True\<rparr>)"

section \<open>Inclusion proofs and the prepared batch\<close>

definition buildInclusionProofs :: "viem \<Rightarrow> CheckpointLeaf list \<Rightarrow> Hex \<Rightarrow> CheckpointInclusionProof list" where
  "buildInclusionProofs v checkpoints globalRoot =
     (let ordered = sortCheckpointLeaves checkpoints; roots = map cp_checkpointRoot ordered
      in map (\<lambda>leafIndex. let c = ordered ! leafIndex
            in \<lparr>ip_sessionId = cp_sessionId c, ip_checkpointId = cp_checkpointId c,
                ip_checkpointRoot = cp_checkpointRoot c, ip_leafIndex = leafIndex,
                ip_proof = proofForIndex v roots leafIndex, ip_globalRoot = globalRoot\<rparr>) [0..<length ordered])"

definition verifyCheckpointInclusion :: "viem \<Rightarrow> Hex \<Rightarrow> MerkleProofStep list \<Rightarrow> Hex \<Rightarrow> bool option" where
  "verifyCheckpointInclusion v checkpointRoot steps globalRoot = verifyMerkleProof v checkpointRoot steps globalRoot"

definition noManifest :: DataManifestInput where
  "noManifest = \<lparr>dm_packageCidHash = None, dm_packageDigest = None, dm_dataManifestHash = None\<rparr>"

definition prepareProofBatch ::
  "viem \<Rightarrow> ContinuityState \<Rightarrow> CheckpointLeaf list \<Rightarrow> int \<Rightarrow> DataManifestInput option \<Rightarrow> publisher_error + PreparedProofBatch" where
  "prepareProofBatch v continuity checkpoints0 createdAt manifest =
     (if checkpoints0 = [] then Inl (ProofBatchPublisherError ''EMPTY_BATCH'')
      else
        let checkpoints = sortCheckpointLeaves checkpoints0; orderedRoots = orderedCheckpointRoots checkpoints;
            previousBatchRoot = cs_previousBatchRoot continuity
        in bindE (buildDataManifestHash v checkpoints (orElse manifest noManifest)) (\<lambda>dataManifestHash.
           bindE (assertContinuityLink continuity (cs_nextSequence continuity) previousBatchRoot) (\<lambda>_.
           bindE (liftBatch (buildProofBatch v
                   \<lparr>pi_sequence = cs_nextSequence continuity, pi_previousBatchRoot = previousBatchRoot,
                    pi_checkpointRoots = orderedRoots, pi_dataManifestHash = dataManifestHash,
                    pi_createdAt = createdAt\<rparr>)) (\<lambda>batch.
             if js_lower (pr_globalRoot batch) = ZERO_ROOT then Inl (ProofBatchPublisherError ''ZERO_GLOBAL_ROOT'')
             else Inr \<lparr>pp_continuity = continuity, pp_checkpoints = checkpoints,
                       pp_orderedRoots = map js_lower orderedRoots, pp_dataManifestHash = js_lower dataManifestHash,
                       pp_createdAt = createdAt, pp_batch = batch,
                       pp_inclusionProofs = buildInclusionProofs v checkpoints (pr_globalRoot batch)\<rparr>))))"

section \<open>The registry stand-in\<close>

record StoredBatch = RegisterBatchParams +
  sb_proofBatchHash :: Hex

record MockRegistry =
  mr_continuity :: ContinuityState
  mr_batches :: "(string \<times> StoredBatch) list"
  mr_usedRoots :: "Hex list"
  mr_published :: "StoredBatch list"

definition newRegistry :: "ContinuityState option \<Rightarrow> MockRegistry" where
  "newRegistry initial =
     \<lparr>mr_continuity = orElse initial genesisContinuity, mr_batches = [], mr_usedRoots = [], mr_published = []\<rparr>"

definition mock_getBatch :: "MockRegistry \<Rightarrow> int \<Rightarrow> RegisterBatchParams option" where
  "mock_getBatch s sequence =
     map_option (\<lambda>b. \<lparr>rb_sequence = rb_sequence b, rb_previousBatchRoot = rb_previousBatchRoot b,
                      rb_globalRoot = rb_globalRoot b, rb_dataManifestHash = rb_dataManifestHash b,
                      rb_createdAt = rb_createdAt b\<rparr>) (map_of (mr_batches s) (int_string sequence))"

definition fieldsOf :: "RegisterBatchParams \<Rightarrow> ProofBatchFields" where
  "fieldsOf b = \<lparr>pb_sequence = rb_sequence b, pb_previousBatchRoot = rb_previousBatchRoot b,
     pb_globalRoot = rb_globalRoot b, pb_dataManifestHash = rb_dataManifestHash b, pb_createdAt = rb_createdAt b\<rparr>"

definition mock_registerBatch ::
  "viem \<Rightarrow> MockRegistry \<Rightarrow> RegisterBatchParams \<Rightarrow> (publisher_error + RegisterBatchResult) \<times> MockRegistry" where
  "mock_registerBatch v s batch =
     (case assertContinuityLink (mr_continuity s) (rb_sequence batch) (rb_previousBatchRoot batch) of
        Inl e \<Rightarrow> (Inl e, s)
      | Inr _ \<Rightarrow>
          let r = js_lower (rb_globalRoot batch)
          in if r = ZERO_ROOT then (Inl (ProofBatchPublisherError ''ZERO_GLOBAL_ROOT''), s)
             else if r \<in> set (mr_usedRoots s) then (Inl (ProofBatchPublisherError ''DUPLICATE_GLOBAL_ROOT''), s)
             else case proofBatchLeaf v (fieldsOf batch) of
                    Inl e \<Rightarrow> (Inl (PublisherEnc e), s)
                  | Inr hashed \<Rightarrow>
                      let stored = \<lparr>rb_sequence = rb_sequence batch, rb_previousBatchRoot = js_lower (rb_previousBatchRoot batch),
                            rb_globalRoot = r, rb_dataManifestHash = js_lower (rb_dataManifestHash batch),
                            rb_createdAt = rb_createdAt batch, sb_proofBatchHash = hash hashed\<rparr>;
                          s' = s\<lparr>mr_batches := AList.update (int_string (rb_sequence batch)) stored (mr_batches s),
                                 mr_usedRoots := r # mr_usedRoots s, mr_published := mr_published s @ [stored]\<rparr>
                      in case advanceContinuity (mr_continuity s) (rb_sequence batch) (rb_globalRoot batch) of
                           Inl e \<Rightarrow> (Inl e, s')
                         | Inr c \<Rightarrow> (Inr \<lparr>rs_proofBatchHash = hash hashed, rs_txHash = None\<rparr>, s'\<lparr>mr_continuity := c\<rparr>))"

definition MockRegistryClient :: "viem \<Rightarrow> MockRegistry RegistryClient" where
  "MockRegistryClient v =
     \<lparr>readContinuity = mr_continuity, getBatch = mock_getBatch, registerBatch = mock_registerBatch v\<rparr>"

section \<open>Public artifacts\<close>

record PublicInclusionProofRecord =
  pir_sessionId :: Hex
  pir_checkpointId :: string
  pir_checkpointRoot :: Hex
  pir_leafIndex :: nat
  pir_proof :: "MerkleProofStep list"
  pir_globalRoot :: Hex
  pir_verifiedLocally :: bool

record PublicProofBatchArtifact =
  pa_sequence :: string
  pa_previousBatchRoot :: Hex
  pa_globalRoot :: Hex
  pa_dataManifestHash :: Hex
  pa_proofBatchHash :: Hex
  pa_createdAt :: string
  pa_txHash :: "Hex option"
  pa_orderedCheckpointRoots :: "Hex list"
  pa_inclusionProofs :: "PublicInclusionProofRecord list"

text \<open>\<open>None\<close>: a step without a sibling makes the verifier throw.\<close>

definition lowerStep :: "MerkleProofStep \<Rightarrow> MerkleProofStep" where
  "lowerStep s = \<lparr>sibling = map_option js_lower (sibling s), isLeft = isLeft s\<rparr>"

definition serializeInclusionProof :: "viem \<Rightarrow> CheckpointInclusionProof \<Rightarrow> PublicInclusionProofRecord option" where
  "serializeInclusionProof v incl =
     map_option (\<lambda>verifiedLocally.
       \<lparr>pir_sessionId = js_lower (ip_sessionId incl), pir_checkpointId = int_string (ip_checkpointId incl),
        pir_checkpointRoot = js_lower (ip_checkpointRoot incl), pir_leafIndex = ip_leafIndex incl,
        pir_proof = map lowerStep (ip_proof incl), pir_globalRoot = js_lower (ip_globalRoot incl),
        pir_verifiedLocally = verifiedLocally\<rparr>)
       (verifyCheckpointInclusion v (ip_checkpointRoot incl) (ip_proof incl) (ip_globalRoot incl))"

definition serializeAcceptedBatch ::
  "viem \<Rightarrow> PreparedProofBatch \<Rightarrow> RegisterBatchResult option \<Rightarrow> PublicProofBatchArtifact option" where
  "serializeAcceptedBatch v prepared register =
     map_option (\<lambda>proofs.
       \<lparr>pa_sequence = int_string (pr_sequence (pp_batch prepared)),
        pa_previousBatchRoot = js_lower (pr_previousBatchRoot (pp_batch prepared)),
        pa_globalRoot = js_lower (pr_globalRoot (pp_batch prepared)),
        pa_dataManifestHash = js_lower (pr_dataManifestHash (pp_batch prepared)),
        pa_proofBatchHash = js_lower (case register of Some r \<Rightarrow> rs_proofBatchHash r
          | None \<Rightarrow> pr_proofBatchHash (pp_batch prepared)),
        pa_createdAt = int_string (pr_createdAt (pp_batch prepared)),
        pa_txHash = (case register of None \<Rightarrow> None | Some r \<Rightarrow> map_option js_lower (rs_txHash r)),
        pa_orderedCheckpointRoots = map js_lower (pp_orderedRoots prepared), pa_inclusionProofs = proofs\<rparr>)
       (those (map (serializeInclusionProof v) (pp_inclusionProofs prepared)))"

definition mem_listForSession :: "PublicProofBatchArtifact list \<Rightarrow> string \<Rightarrow> PublicInclusionProofRecord list" where
  "mem_listForSession artifacts sessionId =
     concat (map (\<lambda>a. filter (\<lambda>p. js_lower (pir_sessionId p) = js_lower sessionId) (pa_inclusionProofs a)) artifacts)"

section \<open>The publisher\<close>

record ProofBatchPublisher =
  pu_continuity :: ContinuityState
  pu_skipEmpty :: bool
  pu_synced :: bool

definition newPublisher :: "bool option \<Rightarrow> ProofBatchPublisher" where
  "newPublisher skipEmpty = \<lparr>pu_continuity = genesisContinuity, pu_skipEmpty = (skipEmpty \<noteq> Some False), pu_synced = False\<rparr>"

definition syncFromRegistry ::
  "'s RegistryClient \<Rightarrow> ProofBatchPublisher \<Rightarrow> 's \<Rightarrow> ContinuityState \<times> ProofBatchPublisher" where
  "syncFromRegistry reg p s =
     (readContinuity reg s, p\<lparr>pu_continuity := readContinuity reg s, pu_synced := True\<rparr>)"

definition prepare ::
  "viem \<Rightarrow> ProofBatchPublisher \<Rightarrow> CheckpointLeaf list \<Rightarrow> DataManifestInput option \<Rightarrow> int option \<Rightarrow> int \<Rightarrow>
     publisher_error + PreparedProofBatch" where
  "prepare v p checkpoints manifest createdAt now =
     prepareProofBatch v (pu_continuity p) checkpoints (orElse createdAt now) manifest"

text \<open>The in-memory inclusion store: the artifacts saved so far, or no store. A failure to save is only logged.\<close>

type_synonym inclusion_store = "PublicProofBatchArtifact list option"

definition persistPublishResult :: "viem \<Rightarrow> inclusion_store \<Rightarrow> PublishResult \<Rightarrow> inclusion_store" where
  "persistPublishResult v store result =
     (case (store, pl_prepared result) of
        (Some artifacts, Some prepared) \<Rightarrow>
          if pl_skipped result then store
          else (case serializeAcceptedBatch v prepared (pl_register result) of
                  None \<Rightarrow> store | Some artifact \<Rightarrow> Some (artifacts @ [artifact]))
      | _ \<Rightarrow> store)"

text \<open>The call to the registry and what follows it.\<close>

definition paramsOf :: "ProofBatchResult \<Rightarrow> RegisterBatchParams" where
  "paramsOf b = \<lparr>rb_sequence = pr_sequence b, rb_previousBatchRoot = pr_previousBatchRoot b,
     rb_globalRoot = pr_globalRoot b, rb_dataManifestHash = pr_dataManifestHash b, rb_createdAt = pr_createdAt b\<rparr>"

definition submitPrepared ::
  "viem \<Rightarrow> 's RegistryClient \<Rightarrow> PreparedProofBatch \<Rightarrow> ProofBatchPublisher \<Rightarrow> 's \<Rightarrow> inclusion_store \<Rightarrow>
     (publisher_error + PublishResult) \<times> ProofBatchPublisher \<times> 's \<times> inclusion_store" where
  "submitPrepared v reg prepared p s t =
     (case registerBatch reg s (paramsOf (pp_batch prepared)) of
        (Inl e, s') \<Rightarrow> (Inl e, p, s', t)
      | (Inr register, s') \<Rightarrow>
          if js_lower (rs_proofBatchHash register) \<noteq> js_lower (pr_proofBatchHash (pp_batch prepared))
          then (Inl (ProofBatchPublisherError ''HASH_MISMATCH''), p, s', t)
          else case advanceContinuity (pu_continuity p) (pr_sequence (pp_batch prepared)) (pr_globalRoot (pp_batch prepared)) of
                 Inl e \<Rightarrow> (Inl e, p, s', t)
               | Inr c \<Rightarrow>
                   let result = \<lparr>pl_skipped = False, pl_reason = None, pl_prepared = Some prepared,
                         pl_register = Some register, pl_continuityAfter = Some c\<rparr>
                   in (Inr result, p\<lparr>pu_continuity := c\<rparr>, s', persistPublishResult v t result))"

definition publish ::
  "viem \<Rightarrow> 's RegistryClient \<Rightarrow> CheckpointLeaf list \<Rightarrow> DataManifestInput option \<Rightarrow> int \<Rightarrow>
     ProofBatchPublisher \<Rightarrow> 's \<Rightarrow> inclusion_store \<Rightarrow>
     (publisher_error + PublishResult) \<times> ProofBatchPublisher \<times> 's \<times> inclusion_store" where
  "publish v reg checkpoints manifest now p0 s t =
     (let p1 = (if pu_synced p0 then p0 else snd (syncFromRegistry reg p0 s))
      in if checkpoints = [] then
           if pu_skipEmpty p1
           then (Inr \<lparr>pl_skipped = True, pl_reason = Some ''empty'', pl_prepared = None, pl_register = None,
                      pl_continuityAfter = None\<rparr>, p1, s, t)
           else (Inl (ProofBatchPublisherError ''EMPTY_BATCH''), p1, s, t)
         else
           let p = p1\<lparr>pu_continuity := readContinuity reg s\<rparr>
           in case prepare v p checkpoints manifest None now of
                Inl e \<Rightarrow> (Inl e, p, s, t)
              | Inr prepared \<Rightarrow> submitPrepared v reg prepared p s t)"

text \<open>The in-memory checkpoint source is its list of pending leaves; it has no \<open>acknowledge\<close>. A round of
  \<open>runPublisherLoop\<close> is the same drain and publication, its error going to \<open>onError\<close>.\<close>

definition enqueue :: "CheckpointLeaf list \<Rightarrow> CheckpointLeaf list \<Rightarrow> CheckpointLeaf list" where
  "enqueue pending leaves = pending @ leaves"

definition drainPending :: "CheckpointLeaf list \<Rightarrow> CheckpointLeaf list \<times> CheckpointLeaf list" where
  "drainPending pending = (pending, [])"

definition publishFromSource ::
  "viem \<Rightarrow> 's RegistryClient \<Rightarrow> DataManifestInput option \<Rightarrow> int \<Rightarrow> CheckpointLeaf list \<Rightarrow> ProofBatchPublisher \<Rightarrow> 's \<Rightarrow>
     inclusion_store \<Rightarrow> (publisher_error + PublishResult) \<times> CheckpointLeaf list \<times> ProofBatchPublisher \<times> 's \<times> inclusion_store" where
  "publishFromSource v reg manifest now source p s t =
     (let (pending, source') = drainPending source; (r, p', s', t') = publish v reg pending manifest now p s t
      in (r, source', p', s', t'))"

section \<open>The normative order\<close>

lemma js_less_irrefl: "\<not> js_less x x"
  by (induction x) auto

lemma js_less_trans: "js_less x y \<Longrightarrow> js_less y z \<Longrightarrow> js_less x z"
proof (induction x y arbitrary: z rule: js_less.induct)
  case (3 a xs b ys)
  then show ?case by (cases z) auto
qed (auto, (case_tac z; simp)+)

lemma js_less_total: "js_less x y \<or> x = y \<or> js_less y x"
proof (induction x y rule: js_less.induct)
  case (3 a xs b ys)
  have "a = b" if "(of_char a :: nat) = of_char b" using that by simp
  then show ?case using 3 by (cases "(of_char a :: nat)" "(of_char b :: nat)" rule: linorder_cases) auto
qed (auto, (case_tac xs; simp)+)

lemma compareBytes32_le: "compareBytes32 a b \<le> 0 \<longleftrightarrow> \<not> js_less (js_lower b) (js_lower a)"
  using js_less_trans [of "js_lower b" "js_lower a" "js_lower b"] js_less_irrefl
  by (auto simp: compareBytes32_def)

lemma compareBytes32_0: "compareBytes32 a b = 0 \<longleftrightarrow> js_lower a = js_lower b"
  using js_less_total [of "js_lower a" "js_lower b"] js_less_irrefl by (auto simp: compareBytes32_def)

interpretation bytes32: comparator compareBytes32
proof
  fix x y z
  show "compareBytes32 x y \<le> 0 \<or> compareBytes32 y x \<le> 0"
    unfolding compareBytes32_le using js_less_trans [of "js_lower x" "js_lower y" "js_lower x"] js_less_irrefl by blast
  assume "compareBytes32 x y \<le> 0" "compareBytes32 y z \<le> 0"
  then show "compareBytes32 x z \<le> 0"
    unfolding compareBytes32_le
    using js_less_trans [of "js_lower z" "js_lower x"] js_less_total [of "js_lower x" "js_lower y"]
      js_less_total [of "js_lower y" "js_lower z"] by metis
qed

lemma leafOrder_le:
  "leafOrder x y \<le> 0 \<longleftrightarrow> compareBytes32 (cp_sessionId x) (cp_sessionId y) < 0 \<or>
     js_lower (cp_sessionId x) = js_lower (cp_sessionId y) \<and> cp_checkpointId x \<le> cp_checkpointId y"
  by (auto simp: leafOrder_def Let_def simp flip: compareBytes32_0)

lemma compareBytes32_less: "compareBytes32 a b < 0 \<longleftrightarrow> js_less (js_lower a) (js_lower b)"
  by (auto simp: compareBytes32_def)

interpretation leaves: comparator leafOrder
proof
  fix x y z
  show "leafOrder x y \<le> 0 \<or> leafOrder y x \<le> 0"
    unfolding leafOrder_le compareBytes32_less using js_less_total by (metis linear)
  assume "leafOrder x y \<le> 0" "leafOrder y z \<le> 0"
  then show "leafOrder x z \<le> 0"
    unfolding leafOrder_le compareBytes32_less using js_less_trans by (metis order_trans)
qed

text \<open>Leaves with different sessions or ids have one order, however they arrive.\<close>

definition leafKey :: "CheckpointLeaf \<Rightarrow> Hex \<times> int" where
  "leafKey c = (js_lower (cp_sessionId c), cp_checkpointId c)"

lemma sortCheckpointLeaves_cong:
  assumes "mset xs = mset ys" "distinct (map leafKey xs)"
  shows "sortCheckpointLeaves xs = sortCheckpointLeaves ys"
  unfolding sortCheckpointLeaves_def
proof (rule leaves.js_sort_cong [OF assms(1)])
  fix x y assume xy: "x \<in> set xs" "y \<in> set xs" "leafOrder x y \<le> 0" "leafOrder y x \<le> 0"
  have "leafKey x = leafKey y"
    using xy(3,4) js_less_trans js_less_irrefl unfolding leafOrder_le compareBytes32_less leafKey_def by (metis order_antisym)
  then show "x = y" using assms(2) xy(1,2) by (auto simp: distinct_map dest: inj_onD)
qed

lemma sortCheckpointLeaves_idem [simp]: "sortCheckpointLeaves (sortCheckpointLeaves xs) = sortCheckpointLeaves xs"
proof -
  have "js_sort leafOrder ys = ys" if "sorted_wrt (\<lambda>x y. leafOrder x y \<le> 0) ys" for ys
    using that
  proof (induction ys)
    case (Cons y ys)
    then show ?case by (cases ys) auto
  qed simp
  then show ?thesis unfolding sortCheckpointLeaves_def using leaves.sorted_js_sort by blast
qed

section \<open>What a registry promises\<close>

text \<open>A chain of batches: numbered from zero, each naming the root before it, with roots that are different from each
  other and from zero.\<close>

definition batch_chain :: "StoredBatch list \<Rightarrow> bool" where
  "batch_chain bs \<longleftrightarrow>
     map rb_sequence bs = map int [0..<length bs] \<and>
     map rb_previousBatchRoot bs = butlast (ZERO_ROOT # map rb_globalRoot bs) \<and>
     distinct (map rb_globalRoot bs) \<and> list_all (\<lambda>b. rb_globalRoot b \<noteq> ZERO_ROOT) bs"

text \<open>The cursor a chain of batches stands for.\<close>

definition tipOf :: "StoredBatch list \<Rightarrow> ContinuityState" where
  "tipOf bs =
     (if bs = [] then genesisContinuity
      else \<lparr>cs_nextSequence = int (length bs), cs_previousBatchRoot = rb_globalRoot (last bs), cs_hasBatches = True\<rparr>)"

text \<open>What is stored for a batch, and when a batch may follow a chain.\<close>

definition storedOf :: "viem \<Rightarrow> RegisterBatchParams \<Rightarrow> StoredBatch \<Rightarrow> bool" where
  "storedOf v b st \<longleftrightarrow> rb_sequence st = rb_sequence b \<and> rb_previousBatchRoot st = js_lower (rb_previousBatchRoot b) \<and>
     rb_globalRoot st = js_lower (rb_globalRoot b) \<and> rb_dataManifestHash st = js_lower (rb_dataManifestHash b) \<and>
     rb_createdAt st = rb_createdAt b \<and>
     (\<exists>h. proofBatchLeaf v (fieldsOf b) = Inr h \<and> sb_proofBatchHash st = hash h)"

definition mayFollow :: "viem \<Rightarrow> StoredBatch list \<Rightarrow> RegisterBatchParams \<Rightarrow> bool" where
  "mayFollow v bs b \<longleftrightarrow> rb_sequence b = int (length bs) \<and>
     js_lower (rb_previousBatchRoot b) = (if bs = [] then ZERO_ROOT else rb_globalRoot (last bs)) \<and>
     js_lower (rb_globalRoot b) \<notin> insert ZERO_ROOT (rb_globalRoot ` set bs) \<and> isOk (proofBatchLeaf v (fieldsOf b))"

locale registry_client =
  fixes v :: viem and reg :: "'s RegistryClient" and accepted :: "'s \<Rightarrow> StoredBatch list" and inv :: "'s \<Rightarrow> bool"
  assumes read_tip: "inv s \<Longrightarrow> readContinuity reg s = tipOf (accepted s)"
    and register_ok: "inv s \<Longrightarrow> mayFollow v (accepted s) b \<Longrightarrow>
      \<exists>r s' st. registerBatch reg s b = (Inr r, s') \<and> inv s' \<and> accepted s' = accepted s @ [st] \<and> storedOf v b st \<and>
        rs_proofBatchHash r = sb_proofBatchHash st"
    and register_refused: "inv s \<Longrightarrow> \<not> mayFollow v (accepted s) b \<Longrightarrow> \<exists>e. registerBatch reg s b = (Inl e, s)"
    and chained: "inv s \<Longrightarrow> batch_chain (accepted s)"
begin

text \<open>Submitting a prepared batch appends it, or changes nothing.\<close>

lemma submit_cases:
  assumes "inv s" "submitPrepared v reg prepared p s t = (res, p', s', t')"
  shows "inv s' \<and> (s' = s \<and> (\<exists>e. res = Inl e) \<and> p' = p \<and> t' = t \<and> \<not> mayFollow v (accepted s) (paramsOf (pp_batch prepared)) \<or>
    (\<exists>st. accepted s' = accepted s @ [st] \<and> storedOf v (paramsOf (pp_batch prepared)) st) \<and>
      mayFollow v (accepted s) (paramsOf (pp_batch prepared)))"
proof (cases "mayFollow v (accepted s) (paramsOf (pp_batch prepared))")
  case True
  then obtain r s2 st where "registerBatch reg s (paramsOf (pp_batch prepared)) = (Inr r, s2)"
    "inv s2" "accepted s2 = accepted s @ [st]" "storedOf v (paramsOf (pp_batch prepared)) st"
    using register_ok [OF assms(1)] by blast
  then show ?thesis using assms(2) True by (auto simp: submitPrepared_def Let_def split: if_splits sum.splits)
next
  case False
  then obtain e where "registerBatch reg s (paramsOf (pp_batch prepared)) = (Inl e, s)"
    using register_refused [OF assms(1)] by blast
  then show ?thesis using assms False by (auto simp: submitPrepared_def)
qed

end

section \<open>The stand-in keeps the promise\<close>

definition mock_ok :: "MockRegistry \<Rightarrow> bool" where
  "mock_ok s \<longleftrightarrow> mr_continuity s = tipOf (mr_published s) \<and> set (mr_usedRoots s) = rb_globalRoot ` set (mr_published s) \<and>
     batch_chain (mr_published s) \<and> list_all (\<lambda>b. js_lower (rb_globalRoot b) = rb_globalRoot b) (mr_published s)"

lemma lower_ZERO_ROOT [simp]: "js_lower ZERO_ROOT = ZERO_ROOT"
  by (simp add: ZERO_ROOT_def)

lemma mock_link:
  assumes "mock_ok s"
  shows "assertContinuityLink (mr_continuity s) n h = Inr () \<longleftrightarrow>
    n = int (length (mr_published s)) \<and>
    js_lower h = (if mr_published s = [] then ZERO_ROOT else rb_globalRoot (last (mr_published s)))"
proof -
  have "js_lower (rb_globalRoot (last (mr_published s))) = rb_globalRoot (last (mr_published s))" if "mr_published s \<noteq> []"
    using assms that by (auto simp: mock_ok_def list_all_iff)
  moreover have "mr_continuity s = tipOf (mr_published s)" using assms by (simp add: mock_ok_def)
  ultimately show ?thesis
    by (auto simp: assertContinuityLink_def tipOf_def genesisContinuity_def)
qed

lemma chain_snoc:
  assumes "batch_chain bs" "rb_sequence st = int (length bs)"
    and "rb_previousBatchRoot st = (if bs = [] then ZERO_ROOT else rb_globalRoot (last bs))"
    and "rb_globalRoot st \<notin> insert ZERO_ROOT (rb_globalRoot ` set bs)"
  shows "batch_chain (bs @ [st])"
proof -
  have "ZERO_ROOT # map rb_globalRoot bs =
      butlast (ZERO_ROOT # map rb_globalRoot bs) @ [last (ZERO_ROOT # map rb_globalRoot bs)]"
    by (rule append_butlast_last_id [symmetric]) simp
  then show ?thesis
    using assms by (auto simp: batch_chain_def last_map butlast_append)
qed

lemma mock_register_ok:
  assumes "mock_ok s" "mayFollow v (mr_published s) b"
  shows "\<exists>r s' st. mock_registerBatch v s b = (Inr r, s') \<and> mock_ok s' \<and> mr_published s' = mr_published s @ [st] \<and>
    storedOf v b st \<and> rs_proofBatchHash r = sb_proofBatchHash st"
proof -
  note m = assms(2) [unfolded mayFollow_def]
  obtain h where h: "proofBatchLeaf v (fieldsOf b) = Inr h" using m by (auto simp: isOk_iff)
  define st where "st = \<lparr>rb_sequence = rb_sequence b, rb_previousBatchRoot = js_lower (rb_previousBatchRoot b),
    rb_globalRoot = js_lower (rb_globalRoot b), rb_dataManifestHash = js_lower (rb_dataManifestHash b),
    rb_createdAt = rb_createdAt b, sb_proofBatchHash = hash h\<rparr>"
  define s' where "s' = s\<lparr>mr_batches := AList.update (int_string (rb_sequence b)) st (mr_batches s),
    mr_usedRoots := js_lower (rb_globalRoot b) # mr_usedRoots s, mr_published := mr_published s @ [st],
    mr_continuity := \<lparr>cs_nextSequence = rb_sequence b + 1, cs_previousBatchRoot = js_lower (rb_globalRoot b), cs_hasBatches = True\<rparr>\<rparr>"
  have link: "assertContinuityLink (mr_continuity s) (rb_sequence b) (rb_previousBatchRoot b) = Inr ()"
    using m mock_link [OF assms(1)] by simp
  have adv: "advanceContinuity (mr_continuity s) (rb_sequence b) (rb_globalRoot b) =
      Inr \<lparr>cs_nextSequence = rb_sequence b + 1, cs_previousBatchRoot = js_lower (rb_globalRoot b), cs_hasBatches = True\<rparr>"
    using m assms(1) by (auto simp: advanceContinuity_def mock_ok_def tipOf_def genesisContinuity_def)
  have "mock_registerBatch v s b = (Inr \<lparr>rs_proofBatchHash = hash h, rs_txHash = None\<rparr>, s')"
    using m assms(1) h link adv by (simp add: mock_registerBatch_def Let_def s'_def st_def mock_ok_def)
  moreover have "batch_chain (mr_published s @ [st])"
    using assms(1) m by (intro chain_snoc) (auto simp: mock_ok_def st_def)
  then have "mock_ok s'" using assms(1) m by (auto simp: mock_ok_def s'_def st_def tipOf_def)
  moreover have "storedOf v b st" using h by (simp add: storedOf_def st_def)
  ultimately show ?thesis
    by (intro exI [of _ "\<lparr>rs_proofBatchHash = hash h, rs_txHash = None\<rparr>"] exI [of _ s'] exI [of _ st])
       (simp add: s'_def, simp add: st_def)
qed

lemma mock_register_refused:
  assumes "mock_ok s" "\<not> mayFollow v (mr_published s) b"
  shows "\<exists>e. mock_registerBatch v s b = (Inl e, s)"
proof (cases "assertContinuityLink (mr_continuity s) (rb_sequence b) (rb_previousBatchRoot b)")
  case (Inr u)
  then have "assertContinuityLink (mr_continuity s) (rb_sequence b) (rb_previousBatchRoot b) = Inr ()" by simp
  then have "js_lower (rb_globalRoot b) \<in> insert ZERO_ROOT (set (mr_usedRoots s)) \<or> \<not> isOk (proofBatchLeaf v (fieldsOf b))"
    using assms mock_link [OF assms(1)] by (auto simp: mayFollow_def mock_ok_def)
  then show ?thesis using Inr by (auto simp: mock_registerBatch_def Let_def isOk_iff split: sum.splits)
qed (auto simp: mock_registerBatch_def)

interpretation mock: registry_client v "MockRegistryClient v" mr_published mock_ok for v
proof
  fix s b assume "mock_ok s"
  then show "readContinuity (MockRegistryClient v) s = tipOf (mr_published s)" "batch_chain (mr_published s)"
    by (simp_all add: mock_ok_def MockRegistryClient_def)
  show "\<exists>r s' st. registerBatch (MockRegistryClient v) s b = (Inr r, s') \<and> mock_ok s' \<and>
      mr_published s' = mr_published s @ [st] \<and> storedOf v b st \<and> rs_proofBatchHash r = sb_proofBatchHash st"
    if "mayFollow v (mr_published s) b"
    using mock_register_ok [OF \<open>mock_ok s\<close> that] by (simp add: MockRegistryClient_def)
  show "\<exists>e. registerBatch (MockRegistryClient v) s b = (Inl e, s)" if "\<not> mayFollow v (mr_published s) b"
    using mock_register_refused [OF \<open>mock_ok s\<close> that] by (simp add: MockRegistryClient_def)
qed

section \<open>Publishers racing on one registry\<close>

record batch_sys =
  by_registry :: MockRegistry
  by_publisher :: "nat \<Rightarrow> ProofBatchPublisher"
  by_ready :: "nat \<Rightarrow> PreparedProofBatch option"
  by_store :: inclusion_store

text \<open>\<open>publish\<close> in its two parts, between which other publishers may act: reading the cursor and preparing a batch,
  and submitting what was prepared.\<close>

inductive batch_step :: "viem \<Rightarrow> batch_sys \<Rightarrow> batch_sys \<Rightarrow> bool" for v where
  prepared: "p = (by_publisher S i)\<lparr>pu_continuity := readContinuity (MockRegistryClient v) (by_registry S)\<rparr> \<Longrightarrow>
    prepare v p checkpoints manifest None now = Inr b \<Longrightarrow>
    batch_step v S (S\<lparr>by_publisher := (by_publisher S)(i := p), by_ready := (by_ready S)(i := Some b)\<rparr>)"
| submitted: "by_ready S i = Some b \<Longrightarrow>
    submitPrepared v (MockRegistryClient v) b (by_publisher S i) (by_registry S) (by_store S) = (res, p, s, t) \<Longrightarrow>
    batch_step v S (S\<lparr>by_registry := s, by_publisher := (by_publisher S)(i := p), by_ready := (by_ready S)(i := None),
      by_store := t\<rparr>)"
| synced: "batch_step v S (S\<lparr>by_publisher := (by_publisher S)(i :=
      snd (syncFromRegistry (MockRegistryClient v) (by_publisher S i) (by_registry S)))\<rparr>)"

text \<open>The specification: a ledger of roots to which fresh roots are appended, one at a time.\<close>

inductive ledger_step :: "Hex list \<Rightarrow> Hex list \<Rightarrow> bool" where
  append: "r \<notin> set rs \<Longrightarrow> r \<noteq> ZERO_ROOT \<Longrightarrow> ledger_step rs (rs @ [r])"
| stutter: "ledger_step rs rs"

definition acceptedRoots :: "batch_sys \<Rightarrow> Hex list" where
  "acceptedRoots S = map rb_globalRoot (mr_published (by_registry S))"

lemma batch_step_refines:
  assumes "batch_step v S S'" "mock_ok (by_registry S)"
  shows "mock_ok (by_registry S') \<and> ledger_step (acceptedRoots S) (acceptedRoots S')"
  using assms(1)
proof (cases rule: batch_step.cases)
  case (submitted i b res p s t)
  have "mock_ok s \<and> (s = by_registry S \<or> (\<exists>st. mr_published s = mr_published (by_registry S) @ [st] \<and>
      storedOf v (paramsOf (pp_batch b)) st \<and> mayFollow v (mr_published (by_registry S)) (paramsOf (pp_batch b))))"
    using mock.submit_cases [OF assms(2) submitted(3)] by blast
  then show ?thesis
    using submitted(1) by (auto simp: acceptedRoots_def mayFollow_def storedOf_def intro!: ledger_step.intros)
qed (use assms(2) in \<open>auto simp: acceptedRoots_def intro: ledger_step.stutter\<close>)

lemma mock_ok_new: "mock_ok (newRegistry None)"
  by (simp add: mock_ok_def newRegistry_def tipOf_def batch_chain_def)

lemma batch_run_refines:
  assumes "(batch_step v)\<^sup>*\<^sup>* S S'" "mock_ok (by_registry S)"
  shows "mock_ok (by_registry S') \<and> ledger_step\<^sup>*\<^sup>* (acceptedRoots S) (acceptedRoots S')"
  using assms(1)
proof (induction rule: rtranclp_induct)
  case (step T U)
  then show ?case using batch_step_refines [OF step(2)] by (auto intro: rtranclp.rtrancl_into_rtrancl)
qed (simp add: assms(2))

section \<open>What a published batch contains\<close>

lemma prepareProofBatch_InrD:
  assumes "prepareProofBatch v c checkpoints createdAt manifest = Inr b"
  shows "checkpoints \<noteq> []" "pp_checkpoints b = sortCheckpointLeaves checkpoints"
    "pr_globalRoot (pp_batch b) = buildGlobalProofBatchRoot v (orderedCheckpointRoots checkpoints)"
    "pr_sequence (pp_batch b) = cs_nextSequence c" "pr_previousBatchRoot (pp_batch b) = cs_previousBatchRoot c"
    "pp_inclusionProofs b = buildInclusionProofs v checkpoints (pr_globalRoot (pp_batch b))"
  using assms
  by (auto simp: prepareProofBatch_def Let_def orderedCheckpointRoots_def buildProofBatch_def buildInclusionProofs_def
      split: if_splits)

lemma inclusion_proof_verifies:
  assumes "hash_lib v" "\<And>c. c \<in> set checkpoints \<Longrightarrow> is_hex32 (cp_checkpointRoot c)"
    and "i \<in> set (buildInclusionProofs v checkpoints (buildGlobalProofBatchRoot v (orderedCheckpointRoots checkpoints)))"
  shows "verifyCheckpointInclusion v (ip_checkpointRoot i) (ip_proof i) (ip_globalRoot i) = Some True"
proof -
  let ?roots = "orderedCheckpointRoots checkpoints"
  have hex: "list_all is_hex32 ?roots"
    using assms(2) by (auto simp: orderedCheckpointRoots_def sortCheckpointLeaves_def list_all_iff)
  obtain k where "k < length ?roots" "ip_checkpointRoot i = ?roots ! k" "ip_proof i = proofForIndex v ?roots k"
    "ip_globalRoot i = root (merkleRoot v ?roots)"
    using assms(3) by (auto simp: buildInclusionProofs_def orderedCheckpointRoots_def buildGlobalProofBatchRoot_def Let_def)
  then show ?thesis
    using merkle_proof_complete [OF assms(1) hex] by (simp add: verifyCheckpointInclusion_def)
qed

lemma inclusion_proof_exists:
  assumes "c \<in> set checkpoints"
  obtains i where "i \<in> set (buildInclusionProofs v checkpoints g)" "ip_sessionId i = cp_sessionId c"
    "ip_checkpointId i = cp_checkpointId c" "ip_checkpointRoot i = cp_checkpointRoot c" "ip_globalRoot i = g"
proof -
  have "c \<in> set (sortCheckpointLeaves checkpoints)" using assms by (simp add: sortCheckpointLeaves_def)
  then obtain k where "k < length (sortCheckpointLeaves checkpoints)" "sortCheckpointLeaves checkpoints ! k = c"
    by (auto simp: in_set_conv_nth)
  then show thesis
    using that by (force simp: buildInclusionProofs_def Let_def)
qed

lemma prepared_leaf:
  assumes "prepareProofBatch v c checkpoints createdAt manifest = Inr b"
  shows "\<exists>h. proofBatchLeaf v (fieldsOf (paramsOf (pp_batch b))) = Inr h \<and> pr_proofBatchHash (pp_batch b) = hash h"
    "js_lower (pr_globalRoot (pp_batch b)) \<noteq> ZERO_ROOT"
  using assms
  by (auto simp: prepareProofBatch_def Let_def buildProofBatch_def fieldsOf_def paramsOf_def split: if_splits)

lemma prepared_mayFollow:
  assumes "mock_ok s" "prepareProofBatch v (mr_continuity s) checkpoints now manifest = Inr b"
    and "js_lower (pr_globalRoot (pp_batch b)) \<notin> rb_globalRoot ` set (mr_published s)"
  shows "mayFollow v (mr_published s) (paramsOf (pp_batch b))"
proof -
  have "js_lower (rb_globalRoot (last (mr_published s))) = rb_globalRoot (last (mr_published s))" if "mr_published s \<noteq> []"
    using assms(1) that by (auto simp: mock_ok_def list_all_iff)
  moreover have "mr_continuity s = tipOf (mr_published s)" using assms(1) by (simp add: mock_ok_def)
  ultimately show ?thesis
    using prepareProofBatch_InrD(4,5) [OF assms(2)] prepared_leaf [OF assms(2)] assms(3)
    by (auto simp: mayFollow_def tipOf_def genesisContinuity_def isOk_iff, auto simp: paramsOf_def)
qed

lemma publish_succeeds:
  assumes "mock_ok s" "prepareProofBatch v (mr_continuity s) checkpoints now manifest = Inr b"
    and "js_lower (pr_globalRoot (pp_batch b)) \<notin> rb_globalRoot ` set (mr_published s)"
  obtains r p' s' st where "publish v (MockRegistryClient v) checkpoints manifest now p s t = (Inr r, p', s', persistPublishResult v t r)"
    "pl_prepared r = Some b" "\<not> pl_skipped r" "mock_ok s'" "mr_published s' = mr_published s @ [st]"
    "rb_globalRoot st = js_lower (pr_globalRoot (pp_batch b))"
proof -
  note pd = prepareProofBatch_InrD [OF assms(2)]
  obtain h where h: "proofBatchLeaf v (fieldsOf (paramsOf (pp_batch b))) = Inr h" "pr_proofBatchHash (pp_batch b) = hash h"
    using prepared_leaf(1) [OF assms(2)] by blast
  obtain reg s' st where reg: "mock_registerBatch v s (paramsOf (pp_batch b)) = (Inr reg, s')" "mock_ok s'"
    "mr_published s' = mr_published s @ [st]" "storedOf v (paramsOf (pp_batch b)) st" "rs_proofBatchHash reg = sb_proofBatchHash st"
    using mock_register_ok [OF assms(1) prepared_mayFollow [OF assms]] by blast
  have same: "rs_proofBatchHash reg = pr_proofBatchHash (pp_batch b)" "rb_globalRoot st = js_lower (pr_globalRoot (pp_batch b))"
    using reg(4,5) h by (auto simp: storedOf_def paramsOf_def)
  obtain c where adv: "advanceContinuity (mr_continuity s) (pr_sequence (pp_batch b)) (pr_globalRoot (pp_batch b)) = Inr c"
    using pd(4) prepared_leaf(2) [OF assms(2)] by (simp add: advanceContinuity_def)
  show thesis
    using that pd(1) assms(2) reg(1-3) same adv
    by (auto simp: publish_def prepare_def submitPrepared_def MockRegistryClient_def Let_def)
qed

lemma those_map_Some_iff: "(\<And>x. x \<in> set xs \<Longrightarrow> f x = Some (g x)) \<Longrightarrow> those (map f xs) = Some (map g xs)"
  by (induction xs) auto

lemma serialized_proofs_verified:
  assumes "\<And>i. i \<in> set (pp_inclusionProofs b) \<Longrightarrow>
      verifyCheckpointInclusion v (ip_checkpointRoot i) (ip_proof i) (ip_globalRoot i) = Some True"
  obtains a where "serializeAcceptedBatch v b r = Some a" "length (pa_inclusionProofs a) = length (pp_inclusionProofs b)"
    "list_all pir_verifiedLocally (pa_inclusionProofs a)"
proof -
  let ?g = "\<lambda>i. the (serializeInclusionProof v i)"
  have "those (map (serializeInclusionProof v) (pp_inclusionProofs b)) = Some (map ?g (pp_inclusionProofs b))"
    using assms by (intro those_map_Some_iff) (auto simp: serializeInclusionProof_def)
  then show thesis
    using that assms by (auto simp: serializeAcceptedBatch_def serializeInclusionProof_def list_all_iff)
qed

section \<open>Properties\<close>

text \<open>C23: However many publishers race on one registry, the accepted batches refine an append-only ledger. From an empty
  registry, and with other publishers acting between any publisher's reading of the cursor and its submission, the
  accepted batches are always one chain: numbered from zero without a gap, each naming the root before it, roots never
  zero and never repeated. A submission that may follow the chain is accepted and appends exactly its batch; every
  other submission, in particular one prepared on a cursor that has moved, is refused and leaves the registry as it was.\<close>

theorem racing_publishers_refine_ledger:
  assumes "(batch_step v)\<^sup>*\<^sup>* S0 S" "by_registry S0 = newRegistry None"
  shows "batch_chain (mr_published (by_registry S)) \<and> ledger_step\<^sup>*\<^sup>* [] (acceptedRoots S) \<and>
    (case submitPrepared v (MockRegistryClient v) b p (by_registry S) t of (res, p', s', t') \<Rightarrow>
       if mayFollow v (mr_published (by_registry S)) (paramsOf (pp_batch b))
       then \<exists>st. mr_published s' = mr_published (by_registry S) @ [st] \<and> storedOf v (paramsOf (pp_batch b)) st
       else s' = by_registry S \<and> t' = t \<and> \<not> isOk res)"
proof -
  have run: "mock_ok (by_registry S)" "ledger_step\<^sup>*\<^sup>* [] (acceptedRoots S)"
    using batch_run_refines [OF assms(1)] assms(2) mock_ok_new by (auto simp: acceptedRoots_def newRegistry_def)
  obtain res p' s' t' where sub: "submitPrepared v (MockRegistryClient v) b p (by_registry S) t = (res, p', s', t')"
    by (cases "submitPrepared v (MockRegistryClient v) b p (by_registry S) t")
  show ?thesis
    using run mock.chained [OF run(1)] mock.submit_cases [OF run(1) sub] sub by auto
qed

text \<open>C24: Every published checkpoint can be proved. When a batch of checkpoints can be prepared on the registry's cursor
  and its root is fresh, \<open>publish\<close> succeeds and adds exactly one batch; for every checkpoint handed in there is an
  inclusion proof that verifies against the registered root; the artifact that is saved carries one proof per
  checkpoint, each marked as verified; and if the checkpoints have different keys, handing them in in any other order
  gives the same root.\<close>

theorem published_checkpoints_are_provable:
  assumes "prepareProofBatch v (mr_continuity s) checkpoints now manifest = Inr b" "mock_ok s"
    and "js_lower (pr_globalRoot (pp_batch b)) \<notin> rb_globalRoot ` set (mr_published s)"
    and "hash_lib v" "\<And>c. c \<in> set checkpoints \<Longrightarrow> is_hex32 (cp_checkpointRoot c)"
  shows "\<exists>r p' s' st a. publish v (MockRegistryClient v) checkpoints manifest now p s (Some artifacts) =
      (Inr r, p', s', Some (artifacts @ [a])) \<and> pl_prepared r = Some b \<and> mr_published s' = mr_published s @ [st] \<and>
    (\<forall>c \<in> set checkpoints. \<exists>i \<in> set (pp_inclusionProofs b).
       ip_sessionId i = cp_sessionId c \<and> ip_checkpointId i = cp_checkpointId c \<and>
       verifyCheckpointInclusion v (cp_checkpointRoot c) (ip_proof i) (rb_globalRoot st) = Some True) \<and>
    length (pa_inclusionProofs a) = length checkpoints \<and> list_all pir_verifiedLocally (pa_inclusionProofs a) \<and>
    (distinct (map leafKey checkpoints) \<longrightarrow> (\<forall>other. mset other = mset checkpoints \<longrightarrow>
       rb_globalRoot st = js_lower (buildGlobalProofBatchRoot v (orderedCheckpointRoots other))))"
proof -
  obtain r p' s' st where pub: "publish v (MockRegistryClient v) checkpoints manifest now p s (Some artifacts) =
      (Inr r, p', s', persistPublishResult v (Some artifacts) r)" "pl_prepared r = Some b" "\<not> pl_skipped r"
    "mr_published s' = mr_published s @ [st]" "rb_globalRoot st = js_lower (pr_globalRoot (pp_batch b))"
    by (rule publish_succeeds [OF assms(2,1,3)])
  note pd = prepareProofBatch_InrD [OF assms(1)]
  have ver: "verifyCheckpointInclusion v (ip_checkpointRoot i) (ip_proof i) (ip_globalRoot i) = Some True"
    if "i \<in> set (pp_inclusionProofs b)" for i
    using inclusion_proof_verifies [OF assms(4,5)] that pd(3,6) by simp
  have prov: "\<exists>i \<in> set (pp_inclusionProofs b). ip_sessionId i = cp_sessionId c \<and> ip_checkpointId i = cp_checkpointId c \<and>
       verifyCheckpointInclusion v (cp_checkpointRoot c) (ip_proof i) (rb_globalRoot st) = Some True"
    if c: "c \<in> set checkpoints" for c
  proof -
    obtain i where "i \<in> set (pp_inclusionProofs b)" "ip_sessionId i = cp_sessionId c" "ip_checkpointId i = cp_checkpointId c"
      "ip_checkpointRoot i = cp_checkpointRoot c" "ip_globalRoot i = pr_globalRoot (pp_batch b)"
      using inclusion_proof_exists [OF c, of v "pr_globalRoot (pp_batch b)"] pd(6) by metis
    then show ?thesis using ver [of i] pub(5) by (auto simp: verifyCheckpointInclusion_def verifyMerkleProof_def)
  qed
  obtain a where a: "serializeAcceptedBatch v b (pl_register r) = Some a"
    "length (pa_inclusionProofs a) = length (pp_inclusionProofs b)" "list_all pir_verifiedLocally (pa_inclusionProofs a)"
    using serialized_proofs_verified [OF ver] by blast
  have store: "persistPublishResult v (Some artifacts) r = Some (artifacts @ [a])"
    using a(1) pub(2,3) by (simp add: persistPublishResult_def)
  have len: "length (pa_inclusionProofs a) = length checkpoints"
    unfolding a(2) pd(6) by (simp add: buildInclusionProofs_def Let_def sortCheckpointLeaves_def)
  have ord: "rb_globalRoot st = js_lower (buildGlobalProofBatchRoot v (orderedCheckpointRoots other))"
    if "distinct (map leafKey checkpoints)" "mset other = mset checkpoints" for other
    using sortCheckpointLeaves_cong [OF that(2) [symmetric] that(1)] pub(5) pd(3) by (simp add: orderedCheckpointRoots_def)
  show ?thesis using pub(1) [unfolded store] pub(2,4) prov len a(3) ord by blast
qed

definition demo_checkpoint :: CheckpointLeaf where
  "demo_checkpoint = \<lparr>cp_sessionId = ''0xa1'', cp_checkpointId = 1, cp_checkpointRoot = ''0x'' @ replicate 64 (CHR ''a'')\<rparr>"

lemma demo_root: "buildGlobalProofBatchRoot v (orderedCheckpointRoots [demo_checkpoint]) = ''0x'' @ replicate 64 (CHR ''a'')"
  by (simp add: buildGlobalProofBatchRoot_def orderedCheckpointRoots_def sortCheckpointLeaves_def merkleRoot_def
      padLevel.simps buildLayers.simps demo_checkpoint_def)

lemma demo_prepared:
  obtains b where "prepareProofBatch demo_viem (mr_continuity (newRegistry None)) [demo_checkpoint] 1 None = Inr b"
proof -
  have "js_lower (''0x'' @ replicate 64 (CHR ''a'')) \<noteq> ZERO_ROOT" by code_simp
  then show thesis
    using that demo_root [of demo_viem]
    by (simp add: prepareProofBatch_def Let_def newRegistry_def genesisContinuity_def assertContinuityLink_def
        buildDataManifestHash_def given_def noManifest_def keccakEnc_def enc_def buildProofBatch_def proofBatchLeaf_def
        hashEnc_def sortCheckpointLeaves_def demo_viem_def orderedCheckpointRoots_def)
qed

theorem published_checkpoints_are_provable_witness:
  "\<exists>r p' s' t'. publish demo_viem (MockRegistryClient demo_viem) [demo_checkpoint] None 1 (newPublisher None) (newRegistry None)
      (Some []) = (Inr r, p', s', t') \<and> length (mr_published s') = 1"
proof -
  obtain b where b: "prepareProofBatch demo_viem (mr_continuity (newRegistry None)) [demo_checkpoint] 1 None = Inr b"
    by (rule demo_prepared)
  have hex: "is_hex32 (cp_checkpointRoot c)" if "c \<in> set [demo_checkpoint]" for c
    using that by (auto simp: demo_checkpoint_def is_hex32_def hex_digit_def list_all_iff)
  show ?thesis
    using published_checkpoints_are_provable [OF b mock_ok_new _ demo_viem_hash_lib hex, of "newPublisher None" "[]"]
    by (auto simp: newRegistry_def)
qed

text \<open>A run in which one of the publishers gets its batch in.\<close>

definition demo_batch_sys :: batch_sys where
  "demo_batch_sys = \<lparr>by_registry = newRegistry None, by_publisher = \<lambda>i. newPublisher None, by_ready = \<lambda>i. None, by_store = None\<rparr>"

theorem racing_publishers_refine_ledger_witness:
  "\<exists>S. (batch_step demo_viem)\<^sup>*\<^sup>* demo_batch_sys S \<and> batch_chain (mr_published (by_registry S)) \<and>
     length (acceptedRoots S) = 1 \<and> ledger_step\<^sup>*\<^sup>* [] (acceptedRoots S)"
proof -
  obtain b where b: "prepareProofBatch demo_viem (mr_continuity (newRegistry None)) [demo_checkpoint] 1 None = Inr b"
    by (rule demo_prepared)
  let ?p = "(newPublisher None)\<lparr>pu_continuity := mr_continuity (newRegistry None)\<rparr>"
  let ?S1 = "demo_batch_sys\<lparr>by_publisher := (by_publisher demo_batch_sys)(0 := ?p), by_ready := (by_ready demo_batch_sys)(0 := Some b)\<rparr>"
  have s1: "batch_step demo_viem demo_batch_sys ?S1"
    by (rule batch_step.prepared [where manifest = None and now = 1 and checkpoints = "[demo_checkpoint]"])
       (use b in \<open>simp_all add: demo_batch_sys_def MockRegistryClient_def prepare_def newPublisher_def\<close>)
  obtain res p s t where sub: "submitPrepared demo_viem (MockRegistryClient demo_viem) b (by_publisher ?S1 0) (by_registry ?S1) (by_store ?S1) =
      (res, p, s, t)" by (metis prod_cases4)
  let ?S2 = "?S1\<lparr>by_registry := s, by_publisher := (by_publisher ?S1)(0 := p), by_ready := (by_ready ?S1)(0 := None), by_store := t\<rparr>"
  have "batch_step demo_viem ?S1 ?S2" by (rule batch_step.submitted [OF _ sub]) simp
  then have run: "(batch_step demo_viem)\<^sup>*\<^sup>* demo_batch_sys ?S2" using s1 by simp
  have "mayFollow demo_viem (mr_published (newRegistry None)) (paramsOf (pp_batch b))"
    by (rule prepared_mayFollow [OF mock_ok_new b]) (simp add: newRegistry_def)
  then have "length (mr_published s) = 1"
    using racing_publishers_refine_ledger [of demo_viem demo_batch_sys demo_batch_sys b "by_store ?S1" "by_publisher ?S1 0"] sub
    by (auto simp: demo_batch_sys_def newRegistry_def)
  then show ?thesis
    using racing_publishers_refine_ledger [OF run] run by (intro exI [of _ ?S2]) (auto simp: demo_batch_sys_def acceptedRoots_def)
qed

end
