(* ===== verification/Dealer_Deck.thy ===== *)
theory Dealer_Deck
  imports Event_Store
begin

text \<open>
  \<^verbatim>\<open>packages/dealer-deck/src\<close>: the committed decks of Randomness V2. A keccak-based generator feeds a
  Fisher--Yates shuffle through rejection sampling; each card is committed with a salt, and the leaves form a
  Merkle tree whose root is published before play. The rejection loop has no bound in the code, so a
  computation that may not return is \<open>None\<close>; a thrown error is \<open>Some (Inl e)\<close>.
\<close>

section \<open>Computations that may throw or not return\<close>

datatype deck_error =
    InvalidBound int | DeckLength nat | InvalidCardCode int | DuplicateCardCode int | InvalidPosition int |
    SaltsNeedSeed | SaltMismatch | PositionOutOfRange int | OpeningDoesNotVerify | UndefinedSibling |
    Expected52 | DeckEncoding enc_error

type_synonym 'a run = "(deck_error + 'a) option"

fun bindR :: "'a run \<Rightarrow> ('a \<Rightarrow> 'b run) \<Rightarrow> 'b run" where
  "bindR None f = None"
| "bindR (Some (Inl e)) f = Some (Inl e)"
| "bindR (Some (Inr x)) f = f x"

lemma bindR_ok_iff: "bindR m f = Some (Inr y) \<longleftrightarrow> (\<exists>x. m = Some (Inr x) \<and> f x = Some (Inr y))"
  by (cases "(m, f)" rule: bindR.cases) auto

lemma bindR_okE [elim!]:
  assumes "bindR m f = Some (Inr y)"
  obtains x where "m = Some (Inr x)" "f x = Some (Inr y)"
  using assms by (auto simp: bindR_ok_iff)

fun mapR :: "('a \<Rightarrow> 'b run) \<Rightarrow> 'a list \<Rightarrow> 'b list run" where
  "mapR f [] = Some (Inr [])"
| "mapR f (x # xs) = bindR (f x) (\<lambda>y. bindR (mapR f xs) (\<lambda>ys. Some (Inr (y # ys))))"

fun liftDeck :: "enc_error + 'a \<Rightarrow> deck_error + 'a" where
  "liftDeck (Inl e) = Inl (DeckEncoding e)"
| "liftDeck (Inr x) = Inr x"

lemma liftDeck_Inr_iff [simp]: "liftDeck m = Inr x \<longleftrightarrow> m = Inr x"
  by (cases m) auto

section \<open>The generator\<close>

text \<open>\<open>forced\<close> is the test stream, empty for \<open>null\<close>.\<close>

record HandSeedCsprng =
  rg_handSeed :: Hex
  rg_blockCounter :: int
  rg_block :: "nat list"
  rg_offset :: nat
  rg_draws :: nat
  rg_forced :: "int list"

definition newCsprng :: "Hex \<Rightarrow> HandSeedCsprng" where
  "newCsprng hseed =
     \<lparr>rg_handSeed = hseed, rg_blockCounter = 0, rg_block = [], rg_offset = 0, rg_draws = 0, rg_forced = []\<rparr>"

definition forceUint32Sequence :: "HandSeedCsprng \<Rightarrow> int list \<Rightarrow> HandSeedCsprng" where
  "forceUint32Sequence g values = g\<lparr>rg_forced := values\<rparr>"

text \<open>\<open>parseInt\<close> of the two digits at \<open>2 i\<close> of a digest without its prefix.\<close>

definition hexByte :: "string \<Rightarrow> nat \<Rightarrow> nat" where
  "hexByte hex i = hex_value 0 (take 2 (drop (2 * i) hex))"

definition refill :: "viem \<Rightarrow> HandSeedCsprng \<Rightarrow> deck_error + HandSeedCsprng" where
  "refill v g =
     bindE (liftDeck (encodeAbi v ''bytes32 handSeed, uint64 counter'' [AHex (rg_handSeed g), AInt (rg_blockCounter g)]))
       (\<lambda>encoded. let hex = drop 2 (keccak256 v encoded)
         in Inr (g\<lparr>rg_blockCounter := rg_blockCounter g + 1, rg_block := map (hexByte hex) [0..<32], rg_offset := 0\<rparr>))"

text \<open>The shifts and ors are 32-bit, and \<open>>>> 0\<close> reads the result as unsigned.\<close>

definition beWord :: "nat \<Rightarrow> nat \<Rightarrow> nat \<Rightarrow> nat \<Rightarrow> nat" where
  "beWord a b c d =
     unat (push_bit 24 (of_nat a :: 32 word) OR push_bit 16 (of_nat b) OR push_bit 8 (of_nat c) OR of_nat d)"

definition nextUint32 :: "viem \<Rightarrow> HandSeedCsprng \<Rightarrow> deck_error + nat \<times> HandSeedCsprng" where
  "nextUint32 v g =
     (case rg_forced g of
        f # fs \<Rightarrow> Inr (unat (word_of_int f :: 32 word), g\<lparr>rg_forced := fs, rg_draws := rg_draws g + 1\<rparr>)
      | [] \<Rightarrow>
          bindE (if length (rg_block g) < rg_offset g + 4 then refill v g else Inr g) (\<lambda>g.
            let o' = rg_offset g; b = rg_block g
            in Inr (beWord (b ! o') (b ! (o' + 1)) (b ! (o' + 2)) (b ! (o' + 3)),
                    g\<lparr>rg_offset := o' + 4, rg_draws := rg_draws g + 1\<rparr>)))"

partial_function (option) rejectLoop :: "viem \<Rightarrow> HandSeedCsprng \<Rightarrow> nat \<Rightarrow> nat \<Rightarrow> (nat \<times> HandSeedCsprng) run" where
  [code]: "rejectLoop v g bound limit =
     (case nextUint32 v g of
        Inl e \<Rightarrow> Some (Inl e)
      | Inr (x, g') \<Rightarrow> if x < limit then Some (Inr (x mod bound, g')) else rejectLoop v g' bound limit)"

definition uniformBelow :: "viem \<Rightarrow> HandSeedCsprng \<Rightarrow> int \<Rightarrow> (nat \<times> HandSeedCsprng) run" where
  "uniformBelow v g bound =
     (if bound < 1 \<or> 2 ^ 32 < bound then Some (Inl (InvalidBound bound))
      else if bound = 1 then Some (Inr (0, g))
      else rejectLoop v g (nat bound) (nat (2 ^ 32 div bound * bound)))"

section \<open>The shuffle\<close>

definition DECK_SIZE :: nat where
  "DECK_SIZE = 52"

fun shuffleLoop :: "viem \<Rightarrow> nat \<Rightarrow> HandSeedCsprng \<Rightarrow> int list \<Rightarrow> int list run" where
  "shuffleLoop v 0 g deck = Some (Inr deck)"
| "shuffleLoop v (Suc i) g deck =
     bindR (uniformBelow v g (int (Suc i) + 1)) (\<lambda>(j, g'). shuffleLoop v i g' (js_swap deck (Suc i) j))"

definition identityDeck :: "int list" where
  "identityDeck = map int [0..<DECK_SIZE]"

definition shuffleDeckV2 :: "viem \<Rightarrow> Hex \<Rightarrow> int list run" where
  "shuffleDeckV2 v hseed = shuffleLoop v (DECK_SIZE - 1) (newCsprng hseed) identityDeck"

fun biasedLoop :: "viem \<Rightarrow> nat \<Rightarrow> HandSeedCsprng \<Rightarrow> int list \<Rightarrow> deck_error + int list" where
  "biasedLoop v 0 g deck = Inr deck"
| "biasedLoop v (Suc i) g deck =
     bindE (nextUint32 v g) (\<lambda>(x, g'). biasedLoop v i g' (js_swap deck (Suc i) (x mod (Suc i + 1))))"

definition shuffleDeckBiasedModulo :: "viem \<Rightarrow> Hex \<Rightarrow> deck_error + int list" where
  "shuffleDeckBiasedModulo v hseed = biasedLoop v (DECK_SIZE - 1) (newCsprng hseed) identityDeck"

fun validLoop :: "int list \<Rightarrow> int list \<Rightarrow> deck_error + unit" where
  "validLoop seen [] = Inr ()"
| "validLoop seen (c # cs) =
     (if c < 0 \<or> int DECK_SIZE \<le> c then Inl (InvalidCardCode c)
      else if c \<in> set seen then Inl (DuplicateCardCode c)
      else validLoop (c # seen) cs)"

definition assertValidDeck :: "int list \<Rightarrow> deck_error + unit" where
  "assertValidDeck deck =
     (if length deck \<noteq> DECK_SIZE then Inl (DeckLength (length deck)) else validLoop [] deck)"

section \<open>Salts\<close>

datatype SaltMode = Production | Fixture

definition CARD_SALT_DOMAIN :: "viem \<Rightarrow> Hex" where
  "CARD_SALT_DOMAIN v = stringToHex v ''MOZETTO_CARD_SALT_V1'' 32"

definition productionCardSalt :: "viem \<Rightarrow> Hex \<Rightarrow> int \<Rightarrow> deck_error + Hex" where
  "productionCardSalt v hseed position =
     (if position < 0 \<or> 255 < position then Inl (InvalidPosition position)
      else liftDeck (keccakEnc v ''bytes32 handSeed, uint8 position, bytes32 tag''
             [AHex hseed, AInt position, AHex (CARD_SALT_DOMAIN v)]))"

definition fixtureCardSalt :: "viem \<Rightarrow> int \<Rightarrow> Hex" where
  "fixtureCardSalt v position = keccak256 v (toBytes v (''card-salt-'' @ int_string position))"

definition cardSaltsForDeck :: "viem \<Rightarrow> SaltMode \<Rightarrow> Hex option \<Rightarrow> nat option \<Rightarrow> deck_error + Hex list" where
  "cardSaltsForDeck v mode hseed cnt =
     (let n = orElse cnt DECK_SIZE
      in if mode = Fixture then Inr (map (\<lambda>i. fixtureCardSalt v (int i)) [0..<n])
         else case hseed of
                Some (c # cs) \<Rightarrow> mapE (\<lambda>i. productionCardSalt v (c # cs) (int i)) [0..<n]
              | _ \<Rightarrow> Inl SaltsNeedSeed)"

section \<open>Committed decks\<close>

record CardOpening =
  co_position :: nat
  co_cardCode :: int
  co_cardSalt :: Hex
  co_cardLeaf :: Hex
  co_proof :: "MerkleProofStep list"

record PreparedHandDeck =
  pd_handId :: Hex
  pd_handSeed :: Hex
  pd_index :: int
  pd_deck :: "int list"
  pd_cardSalts :: "Hex list"
  pd_cardLeaves :: "Hex list"
  pd_deckRoot :: Hex

definition leafHash :: "viem \<Rightarrow> Hex \<Rightarrow> nat \<Rightarrow> int \<Rightarrow> Hex \<Rightarrow> deck_error + Hex" where
  "leafHash v handId position code salt =
     bindE (liftDeck (cardLeaf v handId (int position) code salt)) (\<lambda>h. Inr (hash h))"

definition buildCardLeaves :: "viem \<Rightarrow> Hex \<Rightarrow> int list \<Rightarrow> Hex list \<Rightarrow> deck_error + Hex list" where
  "buildCardLeaves v handId deck salts =
     (if length deck \<noteq> length salts then Inl SaltMismatch
      else mapE (\<lambda>position. leafHash v handId position (deck ! position) (salts ! position)) [0..<length deck])"

definition buildDeckRoot :: "viem \<Rightarrow> Hex list \<Rightarrow> Hex" where
  "buildDeckRoot v cardLeaves = root (merkleRoot v cardLeaves)"

definition proofForPosition :: "viem \<Rightarrow> Hex list \<Rightarrow> nat \<Rightarrow> MerkleProofStep list" where
  "proofForPosition v cardLeaves position = merkleProof v cardLeaves position"

text \<open>The dealer's own verifier: it does not normalise on the way up.\<close>

fun climbRaw :: "viem \<Rightarrow> Hex \<Rightarrow> MerkleProofStep list \<Rightarrow> Hex option" where
  "climbRaw v h [] = Some h"
| "climbRaw v h (step # steps) =
     (case sibling step of
        None \<Rightarrow> None
      | Some s \<Rightarrow> climbRaw v (if isLeft step then hashPair v s h else hashPair v h s) steps)"

definition verifyMerkleProof_deck :: "viem \<Rightarrow> Hex \<Rightarrow> MerkleProofStep list \<Rightarrow> Hex \<Rightarrow> bool option" where
  "verifyMerkleProof_deck v leaf steps expectedRoot =
     map_option (\<lambda>h. js_lower h = js_lower expectedRoot) (climbRaw v leaf steps)"

definition openCard :: "viem \<Rightarrow> Hex \<Rightarrow> int list \<Rightarrow> Hex list \<Rightarrow> Hex \<Rightarrow> int \<Rightarrow> deck_error + CardOpening" where
  "openCard v handId deck salts deckRoot position =
     (if position < 0 \<or> int (length deck) \<le> position then Inl (PositionOutOfRange position)
      else let p = nat position; code = deck ! p; salt = salts ! p
           in bindE (leafHash v handId p code salt) (\<lambda>leaf.
              bindE (buildCardLeaves v handId deck salts) (\<lambda>leaves.
                let steps = proofForPosition v leaves p
                in case verifyMerkleProof_deck v leaf steps deckRoot of
                     None \<Rightarrow> Inl UndefinedSibling
                   | Some False \<Rightarrow> Inl OpeningDoesNotVerify
                   | Some True \<Rightarrow> Inr \<lparr>co_position = p, co_cardCode = code, co_cardSalt = salt, co_cardLeaf = leaf,
                                       co_proof = steps\<rparr>)))"

definition prepareHandDeck ::
  "viem \<Rightarrow> Hex \<Rightarrow> Hex \<Rightarrow> int option \<Rightarrow> int list option \<Rightarrow> SaltMode option \<Rightarrow> PreparedHandDeck run" where
  "prepareHandDeck v handId hseed index deckOpt saltMode =
     bindR (case deckOpt of Some d \<Rightarrow> Some (Inr d) | None \<Rightarrow> shuffleDeckV2 v hseed) (\<lambda>deck.
     bindR (Some (assertValidDeck deck)) (\<lambda>_.
     bindR (Some (cardSaltsForDeck v (orElse saltMode Production) (Some hseed) (Some (length deck)))) (\<lambda>cardSalts.
     bindR (Some (buildCardLeaves v handId deck cardSalts)) (\<lambda>cardLeaves.
       if length cardLeaves \<noteq> DECK_SIZE \<and> deckOpt = None then Some (Inl Expected52)
       else Some (Inr \<lparr>pd_handId = handId, pd_handSeed = hseed, pd_index = orElse index 0, pd_deck = deck,
                        pd_cardSalts = cardSalts, pd_cardLeaves = cardLeaves,
                        pd_deckRoot = buildDeckRoot v cardLeaves\<rparr>)))))"

definition identityFixtureDeck :: "viem \<Rightarrow> Hex \<Rightarrow> deck_error + PreparedHandDeck" where
  "identityFixtureDeck v handId =
     (let cardSalts = map (\<lambda>i. fixtureCardSalt v (int i)) [0..<DECK_SIZE]
      in bindE (buildCardLeaves v handId identityDeck cardSalts) (\<lambda>cardLeaves.
           Inr \<lparr>pd_handId = handId, pd_handSeed = ZERO32, pd_index = 0, pd_deck = identityDeck,
                pd_cardSalts = cardSalts, pd_cardLeaves = cardLeaves, pd_deckRoot = buildDeckRoot v cardLeaves\<rparr>))"

section \<open>Batches\<close>

record PreparedDeckBatch =
  db_sessionId :: Hex
  db_randomnessEpoch :: int
  db_vrfR :: Hex
  db_secrets :: "Hex list"
  db_secretLeaves :: "Hex list"
  db_dealerSecretRoot :: Hex
  db_hands :: "PreparedHandDeck list"
  db_deckRoots :: "Hex list"
  db_deckBatchRoot :: Hex
  db_deckBatchBind :: Hex

definition fixtureDealerSecret :: "viem \<Rightarrow> int \<Rightarrow> Hex" where
  "fixtureDealerSecret v index = keccak256 v (toBytes v (''dealer-secret-'' @ int_string index))"

definition buildSecretLeaves :: "viem \<Rightarrow> Hex \<Rightarrow> int \<Rightarrow> Hex list \<Rightarrow> deck_error + Hex list" where
  "buildSecretLeaves v sessionId randomnessEpoch secrets =
     mapE (\<lambda>index. bindE (liftDeck (secretLeaf v sessionId randomnessEpoch (int index) (secrets ! index))) (\<lambda>h.
       Inr (hash h))) [0..<length secrets]"

definition buildDealerSecretRoot :: "viem \<Rightarrow> Hex list \<Rightarrow> Hex" where
  "buildDealerSecretRoot v secretLeaves = root (merkleRoot v secretLeaves)"

definition handSeedV2 :: "viem \<Rightarrow> Hex \<Rightarrow> Hex \<Rightarrow> Hex \<Rightarrow> int \<Rightarrow> int \<Rightarrow> deck_error + Hex" where
  "handSeedV2 v secret vrfR sessionId epoch index = liftDeck (handSeed v secret vrfR sessionId epoch index)"

definition deckBatchBind :: "viem \<Rightarrow> Hex \<Rightarrow> int \<Rightarrow> Hex \<Rightarrow> deck_error + Hex" where
  "deckBatchBind v sessionId randomnessEpoch deckBatchRoot =
     liftDeck (keccakEnc v ''bytes32 domain, bytes32 sessionId, uint64 epoch, bytes32 deckBatchRoot''
       [AHex (domainTag v (DOMAIN_STRINGS DECK_BATCH_V1)), AHex sessionId, AInt randomnessEpoch, AHex deckBatchRoot])"

definition buildDeckBatchRoot :: "viem \<Rightarrow> Hex list \<Rightarrow> Hex" where
  "buildDeckBatchRoot v deckRoots = root (merkleRoot v deckRoots)"

definition prepareBatchHand ::
  "viem \<Rightarrow> Hex \<Rightarrow> int \<Rightarrow> Hex \<Rightarrow> Hex list \<Rightarrow> int list option \<Rightarrow> SaltMode \<Rightarrow> nat \<Rightarrow> PreparedHandDeck run" where
  "prepareBatchHand v sessionId randomnessEpoch vrfR secrets handNumbers saltMode index =
     bindR (Some (handSeedV2 v (secrets ! index) vrfR sessionId randomnessEpoch (int index))) (\<lambda>seed.
       let handNumber = (case handNumbers of
             None \<Rightarrow> int index | Some ns \<Rightarrow> orElse (js_nth ns index) (int index))
       in bindR (Some (liftDeck (deriveHandId v sessionId randomnessEpoch handNumber))) (\<lambda>h.
            prepareHandDeck v (hash h) seed (Some (int index)) None (Some saltMode)))"

definition prepareDeckBatch ::
  "viem \<Rightarrow> Hex \<Rightarrow> int \<Rightarrow> Hex \<Rightarrow> Hex list \<Rightarrow> int list option \<Rightarrow> SaltMode option \<Rightarrow> PreparedDeckBatch run" where
  "prepareDeckBatch v sessionId randomnessEpoch vrfR secrets handNumbers saltMode =
     bindR (Some (buildSecretLeaves v sessionId randomnessEpoch secrets)) (\<lambda>secretLeaves.
     bindR (mapR (prepareBatchHand v sessionId randomnessEpoch vrfR secrets handNumbers (orElse saltMode Production))
              [0..<length secrets]) (\<lambda>hands.
       let deckRoots = map pd_deckRoot hands; deckBatchRoot = buildDeckBatchRoot v deckRoots
       in bindR (Some (deckBatchBind v sessionId randomnessEpoch deckBatchRoot)) (\<lambda>bound.
            Some (Inr \<lparr>db_sessionId = sessionId, db_randomnessEpoch = randomnessEpoch, db_vrfR = vrfR,
                       db_secrets = secrets, db_secretLeaves = secretLeaves,
                       db_dealerSecretRoot = buildDealerSecretRoot v secretLeaves, db_hands = hands,
                       db_deckRoots = deckRoots, db_deckBatchRoot = deckBatchRoot, db_deckBatchBind = bound\<rparr>))))"

section \<open>The rejection loop returns\<close>

definition blockOf :: "viem \<Rightarrow> Hex \<Rightarrow> nat \<Rightarrow> nat list" where
  "blockOf v seed c =
     map (hexByte (drop 2 (keccak256 v (bytesOf v ''bytes32 handSeed, uint64 counter'' [AHex seed, AInt (int c)])))) [0..<32]"

definition wordAt :: "nat list \<Rightarrow> nat \<Rightarrow> nat" where
  "wordAt b k = beWord (b ! (4 * k)) (b ! (4 * k + 1)) (b ! (4 * k + 2)) (b ! (4 * k + 3))"

text \<open>A block is good when it encodes and one of its eight words lies in the range that no bound up to 52
  rejects; that fails for a random block with probability below \<open>2 powr (-200)\<close>.\<close>

definition goodBlock :: "viem \<Rightarrow> Hex \<Rightarrow> nat \<Rightarrow> bool" where
  "goodBlock v seed c \<longleftrightarrow>
     isOk (encodeAbi v ''bytes32 handSeed, uint64 counter'' [AHex seed, AInt (int c)]) \<and>
     list_ex (\<lambda>k. wordAt (blockOf v seed c) k < 2 ^ 32 - 52) [0..<8]"

text \<open>The generator stands before word \<open>k\<close> of the last block it drew; \<open>c\<close> blocks are drawn.\<close>

definition standsAt :: "viem \<Rightarrow> Hex \<Rightarrow> HandSeedCsprng \<Rightarrow> nat \<Rightarrow> nat \<Rightarrow> bool" where
  "standsAt v seed g c k \<longleftrightarrow> rg_forced g = [] \<and> rg_handSeed g = seed \<and> rg_blockCounter g = int c \<and> k \<le> 8 \<and>
     (if c = 0 then rg_block g = [] \<and> rg_offset g = 0 \<and> k = 8
      else rg_block g = blockOf v seed (c - 1) \<and> rg_offset g = 4 * k)"

lemma length_blockOf [simp]: "length (blockOf v seed c) = 32"
  by (simp add: blockOf_def)

lemma nextUint32_inside:
  assumes "standsAt v seed g c k" "k < 8"
  shows "\<exists>g'. nextUint32 v g = Inr (wordAt (blockOf v seed (c - 1)) k, g') \<and> standsAt v seed g' c (Suc k)"
  using assms by (auto simp: standsAt_def nextUint32_def Let_def wordAt_def split: if_splits)

lemma refill_good:
  assumes "standsAt v seed g c 8" "goodBlock v seed c"
  shows "\<exists>g'. refill v g = Inr g' \<and> standsAt v seed g' (Suc c) 0"
proof -
  obtain b where "encodeAbi v ''bytes32 handSeed, uint64 counter'' [AHex seed, AInt (int c)] = Inr b"
    using assms(2) unfolding goodBlock_def isOk_iff by blast
  then show ?thesis
    using assms(1) by (auto simp: standsAt_def refill_def Let_def blockOf_def bytesOf_def split: if_splits)
qed

lemma nextUint32_refill:
  assumes "standsAt v seed g c 8" "refill v g = Inr g'" "standsAt v seed g' (Suc c) 0"
  shows "nextUint32 v g = nextUint32 v g'"
  using assms by (auto simp: standsAt_def nextUint32_def Let_def split: if_splits)

lemma rejectLoop_accept:
  "nextUint32 v g = Inr (x, g') \<Longrightarrow> x < limit \<Longrightarrow> rejectLoop v g bound limit = Some (Inr (x mod bound, g'))"
  by (subst rejectLoop.simps) simp

lemma rejectLoop_reject:
  "nextUint32 v g = Inr (x, g') \<Longrightarrow> \<not> x < limit \<Longrightarrow> rejectLoop v g bound limit = rejectLoop v g' bound limit"
  by (subst rejectLoop.simps) simp

lemma rejectLoop_in_block:
  assumes "wordAt (blockOf v seed (c - 1)) w < limit" "w < 8"
  shows "k \<le> w \<Longrightarrow> standsAt v seed g c k \<Longrightarrow>
    \<exists>x g' k'. rejectLoop v g bound limit = Some (Inr (x mod bound, g')) \<and> standsAt v seed g' c k'"
proof (induction "w - k" arbitrary: k g)
  case 0
  then have k: "k = w" by simp
  obtain g' where g': "nextUint32 v g = Inr (wordAt (blockOf v seed (c - 1)) k, g')" "standsAt v seed g' c (Suc k)"
    using nextUint32_inside [OF 0(3)] assms(2) k by blast
  show ?case using rejectLoop_accept [OF g'(1)] g'(2) assms(1) k by blast
next
  case (Suc n)
  obtain g' where g': "nextUint32 v g = Inr (wordAt (blockOf v seed (c - 1)) k, g')" "standsAt v seed g' c (Suc k)"
    using nextUint32_inside [OF Suc(4)] Suc(2,3) assms(2) by fastforce
  show ?case
  proof (cases "wordAt (blockOf v seed (c - 1)) k < limit")
    case True
    then show ?thesis using rejectLoop_accept [OF g'(1)] g'(2) by blast
  next
    case False
    then show ?thesis using rejectLoop_reject [OF g'(1) False] Suc(1) [of "Suc k", OF _ _ g'(2)] Suc(2) by simp
  qed
qed

lemma rejectLoop_refilled:
  assumes "standsAt v seed g c 8" "goodBlock v seed c" "2 ^ 32 - 52 \<le> limit"
  shows "\<exists>x g' k'. rejectLoop v g bound limit = Some (Inr (x mod bound, g')) \<and> standsAt v seed g' (Suc c) k'"
proof -
  obtain g1 where g1: "refill v g = Inr g1" "standsAt v seed g1 (Suc c) 0"
    using refill_good [OF assms(1,2)] by blast
  obtain w where w: "w < 8" "wordAt (blockOf v seed c) w < limit"
    using assms(2,3) unfolding goodBlock_def list_ex_iff by fastforce
  have "rejectLoop v g bound limit = rejectLoop v g1 bound limit"
    by (subst (1 2) rejectLoop.simps) (simp add: nextUint32_refill [OF assms(1) g1])
  then show ?thesis using rejectLoop_in_block [of v seed "Suc c" w limit 0 g1] w g1(2) by simp
qed

lemma rejectLoop_returns:
  assumes "goodBlock v seed c" "2 ^ 32 - 52 \<le> limit"
  shows "standsAt v seed g c k \<Longrightarrow>
    \<exists>x g' c' k'. rejectLoop v g bound limit = Some (Inr (x mod bound, g')) \<and> standsAt v seed g' c' k' \<and> c' \<le> Suc c"
proof (induction "8 - k" arbitrary: k g)
  case 0
  then have "k = 8" by (simp add: standsAt_def)
  then show ?case using rejectLoop_refilled [OF _ assms] 0(2) by blast
next
  case (Suc n)
  obtain g' where g': "nextUint32 v g = Inr (wordAt (blockOf v seed (c - 1)) k, g')" "standsAt v seed g' c (Suc k)"
    using nextUint32_inside [OF Suc(3)] Suc(2) by fastforce
  show ?case
  proof (cases "wordAt (blockOf v seed (c - 1)) k < limit")
    case True
    then show ?thesis using rejectLoop_accept [OF g'(1)] g'(2) by (metis le_SucI order_refl)
  next
    case False
    then show ?thesis using rejectLoop_reject [OF g'(1) False] Suc(1) [of "Suc k", OF _ g'(2)] Suc(2) by simp
  qed
qed

lemma limit_large: "2 \<le> b \<Longrightarrow> b \<le> 52 \<Longrightarrow> 2 ^ 32 - 52 \<le> nat (2 ^ 32 div b * b)" for b :: int
proof -
  assume b: "2 \<le> b" "b \<le> 52"
  have "(2 :: int) ^ 32 div b * b = 2 ^ 32 - 2 ^ 32 mod b" using minus_mod_eq_div_mult [of "(2 :: int) ^ 32" b] by simp
  moreover have "(2 :: int) ^ 32 mod b < b" using b(1) by simp
  ultimately have "(2 :: int) ^ 32 - 52 \<le> 2 ^ 32 div b * b" using b(2) by linarith
  then have "nat (2 ^ 32 - 52) \<le> nat (2 ^ 32 div b * b)" by (rule nat_mono)
  then show ?thesis by simp
qed

lemma uniformBelow_returns:
  assumes "goodBlock v seed c" "standsAt v seed g c k" "2 \<le> b" "b \<le> 52"
  shows "\<exists>j g' c' k'. uniformBelow v g b = Some (Inr (j, g')) \<and> standsAt v seed g' c' k' \<and> c' \<le> Suc c"
  using rejectLoop_returns [OF assms(1) limit_large [OF assms(3,4)] assms(2), of "nat b"] assms(3,4)
  by (fastforce simp: uniformBelow_def)

lemma shuffleLoop_returns:
  "i \<le> 51 \<Longrightarrow> standsAt v seed g c k \<Longrightarrow> c + i \<le> n \<Longrightarrow> (\<And>m. m < n \<Longrightarrow> goodBlock v seed m) \<Longrightarrow>
     \<exists>d. shuffleLoop v i g deck = Some (Inr d)"
proof (induction i arbitrary: g c k deck)
  case (Suc i)
  obtain j g' c' k' where u: "uniformBelow v g (int (Suc i) + 1) = Some (Inr (j, g'))" "standsAt v seed g' c' k'" "c' \<le> Suc c"
    using uniformBelow_returns [OF Suc.prems(4) Suc.prems(2), of "int (Suc i) + 1"] Suc.prems(1,3) by auto
  then show ?case using Suc.IH [OF _ u(2)] Suc.prems by simp
qed simp

section \<open>The shuffle permutes\<close>

lemma rejectLoop_below:
  assumes "rejectLoop v g bound limit = Some r"
  shows "0 < bound \<Longrightarrow> r = Inr (j, g') \<Longrightarrow> j < bound"
proof (rule rejectLoop.raw_induct [OF _ assms, of "\<lambda>v g bound limit r. 0 < bound \<longrightarrow> (\<forall>j g'. r = Inr (j, g') \<longrightarrow> j < bound)",
      THEN mp, THEN spec, THEN spec, THEN mp])
  fix loop v g bound limit r
  assume "\<And>v g bound limit r. loop v g bound limit = Some r \<Longrightarrow> 0 < bound \<longrightarrow> (\<forall>j g'. r = Inr (j, g') \<longrightarrow> j < bound)"
    and "(case nextUint32 v g of Inl e \<Rightarrow> Some (Inl e)
      | Inr (x, g') \<Rightarrow> if x < limit then Some (Inr (x mod bound, g')) else loop v g' bound limit) = Some r"
  then show "0 < bound \<longrightarrow> (\<forall>j g'. r = Inr (j, g') \<longrightarrow> j < bound)"
    by (fastforce split: sum.splits prod.splits if_splits)
qed

text \<open>The sampler as a source of indices for the Fisher--Yates loop of the prelude.\<close>

definition drawBelow :: "viem \<Rightarrow> HandSeedCsprng \<Rightarrow> nat \<Rightarrow> (nat \<times> HandSeedCsprng) option" where
  "drawBelow v g b = (case uniformBelow v g (int b) of Some (Inr p) \<Rightarrow> Some p | _ \<Rightarrow> None)"

interpretation csprng: index_source "drawBelow v" for v
proof unfold_locales
  fix g b j g'
  assume "drawBelow v g b = Some (j, g')" and b: "1 < b"
  then have "uniformBelow v g (int b) = Some (Inr (j, g'))"
    by (auto simp: drawBelow_def split: option.splits sum.splits)
  then have "rejectLoop v g b (nat (2 ^ 32 div int b * int b)) = Some (Inr (j, g'))"
    using b by (simp add: uniformBelow_def split: if_splits)
  then show "j < b" using rejectLoop_below b by fastforce
qed

lemma shuffleLoop_fy:
  "shuffleLoop v i g deck = Some (Inr d) \<Longrightarrow> \<exists>g'. fy_loop (drawBelow v) i g deck = Some (d, g')"
proof (induction v i g deck rule: shuffleLoop.induct)
  case (2 v i g deck)
  then obtain j g' where u: "uniformBelow v g (int (Suc i) + 1) = Some (Inr (j, g'))"
    and r: "shuffleLoop v i g' (js_swap deck (Suc i) j) = Some (Inr d)" by auto
  have "drawBelow v g (Suc (Suc i)) = Some (j, g')"
    using u by (simp add: drawBelow_def add.commute)
  then show ?case using 2(1) [OF r] by simp
qed simp

lemma shuffleDeckV2_mset:
  assumes "shuffleDeckV2 v seed = Some (Inr d)"
  shows "mset d = mset identityDeck"
proof -
  obtain g' where "fy_loop (drawBelow v) (DECK_SIZE - 1) (newCsprng seed) identityDeck = Some (d, g')"
    using shuffleLoop_fy assms unfolding shuffleDeckV2_def by blast
  then show ?thesis
    by (rule csprng.fy_loop_mset) (simp add: identityDeck_def DECK_SIZE_def)
qed

lemma validLoop_iff:
  "validLoop seen cs = Inr () \<longleftrightarrow> (\<forall>c \<in> set cs. 0 \<le> c \<and> c < 52) \<and> distinct cs \<and> set cs \<inter> set seen = {}"
  by (induction seen cs rule: validLoop.induct) (auto simp: DECK_SIZE_def)

lemma assertValidDeck_perm:
  assumes "mset d = mset (map int [0..<52])"
  shows "assertValidDeck d = Inr ()"
proof -
  have "length d = 52" using assms by (metis length_map length_upt minus_nat.diff_0 size_mset)
  moreover have "distinct d" using assms by (metis distinct_map distinct_upt inj_on_of_nat mset_eq_imp_distinct_iff)
  moreover have "set d = set (map int [0..<52])" using assms by (rule mset_eq_setD)
  ultimately show ?thesis by (auto simp: assertValidDeck_def DECK_SIZE_def validLoop_iff)
qed

lemma standsAt_new: "standsAt v seed (newCsprng seed) 0 8"
  by (simp add: standsAt_def newCsprng_def)

text \<open>C18: The Randomness V2 shuffle returns and is a permutation. If each of the first 51 blocks of the seed's
  stream has one word that rejection sampling never refuses, the shuffle terminates; and whenever it returns a
  deck, that deck is a permutation of the 52 card codes, which \<open>assertValidDeck\<close> accepts.\<close>

theorem shuffleV2_total_permutation:
  "((\<forall>c < 51. goodBlock v seed c) \<longrightarrow> (\<exists>d. shuffleDeckV2 v seed = Some (Inr d))) \<and>
   (\<forall>d. shuffleDeckV2 v seed = Some (Inr d) \<longrightarrow>
      mset d = mset (map int [0..<52]) \<and> assertValidDeck d = Inr ())"
proof (intro conjI impI allI)
  show "\<exists>d. shuffleDeckV2 v seed = Some (Inr d)" if "\<forall>c < 51. goodBlock v seed c"
    unfolding shuffleDeckV2_def DECK_SIZE_def
    using shuffleLoop_returns [OF _ standsAt_new, of 51 51] that by simp
  fix d assume "shuffleDeckV2 v seed = Some (Inr d)"
  then show m: "mset d = mset (map int [0..<52])"
    using shuffleDeckV2_mset by (simp add: identityDeck_def DECK_SIZE_def)
  show "assertValidDeck d = Inr ()" by (rule assertValidDeck_perm [OF m])
qed

definition demo_seed :: Hex where
  "demo_seed = ZERO32"

lemma demo_seed_length: "length demo_seed = 66"
  by (simp add: demo_seed_def ZERO32_def)

lemma demo_goodBlock:
  assumes "length seed = 66"
  shows "goodBlock demo_viem seed c"
proof -
  have "\<exists>s. bytesOf demo_viem ''bytes32 handSeed, uint64 counter'' [AHex seed, AInt (int c)] =
      CHR ''h'' # replicate 66 (CHR ''1'') @ s"
    using assms by (simp add: bytesOf_def demo_viem_def self_delim_def)
  then obtain s where s: "bytesOf demo_viem ''bytes32 handSeed, uint64 counter'' [AHex seed, AInt (int c)] =
      CHR ''h'' # replicate 66 (CHR ''1'') @ s" by blast
  have r: "replicate 66 (CHR ''1'') = ''1111111'' @ replicate 59 (CHR ''1'')" by code_simp
  have c: "hex_of (lower_char (CHR ''h'')) = CHR ''8''" "hex_of (lower_char (CHR ''1'')) = CHR ''1''" by code_simp+
  have t8: "take 8 (drop 2 (demo_keccak (CHR ''h'' # replicate 66 (CHR ''1'') @ s))) = ''81111111''"
    unfolding r by (simp add: demo_keccak_def js_lower_def c)
  have tk: "take 2 (drop (2 * i) x) = take 2 (drop (2 * i) (take 8 x))" if "i < 4" for i and x :: string
    using that by (simp add: drop_take min_def)
  have "hexByte (drop 2 (demo_keccak (CHR ''h'' # replicate 66 (CHR ''1'') @ s))) i = hexByte ''81111111'' i"
    if "i < 4" for i
    unfolding hexByte_def by (subst tk [OF that]) (simp only: t8)
  then have "wordAt (blockOf demo_viem seed c) 0 =
      beWord (hexByte ''81111111'' 0) (hexByte ''81111111'' 1) (hexByte ''81111111'' 2) (hexByte ''81111111'' 3)"
    using s by (simp add: wordAt_def blockOf_def demo_viem_def numeral_2_eq_2)
  moreover have "hexByte ''81111111'' 0 = 129" "hexByte ''81111111'' 1 = 17" "hexByte ''81111111'' 2 = 17"
    "hexByte ''81111111'' 3 = 17" by code_simp+
  moreover have "beWord 129 17 17 17 = 2165379345" by (simp add: beWord_def)
  ultimately have "wordAt (blockOf demo_viem seed c) 0 < 2 ^ 32 - 52" by simp
  then have "list_ex (\<lambda>k. wordAt (blockOf demo_viem seed c) k < 2 ^ 32 - 52) [0..<8]"
    unfolding list_ex_iff by (intro bexI [of _ 0]) auto
  then show ?thesis by (simp add: goodBlock_def demo_viem_def)
qed

lemma demo_shuffle:
  assumes "length seed = 66"
  shows "\<exists>d. shuffleDeckV2 demo_viem seed = Some (Inr d) \<and> assertValidDeck d = Inr ()"
proof -
  obtain d where d: "shuffleDeckV2 demo_viem seed = Some (Inr d)"
    using shuffleLoop_returns [OF _ standsAt_new, of 51 51 demo_viem seed identityDeck] demo_goodBlock [OF assms]
    by (auto simp: shuffleDeckV2_def DECK_SIZE_def)
  then show ?thesis
    using assertValidDeck_perm shuffleDeckV2_mset by (simp add: identityDeck_def DECK_SIZE_def)
qed

theorem shuffleV2_total_permutation_witness:
  "\<exists>d. shuffleDeckV2 demo_viem demo_seed = Some (Inr d) \<and> assertValidDeck d = Inr ()"
  using shuffleV2_total_permutation [of demo_viem demo_seed] demo_goodBlock [OF demo_seed_length] by blast

section \<open>Openings\<close>

lemma climb_climbRaw:
  assumes "hash_lib v"
  shows "is_hex32 h \<Longrightarrow> list_all hex_step p \<Longrightarrow> climb v (js_lower h) p = map_option js_lower (climbRaw v h p)"
proof (induction p arbitrary: h)
  case (Cons s p)
  then obtain x where x: "sibling s = Some x" "is_hex32 x" by (auto simp: hex_step_def split: option.splits)
  show ?case
    using Cons.IH [of "hashPair v x h"] Cons.IH [of "hashPair v h x"] Cons.prems x
      hash_lib_pair_lower [OF assms x(2) Cons.prems(1)] hash_lib_pair_lower [OF assms Cons.prems(1) x(2)] assms
    by (simp add: Let_def)
qed simp

lemma verifyMerkleProof_deck_eq:
  "hash_lib v \<Longrightarrow> is_hex32 leaf \<Longrightarrow> list_all hex_step p \<Longrightarrow>
     verifyMerkleProof_deck v leaf p r = verifyMerkleProof v leaf p r"
  by (simp add: verifyMerkleProof_deck_def verifyMerkleProof_def climb_climbRaw option.map_comp comp_def)

lemma leafHash_InrD:
  assumes "leafHash v hid i code salt = Inr h"
  obtains k where "cardLeaf v hid (int i) code salt = Inr k" "h = hash k"
  using assms by (auto simp: leafHash_def)

lemma leafHash_hex: "hash_lib v \<Longrightarrow> leafHash v hid i code salt = Inr h \<Longrightarrow> is_hex32 h \<and> js_lower h = h"
  by (auto elim!: leafHash_InrD simp: cardLeaf_def dest: hashEnc_hash)

lemma buildCardLeaves_InrD:
  assumes "buildCardLeaves v hid deck salts = Inr ls"
  shows "length salts = length deck" "length ls = length deck"
    "i < length deck \<Longrightarrow> leafHash v hid i (deck ! i) (salts ! i) = Inr (ls ! i)"
  using assms mapE_Inr_length mapE_Inr_nth [of _ "[0..<length deck]" ls i]
  by (auto simp: buildCardLeaves_def split: if_splits dest: mapE_Inr_length)

lemma prepareHandDeck_okD:
  assumes "prepareHandDeck v hid seed idx deckOpt mode = Some (Inr p)"
  shows "assertValidDeck (pd_deck p) = Inr ()" "pd_handId p = hid"
    "buildCardLeaves v hid (pd_deck p) (pd_cardSalts p) = Inr (pd_cardLeaves p)"
    "pd_deckRoot p = root (merkleRoot v (pd_cardLeaves p))"
  using assms by (auto simp: prepareHandDeck_def buildDeckRoot_def split: if_splits)

lemma cardLeaf_binding:
  assumes "cardLeaf v hid i code salt = Inr h" "cardLeaf v hid' i' code' salt' = Inr k" "hash h = hash k" "abi_injective v"
  shows "i = i' \<and> code = code' \<and> js_lower salt = js_lower salt' \<and> js_lower hid = js_lower hid' \<or>
    collides v (canonicalBytesHex h) (canonicalBytesHex k)"
  using hashEnc_binding [OF assms(1,2) [unfolded cardLeaf_def] assms(3,4)] by auto

definition card_bytes :: "viem \<Rightarrow> Hex \<Rightarrow> nat \<Rightarrow> int \<Rightarrow> Hex \<Rightarrow> Hex" where
  "card_bytes v hid i code salt =
     (case cardLeaf v hid (int i) code salt of Inl _ \<Rightarrow> [] | Inr h \<Rightarrow> canonicalBytesHex h)"

text \<open>The facts about one position of a prepared deck.\<close>

lemma prepared_position:
  assumes "hash_lib v" "prepareHandDeck v hid seed idx deckOpt mode = Some (Inr p)" "i < 52"
  obtains k where "cardLeaf v hid (int i) (pd_deck p ! i) (pd_cardSalts p ! i) = Inr k"
    "pd_cardLeaves p ! i = hash k" "i < length (pd_deck p)" "i < length (pd_cardLeaves p)"
    "is_hex32 (hash k)" "js_lower (hash k) = hash k" "list_all is_hex32 (pd_cardLeaves p)"
proof -
  note d = prepareHandDeck_okD [OF assms(2)]
  have len: "length (pd_deck p) = 52" using d(1) by (auto simp: assertValidDeck_def DECK_SIZE_def split: if_splits)
  note l = buildCardLeaves_InrD [OF d(3)]
  have lf: "leafHash v hid j (pd_deck p ! j) (pd_cardSalts p ! j) = Inr (pd_cardLeaves p ! j)" if "j < 52" for j
    using l(3) len that by simp
  obtain k where k: "cardLeaf v hid (int i) (pd_deck p ! i) (pd_cardSalts p ! i) = Inr k" "pd_cardLeaves p ! i = hash k"
    using leafHash_InrD [OF lf [OF assms(3)]] by blast
  have "list_all is_hex32 (pd_cardLeaves p)"
    unfolding list_all_length using leafHash_hex [OF assms(1) lf] l(2) len by auto
  then show thesis
    using that [OF k] l(2) len assms(3) leafHash_hex [OF assms(1) lf [OF assms(3)]] k(2) by simp
qed

lemma openCard_prepared:
  assumes "hash_lib v" "prepareHandDeck v hid seed idx deckOpt mode = Some (Inr p)" "i < 52"
  shows "openCard v hid (pd_deck p) (pd_cardSalts p) (pd_deckRoot p) (int i) =
      Inr \<lparr>co_position = i, co_cardCode = pd_deck p ! i, co_cardSalt = pd_cardSalts p ! i,
           co_cardLeaf = pd_cardLeaves p ! i, co_proof = proofForIndex v (pd_cardLeaves p) i\<rparr>"
    "verifyMerkleProof_deck v (pd_cardLeaves p ! i) (proofForIndex v (pd_cardLeaves p) i) (pd_deckRoot p) = Some True"
proof -
  note d = prepareHandDeck_okD [OF assms(2)]
  obtain k where k: "cardLeaf v hid (int i) (pd_deck p ! i) (pd_cardSalts p ! i) = Inr k"
    "pd_cardLeaves p ! i = hash k" "i < length (pd_deck p)" "i < length (pd_cardLeaves p)"
    "is_hex32 (hash k)" "list_all is_hex32 (pd_cardLeaves p)"
    by (rule prepared_position [OF assms], rule that; assumption)
  show ver: "verifyMerkleProof_deck v (pd_cardLeaves p ! i) (proofForIndex v (pd_cardLeaves p) i) (pd_deckRoot p) = Some True"
    using merkle_proof_complete [OF assms(1) k(6,4)] verifyMerkleProof_deck_eq [OF assms(1) k(5) hex_step_proof [OF assms(1) k(6,4)]]
      d(4) k(2) by simp
  show "openCard v hid (pd_deck p) (pd_cardSalts p) (pd_deckRoot p) (int i) =
      Inr \<lparr>co_position = i, co_cardCode = pd_deck p ! i, co_cardSalt = pd_cardSalts p ! i,
           co_cardLeaf = pd_cardLeaves p ! i, co_proof = proofForIndex v (pd_cardLeaves p) i\<rparr>"
    using k(1-3) d(3) ver
    by (simp add: openCard_def Let_def leafHash_def proofForPosition_def proofForIndex_def)
qed

lemma demo_prepare:
  assumes "length seed = 66"
  shows "\<exists>p. prepareHandDeck demo_viem hid seed idx None (Some Production) = Some (Inr p)"
proof -
  obtain d where d: "shuffleDeckV2 demo_viem seed = Some (Inr d)" "assertValidDeck d = Inr ()"
    using demo_shuffle [OF assms] by blast
  have salt: "mapE (\<lambda>i. productionCardSalt demo_viem s (int i)) [0..<length d] =
      Inr (map (\<lambda>i. demo_keccak (bytesOf demo_viem ''bytes32 handSeed, uint8 position, bytes32 tag''
        [AHex s, AInt (int i), AHex (CARD_SALT_DOMAIN demo_viem)])) [0..<length d])" for s
    using d(2) by (intro mapE_total) (auto simp: productionCardSalt_def keccakEnc_def enc_def bytesOf_def demo_viem_def
      assertValidDeck_def DECK_SIZE_def split: if_splits)
  obtain c cs where cs: "seed = c # cs" using assms by (cases seed) auto
  have "cardSaltsForDeck demo_viem Production (Some seed) (Some n) =
      mapE (\<lambda>i. productionCardSalt demo_viem seed (int i)) [0..<n]" for n
    unfolding cs by (simp add: cardSaltsForDeck_def)
  then obtain salts where salts: "cardSaltsForDeck demo_viem Production (Some seed) (Some (length d)) = Inr salts"
    "length salts = length d"
    using salt [of seed] by simp
  have "isOk (leafHash demo_viem hid i code s)" for i code s
    by (simp add: leafHash_def cardLeaf_def hashEnc_def demo_viem_def)
  then have "\<exists>ls. mapE (\<lambda>i. leafHash demo_viem hid i (d ! i) (salts ! i)) xs = Inr ls" for xs
    by (induction xs) (auto simp: isOk_iff bindE_Inr_iff)
  then obtain ls where ls: "buildCardLeaves demo_viem hid d salts = Inr ls"
    using salts(2) by (auto simp: buildCardLeaves_def)
  have "length ls = DECK_SIZE" using buildCardLeaves_InrD(2) [OF ls] d(2) by (auto simp: assertValidDeck_def split: if_splits)
  then show ?thesis using d salts(1) ls by (simp add: prepareHandDeck_def)
qed

text \<open>C19: A committed deck cannot be changed after the fact. Every prepared deck is a permutation of the 52 codes
  and every position of it can be opened: \<open>openCard\<close> returns the card at that position with a proof that
  verifies against the deck root. Whoever opens that position of the root with any card must show the same
  card and salt for the same position and hand, or holds an explicit keccak collision on the path or between
  the two leaf encodings. Positions outside the deck are refused.\<close>

theorem committed_deck_binding:
  assumes "hash_lib v" "abi_injective v" "prepareHandDeck v hid seed idx deckOpt mode = Some (Inr p)" "i < 52"
  shows "distinct (pd_deck p) \<and> set (pd_deck p) = {0..<52} \<and>
    (\<forall>j. 52 \<le> j \<longrightarrow> openCard v hid (pd_deck p) (pd_cardSalts p) (pd_deckRoot p) j = Inl (PositionOutOfRange j)) \<and>
    (\<exists>c. openCard v hid (pd_deck p) (pd_cardSalts p) (pd_deckRoot p) (int i) = Inr c \<and>
       co_cardCode c = pd_deck p ! i \<and> verifyMerkleProof_deck v (co_cardLeaf c) (co_proof c) (pd_deckRoot p) = Some True \<and>
       (\<forall>hid' i' code salt h q. cardLeaf v hid' i' code salt = Inr h \<longrightarrow> list_all hex_step q \<longrightarrow>
          map isLeft q = map isLeft (co_proof c) \<longrightarrow> verifyMerkleProof_deck v (hash h) q (pd_deckRoot p) = Some True \<longrightarrow>
          i' = int i \<and> code = pd_deck p ! i \<and> js_lower salt = js_lower (pd_cardSalts p ! i) \<and> js_lower hid' = js_lower hid \<or>
          collides v (canonicalBytesHex h) (card_bytes v hid i (pd_deck p ! i) (pd_cardSalts p ! i)) \<or>
          path_collision v (climb_inputs v (hash h) q) (climb_inputs v (co_cardLeaf c) (co_proof c))))"
proof (intro conjI allI impI)
  note d = prepareHandDeck_okD [OF assms(3)]
  show "distinct (pd_deck p)" using d(1) by (auto simp: assertValidDeck_def validLoop_iff split: if_splits)
  have sub: "set (pd_deck p) \<subseteq> {0..<52}" and len: "length (pd_deck p) = 52"
    using d(1) by (auto simp: assertValidDeck_def validLoop_iff DECK_SIZE_def split: if_splits)
  show "set (pd_deck p) = {0..<52}"
    using sub len distinct_card [OF \<open>distinct (pd_deck p)\<close>] by (intro card_subset_eq) auto
  show "openCard v hid (pd_deck p) (pd_cardSalts p) (pd_deckRoot p) j = Inl (PositionOutOfRange j)" if "52 \<le> j" for j
    using that len by (simp add: openCard_def)
  obtain k where k: "cardLeaf v hid (int i) (pd_deck p ! i) (pd_cardSalts p ! i) = Inr k"
    "pd_cardLeaves p ! i = hash k" "i < length (pd_cardLeaves p)" "is_hex32 (hash k)" "js_lower (hash k) = hash k"
    "list_all is_hex32 (pd_cardLeaves p)"
    by (rule prepared_position [OF assms(1,3,4)], rule that; assumption)
  let ?p = "proofForIndex v (pd_cardLeaves p) i"
  have bind: "i' = int i \<and> code = pd_deck p ! i \<and> js_lower salt = js_lower (pd_cardSalts p ! i) \<and> js_lower hid' = js_lower hid \<or>
      collides v (canonicalBytesHex h) (card_bytes v hid i (pd_deck p ! i) (pd_cardSalts p ! i)) \<or>
      path_collision v (climb_inputs v (hash h) q) (climb_inputs v (hash k) ?p)"
    if y: "cardLeaf v hid' i' code salt = Inr h" "list_all hex_step q" "map isLeft q = map isLeft ?p"
      "verifyMerkleProof_deck v (hash h) q (pd_deckRoot p) = Some True" for hid' i' code salt h q
  proof -
    have hh: "is_hex32 (hash h)" "js_lower (hash h) = hash h"
      using y(1) hashEnc_hash [OF assms(1)] unfolding cardLeaf_def by blast+
    have "hash h = hash k \<or> path_collision v (climb_inputs v (hash h) q) (climb_inputs v (hash k) ?p)"
      using merkle_binding [OF assms(1) k(6,3) hh(1) y(2,3)] y(4) verifyMerkleProof_deck_eq [OF assms(1) hh(1) y(2)]
        d(4) hh(2) k(2,5) by simp
    then show ?thesis using cardLeaf_binding [OF y(1) k(1) _ assms(2)] k(1) by (auto simp: card_bytes_def)
  qed
  show "\<exists>c. openCard v hid (pd_deck p) (pd_cardSalts p) (pd_deckRoot p) (int i) = Inr c \<and>
       co_cardCode c = pd_deck p ! i \<and> verifyMerkleProof_deck v (co_cardLeaf c) (co_proof c) (pd_deckRoot p) = Some True \<and>
       (\<forall>hid' i' code salt h q. cardLeaf v hid' i' code salt = Inr h \<longrightarrow> list_all hex_step q \<longrightarrow>
          map isLeft q = map isLeft (co_proof c) \<longrightarrow> verifyMerkleProof_deck v (hash h) q (pd_deckRoot p) = Some True \<longrightarrow>
          i' = int i \<and> code = pd_deck p ! i \<and> js_lower salt = js_lower (pd_cardSalts p ! i) \<and> js_lower hid' = js_lower hid \<or>
          collides v (canonicalBytesHex h) (card_bytes v hid i (pd_deck p ! i) (pd_cardSalts p ! i)) \<or>
          path_collision v (climb_inputs v (hash h) q) (climb_inputs v (co_cardLeaf c) (co_proof c)))"
    unfolding openCard_prepared(1) [OF assms(1,3,4)] using bind openCard_prepared(2) [OF assms(1,3,4)] k(2)
    by simp
qed

theorem committed_deck_binding_witness:
  "\<exists>p c. prepareHandDeck demo_viem ZERO32 demo_seed None None (Some Production) = Some (Inr p) \<and>
     openCard demo_viem ZERO32 (pd_deck p) (pd_cardSalts p) (pd_deckRoot p) 51 = Inr c \<and> co_cardCode c = pd_deck p ! 51"
proof -
  obtain p where p: "prepareHandDeck demo_viem ZERO32 demo_seed None None (Some Production) = Some (Inr p)"
    using demo_prepare [OF demo_seed_length] by blast
  show ?thesis
    using committed_deck_binding [OF demo_viem_hash_lib demo_viem_injective p, of 51] p by auto
qed

end
