(* ===== verification/Watchtower.thy ===== *)
theory Watchtower
  imports Proof_Batch Dealer_Deck
begin

text \<open>
  \<^verbatim>\<open>packages/watchtower/src\<close> and \<^verbatim>\<open>packages/randomness-verifier/src/openings.ts\<close>: an independent verifier of
  public data. It rebuilds the roots a package claims, walks the chain of batches, compares with the registry, checks
  conservation and card openings, and condenses the checks into a status. A check is its identifier and outcome; the
  explanatory texts are not modelled. The golden suite reads vector files, so its report is a parameter.
\<close>

section \<open>Values of a package\<close>

datatype bigintish = VBig int | VNumber js_number | VString string

datatype watch_error =
    ExpectedHex string | NotBigInt | WatchRoot root_error | WatchEnc enc_error | WatchSibling

fun liftWatch :: "root_error + 'a \<Rightarrow> watch_error + 'a" where
  "liftWatch (Inl e) = Inl (WatchRoot e)"
| "liftWatch (Inr x) = Inr x"

fun liftWatchEnc :: "enc_error + 'a \<Rightarrow> watch_error + 'a" where
  "liftWatchEnc (Inl e) = Inl (WatchEnc e)"
| "liftWatchEnc (Inr x) = Inr x"

fun someE :: "'a option \<Rightarrow> watch_error + 'a" where
  "someE None = Inl WatchSibling"
| "someE (Some x) = Inr x"

lemma liftWatch_Inr_iff [simp]: "liftWatch m = Inr x \<longleftrightarrow> m = Inr x"
  by (cases m) auto

lemma liftWatchEnc_Inr_iff [simp]: "liftWatchEnc m = Inr x \<longleftrightarrow> m = Inr x"
  by (cases m) auto

lemma someE_Inr_iff [simp]: "someE m = Inr x \<longleftrightarrow> m = Some x"
  by (cases m) auto

text \<open>\<open>BigInt(s)\<close> on a string: white space around it is ignored, nothing is zero, a prefix selects the radix and a sign
  may precede a decimal number.\<close>

definition js_white :: "char \<Rightarrow> bool" where
  "js_white c \<longleftrightarrow> of_char c \<in> set [9 :: nat, 10, 11, 12, 13, 32, 160]"

text \<open>\<open>s.trim()\<close>.\<close>

definition js_trim :: "string \<Rightarrow> string" where
  "js_trim s = rev (dropWhile js_white (rev (dropWhile js_white s)))"

definition digitOf :: "char \<Rightarrow> nat option" where
  "digitOf c =
     (let n = of_char c :: nat
      in if 48 \<le> n \<and> n \<le> 57 then Some (n - 48)
         else if 97 \<le> n \<and> n \<le> 122 then Some (n - 87)
         else if 65 \<le> n \<and> n \<le> 90 then Some (n - 55) else None)"

fun radixLoop :: "nat \<Rightarrow> nat \<Rightarrow> string \<Rightarrow> nat option" where
  "radixLoop b acc [] = Some acc"
| "radixLoop b acc (c # cs) =
     (case digitOf c of
        None \<Rightarrow> None
      | Some d \<Rightarrow> if d < b then radixLoop b (acc * b + d) cs else None)"

definition radixValue :: "nat \<Rightarrow> string \<Rightarrow> int option" where
  "radixValue b s = (if s = [] then None else map_option int (radixLoop b 0 s))"

definition parseBigInt :: "string \<Rightarrow> int option" where
  "parseBigInt s0 =
     (let s = js_trim s0
      in if s = [] then Some 0
         else if take 2 s = ''0x'' \<or> take 2 s = ''0X'' then radixValue 16 (drop 2 s)
         else if take 2 s = ''0o'' \<or> take 2 s = ''0O'' then radixValue 8 (drop 2 s)
         else if take 2 s = ''0b'' \<or> take 2 s = ''0B'' then radixValue 2 (drop 2 s)
         else if hd s = CHR ''-'' then map_option uminus (radixValue 10 (tl s))
         else if hd s = CHR ''+'' then radixValue 10 (tl s)
         else radixValue 10 s)"

fun asBigInt :: "bigintish \<Rightarrow> watch_error + int" where
  "asBigInt (VBig i) = Inr i"
| "asBigInt (VNumber (Finite q)) = (if js_isInteger q then Inr \<lfloor>q\<rfloor> else Inl NotBigInt)"
| "asBigInt (VNumber NonFinite) = Inl NotBigInt"
| "asBigInt (VString s) = (case parseBigInt s of None \<Rightarrow> Inl NotBigInt | Some i \<Rightarrow> Inr i)"

definition asHex :: "string \<Rightarrow> watch_error + Hex" where
  "asHex s = (if take 2 s = ''0x'' then Inr (js_lower s) else Inl (ExpectedHex s))"

definition eqHex :: "Hex \<Rightarrow> Hex \<Rightarrow> bool" where
  "eqHex a b \<longleftrightarrow> js_lower a = js_lower b"

record CheckResult =
  ck_id :: string
  ck_ok :: bool
  ck_skipped :: bool

definition verdict :: "string \<Rightarrow> bool \<Rightarrow> CheckResult" where
  "verdict i b = \<lparr>ck_id = i, ck_ok = b, ck_skipped = False\<rparr>"

definition skip :: "string \<Rightarrow> CheckResult" where
  "skip i = \<lparr>ck_id = i, ck_ok = True, ck_skipped = True\<rparr>"

record PublicProofBatch =
  wb_sequence :: int
  wb_previousBatchRoot :: Hex
  wb_globalRoot :: Hex
  wb_dataManifestHash :: Hex
  wb_createdAt :: int
  wb_proofBatchHash :: "Hex option"

record PublicCheckpointLeaf =
  pc_sessionId :: Hex
  pc_checkpointId :: bigintish
  pc_checkpointRoot :: Hex

record PublicInclusionClaim =
  ic_checkpointRoot :: Hex
  ic_proof :: "MerkleProofStep list"
  ic_globalRoot :: Hex

record PublicBalanceLeaf =
  pbl_sessionId :: Hex
  pbl_epoch :: bigintish
  pbl_arenaAccount :: Hex
  pbl_seat :: int
  pbl_openingBalance :: bigintish
  pbl_currentBalance :: bigintish
  pbl_cumulativeRake :: bigintish
  pbl_lastSequence :: bigintish

record BatchClaim =
  bc_sequence :: bigintish
  bc_previousBatchRoot :: Hex
  bc_globalRoot :: Hex
  bc_dataManifestHash :: Hex
  bc_createdAt :: bigintish
  bc_proofBatchHash :: "Hex option"
  bc_checkpointRoots :: "Hex list option"
  bc_checkpoints :: "PublicCheckpointLeaf list option"
  bc_inclusionProofs :: "PublicInclusionClaim list option"

section \<open>Proof batches\<close>

definition some_entries :: "'a list option \<Rightarrow> 'a list" where
  "some_entries xs = orElse xs []"

definition toCheckpointLeaf :: "PublicCheckpointLeaf \<Rightarrow> watch_error + CheckpointLeaf" where
  "toCheckpointLeaf c =
     bindE (asHex (pc_sessionId c)) (\<lambda>s. bindE (asBigInt (pc_checkpointId c)) (\<lambda>i. bindE (asHex (pc_checkpointRoot c)) (\<lambda>r.
       Inr \<lparr>cp_sessionId = s, cp_checkpointId = i, cp_checkpointRoot = r\<rparr>)))"

definition checkpointRootsFromPackage :: "BatchClaim \<Rightarrow> watch_error + Hex list option" where
  "checkpointRootsFromPackage batch =
     (if some_entries (bc_checkpointRoots batch) \<noteq> [] then
        bindE (mapE asHex (some_entries (bc_checkpointRoots batch))) (\<lambda>rs. Inr (Some rs))
      else if some_entries (bc_checkpoints batch) \<noteq> [] then
        bindE (mapE toCheckpointLeaf (some_entries (bc_checkpoints batch))) (\<lambda>leaves.
          Inr (Some (map cp_checkpointRoot (sortCheckpointLeaves leaves))))
      else Inr None)"

definition verifyInclusionClaim :: "viem \<Rightarrow> PublicInclusionClaim \<Rightarrow> watch_error + bool" where
  "verifyInclusionClaim v claim =
     bindE (asHex (ic_checkpointRoot claim)) (\<lambda>r. bindE (asHex (ic_globalRoot claim)) (\<lambda>g.
       someE (verifyCheckpointInclusion v r (ic_proof claim) g)))"

definition numbered :: "string \<Rightarrow> nat \<Rightarrow> string" where
  "numbered name i = name @ ''['' @ nat_string i @ '']''"

definition inclusionChecks :: "viem \<Rightarrow> BatchClaim \<Rightarrow> Hex \<Rightarrow> string \<Rightarrow> watch_error + CheckResult list" where
  "inclusionChecks v batch claimedGlobal prefix =
     (let claims = some_entries (bc_inclusionProofs batch)
      in if claims \<noteq> [] then
           mapE (\<lambda>i. bindE (verifyInclusionClaim v (claims ! i)) (\<lambda>ok. Inr (verdict (numbered (prefix @ ''.inclusion'') i) ok)))
             [0..<length claims]
         else if some_entries (bc_checkpoints batch) \<noteq> [] then
           bindE (mapE toCheckpointLeaf (some_entries (bc_checkpoints batch))) (\<lambda>leaves.
             let ordered = map cp_checkpointRoot (sortCheckpointLeaves leaves)
             in mapE (\<lambda>i. bindE (someE (verifyMerkleProof v (ordered ! i) (proofForIndex v ordered i) claimedGlobal)) (\<lambda>ok.
                  Inr (verdict (numbered (prefix @ ''.selfInclusion'') i) ok))) [0..<length ordered])
         else Inr [])"

definition verifyProofBatchClaim :: "viem \<Rightarrow> BatchClaim \<Rightarrow> string \<Rightarrow> watch_error + CheckResult list" where
  "verifyProofBatchClaim v batch prefix =
     bindE (asBigInt (bc_sequence batch)) (\<lambda>sequence.
     bindE (asHex (bc_previousBatchRoot batch)) (\<lambda>previousBatchRoot.
     bindE (asHex (bc_globalRoot batch)) (\<lambda>claimedGlobal.
     bindE (asHex (bc_dataManifestHash batch)) (\<lambda>dataManifestHash.
     bindE (asBigInt (bc_createdAt batch)) (\<lambda>createdAt.
       let first = (if sequence = 0 then [verdict (prefix @ ''.genesisPrev'') (eqHex previousBatchRoot ZERO_ROOT)] else []) @
             [verdict (prefix @ ''.nonZeroGlobalRoot'') (\<not> eqHex claimedGlobal ZERO_ROOT)]
       in bindE (checkpointRootsFromPackage batch) (\<lambda>maybe.
            case maybe of
              None \<Rightarrow> Inr (first @ [skip (prefix @ ''.checkpointRoots'')])
            | Some roots \<Rightarrow>
                let rebuilt = buildGlobalProofBatchRoot v roots
                in bindE (liftWatch (buildProofBatch v \<lparr>pi_sequence = sequence, pi_previousBatchRoot = previousBatchRoot,
                          pi_checkpointRoots = roots, pi_dataManifestHash = dataManifestHash, pi_createdAt = createdAt\<rparr>)) (\<lambda>rebuiltBatch.
                   bindE (if given (bc_proofBatchHash batch)
                          then bindE (asHex (orElse (bc_proofBatchHash batch) [])) (\<lambda>h. Inr (eqHex (pr_proofBatchHash rebuiltBatch) h))
                          else Inr True) (\<lambda>hashOk.
                   bindE (inclusionChecks v batch claimedGlobal prefix) (\<lambda>inclusion.
                     Inr (first @ [verdict (prefix @ ''.globalRoot'') (eqHex rebuilt claimedGlobal),
                                   \<lparr>ck_id = prefix @ ''.proofBatchHash'', ck_ok = hashOk, ck_skipped = \<not> given (bc_proofBatchHash batch)\<rparr>]
                          @ inclusion)))))))))) "

text \<open>The walk over consecutive batches, and the search for repeated roots.\<close>

definition entryId :: "string \<Rightarrow> PublicProofBatch \<Rightarrow> string \<Rightarrow> string" where
  "entryId prefix b name = prefix @ ''['' @ int_string (wb_sequence b) @ '']'' @ name"

fun walkBatches :: "string \<Rightarrow> PublicProofBatch \<Rightarrow> PublicProofBatch list \<Rightarrow> CheckResult list" where
  "walkBatches prefix prev [] = []"
| "walkBatches prefix prev (b # bs) =
     [verdict (entryId prefix b ''.sequence'') (wb_sequence b = wb_sequence prev + 1),
      verdict (entryId prefix b ''.prevRoot'') (eqHex (wb_previousBatchRoot b) (wb_globalRoot prev))]
     @ walkBatches prefix b bs"

fun uniqueRoots :: "string \<Rightarrow> Hex list \<Rightarrow> PublicProofBatch list \<Rightarrow> CheckResult list" where
  "uniqueRoots prefix seen [] = []"
| "uniqueRoots prefix seen (b # bs) =
     verdict (entryId prefix b ''.uniqueRoot'') (js_lower (wb_globalRoot b) \<notin> set seen)
     # uniqueRoots prefix (js_lower (wb_globalRoot b) # seen) bs"

definition verifyBatchContinuity :: "PublicProofBatch list \<Rightarrow> string \<Rightarrow> CheckResult list" where
  "verifyBatchContinuity batches prefix =
     (case js_sort (\<lambda>a b. js_cmp3 (wb_sequence a) (wb_sequence b)) batches of
        [] \<Rightarrow> [skip (prefix @ ''.empty'')]
      | b # bs \<Rightarrow>
          (if wb_sequence b = 0 then verdict (entryId prefix b ''.genesis'') (eqHex (wb_previousBatchRoot b) ZERO_ROOT)
           else skip (entryId prefix b ''.start''))
          # walkBatches prefix b bs @ uniqueRoots prefix [] (b # bs))"

definition verifyAgainstBatchSource :: "PublicProofBatch \<Rightarrow> (int \<Rightarrow> PublicProofBatch option) \<Rightarrow> string \<Rightarrow> CheckResult list" where
  "verifyAgainstBatchSource claimed source prefix =
     (case source (wb_sequence claimed) of
        None \<Rightarrow> [verdict (prefix @ ''.present'') False]
      | Some onchain \<Rightarrow>
          [verdict (prefix @ ''.present'') True,
           verdict (prefix @ ''.createdAt'') (wb_createdAt claimed = wb_createdAt onchain),
           verdict (prefix @ ''.previousBatchRoot'') (eqHex (wb_previousBatchRoot claimed) (wb_previousBatchRoot onchain)),
           verdict (prefix @ ''.globalRoot'') (eqHex (wb_globalRoot claimed) (wb_globalRoot onchain)),
           verdict (prefix @ ''.dataManifestHash'') (eqHex (wb_dataManifestHash claimed) (wb_dataManifestHash onchain))]
          @ (if given (wb_proofBatchHash claimed) \<and> given (wb_proofBatchHash onchain)
             then [verdict (prefix @ ''.proofBatchHash'')
                     (eqHex (orElse (wb_proofBatchHash claimed) []) (orElse (wb_proofBatchHash onchain) []))]
             else []))"

definition toPublicProofBatch :: "BatchClaim \<Rightarrow> watch_error + PublicProofBatch" where
  "toPublicProofBatch batch =
     bindE (asBigInt (bc_sequence batch)) (\<lambda>sequence.
     bindE (asHex (bc_previousBatchRoot batch)) (\<lambda>previousBatchRoot.
     bindE (asHex (bc_globalRoot batch)) (\<lambda>globalRoot.
     bindE (asHex (bc_dataManifestHash batch)) (\<lambda>dataManifestHash.
     bindE (asBigInt (bc_createdAt batch)) (\<lambda>createdAt.
     bindE (if given (bc_proofBatchHash batch) then bindE (asHex (orElse (bc_proofBatchHash batch) [])) (\<lambda>h. Inr (Some h))
            else Inr None) (\<lambda>proofBatchHash.
       Inr \<lparr>wb_sequence = sequence, wb_previousBatchRoot = previousBatchRoot, wb_globalRoot = globalRoot,
            wb_dataManifestHash = dataManifestHash, wb_createdAt = createdAt, wb_proofBatchHash = proofBatchHash\<rparr>))))))"

text \<open>The in-memory batch source: batches under their printed sequence numbers.\<close>

type_synonym batch_source = "(string \<times> PublicProofBatch) list"

definition source_put :: "batch_source \<Rightarrow> PublicProofBatch \<Rightarrow> batch_source" where
  "source_put s batch =
     AList.update (int_string (wb_sequence batch))
       (batch\<lparr>wb_previousBatchRoot := js_lower (wb_previousBatchRoot batch), wb_globalRoot := js_lower (wb_globalRoot batch),
              wb_dataManifestHash := js_lower (wb_dataManifestHash batch),
              wb_proofBatchHash := (if given (wb_proofBatchHash batch) then map_option js_lower (wb_proofBatchHash batch) else None)\<rparr>) s"

definition source_getBatch :: "batch_source \<Rightarrow> int \<Rightarrow> PublicProofBatch option" where
  "source_getBatch s sequence = map_of s (int_string sequence)"

definition source_latestSequence :: "batch_source \<Rightarrow> int option" where
  "source_latestSequence s =
     (if s = [] then None
      else let m = foldl (\<lambda>m k. let i = orElse (parseBigInt k) 0 in if i > m then i else m) (-1) (map fst s)
           in if m < 0 then None else Some m)"

section \<open>Balances and conservation\<close>

definition toLeafInput :: "viem \<Rightarrow> PublicBalanceLeaf \<Rightarrow> watch_error + BalanceLeafInput" where
  "toLeafInput v leaf =
     bindE (asHex (pbl_sessionId leaf)) (\<lambda>sessionId.
     bindE (asBigInt (pbl_epoch leaf)) (\<lambda>epoch.
     bindE (liftWatchEnc (getAddress v (pbl_arenaAccount leaf))) (\<lambda>arenaAccount.
     bindE (asBigInt (pbl_openingBalance leaf)) (\<lambda>openingBalance.
     bindE (asBigInt (pbl_currentBalance leaf)) (\<lambda>currentBalance.
     bindE (asBigInt (pbl_cumulativeRake leaf)) (\<lambda>cumulativeRake.
     bindE (asBigInt (pbl_lastSequence leaf)) (\<lambda>lastSequence.
       Inr \<lparr>bl_sessionId = sessionId, bl_epoch = epoch, bl_arenaAccount = arenaAccount, bl_seat = pbl_seat leaf,
            bl_openingBalance = openingBalance, bl_currentBalance = currentBalance, bl_cumulativeRake = cumulativeRake,
            bl_lastSequence = lastSequence\<rparr>)))))))"

record BalancesClaim =
  wc_balanceRoot :: Hex
  wc_leaves :: "PublicBalanceLeaf list"

text \<open>The rebuilding stands in a \<open>try\<close>: an error is a failed check.\<close>

definition verifyBalances :: "viem \<Rightarrow> BalancesClaim \<Rightarrow> watch_error + CheckResult list" where
  "verifyBalances v balances =
     bindE (asHex (wc_balanceRoot balances)) (\<lambda>claimedRoot.
       Inr [case bindE (mapE (toLeafInput v) (wc_leaves balances)) (\<lambda>ls. liftWatch (buildBalanceRoot v ls)) of
              Inl e \<Rightarrow> verdict ''balances.balanceRoot'' False
            | Inr result \<Rightarrow> verdict ''balances.balanceRoot'' (eqHex (br_balanceRoot result) claimedRoot)])"

record BalanceInclusionClaim =
  wi_leaf :: PublicBalanceLeaf
  wi_leafHash :: "Hex option"
  wi_balanceRoot :: Hex
  wi_proof :: "MerkleProofStep list"

definition verifyBalanceInclusionClaim :: "viem \<Rightarrow> BalanceInclusionClaim \<Rightarrow> watch_error + CheckResult list" where
  "verifyBalanceInclusionClaim v claim =
     bindE (toLeafInput v (wi_leaf claim)) (\<lambda>leaf.
     bindE (liftWatch (encodeBalanceLeaf v leaf)) (\<lambda>encoded.
     bindE (if given (wi_leafHash claim)
            then bindE (asHex (orElse (wi_leafHash claim) [])) (\<lambda>h.
              Inr [verdict ''balanceInclusion.leafHash'' (eqHex (lf_leafHash encoded) h)])
            else Inr []) (\<lambda>first.
     bindE (asHex (wi_balanceRoot claim)) (\<lambda>r.
     bindE (someE (verifyBalanceInclusion v (lf_leafHash encoded) (wi_proof claim) r)) (\<lambda>ok.
       Inr (first @ [verdict ''balanceInclusion.merkle'' ok]))))))"

record SettlementClaim =
  ws_openingTotal :: bigintish
  ws_endingPlayerTotal :: bigintish
  ws_totalRake :: bigintish
  ws_anchoredOnChain :: "bool option"

definition verifySettlementConservation :: "SettlementClaim \<Rightarrow> watch_error + CheckResult list" where
  "verifySettlementConservation settlement =
     bindE (asBigInt (ws_openingTotal settlement)) (\<lambda>opening.
     bindE (asBigInt (ws_endingPlayerTotal settlement)) (\<lambda>ending.
     bindE (asBigInt (ws_totalRake settlement)) (\<lambda>rake.
       Inr [verdict ''settlement.conservation'' (checkConservation_totals opening ending rake)])))"

section \<open>Card openings\<close>

record CardOpeningInput =
  oi_handId :: Hex
  oi_deckRoot :: Hex
  oi_position :: int
  oi_cardCode :: int
  oi_cardSalt :: Hex
  oi_proof :: "MerkleProofStep list"

record OpeningVerifyResult =
  ov_ok :: bool
  ov_cardLeaf :: Hex

definition verifyCardOpening :: "viem \<Rightarrow> CardOpeningInput \<Rightarrow> watch_error + OpeningVerifyResult" where
  "verifyCardOpening v input =
     (if oi_position input < 0 \<or> 255 < oi_position input then Inr \<lparr>ov_ok = False, ov_cardLeaf = ''0x''\<rparr>
      else if oi_cardCode input < 0 \<or> 51 < oi_cardCode input then Inr \<lparr>ov_ok = False, ov_cardLeaf = ''0x''\<rparr>
      else bindE (liftWatchEnc (cardLeaf v (oi_handId input) (oi_position input) (oi_cardCode input) (oi_cardSalt input))) (\<lambda>h.
           bindE (someE (verifyMerkleProof_deck v (hash h) (oi_proof input) (oi_deckRoot input))) (\<lambda>ok.
             Inr \<lparr>ov_ok = ok, ov_cardLeaf = hash h\<rparr>)))"

text \<open>What the watchtower reads of the report of the golden suite.\<close>

record GoldenReport =
  gr_ok :: bool
  gr_checks :: "(string \<times> bool) list"

record RandomnessClaim =
  wr_runGoldenSuite :: "bool option"
  wr_vectorsDir :: "string option"
  wr_opening :: "CardOpeningInput option"

definition verifyRandomnessSection ::
  "viem \<Rightarrow> (string option \<Rightarrow> GoldenReport) \<Rightarrow> RandomnessClaim \<Rightarrow> watch_error + CheckResult list" where
  "verifyRandomnessSection v golden randomness =
     (let suite = (if wr_runGoldenSuite randomness = Some True then
            let report = golden (wr_vectorsDir randomness)
            in verdict ''randomness.goldenSuite'' (gr_ok report)
               # map (\<lambda>c. verdict (''randomness.golden.'' @ fst c) False) (take 3 (filter (\<lambda>c. \<not> snd c) (gr_checks report)))
          else [])
      in case wr_opening randomness of
           None \<Rightarrow> Inr (suite @ (if wr_runGoldenSuite randomness = Some True then [] else [skip ''randomness'']))
         | Some o' \<Rightarrow>
             bindE (asHex (oi_handId o')) (\<lambda>handId. bindE (asHex (oi_deckRoot o')) (\<lambda>deckRoot. bindE (asHex (oi_cardSalt o')) (\<lambda>cardSalt.
             bindE (verifyCardOpening v (o'\<lparr>oi_handId := handId, oi_deckRoot := deckRoot, oi_cardSalt := cardSalt\<rparr>)) (\<lambda>result.
               Inr (suite @ [verdict ''randomness.opening'' (ov_ok result)]))))))"

section \<open>The run and its report\<close>

record PendingFlags =
  pf_baseAnchor :: "bool option"
  pf_settlement :: "bool option"
  pf_privateDealerAttested :: "bool option"

record PublicVerifyPackage =
  vp_packageId :: "string option"
  vp_chainId :: "bigintish option"
  vp_contracts :: "(string \<times> Hex) list"
  vp_proofBatch :: "BatchClaim option"
  vp_batchChain :: "BatchClaim list option"
  vp_balances :: "BalancesClaim option"
  vp_balanceInclusion :: "BalanceInclusionClaim option"
  vp_settlement :: "SettlementClaim option"
  vp_randomness :: "RandomnessClaim option"
  vp_pending :: "PendingFlags option"

datatype WatchtowerStatus =
    VERIFIED | VERIFIED_WITH_ATTESTED_PRIVATE_DEALER | PENDING_BASE_ANCHOR | PENDING_SETTLEMENT |
    INCOMPLETE_PUBLIC_DATA | VERIFICATION_FAILED

record WatchtowerReport =
  rp_packageId :: "string option"
  rp_ok :: bool
  rp_status :: WatchtowerStatus
  rp_passed :: nat
  rp_failed :: nat
  rp_skipped :: nat
  rp_checks :: "CheckResult list"

definition resolveStatus :: "nat \<Rightarrow> CheckResult list \<Rightarrow> PendingFlags \<Rightarrow> WatchtowerStatus" where
  "resolveStatus failed checks pending =
     (if failed > 0 then VERIFICATION_FAILED
      else if pf_baseAnchor pending = Some True then PENDING_BASE_ANCHOR
      else if pf_settlement pending = Some True then PENDING_SETTLEMENT
      else if filter (\<lambda>c. \<not> ck_skipped c) checks = [] then INCOMPLETE_PUBLIC_DATA
      else if pf_privateDealerAttested pending = Some True then VERIFIED_WITH_ATTESTED_PRIVATE_DEALER
      else VERIFIED)"

definition summarizeChecks :: "CheckResult list \<Rightarrow> string option \<Rightarrow> PendingFlags \<Rightarrow> WatchtowerReport" where
  "summarizeChecks checks packageId pending =
     (let passed = length (filter (\<lambda>c. ck_ok c \<and> \<not> ck_skipped c) checks);
          failed = length (filter (\<lambda>c. \<not> ck_ok c \<and> \<not> ck_skipped c) checks);
          skipped = length (filter ck_skipped checks);
          status = resolveStatus failed checks pending;
          verified = (status = VERIFIED \<or> status = VERIFIED_WITH_ATTESTED_PRIVATE_DEALER)
      in \<lparr>rp_packageId = packageId, rp_ok = (failed = 0 \<and> verified), rp_status = status, rp_passed = passed,
          rp_failed = failed, rp_skipped = skipped, rp_checks = checks\<rparr>)"

definition batchSection :: "viem \<Rightarrow> (int \<Rightarrow> PublicProofBatch option) option \<Rightarrow> BatchClaim option \<Rightarrow> watch_error + CheckResult list" where
  "batchSection v batchSource proofBatch =
     (case proofBatch of
        None \<Rightarrow> Inr [skip ''proofBatch'']
      | Some batch \<Rightarrow>
          bindE (verifyProofBatchClaim v batch ''proofBatch'') (\<lambda>checks.
            case batchSource of
              None \<Rightarrow> Inr checks
            | Some source \<Rightarrow>
                bindE (toPublicProofBatch batch) (\<lambda>claimed. Inr (checks @ verifyAgainstBatchSource claimed source ''registry''))))"

definition printed :: "bigintish \<Rightarrow> string" where
  "printed x = (case x of VBig i \<Rightarrow> int_string i | VString s \<Rightarrow> s | VNumber (Finite q) \<Rightarrow> int_string \<lfloor>q\<rfloor> | VNumber NonFinite \<Rightarrow> ''NaN'')"

definition chainSection :: "viem \<Rightarrow> BatchClaim list option \<Rightarrow> watch_error + CheckResult list" where
  "chainSection v batchChain =
     (if some_entries batchChain = [] then Inr []
      else bindE (mapE toPublicProofBatch (some_entries batchChain)) (\<lambda>chain.
           bindE (mapE (\<lambda>entry. if some_entries (bc_checkpointRoots entry) = [] then Inr []
                    else verifyProofBatchClaim v entry (''batchChain['' @ printed (bc_sequence entry) @ '']'')) (some_entries batchChain)) (\<lambda>rest.
             Inr (verifyBatchContinuity chain ''continuity'' @ concat rest))))"

definition balancesSection :: "viem \<Rightarrow> BalancesClaim option \<Rightarrow> BalanceInclusionClaim option \<Rightarrow> watch_error + CheckResult list" where
  "balancesSection v balances inclusion =
     bindE (case balances of None \<Rightarrow> Inr [skip ''balances''] | Some b \<Rightarrow> verifyBalances v b) (\<lambda>checks.
     bindE (case inclusion of None \<Rightarrow> Inr [] | Some i \<Rightarrow> verifyBalanceInclusionClaim v i) (\<lambda>more. Inr (checks @ more)))"

definition settlementSection :: "SettlementClaim option \<Rightarrow> watch_error + CheckResult list" where
  "settlementSection settlement =
     (case settlement of None \<Rightarrow> Inr [skip ''settlement''] | Some s \<Rightarrow> verifySettlementConservation s)"

definition noRandomness :: RandomnessClaim where
  "noRandomness = \<lparr>wr_runGoldenSuite = None, wr_vectorsDir = None, wr_opening = None\<rparr>"

definition randomnessSection ::
  "viem \<Rightarrow> (string option \<Rightarrow> GoldenReport) \<Rightarrow> bool option \<Rightarrow> string option \<Rightarrow> RandomnessClaim option \<Rightarrow> watch_error + CheckResult list" where
  "randomnessSection v golden includeGolden vectorsDir claim =
     (let randomness = orElse claim noRandomness;
          runGolden = (wr_runGoldenSuite randomness = Some True \<or> includeGolden = Some True \<and> wr_runGoldenSuite randomness \<noteq> Some False)
      in if runGolden \<or> wr_opening randomness \<noteq> None then
           verifyRandomnessSection v golden (randomness\<lparr>wr_runGoldenSuite := Some runGolden,
             wr_vectorsDir := (case wr_vectorsDir randomness of None \<Rightarrow> vectorsDir | Some d \<Rightarrow> Some d)\<rparr>)
         else Inr [skip ''randomness''])"

definition pendingOf :: "PublicVerifyPackage \<Rightarrow> PendingFlags" where
  "pendingOf pkg =
     (let flag = (\<lambda>f. case vp_pending pkg of None \<Rightarrow> False | Some p \<Rightarrow> f p = Some True)
      in \<lparr>pf_baseAnchor = Some (flag pf_baseAnchor),
          pf_settlement = Some (flag pf_settlement \<or>
            (case vp_settlement pkg of None \<Rightarrow> False | Some s \<Rightarrow> ws_anchoredOnChain s = Some False)),
          pf_privateDealerAttested = Some (flag pf_privateDealerAttested)\<rparr>)"

definition runWatchtower ::
  "viem \<Rightarrow> (string option \<Rightarrow> GoldenReport) \<Rightarrow> PublicVerifyPackage \<Rightarrow> (int \<Rightarrow> PublicProofBatch option) option \<Rightarrow>
     bool option \<Rightarrow> string option \<Rightarrow> watch_error + WatchtowerReport" where
  "runWatchtower v golden pkg batchSource includeGolden vectorsDir =
     bindE (batchSection v batchSource (vp_proofBatch pkg)) (\<lambda>c1.
     bindE (chainSection v (vp_batchChain pkg)) (\<lambda>c2.
     bindE (balancesSection v (vp_balances pkg) (vp_balanceInclusion pkg)) (\<lambda>c3.
     bindE (settlementSection (vp_settlement pkg)) (\<lambda>c4.
     bindE (randomnessSection v golden includeGolden vectorsDir (vp_randomness pkg)) (\<lambda>c5.
       Inr (summarizeChecks (c1 @ c2 @ c3 @ c4 @ c5) (vp_packageId pkg) (pendingOf pkg)))))))"

section \<open>What passing checks mean\<close>

abbreviation passes :: "CheckResult list \<Rightarrow> bool" where
  "passes cs \<equiv> list_all (\<lambda>c. ck_skipped c \<or> ck_ok c) cs"

lemma check_simps [simp]:
  "ck_ok (verdict i b) = b" "\<not> ck_skipped (verdict i b)" "ck_ok (skip i)" "ck_skipped (skip i)"
  by (simp_all add: verdict_def skip_def)

lemma asHex_InrD [dest!]: "asHex s = Inr h \<Longrightarrow> h = js_lower s"
  by (auto simp: asHex_def split: if_splits)

lemma eqHex_lower [simp]: "eqHex (js_lower a) b = eqHex a b" "eqHex a (js_lower b) = eqHex a b"
  by (simp_all add: eqHex_def)

lemma mapE_asHex: "mapE asHex rs = Inr hs \<Longrightarrow> hs = map js_lower rs"
  by (induction rs arbitrary: hs) auto

text \<open>Batches in a row: consecutive numbers, each naming the root before it.\<close>

fun inARow :: "PublicProofBatch \<Rightarrow> PublicProofBatch list \<Rightarrow> bool" where
  "inARow prev [] = True"
| "inARow prev (b # bs) \<longleftrightarrow> wb_sequence b = wb_sequence prev + 1 \<and> eqHex (wb_previousBatchRoot b) (wb_globalRoot prev) \<and> inARow b bs"

definition soundChain :: "PublicProofBatch list \<Rightarrow> bool" where
  "soundChain batches =
     (case js_sort (\<lambda>a b. js_cmp3 (wb_sequence a) (wb_sequence b)) batches of
        [] \<Rightarrow> True
      | b # bs \<Rightarrow> (wb_sequence b = 0 \<longrightarrow> eqHex (wb_previousBatchRoot b) ZERO_ROOT) \<and> inARow b bs \<and>
          distinct (map (js_lower \<circ> wb_globalRoot) (b # bs)))"

lemma passes_walk: "passes (walkBatches prefix prev bs) \<longleftrightarrow> inARow prev bs"
  by (induction prefix prev bs rule: walkBatches.induct) auto

lemma passes_unique:
  "passes (uniqueRoots prefix seen bs) \<longleftrightarrow>
     distinct (map (js_lower \<circ> wb_globalRoot) bs) \<and> set seen \<inter> (js_lower \<circ> wb_globalRoot) ` set bs = {}"
  by (induction prefix seen bs rule: uniqueRoots.induct) auto

lemma passes_continuity: "passes (verifyBatchContinuity batches prefix) \<longleftrightarrow> soundChain batches"
  by (auto simp: verifyBatchContinuity_def soundChain_def passes_walk passes_unique split: list.splits)

lemma claim_sound:
  assumes "verifyProofBatchClaim v b prefix = Inr cs" "passes cs" "bc_checkpointRoots b = Some rs" "rs \<noteq> []"
  shows "eqHex (buildGlobalProofBatchRoot v (map js_lower rs)) (bc_globalRoot b) \<and> \<not> eqHex (bc_globalRoot b) ZERO_ROOT"
  using assms
  by (auto simp: verifyProofBatchClaim_def checkpointRootsFromPackage_def some_entries_def Let_def dest!: mapE_asHex)

lemma registry_sound:
  assumes "passes (verifyAgainstBatchSource claimed source prefix)"
  shows "\<exists>o'. source (wb_sequence claimed) = Some o' \<and> eqHex (wb_globalRoot claimed) (wb_globalRoot o') \<and>
    eqHex (wb_previousBatchRoot claimed) (wb_previousBatchRoot o') \<and> wb_createdAt claimed = wb_createdAt o'"
  using assms by (auto simp: verifyAgainstBatchSource_def split: option.splits)

lemma batchSection_sound:
  assumes "batchSection v source (Some b) = Inr cs" "passes cs"
  shows "(\<forall>rs. bc_checkpointRoots b = Some rs \<and> rs \<noteq> [] \<longrightarrow>
      eqHex (buildGlobalProofBatchRoot v (map js_lower rs)) (bc_globalRoot b) \<and> \<not> eqHex (bc_globalRoot b) ZERO_ROOT) \<and>
    (\<forall>src. source = Some src \<longrightarrow> (\<exists>n o'. asBigInt (bc_sequence b) = Inr n \<and> src n = Some o' \<and>
      eqHex (bc_globalRoot b) (wb_globalRoot o')))"
proof -
  obtain c1 c2 where c: "verifyProofBatchClaim v b ''proofBatch'' = Inr c1" "cs = c1 @ c2"
    "\<And>src. source = Some src \<Longrightarrow> \<exists>claimed. toPublicProofBatch b = Inr claimed \<and> c2 = verifyAgainstBatchSource claimed src ''registry''"
    using assms(1) by (auto simp: batchSection_def split: option.splits)
  have "\<exists>n o'. asBigInt (bc_sequence b) = Inr n \<and> src n = Some o' \<and> eqHex (bc_globalRoot b) (wb_globalRoot o')"
    if src: "source = Some src" for src
  proof -
    obtain cl where cl: "toPublicProofBatch b = Inr cl" "c2 = verifyAgainstBatchSource cl src ''registry''"
      using c(3) [OF src] by blast
    then have "asBigInt (bc_sequence b) = Inr (wb_sequence cl)" "wb_globalRoot cl = js_lower (bc_globalRoot b)"
      by (auto simp: toPublicProofBatch_def)
    then show ?thesis using registry_sound [of cl src "''registry''"] assms(2) c(2) cl(2) by auto
  qed
  then show ?thesis using claim_sound [OF c(1)] assms(2) c(2) by auto
qed

lemma chainSection_sound:
  assumes "chainSection v (Some bs) = Inr cs" "passes cs"
  shows "\<exists>ps. mapE toPublicProofBatch bs = Inr ps \<and> soundChain ps"
  using assms
  by (cases "bs = []") (auto simp: chainSection_def some_entries_def passes_continuity, simp add: soundChain_def)

lemma balancesSection_sound:
  assumes "balancesSection v (Some b) i = Inr cs" "passes cs"
  shows "\<exists>ls res. mapE (toLeafInput v) (wc_leaves b) = Inr ls \<and> buildBalanceRoot v ls = Inr res \<and>
    eqHex (br_balanceRoot res) (wc_balanceRoot b)"
  using assms
  by (cases "bindE (mapE (toLeafInput v) (wc_leaves b)) (\<lambda>ls. liftWatch (buildBalanceRoot v ls))")
     (auto simp: balancesSection_def verifyBalances_def)

lemma inclusionSection_sound:
  assumes "balancesSection v b (Some i) = Inr cs" "passes cs"
  shows "\<exists>l e. toLeafInput v (wi_leaf i) = Inr l \<and> encodeBalanceLeaf v l = Inr e \<and>
    verifyBalanceInclusion v (lf_leafHash e) (wi_proof i) (js_lower (wi_balanceRoot i)) = Some True"
  using assms by (auto simp: balancesSection_def verifyBalanceInclusionClaim_def)

lemma settlementSection_sound:
  assumes "settlementSection (Some s) = Inr cs" "passes cs"
  shows "\<exists>x y z. asBigInt (ws_openingTotal s) = Inr x \<and> asBigInt (ws_endingPlayerTotal s) = Inr y \<and>
    asBigInt (ws_totalRake s) = Inr z \<and> x = y + z"
  using assms by (auto simp: settlementSection_def verifySettlementConservation_def checkConservation_totals_def)

lemma opening_sound:
  assumes "verifyCardOpening v x = Inr r" "ov_ok r"
  shows "0 \<le> oi_cardCode x \<and> oi_cardCode x \<le> 51 \<and> (\<exists>h. cardLeaf v (oi_handId x) (oi_position x) (oi_cardCode x) (oi_cardSalt x) = Inr h \<and>
    verifyMerkleProof_deck v (hash h) (oi_proof x) (oi_deckRoot x) = Some True)"
  using assms by (auto simp: verifyCardOpening_def split: if_splits)

lemma randomnessSection_sound:
  assumes "randomnessSection v golden ig dir (Some r) = Inr cs" "passes cs" "wr_opening r = Some x"
  shows "0 \<le> oi_cardCode x \<and> oi_cardCode x \<le> 51 \<and>
    (\<exists>h. cardLeaf v (js_lower (oi_handId x)) (oi_position x) (oi_cardCode x) (js_lower (oi_cardSalt x)) = Inr h \<and>
      verifyMerkleProof_deck v (hash h) (oi_proof x) (js_lower (oi_deckRoot x)) = Some True)"
  using assms by (auto simp: randomnessSection_def verifyRandomnessSection_def Let_def dest!: opening_sound)

lemma summarize_ok:
  assumes "rp_ok (summarizeChecks cs i p)"
  shows "passes cs" "filter (\<lambda>c. \<not> ck_skipped c) cs \<noteq> []" "pf_baseAnchor p \<noteq> Some True" "pf_settlement p \<noteq> Some True"
  using assms
  by (auto simp: summarizeChecks_def resolveStatus_def Let_def filter_empty_conv list_all_iff split: if_splits)

section \<open>Published data passes\<close>

text \<open>What holds of zero, of every digest and of the leaves holds of the root.\<close>

lemma root_closed:
  assumes "P ZERO32" "\<And>l r. P (hashPair v l r)" "list_all P leaves"
  shows "P (root (merkleRoot v leaves))"
proof (cases "leaves = []")
  case False
  have next_P: "list_all P (nextLevel v level)" for level
    by (induction level rule: induct_list012) (auto simp: assms(2))
  have "list_all P (last (buildLayers v level)) \<and> last (buildLayers v level) \<noteq> []"
    if "list_all P level" "level \<noteq> []" for level
    using that
  proof (induction "length level" arbitrary: level rule: less_induct)
    case less
    show ?case
    proof (cases "1 < length level")
      case True
      then have "nextLevel v level \<noteq> []" by (cases level rule: remdups_adj.cases) auto
      then show ?thesis using less.hyps [of "nextLevel v level"] True last_buildLayers [OF True] next_P by simp
    next
      case False
      then show ?thesis using less.prems by (simp add: buildLayers.simps)
    qed
  qed
  moreover have "list_all P (padLevel leaves)" using assms(1,3) False by (auto simp: padLevel_spec list_all_iff)
  moreover have "padLevel leaves \<noteq> []" using False by (simp add: padLevel_spec)
  ultimately have "list_all P (last (buildLayers v (padLevel leaves))) \<and> last (buildLayers v (padLevel leaves)) \<noteq> []" by blast
  then have "P (hd (last (buildLayers v (padLevel leaves))))" by (auto simp: list_all_iff)
  then show ?thesis using False by (simp add: merkleRoot_def Let_def)
qed (simp add: merkleRoot_def assms(1))

lemma root_hex: "hash_lib v \<Longrightarrow> list_all is_hex32 leaves \<Longrightarrow> is_hex32 (root (merkleRoot v leaves))"
  by (rule root_closed) (auto simp: hashPair_def hash_lib_def)

lemma root_lower:
  "hash_lib v \<Longrightarrow> list_all (\<lambda>h. js_lower h = h) leaves \<Longrightarrow> js_lower (root (merkleRoot v leaves)) = root (merkleRoot v leaves)"
  by (rule root_closed [where P = "\<lambda>h. js_lower h = h"]) (auto simp: hashPair_def hash_lib_def)

text \<open>A 32-byte hash in the lower case in which the code produces them.\<close>

definition plain :: "Hex \<Rightarrow> bool" where
  "plain h \<longleftrightarrow> is_hex32 h \<and> js_lower h = h"

lemma asHex_plain: "plain h \<Longrightarrow> asHex h = Inr h"
  by (simp add: plain_def is_hex32_def asHex_def)

lemma plain_root: "hash_lib v \<Longrightarrow> list_all plain leaves \<Longrightarrow> plain (root (merkleRoot v leaves))"
  using root_hex root_lower by (auto simp: plain_def list_all_iff)

lemma keccakEnc_plain: "hash_lib v \<Longrightarrow> keccakEnc v t vs = Inr h \<Longrightarrow> plain h"
  by (auto simp: plain_def hash_lib_def dest!: keccakEnc_InrD)

lemma manifest_plain: "hash_lib v \<Longrightarrow> buildDataManifestHash v cps m = Inr h \<Longrightarrow> plain h"
  by (auto simp: buildDataManifestHash_def Let_def assertBytes32_def split: if_splits dest: keccakEnc_plain)
     (simp add: plain_def)

text \<open>The public claim of a published batch.\<close>

definition claimOf :: "PreparedProofBatch \<Rightarrow> BatchClaim" where
  "claimOf b = \<lparr>bc_sequence = VBig (pr_sequence (pp_batch b)), bc_previousBatchRoot = pr_previousBatchRoot (pp_batch b),
     bc_globalRoot = pr_globalRoot (pp_batch b), bc_dataManifestHash = pr_dataManifestHash (pp_batch b),
     bc_createdAt = VBig (pr_createdAt (pp_batch b)), bc_proofBatchHash = Some (pr_proofBatchHash (pp_batch b)),
     bc_checkpointRoots = Some (pp_orderedRoots b), bc_checkpoints = None, bc_inclusionProofs = None\<rparr>"

definition publicOf :: "StoredBatch \<Rightarrow> PublicProofBatch" where
  "publicOf st = \<lparr>wb_sequence = rb_sequence st, wb_previousBatchRoot = rb_previousBatchRoot st,
     wb_globalRoot = rb_globalRoot st, wb_dataManifestHash = rb_dataManifestHash st, wb_createdAt = rb_createdAt st,
     wb_proofBatchHash = Some (sb_proofBatchHash st)\<rparr>"

lemma chain_in_a_row:
  "map rb_sequence bs = map int [n..<n + length bs] \<Longrightarrow> map rb_previousBatchRoot bs = butlast (r # map rb_globalRoot bs) \<Longrightarrow>
     wb_sequence prev + 1 = int n \<Longrightarrow> wb_globalRoot prev = r \<Longrightarrow> inARow prev (map publicOf bs)"
proof (induction bs arbitrary: n r prev)
  case (Cons b bs)
  have "[n..<n + length (b # bs)] = n # [Suc n..<Suc n + length bs]" by (subst upt_conv_Cons) (simp_all del: upt_Suc)
  then show ?case
    using Cons.prems Cons.IH [of "Suc n" "rb_globalRoot b" "publicOf b"] by (cases bs) (auto simp: publicOf_def eqHex_def)
qed simp

lemma sorted_sequence_id:
  "map wb_sequence ps = map int [n..<n + length ps] \<Longrightarrow> js_sort (\<lambda>a b. js_cmp3 (wb_sequence a) (wb_sequence b)) ps = ps"
proof (induction ps arbitrary: n)
  case (Cons p ps)
  have up: "[n..<n + length (p # ps)] = n # [Suc n..<Suc n + length ps]" by (subst upt_conv_Cons) (simp_all del: upt_Suc)
  have tl: "wb_sequence p = int n" "map wb_sequence ps = map int [Suc n..<Suc n + length ps]"
    using Cons.prems unfolding up by (simp_all del: upt_Suc)
  then have srt: "js_sort (\<lambda>a b. js_cmp3 (wb_sequence a) (wb_sequence b)) ps = ps" using Cons.IH by blast
  have le: "js_cmp3 (wb_sequence p) (wb_sequence q) \<le> 0" if "q \<in> set ps" for q
  proof -
    have "wb_sequence q \<in> int ` {Suc n..<Suc n + length ps}"
      using that tl(2) by (metis image_eqI image_set set_upt)
    then show ?thesis using tl(1) by (auto simp: js_cmp3_def)
  qed
  show ?case using srt le by (cases ps) simp_all
qed simp

lemma published_chain_sound:
  assumes "batch_chain bs" "list_all (\<lambda>b. js_lower (rb_globalRoot b) = rb_globalRoot b) bs"
  shows "soundChain (map publicOf bs)"
proof (cases bs)
  case (Cons b rest)
  have seqs: "map wb_sequence (map publicOf bs) = map int [0..<0 + length (map publicOf bs)]"
    using assms(1) by (simp add: batch_chain_def publicOf_def comp_def)
  have up: "[0..<length bs] = 0 # [1..<1 + length rest]" using Cons by (subst upt_conv_Cons) (simp_all del: upt_Suc)
  have row: "inARow (publicOf b) (map publicOf rest)"
    using assms(1) [unfolded batch_chain_def up] Cons
    by (intro chain_in_a_row [of rest 1 "rb_globalRoot b"]) (auto simp: publicOf_def simp del: upt_Suc)
  have low: "map (js_lower \<circ> wb_globalRoot) (map publicOf bs) = map rb_globalRoot bs"
    using assms(2) by (simp add: publicOf_def list_all_iff)
  have "distinct (map (js_lower \<circ> wb_globalRoot) (map publicOf bs))"
    unfolding low using assms(1) by (simp add: batch_chain_def)
  moreover have "eqHex (wb_previousBatchRoot (publicOf b)) ZERO_ROOT"
    using assms(1) Cons by (cases rest) (auto simp: batch_chain_def publicOf_def eqHex_def)
  ultimately show ?thesis
    unfolding soundChain_def sorted_sequence_id [OF seqs] using Cons row by (simp add: image_image comp_assoc)
qed (simp add: soundChain_def)

lemma buildProofBatch_fields:
  "buildProofBatch v x = Inr r \<Longrightarrow> pr_dataManifestHash r = pi_dataManifestHash x \<and> pr_createdAt r = pi_createdAt x"
  by (auto simp: buildProofBatch_def Let_def)

lemma published_claim_passes:
  assumes "hash_lib v" "prepareProofBatch v c checkpoints now manifest = Inr b" "plain (cs_previousBatchRoot c)"
    and "\<And>x. x \<in> set checkpoints \<Longrightarrow> plain (cp_checkpointRoot x)"
  shows "\<exists>cs. verifyProofBatchClaim v (claimOf b) prefix = Inr cs \<and> passes cs"
proof -
  let ?roots = "orderedCheckpointRoots checkpoints"
  note pd = prepareProofBatch_InrD [OF assms(2)]
  have plain: "list_all plain ?roots"
    using assms(4) by (auto simp: orderedCheckpointRoots_def sortCheckpointLeaves_def list_all_iff)
  then have low: "map js_lower ?roots = ?roots" by (auto simp: plain_def list_all_iff intro: map_idI)
  obtain dm where b: "buildDataManifestHash v (sortCheckpointLeaves checkpoints) (orElse manifest noManifest) = Inr dm"
    "pp_orderedRoots b = map js_lower ?roots"
    "buildProofBatch v \<lparr>pi_sequence = cs_nextSequence c, pi_previousBatchRoot = cs_previousBatchRoot c,
       pi_checkpointRoots = ?roots, pi_dataManifestHash = dm, pi_createdAt = now\<rparr> = Inr (pp_batch b)"
    "cs_nextSequence c = 0 \<longrightarrow> js_lower (cs_previousBatchRoot c) = ZERO_ROOT"
    using assms(2)
    by (auto simp: prepareProofBatch_def Let_def orderedCheckpointRoots_def assertContinuityLink_def
        split: if_splits)
  note flds = buildProofBatch_fields [OF b(3)]
  obtain h where h: "proofBatchLeaf v (fieldsOf (paramsOf (pp_batch b))) = Inr h" "pr_proofBatchHash (pp_batch b) = hash h"
    using prepared_leaf(1) [OF assms(2)] by blast
  have "plain (hash h)" using hashEnc_hash [OF assms(1)] h(1) by (auto simp: proofBatchLeaf_def plain_def)
  then have pl: "plain (pr_globalRoot (pp_batch b))" "plain dm" "plain (hash h)"
    using plain_root [OF assms(1) plain] manifest_plain [OF assms(1) b(1)] pd(3)
    by (simp_all add: buildGlobalProofBatchRoot_def)
  have ne: "?roots \<noteq> []" using pd(1) by (simp add: orderedCheckpointRoots_def sortCheckpointLeaves_def)
  have hexes: "mapE asHex ?roots = Inr ?roots"
    using mapE_total [of ?roots asHex "\<lambda>h. h"] plain by (auto simp: list_all_iff asHex_plain)
  have gv: "given (Some (hash h))" using pl(3) by (auto simp: given_def plain_def is_hex32_def)
  show ?thesis
    using b(2-4) flds h(2) low ne hexes pl assms(3) pd(3-5) prepared_leaf(2) [OF assms(2)] gv
    by (simp add: verifyProofBatchClaim_def claimOf_def asHex_plain checkpointRootsFromPackage_def some_entries_def Let_def
        inclusionChecks_def eqHex_def)
qed

text \<open>The side a sibling stands on depends on the position and the number of leaves only.\<close>

lemma isLeft_proofLoop:
  "length l = length l' \<Longrightarrow> map isLeft (proofLoop (buildLayers v l) i) = map isLeft (proofLoop (buildLayers w l') i)"
proof (induction "length l" arbitrary: l l' i rule: less_induct)
  case less
  show ?case
  proof (cases "1 < length l")
    case True
    then show ?thesis
      using less.hyps [of "nextLevel v l" "nextLevel w l'" "i div 2"] less.prems
      by (simp add: proofLoop_buildLayers Let_def)
  next
    case False
    then show ?thesis using less.prems by (simp add: buildLayers.simps)
  qed
qed

lemma roots_binding:
  assumes "hash_lib v" "list_all is_hex32 rs" "list_all is_hex32 rs'" "length rs' = length rs" "i < length rs"
    and "js_lower (root (merkleRoot v rs')) = js_lower (root (merkleRoot v rs))"
  shows "js_lower (rs' ! i) = js_lower (rs ! i) \<or>
    path_collision v (climb_inputs v (js_lower (rs' ! i)) (proofForIndex v rs' i))
      (climb_inputs v (js_lower (rs ! i)) (proofForIndex v rs i))"
proof (rule merkle_binding [OF assms(1,2,5)])
  have i': "i < length rs'" using assms(4,5) by simp
  show "is_hex32 (rs' ! i)" using assms(3) i' by (simp add: list_all_length)
  show "list_all hex_step (proofForIndex v rs' i)" by (rule hex_step_proof [OF assms(1,3) i'])
  show "verifyMerkleProof v (rs' ! i) (proofForIndex v rs' i) (root (merkleRoot v rs)) = Some True"
    using merkle_proof_complete [OF assms(1,3) i'] assms(6) by (simp add: verifyMerkleProof_def)
  have ne: "rs \<noteq> []" "rs' \<noteq> []" using assms(4,5) by auto
  then have "length (padLevel rs') = length (padLevel rs)" by (simp add: length_padLevel assms(4))
  with ne show "map isLeft (proofForIndex v rs' i) = map isLeft (proofForIndex v rs i)"
    using isLeft_proofLoop by (simp add: proofForIndex_def merkleProof_def merkleRoot_def Let_def)
qed

text \<open>An inclusion claim that is its own root.\<close>

definition selfClaim :: "Hex \<Rightarrow> PublicInclusionClaim" where
  "selfClaim x = \<lparr>ic_checkpointRoot = x, ic_proof = [], ic_globalRoot = x\<rparr>"

lemma selfClaim_verifies: "plain x \<Longrightarrow> verifyInclusionClaim v (selfClaim x) = Inr True"
  by (simp add: verifyInclusionClaim_def selfClaim_def asHex_plain verifyCheckpointInclusion_def verifyMerkleProof_def)

lemma self_claims_pass:
  assumes "list_all plain foreign" "foreign \<noteq> []"
  shows "\<exists>cs. inclusionChecks v (b\<lparr>bc_inclusionProofs := Some (map selfClaim foreign)\<rparr>) g prefix = Inr cs \<and> passes cs"
proof -
  let ?f = "\<lambda>i. verdict (numbered (prefix @ ''.inclusion'') i) True"
  have "inclusionChecks v (b\<lparr>bc_inclusionProofs := Some (map selfClaim foreign)\<rparr>) g prefix = Inr (map ?f [0..<length foreign])"
    using assms by (auto simp: inclusionChecks_def some_entries_def Let_def list_all_length selfClaim_verifies intro!: mapE_total)
  then show ?thesis by (simp add: verdict_def list_all_iff)
qed

section \<open>Properties\<close>


text \<open>A package with a settlement in which ten went in, seven came out and three were taken as rake.\<close>

definition demo_package :: PublicVerifyPackage where
  "demo_package = \<lparr>vp_packageId = None, vp_chainId = None, vp_contracts = [], vp_proofBatch = None, vp_batchChain = None,
     vp_balances = None, vp_balanceInclusion = None,
     vp_settlement = Some \<lparr>ws_openingTotal = VString ''10'', ws_endingPlayerTotal = VBig 7, ws_totalRake = VNumber (Finite 3),
       ws_anchoredOnChain = Some True\<rparr>,
     vp_randomness = None, vp_pending = None\<rparr>"


text \<open>Honest publication is accepted and cannot be retold. Whatever publishers did on a registry that was empty, its
  batches pass the walk of the watchtower; the claim of a prepared batch passes every check; and another list of as many
  checkpoint roots that leads to the same global root is, root for root, the published one up to the case of its digits,
  or the two paths exhibit two inputs with one hash.\<close>

theorem watchtower_accepts_published:
  assumes "hash_lib v" "(batch_step v)\<^sup>*\<^sup>* S0 S" "by_registry S0 = newRegistry None"
    and "prepareProofBatch v c checkpoints now manifest = Inr b" "plain (cs_previousBatchRoot c)"
    and "\<And>x. x \<in> set checkpoints \<Longrightarrow> plain (cp_checkpointRoot x)"
  shows "passes (verifyBatchContinuity (map publicOf (mr_published (by_registry S))) prefix) \<and>
    (\<exists>cs. verifyProofBatchClaim v (claimOf b) prefix = Inr cs \<and> passes cs) \<and>
    (\<forall>rs i. list_all is_hex32 rs \<and> length rs = length (pp_orderedRoots b) \<and> i < length rs \<and>
       eqHex (buildGlobalProofBatchRoot v rs) (buildGlobalProofBatchRoot v (pp_orderedRoots b)) \<longrightarrow>
       eqHex (rs ! i) (pp_orderedRoots b ! i) \<or>
       path_collision v (climb_inputs v (js_lower (rs ! i)) (proofForIndex v rs i))
         (climb_inputs v (js_lower (pp_orderedRoots b ! i)) (proofForIndex v (pp_orderedRoots b) i)))"
proof (intro conjI allI impI)
  have "mock_ok (by_registry S)" using batch_run_refines [OF assms(2)] assms(3) mock_ok_new by simp
  then show "passes (verifyBatchContinuity (map publicOf (mr_published (by_registry S))) prefix)"
    unfolding passes_continuity by (intro published_chain_sound) (simp_all add: mock_ok_def)
  show "\<exists>cs. verifyProofBatchClaim v (claimOf b) prefix = Inr cs \<and> passes cs"
    by (rule published_claim_passes [OF assms(1,4-6)])
  have hex: "list_all is_hex32 (pp_orderedRoots b)"
    using assms(4,6) by (auto simp: prepareProofBatch_def Let_def list_all_iff plain_def orderedCheckpointRoots_def
        sortCheckpointLeaves_def split: if_splits)
  fix rs i
  assume "list_all is_hex32 rs \<and> length rs = length (pp_orderedRoots b) \<and> i < length rs \<and>
    eqHex (buildGlobalProofBatchRoot v rs) (buildGlobalProofBatchRoot v (pp_orderedRoots b))"
  then show "eqHex (rs ! i) (pp_orderedRoots b ! i) \<or>
       path_collision v (climb_inputs v (js_lower (rs ! i)) (proofForIndex v rs i))
         (climb_inputs v (js_lower (pp_orderedRoots b ! i)) (proofForIndex v (pp_orderedRoots b) i))"
    using roots_binding [OF assms(1) hex, of rs i] by (simp add: eqHex_def buildGlobalProofBatchRoot_def)
qed

lemma plain_run: "c \<in> {CHR ''0'', CHR ''a'', CHR ''b''} \<Longrightarrow> plain (''0x'' @ replicate 64 c)"
  by (auto simp: plain_def is_hex32_def hex_digit_def list_all_iff js_lower_def lower_char_def map_replicate_const)

lemma demo_plain: "plain (cs_previousBatchRoot (mr_continuity (newRegistry None)))" "x \<in> set [demo_checkpoint] \<Longrightarrow> plain (cp_checkpointRoot x)"
  using plain_run [of "CHR ''0''"] plain_run [of "CHR ''a''"]
  by (simp_all add: newRegistry_def genesisContinuity_def ZERO_ROOT_def ZERO32_def demo_checkpoint_def)

theorem watchtower_accepts_published_witness:
  "\<exists>b cs. prepareProofBatch demo_viem (mr_continuity (newRegistry None)) [demo_checkpoint] 1 None = Inr b \<and>
     verifyProofBatchClaim demo_viem (claimOf b) ''proofBatch'' = Inr cs \<and> passes cs"
proof -
  obtain b where b: "prepareProofBatch demo_viem (mr_continuity (newRegistry None)) [demo_checkpoint] 1 None = Inr b"
    by (rule demo_prepared)
  show ?thesis
    using b watchtower_accepts_published [OF demo_viem_hash_lib rtranclp.rtrancl_refl _ b demo_plain, of demo_batch_sys "''proofBatch''"]
    by (auto simp: demo_batch_sys_def)
qed

text \<open>An inclusion claim is checked against the root it brings along, not against the root of the batch. A batch claim
  that passes still passes when inclusion claims for arbitrary foreign checkpoints are added to it, each with an empty
  path and the checkpoint itself as its root.\<close>

theorem foreign_inclusion_claims_pass:
  assumes "verifyProofBatchClaim v b prefix = Inr cs" "passes cs" "list_all plain foreign" "foreign \<noteq> []"
  shows "\<exists>cs'. verifyProofBatchClaim v (b\<lparr>bc_inclusionProofs := Some (map selfClaim foreign)\<rparr>) prefix = Inr cs' \<and> passes cs'"
proof -
  let ?b = "b\<lparr>bc_inclusionProofs := Some (map selfClaim foreign)\<rparr>"
  have same: "checkpointRootsFromPackage ?b = checkpointRootsFromPackage b" by (simp add: checkpointRootsFromPackage_def)
  obtain n p g d t roots where vals: "asBigInt (bc_sequence b) = Inr n" "asHex (bc_previousBatchRoot b) = Inr p"
      "asHex (bc_globalRoot b) = Inr g" "asHex (bc_dataManifestHash b) = Inr d" "asBigInt (bc_createdAt b) = Inr t"
      "checkpointRootsFromPackage b = Inr roots"
    using assms(1) unfolding verifyProofBatchClaim_def Let_def by (elim bindE_InrE)
  show ?thesis
  proof (cases roots)
    case None
    then show ?thesis using assms(1,2) vals same by (simp add: verifyProofBatchClaim_def Let_def)
  next
    case (Some rs)
    obtain r h where rebuilt: "liftWatch (buildProofBatch v \<lparr>pi_sequence = n, pi_previousBatchRoot = p, pi_checkpointRoots = rs,
        pi_dataManifestHash = d, pi_createdAt = t\<rparr>) = Inr r"
      "(if given (bc_proofBatchHash b)
        then bindE (asHex (orElse (bc_proofBatchHash b) [])) (\<lambda>h. Inr (eqHex (pr_proofBatchHash r) h)) else Inr True) = Inr h"
      using assms(1) unfolding verifyProofBatchClaim_def Let_def vals Some bindE.simps option.case by (elim bindE_InrE)
    obtain own where own: "inclusionChecks v ?b g prefix = Inr own" "passes own" using self_claims_pass [OF assms(3,4)] by blast
    have keep: "bc_sequence ?b = bc_sequence b" "bc_previousBatchRoot ?b = bc_previousBatchRoot b" "bc_globalRoot ?b = bc_globalRoot b"
      "bc_dataManifestHash ?b = bc_dataManifestHash b" "bc_createdAt ?b = bc_createdAt b" "bc_proofBatchHash ?b = bc_proofBatchHash b"
      by simp_all
    show ?thesis
      using assms(1,2) own(2)
      unfolding verifyProofBatchClaim_def Let_def keep same vals Some bindE.simps option.case rebuilt own(1)
      by (elim bindE_InrE) auto
  qed
qed

theorem foreign_inclusion_claims_pass_witness:
  "\<exists>b cs. verifyProofBatchClaim demo_viem (b\<lparr>bc_inclusionProofs := Some [selfClaim (''0x'' @ replicate 64 (CHR ''b''))]\<rparr>) ''proofBatch'' =
     Inr cs \<and> bc_globalRoot b = ''0x'' @ replicate 64 (CHR ''a'') \<and> passes cs"
proof -
  obtain b where b: "prepareProofBatch demo_viem (mr_continuity (newRegistry None)) [demo_checkpoint] 1 None = Inr b"
    by (rule demo_prepared)
  obtain cs where "verifyProofBatchClaim demo_viem (claimOf b) ''proofBatch'' = Inr cs" "passes cs"
    using published_claim_passes [OF demo_viem_hash_lib b demo_plain] by blast
  from foreign_inclusion_claims_pass [OF this, of "[''0x'' @ replicate 64 (CHR ''b'')]"] obtain cs'
    where cs': "verifyProofBatchClaim demo_viem ((claimOf b)\<lparr>bc_inclusionProofs :=
        Some [selfClaim (''0x'' @ replicate 64 (CHR ''b''))]\<rparr>) ''proofBatch'' = Inr cs'" "passes cs'"
    using plain_run [of "CHR ''b''"] by auto
  have "bc_globalRoot (claimOf b) = ''0x'' @ replicate 64 (CHR ''a'')"
    using prepareProofBatch_InrD(3) [OF b] demo_root [of demo_viem] by (simp add: claimOf_def)
  then show ?thesis using cs' by blast
qed

end
