(* ===== verification/Ledger.thy ===== *)
theory Ledger
  imports Protocol
begin

text \<open>
  \<^verbatim>\<open>packages/database/src/ledger.ts\<close> and \<^verbatim>\<open>arena-mode.ts\<close>: the double-entry ledger of the platform.

  The tables are lists of rows. A computation reads and updates the tables and may throw; what it wrote before it threw
  stays, except inside \<open>transfer\<close>, whose statements form a transaction. The column \<open>ledger_entries.amount\<close> is
  \<open>numeric(18,2)\<close> with the constraint \<open>amount <> 0\<close> (\<^verbatim>\<open>migrations/001_init.sql\<close>): an amount is stored in hundredths,
  rounded half away from zero, and an amount that rounds to zero or does not fit is refused. A row of \<open>ledger_accounts\<close>
  is its own identifier, since owner, kind, label and mode are unique; a new transaction is named by its position.
  Descriptions and time stamps are not modelled.
\<close>

section \<open>Economies\<close>

datatype ArenaMode = Demo_mode | Onchain_mode

datatype ProfileKind = Demo_profile | Onchain_profile

definition isArenaMode :: "string \<Rightarrow> bool" where
  "isArenaMode value \<longleftrightarrow> value = ''demo'' \<or> value = ''onchain''"

definition parseArenaMode :: "string \<Rightarrow> ArenaMode \<Rightarrow> ArenaMode" where
  "parseArenaMode value fallback =
     (if isArenaMode value then (if value = ''demo'' then Demo_mode else Onchain_mode) else fallback)"

definition parseProfileKind :: "string option \<Rightarrow> ProfileKind \<Rightarrow> ProfileKind" where
  "parseProfileKind value fallback =
     (case value of
        None \<Rightarrow> fallback
      | Some t \<Rightarrow> if t = ''demo'' then Demo_profile else if t = ''onchain'' then Onchain_profile else fallback)"

fun economyForProfile :: "ProfileKind \<Rightarrow> ArenaMode" where
  "economyForProfile Onchain_profile = Onchain_mode"
| "economyForProfile Demo_profile = Demo_mode"

fun mode_text :: "ArenaMode \<Rightarrow> string" where
  "mode_text Demo_mode = ''demo''"
| "mode_text Onchain_mode = ''onchain''"

section \<open>Tables\<close>

datatype account_kind = User_available | User_table_escrow | System_clearing | Platform_rake

record LedgerAccount =
  la_owner :: "string option"
  la_kind :: account_kind
  la_label :: string
  la_mode :: ArenaMode

record LedgerTransaction =
  lt_id :: nat
  lt_key :: string
  lt_referenceType :: "string option"
  lt_referenceId :: "string option"

record LedgerEntry =
  en_transaction :: nat
  en_account :: LedgerAccount
  en_amount :: int

record ledger =
  lg_profiles :: "(string \<times> string option) list"
  lg_accounts :: "LedgerAccount list"
  lg_transactions :: "LedgerTransaction list"
  lg_entries :: "LedgerEntry list"

datatype ledger_error =
    UnknownProfile | MissingLedgerAccount account_kind ArenaMode | AmountNotPositive | AmountColumn | InsufficientBalance |
    ModeLocked | PaperFundingDisabled | NotATransactionHash

text \<open>Computations on the tables.\<close>

type_synonym 'a ledgerM = "ledger \<Rightarrow> (ledger_error + 'a) \<times> ledger"

definition returnS :: "'a \<Rightarrow> 's \<Rightarrow> ('e + 'a) \<times> 's" where
  "returnS x s = (Inr x, s)"

definition throwS :: "'e \<Rightarrow> 's \<Rightarrow> ('e + 'a) \<times> 's" where
  "throwS e s = (Inl e, s)"

definition bindS :: "('s \<Rightarrow> ('e + 'a) \<times> 's) \<Rightarrow> ('a \<Rightarrow> 's \<Rightarrow> ('e + 'b) \<times> 's) \<Rightarrow> 's \<Rightarrow> ('e + 'b) \<times> 's" where
  "bindS m f s = (case m s of (Inl e, s') \<Rightarrow> (Inl e, s') | (Inr x, s') \<Rightarrow> f x s')"

section \<open>Accounts and balances\<close>

definition getProfileKind :: "string \<Rightarrow> ProfileKind ledgerM" where
  "getProfileKind userId s =
     (Inr (parseProfileKind (map_option (\<lambda>k. orElse k ''demo'') (map_of (lg_profiles s) userId)) Demo_profile), s)"

definition getUserArenaMode :: "string \<Rightarrow> ArenaMode ledgerM" where
  "getUserArenaMode userId = bindS (getProfileKind userId) (\<lambda>kind. returnS (economyForProfile kind))"

definition addAccount :: "LedgerAccount \<Rightarrow> LedgerAccount list \<Rightarrow> LedgerAccount list" where
  "addAccount a accounts = (if a \<in> set accounts then accounts else accounts @ [a])"

definition userAccount :: "string \<Rightarrow> account_kind \<Rightarrow> string \<Rightarrow> ArenaMode \<Rightarrow> LedgerAccount" where
  "userAccount userId kind label mode = \<lparr>la_owner = Some userId, la_kind = kind, la_label = label, la_mode = mode\<rparr>"

definition systemAccount :: "account_kind \<Rightarrow> string \<Rightarrow> ArenaMode \<Rightarrow> LedgerAccount" where
  "systemAccount kind label mode = \<lparr>la_owner = None, la_kind = kind, la_label = label, la_mode = mode\<rparr>"

text \<open>\<open>owner_id\<close> references \<open>profiles\<close>: rows for an unknown profile are refused.\<close>

definition ensureModeAccounts :: "string \<Rightarrow> ArenaMode \<Rightarrow> unit ledgerM" where
  "ensureModeAccounts userId mode s =
     (if userId \<notin> fst ` set (lg_profiles s) then (Inl UnknownProfile, s)
      else (Inr (), s\<lparr>lg_accounts :=
        addAccount (systemAccount Platform_rake ''rake'' mode)
       (addAccount (systemAccount System_clearing ''clearing'' mode)
       (addAccount (userAccount userId User_table_escrow ''escrow'' mode)
       (addAccount (userAccount userId User_available ''available'' mode) (lg_accounts s))))\<rparr>))"

definition setUserArenaMode :: "string \<Rightarrow> ArenaMode \<Rightarrow> ArenaMode ledgerM" where
  "setUserArenaMode userId mode =
     bindS (getProfileKind userId) (\<lambda>kind.
       if mode \<noteq> economyForProfile kind then throwS ModeLocked
       else bindS (ensureModeAccounts userId (economyForProfile kind)) (\<lambda>_. returnS (economyForProfile kind)))"

text \<open>\<open>coalesce(sum(e.amount), 0)\<close> over the accounts of a user, in hundredths.\<close>

definition ownedCents :: "account_kind \<Rightarrow> string \<Rightarrow> ArenaMode \<Rightarrow> ledger \<Rightarrow> int" where
  "ownedCents kind userId mode s =
     sum_list (map en_amount (filter (\<lambda>e. la_owner (en_account e) = Some userId \<and> la_kind (en_account e) = kind \<and>
       la_mode (en_account e) = mode) (lg_entries s)))"

definition modeOr :: "string \<Rightarrow> ArenaMode option \<Rightarrow> ArenaMode ledgerM" where
  "modeOr userId mode = (case mode of None \<Rightarrow> getUserArenaMode userId | Some m \<Rightarrow> returnS m)"

definition getAvailableBalance :: "string \<Rightarrow> ArenaMode option \<Rightarrow> rat ledgerM" where
  "getAvailableBalance userId mode =
     bindS (modeOr userId mode) (\<lambda>arenaMode. bindS (ensureModeAccounts userId arenaMode) (\<lambda>_ s.
       (Inr (of_int (ownedCents User_available userId arenaMode s) / 100), s)))"

definition getEscrowBalance :: "string \<Rightarrow> ArenaMode option \<Rightarrow> rat ledgerM" where
  "getEscrowBalance userId mode =
     bindS (modeOr userId mode) (\<lambda>arenaMode. bindS (ensureModeAccounts userId arenaMode) (\<lambda>_ s.
       (Inr (of_int (ownedCents User_table_escrow userId arenaMode s) / 100), s)))"

definition accountId :: "string option \<Rightarrow> account_kind \<Rightarrow> string \<Rightarrow> ArenaMode \<Rightarrow> LedgerAccount ledgerM" where
  "accountId userId kind label mode =
     bindS (case userId of None \<Rightarrow> returnS () | Some u \<Rightarrow> ensureModeAccounts u mode) (\<lambda>_ s.
       case find (\<lambda>a. la_kind a = kind \<and> la_label a = label \<and> la_mode a = mode \<and> (userId = None \<or> la_owner a = userId))
              (lg_accounts s) of
         None \<Rightarrow> (Inl (MissingLedgerAccount kind mode), s)
       | Some a \<Rightarrow> (Inr a, s))"

section \<open>Transfers\<close>

definition numeric2 :: "rat \<Rightarrow> int" where
  "numeric2 q = (if q < 0 then - \<lfloor>100 * (- q) + 1 / 2\<rfloor> else \<lfloor>100 * q + 1 / 2\<rfloor>)"

record TransferOpts =
  to_idempotencyKey :: string
  to_fromAccountId :: LedgerAccount
  to_toAccountId :: LedgerAccount
  to_amount :: rat
  to_referenceType :: "string option"
  to_referenceId :: "string option"

definition transfer :: "TransferOpts \<Rightarrow> nat ledgerM" where
  "transfer opts s =
     (if to_amount opts \<le> 0 then (Inl AmountNotPositive, s)
      else case find (\<lambda>t. lt_key t = to_idempotencyKey opts) (lg_transactions s) of
             Some t \<Rightarrow> (Inr (lt_id t), s)
           | None \<Rightarrow>
               let txId = length (lg_transactions s);
                   out = numeric2 (- to_amount opts);
                   inn = numeric2 (to_amount opts)
               in if out = 0 \<or> inn = 0 \<or> 10 ^ 18 \<le> \<bar>out\<bar> \<or> 10 ^ 18 \<le> \<bar>inn\<bar> then (Inl AmountColumn, s)
                  else (Inr txId,
                    s\<lparr>lg_transactions := lg_transactions s @ [\<lparr>lt_id = txId, lt_key = to_idempotencyKey opts,
                        lt_referenceType = to_referenceType opts, lt_referenceId = to_referenceId opts\<rparr>],
                      lg_entries := lg_entries s @ [\<lparr>en_transaction = txId, en_account = to_fromAccountId opts, en_amount = out\<rparr>,
                        \<lparr>en_transaction = txId, en_account = to_toAccountId opts, en_amount = inn\<rparr>]\<rparr>))"

definition pay :: "string \<Rightarrow> LedgerAccount \<Rightarrow> LedgerAccount \<Rightarrow> rat \<Rightarrow> string \<Rightarrow> string \<Rightarrow> nat option ledgerM" where
  "pay key a b amount refType refId =
     bindS (transfer \<lparr>to_idempotencyKey = key, to_fromAccountId = a, to_toAccountId = b, to_amount = amount,
              to_referenceType = Some refType, to_referenceId = Some refId\<rparr>) (\<lambda>t. returnS (Some t))"

section \<open>Operations\<close>

text \<open>\<open>lockBuyIn\<close> in two parts: everything up to the check of the balance, and the transfer. Nothing is locked between
  them.\<close>

definition buyInCheck :: "string \<Rightarrow> rat \<Rightarrow> ArenaMode option \<Rightarrow> (ArenaMode \<times> LedgerAccount \<times> LedgerAccount) ledgerM" where
  "buyInCheck userId amount mode =
     bindS (modeOr userId mode) (\<lambda>arenaMode.
     bindS (accountId (Some userId) User_available ''available'' arenaMode) (\<lambda>available.
     bindS (accountId (Some userId) User_table_escrow ''escrow'' arenaMode) (\<lambda>escrow.
     bindS (getAvailableBalance userId (Some arenaMode)) (\<lambda>bal.
       if bal < amount then throwS InsufficientBalance else returnS (arenaMode, available, escrow)))))"

definition buyInTransfer :: "rat \<Rightarrow> string \<Rightarrow> ArenaMode \<times> LedgerAccount \<times> LedgerAccount \<Rightarrow> nat option ledgerM" where
  "buyInTransfer amount sessionId checked =
     (case checked of (arenaMode, available, escrow) \<Rightarrow>
        pay (''buyin-'' @ mode_text arenaMode @ ''-'' @ sessionId) available escrow amount ''table_session'' sessionId)"

definition lockBuyIn :: "string \<Rightarrow> rat \<Rightarrow> string \<Rightarrow> ArenaMode option \<Rightarrow> nat option ledgerM" where
  "lockBuyIn userId amount sessionId mode = bindS (buyInCheck userId amount mode) (buyInTransfer amount sessionId)"

definition releaseSession :: "string \<Rightarrow> rat \<Rightarrow> string \<Rightarrow> ArenaMode option \<Rightarrow> nat option ledgerM" where
  "releaseSession userId amount sessionId mode =
     bindS (modeOr userId mode) (\<lambda>arenaMode.
     bindS (accountId (Some userId) User_table_escrow ''escrow'' arenaMode) (\<lambda>escrow.
       if amount \<le> 0 then returnS None
       else if arenaMode = Onchain_mode then
         bindS (accountId None System_clearing ''clearing'' Onchain_mode) (\<lambda>clearing.
           pay (''cashout-'' @ mode_text arenaMode @ ''-'' @ sessionId) escrow clearing amount ''table_session'' sessionId)
       else
         bindS (accountId (Some userId) User_available ''available'' arenaMode) (\<lambda>available.
           pay (''cashout-'' @ mode_text arenaMode @ ''-'' @ sessionId) escrow available amount ''table_session'' sessionId)))"

definition postRake :: "rat \<Rightarrow> string \<Rightarrow> ArenaMode \<Rightarrow> nat option ledgerM" where
  "postRake amount handId mode =
     (if amount \<le> 0 then returnS None
      else bindS (accountId None System_clearing ''clearing'' mode) (\<lambda>clearing.
           bindS (accountId None Platform_rake ''rake'' mode) (\<lambda>rake.
             pay (''rake-'' @ mode_text mode @ ''-'' @ handId) clearing rake amount ''hand'' handId)))"

definition fakeDeposit :: "string \<Rightarrow> rat \<Rightarrow> string \<Rightarrow> ArenaMode \<Rightarrow> nat option ledgerM" where
  "fakeDeposit userId amount key mode =
     (if mode \<noteq> Demo_mode then throwS PaperFundingDisabled
      else bindS (accountId (Some userId) User_available ''available'' Demo_mode) (\<lambda>available.
           bindS (accountId None System_clearing ''clearing'' Demo_mode) (\<lambda>clearing.
             pay key clearing available amount ''deposit'' key)))"

record StackChange =
  sc_userId :: string
  sc_prevStack :: rat
  sc_nextStack :: rat
  sc_mode :: "ArenaMode option"

definition changeMode :: "StackChange \<Rightarrow> ArenaMode option \<Rightarrow> ArenaMode ledgerM" where
  "changeMode c mode =
     (case (sc_mode c, mode) of
        (Some m, _) \<Rightarrow> returnS m
      | (None, Some m) \<Rightarrow> returnS m
      | (None, None) \<Rightarrow> if sc_userId c \<noteq> [] then getUserArenaMode (sc_userId c) else returnS Demo_mode)"

definition rebalanceOne :: "string \<Rightarrow> ArenaMode option \<Rightarrow> StackChange \<Rightarrow> unit ledgerM" where
  "rebalanceOne handId mode c =
     bindS (changeMode c mode) (\<lambda>arenaMode.
     bindS (accountId None System_clearing ''clearing'' arenaMode) (\<lambda>clearing.
       let delta = math_round (sc_nextStack c - sc_prevStack c);
           suffix = mode_text arenaMode @ ''-'' @ handId @ ''-'' @ sc_userId c
       in if delta = 0 \<or> sc_userId c = [] \<or> sc_userId c = ''bot'' then returnS ()
          else bindS (accountId (Some (sc_userId c)) User_table_escrow ''escrow'' arenaMode) (\<lambda>escrow.
            if delta < 0
            then bindS (pay (''hand-loss-'' @ suffix) escrow clearing (of_int (- delta)) ''hand'' handId) (\<lambda>_. returnS ())
            else bindS (pay (''hand-win-'' @ suffix) clearing escrow (of_int delta) ''hand'' handId) (\<lambda>_. returnS ()))))"

fun rebalanceEscrowToStacks :: "string \<Rightarrow> StackChange list \<Rightarrow> ArenaMode option \<Rightarrow> unit ledgerM" where
  "rebalanceEscrowToStacks handId [] mode = returnS ()"
| "rebalanceEscrowToStacks handId (c # cs) mode =
     bindS (rebalanceOne handId mode c) (\<lambda>_. rebalanceEscrowToStacks handId cs mode)"

section \<open>The mirror of the vault\<close>

text \<open>\<open>txHash.match(/^(0x[a-fA-F0-9]{64})/)\<close>: a prefix decides.\<close>

definition normalizeTxHash :: "string \<Rightarrow> ledger_error + string" where
  "normalizeTxHash txHash = (if is_hex32 (take 66 txHash) then Inr (js_lower (take 66 txHash)) else Inl NotATransactionHash)"

definition liftS :: "'e + 'a \<Rightarrow> 's \<Rightarrow> ('e + 'a) \<times> 's" where
  "liftS r s = (r, s)"

definition creditOnchainDeposit :: "string \<Rightarrow> rat \<Rightarrow> string \<Rightarrow> nat option ledgerM" where
  "creditOnchainDeposit userId amount txHash =
     bindS (liftS (normalizeTxHash txHash)) (\<lambda>hash.
     bindS (ensureModeAccounts userId Onchain_mode) (\<lambda>_.
     bindS (accountId (Some userId) User_available ''available'' Onchain_mode) (\<lambda>available.
     bindS (accountId None System_clearing ''clearing'' Onchain_mode) (\<lambda>clearing.
       pay (''onchain-deposit-'' @ hash) clearing available amount ''chain_deposit'' hash))))"

definition creditOnchainBuyInFromWallet :: "string \<Rightarrow> rat \<Rightarrow> string \<Rightarrow> int \<Rightarrow> nat option ledgerM" where
  "creditOnchainBuyInFromWallet userId amount txHash logIndex =
     bindS (liftS (normalizeTxHash txHash)) (\<lambda>hash.
       if amount \<le> 0 then returnS None
       else bindS (ensureModeAccounts userId Onchain_mode) (\<lambda>_.
            bindS (accountId (Some userId) User_available ''available'' Onchain_mode) (\<lambda>available.
            bindS (accountId None System_clearing ''clearing'' Onchain_mode) (\<lambda>clearing.
              pay (''onchain-buyin-wallet-'' @ hash @ ''-'' @ int_string logIndex) clearing available amount
                ''chain_buyin_lock'' (hash @ '':'' @ int_string logIndex)))))"

text \<open>Debits are capped by the mirrored balance.\<close>

definition debitCapped :: "string \<Rightarrow> rat \<Rightarrow> string \<Rightarrow> string \<Rightarrow> string \<Rightarrow> nat option ledgerM" where
  "debitCapped userId amount key refType refId =
     (if amount \<le> 0 then returnS None
      else bindS (ensureModeAccounts userId Onchain_mode) (\<lambda>_.
           bindS (accountId (Some userId) User_available ''available'' Onchain_mode) (\<lambda>available.
           bindS (accountId None System_clearing ''clearing'' Onchain_mode) (\<lambda>clearing.
           bindS (getAvailableBalance userId (Some Onchain_mode)) (\<lambda>bal.
             let debit = min amount bal
             in if debit \<le> 0 then returnS None else pay key available clearing debit refType refId)))))"

definition debitOnchainSessionPayout :: "string \<Rightarrow> rat \<Rightarrow> string \<Rightarrow> int \<Rightarrow> nat option ledgerM" where
  "debitOnchainSessionPayout userId amount txHash logIndex =
     bindS (liftS (normalizeTxHash txHash)) (\<lambda>hash.
       debitCapped userId amount (''onchain-payout-'' @ hash @ ''-'' @ int_string logIndex) ''chain_session_payout''
         (hash @ '':'' @ int_string logIndex))"

datatype debit_reason = Withdraw | Reorg

fun reason_text :: "debit_reason \<Rightarrow> string" where
  "reason_text Withdraw = ''withdraw''"
| "reason_text Reorg = ''reorg''"

definition debitOnchainWithdrawal :: "string \<Rightarrow> rat \<Rightarrow> string \<Rightarrow> debit_reason option \<Rightarrow> nat option ledgerM" where
  "debitOnchainWithdrawal userId amount txHash opts =
     bindS (liftS (normalizeTxHash txHash)) (\<lambda>hash.
       let reason = orElse opts Withdraw
       in debitCapped userId amount (''onchain-'' @ reason_text reason @ ''-'' @ hash)
            (if reason = Reorg then ''chain_reorg'' else ''chain_withdraw'') hash)"

section \<open>Calls\<close>

datatype ledger_call =
    SetUserArenaMode string ArenaMode
  | GetAvailableBalance string "ArenaMode option"
  | GetEscrowBalance string "ArenaMode option"
  | LockBuyIn string rat string "ArenaMode option"
  | ReleaseSession string rat string "ArenaMode option"
  | PostRake rat string ArenaMode
  | FakeDeposit string rat string ArenaMode
  | RebalanceEscrow string "StackChange list" "ArenaMode option"
  | CreditDeposit string rat string
  | CreditBuyIn string rat string int
  | DebitPayout string rat string int
  | DebitWithdrawal string rat string "debit_reason option"

fun perform :: "ledger_call \<Rightarrow> ledger \<Rightarrow> ledger" where
  "perform (SetUserArenaMode u m) s = snd (setUserArenaMode u m s)"
| "perform (GetAvailableBalance u m) s = snd (getAvailableBalance u m s)"
| "perform (GetEscrowBalance u m) s = snd (getEscrowBalance u m s)"
| "perform (LockBuyIn u q i m) s = snd (lockBuyIn u q i m s)"
| "perform (ReleaseSession u q i m) s = snd (releaseSession u q i m s)"
| "perform (PostRake q h m) s = snd (postRake q h m s)"
| "perform (FakeDeposit u q k m) s = snd (fakeDeposit u q k m s)"
| "perform (RebalanceEscrow h cs m) s = snd (rebalanceEscrowToStacks h cs m s)"
| "perform (CreditDeposit u q h) s = snd (creditOnchainDeposit u q h s)"
| "perform (CreditBuyIn u q h i) s = snd (creditOnchainBuyInFromWallet u q h i s)"
| "perform (DebitPayout u q h i) s = snd (debitOnchainSessionPayout u q h i s)"
| "perform (DebitWithdrawal u q h r) s = snd (debitOnchainWithdrawal u q h r s)"

section \<open>What a call may do to the tables\<close>

text \<open>Every call is a sequence of two kinds of steps: an account is opened, or a transaction with its two entries is posted
  under a fresh key. A step never takes more from a player's available balance than there is.\<close>

definition lg_keys :: "ledger \<Rightarrow> string set" where
  "lg_keys s = lt_key ` set (lg_transactions s)"

definition post :: "string \<Rightarrow> LedgerAccount \<Rightarrow> LedgerAccount \<Rightarrow> int \<Rightarrow> string option \<Rightarrow> string option \<Rightarrow> ledger \<Rightarrow> ledger" where
  "post key a b c rt ri s =
     (let txId = length (lg_transactions s)
      in s\<lparr>lg_transactions := lg_transactions s @ [\<lparr>lt_id = txId, lt_key = key, lt_referenceType = rt, lt_referenceId = ri\<rparr>],
           lg_entries := lg_entries s @ [\<lparr>en_transaction = txId, en_account = a, en_amount = - c\<rparr>,
             \<lparr>en_transaction = txId, en_account = b, en_amount = c\<rparr>]\<rparr>)"

definition covered :: "LedgerAccount \<Rightarrow> int \<Rightarrow> ledger \<Rightarrow> bool" where
  "covered a c s \<longleftrightarrow>
     (la_kind a = User_available \<longrightarrow> (\<exists>u. la_owner a = Some u \<and> c \<le> ownedCents User_available u (la_mode a) s))"

inductive ledger_step :: "ledger \<Rightarrow> ledger \<Rightarrow> bool" where
  opened: "ledger_step s (s\<lparr>lg_accounts := addAccount a (lg_accounts s)\<rparr>)"
| posted: "key \<notin> lg_keys s \<Longrightarrow> 0 < c \<Longrightarrow> a \<in> set (lg_accounts s) \<Longrightarrow> b \<in> set (lg_accounts s) \<Longrightarrow>
    la_kind a \<noteq> la_kind b \<Longrightarrow> la_mode a = la_mode b \<Longrightarrow> covered a c s \<Longrightarrow> ledger_step s (post key a b c rt ri s)"

text \<open>Weakest preconditions: \<open>wp m Q E s\<close> says that \<open>m\<close>, started in \<open>s\<close>, returns with \<open>Q\<close> or throws with \<open>E\<close>.\<close>

definition wp :: "'a ledgerM \<Rightarrow> ('a \<Rightarrow> ledger \<Rightarrow> bool) \<Rightarrow> (ledger \<Rightarrow> bool) \<Rightarrow> ledger \<Rightarrow> bool" where
  "wp m Q E s \<longleftrightarrow> (case m s of (Inl e, s') \<Rightarrow> E s' | (Inr x, s') \<Rightarrow> Q x s')"

text \<open>Opening accounts leaves balances and keys alone; \<open>settled E\<close> says that \<open>E\<close> does not depend on it.\<close>

definition grown :: "ledger \<Rightarrow> ledger \<Rightarrow> bool" where
  "grown s s' \<longleftrightarrow> ledger_step\<^sup>*\<^sup>* s s' \<and> set (lg_accounts s) \<subseteq> set (lg_accounts s') \<and>
     lg_transactions s' = lg_transactions s \<and> lg_entries s' = lg_entries s \<and> lg_profiles s' = lg_profiles s"

definition settled :: "(ledger \<Rightarrow> bool) \<Rightarrow> bool" where
  "settled E \<longleftrightarrow> (\<forall>s s'. E s \<longrightarrow> grown s s' \<longrightarrow> E s')"

text \<open>\<open>allows E key s\<close>: after opening accounts, a proper posting under \<open>key\<close> leads to \<open>E\<close>.\<close>

definition proper :: "LedgerAccount \<Rightarrow> LedgerAccount \<Rightarrow> int \<Rightarrow> ledger \<Rightarrow> bool" where
  "proper a b c s \<longleftrightarrow> 0 < c \<and> a \<in> set (lg_accounts s) \<and> b \<in> set (lg_accounts s) \<and> la_kind a \<noteq> la_kind b \<and>
     la_mode a = la_mode b \<and> covered a c s"

definition allows :: "(ledger \<Rightarrow> bool) \<Rightarrow> string \<Rightarrow> ledger \<Rightarrow> bool" where
  "allows E key s \<longleftrightarrow> (\<forall>s' a b c rt ri. grown s s' \<longrightarrow> proper a b c s' \<longrightarrow> key \<notin> lg_keys s' \<longrightarrow> E (post key a b c rt ri s'))"

lemma grown_refl [simp]: "grown s s"
  by (simp add: grown_def)

lemma grown_trans [trans]: "grown s s' \<Longrightarrow> grown s' s'' \<Longrightarrow> grown s s''"
  by (auto simp: grown_def)

lemma grownD:
  assumes "grown s s'"
  shows "settled E \<Longrightarrow> E s \<Longrightarrow> E s'" "a \<in> set (lg_accounts s) \<Longrightarrow> a \<in> set (lg_accounts s')"
    "ownedCents k u m s' = ownedCents k u m s" "covered a c s' \<longleftrightarrow> covered a c s" "lg_keys s' = lg_keys s"
    "allows E key s \<Longrightarrow> allows E key s'"
proof -
  show "settled E \<Longrightarrow> E s \<Longrightarrow> E s'" using assms by (auto simp: settled_def)
  show "allows E key s \<Longrightarrow> allows E key s'" unfolding allows_def using grown_trans [OF assms] by blast
qed (use assms in \<open>auto simp: grown_def ownedCents_def covered_def lg_keys_def\<close>)

lemma wp_bindS [simp]: "wp (bindS m f) Q E s \<longleftrightarrow> wp m (\<lambda>x. wp (f x) Q E) E s"
  by (auto simp: wp_def bindS_def split: prod.splits sum.splits)

lemma wp_basic [simp]:
  "wp (returnS x) Q E = Q x" "wp (throwS e) Q E = E" "wp (\<lambda>s. (Inr (g s), s)) Q E s \<longleftrightarrow> Q (g s) s"
  "wp (liftS r) Q E s \<longleftrightarrow> (case r of Inl e \<Rightarrow> E s | Inr x \<Rightarrow> Q x s)"
  by (auto simp: wp_def returnS_def throwS_def liftS_def fun_eq_iff split: sum.splits)

lemma wp_weaken: "wp m P E s \<Longrightarrow> (\<And>x s'. P x s' \<Longrightarrow> Q x s') \<Longrightarrow> wp m Q E s"
  by (auto simp: wp_def split: prod.splits sum.splits)

lemma grown_open: "grown s (s\<lparr>lg_accounts := addAccount a (lg_accounts s)\<rparr>)"
  using opened [of s a] by (auto simp: grown_def addAccount_def)

lemma grown_ensure: "grown s (snd (ensureModeAccounts u m s))"
proof -
  have "grown s (s\<lparr>lg_accounts := addAccount d (addAccount c (addAccount b (addAccount a (lg_accounts s))))\<rparr>)" for a b c d
    using grown_open [of s a] grown_open [of "s\<lparr>lg_accounts := addAccount a (lg_accounts s)\<rparr>" b]
      grown_open [of "s\<lparr>lg_accounts := addAccount b (addAccount a (lg_accounts s))\<rparr>" c]
      grown_open [of "s\<lparr>lg_accounts := addAccount c (addAccount b (addAccount a (lg_accounts s)))\<rparr>" d]
    by (auto intro: grown_trans)
  then show ?thesis by (simp add: ensureModeAccounts_def)
qed

lemma wp_ensure: "settled E \<Longrightarrow> E s \<Longrightarrow> (\<And>s'. grown s s' \<Longrightarrow> Q () s') \<Longrightarrow> wp (ensureModeAccounts u m) Q E s"
  using grown_ensure [of s u m] by (auto simp: wp_def grownD split: prod.splits sum.splits)

text \<open>The economy a call works in.\<close>

definition modeOf :: "string \<Rightarrow> ArenaMode option \<Rightarrow> ledger \<Rightarrow> ArenaMode" where
  "modeOf u mo s = (case mo of Some m \<Rightarrow> m | None \<Rightarrow> economyForProfile
     (parseProfileKind (map_option (\<lambda>k. orElse k ''demo'') (map_of (lg_profiles s) u)) Demo_profile))"

lemma wp_mode [simp]: "wp (modeOr u mo) Q E s \<longleftrightarrow> Q (modeOf u mo s) s"
  by (auto simp: modeOr_def modeOf_def getUserArenaMode_def getProfileKind_def wp_def bindS_def returnS_def split: option.splits)

lemma wp_accountId:
  assumes "settled E" "E s"
    and "\<And>a s'. grown s s' \<Longrightarrow> a \<in> set (lg_accounts s') \<Longrightarrow> la_kind a = k \<Longrightarrow> la_mode a = m \<Longrightarrow>
      (\<And>w. u = Some w \<Longrightarrow> la_owner a = Some w) \<Longrightarrow> Q a s'"
  shows "wp (accountId u k l m) Q E s"
proof -
  have "wp (\<lambda>s'. case find (\<lambda>a. la_kind a = k \<and> la_label a = l \<and> la_mode a = m \<and> (u = None \<or> la_owner a = u)) (lg_accounts s') of
         None \<Rightarrow> (Inl (MissingLedgerAccount k m), s') | Some a \<Rightarrow> (Inr a, s')) Q E s'" if "grown s s'" for s'
    using assms that grownD(1) [OF that assms(1,2)]
    by (auto simp: wp_def find_Some_iff split: option.splits)
  then show ?thesis
    using assms(1,2) by (auto simp: accountId_def intro!: wp_ensure split: option.splits)
qed

lemma wp_available:
  assumes "settled E" "E s" "\<And>s'. grown s s' \<Longrightarrow> Q (of_int (ownedCents User_available u m s) / 100) s'"
  shows "wp (getAvailableBalance u (Some m)) Q E s"
  unfolding getAvailableBalance_def using assms
  by (auto simp: modeOf_def grownD(3) intro!: wp_ensure)

lemma numeric2_neg: "0 < q \<Longrightarrow> numeric2 (- q) = - numeric2 q"
  by (simp add: numeric2_def)

lemma numeric2_le: "0 < q \<Longrightarrow> q \<le> of_int c / 100 \<Longrightarrow> numeric2 q \<le> c"
  by (simp add: numeric2_def floor_le_iff)

lemma numeric2_nonneg: "0 < q \<Longrightarrow> 0 \<le> numeric2 q"
  by (simp add: numeric2_def)

lemma numeric2_pos: "0 < numeric2 q \<Longrightarrow> 0 < q"
  by (rule ccontr) (auto simp: numeric2_def not_less split: if_splits)

lemma transfer_cases:
  obtains (same) "snd (transfer opts s) = s"
  | (posted) "to_idempotencyKey opts \<notin> lg_keys s" "0 < to_amount opts" "0 < numeric2 (to_amount opts)"
      "transfer opts s = (Inr (length (lg_transactions s)), post (to_idempotencyKey opts) (to_fromAccountId opts) (to_toAccountId opts)
         (numeric2 (to_amount opts)) (to_referenceType opts) (to_referenceId opts) s)"
proof (cases "snd (transfer opts s) = s")
  case False
  then have amt: "0 < to_amount opts" by (auto simp: transfer_def split: if_splits)
  have fresh: "find (\<lambda>t. lt_key t = to_idempotencyKey opts) (lg_transactions s) = None"
    using False by (auto simp: transfer_def split: option.splits if_splits)
  have pos: "0 < numeric2 (to_amount opts)" and fits: "\<bar>numeric2 (to_amount opts)\<bar> < 10 ^ 18"
    using False numeric2_nonneg [OF amt] amt fresh by (auto simp: transfer_def Let_def split: if_splits)
  have key: "to_idempotencyKey opts \<notin> lg_keys s" using fresh by (auto simp: lg_keys_def find_None_iff)
  show thesis
    using amt pos fits fresh by (intro posted [OF key]) (simp_all add: transfer_def Let_def post_def numeric2_neg)
qed (rule same)

lemma wp_pay:
  assumes "E s" "allows E key s" "0 < numeric2 q \<Longrightarrow> proper a b (numeric2 q) s"
  shows "wp (pay key a b q rt ri) (\<lambda>_. E) E s"
proof -
  let ?opts = "\<lparr>to_idempotencyKey = key, to_fromAccountId = a, to_toAccountId = b, to_amount = q,
    to_referenceType = Some rt, to_referenceId = Some ri\<rparr>"
  have "E (snd (transfer ?opts s))"
  proof (cases rule: transfer_cases [of ?opts s])
    case posted
    then show ?thesis using assms(2,3) by (auto simp: allows_def)
  qed (simp add: assms(1))
  then show ?thesis by (auto simp: pay_def wp_def bindS_def returnS_def split: prod.splits sum.splits)
qed

lemma covered_cents:
  "0 < numeric2 q \<Longrightarrow> q \<le> of_int (ownedCents User_available u m s) / 100 \<Longrightarrow> la_owner a = Some u \<Longrightarrow> la_mode a = m \<Longrightarrow> covered a (numeric2 q) s"
  using numeric2_pos by (auto simp: covered_def numeric2_le)

lemma covered_enough:
  "la_owner a \<noteq> None \<Longrightarrow> 0 < numeric2 q \<Longrightarrow> \<not> of_int (ownedCents User_available (the (la_owner a)) (la_mode a) s) < q * 100 \<Longrightarrow>
     covered a (numeric2 q) s"
  using covered_cents [of q "the (la_owner a)" "la_mode a" s a] by auto

lemma covered_capped:
  "0 < numeric2 (min q (of_int (ownedCents User_available u m s) / 100)) \<Longrightarrow> la_owner a = Some u \<Longrightarrow> la_mode a = m \<Longrightarrow>
     covered a (numeric2 (min q (of_int (ownedCents User_available u m s) / 100))) s"
  by (rule covered_cents) auto

lemma covered_other: "la_kind a \<noteq> User_available \<Longrightarrow> covered a c s"
  by (simp add: covered_def)

lemmas wp_intros = wp_ensure wp_accountId wp_available wp_pay

text \<open>The calls, one by one.\<close>

lemma wp_lockBuyIn:
  "settled E \<Longrightarrow> E s \<Longrightarrow> allows E (''buyin-'' @ mode_text (modeOf u mo s) @ ''-'' @ i) s \<Longrightarrow> wp (lockBuyIn u q i mo) (\<lambda>_. E) E s"
  by (auto simp: lockBuyIn_def buyInCheck_def buyInTransfer_def grownD proper_def intro!: wp_intros covered_enough)

lemma wp_releaseSession:
  "settled E \<Longrightarrow> E s \<Longrightarrow> allows E (''cashout-'' @ mode_text (modeOf u mo s) @ ''-'' @ i) s \<Longrightarrow> wp (releaseSession u q i mo) (\<lambda>_. E) E s"
  by (auto simp: releaseSession_def grownD proper_def intro!: wp_intros covered_other)

lemma wp_postRake:
  "settled E \<Longrightarrow> E s \<Longrightarrow> allows E (''rake-'' @ mode_text m @ ''-'' @ h) s \<Longrightarrow> wp (postRake q h m) (\<lambda>_. E) E s"
  by (auto simp: postRake_def grownD proper_def intro!: wp_intros covered_other)

lemma wp_fakeDeposit: "settled E \<Longrightarrow> E s \<Longrightarrow> allows E k s \<Longrightarrow> wp (fakeDeposit u q k m) (\<lambda>_. E) E s"
  by (auto simp: fakeDeposit_def grownD proper_def intro!: wp_intros covered_other)

lemma wp_deposit:
  "settled E \<Longrightarrow> E s \<Longrightarrow> (\<And>x. normalizeTxHash h = Inr x \<Longrightarrow> allows E (''onchain-deposit-'' @ x) s) \<Longrightarrow>
     wp (creditOnchainDeposit u q h) (\<lambda>_. E) E s"
  by (auto simp: creditOnchainDeposit_def grownD proper_def intro!: wp_intros covered_other split: sum.splits)

lemma wp_buyIn:
  "settled E \<Longrightarrow> E s \<Longrightarrow> (\<And>x. normalizeTxHash h = Inr x \<Longrightarrow> allows E (''onchain-buyin-wallet-'' @ x @ ''-'' @ int_string i) s) \<Longrightarrow>
     wp (creditOnchainBuyInFromWallet u q h i) (\<lambda>_. E) E s"
  by (auto simp: creditOnchainBuyInFromWallet_def grownD proper_def intro!: wp_intros covered_other split: sum.splits)

lemma wp_debitCapped: "settled E \<Longrightarrow> E s \<Longrightarrow> allows E k s \<Longrightarrow> wp (debitCapped u q k rt ri) (\<lambda>_. E) E s"
  by (auto simp: debitCapped_def Let_def grownD proper_def intro!: wp_intros covered_capped)

lemma wp_payout:
  "settled E \<Longrightarrow> E s \<Longrightarrow> (\<And>x. normalizeTxHash h = Inr x \<Longrightarrow> allows E (''onchain-payout-'' @ x @ ''-'' @ int_string i) s) \<Longrightarrow>
     wp (debitOnchainSessionPayout u q h i) (\<lambda>_. E) E s"
  by (auto simp: debitOnchainSessionPayout_def intro!: wp_debitCapped split: sum.splits)

lemma wp_withdrawal:
  "settled E \<Longrightarrow> E s \<Longrightarrow> (\<And>x. normalizeTxHash h = Inr x \<Longrightarrow> allows E (''onchain-'' @ reason_text (orElse r Withdraw) @ ''-'' @ x) s) \<Longrightarrow>
     wp (debitOnchainWithdrawal u q h r) (\<lambda>_. E) E s"
  by (auto simp: debitOnchainWithdrawal_def Let_def intro!: wp_debitCapped split: sum.splits)

lemma wp_changeMode [simp]:
  "wp (changeMode c mo) Q E s \<longleftrightarrow>
     Q (case sc_mode c of Some m \<Rightarrow> m
        | None \<Rightarrow> case mo of Some m \<Rightarrow> m | None \<Rightarrow> if sc_userId c \<noteq> [] then modeOf (sc_userId c) None s else Demo_mode) s"
  by (auto simp: changeMode_def modeOf_def getUserArenaMode_def getProfileKind_def wp_def bindS_def returnS_def split: option.splits)

lemma wp_rebalanceOne: "settled E \<Longrightarrow> E s \<Longrightarrow> (\<And>k. allows E k s) \<Longrightarrow> wp (rebalanceOne h mo c) (\<lambda>_. E) E s"
  by (auto simp: rebalanceOne_def Let_def grownD proper_def intro!: wp_intros covered_other)

lemma wp_rebalance:
  "settled E \<Longrightarrow> E s \<Longrightarrow> (\<And>k s. E s \<Longrightarrow> allows E k s) \<Longrightarrow> wp (rebalanceEscrowToStacks h cs mo) (\<lambda>_. E) E s"
  by (induction cs arbitrary: s) (auto intro: wp_weaken [OF wp_rebalanceOne])

lemma wp_queries:
  "settled E \<Longrightarrow> E s \<Longrightarrow> wp (setUserArenaMode u m) (\<lambda>_. E) E s"
  "settled E \<Longrightarrow> E s \<Longrightarrow> wp (getAvailableBalance u mo) (\<lambda>_. E) E s"
  "settled E \<Longrightarrow> E s \<Longrightarrow> wp (getEscrowBalance u mo) (\<lambda>_. E) E s"
  by (auto simp: setUserArenaMode_def wp_def [of "getProfileKind u"] getProfileKind_def getAvailableBalance_def getEscrowBalance_def
      grownD intro!: wp_ensure)

lemma wp_end: "wp m (\<lambda>_. E) E s \<Longrightarrow> E (snd (m s))"
  by (auto simp: wp_def split: prod.splits sum.splits)

text \<open>The key of a call that posts at most once.\<close>

fun callKey :: "ledger_call \<Rightarrow> ledger \<Rightarrow> string option" where
  "callKey (LockBuyIn u q i mo) s = Some (''buyin-'' @ mode_text (modeOf u mo s) @ ''-'' @ i)"
| "callKey (ReleaseSession u q i mo) s = Some (''cashout-'' @ mode_text (modeOf u mo s) @ ''-'' @ i)"
| "callKey (PostRake q h m) s = Some (''rake-'' @ mode_text m @ ''-'' @ h)"
| "callKey (FakeDeposit u q k m) s = Some k"
| "callKey (CreditDeposit u q h) s = Some (''onchain-deposit-'' @ js_lower (take 66 h))"
| "callKey (CreditBuyIn u q h i) s = Some (''onchain-buyin-wallet-'' @ js_lower (take 66 h) @ ''-'' @ int_string i)"
| "callKey (DebitPayout u q h i) s = Some (''onchain-payout-'' @ js_lower (take 66 h) @ ''-'' @ int_string i)"
| "callKey (DebitWithdrawal u q h r) s = Some (''onchain-'' @ reason_text (orElse r Withdraw) @ ''-'' @ js_lower (take 66 h))"
| "callKey (SetUserArenaMode u m) s = None"
| "callKey (GetAvailableBalance u mo) s = None"
| "callKey (GetEscrowBalance u mo) s = None"
| "callKey (RebalanceEscrow h cs mo) s = None"

lemma perform_wp:
  assumes "settled E" "E s" "\<And>k. callKey call s = Some k \<Longrightarrow> allows E k s"
    and "\<And>h cs mo k s. call = RebalanceEscrow h cs mo \<Longrightarrow> E s \<Longrightarrow> allows E k s"
  shows "E (perform call s)"
proof (cases call)
  case (RebalanceEscrow h cs mo)
  then show ?thesis using wp_end [OF wp_rebalance [OF assms(1,2)]] assms(4) by simp
qed (use assms in \<open>auto intro!: wp_queries [THEN wp_end, of E] wp_lockBuyIn [THEN wp_end, of E] wp_releaseSession [THEN wp_end, of E]
    wp_postRake [THEN wp_end, of E] wp_fakeDeposit [THEN wp_end, of E] wp_deposit [THEN wp_end, of E] wp_buyIn [THEN wp_end, of E]
    wp_payout [THEN wp_end, of E] wp_withdrawal [THEN wp_end, of E] simp: normalizeTxHash_def split: if_splits\<close>)

lemma perform_reach: "ledger_step\<^sup>*\<^sup>* s (perform call s)"
proof (rule perform_wp)
  show "settled (ledger_step\<^sup>*\<^sup>* s)" by (auto simp: settled_def grown_def)
  fix k s' assume "ledger_step\<^sup>*\<^sup>* s s'"
  then show "allows (ledger_step\<^sup>*\<^sup>* s) k s'"
    by (auto simp: allows_def grown_def proper_def intro: ledger_step.posted rtranclp.rtrancl_into_rtrancl rtranclp_trans)
qed (auto simp: allows_def grown_def proper_def intro: ledger_step.posted rtranclp.rtrancl_into_rtrancl)

section \<open>The books\<close>

definition newLedger :: "(string \<times> string option) list \<Rightarrow> ledger" where
  "newLedger profiles = \<lparr>lg_profiles = profiles, lg_accounts = [], lg_transactions = [], lg_entries = []\<rparr>"

definition performAll :: "ledger_call list \<Rightarrow> ledger \<Rightarrow> ledger" where
  "performAll calls s = fold perform calls s"

definition entriesOf :: "nat \<Rightarrow> ledger \<Rightarrow> LedgerEntry list" where
  "entriesOf t s = filter (\<lambda>e. en_transaction e = t) (lg_entries s)"

definition accountCents :: "LedgerAccount \<Rightarrow> ledger \<Rightarrow> int" where
  "accountCents a s = sum_list (map en_amount (filter (\<lambda>e. en_account e = a) (lg_entries s)))"

definition modeCents :: "ArenaMode \<Rightarrow> ledger \<Rightarrow> int" where
  "modeCents m s = sum_list (map en_amount (filter (\<lambda>e. la_mode (en_account e) = m) (lg_entries s)))"

text \<open>Transaction \<open>t\<close> moves a positive amount from one account to another of the same economy, and does nothing else.\<close>

definition doubleEntry :: "nat \<Rightarrow> ledger \<Rightarrow> bool" where
  "doubleEntry t s \<longleftrightarrow> (\<exists>a b c. 0 < c \<and> a \<in> set (lg_accounts s) \<and> b \<in> set (lg_accounts s) \<and> a \<noteq> b \<and> la_mode a = la_mode b \<and>
     entriesOf t s = [\<lparr>en_transaction = t, en_account = a, en_amount = - c\<rparr>, \<lparr>en_transaction = t, en_account = b, en_amount = c\<rparr>])"

definition books :: "ledger \<Rightarrow> bool" where
  "books s \<longleftrightarrow> map lt_id (lg_transactions s) = [0..<length (lg_transactions s)] \<and> distinct (map lt_key (lg_transactions s)) \<and>
     (\<forall>e \<in> set (lg_entries s). en_transaction e < length (lg_transactions s)) \<and>
     (\<forall>t < length (lg_transactions s). doubleEntry t s) \<and> (\<forall>m. modeCents m s = 0) \<and>
     (\<forall>u m. 0 \<le> ownedCents User_available u m s)"

lemma sums_post [simp]:
  "ownedCents k u m (post key a b c rt ri s) = ownedCents k u m s
     - (if la_owner a = Some u \<and> la_kind a = k \<and> la_mode a = m then c else 0)
     + (if la_owner b = Some u \<and> la_kind b = k \<and> la_mode b = m then c else 0)"
  "accountCents x (post key a b c rt ri s) = accountCents x s - (if a = x then c else 0) + (if b = x then c else 0)"
  "modeCents m (post key a b c rt ri s) = modeCents m s - (if la_mode a = m then c else 0) + (if la_mode b = m then c else 0)"
  by (simp_all add: post_def Let_def ownedCents_def accountCents_def modeCents_def)

lemma entriesOf_post [simp]:
  "entriesOf t (post key a b c rt ri s) = entriesOf t s @ (if t = length (lg_transactions s)
     then [\<lparr>en_transaction = t, en_account = a, en_amount = - c\<rparr>, \<lparr>en_transaction = t, en_account = b, en_amount = c\<rparr>] else [])"
  by (simp add: post_def Let_def entriesOf_def)

lemma sums_opened [simp]:
  "ownedCents k u m (s\<lparr>lg_accounts := as\<rparr>) = ownedCents k u m s" "accountCents x (s\<lparr>lg_accounts := as\<rparr>) = accountCents x s"
  "modeCents m (s\<lparr>lg_accounts := as\<rparr>) = modeCents m s" "entriesOf t (s\<lparr>lg_accounts := as\<rparr>) = entriesOf t s"
  by (simp_all add: ownedCents_def accountCents_def modeCents_def entriesOf_def)

lemma ownedCents_covered:
  "covered a c s \<Longrightarrow> \<forall>u m. 0 \<le> ownedCents User_available u m s \<Longrightarrow> 0 < c \<Longrightarrow> 0 \<le> ownedCents User_available u m (post key a b c rt ri s)"
  by (auto simp: covered_def)

lemma books_step: "ledger_step s s' \<Longrightarrow> books s \<Longrightarrow> books s'"
proof (induction rule: ledger_step.induct)
  case (opened s a)
  then show ?case by (auto simp: books_def doubleEntry_def addAccount_def)
next
  case (posted key s c a b rt ri)
  let ?s' = "post key a b c rt ri s" and ?n = "length (lg_transactions s)"
  have shape: "lg_transactions ?s' = lg_transactions s @ [\<lparr>lt_id = ?n, lt_key = key, lt_referenceType = rt, lt_referenceId = ri\<rparr>]"
    "lg_accounts ?s' = lg_accounts s"
    by (simp_all add: post_def Let_def)
  have new: "entriesOf ?n s = []" using posted.prems by (auto simp: books_def entriesOf_def filter_empty_conv)
  have double: "doubleEntry t ?s'" if "t < Suc ?n" for t
  proof (cases "t = ?n")
    case True
    then show ?thesis using posted.hyps new by (auto simp: doubleEntry_def shape)
  next
    case False
    then have "doubleEntry t s" using posted.prems that by (simp add: books_def)
    then show ?thesis using False by (simp add: doubleEntry_def shape)
  qed
  have entries: "\<forall>e \<in> set (lg_entries ?s'). en_transaction e < Suc ?n"
    using posted.prems by (auto simp: books_def post_def Let_def less_SucI)
  show ?case
    using posted.prems posted.hyps double entries ownedCents_covered [OF posted.hyps(7)]
    by (auto simp: books_def shape lg_keys_def simp del: sums_post(1))
qed

lemma books_run: "ledger_step\<^sup>*\<^sup>* s s' \<Longrightarrow> books s \<Longrightarrow> books s'"
  by (induction rule: rtranclp_induct) (auto intro: books_step)

lemma performAll_reach: "ledger_step\<^sup>*\<^sup>* s (performAll calls s)"
proof (induction calls arbitrary: s)
  case (Cons c calls)
  then show ?case using rtranclp_trans [OF perform_reach [of s c]] by (simp add: performAll_def)
qed (simp add: performAll_def)

section \<open>The ledger as a bank\<close>

record bank =
  bk_balance :: "LedgerAccount \<Rightarrow> int"
  bk_used :: "string set"

definition bankOf :: "ledger \<Rightarrow> bank" where
  "bankOf s = \<lparr>bk_balance = \<lambda>a. accountCents a s, bk_used = lg_keys s\<rparr>"

inductive bank_step :: "bank \<Rightarrow> bank \<Rightarrow> bool" where
  move: "key \<notin> bk_used B \<Longrightarrow> 0 < c \<Longrightarrow> a \<noteq> b \<Longrightarrow> la_mode a = la_mode b \<Longrightarrow>
    bank_step B (B\<lparr>bk_balance := (bk_balance B)(a := bk_balance B a - c, b := bk_balance B b + c), bk_used := insert key (bk_used B)\<rparr>)"

lemma bankOf_post:
  "a \<noteq> b \<Longrightarrow> bankOf (post key a b c rt ri s) =
     (bankOf s)\<lparr>bk_balance := (bk_balance (bankOf s))(a := accountCents a s - c, b := accountCents b s + c), bk_used := insert key (lg_keys s)\<rparr>"
  by (auto simp: bankOf_def fun_eq_iff) (auto simp: post_def Let_def lg_keys_def)

lemma bank_step_post:
  assumes "proper a b c s" "key \<notin> lg_keys s"
  shows "bank_step (bankOf s) (bankOf (post key a b c rt ri s))"
proof -
  have "a \<noteq> b" using assms(1) by (auto simp: proper_def)
  from bank_step.move [of key "bankOf s" c a b] show ?thesis
    unfolding bankOf_post [OF \<open>a \<noteq> b\<close>] using assms by (simp add: proper_def bankOf_def) (metis \<open>a \<noteq> b\<close>)
qed

lemma bankOf_grown: "grown s s' \<Longrightarrow> bankOf s' = bankOf s"
  by (simp add: grown_def bankOf_def accountCents_def lg_keys_def)

lemma bank_reach: "ledger_step\<^sup>*\<^sup>* s s' \<Longrightarrow> bank_step\<^sup>*\<^sup>* (bankOf s) (bankOf s')"
proof (induction rule: rtranclp_induct)
  case (step t u)
  from step(2) have "bank_step\<^sup>*\<^sup>* (bankOf t) (bankOf u)"
  proof cases
    case (opened a)
    then show ?thesis by (simp add: bankOf_def lg_keys_def)
  next
    case (posted key c a b rt ri)
    then have "bank_step (bankOf t) (bankOf u)" using bank_step_post [of a b c t key rt ri] by (simp add: proper_def)
    then show ?thesis by blast
  qed
  with step(3) show ?case by (rule rtranclp_trans)
qed simp

text \<open>A call with a key posts under this key, at most once, or leaves the bank as it was.\<close>

definition once :: "string \<Rightarrow> bank \<Rightarrow> ledger \<Rightarrow> bool" where
  "once k B s \<longleftrightarrow> bankOf s = B \<or> (k \<notin> bk_used B \<and> bank_step B (bankOf s) \<and> bk_used (bankOf s) = insert k (bk_used B))"

lemma perform_once:
  assumes "callKey call s = Some k"
  shows "once k (bankOf s) (perform call s)"
proof (rule perform_wp)
  show "settled (once k (bankOf s))" by (auto simp: settled_def once_def bankOf_grown)
  show "once k (bankOf s) s" by (simp add: once_def)
  fix key assume key: "callKey call s = Some key"
  show "allows (once k (bankOf s)) key s"
    unfolding allows_def
  proof (intro allI impI)
    fix s' a b c rt ri
    assume s': "grown s s'" "proper a b c s'" "key \<notin> lg_keys s'"
    then have "bank_step (bankOf s') (bankOf (post key a b c rt ri s'))" "key \<notin> lg_keys s" "bankOf s' = bankOf s"
      using bank_step_post [OF s'(2,3)] bankOf_grown [OF s'(1)] grownD(5) [OF s'(1)] by simp_all
    then have "bank_step (bankOf s) (bankOf (post key a b c rt ri s'))" "k \<notin> lg_keys s" using key assms by simp_all
    moreover have "bk_used (bankOf (post key a b c rt ri s')) = insert k (lg_keys s)"
      using \<open>grown s s'\<close> key assms by (simp add: bankOf_def post_def Let_def lg_keys_def grown_def)
    ultimately show "once k (bankOf s) (post key a b c rt ri s')" by (simp add: once_def bankOf_def)
  qed
qed (use assms in auto)

section \<open>Properties\<close>

text \<open>C26: The books always balance. Whatever calls are made, one after the other, on a new ledger: in each economy the
  entries sum to zero; every transaction consists of exactly two entries that move a positive amount between two different
  existing accounts of one economy; no idempotency key is used twice; and no player's available balance is negative.\<close>

theorem books_balance:
  "books (performAll calls (newLedger profiles))"
proof (rule books_run [OF performAll_reach])
  show "books (newLedger profiles)"
    by (simp add: books_def newLedger_def modeCents_def ownedCents_def)
qed

text \<open>C27: The ledger refines a bank with idempotency keys. Every call is a sequence of moves of the bank, each under a fresh
  key; a call that carries a key makes at most one move, under its own key, and once the key is used the call changes no
  balance any more, whatever its other arguments are.\<close>

theorem ledger_refines_bank:
  assumes "callKey call s = Some k"
  shows "bank_step\<^sup>*\<^sup>* (bankOf s) (bankOf (perform other s)) \<and>
    (bankOf (perform call s) = bankOf s \<or>
       bank_step (bankOf s) (bankOf (perform call s)) \<and> bk_used (bankOf (perform call s)) = insert k (bk_used (bankOf s))) \<and>
    (k \<in> bk_used (bankOf s) \<longrightarrow> bankOf (perform call s) = bankOf s)"
  using perform_once [OF assms] bank_reach [OF perform_reach [of s other]] by (auto simp: once_def)

theorem ledger_refines_bank_witness:
  "let s = newLedger [(''p'', None)]; call = FakeDeposit ''p'' 25 ''k'' Demo_mode
   in bk_balance (bankOf (perform call (perform call s))) (userAccount ''p'' User_available ''available'' Demo_mode) = 2500"
proof -
  let ?s = "newLedger [(''p'', None)]" and ?call = "FakeDeposit ''p'' 25 ''k'' Demo_mode"
  let ?s1 = "perform ?call ?s"
  have one: "''k'' \<in> bk_used (bankOf ?s1)"
    "bk_balance (bankOf ?s1) (userAccount ''p'' User_available ''available'' Demo_mode) = 2500"
    by code_simp+
  then show ?thesis using ledger_refines_bank [of ?call ?s1 "''k''" ?call] by (simp add: Let_def del: perform.simps)
qed

text \<open>The check of a buy-in and its transfer are not one step. A player with ten dollars whose two buy-ins of ten dollars
  for different sessions are checked before either is transferred passes both checks, and is left with a negative available
  balance; in sequence the second buy-in is refused.\<close>

definition demo_rich :: ledger where
  "demo_rich = perform (FakeDeposit ''p'' 10 ''k'' Demo_mode) (newLedger [(''p'', None)])"

theorem concurrent_buyins_overdraw:
  "case buyInCheck ''p'' 10 None demo_rich of (first, s1) \<Rightarrow>
     (case buyInCheck ''p'' 10 None s1 of (second, s2) \<Rightarrow>
        (case (first, second) of
           (Inr x, Inr y) \<Rightarrow>
             ownedCents User_available ''p'' Demo_mode (snd (buyInTransfer 10 ''t2'' y (snd (buyInTransfer 10 ''t1'' x s2)))) = - 1000
         | _ \<Rightarrow> False)) \<and>
     fst (lockBuyIn ''p'' 10 ''t2'' None (snd (lockBuyIn ''p'' 10 ''t1'' None demo_rich))) = Inl InsufficientBalance"
  by code_simp

end
