(* ===== verification/Indexer.thy ===== *)
theory Indexer
  imports Ledger
begin

text \<open>
  \<^verbatim>\<open>services/chain-indexer/src\<close> (\<^verbatim>\<open>persist.ts\<close>, \<^verbatim>\<open>cursor.ts\<close>, \<^verbatim>\<open>reorg.ts\<close>, \<^verbatim>\<open>money.ts\<close>, \<^verbatim>\<open>projections.ts\<close>, the log
  processing of \<^verbatim>\<open>tick.ts\<close>): the only writer of the on-chain mirror of the ledger.

  Tables are lists of rows in the order of creation; a statement \<open>on conflict ... do nothing\<close> or \<open>do update\<close> acts on
  the row with the same key. The chain is a parameter: its head, the hash of a block (\<open>None\<close> when the block is not
  found) and the logs of an event in a range of blocks (\<open>None\<close> when the request fails). \<open>Number(formatUnits(x, 6))\<close> is
  the rational \<open>x / 10 ^ 6\<close>. Metrics, log lines, the display snapshots of net worth and the periodic reconciliation run
  are not part of the model.
\<close>

section \<open>Logs and tables\<close>

record LogArgs =
  ag_user :: "string option"
  ag_player :: "string option"
  ag_to :: "string option"
  ag_amount :: "int option"
  ag_fromWallet :: "int option"
  ag_sessionId :: "string option"
  ag_templateId :: "string option"
  ag_state :: "int option"

record ChainLog =
  lo_transactionHash :: "string option"
  lo_logIndex :: "int option"
  lo_blockNumber :: "int option"
  lo_blockHash :: "string option"
  lo_address :: string
  lo_eventName :: "string option"
  lo_args :: LogArgs
  lo_removed :: bool

record ChainEvent =
  ce_chainId :: int
  ce_txHash :: string
  ce_logIndex :: int
  ce_blockNumber :: int
  ce_blockHash :: "string option"
  ce_address :: string
  ce_eventName :: string
  ce_args :: LogArgs
  ce_removed :: bool

record VaultRow =
  vr_chainId :: int
  vr_txHash :: string
  vr_logIndex :: int
  vr_blockNumber :: int
  vr_wallet :: string
  vr_to :: "string option"
  vr_amountRaw :: int
  vr_amountUsdc :: rat
  vr_profileId :: "string option"
  vr_mirrored :: bool

record CursorRow =
  cu_chainId :: int
  cu_lastBlock :: int
  cu_lastLogIndex :: int
  cu_vault :: "string option"
  cu_deploymentBlock :: int

record ReorgRow =
  rg_chainId :: int
  rg_fromBlock :: int
  rg_reason :: string

record SessionRow =
  or_sessionId :: string
  or_chainId :: int
  or_template :: string
  or_openTx :: "string option"
  or_openBlock :: "int option"
  or_status :: string
  or_settlementTx :: "string option"

record BatchRow =
  mb_sessionId :: string
  mb_status :: string
  mb_openTx :: "string option"

record indexer_db =
  ix_ledger :: ledger
  ix_events :: "ChainEvent list"
  ix_deposits :: "VaultRow list"
  ix_withdrawals :: "VaultRow list"
  ix_cursors :: "CursorRow list"
  ix_reorgs :: "ReorgRow list"
  ix_wallets :: "(string \<times> string) list"
  ix_arena :: "(int \<times> string \<times> string) list"
  ix_sessions :: "SessionRow list"
  ix_batches :: "BatchRow list"
  ix_tickets :: "(string \<times> string) list"
  ix_seatLocks :: "(string \<times> string) list"

datatype indexer_error = LedgerFailure ledger_error | NullColumn | ColumnOverflow

type_synonym 'a indexerM = "indexer_db \<Rightarrow> (indexer_error + 'a) \<times> indexer_db"

definition inLedger :: "'a ledgerM \<Rightarrow> 'a indexerM" where
  "inLedger m db =
     (case m (ix_ledger db) of
        (Inl e, l) \<Rightarrow> (Inl (LedgerFailure e), db\<lparr>ix_ledger := l\<rparr>)
      | (Inr x, l) \<Rightarrow> (Inr x, db\<lparr>ix_ledger := l\<rparr>))"

definition modifyS :: "('s \<Rightarrow> 's) \<Rightarrow> 's \<Rightarrow> ('e + unit) \<times> 's" where
  "modifyS f s = (Inr (), f s)"

fun forEachS :: "('a \<Rightarrow> 's \<Rightarrow> ('e + unit) \<times> 's) \<Rightarrow> 'a list \<Rightarrow> 's \<Rightarrow> ('e + unit) \<times> 's" where
  "forEachS f [] s = (Inr (), s)"
| "forEachS f (x # xs) s = bindS (f x) (\<lambda>_. forEachS f xs) s"

section \<open>Events\<close>

definition sameEvent :: "int \<Rightarrow> string \<Rightarrow> int \<Rightarrow> ChainEvent \<Rightarrow> bool" where
  "sameEvent chainId tx i e \<longleftrightarrow> ce_chainId e = chainId \<and> ce_txHash e = tx \<and> ce_logIndex e = i"

text \<open>The upsert renews \<open>removed\<close>, \<open>args\<close> and \<open>block_hash\<close> of a row that is there, not its block number.\<close>

definition persistEvent :: "int \<Rightarrow> ChainLog \<Rightarrow> string \<Rightarrow> LogArgs \<Rightarrow> unit indexerM" where
  "persistEvent chainId l eventName args db =
     (case lo_transactionHash l of
        None \<Rightarrow> (Inl NullColumn, db)
      | Some tx \<Rightarrow>
          let i = orElse (lo_logIndex l) 0
          in (Inr (), db\<lparr>ix_events :=
               (if find (sameEvent chainId tx i) (ix_events db) \<noteq> None
                then map (\<lambda>e. if sameEvent chainId tx i e
                              then e\<lparr>ce_removed := lo_removed l, ce_args := args, ce_blockHash := lo_blockHash l\<rparr> else e)
                       (ix_events db)
                else ix_events db @ [\<lparr>ce_chainId = chainId, ce_txHash = tx, ce_logIndex = i,
                       ce_blockNumber = orElse (lo_blockNumber l) 0, ce_blockHash = lo_blockHash l, ce_address = lo_address l,
                       ce_eventName = eventName, ce_args = args, ce_removed = lo_removed l\<rparr>])\<rparr>))"

definition markEventsRemovedFromBlock :: "int \<Rightarrow> int \<Rightarrow> unit indexerM" where
  "markEventsRemovedFromBlock chainId fromBlock =
     modifyS (\<lambda>db. db\<lparr>ix_events := map (\<lambda>e. if ce_chainId e = chainId \<and> fromBlock \<le> ce_blockNumber e \<and> \<not> ce_removed e
                                             then e\<lparr>ce_removed := True\<rparr> else e) (ix_events db)\<rparr>)"

section \<open>Cursors\<close>

definition cursorRow :: "int \<Rightarrow> indexer_db \<Rightarrow> CursorRow option" where
  "cursorRow chainId db = find (\<lambda>r. cu_chainId r = chainId) (ix_cursors db)"

definition setCursor :: "int \<Rightarrow> int \<Rightarrow> int \<Rightarrow> unit indexerM" where
  "setCursor chainId block logIndex =
     modifyS (\<lambda>db. db\<lparr>ix_cursors := map (\<lambda>r. if cu_chainId r = chainId
                      then r\<lparr>cu_lastBlock := block, cu_lastLogIndex := logIndex\<rparr> else r) (ix_cursors db)\<rparr>)"

definition getCursorBlock :: "int \<Rightarrow> indexer_db \<Rightarrow> int option" where
  "getCursorBlock chainId db = map_option cu_lastBlock (cursorRow chainId db)"

definition putCursor :: "CursorRow \<Rightarrow> indexer_db \<Rightarrow> indexer_db" where
  "putCursor r db =
     db\<lparr>ix_cursors := (if cursorRow (cu_chainId r) db = None then ix_cursors db @ [r]
                       else map (\<lambda>x. if cu_chainId x = cu_chainId r then r else x) (ix_cursors db))\<rparr>"

definition ensureCursor :: "int \<Rightarrow> string \<Rightarrow> int \<Rightarrow> int \<Rightarrow> bool \<Rightarrow> int indexerM" where
  "ensureCursor chainId vault deploymentBlock chainHead forceRebuild db =
     (let row = cursorRow chainId db;
          last = (case row of None \<Rightarrow> 0 | Some r \<Rightarrow> cu_lastBlock r);
          staleVault = (case row of None \<Rightarrow> False | Some r \<Rightarrow>
            (case cu_vault r of None \<Rightarrow> False | Some w \<Rightarrow> w \<noteq> [] \<and> js_lower w \<noteq> js_lower vault));
          staleDeploy = (case row of None \<Rightarrow> False | Some r \<Rightarrow> cu_deploymentBlock r \<noteq> deploymentBlock);
          cursorPastHead = (last > chainHead);
          stale = (staleVault \<or> staleDeploy \<or> cursorPastHead \<or> forceRebuild);
          reason = (if forceRebuild then ''rebuild_requested'' else if staleVault then ''vault_redeployed''
            else if staleDeploy then ''deployment_block_changed'' else ''cursor_past_head'')
      in if row = None \<or> stale then
           let db1 = (if row \<noteq> None \<and> stale
                 then db\<lparr>ix_reorgs := ix_reorgs db @ [\<lparr>rg_chainId = chainId, rg_fromBlock = last, rg_reason = reason\<rparr>]\<rparr> else db)
           in (Inr deploymentBlock, putCursor \<lparr>cu_chainId = chainId, cu_lastBlock = deploymentBlock, cu_lastLogIndex = 0,
                 cu_vault = Some (js_lower vault), cu_deploymentBlock = deploymentBlock\<rparr> db1)
         else (Inr (if last > 0 then last else deploymentBlock),
               db\<lparr>ix_cursors := map (\<lambda>r. if cu_chainId r = chainId
                    then r\<lparr>cu_vault := Some (js_lower vault), cu_deploymentBlock := deploymentBlock\<rparr> else r) (ix_cursors db)\<rparr>))"

definition requestRebuild :: "int \<Rightarrow> string \<Rightarrow> int \<Rightarrow> int \<Rightarrow> int indexerM" where
  "requestRebuild chainId vault deploymentBlock chainHead = ensureCursor chainId vault deploymentBlock chainHead True"

section \<open>Money\<close>

definition walletProfile :: "string \<Rightarrow> indexer_db \<Rightarrow> string option" where
  "walletProfile wallet db = map_option snd (find (\<lambda>w. js_lower (fst w) = js_lower wallet) (ix_wallets db))"

definition resolveProfileForChainAddress :: "string \<Rightarrow> int \<Rightarrow> indexer_db \<Rightarrow> string option" where
  "resolveProfileForChainAddress address chainId db =
     (case find (\<lambda>a. fst a = chainId \<and> js_lower (fst (snd a)) = js_lower address) (ix_arena db) of
        Some a \<Rightarrow> Some (snd (snd a))
      | None \<Rightarrow> walletProfile address db)"

definition resolveProfileId :: "string \<Rightarrow> int option \<Rightarrow> indexer_db \<Rightarrow> string option" where
  "resolveProfileId wallet chainId db =
     (case (case chainId of None \<Rightarrow> None | Some c \<Rightarrow> resolveProfileForChainAddress wallet c db) of
        Some p \<Rightarrow> Some p
      | None \<Rightarrow>
          (case walletProfile wallet db of
             Some p \<Rightarrow> Some p
           | None \<Rightarrow> map_option (\<lambda>a. snd (snd a)) (find (\<lambda>a. js_lower (fst (snd a)) = js_lower wallet) (ix_arena db))))"

definition sameRow :: "int \<Rightarrow> string \<Rightarrow> int \<Rightarrow> VaultRow \<Rightarrow> bool" where
  "sameRow chainId tx i r \<longleftrightarrow> vr_chainId r = chainId \<and> vr_txHash r = tx \<and> vr_logIndex r = i"

definition insertRow :: "VaultRow \<Rightarrow> VaultRow list \<Rightarrow> VaultRow list" where
  "insertRow r rows =
     (if find (sameRow (vr_chainId r) (vr_txHash r) (vr_logIndex r)) rows \<noteq> None then rows else rows @ [r])"

definition setMirrored :: "int \<Rightarrow> string \<Rightarrow> int \<Rightarrow> string \<Rightarrow> VaultRow list \<Rightarrow> VaultRow list" where
  "setMirrored chainId tx i p rows =
     map (\<lambda>r. if sameRow chainId tx i r then r\<lparr>vr_mirrored := True, vr_profileId := Some p\<rparr> else r) rows"

definition clearMirrored :: "int \<Rightarrow> string \<Rightarrow> int \<Rightarrow> VaultRow list \<Rightarrow> VaultRow list" where
  "clearMirrored chainId tx i rows = map (\<lambda>r. if sameRow chainId tx i r then r\<lparr>vr_mirrored := False\<rparr> else r) rows"

definition isMirrored :: "int \<Rightarrow> string \<Rightarrow> int \<Rightarrow> VaultRow list \<Rightarrow> bool" where
  "isMirrored chainId tx i rows = (case find (sameRow chainId tx i) rows of None \<Rightarrow> False | Some r \<Rightarrow> vr_mirrored r)"

definition updDeposits :: "(VaultRow list \<Rightarrow> VaultRow list) \<Rightarrow> unit indexerM" where
  "updDeposits f = modifyS (\<lambda>db. db\<lparr>ix_deposits := f (ix_deposits db)\<rparr>)"

definition updWithdrawals :: "(VaultRow list \<Rightarrow> VaultRow list) \<Rightarrow> unit indexerM" where
  "updWithdrawals f = modifyS (\<lambda>db. db\<lparr>ix_withdrawals := f (ix_withdrawals db)\<rparr>)"

definition rewindRow :: "VaultRow \<Rightarrow> string \<Rightarrow> unit indexerM" where
  "rewindRow d p =
     bindS (inLedger (debitOnchainWithdrawal p (vr_amountUsdc d) (vr_txHash d) (Some Reorg))) (\<lambda>_.
       updDeposits (clearMirrored (vr_chainId d) (vr_txHash d) (vr_logIndex d)))"

definition rewindRemovedDeposit :: "int \<Rightarrow> string \<Rightarrow> int \<Rightarrow> unit indexerM" where
  "rewindRemovedDeposit chainId tx i db =
     (case find (sameRow chainId tx i) (ix_deposits db) of
        None \<Rightarrow> (Inr (), db)
      | Some d \<Rightarrow>
          (case vr_profileId d of
             None \<Rightarrow> (Inr (), db)
           | Some p \<Rightarrow> if vr_mirrored d then rewindRow d p db else (Inr (), db)))"

definition rewindDepositsFromBlock :: "int \<Rightarrow> int \<Rightarrow> unit indexerM" where
  "rewindDepositsFromBlock chainId fromBlock db =
     forEachS (\<lambda>d. case vr_profileId d of None \<Rightarrow> returnS () | Some p \<Rightarrow> rewindRow d p)
       (filter (\<lambda>d. vr_chainId d = chainId \<and> fromBlock \<le> vr_blockNumber d \<and> vr_mirrored d \<and> vr_profileId d \<noteq> None) (ix_deposits db)) db"

text \<open>\<open>amount_usdc\<close> is \<open>numeric(18,6)\<close>.\<close>

definition vaultRow :: "int \<Rightarrow> ChainLog \<Rightarrow> string \<Rightarrow> string \<Rightarrow> string option \<Rightarrow> int \<Rightarrow> string option \<Rightarrow> VaultRow" where
  "vaultRow chainId l tx user to' amount p =
     \<lparr>vr_chainId = chainId, vr_txHash = tx, vr_logIndex = orElse (lo_logIndex l) 0, vr_blockNumber = orElse (lo_blockNumber l) 0,
      vr_wallet = js_lower user, vr_to = to', vr_amountRaw = amount, vr_amountUsdc = of_int amount / 10 ^ 6, vr_profileId = p,
      vr_mirrored = False\<rparr>"

definition handleDeposited :: "int \<Rightarrow> ChainLog \<Rightarrow> unit indexerM" where
  "handleDeposited chainId l db =
     (case (ag_user (lo_args l), ag_amount (lo_args l), lo_transactionHash l) of
        (Some user, Some amount, Some tx) \<Rightarrow>
          (let i = orElse (lo_logIndex l) 0; usdc = of_int amount / 10 ^ 6; profileId = resolveProfileId user None db
           in if lo_removed l then rewindRemovedDeposit chainId tx i db
              else if 10 ^ 18 \<le> amount then (Inl ColumnOverflow, db)
              else bindS (updDeposits (insertRow (vaultRow chainId l tx user None amount profileId))) (\<lambda>_.
                   case profileId of
                     None \<Rightarrow> returnS ()
                   | Some p \<Rightarrow> (\<lambda>db.
                       if isMirrored chainId tx i (ix_deposits db) then (Inr (), db)
                       else bindS (inLedger (creditOnchainDeposit p usdc tx)) (\<lambda>_. updDeposits (setMirrored chainId tx i p)) db)) db)
      | _ \<Rightarrow> (Inr (), db))"

definition handleWithdrawn :: "int \<Rightarrow> ChainLog \<Rightarrow> unit indexerM" where
  "handleWithdrawn chainId l db =
     (case (ag_user (lo_args l), ag_amount (lo_args l), lo_transactionHash l) of
        (Some user, Some amount, Some tx) \<Rightarrow>
          (let i = orElse (lo_logIndex l) 0; usdc = of_int amount / 10 ^ 6; profileId = resolveProfileId user None db
           in if lo_removed l then (Inr (), db)
              else if 10 ^ 18 \<le> amount then (Inl ColumnOverflow, db)
              else bindS (updWithdrawals (insertRow (vaultRow chainId l tx user (map_option js_lower (ag_to (lo_args l))) amount profileId))) (\<lambda>_ db.
                     if isMirrored chainId tx i (ix_withdrawals db) then (Inr (), db)
                     else case profileId of
                            None \<Rightarrow> (Inr (), db)
                          | Some p \<Rightarrow> bindS (inLedger (debitOnchainWithdrawal p usdc tx None))
                              (\<lambda>_. updWithdrawals (setMirrored chainId tx i p)) db) db)
      | _ \<Rightarrow> (Inr (), db))"

text \<open>The \<open>catch\<close> of the next two handlers is for violations of the uniqueness of keys, which the ledger call itself
  avoids; any other error is thrown again.\<close>

definition handleBuyInLocked :: "int \<Rightarrow> ChainLog \<Rightarrow> unit indexerM" where
  "handleBuyInLocked chainId l db =
     (let fromWallet = orElse (ag_fromWallet (lo_args l)) 0; v2Amount = orElse (ag_amount (lo_args l)) 0;
          pull = (if v2Amount > 0 then v2Amount else fromWallet)
      in case (ag_player (lo_args l), lo_transactionHash l) of
           (Some player, Some tx) \<Rightarrow>
             if lo_removed l \<or> pull = 0 then (Inr (), db)
             else (case resolveProfileId player (Some chainId) db of
                     None \<Rightarrow> (Inr (), db)
                   | Some p \<Rightarrow> bindS (inLedger (creditOnchainBuyInFromWallet p (of_int pull / 10 ^ 6) tx (orElse (lo_logIndex l) 0)))
                       (\<lambda>_. returnS ()) db)
         | _ \<Rightarrow> (Inr (), db))"

definition handleSessionPayout :: "int \<Rightarrow> ChainLog \<Rightarrow> unit indexerM" where
  "handleSessionPayout chainId l db =
     (case (ag_player (lo_args l), ag_amount (lo_args l), lo_transactionHash l) of
        (Some player, Some amount, Some tx) \<Rightarrow>
          if lo_removed l then (Inr (), db)
          else (case resolveProfileId player None db of
                  None \<Rightarrow> (Inr (), db)
                | Some p \<Rightarrow> bindS (inLedger (debitOnchainSessionPayout p (of_int amount / 10 ^ 6) tx (orElse (lo_logIndex l) 0)))
                    (\<lambda>_. returnS ()) db)
      | _ \<Rightarrow> (Inr (), db))"

definition backfillDeposit :: "VaultRow \<Rightarrow> unit indexerM" where
  "backfillDeposit d db =
     (case resolveProfileId (vr_wallet d) None db of
        None \<Rightarrow> (Inr (), db)
      | Some p \<Rightarrow> bindS (inLedger (creditOnchainDeposit p (vr_amountUsdc d) (vr_txHash d)))
          (\<lambda>_. updDeposits (setMirrored (vr_chainId d) (vr_txHash d) (vr_logIndex d) p)) db)"

definition backfillWithdrawal :: "VaultRow \<Rightarrow> unit indexerM" where
  "backfillWithdrawal w db =
     (case resolveProfileId (vr_wallet w) None db of
        None \<Rightarrow> (Inr (), db)
      | Some p \<Rightarrow> bindS (inLedger (debitOnchainWithdrawal p (vr_amountUsdc w) (vr_txHash w) None))
          (\<lambda>_. updWithdrawals (setMirrored (vr_chainId w) (vr_txHash w) (vr_logIndex w) p)) db)"

definition backfillUnmirrored :: "unit indexerM" where
  "backfillUnmirrored db =
     bindS (forEachS backfillDeposit (take 50 (filter (\<lambda>d. \<not> vr_mirrored d) (ix_deposits db)))) (\<lambda>_ db.
       forEachS backfillWithdrawal (take 50 (filter (\<lambda>w. \<not> vr_mirrored w) (ix_withdrawals db))) db) db"

section \<open>Projections\<close>

definition sessionRows :: "string \<Rightarrow> (SessionRow \<Rightarrow> SessionRow) \<Rightarrow> unit indexerM" where
  "sessionRows sessionId f =
     modifyS (\<lambda>db. db\<lparr>ix_sessions := map (\<lambda>r. if or_sessionId r = sessionId then f r else r) (ix_sessions db)\<rparr>)"

definition statusOf :: "string \<Rightarrow> string \<Rightarrow> (string \<times> string) list \<Rightarrow> (string \<times> string) list" where
  "statusOf sessionId st rows = map (\<lambda>r. if fst r = sessionId then (sessionId, st) else r) rows"

definition handleSessionOpened :: "int \<Rightarrow> ChainLog \<Rightarrow> unit indexerM" where
  "handleSessionOpened chainId l db =
     (case (ag_sessionId (lo_args l), lo_transactionHash l) of
        (Some s, Some tx) \<Rightarrow>
          if lo_removed l then (Inr (), db)
          else
            let row = \<lparr>or_sessionId = s, or_chainId = chainId, or_template = orElse (ag_templateId (lo_args l)) [],
                  or_openTx = Some tx, or_openBlock = Some (orElse (lo_blockNumber l) 0), or_status = ''opened'', or_settlementTx = None\<rparr>;
                opened = (\<lambda>r. r\<lparr>or_status := ''opened'', or_openTx := or_openTx row, or_openBlock := or_openBlock row\<rparr>)
            in (Inr (), db\<lparr>
                 ix_sessions := (if find (\<lambda>r. or_sessionId r = s) (ix_sessions db) = None then ix_sessions db @ [row]
                                 else map (\<lambda>r. if or_sessionId r = s then opened r else r) (ix_sessions db)),
                 ix_batches := map (\<lambda>r. if mb_sessionId r = s then r\<lparr>mb_status := ''opened'', mb_openTx := Some tx\<rparr> else r) (ix_batches db),
                 ix_tickets := statusOf s ''opened'' (ix_tickets db)\<rparr>)
      | _ \<Rightarrow> (Inr (), db))"

definition handleSessionSettled :: "int \<Rightarrow> ChainLog \<Rightarrow> unit indexerM" where
  "handleSessionSettled chainId l =
     (case (ag_sessionId (lo_args l), lo_transactionHash l) of
        (Some s, Some tx) \<Rightarrow>
          if lo_removed l then returnS ()
          else bindS (sessionRows s (\<lambda>r. r\<lparr>or_status := ''settled'', or_settlementTx := Some tx\<rparr>)) (\<lambda>_.
               modifyS (\<lambda>db. db\<lparr>ix_seatLocks := statusOf s ''settled'' (ix_seatLocks db)\<rparr>))
      | _ \<Rightarrow> returnS ())"

definition handleSessionSealed :: "int \<Rightarrow> ChainLog \<Rightarrow> unit indexerM" where
  "handleSessionSealed chainId l =
     (case (ag_sessionId (lo_args l), lo_transactionHash l) of
        (Some s, Some tx) \<Rightarrow>
          if lo_removed l then returnS ()
          else sessionRows s (\<lambda>r. if or_status r = ''opened'' then r\<lparr>or_status := ''playing''\<rparr> else r)
      | _ \<Rightarrow> returnS ())"

definition handleHubSettled :: "int \<Rightarrow> ChainLog \<Rightarrow> unit indexerM" where
  "handleHubSettled chainId l =
     (case (ag_sessionId (lo_args l), lo_transactionHash l) of
        (Some s, Some tx) \<Rightarrow>
          if lo_removed l then returnS ()
          else sessionRows s (\<lambda>r. r\<lparr>or_status := ''settled'',
                 or_settlementTx := (case or_settlementTx r of None \<Rightarrow> Some tx | Some t \<Rightarrow> Some t)\<rparr>)
      | _ \<Rightarrow> returnS ())"

definition LIFECYCLE_STATUS :: "int \<Rightarrow> string option" where
  "LIFECYCLE_STATUS n = map_of [(0, ''none''), (1, ''draft''), (2, ''sealed''), (3, ''randomness_pending''), (4, ''ready''),
     (5, ''active''), (6, ''settling''), (7, ''settled''), (8, ''aborted''), (9, ''emergency_exit'')] n"

definition statusForLabel :: "string \<Rightarrow> string option" where
  "statusForLabel label =
     (if label = ''settled'' then Some ''settled''
      else if label = ''settling'' then Some ''settling''
      else if label = ''emergency_exit'' then Some ''emergency''
      else if label = ''aborted'' then Some ''blocked''
      else if label = ''active'' \<or> label = ''ready'' \<or> label = ''sealed'' then Some ''playing''
      else if label = ''draft'' then Some ''pending'' else None)"

definition handleSessionTransition :: "int \<Rightarrow> ChainLog \<Rightarrow> unit indexerM" where
  "handleSessionTransition chainId l =
     (case ag_sessionId (lo_args l) of
        None \<Rightarrow> returnS ()
      | Some s \<Rightarrow>
          if lo_removed l then returnS ()
          else (case Option.bind (LIFECYCLE_STATUS (orElse (ag_state (lo_args l)) (- 1))) statusForLabel of
                  None \<Rightarrow> returnS ()
                | Some st \<Rightarrow> sessionRows s (\<lambda>r. r\<lparr>or_status := st\<rparr>)))"

definition dispatchProjection :: "int \<Rightarrow> string \<Rightarrow> ChainLog \<Rightarrow> unit indexerM" where
  "dispatchProjection chainId eventName l =
     (if eventName = ''SessionOpened'' then handleSessionOpened chainId l
      else if eventName = ''SessionSettled'' then handleSessionSettled chainId l
      else if eventName = ''SessionSealed'' then handleSessionSealed chainId l
      else if eventName = ''Settled'' then handleHubSettled chainId l
      else if eventName = ''SessionTransition'' then handleSessionTransition chainId l
      else returnS ())"

section \<open>Reorganisations\<close>

definition truthyText :: "string option \<Rightarrow> bool" where
  "truthyText t \<longleftrightarrow> t \<noteq> None \<and> t \<noteq> Some []"

definition isReorgMismatch :: "string option \<Rightarrow> string option \<Rightarrow> bool" where
  "isReorgMismatch storedHash chainHash =
     (if \<not> truthyText storedHash \<or> \<not> truthyText chainHash then False
      else map_option js_lower storedHash \<noteq> map_option js_lower chainHash)"

definition findReorgStart :: "(int \<times> string option \<times> string option) list \<Rightarrow> int option" where
  "findReorgStart pairs =
     map_option fst (find (\<lambda>p. \<not> truthyText (snd (snd p)) \<or> isReorgMismatch (fst (snd p)) (snd (snd p))) pairs)"

text \<open>\<open>select distinct on (block_number) ... order by block_number asc, created_at desc\<close>: the youngest row of each block.\<close>

definition inWindow :: "int \<Rightarrow> int \<Rightarrow> int \<Rightarrow> ChainEvent \<Rightarrow> bool" where
  "inWindow chainId from' until e \<longleftrightarrow>
     ce_chainId e = chainId \<and> from' \<le> ce_blockNumber e \<and> ce_blockNumber e \<le> until \<and> \<not> ce_removed e \<and> ce_blockHash e \<noteq> None"

definition samples :: "int \<Rightarrow> int \<Rightarrow> int \<Rightarrow> ChainEvent list \<Rightarrow> ChainEvent list" where
  "samples chainId from' until events =
     (let rows = filter (inWindow chainId from' until) events
      in map (\<lambda>n. last (filter (\<lambda>e. ce_blockNumber e = n) rows)) (sorted_list_of_set (set (map ce_blockNumber rows))))"

definition windowStart :: "int \<Rightarrow> int \<Rightarrow> int" where
  "windowStart cursorBlock lookback = (if cursorBlock > lookback then cursorBlock - lookback else 0)"

definition detectReorg :: "int \<Rightarrow> (int \<Rightarrow> string option) \<Rightarrow> int \<Rightarrow> int \<Rightarrow> indexer_db \<Rightarrow> int option" where
  "detectReorg chainId getBlock cursorBlock lookback db =
     (if cursorBlock \<le> 0 \<or> lookback \<le> 0 then None
      else map_option ce_blockNumber
             (find (\<lambda>e. \<not> truthyText (getBlock (ce_blockNumber e)) \<or> isReorgMismatch (ce_blockHash e) (getBlock (ce_blockNumber e)))
               (samples chainId (windowStart cursorBlock lookback) cursorBlock (ix_events db))))"

definition applyReorg :: "int \<Rightarrow> int \<Rightarrow> string \<Rightarrow> unit indexerM" where
  "applyReorg chainId fromBlock reason =
     bindS (modifyS (\<lambda>db. db\<lparr>ix_reorgs := ix_reorgs db @ [\<lparr>rg_chainId = chainId, rg_fromBlock = fromBlock, rg_reason = reason\<rparr>]\<rparr>)) (\<lambda>_.
     bindS (markEventsRemovedFromBlock chainId fromBlock) (\<lambda>_.
     bindS (rewindDepositsFromBlock chainId fromBlock) (\<lambda>_.
       setCursor chainId (if fromBlock > 0 then fromBlock - 1 else 0) 0)))"

section \<open>Ticks\<close>

definition MONEY_EVENT_NAMES :: "string list" where
  "MONEY_EVENT_NAMES = [''Deposited'', ''Withdrawn'', ''BuyInLocked'', ''SessionPayout'']"

definition dispatchMoney :: "int \<Rightarrow> string \<Rightarrow> ChainLog \<Rightarrow> unit indexerM" where
  "dispatchMoney chainId eventName l =
     (if eventName = ''Deposited'' then handleDeposited chainId l
      else if eventName = ''Withdrawn'' then handleWithdrawn chainId l
      else if eventName = ''BuyInLocked'' then handleBuyInLocked chainId l
      else if eventName = ''SessionPayout'' then handleSessionPayout chainId l
      else returnS ())"

definition logOrder :: "ChainLog \<Rightarrow> ChainLog \<Rightarrow> int" where
  "logOrder a b =
     (let bn = orElse (lo_blockNumber a) 0 - orElse (lo_blockNumber b) 0
      in if bn \<noteq> 0 then bn else orElse (lo_logIndex a) 0 - orElse (lo_logIndex b) 0)"

definition sortLogs :: "ChainLog list \<Rightarrow> ChainLog list" where
  "sortLogs logs = js_sort logOrder logs"

record WatchedSource =
  wa_address :: string
  wa_events :: "string list"

record IndexerRuntime =
  xr_chainId :: int
  xr_vault :: string
  xr_deploymentBlock :: int
  xr_sources :: "WatchedSource list"

record IndexerConfig =
  xc_confirmations :: int
  xc_blockBatch :: int
  xc_lookback :: int

record ChainClient =
  cl_head :: int
  cl_blockHash :: "int \<Rightarrow> string option"
  cl_logs :: "string \<Rightarrow> string \<Rightarrow> int \<Rightarrow> int \<Rightarrow> ChainLog list option"

definition fetchLogsForSource :: "ChainClient \<Rightarrow> WatchedSource \<Rightarrow> int \<Rightarrow> int \<Rightarrow> ChainLog list" where
  "fetchLogsForSource client source fromBlock toBlock =
     concat (map (\<lambda>event. orElse (cl_logs client (wa_address source) event fromBlock toBlock) []) (wa_events source))"

definition processLog :: "int \<Rightarrow> ChainLog \<Rightarrow> unit indexerM" where
  "processLog chainId l =
     (let name = orElse (lo_eventName l) ''Unknown''
      in bindS (persistEvent chainId l name (lo_args l)) (\<lambda>_.
           if name \<in> set MONEY_EVENT_NAMES then dispatchMoney chainId name l else dispatchProjection chainId name l))"

definition safeHead :: "IndexerConfig \<Rightarrow> ChainClient \<Rightarrow> int" where
  "safeHead cfg client = (if cl_head client > xc_confirmations cfg then cl_head client - xc_confirmations cfg else 0)"

definition handleReorg :: "IndexerConfig \<Rightarrow> IndexerRuntime \<Rightarrow> ChainClient \<Rightarrow> int \<Rightarrow> int indexerM" where
  "handleReorg cfg rt client from' db =
     (case detectReorg (xr_chainId rt) (cl_blockHash client) from' (xc_lookback cfg) db of
        None \<Rightarrow> (Inr from', db)
      | Some b \<Rightarrow> bindS (applyReorg (xr_chainId rt) b ''block_hash_mismatch'') (\<lambda>_. returnS (if b > 0 then b - 1 else 0)) db)"

definition indexRange :: "IndexerConfig \<Rightarrow> IndexerRuntime \<Rightarrow> ChainClient \<Rightarrow> int \<Rightarrow> unit indexerM" where
  "indexRange cfg rt client from' =
     (if from' > safeHead cfg client then backfillUnmirrored
      else
        let to' = (if from' + xc_blockBatch cfg > safeHead cfg client then safeHead cfg client else from' + xc_blockBatch cfg);
            fromBlock = (if from' = 0 then from' else from' + 1);
            logs = sortLogs (concat (map (\<lambda>s. fetchLogsForSource client s fromBlock to') (xr_sources rt)))
        in bindS (forEachS (processLog (xr_chainId rt)) logs) (\<lambda>_.
           bindS (setCursor (xr_chainId rt) to' 0) (\<lambda>_. backfillUnmirrored)))"

definition tick :: "IndexerConfig \<Rightarrow> IndexerRuntime \<Rightarrow> ChainClient \<Rightarrow> bool \<Rightarrow> unit indexerM" where
  "tick cfg rt client forceRebuild =
     bindS (ensureCursor (xr_chainId rt) (xr_vault rt) (xr_deploymentBlock rt) (cl_head client) forceRebuild) (\<lambda>from'.
     bindS (handleReorg cfg rt client from') (\<lambda>from'. indexRange cfg rt client from'))"

section \<open>Crediting a deposit\<close>

definition depositKey :: "string \<Rightarrow> string" where
  "depositKey tx = ''onchain-deposit-'' @ js_lower (take 66 tx)"

definition availableCents :: "string \<Rightarrow> indexer_db \<Rightarrow> int" where
  "availableCents p db = ownedCents User_available p Onchain_mode (ix_ledger db)"

definition depositUsed :: "string \<Rightarrow> indexer_db \<Rightarrow> bool" where
  "depositUsed tx db \<longleftrightarrow> depositKey tx \<in> lg_keys (ix_ledger db)"

definition knownProfile :: "string \<Rightarrow> indexer_db \<Rightarrow> bool" where
  "knownProfile p db \<longleftrightarrow> p \<in> fst ` set (lg_profiles (ix_ledger db))"

lemma ensure_known:
  assumes "u \<in> fst ` set (lg_profiles l)"
  obtains l' where "ensureModeAccounts u m l = (Inr (), l')" "grown l l'"
    "userAccount u User_available ''available'' m \<in> set (lg_accounts l')"
    "systemAccount System_clearing ''clearing'' m \<in> set (lg_accounts l')"
proof (rule that)
  show "ensureModeAccounts u m l = (Inr (), snd (ensureModeAccounts u m l))" using assms by (simp add: ensureModeAccounts_def)
  show "grown l (snd (ensureModeAccounts u m l))" by (rule grown_ensure)
qed (use assms in \<open>auto simp: ensureModeAccounts_def addAccount_def\<close>)

lemma accountId_found:
  assumes "(case u of None \<Rightarrow> returnS () | Some u \<Rightarrow> ensureModeAccounts u m) l = (Inr (), l')" "x \<in> set (lg_accounts l')"
    and "la_kind x = k" "la_label x = lab" "la_mode x = m" "u = None \<or> la_owner x = u"
  obtains a where "accountId u k lab m l = (Inr a, l')" "a \<in> set (lg_accounts l')" "la_kind a = k" "la_mode a = m" "u = None \<or> la_owner a = u"
proof -
  let ?P = "\<lambda>a. la_kind a = k \<and> la_label a = lab \<and> la_mode a = m \<and> (u = None \<or> la_owner a = u)"
  obtain a where a: "find ?P (lg_accounts l') = Some a"
    using assms(2-) by (cases "find ?P (lg_accounts l')") (auto simp: find_None_iff)
  then have "?P a" "a \<in> set (lg_accounts l')" by (auto simp: find_Some_iff)
  then show thesis using that a assms(1) by (simp add: accountId_def bindS_def)
qed

lemma credit_eval:
  assumes "is_hex32 (take 66 tx)" "p \<in> fst ` set (lg_profiles l)"
  obtains a b l' where "grown l l'" "la_kind a = User_available" "la_owner a = Some p" "la_mode a = Onchain_mode"
    "la_kind b = System_clearing" "la_mode b = Onchain_mode"
    "creditOnchainDeposit p q tx l = pay (depositKey tx) b a q ''chain_deposit'' (js_lower (take 66 tx)) l'"
proof -
  obtain l1 where l1: "ensureModeAccounts p Onchain_mode l = (Inr (), l1)" "grown l l1"
    by (rule ensure_known [OF assms(2), of Onchain_mode])
  then have "p \<in> fst ` set (lg_profiles l1)" using assms(2) by (simp add: grown_def)
  then obtain l2 where l2: "ensureModeAccounts p Onchain_mode l1 = (Inr (), l2)" "grown l1 l2"
    "userAccount p User_available ''available'' Onchain_mode \<in> set (lg_accounts l2)"
    "systemAccount System_clearing ''clearing'' Onchain_mode \<in> set (lg_accounts l2)"
    by (rule ensure_known [of p l1 Onchain_mode])
  obtain a where a: "accountId (Some p) User_available ''available'' Onchain_mode l1 = (Inr a, l2)" "la_kind a = User_available"
    "la_mode a = Onchain_mode" "la_owner a = Some p"
    by (rule accountId_found [where u = "Some p" and m = Onchain_mode and k = User_available and lab = "''available''", OF _ l2(3), of l1])
       (use l2(1) in \<open>auto simp: userAccount_def\<close>)
  obtain b where b: "accountId None System_clearing ''clearing'' Onchain_mode l2 = (Inr b, l2)" "la_kind b = System_clearing"
    "la_mode b = Onchain_mode"
    by (rule accountId_found [where u = None and m = Onchain_mode and k = System_clearing and lab = "''clearing''", OF _ l2(4), of l2])
       (auto simp: systemAccount_def returnS_def)
  show thesis
    using that [OF grown_trans [OF l1(2) l2(2)] a(2,4,3) b(2,3)] assms(1) l1(1) a(1) b(1)
    by (simp add: creditOnchainDeposit_def normalizeTxHash_def liftS_def bindS_def depositKey_def)
qed

lemma pay_eval:
  assumes "0 < numeric2 q" "numeric2 q < 10 ^ 18"
  shows "pay k b a q rt ri l = (if k \<in> lg_keys l then (Inr (Some (lt_id (the (find (\<lambda>t. lt_key t = k) (lg_transactions l))))), l)
     else (Inr (Some (length (lg_transactions l))), post k b a (numeric2 q) (Some rt) (Some ri) l))"
proof -
  have q: "0 < q" using numeric2_pos assms(1) .
  have "k \<in> lg_keys l \<longleftrightarrow> find (\<lambda>t. lt_key t = k) (lg_transactions l) \<noteq> None"
    by (auto simp: lg_keys_def find_None_iff)
  then show ?thesis
    using q assms by (auto simp: pay_def transfer_def bindS_def returnS_def Let_def post_def numeric2_neg split: option.splits)
qed

text \<open>What a credit owes: the amount, unless a deposit with this transaction hash was credited before.\<close>

lemma inLedger_credit:
  assumes "is_hex32 (take 66 tx)" "knownProfile p db" "0 < numeric2 q" "numeric2 q < 10 ^ 18"
  obtains t l where "inLedger (creditOnchainDeposit p q tx) db = (Inr t, db\<lparr>ix_ledger := l\<rparr>)" "lg_profiles l = lg_profiles (ix_ledger db)"
    "lg_keys l = insert (depositKey tx) (lg_keys (ix_ledger db))"
    "\<And>u. ownedCents User_available u Onchain_mode l =
       availableCents u db + (if u = p \<and> \<not> depositUsed tx db then numeric2 q else 0)"
proof -
  obtain a b l' where c: "grown (ix_ledger db) l'" "la_kind a = User_available" "la_owner a = Some p" "la_mode a = Onchain_mode"
    "la_kind b = System_clearing" "la_mode b = Onchain_mode"
    "creditOnchainDeposit p q tx (ix_ledger db) = pay (depositKey tx) b a q ''chain_deposit'' (js_lower (take 66 tx)) l'"
    by (rule credit_eval [OF assms(1) assms(2) [unfolded knownProfile_def], of q])
  let ?l = "if depositKey tx \<in> lg_keys l' then l' else post (depositKey tx) b a (numeric2 q) (Some ''chain_deposit'') (Some (js_lower (take 66 tx))) l'"
  show thesis
  proof (rule that)
    show "inLedger (creditOnchainDeposit p q tx) db = (Inr (Some (if depositKey tx \<in> lg_keys l'
        then lt_id (the (find (\<lambda>t. lt_key t = depositKey tx) (lg_transactions l'))) else length (lg_transactions l'))), db\<lparr>ix_ledger := ?l\<rparr>)"
      using c(7) pay_eval [OF assms(3,4)] by (simp add: inLedger_def)
    show "lg_profiles ?l = lg_profiles (ix_ledger db)" using c(1) by (simp add: grown_def post_def Let_def)
    show "lg_keys ?l = insert (depositKey tx) (lg_keys (ix_ledger db))"
      using grownD(5) [OF c(1)] by (auto simp: lg_keys_def post_def Let_def)
    show "ownedCents User_available u Onchain_mode ?l = availableCents u db + (if u = p \<and> \<not> depositUsed tx db then numeric2 q else 0)" for u
      using c(2-6) grownD(3,5) [OF c(1)] by (simp add: availableCents_def depositUsed_def)
  qed
qed

text \<open>A deposit log that the indexer can mirror.\<close>

definition goodDeposit :: "ChainLog \<Rightarrow> indexer_db \<Rightarrow> bool" where
  "goodDeposit l db \<longleftrightarrow> lo_eventName l = Some ''Deposited'' \<and> \<not> lo_removed l \<and>
     (\<exists>user amount tx p. ag_user (lo_args l) = Some user \<and> ag_amount (lo_args l) = Some amount \<and> lo_transactionHash l = Some tx \<and>
        is_hex32 (take 66 tx) \<and> amount < 10 ^ 18 \<and> 0 < numeric2 (of_int amount / 10 ^ 6) \<and>
        resolveProfileId user None db = Some p \<and> knownProfile p db)"

definition logTx :: "ChainLog \<Rightarrow> string" where
  "logTx l = the (lo_transactionHash l)"

definition logCents :: "ChainLog \<Rightarrow> int" where
  "logCents l = numeric2 (of_int (the (ag_amount (lo_args l))) / 10 ^ 6)"

definition logProfile :: "ChainLog \<Rightarrow> indexer_db \<Rightarrow> string" where
  "logProfile l db = the (resolveProfileId (the (ag_user (lo_args l))) None db)"

text \<open>A row is marked as mirrored only after its transaction was credited; a process that stops between the two leaves
  the mark unset.\<close>

definition mirror_ok :: "indexer_db \<Rightarrow> bool" where
  "mirror_ok db \<longleftrightarrow> (\<forall>r \<in> set (ix_deposits db). vr_mirrored r \<longrightarrow> depositUsed (vr_txHash r) db)"

definition steady :: "indexer_db \<Rightarrow> indexer_db \<Rightarrow> bool" where
  "steady db db' \<longleftrightarrow> ix_wallets db' = ix_wallets db \<and> ix_arena db' = ix_arena db \<and>
     lg_profiles (ix_ledger db') = lg_profiles (ix_ledger db)"

lemma steadyD:
  assumes "steady db db'"
  shows "resolveProfileId w c db' = resolveProfileId w c db" "goodDeposit l db' \<longleftrightarrow> goodDeposit l db" "logProfile l db' = logProfile l db"
proof -
  show r: "resolveProfileId w c db' = resolveProfileId w c db" for w c
  proof -
    from assms have eq: "ix_wallets db' = ix_wallets db" "ix_arena db' = ix_arena db" by (simp_all add: steady_def)
    show ?thesis unfolding resolveProfileId_def resolveProfileForChainAddress_def walletProfile_def eq ..
  qed
  show "goodDeposit l db' \<longleftrightarrow> goodDeposit l db" "logProfile l db' = logProfile l db"
    using assms by (simp_all add: goodDeposit_def logProfile_def r knownProfile_def steady_def)
qed

lemma numeric2_bound: "q < 10 ^ 12 \<Longrightarrow> numeric2 q < 10 ^ 18"
proof (cases "q < 0")
  case True
  then have "0 \<le> \<lfloor>100 * (- q) + 1 / 2\<rfloor>" by simp
  moreover have "numeric2 q = - \<lfloor>100 * (- q) + 1 / 2\<rfloor>" using True by (simp only: numeric2_def if_True)
  ultimately have "numeric2 q \<le> 0" by linarith
  then show ?thesis by (rule le_less_trans) simp
next
  case False
  assume "q < 10 ^ 12"
  then have "\<lfloor>100 * q + 1 / 2\<rfloor> < 10 ^ 18" by (simp add: floor_less_iff)
  then show ?thesis using False by (simp add: numeric2_def)
qed

lemma isMirrored_insertRow:
  "\<not> vr_mirrored r \<Longrightarrow> isMirrored (vr_chainId r) (vr_txHash r) (vr_logIndex r) (insertRow r rows) = isMirrored (vr_chainId r) (vr_txHash r) (vr_logIndex r) rows"
proof (cases "find (sameRow (vr_chainId r) (vr_txHash r) (vr_logIndex r)) rows")
  case None
  assume "\<not> vr_mirrored r"
  have "find (sameRow (vr_chainId r) (vr_txHash r) (vr_logIndex r)) (rows @ [r]) = Some r"
    using None by (induction rows) (auto simp: sameRow_def split: if_splits)
  then show ?thesis using None \<open>\<not> vr_mirrored r\<close> by (simp add: isMirrored_def insertRow_def)
qed (simp add: insertRow_def)

lemma isMirroredD: "isMirrored c tx i rows \<Longrightarrow> \<exists>r \<in> set rows. vr_mirrored r \<and> vr_txHash r = tx"
  by (induction rows) (auto simp: isMirrored_def sameRow_def split: if_splits)

lemma processLog_deposit:
  assumes "goodDeposit l db" "mirror_ok db"
  obtains db' where "processLog c l db = (Inr (), db')" "mirror_ok db'" "steady db db'"
    "lg_keys (ix_ledger db') = insert (depositKey (logTx l)) (lg_keys (ix_ledger db))"
    "\<And>u. availableCents u db' = availableCents u db + (if u = logProfile l db \<and> \<not> depositUsed (logTx l) db then logCents l else 0)"
proof -
  obtain user amount tx p where g: "ag_user (lo_args l) = Some user" "ag_amount (lo_args l) = Some amount" "lo_transactionHash l = Some tx"
    "is_hex32 (take 66 tx)" "amount < 10 ^ 18" "0 < numeric2 (of_int amount / 10 ^ 6)" "resolveProfileId user None db = Some p"
    "knownProfile p db" "lo_eventName l = Some ''Deposited''" "\<not> lo_removed l"
    using assms(1) by (auto simp: goodDeposit_def)
  obtain evs where ev: "persistEvent c l ''Deposited'' (lo_args l) db = (Inr (), db\<lparr>ix_events := evs\<rparr>)"
    using g(3) by (auto simp: persistEvent_def Let_def)
  let ?i = "orElse (lo_logIndex l) 0" and ?q = "of_int amount / 10 ^ 6 :: rat" and ?row = "vaultRow c l tx user None amount (Some p)"
  let ?db2 = "db\<lparr>ix_events := evs, ix_deposits := insertRow ?row (ix_deposits db)\<rparr>"
  have res: "resolveProfileId user None (db\<lparr>ix_events := evs\<rparr>) = Some p"
    using g(7) steadyD(1) [of db "db\<lparr>ix_events := evs\<rparr>"] by (simp add: steady_def)
  have run: "processLog c l db = (if isMirrored c tx ?i (ix_deposits db) then (Inr (), ?db2)
      else bindS (inLedger (creditOnchainDeposit p ?q tx)) (\<lambda>_. updDeposits (setMirrored c tx ?i p)) ?db2)"
    using ev g res isMirrored_insertRow [of ?row "ix_deposits db"]
    by (simp add: processLog_def MONEY_EVENT_NAMES_def dispatchMoney_def bindS_def handleDeposited_def Let_def updDeposits_def
        modifyS_def vaultRow_def)
  have rows: "\<forall>r \<in> set (insertRow ?row (ix_deposits db)). vr_mirrored r \<longrightarrow> depositUsed (vr_txHash r) db"
    using assms(2) by (auto simp: mirror_ok_def insertRow_def vaultRow_def)
  have acc: "logTx l = tx" "logCents l = numeric2 ?q" "logProfile l db = p"
    using g by (simp_all add: logTx_def logCents_def logProfile_def)
  have same: "availableCents u ?db2 = availableCents u db" "depositUsed t ?db2 = depositUsed t db" "knownProfile p ?db2" for u t
    using g(8) by (simp_all add: availableCents_def depositUsed_def knownProfile_def)
  show thesis
  proof (cases "isMirrored c tx ?i (ix_deposits db)")
    case True
    then obtain r where "r \<in> set (ix_deposits db)" "vr_mirrored r" "vr_txHash r = tx"
      using isMirroredD by blast
    then have used: "depositUsed tx db" using assms(2) by (auto simp: mirror_ok_def)
    show thesis
      by (rule that [of ?db2]) (use True run rows same used acc in \<open>auto simp: mirror_ok_def steady_def depositUsed_def\<close>)
  next
    case False
    have "numeric2 ?q < 10 ^ 18" using g(5) by (intro numeric2_bound) (simp add: field_simps)
    from inLedger_credit [OF g(4) same(3) g(6) this] obtain t ll where cr:
      "inLedger (creditOnchainDeposit p ?q tx) ?db2 = (Inr t, ?db2\<lparr>ix_ledger := ll\<rparr>)" "lg_profiles ll = lg_profiles (ix_ledger db)"
      "lg_keys ll = insert (depositKey tx) (lg_keys (ix_ledger db))"
      "\<And>u. ownedCents User_available u Onchain_mode ll = availableCents u db + (if u = p \<and> \<not> depositUsed tx db then numeric2 ?q else 0)"
      by (auto simp: same)
    let ?db3 = "?db2\<lparr>ix_ledger := ll, ix_deposits := setMirrored c tx ?i p (insertRow ?row (ix_deposits db))\<rparr>"
    have "processLog c l db = (Inr (), ?db3)" using run False cr(1) by (simp add: bindS_def updDeposits_def modifyS_def)
    moreover have "mirror_ok ?db3"
      using rows cr(3) by (auto simp: mirror_ok_def setMirrored_def depositUsed_def sameRow_def)
    ultimately show thesis
      using that [of ?db3] cr acc by (simp add: steady_def availableCents_def)
  qed
qed

text \<open>A list of deposit logs, in any order and with any repetitions.\<close>

lemma processLogs_deposits:
  assumes "\<forall>l \<in> set ls. goodDeposit l db" "mirror_ok db"
  shows "\<exists>db'. forEachS (processLog c) ls db = (Inr (), db') \<and> mirror_ok db' \<and> steady db db' \<and>
    lg_keys (ix_ledger db') = depositKey ` logTx ` set ls \<union> lg_keys (ix_ledger db) \<and>
    ((\<forall>l \<in> set ls. depositUsed (logTx l) db) \<longrightarrow> (\<forall>u. availableCents u db' = availableCents u db)) \<and>
    (distinct (map (depositKey \<circ> logTx) ls) \<longrightarrow> (\<forall>u. availableCents u db' = availableCents u db +
       sum_list (map (\<lambda>l. if logProfile l db = u \<and> \<not> depositUsed (logTx l) db then logCents l else 0) ls)))"
  using assms
proof (induction ls arbitrary: db)
  case Nil
  then show ?case by (simp add: steady_def)
next
  case (Cons l ls)
  obtain db1 where one: "processLog c l db = (Inr (), db1)" "mirror_ok db1" "steady db db1"
    "lg_keys (ix_ledger db1) = insert (depositKey (logTx l)) (lg_keys (ix_ledger db))"
    "\<And>u. availableCents u db1 = availableCents u db + (if u = logProfile l db \<and> \<not> depositUsed (logTx l) db then logCents l else 0)"
    by (rule processLog_deposit [of l db c]) (use Cons.prems in auto)
  have "\<forall>x \<in> set ls. goodDeposit x db1" using Cons.prems(1) steadyD(2) [OF one(3)] by simp
  from Cons.IH [OF this one(2)] obtain db2 where rest: "forEachS (processLog c) ls db1 = (Inr (), db2)" "mirror_ok db2" "steady db1 db2"
    "lg_keys (ix_ledger db2) = depositKey ` logTx ` set ls \<union> lg_keys (ix_ledger db1)"
    "\<And>u. (\<forall>x \<in> set ls. depositUsed (logTx x) db1) \<Longrightarrow> availableCents u db2 = availableCents u db1"
    "\<And>u. distinct (map (depositKey \<circ> logTx) ls) \<Longrightarrow> availableCents u db2 = availableCents u db1 +
       sum_list (map (\<lambda>x. if logProfile x db1 = u \<and> \<not> depositUsed (logTx x) db1 then logCents x else 0) ls)"
    by blast
  have again: "availableCents u db2 = availableCents u db" if "\<forall>x \<in> set (l # ls). depositUsed (logTx x) db" for u
  proof -
    have "\<forall>x \<in> set ls. depositUsed (logTx x) db1" using that one(4) by (auto simp: depositUsed_def)
    then show ?thesis using rest(5) one(5) that by simp
  qed
  have first: "availableCents u db2 = availableCents u db +
       sum_list (map (\<lambda>x. if logProfile x db = u \<and> \<not> depositUsed (logTx x) db then logCents x else 0) (l # ls))"
    if d: "distinct (map (depositKey \<circ> logTx) (l # ls))" for u
  proof -
    have "depositUsed (logTx x) db1 \<longleftrightarrow> depositUsed (logTx x) db" if "x \<in> set ls" for x
      using that d one(4) by (auto simp: depositUsed_def image_iff)
    then have same: "sum_list (map (\<lambda>x. if logProfile x db1 = u \<and> \<not> depositUsed (logTx x) db1 then logCents x else 0) ls) =
        sum_list (map (\<lambda>x. if logProfile x db = u \<and> \<not> depositUsed (logTx x) db then logCents x else 0) ls)"
      using steadyD(3) [OF one(3)] by (intro arg_cong [of _ _ sum_list] map_cong) auto
    have "distinct (map (depositKey \<circ> logTx) ls)" using d by simp
    from rest(6) [OF this, of u] one(5) [of u] show ?thesis unfolding same by simp
  qed
  have "forEachS (processLog c) (l # ls) db = (Inr (), db2)" "steady db db2"
    "lg_keys (ix_ledger db2) = depositKey ` logTx ` set (l # ls) \<union> lg_keys (ix_ledger db)"
    using one(1,3,4) rest(1,3,4) by (auto simp: bindS_def steady_def)
  with rest(2) show ?case using again first by (intro exI [of _ db2] conjI impI allI) assumption+
qed

section \<open>Detection and undoing of reorganisations\<close>

text \<open>The youngest live row of a block is the one that is compared with the chain.\<close>

definition liveRow :: "int \<Rightarrow> int \<Rightarrow> int \<Rightarrow> indexer_db \<Rightarrow> int \<Rightarrow> ChainEvent option" where
  "liveRow chainId from' until db n =
     (case filter (\<lambda>e. inWindow chainId from' until e \<and> ce_blockNumber e = n) (ix_events db) of
        [] \<Rightarrow> None | e # es \<Rightarrow> Some (last (e # es)))"

definition canonical :: "(int \<Rightarrow> string option) \<Rightarrow> ChainEvent \<Rightarrow> bool" where
  "canonical getBlock e \<longleftrightarrow>
     truthyText (getBlock (ce_blockNumber e)) \<and> \<not> isReorgMismatch (ce_blockHash e) (getBlock (ce_blockNumber e))"

lemma samples_rows:
  "samples c f u (ix_events db) = map (\<lambda>n. the (liveRow c f u db n)) (sorted_list_of_set {n. liveRow c f u db n \<noteq> None})"
proof -
  let ?rows = "filter (inWindow c f u) (ix_events db)"
  have same: "filter (\<lambda>e. ce_blockNumber e = n) ?rows = filter (\<lambda>e. inWindow c f u e \<and> ce_blockNumber e = n) (ix_events db)" for n
    by (simp add: conj_commute)
  have row: "liveRow c f u db n = (if n \<in> ce_blockNumber ` set ?rows then Some (last (filter (\<lambda>e. ce_blockNumber e = n) ?rows)) else None)" for n
  proof -
    have mem: "n \<in> ce_blockNumber ` set ?rows \<longleftrightarrow> filter (\<lambda>e. inWindow c f u e \<and> ce_blockNumber e = n) (ix_events db) \<noteq> []"
      by (auto simp: filter_empty_conv)
    show ?thesis unfolding liveRow_def same mem by (simp split: list.split)
  qed
  have dom: "{n. liveRow c f u db n \<noteq> None} = set (map ce_blockNumber ?rows)" by (auto simp: row)
  show ?thesis
    unfolding samples_def Let_def dom by (intro map_cong) (auto simp: row)
qed

lemma liveRow_block: "liveRow c f u db n = Some e \<Longrightarrow> ce_blockNumber e = n \<and> inWindow c f u e \<and> e \<in> set (ix_events db)"
proof -
  assume "liveRow c f u db n = Some e"
  then have "e \<in> set (filter (\<lambda>e. inWindow c f u e \<and> ce_blockNumber e = n) (ix_events db))"
    by (auto simp: liveRow_def split: list.splits if_splits simp del: set_filter)
  then show ?thesis by auto
qed

lemma finite_liveRow: "finite {n. liveRow c f u db n \<noteq> None}"
proof (rule finite_subset)
  show "{n. liveRow c f u db n \<noteq> None} \<subseteq> ce_blockNumber ` set (ix_events db)" using liveRow_block by fastforce
qed simp

lemma find_sorted:
  assumes "sorted xs"
  shows "(find P xs = Some x \<longrightarrow> x \<in> set xs \<and> P x \<and> (\<forall>y \<in> set xs. y < x \<longrightarrow> \<not> P y)) \<and> (find P xs = None \<longleftrightarrow> (\<forall>y \<in> set xs. \<not> P y))"
  using assms by (induction xs) force+

text \<open>Undoing the deposits of removed blocks succeeds when the rows are as the indexer writes them.\<close>

definition goodRow :: "VaultRow \<Rightarrow> indexer_db \<Rightarrow> bool" where
  "goodRow r db \<longleftrightarrow> is_hex32 (take 66 (vr_txHash r)) \<and> 0 < numeric2 (vr_amountUsdc r) \<and> vr_amountUsdc r < 10 ^ 12 \<and>
     (\<forall>p. vr_profileId r = Some p \<longrightarrow> knownProfile p db)"

lemma debit_succeeds:
  assumes "is_hex32 (take 66 tx)" "p \<in> fst ` set (lg_profiles l)" "0 < numeric2 q" "q < 10 ^ 12"
  obtains t l' where "debitOnchainWithdrawal p q tx r l = (Inr t, l')" "lg_profiles l' = lg_profiles l"
proof -
  obtain l1 where l1: "ensureModeAccounts p Onchain_mode l = (Inr (), l1)" "grown l l1"
    by (rule ensure_known [OF assms(2), of Onchain_mode])
  then have "p \<in> fst ` set (lg_profiles l1)" using assms(2) by (simp add: grown_def)
  then obtain l2 where l2: "ensureModeAccounts p Onchain_mode l1 = (Inr (), l2)" "grown l1 l2"
    "userAccount p User_available ''available'' Onchain_mode \<in> set (lg_accounts l2)"
    "systemAccount System_clearing ''clearing'' Onchain_mode \<in> set (lg_accounts l2)"
    by (rule ensure_known [of p l1 Onchain_mode])
  obtain a where a: "accountId (Some p) User_available ''available'' Onchain_mode l1 = (Inr a, l2)"
    by (rule accountId_found [where u = "Some p" and m = Onchain_mode and k = User_available and lab = "''available''", OF _ l2(3), of l1])
       (use l2(1) in \<open>auto simp: userAccount_def\<close>)
  obtain b where b: "accountId None System_clearing ''clearing'' Onchain_mode l2 = (Inr b, l2)"
    by (rule accountId_found [where u = None and m = Onchain_mode and k = System_clearing and lab = "''clearing''", OF _ l2(4), of l2])
       (auto simp: systemAccount_def returnS_def)
  have "p \<in> fst ` set (lg_profiles l2)" using assms(2) l1(2) l2(2) by (simp add: grown_def)
  then obtain l3 where l3: "ensureModeAccounts p Onchain_mode l2 = (Inr (), l3)" "grown l2 l3"
    by (rule ensure_known [of p l2 Onchain_mode])
  let ?bal = "of_int (ownedCents User_available p Onchain_mode l3) / 100 :: rat" and ?r = "orElse r Withdraw"
  let ?key = "''onchain-'' @ reason_text ?r @ ''-'' @ js_lower (take 66 tx)" and ?rt = "if ?r = Reorg then ''chain_reorg'' else ''chain_withdraw''"
  have q: "0 < q" using numeric2_pos assms(3) .
  have run: "debitOnchainWithdrawal p q tx r l =
      (if min q ?bal \<le> 0 then (Inr None, l3) else pay ?key a b (min q ?bal) ?rt (js_lower (take 66 tx)) l3)"
    using assms(1) q l1(1) a b l3(1)
    by (simp add: debitOnchainWithdrawal_def normalizeTxHash_def liftS_def bindS_def debitCapped_def getAvailableBalance_def modeOr_def
        returnS_def Let_def min_le_iff_disj)
  have prof: "lg_profiles l3 = lg_profiles l" using l1(2) l2(2) l3(2) by (simp add: grown_def)
  show thesis
  proof (cases "min q ?bal \<le> 0")
    case True
    then show thesis using that [of None l3] run prof by simp
  next
    case False
    have cents: "0 < ownedCents User_available p Onchain_mode l3" using False by (auto simp: min_def split: if_splits)
    have "numeric2 ?bal = ownedCents User_available p Onchain_mode l3" using cents by (simp add: numeric2_def floor_eq_iff)
    then have pos: "0 < numeric2 (min q ?bal)" using assms(3) cents by (simp add: min_def)
    have "min q ?bal < 10 ^ 12" using assms(4) by (simp add: min_def)
    note fits = numeric2_bound [OF this]
    show thesis
      using pay_eval [OF pos fits] run False prof
      by (cases "?key \<in> lg_keys l3") (auto intro!: that simp: post_def Let_def simp del: min_less_iff_conj)
  qed
qed

definition sameFrame :: "indexer_db \<Rightarrow> indexer_db \<Rightarrow> bool" where
  "sameFrame db db' \<longleftrightarrow> lg_profiles (ix_ledger db') = lg_profiles (ix_ledger db) \<and> ix_events db' = ix_events db \<and>
     ix_cursors db' = ix_cursors db \<and> ix_reorgs db' = ix_reorgs db"

lemma rewindRow_succeeds:
  assumes "goodRow d db" "vr_profileId d = Some p"
  obtains db' where "rewindRow d p db = (Inr (), db')" "sameFrame db db'"
    "ix_deposits db' = clearMirrored (vr_chainId d) (vr_txHash d) (vr_logIndex d) (ix_deposits db)"
proof -
  have "p \<in> fst ` set (lg_profiles (ix_ledger db))" using assms by (auto simp: goodRow_def knownProfile_def)
  from debit_succeeds [of "vr_txHash d" p "ix_ledger db" "vr_amountUsdc d" "Some Reorg", OF _ this] assms(1)
  obtain t l' where "debitOnchainWithdrawal p (vr_amountUsdc d) (vr_txHash d) (Some Reorg) (ix_ledger db) = (Inr t, l')"
    "lg_profiles l' = lg_profiles (ix_ledger db)" by (auto simp: goodRow_def)
  then show thesis
    by (intro that [of "db\<lparr>ix_ledger := l', ix_deposits := clearMirrored (vr_chainId d) (vr_txHash d) (vr_logIndex d) (ix_deposits db)\<rparr>"])
       (auto simp: rewindRow_def inLedger_def bindS_def updDeposits_def modifyS_def sameFrame_def)
qed

lemma rewindRows_succeed:
  assumes "\<forall>d \<in> set ds. goodRow d db" "\<forall>d \<in> set ds. vr_profileId d \<noteq> None"
  shows "\<exists>db'. forEachS (\<lambda>d. case vr_profileId d of None \<Rightarrow> returnS () | Some p \<Rightarrow> rewindRow d p) ds db = (Inr (), db') \<and> sameFrame db db' \<and>
    ix_deposits db' = map (\<lambda>r. if \<exists>d \<in> set ds. sameRow (vr_chainId d) (vr_txHash d) (vr_logIndex d) r then r\<lparr>vr_mirrored := False\<rparr> else r) (ix_deposits db)"
  using assms
proof (induction ds arbitrary: db)
  case Nil
  then show ?case by (simp add: sameFrame_def)
next
  case (Cons d ds)
  obtain p where p: "vr_profileId d = Some p" using Cons.prems(2) by auto
  obtain db1 where one: "rewindRow d p db = (Inr (), db1)" "sameFrame db db1"
    "ix_deposits db1 = clearMirrored (vr_chainId d) (vr_txHash d) (vr_logIndex d) (ix_deposits db)"
    by (rule rewindRow_succeeds [of d db p]) (use Cons.prems(1) p in auto)
  have "\<forall>d \<in> set ds. goodRow d db1" using Cons.prems(1) one(2) by (auto simp: goodRow_def knownProfile_def sameFrame_def)
  from Cons.IH [OF this] Cons.prems(2) obtain db2 where rest:
    "forEachS (\<lambda>d. case vr_profileId d of None \<Rightarrow> returnS () | Some p \<Rightarrow> rewindRow d p) ds db1 = (Inr (), db2)" "sameFrame db1 db2"
    "ix_deposits db2 = map (\<lambda>r. if \<exists>d \<in> set ds. sameRow (vr_chainId d) (vr_txHash d) (vr_logIndex d) r then r\<lparr>vr_mirrored := False\<rparr> else r) (ix_deposits db1)"
    by auto
  show ?case
    using one(1,2) rest(1,2) p
    by (intro exI [of _ db2]) (auto simp: bindS_def sameFrame_def rest(3) one(3) clearMirrored_def sameRow_def)
qed

lemma find_map: "find P (map f xs) = map_option f (find (\<lambda>x. P (f x)) xs)"
  by (induction xs) auto

lemma detectReorg_rows:
  assumes "0 < cur" "0 < look"
  shows "detectReorg c g cur look db =
    find (\<lambda>n. \<not> canonical g (the (liveRow c (windowStart cur look) cur db n)))
      (sorted_list_of_set {n. liveRow c (windowStart cur look) cur db n \<noteq> None})"
proof -
  let ?row = "liveRow c (windowStart cur look) cur db"
  let ?ns = "sorted_list_of_set {n. ?row n \<noteq> None}"
  let ?bad = "\<lambda>n. \<not> canonical g (the (?row n))"
  have "detectReorg c g cur look db = map_option (\<lambda>n. ce_blockNumber (the (?row n))) (find ?bad ?ns)"
    using assms by (simp add: detectReorg_def samples_rows find_map canonical_def option.map_comp comp_def)
  moreover have "ce_blockNumber (the (?row n)) = n" if "find ?bad ?ns = Some n" for n
  proof -
    have "n \<in> set ?ns" using that by (auto simp: find_Some_iff)
    then show ?thesis using liveRow_block finite_liveRow by auto
  qed
  ultimately show ?thesis by (cases "find ?bad ?ns") auto
qed

lemma detectReorg_iff:
  assumes "0 < cur" "0 < look"
  shows "(detectReorg c g cur look db = Some b \<longrightarrow>
      (\<exists>e. liveRow c (windowStart cur look) cur db b = Some e \<and> \<not> canonical g e) \<and>
      (\<forall>n e. n < b \<longrightarrow> liveRow c (windowStart cur look) cur db n = Some e \<longrightarrow> canonical g e)) \<and>
    (detectReorg c g cur look db = None \<longleftrightarrow> (\<forall>n e. liveRow c (windowStart cur look) cur db n = Some e \<longrightarrow> canonical g e))"
proof -
  let ?row = "liveRow c (windowStart cur look) cur db" and ?P = "\<lambda>n. \<not> canonical g (the (liveRow c (windowStart cur look) cur db n))"
  let ?ns = "sorted_list_of_set {n. ?row n \<noteq> None}"
  have mem: "n \<in> set ?ns \<longleftrightarrow> (\<exists>e. ?row n = Some e)" for n using finite_liveRow [of c _ cur db] by simp
  have s: "(find ?P ?ns = Some b \<longrightarrow> b \<in> set ?ns \<and> ?P b \<and> (\<forall>y \<in> set ?ns. y < b \<longrightarrow> \<not> ?P y)) \<and> (find ?P ?ns = None \<longleftrightarrow> (\<forall>y \<in> set ?ns. \<not> ?P y))"
    by (rule find_sorted) simp
  show ?thesis
  proof (intro conjI impI allI iffI)
    assume d: "detectReorg c g cur look db = Some b"
    have f: "b \<in> set ?ns" "?P b" "\<forall>y \<in> set ?ns. y < b \<longrightarrow> \<not> ?P y" using s d unfolding detectReorg_rows [OF assms] by blast+
    show "\<exists>e. ?row b = Some e \<and> \<not> canonical g e" using f(1,2) unfolding mem by auto
    show "canonical g e" if "n < b" "?row n = Some e" for n e using f(3) that unfolding Ball_def mem by force
  next
    fix n e assume d: "detectReorg c g cur look db = None" and e: "?row n = Some e"
    have "\<forall>y \<in> set ?ns. \<not> ?P y" using s d unfolding detectReorg_rows [OF assms] by blast
    then show "canonical g e" using e unfolding Ball_def mem by force
  next
    assume "\<forall>n e. ?row n = Some e \<longrightarrow> canonical g e"
    then have "\<forall>y \<in> set ?ns. \<not> ?P y" unfolding Ball_def mem by force
    then show "detectReorg c g cur look db = None" using s unfolding detectReorg_rows [OF assms] by blast
  qed
qed

lemma applyReorg_eval:
  assumes "\<forall>d \<in> set (ix_deposits db). vr_chainId d = c \<and> b \<le> vr_blockNumber d \<and> vr_mirrored d \<longrightarrow> goodRow d db \<and> vr_profileId d \<noteq> None"
  obtains db' where "applyReorg c b reason db = (Inr (), db')"
    "ix_events db' = map (\<lambda>e. if ce_chainId e = c \<and> b \<le> ce_blockNumber e \<and> \<not> ce_removed e then e\<lparr>ce_removed := True\<rparr> else e) (ix_events db)"
    "\<forall>d \<in> set (ix_deposits db'). vr_chainId d = c \<and> b \<le> vr_blockNumber d \<longrightarrow> \<not> vr_mirrored d"
    "ix_cursors db' = map (\<lambda>r. if cu_chainId r = c then r\<lparr>cu_lastBlock := max (b - 1) 0, cu_lastLogIndex := 0\<rparr> else r) (ix_cursors db)"
proof -
  let ?db = "db\<lparr>ix_reorgs := ix_reorgs db @ [\<lparr>rg_chainId = c, rg_fromBlock = b, rg_reason = reason\<rparr>],
    ix_events := map (\<lambda>e. if ce_chainId e = c \<and> b \<le> ce_blockNumber e \<and> \<not> ce_removed e then e\<lparr>ce_removed := True\<rparr> else e) (ix_events db)\<rparr>"
  let ?ds = "filter (\<lambda>d. vr_chainId d = c \<and> b \<le> vr_blockNumber d \<and> vr_mirrored d \<and> vr_profileId d \<noteq> None) (ix_deposits db)"
  have "\<forall>d \<in> set ?ds. goodRow d ?db" using assms by (auto simp: goodRow_def knownProfile_def)
  from rewindRows_succeed [OF this] obtain db2 where r:
    "forEachS (\<lambda>d. case vr_profileId d of None \<Rightarrow> returnS () | Some p \<Rightarrow> rewindRow d p) ?ds ?db = (Inr (), db2)" "sameFrame ?db db2"
    "ix_deposits db2 = map (\<lambda>r. if \<exists>d \<in> set ?ds. sameRow (vr_chainId d) (vr_txHash d) (vr_logIndex d) r then r\<lparr>vr_mirrored := False\<rparr> else r) (ix_deposits db)"
    by auto
  have run: "rewindDepositsFromBlock c b ?db = (Inr (), db2)" using r(1) by (simp add: rewindDepositsFromBlock_def)
  show thesis
  proof (rule that)
    have "applyReorg c b reason db = bindS (rewindDepositsFromBlock c b) (\<lambda>_. setCursor c (if b > 0 then b - 1 else 0) 0) ?db"
      by (simp only: applyReorg_def bindS_def modifyS_def markEventsRemovedFromBlock_def prod.case sum.case) simp
    then show "applyReorg c b reason db = (Inr (), snd (setCursor c (if b > 0 then b - 1 else 0) 0 db2))"
      by (simp only: bindS_def run prod.case sum.case) (simp add: setCursor_def modifyS_def)
    show "\<forall>d \<in> set (ix_deposits (snd (setCursor c (if b > 0 then b - 1 else 0) 0 db2))).
        vr_chainId d = c \<and> b \<le> vr_blockNumber d \<longrightarrow> \<not> vr_mirrored d"
    proof (intro ballI impI notI)
      fix d assume d: "d \<in> set (ix_deposits (snd (setCursor c (if b > 0 then b - 1 else 0) 0 db2)))"
        "vr_chainId d = c \<and> b \<le> vr_blockNumber d" "vr_mirrored d"
      have "d \<in> set (ix_deposits db2)" using d(1) by (simp add: setCursor_def modifyS_def)
      then obtain x where x: "x \<in> set (ix_deposits db)"
        "d = (if \<exists>d \<in> set ?ds. sameRow (vr_chainId d) (vr_txHash d) (vr_logIndex d) x then x\<lparr>vr_mirrored := False\<rparr> else x)"
        unfolding r(3) set_map by blast
      then have keep: "d = x" "\<forall>y \<in> set ?ds. \<not> sameRow (vr_chainId y) (vr_txHash y) (vr_logIndex y) x" using d(3) by (auto split: if_splits)
      then have "x \<in> set ?ds" using assms [rule_format, OF x(1)] x(1) d(2,3) by simp
      then show False using keep(2) by (auto simp: sameRow_def)
    qed
  qed (use r(2) in \<open>auto simp: setCursor_def modifyS_def sameFrame_def\<close>)
qed

lemma handleReorg_found:
  "detectReorg (xr_chainId rt) (cl_blockHash client) cur (xc_lookback cfg) db = Some b \<Longrightarrow>
   applyReorg (xr_chainId rt) b ''block_hash_mismatch'' db = (Inr (), db') \<Longrightarrow>
   handleReorg cfg rt client cur db = (Inr (max (b - 1) 0), db')"
  by (simp add: handleReorg_def bindS_def returnS_def max_def)

lemma marked_removed:
  "\<forall>e \<in> set (map (\<lambda>e. if ce_chainId e = c \<and> b \<le> ce_blockNumber e \<and> \<not> ce_removed e then e\<lparr>ce_removed := True\<rparr> else e) es).
     ce_chainId e = c \<and> b \<le> ce_blockNumber e \<longrightarrow> ce_removed e"
proof (intro ballI impI)
  fix x assume "x \<in> set (map (\<lambda>e. if ce_chainId e = c \<and> b \<le> ce_blockNumber e \<and> \<not> ce_removed e then e\<lparr>ce_removed := True\<rparr> else e) es)"
    and x: "ce_chainId x = c \<and> b \<le> ce_blockNumber x"
  then obtain e where "x = (if ce_chainId e = c \<and> b \<le> ce_blockNumber e \<and> \<not> ce_removed e then e\<lparr>ce_removed := True\<rparr> else e)"
    unfolding set_map by blast
  then show "ce_removed x" using x by (cases "ce_chainId e = c \<and> b \<le> ce_blockNumber e \<and> \<not> ce_removed e") (simp_all only: if_True if_False, simp, blast)
qed

lemma cursor_moved:
  "ix_cursors db' = map (\<lambda>r. if cu_chainId r = c then r\<lparr>cu_lastBlock := n, cu_lastLogIndex := i\<rparr> else r) (ix_cursors db) \<Longrightarrow>
   getCursorBlock c db' = map_option (\<lambda>_. n) (getCursorBlock c db)"
proof -
  have "map_option cu_lastBlock (find (\<lambda>r. cu_chainId r = c)
      (map (\<lambda>r. if cu_chainId r = c then r\<lparr>cu_lastBlock := n, cu_lastLogIndex := i\<rparr> else r) rs)) =
    map_option (\<lambda>_. n) (find (\<lambda>r. cu_chainId r = c) rs)" for rs
    by (induction rs) auto
  then show "ix_cursors db' = map (\<lambda>r. if cu_chainId r = c then r\<lparr>cu_lastBlock := n, cu_lastLogIndex := i\<rparr> else r) (ix_cursors db) \<Longrightarrow>
      getCursorBlock c db' = map_option (\<lambda>_. n) (getCursorBlock c db)"
    by (simp add: getCursorBlock_def cursorRow_def option.map_comp comp_def)
qed

section \<open>Properties\<close>

definition tx_a :: string where
  "tx_a = ''0x'' @ replicate 64 (CHR ''a'')"

definition noArgs :: LogArgs where
  "noArgs = \<lparr>ag_user = None, ag_player = None, ag_to = None, ag_amount = None, ag_fromWallet = None, ag_sessionId = None,
     ag_templateId = None, ag_state = None\<rparr>"

text \<open>A deposit of five dollars by the wallet \<open>0xw\<close> of profile \<open>p\<close>, in a given block.\<close>

definition demo_deposit :: "int \<Rightarrow> string \<Rightarrow> int \<Rightarrow> int \<Rightarrow> ChainLog" where
  "demo_deposit block bhash i amount = \<lparr>lo_transactionHash = Some tx_a, lo_logIndex = Some i, lo_blockNumber = Some block,
     lo_blockHash = Some bhash, lo_address = ''0xv'', lo_eventName = Some ''Deposited'',
     lo_args = noArgs\<lparr>ag_user := Some ''0xw'', ag_amount := Some amount\<rparr>, lo_removed = False\<rparr>"

definition demo_db :: indexer_db where
  "demo_db = \<lparr>ix_ledger = newLedger [(''p'', Some ''onchain'')], ix_events = [], ix_deposits = [], ix_withdrawals = [], ix_cursors = [],
     ix_reorgs = [], ix_wallets = [(''0xw'', ''p'')], ix_arena = [], ix_sessions = [], ix_batches = [], ix_tickets = [], ix_seatLocks = []\<rparr>"

definition demo_cfg :: IndexerConfig where
  "demo_cfg = \<lparr>xc_confirmations = 3, xc_blockBatch = 2000, xc_lookback = 64\<rparr>"

definition demo_rt :: IndexerRuntime where
  "demo_rt = \<lparr>xr_chainId = 1, xr_vault = ''0xv'', xr_deploymentBlock = 5,
     xr_sources = [\<lparr>wa_address = ''0xv'', wa_events = [''Deposited'']\<rparr>]\<rparr>"

definition demo_client :: "int \<Rightarrow> (int \<Rightarrow> string option) \<Rightarrow> ChainLog list \<Rightarrow> ChainClient" where
  "demo_client head hashes logs = \<lparr>cl_head = head, cl_blockHash = hashes,
     cl_logs = \<lambda>a e x y. Some (filter (\<lambda>l. x \<le> orElse (lo_blockNumber l) 0 \<and> orElse (lo_blockNumber l) 0 \<le> y) logs)\<rparr>"

definition before_reorg :: ChainClient where
  "before_reorg = demo_client 20 (\<lambda>n. Some ''A'') [demo_deposit 10 ''A'' 0 5000000]"

text \<open>The block of the deposit was replaced, and its transaction is now in the next block.\<close>

definition after_reorg :: ChainClient where
  "after_reorg = demo_client 21 (\<lambda>n. if n = 10 then Some ''B'' else if n = 11 then Some ''C'' else Some ''A'') [demo_deposit 11 ''C'' 0 5000000]"

definition ticks :: "ChainClient list \<Rightarrow> indexer_db" where
  "ticks clients = foldl (\<lambda>db c. snd (tick demo_cfg demo_rt c False db)) demo_db clients"

text \<open>What is seen of a state: the balance of the player, the marks of the deposit rows, the marks of the event rows, the
  start of a reorganisation that the next tick would detect, and the reorganisations on record.\<close>

definition report :: "ChainClient \<Rightarrow> indexer_db \<Rightarrow> int \<times> bool list \<times> bool list \<times> int option \<times> int list" where
  "report client db = (availableCents ''p'' db, map vr_mirrored (ix_deposits db), map ce_removed (ix_events db),
     detectReorg 1 (cl_blockHash client) (orElse (getCursorBlock 1 db) 0) 64 db, map rg_fromBlock (ix_reorgs db))"

lemma report_before: "report before_reorg (ticks [before_reorg]) = (500, [True], [False], None, [])"
  by code_simp

lemma report_after: "report after_reorg (ticks [before_reorg, after_reorg]) = (0, [True], [False], Some 10, [10])"
  by code_simp

lemma report_later: "report after_reorg (ticks [before_reorg, after_reorg, after_reorg]) = (0, [True], [False], Some 10, [10, 10])"
  by code_simp

text \<open>A reorganisation that moves a deposit to the next block loses the deposit and is detected for ever. The deposit is
  credited at first. After the reorganisation the credit is undone, and since the deposit arrives under the same transaction
  hash, its idempotency key is taken: the row is marked as mirrored, but nothing is credited. The row of the event keeps the
  old block number with the new block hash, so that the next tick detects the same reorganisation again.\<close>

theorem moved_deposit_is_lost:
  "report before_reorg (ticks [before_reorg]) = (500, [True], [False], None, []) \<and>
   report after_reorg (ticks [before_reorg, after_reorg]) = (0, [True], [False], Some 10, [10]) \<and>
   report after_reorg (ticks [before_reorg, after_reorg, after_reorg]) = (0, [True], [False], Some 10, [10, 10])"
  by (intro conjI report_before report_after report_later)

lemma same_transaction_deposit_lost:
  "availableCents ''p'' (ticks [demo_client 20 (\<lambda>n. Some ''A'') [demo_deposit 10 ''A'' 0 5000000, demo_deposit 10 ''A'' 1 7000000]]) = 500"
  by code_simp

text \<open>A deposit of less than half a cent stops the indexer. The ledger refuses the entry, the tick throws before it
  moves the cursor, and every further tick on this chain throws in the same way and changes nothing.\<close>

definition dust :: ChainClient where
  "dust = demo_client 20 (\<lambda>n. Some ''A'') [demo_deposit 10 ''A'' 0 4999, demo_deposit 11 ''A'' 1 5000000]"

lemma dust_fixpoint:
  "tick demo_cfg demo_rt dust False (ticks [dust]) = (Inl (LedgerFailure AmountColumn), ticks [dust])"
  "getCursorBlock 1 (ticks [dust]) = Some 5"
  by code_simp+

theorem dust_deposit_stops_indexer:
  "(let db = ticks (replicate (Suc n) dust)
    in fst (tick demo_cfg demo_rt dust False db) = Inl (LedgerFailure AmountColumn) \<and> getCursorBlock 1 db = Some 5)"
proof -
  have "foldl (\<lambda>db c. snd (tick demo_cfg demo_rt c False db)) (ticks [dust]) (replicate n dust) = ticks [dust]"
    by (induction n) (simp_all add: dust_fixpoint(1))
  moreover have "ticks (replicate (Suc n) dust) =
      foldl (\<lambda>db c. snd (tick demo_cfg demo_rt c False db)) (ticks [dust]) (replicate n dust)"
    by (simp add: ticks_def)
  ultimately show ?thesis using dust_fixpoint by (simp add: Let_def)
qed




text \<open>A state with a mirrored deposit in block 10, which the chain has since replaced.\<close>

definition mirrored_db :: indexer_db where
  "mirrored_db = demo_db\<lparr>
     ix_events := [\<lparr>ce_chainId = 1, ce_txHash = tx_a, ce_logIndex = 0, ce_blockNumber = 10, ce_blockHash = Some ''A'', ce_address = ''0xv'',
       ce_eventName = ''Deposited'', ce_args = noArgs, ce_removed = False\<rparr>],
     ix_deposits := [\<lparr>vr_chainId = 1, vr_txHash = tx_a, vr_logIndex = 0, vr_blockNumber = 10, vr_wallet = ''0xw'', vr_to = None,
       vr_amountRaw = 5000000, vr_amountUsdc = 5, vr_profileId = Some ''p'', vr_mirrored = True\<rparr>],
     ix_cursors := [\<lparr>cu_chainId = 1, cu_lastBlock = 17, cu_lastLogIndex = 0, cu_vault = Some ''0xv'', cu_deploymentBlock = 5\<rparr>]\<rparr>"


text \<open>A failed request for logs skips its blocks. When every request for logs fails, a tick on a chain whose cursor is
  current nevertheless succeeds and moves the cursor over the blocks it could not read, without an event; no later tick, with every request
  answered, reads them or detects anything.\<close>

definition offline :: "ChainClient \<Rightarrow> ChainClient" where
  "offline client = client\<lparr>cl_logs := \<lambda>a e x y. None\<rparr>"

definition passed_db :: indexer_db where
  "passed_db = demo_db\<lparr>ix_cursors := [\<lparr>cu_chainId = 1, cu_lastBlock = 17, cu_lastLogIndex = 0, cu_vault = Some ''0xv'',
     cu_deploymentBlock = 5\<rparr>]\<rparr>"

lemma offline_tick: "tick demo_cfg demo_rt (offline before_reorg) False demo_db = (Inr (), passed_db)"
  by code_simp

lemma online_tick: "tick demo_cfg demo_rt before_reorg False passed_db = (Inr (), passed_db)"
  by code_simp

theorem failed_requests_skip_blocks:
  "fst (tick demo_cfg demo_rt (offline before_reorg) False demo_db) = Inr () \<and>
   (let db = ticks (offline before_reorg # replicate n before_reorg)
    in getCursorBlock 1 db = Some 17 \<and> ix_events db = [] \<and> ix_deposits db = [] \<and>
       detectReorg 1 (cl_blockHash before_reorg) 17 64 db = None)"
proof -
  have "foldl (\<lambda>db c. snd (tick demo_cfg demo_rt c False db)) passed_db (replicate n before_reorg) = passed_db"
    by (induction n) (simp_all add: online_tick)
  then have "ticks (offline before_reorg # replicate n before_reorg) = passed_db" by (simp add: ticks_def offline_tick)
  moreover have "getCursorBlock 1 passed_db = Some 17" "ix_events passed_db = []" "ix_deposits passed_db = []"
    by (simp_all add: getCursorBlock_def cursorRow_def passed_db_def demo_db_def)
  moreover have "detectReorg 1 (cl_blockHash before_reorg) 17 64 passed_db = None" by code_simp
  ultimately show ?thesis by (simp add: offline_tick Let_def)
qed

end
