(* ===== verification/Enclave.thy ===== *)
theory Enclave
  imports Watchtower
begin

text \<open>
  \<^verbatim>\<open>services/dealer-enclave/src\<close>: the confidential dealer. A session commits to secrets, is bound to a VRF result, prepares
  committed decks and attests their batch, opens public cards, seals private cards to seats and releases a key only against
  a verified attestation document.

  Signatures, key agreement and the authenticated cipher are parameters (\<open>enclave_lib\<close>), and so is the parser of the sealed
  text; random values and the clock are arguments of the operations that draw them. Numbers that the request schemas
  restrict to natural numbers are natural numbers. A computation that may not return, because a shuffle rejects words
  forever, is \<open>None\<close>. The HTTP server is not part of the model.
\<close>

section \<open>Parameters and results\<close>

record enclave_lib =
  el_address :: "Hex \<Rightarrow> Hex"
  el_sign :: "Hex \<Rightarrow> Hex \<Rightarrow> Hex"
  el_recover :: "Hex \<Rightarrow> Hex \<Rightarrow> Hex option"
  el_publicKey :: "Hex \<Rightarrow> Hex"
  el_agree :: "Hex \<Rightarrow> Hex \<Rightarrow> Hex"
  el_encrypt :: "Hex \<Rightarrow> Hex \<Rightarrow> Hex \<Rightarrow> string \<Rightarrow> Hex"
  el_decrypt :: "Hex \<Rightarrow> Hex \<Rightarrow> Hex \<Rightarrow> Hex \<Rightarrow> string option"

datatype enclave_error =
    DeckFailure deck_error | EncodingFailure enc_error | BadEpoch | NoSession string int | VrfNotBound | HandsMismatch |
    SecretIndexOutOfRange nat | ProofSelfCheckFailed | AttestationNotReady | UnregisteredMeasurement Hex | BadKeyLength |
    CiphertextTooShort | AadMismatch | DecryptionFailed | BadPlaintext

type_synonym 'a erun = "(enclave_error + 'a) option"

fun bindX :: "'a erun \<Rightarrow> ('a \<Rightarrow> 'b erun) \<Rightarrow> 'b erun" where
  "bindX None f = None"
| "bindX (Some (Inl e)) f = Some (Inl e)"
| "bindX (Some (Inr x)) f = f x"

fun liftRun :: "'a run \<Rightarrow> 'a erun" where
  "liftRun None = None"
| "liftRun (Some (Inl e)) = Some (Inl (DeckFailure e))"
| "liftRun (Some (Inr x)) = Some (Inr x)"

fun liftEnclave :: "enc_error + 'a \<Rightarrow> enclave_error + 'a" where
  "liftEnclave (Inl e) = Inl (EncodingFailure e)"
| "liftEnclave (Inr x) = Inr x"

fun mapX :: "('a \<Rightarrow> 'b erun) \<Rightarrow> 'a list \<Rightarrow> 'b list erun" where
  "mapX f [] = Some (Inr [])"
| "mapX f (x # xs) = bindX (f x) (\<lambda>y. bindX (mapX f xs) (\<lambda>ys. Some (Inr (y # ys))))"

lemma bindX_ok_iff: "bindX m f = Some (Inr y) \<longleftrightarrow> (\<exists>x. m = Some (Inr x) \<and> f x = Some (Inr y))"
  by (cases "(m, f)" rule: bindX.cases) auto

lemma bindX_okE [elim!]:
  assumes "bindX m f = Some (Inr y)"
  obtains x where "m = Some (Inr x)" "f x = Some (Inr y)"
  using assms by (auto simp: bindX_ok_iff)

lemma liftRun_ok_iff [simp]: "liftRun m = Some (Inr x) \<longleftrightarrow> m = Some (Inr x)"
  by (cases m rule: liftRun.cases) auto

lemma liftEnclave_Inr_iff [simp]: "liftEnclave m = Inr x \<longleftrightarrow> m = Inr x"
  by (cases m) auto

lemma mapX_ok: "mapX f xs = Some (Inr ys) \<Longrightarrow> length ys = length xs \<and> (\<forall>i < length xs. f (xs ! i) = Some (Inr (ys ! i)))"
  by (induction xs arbitrary: ys) (auto simp: nth_Cons split: nat.splits)

section \<open>Constants\<close>

definition RANDOMNESS_POLICY_ID :: string where
  "RANDOMNESS_POLICY_ID = ''MOZETTO_RANDOMNESS_V2''"

definition RANDOMNESS_POLICY_HASH :: "viem \<Rightarrow> Hex" where
  "RANDOMNESS_POLICY_HASH v = keccak256 v (toBytes v RANDOMNESS_POLICY_ID)"

definition DOMAIN_DEALER_BATCH_ATTESTATION_V1 :: "viem \<Rightarrow> Hex" where
  "DOMAIN_DEALER_BATCH_ATTESTATION_V1 v = keccak256 v (toBytes v ''MOZETTO_DEALER_BATCH_ATTESTATION_V1'')"

definition DOMAIN_MOCK_NITRO_ATTESTATION_V1 :: "viem \<Rightarrow> Hex" where
  "DOMAIN_MOCK_NITRO_ATTESTATION_V1 v = keccak256 v (toBytes v ''MOZETTO_MOCK_NITRO_ATTESTATION_V1'')"

definition DOMAIN_SEAT_SEALED_CARDS_V1 :: "viem \<Rightarrow> Hex" where
  "DOMAIN_SEAT_SEALED_CARDS_V1 v = keccak256 v (toBytes v ''MOZETTO_SEAT_SEALED_CARDS_V1'')"

definition MOCK_APPROVED_PCR0 :: Hex where
  "MOCK_APPROVED_PCR0 = ''0x'' @ concat (replicate 21 ''054'') @ ''0''"

definition MOCK_APPROVED_PCR1 :: Hex where
  "MOCK_APPROVED_PCR1 = ''0x'' @ concat (replicate 21 ''054'') @ ''1''"

definition MOCK_APPROVED_PCR2 :: Hex where
  "MOCK_APPROVED_PCR2 = ''0x'' @ concat (replicate 21 ''054'') @ ''2''"

section \<open>Measurements\<close>

record EnclaveMeasurement =
  me_measurementHash :: Hex
  me_pcr0 :: Hex
  me_pcr1 :: Hex
  me_pcr2 :: Hex
  me_pcr3 :: "Hex option"
  me_label :: "string option"

definition stripHex :: "string \<Rightarrow> string" where
  "stripHex raw = (if take 2 raw = ''0x'' then drop 2 raw else raw)"

definition padHex :: "nat \<Rightarrow> string \<Rightarrow> string" where
  "padHex n s = replicate (n - length s) (CHR ''0'') @ s"

definition normalizeBytes32 :: "Hex \<Rightarrow> Hex" where
  "normalizeBytes32 raw =
     (let p = padHex 64 (stripHex raw) in ''0x'' @ js_lower (drop (length p - 64) p))"

definition measurementHashFromPcrs :: "viem \<Rightarrow> Hex \<Rightarrow> Hex \<Rightarrow> Hex \<Rightarrow> Hex option \<Rightarrow> enc_error + Hex" where
  "measurementHashFromPcrs v pcr0 pcr1 pcr2 pcr3 =
     keccakEnc v ''bytes32,bytes32,bytes32,bytes32''
       [AHex (normalizeBytes32 pcr0), AHex (normalizeBytes32 pcr1), AHex (normalizeBytes32 pcr2),
        AHex (normalizeBytes32 (orElse pcr3 ZERO32))]"

definition defaultMockMeasurement :: "viem \<Rightarrow> enc_error + EnclaveMeasurement" where
  "defaultMockMeasurement v =
     bindE (measurementHashFromPcrs v MOCK_APPROVED_PCR0 MOCK_APPROVED_PCR1 MOCK_APPROVED_PCR2 None) (\<lambda>h.
       Inr \<lparr>me_measurementHash = h, me_pcr0 = MOCK_APPROVED_PCR0, me_pcr1 = MOCK_APPROVED_PCR1,
            me_pcr2 = MOCK_APPROVED_PCR2, me_pcr3 = None, me_label = Some ''mock-wp054-local''\<rparr>)"

text \<open>The registry is a map from hashes in lower case.\<close>

type_synonym ApprovedMeasurementRegistry = "string \<Rightarrow> EnclaveMeasurement option"

definition registry_register :: "EnclaveMeasurement \<Rightarrow> ApprovedMeasurementRegistry \<Rightarrow> ApprovedMeasurementRegistry" where
  "registry_register m r = r(js_lower (me_measurementHash m) \<mapsto> m)"

definition newRegistry_of :: "EnclaveMeasurement list \<Rightarrow> ApprovedMeasurementRegistry" where
  "newRegistry_of initial = fold registry_register initial (\<lambda>_. None)"

definition registry_get :: "ApprovedMeasurementRegistry \<Rightarrow> Hex \<Rightarrow> EnclaveMeasurement option" where
  "registry_get r h = r (js_lower h)"

definition isApproved :: "ApprovedMeasurementRegistry \<Rightarrow> Hex \<Rightarrow> bool" where
  "isApproved r h \<longleftrightarrow> r (js_lower h) \<noteq> None"

section \<open>Attestation documents\<close>

datatype AttestationMode = Mock_mode | Nitro_mode

record MockAttestationFields =
  ma_moduleId :: string
  ma_timestamp :: int
  ma_pcr0 :: Hex
  ma_pcr1 :: Hex
  ma_pcr2 :: Hex
  ma_pcr3 :: "Hex option"
  ma_publicKey :: Hex
  ma_userData :: Hex
  ma_nonce :: "Hex option"
  ma_certificateChainStub :: "string option"
  ma_signature :: Hex

record AttestationDocument =
  ad_mode :: AttestationMode
  ad_rawNsmDocument :: "nat list option"
  ad_mock :: "MockAttestationFields option"

datatype verify_reason =
    ExpectedMock | OutOfWindow | MeasurementNotApproved | InvalidSignature | SignerMismatch | NotNitro | MissingNsm | NotImplemented

datatype AttestationVerifyResult =
    VerifyOk AttestationMode EnclaveMeasurement Hex Hex bool
  | VerifyFail AttestationMode verify_reason

datatype AttestationVerifier = MockAttestationVerifier ApprovedMeasurementRegistry int | NitroAttestationVerifier

definition resolveAttestationMode :: "string option \<Rightarrow> string option \<Rightarrow> AttestationMode" where
  "resolveAttestationMode attestationMode dealerMode =
     (let raw = js_lower (js_trim (orElse attestationMode (orElse dealerMode ''mock'')))
      in if raw = ''nitro'' \<or> raw = ''aws'' \<or> raw = ''production'' then Nitro_mode else Mock_mode)"

definition createAttestationVerifier :: "viem \<Rightarrow> AttestationMode \<Rightarrow> enc_error + AttestationVerifier" where
  "createAttestationVerifier v mode =
     (if mode = Nitro_mode then Inr NitroAttestationVerifier
      else bindE (defaultMockMeasurement v) (\<lambda>m. Inr (MockAttestationVerifier (newRegistry_of [m]) (60 * 60 * 1000))))"

definition hashMockAttestationFields :: "viem \<Rightarrow> MockAttestationFields \<Rightarrow> enc_error + Hex" where
  "hashMockAttestationFields v f =
     keccakEnc v ''bytes32,string,uint64,bytes32,bytes32,bytes32,bytes32,bytes,bytes32,bytes32''
       [AHex (DOMAIN_MOCK_NITRO_ATTESTATION_V1 v), AHex (toBytes v (ma_moduleId f)), AInt (ma_timestamp f),
        AHex (ma_pcr0 f), AHex (ma_pcr1 f), AHex (ma_pcr2 f), AHex (orElse (ma_pcr3 f) ZERO32), AHex (ma_publicKey f),
        AHex (ma_userData f), AHex (orElse (ma_nonce f) ZERO32)]"

definition addressAsPublicKey :: "Hex \<Rightarrow> Hex" where
  "addressAsPublicKey address = ''0x'' @ padHex 64 (js_lower (stripHex address))"

definition publicKeyToAddress :: "Hex \<Rightarrow> Hex" where
  "publicKeyToAddress publicKey =
     (let hex = stripHex publicKey
      in if length hex = 64 \<and> take 24 hex = replicate 24 (CHR ''0'') then ''0x'' @ drop 24 hex
         else if length hex = 40 then ''0x'' @ hex
         else ''0x'' @ drop (length hex - 40) hex)"

definition issueMockAttestation ::
  "viem \<Rightarrow> enclave_lib \<Rightarrow> Hex \<Rightarrow> Hex \<Rightarrow> EnclaveMeasurement \<Rightarrow> Hex \<Rightarrow> int \<Rightarrow> enc_error + AttestationDocument" where
  "issueMockAttestation v lib privateKey publicKey m userData now =
     (let f = \<lparr>ma_moduleId = ''mozetto-mock-enclave'', ma_timestamp = now, ma_pcr0 = me_pcr0 m, ma_pcr1 = me_pcr1 m,
            ma_pcr2 = me_pcr2 m, ma_pcr3 = None, ma_publicKey = publicKey, ma_userData = userData, ma_nonce = None,
            ma_certificateChainStub = Some ''MOCK_NOT_AWS_PKI'', ma_signature = []\<rparr>
      in bindE (hashMockAttestationFields v f) (\<lambda>digest.
           Inr \<lparr>ad_mode = Mock_mode, ad_rawNsmDocument = None,
                ad_mock = Some (f\<lparr>ma_signature := el_sign lib privateKey digest\<rparr>)\<rparr>))"

definition verifyMock ::
  "viem \<Rightarrow> enclave_lib \<Rightarrow> ApprovedMeasurementRegistry \<Rightarrow> int \<Rightarrow> int \<Rightarrow> AttestationDocument \<Rightarrow> enc_error + AttestationVerifyResult" where
  "verifyMock v lib registry maxAgeMs now doc =
     (case (ad_mode doc, ad_mock doc) of
        (Mock_mode, Some f) \<Rightarrow>
          (let age = now - ma_timestamp f
           in if age < 0 \<or> age > maxAgeMs then Inr (VerifyFail Mock_mode OutOfWindow)
              else bindE (measurementHashFromPcrs v (ma_pcr0 f) (ma_pcr1 f) (ma_pcr2 f) (ma_pcr3 f)) (\<lambda>h.
                   case registry_get registry h of
                     None \<Rightarrow> Inr (VerifyFail Mock_mode MeasurementNotApproved)
                   | Some m \<Rightarrow>
                       bindE (hashMockAttestationFields v f) (\<lambda>digest.
                         case el_recover lib digest (ma_signature f) of
                           None \<Rightarrow> Inr (VerifyFail Mock_mode InvalidSignature)
                         | Some recovered \<Rightarrow>
                             if js_lower recovered \<noteq> js_lower (publicKeyToAddress (ma_publicKey f))
                             then Inr (VerifyFail Mock_mode SignerMismatch)
                             else Inr (VerifyOk Mock_mode m (ma_publicKey f) (ma_userData f) False))))
      | _ \<Rightarrow> Inr (VerifyFail Mock_mode ExpectedMock))"

definition verifyNitro :: "AttestationDocument \<Rightarrow> AttestationVerifyResult" where
  "verifyNitro doc =
     (if ad_mode doc \<noteq> Nitro_mode then VerifyFail Nitro_mode NotNitro
      else if ad_rawNsmDocument doc = None \<or> ad_rawNsmDocument doc = Some [] then VerifyFail Nitro_mode MissingNsm
      else VerifyFail Nitro_mode NotImplemented)"

fun verifyDocument ::
  "viem \<Rightarrow> enclave_lib \<Rightarrow> AttestationVerifier \<Rightarrow> int \<Rightarrow> AttestationDocument \<Rightarrow> enc_error + AttestationVerifyResult" where
  "verifyDocument v lib (MockAttestationVerifier registry maxAgeMs) now doc = verifyMock v lib registry maxAgeMs now doc"
| "verifyDocument v lib NitroAttestationVerifier now doc = Inr (verifyNitro doc)"

section \<open>Batch attestations\<close>

record DealerBatchAttestation =
  da_sessionId :: Hex
  da_epoch :: int
  da_dealerSecretRoot :: Hex
  da_vrfRequestId :: Hex
  da_vrfResultHash :: Hex
  da_deckBatchRoot :: Hex
  da_randomnessPolicyHash :: Hex
  da_enclaveMeasurement :: Hex
  da_createdAt :: int
  da_signature :: Hex
  da_signer :: Hex
  da_policy :: string

definition hashDealerBatchAttestation :: "viem \<Rightarrow> DealerBatchAttestation \<Rightarrow> enc_error + Hex" where
  "hashDealerBatchAttestation v f =
     keccakEnc v ''bytes32,bytes32,uint64,bytes32,bytes32,bytes32,bytes32,bytes32,bytes32,uint64''
       [AHex (DOMAIN_DEALER_BATCH_ATTESTATION_V1 v), AHex (da_sessionId f), AInt (da_epoch f), AHex (da_dealerSecretRoot f),
        AHex (da_vrfRequestId f), AHex (da_vrfResultHash f), AHex (da_deckBatchRoot f), AHex (da_randomnessPolicyHash f),
        AHex (da_enclaveMeasurement f), AInt (da_createdAt f)]"

definition signDealerBatchAttestation ::
  "viem \<Rightarrow> enclave_lib \<Rightarrow> Hex \<Rightarrow> DealerBatchAttestation \<Rightarrow> enc_error + DealerBatchAttestation" where
  "signDealerBatchAttestation v lib privateKey f =
     bindE (hashDealerBatchAttestation v f) (\<lambda>digest.
       Inr (f\<lparr>da_signature := el_sign lib privateKey digest, da_signer := el_address lib privateKey,
              da_policy := RANDOMNESS_POLICY_ID\<rparr>))"

datatype batch_reason = UnexpectedPolicy | PolicyHashMismatch | InvalidBatchSignature | SignerField | UnexpectedSigner

definition verifyDealerBatchAttestation ::
  "viem \<Rightarrow> enclave_lib \<Rightarrow> DealerBatchAttestation \<Rightarrow> Hex option \<Rightarrow> enc_error + (batch_reason + Hex)" where
  "verifyDealerBatchAttestation v lib a expectedSigner =
     (if da_policy a \<noteq> RANDOMNESS_POLICY_ID then Inr (Inl UnexpectedPolicy)
      else if js_lower (da_randomnessPolicyHash a) \<noteq> js_lower (RANDOMNESS_POLICY_HASH v) then Inr (Inl PolicyHashMismatch)
      else bindE (hashDealerBatchAttestation v a) (\<lambda>digest.
        case el_recover lib digest (da_signature a) of
          None \<Rightarrow> Inr (Inl InvalidBatchSignature)
        | Some recovered \<Rightarrow>
            if js_lower recovered \<noteq> js_lower (da_signer a) then Inr (Inl SignerField)
            else (case expectedSigner of
                    None \<Rightarrow> Inr (Inr digest)
                  | Some e \<Rightarrow> if e \<noteq> [] \<and> js_lower recovered \<noteq> js_lower e then Inr (Inl UnexpectedSigner) else Inr (Inr digest))))"

section \<open>Key release\<close>

record KmsDealerKeyPolicy =
  kp_keyId :: string
  kp_allowedMeasurementHashes :: "Hex list"

record MockKmsDealerGateway =
  km_registry :: ApprovedMeasurementRegistry
  km_policies :: "KmsDealerKeyPolicy list"
  km_secrets :: "string \<Rightarrow> Hex option"

datatype release_reason = AttestationFailed | ProductionFlag | UnknownKey | NotAllowed | SecretMissing

definition newKms :: "viem \<Rightarrow> ApprovedMeasurementRegistry \<Rightarrow> KmsDealerKeyPolicy list \<Rightarrow> enclave_error + MockKmsDealerGateway" where
  "newKms v registry policies =
     (case find (\<lambda>h. \<not> isApproved registry h) (concat (map kp_allowedMeasurementHashes policies)) of
        Some h \<Rightarrow> Inl (UnregisteredMeasurement h)
      | None \<Rightarrow> Inr \<lparr>km_registry = registry, km_policies = policies,
          km_secrets = fold (\<lambda>p s. s(kp_keyId p \<mapsto> keccak256 v (toBytes v (''mock-kms-dek:'' @ kp_keyId p)))) policies (\<lambda>_. None)\<rparr>)"

definition registerSecret :: "string \<Rightarrow> Hex \<Rightarrow> MockKmsDealerGateway \<Rightarrow> MockKmsDealerGateway" where
  "registerSecret keyId plaintextKey k = k\<lparr>km_secrets := (km_secrets k)(keyId \<mapsto> plaintextKey)\<rparr>"

fun releaseDealerKey :: "MockKmsDealerGateway \<Rightarrow> string \<Rightarrow> AttestationVerifyResult \<Rightarrow> release_reason + Hex" where
  "releaseDealerKey k keyId (VerifyFail mode reason) = Inl AttestationFailed"
| "releaseDealerKey k keyId (VerifyOk mode m publicKey userData production) =
     (if production then Inl ProductionFlag
      else case find (\<lambda>p. kp_keyId p = keyId) (km_policies k) of
             None \<Rightarrow> Inl UnknownKey
           | Some policy \<Rightarrow>
               if js_lower (me_measurementHash m) \<notin> set (map js_lower (kp_allowedMeasurementHashes policy)) then Inl NotAllowed
               else case km_secrets k keyId of
                      None \<Rightarrow> Inl SecretMissing
                    | Some s \<Rightarrow> if s = [] then Inl SecretMissing else Inr s)"

section \<open>Sealed cards\<close>

record SeatEncryptionIdentity =
  si_seatIndex :: int
  si_x25519PublicKey :: Hex

record PrivateCardPlaintext =
  pc_position :: nat
  pc_cardCode :: int
  pc_cardSalt :: Hex
  pc_cardLeaf :: Hex

record SealedPrivateCards =
  sp_sessionId :: Hex
  sp_handId :: Hex
  sp_seatIndex :: int
  sp_positions :: "nat list"
  sp_ciphertext :: Hex
  sp_ephemeralPublicKey :: Hex
  sp_nonce :: Hex
  sp_aadDigest :: Hex
  sp_policy :: string

fun joinWith :: "string \<Rightarrow> string list \<Rightarrow> string" where
  "joinWith sep [] = []"
| "joinWith sep [x] = x"
| "joinWith sep (x # y # xs) = x @ sep @ joinWith sep (y # xs)"

definition jsonText :: "string \<Rightarrow> string" where
  "jsonText s = [CHR 0x22] @ s @ [CHR 0x22]"

definition cardJson :: "PrivateCardPlaintext \<Rightarrow> string" where
  "cardJson c = ''{'' @ joinWith '','' [
     jsonText ''position'' @ '':'' @ nat_string (pc_position c), jsonText ''cardCode'' @ '':'' @ int_string (pc_cardCode c),
     jsonText ''cardSalt'' @ '':'' @ jsonText (pc_cardSalt c), jsonText ''cardLeaf'' @ '':'' @ jsonText (pc_cardLeaf c)] @ ''}''"

definition sealedText :: "PrivateCardPlaintext list \<Rightarrow> string" where
  "sealedText cards = ''{'' @ jsonText ''cards'' @ '':['' @ joinWith '','' (map cardJson cards) @ ''],'' @
     jsonText ''policy'' @ '':'' @ jsonText RANDOMNESS_POLICY_ID @ ''}''"

text \<open>\<open>Buffer.from(s, "hex")\<close> stops at the first pair that is not hexadecimal.\<close>

fun hexBytes :: "string \<Rightarrow> nat" where
  "hexBytes (a # b # s) = (if hex_digit a \<and> hex_digit b then Suc (hexBytes s) else 0)"
| "hexBytes s = 0"

definition x25519KeyFromRaw :: "Hex \<Rightarrow> enclave_error + Hex" where
  "x25519KeyFromRaw rawHex = (if hexBytes (drop 2 rawHex) \<noteq> 32 then Inl BadKeyLength else Inr rawHex)"

definition sealAadDigest :: "viem \<Rightarrow> Hex \<Rightarrow> Hex \<Rightarrow> int \<Rightarrow> nat list \<Rightarrow> Hex \<Rightarrow> enc_error + Hex" where
  "sealAadDigest v sessionId handId seatIndex positions recipientPublicKey =
     keccakEnc v ''bytes32,bytes32,bytes32,uint8,uint8[],bytes''
       [AHex (DOMAIN_SEAT_SEALED_CARDS_V1 v), AHex sessionId, AHex handId, AInt seatIndex,
        ATuples (map (\<lambda>p. [AInt (int p)]) positions), AHex recipientPublicKey]"

definition sealPrivateCardsToSeat ::
  "viem \<Rightarrow> enclave_lib \<Rightarrow> Hex \<Rightarrow> Hex \<Rightarrow> Hex \<Rightarrow> Hex \<Rightarrow> SeatEncryptionIdentity \<Rightarrow> PrivateCardPlaintext list \<Rightarrow>
     enclave_error + SealedPrivateCards" where
  "sealPrivateCardsToSeat v lib ephPriv nonce sessionId handId seat cards =
     (let positions = map pc_position cards
      in bindE (x25519KeyFromRaw (si_x25519PublicKey seat)) (\<lambda>recipient.
         let aesKey = keccak256 v (el_agree lib ephPriv recipient)
         in bindE (liftEnclave (sealAadDigest v sessionId handId (si_seatIndex seat) positions (si_x25519PublicKey seat))) (\<lambda>aadDigest.
              Inr \<lparr>sp_sessionId = sessionId, sp_handId = handId, sp_seatIndex = si_seatIndex seat, sp_positions = positions,
                   sp_ciphertext = el_encrypt lib aesKey nonce aadDigest (sealedText cards),
                   sp_ephemeralPublicKey = el_publicKey lib ephPriv, sp_nonce = nonce, sp_aadDigest = aadDigest,
                   sp_policy = RANDOMNESS_POLICY_ID\<rparr>)))"

text \<open>\<open>parse\<close> reads the \<open>cards\<close> of a JSON text.\<close>

definition unsealPrivateCards ::
  "viem \<Rightarrow> enclave_lib \<Rightarrow> (string \<Rightarrow> PrivateCardPlaintext list option) \<Rightarrow> SealedPrivateCards \<Rightarrow> Hex \<Rightarrow> Hex \<Rightarrow>
     enclave_error + PrivateCardPlaintext list" where
  "unsealPrivateCards v lib parse sealed recipientPrivateKey recipientPublicKey =
     bindE (x25519KeyFromRaw (sp_ephemeralPublicKey sealed)) (\<lambda>ephPub.
     bindE (x25519KeyFromRaw recipientPrivateKey) (\<lambda>recipPriv.
       let aesKey = keccak256 v (el_agree lib recipPriv ephPub)
       in if hexBytes (drop 2 (sp_ciphertext sealed)) < 16 then Inl CiphertextTooShort
          else bindE (liftEnclave (sealAadDigest v (sp_sessionId sealed) (sp_handId sealed) (sp_seatIndex sealed)
                        (sp_positions sealed) recipientPublicKey)) (\<lambda>expectedAad.
               if js_lower expectedAad \<noteq> js_lower (sp_aadDigest sealed) then Inl AadMismatch
               else case el_decrypt lib aesKey (sp_nonce sealed) (sp_aadDigest sealed) (sp_ciphertext sealed) of
                      None \<Rightarrow> Inl DecryptionFailed
                    | Some text \<Rightarrow> (case parse text of None \<Rightarrow> Inl BadPlaintext | Some cards \<Rightarrow> Inr cards))))"

section \<open>The runtime\<close>

record EnclaveSessionState =
  es_sessionId :: string
  es_sessionIdBytes32 :: Hex
  es_epoch :: int
  es_secrets :: "Hex list"
  es_dealerSecretRoot :: Hex
  es_vrfRequestId :: "Hex option"
  es_vrfResultHash :: "Hex option"
  es_deckRoots :: "Hex list"
  es_deckBatchRoot :: "Hex option"
  es_attestation :: "DealerBatchAttestation option"
  es_attestationDocument :: "AttestationDocument option"

record EnclaveDealerRuntime =
  er_sessions :: "string \<Rightarrow> EnclaveSessionState option"
  er_signingKey :: Hex
  er_registry :: ApprovedMeasurementRegistry
  er_verifier :: AttestationVerifier
  er_kms :: MockKmsDealerGateway
  er_mode :: AttestationMode
  er_measurement :: EnclaveMeasurement

record EnclaveRuntimeOptions =
  eo_enclaveSigningKey :: "Hex option"
  eo_measurementRegistry :: "ApprovedMeasurementRegistry option"
  eo_attestationVerifier :: "AttestationVerifier option"
  eo_kms :: "MockKmsDealerGateway option"

definition localSigningKey :: Hex where
  "localSigningKey = ''0xdbda1821b80551c9d65939329250298aa3472ba22feea921c0cf5d620ea67b97''"

definition newRuntime ::
  "viem \<Rightarrow> Hex option \<Rightarrow> AttestationMode \<Rightarrow> EnclaveRuntimeOptions \<Rightarrow> enclave_error + EnclaveDealerRuntime" where
  "newRuntime v envKey mode opts =
     bindE (liftEnclave (defaultMockMeasurement v)) (\<lambda>measurement.
       let registry = orElse (eo_measurementRegistry opts) (newRegistry_of [measurement])
       in bindE (case eo_attestationVerifier opts of
                   Some x \<Rightarrow> Inr x | None \<Rightarrow> liftEnclave (createAttestationVerifier v mode)) (\<lambda>verifier.
          bindE (case eo_kms opts of
                   Some k \<Rightarrow> Inr k
                 | None \<Rightarrow> newKms v registry [\<lparr>kp_keyId = ''mock-dealer-dek'',
                     kp_allowedMeasurementHashes = [me_measurementHash measurement]\<rparr>]) (\<lambda>kms.
            Inr \<lparr>er_sessions = (\<lambda>_. None), er_signingKey = orElse (eo_enclaveSigningKey opts) (orElse envKey localSigningKey),
                 er_registry = registry, er_verifier = verifier, er_kms = kms, er_mode = mode, er_measurement = measurement\<rparr>)))"

datatype epoch_arg = EpochNumber int | EpochText string

fun parseEpoch :: "epoch_arg \<Rightarrow> enclave_error + int" where
  "parseEpoch (EpochNumber n) = Inr n"
| "parseEpoch (EpochText s) = (case parseBigInt s of None \<Rightarrow> Inl BadEpoch | Some n \<Rightarrow> Inr n)"

definition enclaveKey :: "string \<Rightarrow> int \<Rightarrow> string" where
  "enclaveKey sessionId epoch = sessionId @ ''::'' @ int_string epoch"

definition requireSession :: "EnclaveDealerRuntime \<Rightarrow> string \<Rightarrow> int \<Rightarrow> enclave_error + EnclaveSessionState" where
  "requireSession rt sessionId epoch =
     (case er_sessions rt (enclaveKey sessionId epoch) of
        None \<Rightarrow> Inl (NoSession sessionId epoch) | Some s \<Rightarrow> Inr s)"

text \<open>The session and the epoch of a request.\<close>

definition locate :: "EnclaveDealerRuntime \<Rightarrow> string \<Rightarrow> epoch_arg \<Rightarrow> enclave_error + int \<times> EnclaveSessionState" where
  "locate rt sessionId e =
     bindE (parseEpoch e) (\<lambda>epoch. bindE (requireSession rt sessionId epoch) (\<lambda>state. Inr (epoch, state)))"

definition putSession :: "string \<Rightarrow> int \<Rightarrow> EnclaveSessionState \<Rightarrow> EnclaveDealerRuntime \<Rightarrow> EnclaveDealerRuntime" where
  "putSession sessionId epoch state rt = rt\<lparr>er_sessions := (er_sessions rt)(enclaveKey sessionId epoch \<mapsto> state)\<rparr>"

definition toBytes32 :: "viem \<Rightarrow> string \<Rightarrow> Hex" where
  "toBytes32 v raw =
     (if is_hex32 raw then js_lower raw
      else let hex = stripHex raw
           in if length hex = 64 \<and> list_all hex_digit hex then ''0x'' @ js_lower hex else keccak256 v (toBytes v raw))"

record CommitBatchBody =
  cb_sessionId :: string
  cb_epoch :: epoch_arg
  cb_secretCount :: "nat option"

record CommitBatchResult =
  cr_sessionIdBytes32 :: Hex
  cr_epoch :: int
  cr_dealerSecretRoot :: Hex
  cr_secretCount :: nat
  cr_enclaveMeasurement :: Hex

definition commitBatch ::
  "viem \<Rightarrow> (nat \<Rightarrow> Hex) \<Rightarrow> CommitBatchBody \<Rightarrow> EnclaveDealerRuntime \<Rightarrow> (enclave_error + CommitBatchResult) \<times> EnclaveDealerRuntime" where
  "commitBatch v random body rt =
     (case parseEpoch (cb_epoch body) of
        Inl e \<Rightarrow> (Inl e, rt)
      | Inr epoch \<Rightarrow>
          (let secretCount = orElse (cb_secretCount body) 32;
               sessionIdBytes32 = toBytes32 v (cb_sessionId body);
               secrets = map random [0..<secretCount]
           in case buildSecretLeaves v sessionIdBytes32 epoch secrets of
                Inl e \<Rightarrow> (Inl (DeckFailure e), rt)
              | Inr leaves \<Rightarrow>
                  (let dealerSecretRoot = buildDealerSecretRoot v leaves
                   in (Inr \<lparr>cr_sessionIdBytes32 = sessionIdBytes32, cr_epoch = epoch, cr_dealerSecretRoot = dealerSecretRoot,
                         cr_secretCount = secretCount, cr_enclaveMeasurement = me_measurementHash (er_measurement rt)\<rparr>,
                       putSession (cb_sessionId body) epoch
                         \<lparr>es_sessionId = cb_sessionId body, es_sessionIdBytes32 = sessionIdBytes32, es_epoch = epoch,
                          es_secrets = secrets, es_dealerSecretRoot = dealerSecretRoot, es_vrfRequestId = None,
                          es_vrfResultHash = None, es_deckRoots = [], es_deckBatchRoot = None, es_attestation = None,
                          es_attestationDocument = None\<rparr> rt))))"

record BindVrfBody =
  bv_sessionId :: string
  bv_epoch :: epoch_arg
  bv_vrfRequestId :: string
  bv_vrfResultHash :: string

definition bindVrf :: "viem \<Rightarrow> BindVrfBody \<Rightarrow> EnclaveDealerRuntime \<Rightarrow> (enclave_error + Hex \<times> Hex \<times> Hex) \<times> EnclaveDealerRuntime" where
  "bindVrf v body rt =
     (case locate rt (bv_sessionId body) (bv_epoch body) of
        Inl e \<Rightarrow> (Inl e, rt)
      | Inr (epoch, state) \<Rightarrow>
          (let requestId = toBytes32 v (bv_vrfRequestId body); resultHash = toBytes32 v (bv_vrfResultHash body)
           in (Inr (requestId, resultHash, es_dealerSecretRoot state),
               putSession (bv_sessionId body) epoch
                 (state\<lparr>es_vrfRequestId := Some requestId, es_vrfResultHash := Some resultHash\<rparr>) rt)))"

record PrepareDecksBody =
  pb_sessionId :: string
  pb_epoch :: epoch_arg
  pb_handNumbers :: "nat list"
  pb_secretIndices :: "nat list"
  pb_vrfWord :: string

record PreparedHand =
  ph_handNumber :: nat
  ph_handId :: Hex
  ph_deckRoot :: Hex
  ph_secretIndex :: nat

record PrepareDecksResult =
  pr_hands :: "PreparedHand list"
  pr_deckBatchRoot :: Hex
  pr_dealerSecretRoot :: Hex
  pr_attestationDigest :: Hex

definition prepareSeeded :: "viem \<Rightarrow> EnclaveSessionState \<Rightarrow> int \<Rightarrow> nat \<Rightarrow> nat \<Rightarrow> Hex \<Rightarrow> PreparedHandDeck erun" where
  "prepareSeeded v state epoch handNumber secretIndex vrfR =
     (if length (es_secrets state) \<le> secretIndex then Some (Inl (SecretIndexOutOfRange secretIndex))
      else liftRun
        (bindR (Some (handSeedV2 v (es_secrets state ! secretIndex) vrfR (es_sessionIdBytes32 state) epoch (int secretIndex))) (\<lambda>seed.
         bindR (Some (liftDeck (deriveHandId v (es_sessionIdBytes32 state) epoch (int handNumber)))) (\<lambda>h.
           prepareHandDeck v (hash h) seed (Some (int secretIndex)) None (Some Production)))))"

definition prepareOne :: "viem \<Rightarrow> EnclaveSessionState \<Rightarrow> nat \<Rightarrow> nat \<Rightarrow> string \<Rightarrow> PreparedHandDeck erun" where
  "prepareOne v state handNumber secretIndex vrfWord =
     prepareSeeded v state (es_epoch state) handNumber secretIndex (toBytes32 v vrfWord)"

definition attestDecks ::
  "viem \<Rightarrow> enclave_lib \<Rightarrow> int \<Rightarrow> string \<Rightarrow> int \<Rightarrow> EnclaveSessionState \<Rightarrow> Hex list \<Rightarrow> EnclaveDealerRuntime \<Rightarrow>
     (enclave_error + Hex) \<times> EnclaveDealerRuntime" where
  "attestDecks v lib now sessionId epoch state deckRoots rt =
     (let deckBatchRoot = buildDeckBatchRoot v deckRoots;
          state1 = state\<lparr>es_deckRoots := deckRoots, es_deckBatchRoot := Some deckBatchRoot\<rparr>;
          rt1 = putSession sessionId epoch state1 rt;
          unsigned = \<lparr>da_sessionId = es_sessionIdBytes32 state, da_epoch = epoch, da_dealerSecretRoot = es_dealerSecretRoot state,
            da_vrfRequestId = orElse (es_vrfRequestId state) [], da_vrfResultHash = orElse (es_vrfResultHash state) [],
            da_deckBatchRoot = deckBatchRoot, da_randomnessPolicyHash = RANDOMNESS_POLICY_HASH v,
            da_enclaveMeasurement = me_measurementHash (er_measurement rt), da_createdAt = now div 1000,
            da_signature = [], da_signer = [], da_policy = []\<rparr>
      in case bindE (signDealerBatchAttestation v lib (er_signingKey rt) unsigned) (\<lambda>attestation.
                bindE (hashDealerBatchAttestation v unsigned) (\<lambda>digest. Inr (attestation, digest))) of
           Inl e \<Rightarrow> (Inl (EncodingFailure e), rt1)
         | Inr (attestation, dig) \<Rightarrow>
             if er_mode rt = Mock_mode then
               (case issueMockAttestation v lib (er_signingKey rt) (addressAsPublicKey (el_address lib (er_signingKey rt)))
                       (er_measurement rt) dig now of
                  Inl e \<Rightarrow> (Inl (EncodingFailure e), rt1)
                | Inr doc \<Rightarrow> (Inr dig, putSession sessionId epoch
                    (state1\<lparr>es_attestationDocument := Some doc, es_attestation := Some attestation\<rparr>) rt))
             else (Inr dig, putSession sessionId epoch (state1\<lparr>es_attestation := Some attestation\<rparr>) rt))"

definition prepareDecks ::
  "viem \<Rightarrow> enclave_lib \<Rightarrow> int \<Rightarrow> PrepareDecksBody \<Rightarrow> EnclaveDealerRuntime \<Rightarrow> (PrepareDecksResult erun) \<times> EnclaveDealerRuntime" where
  "prepareDecks v lib now body rt =
     (case locate rt (pb_sessionId body) (pb_epoch body) of
        Inl e \<Rightarrow> (Some (Inl e), rt)
      | Inr (epoch, state) \<Rightarrow>
          if es_vrfResultHash state = None \<or> es_vrfResultHash state = Some [] then (Some (Inl VrfNotBound), rt)
          else if length (pb_handNumbers body) \<noteq> length (pb_secretIndices body) then (Some (Inl HandsMismatch), rt)
          else
            case mapX (\<lambda>(handNumber, secretIndex).
                    bindX (prepareSeeded v state epoch handNumber secretIndex (toBytes32 v (pb_vrfWord body))) (\<lambda>prepared.
                      Some (Inr \<lparr>ph_handNumber = handNumber, ph_handId = pd_handId prepared, ph_deckRoot = pd_deckRoot prepared,
                                 ph_secretIndex = secretIndex\<rparr>)))
                   (zip (pb_handNumbers body) (pb_secretIndices body)) of
              None \<Rightarrow> (None, rt)
            | Some (Inl e) \<Rightarrow> (Some (Inl e), rt)
            | Some (Inr hands) \<Rightarrow>
                (case attestDecks v lib now (pb_sessionId body) epoch state (map ph_deckRoot hands) rt of
                   (Inl e, rt') \<Rightarrow> (Some (Inl e), rt')
                 | (Inr dig, rt') \<Rightarrow>
                     (Some (Inr \<lparr>pr_hands = hands, pr_deckBatchRoot = buildDeckBatchRoot v (map ph_deckRoot hands),
                                 pr_dealerSecretRoot = es_dealerSecretRoot state, pr_attestationDigest = dig\<rparr>), rt')))"

record OpenPublicCardBody =
  oq_sessionId :: string
  oq_epoch :: epoch_arg
  oq_handNumber :: nat
  oq_secretIndex :: nat
  oq_vrfWord :: string
  oq_position :: int

record OpenPublicCardResult =
  ow_handId :: Hex
  ow_deckRoot :: Hex
  ow_opening :: CardOpening

definition openPublicCard :: "viem \<Rightarrow> OpenPublicCardBody \<Rightarrow> EnclaveDealerRuntime \<Rightarrow> OpenPublicCardResult erun" where
  "openPublicCard v body rt =
     bindX (Some (locate rt (oq_sessionId body) (oq_epoch body))) (\<lambda>found.
     bindX (prepareOne v (snd found) (oq_handNumber body) (oq_secretIndex body) (oq_vrfWord body)) (\<lambda>prepared.
     bindX (liftRun (Some (openCard v (pd_handId prepared) (pd_deck prepared) (pd_cardSalts prepared) (pd_deckRoot prepared)
                      (oq_position body)))) (\<lambda>opening.
       case verifyMerkleProof_deck v (co_cardLeaf opening) (co_proof opening) (pd_deckRoot prepared) of
         None \<Rightarrow> Some (Inl (DeckFailure UndefinedSibling))
       | Some False \<Rightarrow> Some (Inl ProofSelfCheckFailed)
       | Some True \<Rightarrow> Some (Inr \<lparr>ow_handId = pd_handId prepared, ow_deckRoot = pd_deckRoot prepared, ow_opening = opening\<rparr>))))"

record SeatDeal =
  sd_seat :: SeatEncryptionIdentity
  sd_positions :: "int list"

record DeliverPrivateCardsBody =
  dp_sessionId :: string
  dp_epoch :: epoch_arg
  dp_handNumber :: nat
  dp_secretIndex :: nat
  dp_vrfWord :: string
  dp_deals :: "SeatDeal list"

record DeliverPrivateCardsResult =
  dr_handId :: Hex
  dr_deckRoot :: Hex
  dr_sealed :: "SealedPrivateCards list"

definition plainOpening :: "CardOpening \<Rightarrow> PrivateCardPlaintext" where
  "plainOpening o' = \<lparr>pc_position = co_position o', pc_cardCode = co_cardCode o', pc_cardSalt = co_cardSalt o', pc_cardLeaf = co_cardLeaf o'\<rparr>"

definition sealDeal ::
  "viem \<Rightarrow> enclave_lib \<Rightarrow> Hex \<Rightarrow> PreparedHandDeck \<Rightarrow> Hex \<times> Hex \<Rightarrow> SeatDeal \<Rightarrow> enclave_error + SealedPrivateCards" where
  "sealDeal v lib sessionId prepared random deal =
     bindE (mapE (\<lambda>position.
              case openCard v (pd_handId prepared) (pd_deck prepared) (pd_cardSalts prepared) (pd_deckRoot prepared) position of
                Inl e \<Rightarrow> Inl (DeckFailure e)
              | Inr opening \<Rightarrow> Inr (plainOpening opening)) (sd_positions deal)) (\<lambda>cards.
       sealPrivateCardsToSeat v lib (fst random) (snd random) sessionId (pd_handId prepared) (sd_seat deal) cards)"

definition deliverPrivateCards ::
  "viem \<Rightarrow> enclave_lib \<Rightarrow> (nat \<Rightarrow> Hex \<times> Hex) \<Rightarrow> DeliverPrivateCardsBody \<Rightarrow> EnclaveDealerRuntime \<Rightarrow> DeliverPrivateCardsResult erun" where
  "deliverPrivateCards v lib random body rt =
     bindX (Some (locate rt (dp_sessionId body) (dp_epoch body))) (\<lambda>found.
     bindX (prepareOne v (snd found) (dp_handNumber body) (dp_secretIndex body) (dp_vrfWord body)) (\<lambda>prepared.
     bindX (Some (mapE (\<lambda>i. sealDeal v lib (es_sessionIdBytes32 (snd found)) prepared (random i) (dp_deals body ! i))
              [0..<length (dp_deals body)])) (\<lambda>sealed.
       Some (Inr \<lparr>dr_handId = pd_handId prepared, dr_deckRoot = pd_deckRoot prepared, dr_sealed = sealed\<rparr>))))"

record AttestationResponse =
  ar_attestation :: DealerBatchAttestation
  ar_document :: "AttestationDocument option"
  ar_dealerBatchOk :: bool
  ar_documentResult :: "AttestationVerifyResult option"
  ar_kmsRelease :: "release_reason + Hex"

definition getAttestation ::
  "viem \<Rightarrow> enclave_lib \<Rightarrow> int \<Rightarrow> string \<Rightarrow> epoch_arg \<Rightarrow> EnclaveDealerRuntime \<Rightarrow> enclave_error + AttestationResponse" where
  "getAttestation v lib now sessionId epochRaw rt =
     bindE (locate rt sessionId epochRaw) (\<lambda>found.
       case es_attestation (snd found) of
         None \<Rightarrow> Inl AttestationNotReady
       | Some a \<Rightarrow>
           bindE (case es_attestationDocument (snd found) of
                    None \<Rightarrow> Inr None
                  | Some doc \<Rightarrow> bindE (liftEnclave (verifyDocument v lib (er_verifier rt) now doc)) (\<lambda>r. Inr (Some r))) (\<lambda>verified.
           bindE (liftEnclave (verifyDealerBatchAttestation v lib a None)) (\<lambda>batchOk.
             Inr \<lparr>ar_attestation = a, ar_document = es_attestationDocument (snd found), ar_dealerBatchOk = isOk batchOk,
                  ar_documentResult = verified,
                  ar_kmsRelease = (case verified of
                     None \<Rightarrow> Inl AttestationFailed
                   | Some r \<Rightarrow> releaseDealerKey (er_kms rt) ''mock-dealer-dek'' r)\<rparr>)))"

end
