(* ===== verification/Enclave_Run.thy ===== *)
theory Enclave_Run
  imports Enclave
begin

text \<open>
  Runs of the confidential dealer: the invariant of its sessions under the operations in any order, what an attestation and
  its document say, the opening of committed cards, and the sealing of private cards. A concrete instance of the parameters
  shows that the hypotheses can hold together.
\<close>

section \<open>Runs\<close>

text \<open>The operations that change the state; the others only read it.\<close>

datatype enclave_call =
    Commit "nat \<Rightarrow> Hex" CommitBatchBody
  | Bind_vrf BindVrfBody
  | Prepare int PrepareDecksBody

fun enclaveStep :: "viem \<Rightarrow> enclave_lib \<Rightarrow> enclave_call \<Rightarrow> EnclaveDealerRuntime \<Rightarrow> EnclaveDealerRuntime" where
  "enclaveStep v lib (Commit random body) rt = snd (commitBatch v random body rt)"
| "enclaveStep v lib (Bind_vrf body) rt = snd (bindVrf v body rt)"
| "enclaveStep v lib (Prepare now body) rt = snd (prepareDecks v lib now body rt)"

definition enclaveRun :: "viem \<Rightarrow> enclave_lib \<Rightarrow> enclave_call list \<Rightarrow> EnclaveDealerRuntime \<Rightarrow> EnclaveDealerRuntime" where
  "enclaveRun v lib calls rt = fold (enclaveStep v lib) calls rt"

definition sessionAt :: "EnclaveDealerRuntime \<Rightarrow> string \<Rightarrow> int \<Rightarrow> EnclaveSessionState option" where
  "sessionAt rt sessionId epoch = er_sessions rt (enclaveKey sessionId epoch)"

text \<open>The configuration of a runtime is fixed when it is created.\<close>

definition sameConfig :: "EnclaveDealerRuntime \<Rightarrow> EnclaveDealerRuntime \<Rightarrow> bool" where
  "sameConfig rt rt' \<longleftrightarrow> rt' = rt\<lparr>er_sessions := er_sessions rt'\<rparr>"

lemma enclaveKey_inj: "enclaveKey s e = enclaveKey s' e' \<longleftrightarrow> s = s' \<and> e = e'"
  using joined_suffix_inj [of "s @ '':''" "CHR '':''" "int_string e" "s' @ '':''" "int_string e'"] int_string_no_colon int_string_inj
  by (auto simp: enclaveKey_def)

lemma locate_ok:
  "locate rt sid e = Inr (epoch, st) \<longleftrightarrow> parseEpoch e = Inr epoch \<and> sessionAt rt sid epoch = Some st"
  by (auto simp: locate_def requireSession_def sessionAt_def bindE_Inr_iff split: option.splits)

lemma sessionAt_put [simp]:
  "sessionAt (putSession sid e st rt) sid' e' = (if sid = sid' \<and> e = e' then Some st else sessionAt rt sid' e')"
  by (simp add: sessionAt_def putSession_def enclaveKey_inj)

lemma sameConfig_put [simp, intro]: "sameConfig rt (putSession sid e st rt)"
  by (simp add: sameConfig_def putSession_def)

lemma sameConfig_refl [simp, intro]: "sameConfig rt rt"
  by (simp add: sameConfig_def)

lemma sameConfigD:
  assumes "sameConfig rt rt'"
  shows "er_signingKey rt' = er_signingKey rt" "er_registry rt' = er_registry rt" "er_verifier rt' = er_verifier rt"
    "er_kms rt' = er_kms rt" "er_mode rt' = er_mode rt" "er_measurement rt' = er_measurement rt"
  by (subst assms [unfolded sameConfig_def]; simp)+

lemma sameConfig_trans: "sameConfig a b \<Longrightarrow> sameConfig b c \<Longrightarrow> sameConfig a c"
  by (cases a; cases b; cases c) (auto simp: sameConfig_def)

text \<open>What an attestation of the runtime says of a session: it is signed by the runtime's key, names the session, its secret
  root and the runtime's measurement, and the root of a batch of decks that were prepared from the session's secrets.\<close>

definition preparedBatch :: "viem \<Rightarrow> EnclaveSessionState \<Rightarrow> Hex list \<Rightarrow> bool" where
  "preparedBatch v st roots \<longleftrightarrow>
     (\<exists>vrfR hands. length hands = length roots \<and>
        (\<forall>i < length roots. \<exists>p. prepareSeeded v st (es_epoch st) (fst (hands ! i)) (snd (hands ! i)) vrfR = Some (Inr p) \<and>
           roots ! i = pd_deckRoot p))"

definition attests :: "viem \<Rightarrow> enclave_lib \<Rightarrow> EnclaveDealerRuntime \<Rightarrow> EnclaveSessionState \<Rightarrow> DealerBatchAttestation \<Rightarrow> bool" where
  "attests v lib rt st a \<longleftrightarrow>
     da_sessionId a = es_sessionIdBytes32 st \<and> da_epoch a = es_epoch st \<and> da_dealerSecretRoot a = es_dealerSecretRoot st \<and>
     da_enclaveMeasurement a = me_measurementHash (er_measurement rt) \<and> da_randomnessPolicyHash a = RANDOMNESS_POLICY_HASH v \<and>
     da_policy a = RANDOMNESS_POLICY_ID \<and> da_signer a = el_address lib (er_signingKey rt) \<and>
     (\<exists>digest. hashDealerBatchAttestation v a = Inr digest \<and> da_signature a = el_sign lib (er_signingKey rt) digest) \<and>
     (\<exists>roots. preparedBatch v st roots \<and> da_deckBatchRoot a = buildDeckBatchRoot v roots)"

text \<open>The document that goes with an attestation.\<close>

definition documents :: "viem \<Rightarrow> enclave_lib \<Rightarrow> EnclaveDealerRuntime \<Rightarrow> DealerBatchAttestation \<Rightarrow> AttestationDocument \<Rightarrow> bool" where
  "documents v lib rt a doc \<longleftrightarrow>
     (\<exists>digest now. hashDealerBatchAttestation v a = Inr digest \<and> da_createdAt a = now div 1000 \<and>
        issueMockAttestation v lib (er_signingKey rt) (addressAsPublicKey (el_address lib (er_signingKey rt))) (er_measurement rt)
          digest now = Inr doc)"

definition soundSession :: "viem \<Rightarrow> enclave_lib \<Rightarrow> EnclaveDealerRuntime \<Rightarrow> string \<Rightarrow> int \<Rightarrow> EnclaveSessionState \<Rightarrow> bool" where
  "soundSession v lib rt sid e st \<longleftrightarrow>
     es_sessionIdBytes32 st = toBytes32 v sid \<and> es_epoch st = e \<and>
     (\<exists>leaves. buildSecretLeaves v (es_sessionIdBytes32 st) e (es_secrets st) = Inr leaves \<and>
        es_dealerSecretRoot st = buildDealerSecretRoot v leaves) \<and>
     (\<forall>a. es_attestation st = Some a \<longrightarrow> attests v lib rt st a \<and>
        (case es_attestationDocument st of
           None \<Rightarrow> er_mode rt = Nitro_mode
         | Some doc \<Rightarrow> er_mode rt = Mock_mode \<and> documents v lib rt a doc)) \<and>
     (es_attestation st = None \<longrightarrow> es_attestationDocument st = None)"

definition soundRuntime :: "viem \<Rightarrow> enclave_lib \<Rightarrow> EnclaveDealerRuntime \<Rightarrow> bool" where
  "soundRuntime v lib rt \<longleftrightarrow> (\<forall>sid e st. sessionAt rt sid e = Some st \<longrightarrow> soundSession v lib rt sid e st)"

lemma prepareSeeded_secrets:
  "es_secrets st' = es_secrets st \<Longrightarrow> es_sessionIdBytes32 st' = es_sessionIdBytes32 st \<Longrightarrow>
   prepareSeeded v st' = prepareSeeded v st"
  by (intro ext) (simp add: prepareSeeded_def)

text \<open>Fields of the session that no operation but a new commitment changes.\<close>

definition sameCommitment :: "EnclaveSessionState \<Rightarrow> EnclaveSessionState \<Rightarrow> bool" where
  "sameCommitment st st' \<longleftrightarrow> es_sessionId st' = es_sessionId st \<and> es_sessionIdBytes32 st' = es_sessionIdBytes32 st \<and>
     es_epoch st' = es_epoch st \<and> es_secrets st' = es_secrets st \<and> es_dealerSecretRoot st' = es_dealerSecretRoot st"

lemma attests_cong:
  assumes "sameConfig rt rt'" "sameCommitment st st'"
  shows "attests v lib rt' st' a = attests v lib rt st a" "documents v lib rt' a doc = documents v lib rt a doc"
  using sameConfigD [OF assms(1)] assms(2) prepareSeeded_secrets [of st' st v]
  by (simp_all add: attests_def documents_def preparedBatch_def sameCommitment_def)

lemma hashDealer_signed [simp]:
  "hashDealerBatchAttestation v (f\<lparr>da_signature := s, da_signer := x, da_policy := p\<rparr>) = hashDealerBatchAttestation v f"
  by (simp add: hashDealerBatchAttestation_def)

text \<open>The outcome of an attestation: the roots are recorded in any case, and when it succeeds the attestation is sound.\<close>

lemma attestDecks_effect:
  assumes "attestDecks v lib now sid epoch st roots rt = (r, rt')" "es_epoch st = epoch" "preparedBatch v st roots"
  obtains st' where "rt' = putSession sid epoch st' rt" "sameCommitment st st'"
    "isOk r \<longrightarrow> (\<exists>a. es_attestation st' = Some a \<and> attests v lib rt st a \<and> da_createdAt a = now div 1000 \<and>
       da_deckBatchRoot a = buildDeckBatchRoot v roots \<and>
       (if er_mode rt = Mock_mode then \<exists>doc. es_attestationDocument st' = Some doc \<and> documents v lib rt a doc
        else es_attestationDocument st' = es_attestationDocument st))"
    "\<not> isOk r \<longrightarrow> es_attestation st' = es_attestation st \<and> es_attestationDocument st' = es_attestationDocument st"
proof -
  let ?root = "buildDeckBatchRoot v roots"
  let ?st1 = "st\<lparr>es_deckRoots := roots, es_deckBatchRoot := Some ?root\<rparr>"
  let ?u = "\<lparr>da_sessionId = es_sessionIdBytes32 st, da_epoch = epoch, da_dealerSecretRoot = es_dealerSecretRoot st,
      da_vrfRequestId = orElse (es_vrfRequestId st) [], da_vrfResultHash = orElse (es_vrfResultHash st) [],
      da_deckBatchRoot = ?root, da_randomnessPolicyHash = RANDOMNESS_POLICY_HASH v,
      da_enclaveMeasurement = me_measurementHash (er_measurement rt), da_createdAt = now div 1000,
      da_signature = [], da_signer = [], da_policy = []\<rparr>"
  let ?key = "er_signingKey rt"
  have same1: "sameCommitment st ?st1" by (simp add: sameCommitment_def)
  show thesis
  proof (cases "hashDealerBatchAttestation v ?u")
    case (Inl err)
    then have "r = Inl (EncodingFailure err)" "rt' = putSession sid epoch ?st1 rt"
      using assms(1) by (simp_all add: attestDecks_def signDealerBatchAttestation_def Let_def)
    then show thesis using that [of ?st1] same1 by simp
  next
    case (Inr digest)
    let ?a = "?u\<lparr>da_signature := el_sign lib ?key digest, da_signer := el_address lib ?key, da_policy := RANDOMNESS_POLICY_ID\<rparr>"
    have a: "attests v lib rt st ?a"
      using Inr assms(2,3) unfolding attests_def hashDealer_signed by (intro conjI exI [of _ digest] exI [of _ roots]) simp_all
    have sign: "signDealerBatchAttestation v lib ?key ?u = Inr ?a" using Inr by (simp add: signDealerBatchAttestation_def)
    let ?doc = "issueMockAttestation v lib ?key (addressAsPublicKey (el_address lib ?key)) (er_measurement rt) digest now"
    note run = assms(1) [unfolded attestDecks_def Let_def, unfolded sign Inr bindE.simps sum.case prod.case]
    show thesis
    proof (cases "er_mode rt = Mock_mode")
      case mock: True
      show thesis
      proof (cases ?doc)
        case (Inl err)
        then have "r = Inl (EncodingFailure err)" "rt' = putSession sid epoch ?st1 rt" using run mock by simp_all
        then show thesis using that [of ?st1] same1 by simp
      next
        case doc: (Inr doc)
        let ?st2 = "?st1\<lparr>es_attestationDocument := Some doc, es_attestation := Some ?a\<rparr>"
        have "r = Inr digest" "rt' = putSession sid epoch ?st2 rt" using run mock doc by simp_all
        moreover have "documents v lib rt ?a doc"
          unfolding documents_def hashDealer_signed using Inr doc by (intro exI [of _ digest] exI [of _ now]) simp
        ultimately show thesis using that [of ?st2] a mock by (simp add: sameCommitment_def)
      qed
    next
      case False
      let ?st2 = "?st1\<lparr>es_attestation := Some ?a\<rparr>"
      have "r = Inr digest" "rt' = putSession sid epoch ?st2 rt" using run False by simp_all
      then show thesis using that [of ?st2] a False by (simp add: sameCommitment_def)
    qed
  qed
qed

definition prepareHand :: "viem \<Rightarrow> EnclaveSessionState \<Rightarrow> int \<Rightarrow> Hex \<Rightarrow> nat \<times> nat \<Rightarrow> PreparedHand erun" where
  "prepareHand v st epoch vrfR =
     (\<lambda>(handNumber, secretIndex). bindX (prepareSeeded v st epoch handNumber secretIndex vrfR) (\<lambda>prepared.
        Some (Inr \<lparr>ph_handNumber = handNumber, ph_handId = pd_handId prepared, ph_deckRoot = pd_deckRoot prepared,
                   ph_secretIndex = secretIndex\<rparr>)))"

lemma prepareDecks_cases:
  assumes "prepareDecks v lib now body rt = (r, rt')"
  obtains (refused) "rt' = rt" "\<And>x. r \<noteq> Some (Inr x)"
  | (prepared) epoch st hands d where "locate rt (pb_sessionId body) (pb_epoch body) = Inr (epoch, st)"
      "mapX (prepareHand v st epoch (toBytes32 v (pb_vrfWord body))) (zip (pb_handNumbers body) (pb_secretIndices body)) = Some (Inr hands)"
      "length (pb_handNumbers body) = length (pb_secretIndices body)"
      "attestDecks v lib now (pb_sessionId body) epoch st (map ph_deckRoot hands) rt = (d, rt')"
      "r = Some (bindE d (\<lambda>dig. Inr \<lparr>pr_hands = hands, pr_deckBatchRoot = buildDeckBatchRoot v (map ph_deckRoot hands),
         pr_dealerSecretRoot = es_dealerSecretRoot st, pr_attestationDigest = dig\<rparr>))"
proof (cases "locate rt (pb_sessionId body) (pb_epoch body)")
  case (Inl e)
  then show thesis by (intro refused) (use assms in \<open>auto simp: prepareDecks_def\<close>)
next
  case (Inr found)
  obtain epoch st where f: "found = (epoch, st)" by (cases found)
  let ?m = "mapX (prepareHand v st epoch (toBytes32 v (pb_vrfWord body))) (zip (pb_handNumbers body) (pb_secretIndices body))"
  have eq: "prepareDecks v lib now body rt =
     (if es_vrfResultHash st = None \<or> es_vrfResultHash st = Some [] then (Some (Inl VrfNotBound), rt)
      else if length (pb_handNumbers body) \<noteq> length (pb_secretIndices body) then (Some (Inl HandsMismatch), rt)
      else case ?m of None \<Rightarrow> (None, rt) | Some (Inl e) \<Rightarrow> (Some (Inl e), rt)
        | Some (Inr hands) \<Rightarrow> (case attestDecks v lib now (pb_sessionId body) epoch st (map ph_deckRoot hands) rt of
             (Inl e, rt') \<Rightarrow> (Some (Inl e), rt')
           | (Inr dig, rt') \<Rightarrow> (Some (Inr \<lparr>pr_hands = hands, pr_deckBatchRoot = buildDeckBatchRoot v (map ph_deckRoot hands),
               pr_dealerSecretRoot = es_dealerSecretRoot st, pr_attestationDigest = dig\<rparr>), rt')))"
    unfolding prepareDecks_def Inr f prepareHand_def by simp
  show thesis
  proof (cases "es_vrfResultHash st = None \<or> es_vrfResultHash st = Some [] \<or> length (pb_handNumbers body) \<noteq> length (pb_secretIndices body)")
    case True
    then show thesis using assms refused unfolding eq by (auto split: if_splits)
  next
    case go: False
    note run = assms [unfolded eq]
    show thesis
    proof (cases "?m")
      case None
      show thesis by (intro refused) (use run go None in auto)
    next
      case (Some y)
      show thesis
      proof (cases y)
        case (Inl e)
        show thesis by (intro refused) (use run go Some Inl in auto)
      next
        case hands: (Inr hands)
        obtain d rt2 where d: "attestDecks v lib now (pb_sessionId body) epoch st (map ph_deckRoot hands) rt = (d, rt2)"
          by (cases "attestDecks v lib now (pb_sessionId body) epoch st (map ph_deckRoot hands) rt")
        show thesis
          by (rule prepared [of epoch st hands d]) (use run go Inr f d Some hands in \<open>auto split: sum.splits\<close>)
      qed
    qed
  qed
qed

lemma prepareHands_batch:
  assumes "mapX (prepareHand v st epoch vrfR) hs = Some (Inr hands)" "es_epoch st = epoch"
  shows "preparedBatch v st (map ph_deckRoot hands)" "length hands = length hs"
    "\<And>i. i < length hs \<Longrightarrow> \<exists>p. prepareSeeded v st epoch (fst (hs ! i)) (snd (hs ! i)) vrfR = Some (Inr p) \<and>
       hands ! i = \<lparr>ph_handNumber = fst (hs ! i), ph_handId = pd_handId p, ph_deckRoot = pd_deckRoot p, ph_secretIndex = snd (hs ! i)\<rparr>"
proof -
  note m = mapX_ok [OF assms(1)]
  then show len: "length hands = length hs" by blast
  show each: "\<exists>p. prepareSeeded v st epoch (fst (hs ! i)) (snd (hs ! i)) vrfR = Some (Inr p) \<and>
       hands ! i = \<lparr>ph_handNumber = fst (hs ! i), ph_handId = pd_handId p, ph_deckRoot = pd_deckRoot p, ph_secretIndex = snd (hs ! i)\<rparr>"
    if "i < length hs" for i
  proof -
    have "prepareHand v st epoch vrfR (hs ! i) = Some (Inr (hands ! i))" using m that by blast
    then show ?thesis unfolding prepareHand_def split_beta by (elim bindX_okE) auto
  qed
  have "\<exists>p. prepareSeeded v st (es_epoch st) (fst (hs ! i)) (snd (hs ! i)) vrfR = Some (Inr p) \<and>
      map ph_deckRoot hands ! i = pd_deckRoot p" if "i < length hs" for i
    using each [OF that] len that assms(2) by fastforce
  then show "preparedBatch v st (map ph_deckRoot hands)"
    unfolding preparedBatch_def using len by (intro exI [of _ vrfR] exI [of _ hs]) simp
qed

lemma soundSession_config:
  "sameConfig rt rt' \<Longrightarrow> soundSession v lib rt' sid e st = soundSession v lib rt sid e st"
  using attests_cong [of rt rt' st st] sameConfigD(5) [of rt rt'] by (auto simp: soundSession_def sameCommitment_def split: option.splits)

lemma sound_put:
  "soundRuntime v lib rt \<Longrightarrow> soundSession v lib rt sid e st \<Longrightarrow> soundRuntime v lib (putSession sid e st rt)"
  using soundSession_config [OF sameConfig_put] by (auto simp: soundRuntime_def)

lemma soundSession_keep:
  assumes "soundSession v lib rt sid e st" "sameCommitment st st'"
    and "es_attestation st' = es_attestation st" "es_attestationDocument st' = es_attestationDocument st"
  shows "soundSession v lib rt sid e st'"
  using assms attests_cong [of rt rt st st'] by (auto simp: soundSession_def sameCommitment_def split: option.splits)

lemma step_sound:
  assumes "soundRuntime v lib rt"
  shows "soundRuntime v lib (enclaveStep v lib c rt) \<and> sameConfig rt (enclaveStep v lib c rt)"
proof (cases c)
  case (Commit random body)
  have "soundSession v lib rt (cb_sessionId body) epoch
      \<lparr>es_sessionId = cb_sessionId body, es_sessionIdBytes32 = toBytes32 v (cb_sessionId body), es_epoch = epoch,
       es_secrets = secrets, es_dealerSecretRoot = buildDealerSecretRoot v leaves, es_vrfRequestId = None,
       es_vrfResultHash = None, es_deckRoots = [], es_deckBatchRoot = None, es_attestation = None,
       es_attestationDocument = None\<rparr>"
    if "buildSecretLeaves v (toBytes32 v (cb_sessionId body)) epoch secrets = Inr leaves" for epoch secrets leaves
    using that by (simp add: soundSession_def)
  then show ?thesis
    unfolding Commit enclaveStep.simps commitBatch_def Let_def using sound_put [OF assms] assms by (auto split: sum.splits)
next
  case (Bind_vrf body)
  show ?thesis
  proof (cases "locate rt (bv_sessionId body) (bv_epoch body)")
    case (Inl e)
    then show ?thesis using assms Bind_vrf by (simp add: bindVrf_def)
  next
    case (Inr found)
    obtain epoch st where f: "found = (epoch, st)" by (cases found)
    have "soundSession v lib rt (bv_sessionId body) epoch st" using assms Inr f by (simp add: locate_ok soundRuntime_def)
    from soundSession_keep [OF this] have "soundSession v lib rt (bv_sessionId body) epoch
        (st\<lparr>es_vrfRequestId := a, es_vrfResultHash := b\<rparr>)" for a b by (simp add: sameCommitment_def)
    then show ?thesis using Inr f Bind_vrf sound_put [OF assms] by (simp add: bindVrf_def Let_def)
  qed
next
  case (Prepare now body)
  obtain r rt' where run: "prepareDecks v lib now body rt = (r, rt')" by (cases "prepareDecks v lib now body rt")
  from run show ?thesis
  proof (cases rule: prepareDecks_cases)
    case refused
    then show ?thesis using run Prepare assms by simp
  next
    case (prepared epoch st hands d)
    have s: "soundSession v lib rt (pb_sessionId body) epoch st" using assms prepared(1) by (simp add: locate_ok soundRuntime_def)
    then have e: "es_epoch st = epoch" by (simp add: soundSession_def)
    obtain st' where st': "rt' = putSession (pb_sessionId body) epoch st' rt" "sameCommitment st st'"
      "isOk d \<longrightarrow> (\<exists>a. es_attestation st' = Some a \<and> attests v lib rt st a \<and> da_createdAt a = now div 1000 \<and>
         da_deckBatchRoot a = buildDeckBatchRoot v (map ph_deckRoot hands) \<and>
         (if er_mode rt = Mock_mode then \<exists>doc. es_attestationDocument st' = Some doc \<and> documents v lib rt a doc
          else es_attestationDocument st' = es_attestationDocument st))"
      "\<not> isOk d \<longrightarrow> es_attestation st' = es_attestation st \<and> es_attestationDocument st' = es_attestationDocument st"
      by (rule attestDecks_effect [OF prepared(4) e prepareHands_batch(1) [OF prepared(2) e]])
    have nodoc: "es_attestationDocument st = None" if "er_mode rt \<noteq> Mock_mode"
      using s that by (cases "es_attestation st"; cases "es_attestationDocument st") (auto simp: soundSession_def)
    have "soundSession v lib rt (pb_sessionId body) epoch st'"
    proof (cases "isOk d")
      case True
      show ?thesis
        using st'(3) True st'(2) s nodoc attests_cong [OF sameConfig_refl st'(2), of v lib rt]
        by (cases "er_mode rt") (auto simp: soundSession_def sameCommitment_def)
    next
      case False
      then show ?thesis using soundSession_keep [OF s st'(2)] st'(4) by simp
    qed
    then show ?thesis using st'(1) run Prepare sound_put [OF assms] by simp
  qed
qed

lemma run_sound:
  "soundRuntime v lib rt \<Longrightarrow> soundRuntime v lib (enclaveRun v lib calls rt) \<and> sameConfig rt (enclaveRun v lib calls rt)"
proof (induction calls arbitrary: rt)
  case (Cons c calls)
  from step_sound [OF Cons.prems, of c] Cons.IH [of "enclaveStep v lib c rt"] show ?case
    by (auto simp: enclaveRun_def intro: sameConfig_trans)
qed (simp add: enclaveRun_def)

lemma newRuntime_ok:
  assumes "newRuntime v envKey mode opts = Inr rt"
  shows "soundRuntime v lib rt" "er_mode rt = mode" "defaultMockMeasurement v = Inr (er_measurement rt)"
    "er_sessions rt = (\<lambda>_. None)"
proof -
  from assms obtain m verifier kms where
    r: "defaultMockMeasurement v = Inr m" "er_sessions rt = (\<lambda>_. None)" "er_mode rt = mode" "er_measurement rt = m"
    by (auto simp: newRuntime_def Let_def)
  then show "soundRuntime v lib rt" "er_mode rt = mode" "defaultMockMeasurement v = Inr (er_measurement rt)"
    "er_sessions rt = (\<lambda>_. None)"
    by (simp_all add: soundRuntime_def sessionAt_def)
qed

section \<open>Signatures and documents\<close>

text \<open>What the code relies on of the signature library: the address recovered from a signature is the signer's, and
  addresses are twenty bytes.\<close>

definition sign_lib :: "enclave_lib \<Rightarrow> bool" where
  "sign_lib lib \<longleftrightarrow> (\<forall>k m. el_recover lib m (el_sign lib k m) = Some (el_address lib k)) \<and>
     (\<forall>k. \<exists>h. el_address lib k = ''0x'' @ h \<and> length h = 40)"

lemma address_publicKey:
  assumes "sign_lib lib"
  shows "js_lower (publicKeyToAddress (addressAsPublicKey (el_address lib k))) = js_lower (el_address lib k)"
proof -
  obtain h where h: "el_address lib k = ''0x'' @ h" "length h = 40" using assms unfolding sign_lib_def by blast
  have "publicKeyToAddress (addressAsPublicKey (el_address lib k)) = ''0x'' @ js_lower h"
    using h by (simp add: addressAsPublicKey_def publicKeyToAddress_def stripHex_def padHex_def Let_def)
  then show ?thesis using h(1) by (simp add: js_lower_def comp_def)
qed

lemma hashMock_signed [simp]: "hashMockAttestationFields v (f\<lparr>ma_signature := s\<rparr>) = hashMockAttestationFields v f"
  by (simp add: hashMockAttestationFields_def)

lemma attests_verifies:
  assumes "sign_lib lib" "attests v lib rt st a"
  shows "\<exists>digest. verifyDealerBatchAttestation v lib a None = Inr (Inr digest)"
  using assms by (auto simp: attests_def verifyDealerBatchAttestation_def sign_lib_def)

text \<open>The bytes an attestation is signed over, and the binding of its fields.\<close>

definition attestationBytes :: "viem \<Rightarrow> DealerBatchAttestation \<Rightarrow> Hex" where
  "attestationBytes v f = bytesOf v ''bytes32,bytes32,uint64,bytes32,bytes32,bytes32,bytes32,bytes32,bytes32,uint64''
     [AHex (DOMAIN_DEALER_BATCH_ATTESTATION_V1 v), AHex (da_sessionId f), AInt (da_epoch f), AHex (da_dealerSecretRoot f),
      AHex (da_vrfRequestId f), AHex (da_vrfResultHash f), AHex (da_deckBatchRoot f), AHex (da_randomnessPolicyHash f),
      AHex (da_enclaveMeasurement f), AInt (da_createdAt f)]"

lemma attestation_binding:
  assumes "hashDealerBatchAttestation v a = Inr d" "hashDealerBatchAttestation v b = Inr d" "abi_injective v"
  shows "js_lower (da_sessionId b) = js_lower (da_sessionId a) \<and> da_epoch b = da_epoch a \<and>
      js_lower (da_dealerSecretRoot b) = js_lower (da_dealerSecretRoot a) \<and>
      js_lower (da_deckBatchRoot b) = js_lower (da_deckBatchRoot a) \<and>
      js_lower (da_vrfRequestId b) = js_lower (da_vrfRequestId a) \<and>
      js_lower (da_vrfResultHash b) = js_lower (da_vrfResultHash a) \<and>
      js_lower (da_enclaveMeasurement b) = js_lower (da_enclaveMeasurement a) \<or>
    collides v (attestationBytes v a) (attestationBytes v b)"
  using keccakEnc_binding [OF assms(1,2) [unfolded hashDealerBatchAttestation_def] assms(3)] unfolding attestationBytes_def by auto

lemma documents_verify:
  assumes "sign_lib lib" "documents v lib rt a doc" "defaultMockMeasurement v = Inr (er_measurement rt)"
  shows "\<exists>f. ad_mock doc = Some f \<and> da_createdAt a = ma_timestamp f div 1000 \<and>
    hashDealerBatchAttestation v a = Inr (ma_userData f) \<and>
    (\<forall>now. verifyMock v lib (newRegistry_of [er_measurement rt]) maxAge now doc =
       Inr (if 0 \<le> now - ma_timestamp f \<and> now - ma_timestamp f \<le> maxAge
            then VerifyOk Mock_mode (er_measurement rt) (ma_publicKey f) (ma_userData f) False else VerifyFail Mock_mode OutOfWindow))"
proof -
  let ?m = "er_measurement rt"
  obtain digest t where d: "hashDealerBatchAttestation v a = Inr digest" "da_createdAt a = t div 1000"
    "issueMockAttestation v lib (er_signingKey rt) (addressAsPublicKey (el_address lib (er_signingKey rt))) ?m digest t = Inr doc"
    using assms(2) by (auto simp: documents_def)
  obtain f md where f: "hashMockAttestationFields v f = Inr md" "ma_timestamp f = t" "ma_pcr0 f = me_pcr0 ?m" "ma_pcr1 f = me_pcr1 ?m"
    "ma_pcr2 f = me_pcr2 ?m" "ma_pcr3 f = None" "ma_publicKey f = addressAsPublicKey (el_address lib (er_signingKey rt))"
    "ma_userData f = digest" "doc = \<lparr>ad_mode = Mock_mode, ad_rawNsmDocument = None, ad_mock = Some (f\<lparr>ma_signature := el_sign lib (er_signingKey rt) md\<rparr>)\<rparr>"
    using d(3) by (force simp: issueMockAttestation_def Let_def)
  have m: "measurementHashFromPcrs v (me_pcr0 ?m) (me_pcr1 ?m) (me_pcr2 ?m) None = Inr (me_measurementHash ?m)"
  proof -
    obtain h where "measurementHashFromPcrs v MOCK_APPROVED_PCR0 MOCK_APPROVED_PCR1 MOCK_APPROVED_PCR2 None = Inr h"
      "?m = \<lparr>me_measurementHash = h, me_pcr0 = MOCK_APPROVED_PCR0, me_pcr1 = MOCK_APPROVED_PCR1,
         me_pcr2 = MOCK_APPROVED_PCR2, me_pcr3 = None, me_label = Some ''mock-wp054-local''\<rparr>"
      using assms(3) by (auto simp: defaultMockMeasurement_def)
    then show ?thesis by simp
  qed
  have reg: "registry_get (newRegistry_of [?m]) (me_measurementHash ?m) = Some ?m"
    by (simp add: registry_get_def newRegistry_of_def registry_register_def)
  have rec: "el_recover lib md (el_sign lib (er_signingKey rt) md) = Some (el_address lib (er_signingKey rt))"
    using assms(1) by (simp add: sign_lib_def)
  show ?thesis
  proof (intro exI [of _ "f\<lparr>ma_signature := el_sign lib (er_signingKey rt) md\<rparr>"] conjI allI)
    show "verifyMock v lib (newRegistry_of [?m]) maxAge now doc =
      Inr (if 0 \<le> now - ma_timestamp (f\<lparr>ma_signature := el_sign lib (er_signingKey rt) md\<rparr>) \<and>
              now - ma_timestamp (f\<lparr>ma_signature := el_sign lib (er_signingKey rt) md\<rparr>) \<le> maxAge
           then VerifyOk Mock_mode ?m (ma_publicKey (f\<lparr>ma_signature := el_sign lib (er_signingKey rt) md\<rparr>))
                  (ma_userData (f\<lparr>ma_signature := el_sign lib (er_signingKey rt) md\<rparr>)) False
           else VerifyFail Mock_mode OutOfWindow)" for now
      using f m reg rec address_publicKey [OF assms(1)] by (simp add: verifyMock_def Let_def)
  qed (use f d in simp_all)
qed

text \<open>A runtime with the default options.\<close>

definition defaultOptions :: EnclaveRuntimeOptions where
  "defaultOptions = \<lparr>eo_enclaveSigningKey = None, eo_measurementRegistry = None, eo_attestationVerifier = None, eo_kms = None\<rparr>"

definition mockDek :: "viem \<Rightarrow> Hex" where
  "mockDek v = keccak256 v (toBytes v ''mock-kms-dek:mock-dealer-dek'')"

lemma newRuntime_default:
  assumes "newRuntime v envKey mode defaultOptions = Inr rt" "hash_lib v"
  shows "er_verifier rt = (if mode = Nitro_mode then NitroAttestationVerifier
      else MockAttestationVerifier (newRegistry_of [er_measurement rt]) (60 * 60 * 1000))"
    "releaseDealerKey (er_kms rt) ''mock-dealer-dek'' (VerifyOk Mock_mode (er_measurement rt) pk ud False) = Inr (mockDek v)"
proof -
  obtain m where m: "defaultMockMeasurement v = Inr m" using newRuntime_ok(3) [OF assms(1)] by blast
  let ?verifier = "if mode = Nitro_mode then NitroAttestationVerifier else MockAttestationVerifier (newRegistry_of [m]) (60 * 60 * 1000)"
  have app: "isApproved (newRegistry_of [m]) (me_measurementHash m)"
    by (simp add: isApproved_def newRegistry_of_def registry_register_def)
  have rt: "rt = \<lparr>er_sessions = \<lambda>_. None, er_signingKey = orElse envKey localSigningKey, er_registry = newRegistry_of [m],
      er_verifier = ?verifier,
      er_kms = \<lparr>km_registry = newRegistry_of [m], km_policies = [\<lparr>kp_keyId = ''mock-dealer-dek'',
        kp_allowedMeasurementHashes = [me_measurementHash m]\<rparr>], km_secrets = [''mock-dealer-dek'' \<mapsto> mockDek v]\<rparr>,
      er_mode = mode, er_measurement = m\<rparr>"
  proof -
    have "createAttestationVerifier v mode = Inr ?verifier" using m by (simp add: createAttestationVerifier_def)
    then have "newRuntime v envKey mode defaultOptions = Inr \<lparr>er_sessions = \<lambda>_. None, er_signingKey = orElse envKey localSigningKey,
        er_registry = newRegistry_of [m], er_verifier = ?verifier,
        er_kms = \<lparr>km_registry = newRegistry_of [m], km_policies = [\<lparr>kp_keyId = ''mock-dealer-dek'',
          kp_allowedMeasurementHashes = [me_measurementHash m]\<rparr>], km_secrets = [''mock-dealer-dek'' \<mapsto> mockDek v]\<rparr>,
        er_mode = mode, er_measurement = m\<rparr>"
      using m app by (simp add: newRuntime_def defaultOptions_def newKms_def mockDek_def Let_def del: if_split)
    then show ?thesis using assms(1) by (simp del: if_split)
  qed
  then show "er_verifier rt = (if mode = Nitro_mode then NitroAttestationVerifier
      else MockAttestationVerifier (newRegistry_of [er_measurement rt]) (60 * 60 * 1000))"
    by simp
  have "is_hex32 (mockDek v)" using assms(2) by (simp add: mockDek_def hash_lib_def)
  then have "mockDek v \<noteq> []" by (auto simp: is_hex32_def)
  then show "releaseDealerKey (er_kms rt) ''mock-dealer-dek'' (VerifyOk Mock_mode (er_measurement rt) pk ud False) = Inr (mockDek v)"
    using rt by simp
qed

lemma getAttestation_ok:
  assumes "getAttestation v lib now sid e rt = Inr resp" "soundRuntime v lib rt"
  obtains epoch st a where "parseEpoch e = Inr epoch" "sessionAt rt sid epoch = Some st" "soundSession v lib rt sid epoch st"
    "es_attestation st = Some a" "ar_attestation resp = a" "attests v lib rt st a" "ar_document resp = es_attestationDocument st"
    "(case ar_document resp of None \<Rightarrow> ar_documentResult resp = None
      | Some doc \<Rightarrow> \<exists>r. verifyDocument v lib (er_verifier rt) now doc = Inr r \<and> ar_documentResult resp = Some r)"
    "\<exists>b. verifyDealerBatchAttestation v lib a None = Inr b \<and> ar_dealerBatchOk resp = isOk b"
    "ar_kmsRelease resp = (case ar_documentResult resp of None \<Rightarrow> Inl AttestationFailed
       | Some r \<Rightarrow> releaseDealerKey (er_kms rt) ''mock-dealer-dek'' r)"
proof -
  obtain epoch st where l: "locate rt sid e = Inr (epoch, st)" using assms(1) by (auto simp: getAttestation_def)
  then obtain a where a: "es_attestation st = Some a" using assms(1) by (auto simp: getAttestation_def split: option.splits)
  have s: "soundSession v lib rt sid epoch st" using assms(2) l by (simp add: locate_ok soundRuntime_def)
  then have "attests v lib rt st a" using a by (simp add: soundSession_def)
  with that [of epoch st a] s l a assms(1) show thesis
    by (auto simp: getAttestation_def locate_ok split: option.splits)
qed

section \<open>Openings and sealed cards\<close>

definition commitsTo :: "string \<Rightarrow> int \<Rightarrow> enclave_call \<Rightarrow> bool" where
  "commitsTo sid epoch c \<longleftrightarrow>
     (case c of Commit random body \<Rightarrow> cb_sessionId body = sid \<and> parseEpoch (cb_epoch body) = Inr epoch | _ \<Rightarrow> False)"

lemma sameCommitment_refl [simp, intro]: "sameCommitment st st"
  by (simp add: sameCommitment_def)

lemma sameCommitment_trans: "sameCommitment a b \<Longrightarrow> sameCommitment b c \<Longrightarrow> sameCommitment a c"
  by (simp add: sameCommitment_def)

lemma step_keeps:
  assumes "\<not> commitsTo sid epoch c" "sessionAt rt sid epoch = Some st" "soundRuntime v lib rt"
  shows "\<exists>st'. sessionAt (enclaveStep v lib c rt) sid epoch = Some st' \<and> sameCommitment st st'"
proof (cases c)
  case (Commit random body)
  then show ?thesis
    using assms(1,2) by (auto simp: commitsTo_def commitBatch_def Let_def split: sum.splits)
next
  case (Bind_vrf body)
  then show ?thesis
    using assms(2) by (auto simp: bindVrf_def Let_def locate_ok sameCommitment_def split: sum.splits)
next
  case (Prepare now body)
  obtain r rt' where run: "prepareDecks v lib now body rt = (r, rt')" by (cases "prepareDecks v lib now body rt")
  from run show ?thesis
  proof (cases rule: prepareDecks_cases)
    case refused
    then show ?thesis using run Prepare assms(2) by auto
  next
    case (prepared e st1 hands d)
    have "soundSession v lib rt (pb_sessionId body) e st1" using prepared(1) assms(3) by (simp add: locate_ok soundRuntime_def)
    then have e: "es_epoch st1 = e" by (simp add: soundSession_def)
    obtain st' where "rt' = putSession (pb_sessionId body) e st' rt" "sameCommitment st1 st'"
      by (rule attestDecks_effect [OF prepared(4) e prepareHands_batch(1) [OF prepared(2) e]])
    then show ?thesis using run Prepare assms(2) prepared(1) by (auto simp: locate_ok)
  qed
qed

lemma run_keeps:
  assumes "sessionAt rt sid epoch = Some st" "soundRuntime v lib rt" "\<forall>c \<in> set calls. \<not> commitsTo sid epoch c"
  shows "\<exists>st'. sessionAt (enclaveRun v lib calls rt) sid epoch = Some st' \<and> sameCommitment st st'"
  using assms
proof (induction calls arbitrary: rt st)
  case (Cons c calls)
  obtain st1 where st1: "sessionAt (enclaveStep v lib c rt) sid epoch = Some st1" "sameCommitment st st1"
    using step_keeps [of sid epoch c rt st v lib] Cons.prems by auto
  have "soundRuntime v lib (enclaveStep v lib c rt)" using step_sound [OF Cons.prems(2)] by blast
  from Cons.IH [OF st1(1) this] Cons.prems(3) st1(2) show ?case
    by (auto simp: enclaveRun_def intro: sameCommitment_trans)
qed (auto simp: enclaveRun_def)

text \<open>Every position of a prepared deck is opened with a proof, and the public verifier accepts it.\<close>

lemma prepareSeeded_okD:
  assumes "prepareSeeded v st epoch n i vrfR = Some (Inr p)"
  obtains seed where "prepareHandDeck v (pd_handId p) seed (Some (int i)) None (Some Production) = Some (Inr p)"
proof -
  have "\<exists>seed (h :: HashResult). prepareHandDeck v (hash h) seed (Some (int i)) None (Some Production) = Some (Inr p)"
    using assms by (auto simp: prepareSeeded_def split: if_splits)
  then obtain seed and h :: HashResult where "prepareHandDeck v (hash h) seed (Some (int i)) None (Some Production) = Some (Inr p)" by blast
  moreover from prepareHandDeck_okD(2) [OF this] have "pd_handId p = hash h" .
  ultimately show thesis using that by simp
qed

lemma openPublicCard_prepared:
  assumes "hash_lib v" "locate rt sid e = Inr (epoch, st)" "prepareOne v st n i w = Some (Inr p)" "k < 52"
  shows "\<exists>op. openPublicCard v \<lparr>oq_sessionId = sid, oq_epoch = e, oq_handNumber = n, oq_secretIndex = i, oq_vrfWord = w,
        oq_position = int k\<rparr> rt = Some (Inr \<lparr>ow_handId = pd_handId p, ow_deckRoot = pd_deckRoot p, ow_opening = op\<rparr>) \<and>
      openCard v (pd_handId p) (pd_deck p) (pd_cardSalts p) (pd_deckRoot p) (int k) = Inr op \<and>
      co_position op = k \<and> co_cardCode op = pd_deck p ! k \<and>
      verifyCardOpening v \<lparr>oi_handId = pd_handId p, oi_deckRoot = pd_deckRoot p, oi_position = int k, oi_cardCode = co_cardCode op,
        oi_cardSalt = co_cardSalt op, oi_proof = co_proof op\<rparr> = Inr \<lparr>ov_ok = True, ov_cardLeaf = co_cardLeaf op\<rparr>"
proof -
  obtain seed where p: "prepareHandDeck v (pd_handId p) seed (Some (int i)) None (Some Production) = Some (Inr p)"
    using prepareSeeded_okD assms(3) unfolding prepareOne_def by blast
  note o' = openCard_prepared [OF assms(1) p assms(4)]
  obtain h where h: "cardLeaf v (pd_handId p) (int k) (pd_deck p ! k) (pd_cardSalts p ! k) = Inr h" "pd_cardLeaves p ! k = hash h"
    "k < length (pd_deck p)"
    by (rule prepared_position [OF assms(1) p assms(4)], rule that; assumption)
  have "0 \<le> pd_deck p ! k \<and> pd_deck p ! k \<le> 51"
    using prepareHandDeck_okD(1) [OF p] nth_mem [OF h(3)] by (fastforce simp: assertValidDeck_def validLoop_iff split: if_splits)
  then show ?thesis
    using o' h assms(2-4) by (simp add: openPublicCard_def verifyCardOpening_def)
qed

text \<open>What the code relies on of key agreement and the authenticated cipher.\<close>

definition seal_lib :: "enclave_lib \<Rightarrow> bool" where
  "seal_lib lib \<longleftrightarrow> (\<forall>a b. el_agree lib a (el_publicKey lib b) = el_agree lib b (el_publicKey lib a)) \<and>
     (\<forall>k n d p. el_decrypt lib k n d (el_encrypt lib k n d p) = Some p \<and> 16 \<le> hexBytes (drop 2 (el_encrypt lib k n d p))) \<and>
     (\<forall>a. hexBytes (drop 2 (el_publicKey lib a)) = 32)"

definition aadBytes :: "viem \<Rightarrow> SealedPrivateCards \<Rightarrow> Hex \<Rightarrow> Hex" where
  "aadBytes v s pub = bytesOf v ''bytes32,bytes32,bytes32,uint8,uint8[],bytes''
     [AHex (DOMAIN_SEAT_SEALED_CARDS_V1 v), AHex (sp_sessionId s), AHex (sp_handId s), AInt (sp_seatIndex s),
      ATuples (map (\<lambda>p. [AInt (int p)]) (sp_positions s)), AHex pub]"

lemma unseal_sealed:
  assumes "seal_lib lib" "sealPrivateCardsToSeat v lib eph nonce sid hid seat cards = Inr s"
    and "el_publicKey lib priv = si_x25519PublicKey seat" "hexBytes (drop 2 priv) = 32" "parse (sealedText cards) = Some cards"
  shows "unsealPrivateCards v lib parse s priv (si_x25519PublicKey seat) = Inr cards"
proof -
  obtain d where d: "sealAadDigest v sid hid (si_seatIndex seat) (map pc_position cards) (si_x25519PublicKey seat) = Inr d"
    "s = \<lparr>sp_sessionId = sid, sp_handId = hid, sp_seatIndex = si_seatIndex seat, sp_positions = map pc_position cards,
       sp_ciphertext = el_encrypt lib (keccak256 v (el_agree lib eph (si_x25519PublicKey seat))) nonce d (sealedText cards),
       sp_ephemeralPublicKey = el_publicKey lib eph, sp_nonce = nonce, sp_aadDigest = d, sp_policy = RANDOMNESS_POLICY_ID\<rparr>"
    using assms(2) by (auto simp: sealPrivateCardsToSeat_def x25519KeyFromRaw_def Let_def split: if_splits)
  have "el_agree lib priv (el_publicKey lib eph) = el_agree lib eph (si_x25519PublicKey seat)"
    using assms(1) unfolding assms(3) [symmetric] seal_lib_def by blast
  then show ?thesis
    using assms(1,4,5) d(1) by (simp add: unsealPrivateCards_def x25519KeyFromRaw_def d(2) seal_lib_def Let_def not_less)
qed

lemma unseal_other:
  assumes "hash_lib v" "abi_injective v" "sealPrivateCardsToSeat v lib eph nonce sid hid seat cards = Inr s"
    and "unsealPrivateCards v lib parse s priv pub = Inr cards'"
  shows "js_lower pub = js_lower (si_x25519PublicKey seat) \<or> collides v (aadBytes v s pub) (aadBytes v s (si_x25519PublicKey seat))"
proof -
  obtain d where d: "sealAadDigest v sid hid (si_seatIndex seat) (map pc_position cards) (si_x25519PublicKey seat) = Inr d"
    "sp_sessionId s = sid" "sp_handId s = hid" "sp_seatIndex s = si_seatIndex seat" "sp_positions s = map pc_position cards" "sp_aadDigest s = d"
    using assms(3) by (auto simp: sealPrivateCardsToSeat_def Let_def)
  obtain x where x: "sealAadDigest v sid hid (si_seatIndex seat) (map pc_position cards) pub = Inr x" "js_lower x = js_lower d"
    using assms(4) d(2-6) by (auto simp: unsealPrivateCards_def Let_def split: if_splits)
  have low: "js_lower y = y" if "sealAadDigest v sid hid (si_seatIndex seat) (map pc_position cards) q = Inr y" for q y
    using that assms(1) by (auto simp: sealAadDigest_def hash_lib_def dest!: keccakEnc_InrD)
  then have "x = d" using x d(1) by metis
  then show ?thesis
    using keccakEnc_binding [OF x(1) [unfolded sealAadDigest_def \<open>x = d\<close>] d(1) [unfolded sealAadDigest_def] assms(2)] d(2-5)
    unfolding aadBytes_def by auto
qed

section \<open>A concrete dealer\<close>

text \<open>Functions with the documented behaviour of the parameters, and a dealer that has committed one secret and bound a result.\<close>

definition demo_lib :: enclave_lib where
  "demo_lib = \<lparr>el_address = (\<lambda>k. ''0x'' @ take 40 (drop 2 k @ replicate 40 (CHR ''0''))), el_sign = (\<lambda>k m. k),
     el_recover = (\<lambda>m s. Some (''0x'' @ take 40 (drop 2 s @ replicate 40 (CHR ''0'')))), el_publicKey = demo_keccak,
     el_agree = (\<lambda>a p. nat_string (sum_list (map of_char (demo_keccak a)) + sum_list (map of_char p))),
     el_encrypt = (\<lambda>k n d p. ''0x'' @ replicate 32 (CHR ''0'') @ p), el_decrypt = (\<lambda>k n d c. Some (drop 34 c))\<rparr>"

definition demo_calls :: "enclave_call list" where
  "demo_calls = [Commit (\<lambda>i. ZERO32) \<lparr>cb_sessionId = ''s'', cb_epoch = EpochNumber 0, cb_secretCount = Some 1\<rparr>,
     Bind_vrf \<lparr>bv_sessionId = ''s'', bv_epoch = EpochNumber 0, bv_vrfRequestId = ''r'', bv_vrfResultHash = ''h''\<rparr>]"

definition demo_decks :: PrepareDecksBody where
  "demo_decks = \<lparr>pb_sessionId = ''s'', pb_epoch = EpochNumber 0, pb_handNumbers = [7], pb_secretIndices = [0], pb_vrfWord = ''w''\<rparr>"

lemma hexBytes_even: "list_all hex_digit s \<Longrightarrow> hexBytes s = length s div 2"
  by (induction s rule: hexBytes.induct) auto

lemma hexBytes_hex32: "is_hex32 x \<Longrightarrow> hexBytes (drop 2 x) = 32"
  by (simp add: is_hex32_def hexBytes_even)

lemma demo_sign_lib: "sign_lib demo_lib"
  by (auto simp: sign_lib_def demo_lib_def min_def)

lemma demo_seal_lib: "seal_lib demo_lib"
proof -
  have "hexBytes (replicate 32 (CHR ''0'') @ p) = 16 + hexBytes p" for p
    by (simp add: numeral_eq_Suc hex_digit_def)
  then show ?thesis
    using hexBytes_hex32 [OF is_hex32_demo_keccak] by (simp add: seal_lib_def demo_lib_def add.commute)
qed

lemma demo_enc [simp]: "keccakEnc demo_viem t vs = Inr (demo_keccak (concat (map abi_show vs)))"
  by (simp add: keccakEnc_def enc_def demo_viem_def)

lemma demo_hashEnc: "\<exists>h. hashEnc demo_viem t vs = Inr h"
  by (simp add: hashEnc_def demo_viem_def)

lemma demo_runtime: "\<exists>rt. newRuntime demo_viem envKey mode defaultOptions = Inr rt"
  by (simp add: newRuntime_def defaultOptions_def defaultMockMeasurement_def measurementHashFromPcrs_def createAttestationVerifier_def
      newKms_def isApproved_def newRegistry_of_def registry_register_def Let_def)

lemma demo_prepareOne:
  assumes "i < length (es_secrets st)"
  shows "\<exists>p. prepareSeeded demo_viem st e n i w = Some (Inr p)"
proof -
  obtain h where h: "deriveHandId demo_viem (es_sessionIdBytes32 st) e (int n) = Inr h"
    using demo_hashEnc unfolding deriveHandId_def by blast
  obtain seed where s: "handSeedV2 demo_viem (es_secrets st ! i) w (es_sessionIdBytes32 st) e (int i) = Inr seed" "length seed = 66"
    using is_hex32_demo_keccak by (auto simp: handSeedV2_def handSeed_def is_hex32_def)
  show ?thesis using demo_prepare [OF s(2)] h s(1) assms by (simp add: prepareSeeded_def)
qed

lemma toBytes32_nonempty: "hash_lib v \<Longrightarrow> toBytes32 v x \<noteq> []"
  by (auto simp: toBytes32_def Let_def is_hex32_def js_lower_def hash_lib_def dest!: spec [where x = "toBytes v x"])

lemma prepareHand_fields: "prepareHand v st e w (n, i) = Some (Inr h) \<Longrightarrow> ph_handNumber h = n \<and> ph_secretIndex h = i"
  by (auto simp: prepareHand_def)

lemma demo_session:
  "\<exists>st. sessionAt (enclaveRun demo_viem demo_lib demo_calls rt) ''s'' 0 = Some st \<and> es_secrets st = [ZERO32] \<and>
     es_vrfResultHash st \<noteq> None \<and> es_vrfResultHash st \<noteq> Some []"
proof -
  obtain ls where ls: "buildSecretLeaves demo_viem (toBytes32 demo_viem ''s'') 0 [ZERO32] = Inr ls"
    by (auto simp: buildSecretLeaves_def secretLeaf_def hashEnc_def demo_viem_def)
  let ?rt1 = "snd (commitBatch demo_viem (\<lambda>i. ZERO32) \<lparr>cb_sessionId = ''s'', cb_epoch = EpochNumber 0, cb_secretCount = Some 1\<rparr> rt)"
  obtain st where st: "sessionAt ?rt1 ''s'' 0 = Some st" "es_secrets st = [ZERO32]"
    using ls by (simp add: commitBatch_def Let_def)
  have "locate ?rt1 ''s'' (EpochNumber 0) = Inr (0, st)" using st(1) by (simp add: locate_ok)
  then show ?thesis
    using st(2) toBytes32_nonempty [OF demo_viem_hash_lib] by (simp add: enclaveRun_def demo_calls_def bindVrf_def Let_def)
qed

lemma demo_enclave_prepared:
  assumes "soundRuntime demo_viem demo_lib rt"
  shows "\<exists>resp rt1. prepareDecks demo_viem demo_lib now demo_decks (enclaveRun demo_viem demo_lib demo_calls rt) = (Some (Inr resp), rt1) \<and>
    length (pr_hands resp) = 1"
proof -
  let ?rt = "enclaveRun demo_viem demo_lib demo_calls rt"
  obtain st where st: "sessionAt ?rt ''s'' 0 = Some st" "es_secrets st = [ZERO32]" "es_vrfResultHash st \<noteq> None" "es_vrfResultHash st \<noteq> Some []"
    using demo_session by blast
  obtain p where p: "prepareSeeded demo_viem st 0 7 0 (toBytes32 demo_viem ''w'') = Some (Inr p)"
    using demo_prepareOne [of 0 st 0 7] st(2) by auto
  have l: "locate ?rt ''s'' (EpochNumber 0) = Inr (0, st)" using st(1) by (simp add: locate_ok)
  have att: "isOk (fst (attestDecks demo_viem demo_lib now ''s'' 0 st roots ?rt))" for roots
    by (simp add: attestDecks_def signDealerBatchAttestation_def hashDealerBatchAttestation_def issueMockAttestation_def
        hashMockAttestationFields_def Let_def)
  then obtain dig rt1 where "attestDecks demo_viem demo_lib now ''s'' 0 st [pd_deckRoot p] ?rt = (Inr dig, rt1)"
    by (metis isOk_iff prod.collapse)
  then show ?thesis using l st(3,4) p by (simp add: prepareDecks_def demo_decks_def)
qed

lemma demo_attestation:
  assumes "sessionAt rt sid e = Some st" "es_attestation st = Some a"
  shows "\<exists>resp. getAttestation demo_viem lib now sid (EpochNumber e) rt = Inr resp"
proof -
  have l: "locate rt sid (EpochNumber e) = Inr (e, st)" using assms(1) by (simp add: locate_ok)
  have "\<exists>r. verifyDocument demo_viem lib ver now doc = Inr r" for ver doc
    by (cases ver) (auto simp: verifyMock_def measurementHashFromPcrs_def hashMockAttestationFields_def Let_def
        split: AttestationMode.split option.split)
  then obtain r where r: "verifyDocument demo_viem lib (er_verifier rt) now doc = Inr (r doc)" for doc by metis
  have "\<exists>b. verifyDealerBatchAttestation demo_viem lib a None = Inr b"
    by (auto simp: verifyDealerBatchAttestation_def hashDealerBatchAttestation_def split: option.split)
  then obtain b where "verifyDealerBatchAttestation demo_viem lib a None = Inr b" by blast
  then show ?thesis using l assms(2) r by (cases "es_attestationDocument st") (simp_all add: getAttestation_def)
qed

text \<open>The dealer after it has prepared its decks.\<close>

lemma demo_ready:
  obtains rt0 rt1 resp st a where "newRuntime demo_viem None Mock_mode defaultOptions = Inr rt0"
    "prepareDecks demo_viem demo_lib now demo_decks (enclaveRun demo_viem demo_lib demo_calls rt0) = (Some (Inr resp), rt1)"
    "length (pr_hands resp) = 1" "rt1 = enclaveRun demo_viem demo_lib (demo_calls @ [Prepare now demo_decks]) rt0"
    "sessionAt rt1 ''s'' 0 = Some st" "es_attestation st = Some a"
proof -
  obtain rt0 where rt0: "newRuntime demo_viem None Mock_mode defaultOptions = Inr rt0" using demo_runtime by blast
  let ?rt = "enclaveRun demo_viem demo_lib demo_calls rt0"
  note sound0 = newRuntime_ok(1) [OF rt0]
  obtain resp rt1 where p: "prepareDecks demo_viem demo_lib now demo_decks ?rt = (Some (Inr resp), rt1)" "length (pr_hands resp) = 1"
    using demo_enclave_prepared [OF sound0] by blast
  have sound: "soundRuntime demo_viem demo_lib ?rt" using run_sound [OF sound0] by blast
  from p(1) show thesis
  proof (cases rule: prepareDecks_cases)
    case refused
    then show thesis by blast
  next
    case (prepared e st hands d)
    have k: "e = 0" "sessionAt ?rt ''s'' 0 = Some st" using prepared(1) by (auto simp: locate_ok demo_decks_def)
    then have s: "es_epoch st = e" using sound unfolding soundRuntime_def soundSession_def by blast
    have ok: "isOk d" using prepared(5) by (cases d) auto
    obtain st' a where "rt1 = putSession ''s'' 0 st' ?rt" "es_attestation st' = Some a"
      by (rule attestDecks_effect [OF prepared(4) s prepareHands_batch(1) [OF prepared(2) s]]) (use ok k(1) in \<open>auto simp: demo_decks_def\<close>)
    then show thesis using that [OF rt0 p] p(1) by (simp add: enclaveRun_def)
  qed
qed

section \<open>Properties\<close>

text \<open>C30: Attestations are faithful. Whatever commitments, bindings and preparations a dealer has performed in whatever order,
  an attestation it serves verifies; it names the session and epoch asked for, the root of exactly the secrets the session
  holds, the measurement of the runtime, and a batch root over decks that were prepared from these secrets; and nobody can
  show another attestation with the same digest that differs in one of these fields without a keccak collision.\<close>

theorem attestation_is_faithful:
  assumes "sign_lib lib" "abi_injective v" "newRuntime v envKey mode opts = Inr rt0" "rt = enclaveRun v lib calls rt0"
    and "getAttestation v lib now sid e rt = Inr resp" "parseEpoch e = Inr epoch" "a = ar_attestation resp"
  shows "\<exists>st. sessionAt rt sid epoch = Some st \<and> ar_dealerBatchOk resp \<and> attests v lib rt st a \<and>
    da_sessionId a = toBytes32 v sid \<and> da_epoch a = epoch \<and>
    (\<exists>leaves. buildSecretLeaves v (toBytes32 v sid) epoch (es_secrets st) = Inr leaves \<and>
       da_dealerSecretRoot a = buildDealerSecretRoot v leaves) \<and>
    (\<forall>b. hashDealerBatchAttestation v b = hashDealerBatchAttestation v a \<longrightarrow>
       js_lower (da_sessionId b) = js_lower (da_sessionId a) \<and> da_epoch b = da_epoch a \<and>
       js_lower (da_dealerSecretRoot b) = js_lower (da_dealerSecretRoot a) \<and>
       js_lower (da_deckBatchRoot b) = js_lower (da_deckBatchRoot a) \<and>
       js_lower (da_vrfRequestId b) = js_lower (da_vrfRequestId a) \<and>
       js_lower (da_vrfResultHash b) = js_lower (da_vrfResultHash a) \<and>
       js_lower (da_enclaveMeasurement b) = js_lower (da_enclaveMeasurement a) \<or>
       collides v (attestationBytes v a) (attestationBytes v b))"
proof -
  have sound: "soundRuntime v lib rt"
    using run_sound [OF newRuntime_ok(1) [OF assms(3)], of lib calls] assms(4) by simp
  obtain st where st: "sessionAt rt sid epoch = Some st" "soundSession v lib rt sid epoch st" "attests v lib rt st a"
    "\<exists>b. verifyDealerBatchAttestation v lib a None = Inr b \<and> ar_dealerBatchOk resp = isOk b"
    by (rule getAttestation_ok [OF assms(5) sound]) (use assms(6,7) in auto)
  have "ar_dealerBatchOk resp" using attests_verifies [OF assms(1) st(3)] st(4) by auto
  moreover obtain d where d: "hashDealerBatchAttestation v a = Inr d" using st(3) by (auto simp: attests_def)
  note bind = attestation_binding [OF d _ assms(2)]
  ultimately show ?thesis
    using st(1-3) d bind by (intro exI [of _ st]) (auto simp: soundSession_def attests_def)
qed

theorem attestation_is_faithful_witness:
  "\<exists>rt resp. getAttestation demo_viem demo_lib 6000 ''s'' (EpochNumber 0) rt = Inr resp \<and> ar_dealerBatchOk resp \<and>
     da_epoch (ar_attestation resp) = 0"
proof -
  obtain rt0 rt1 resp st a where d: "newRuntime demo_viem None Mock_mode defaultOptions = Inr rt0"
    "rt1 = enclaveRun demo_viem demo_lib (demo_calls @ [Prepare 5000 demo_decks]) rt0"
    "sessionAt rt1 ''s'' 0 = Some st" "es_attestation st = Some a"
    by (rule demo_ready [of 5000])
  obtain r where "getAttestation demo_viem demo_lib 6000 ''s'' (EpochNumber 0) rt1 = Inr r" using demo_attestation [OF d(3,4)] by blast
  then show ?thesis
    using attestation_is_faithful [OF demo_sign_lib demo_viem_injective d(1,2), of 6000 "''s''" "EpochNumber 0" r 0] by auto
qed

text \<open>The key is released exactly under a fresh document. A dealer with the default options releases its key with an
  attestation if and only if it runs in mock mode and the document it stored is at most an hour old; the key is the one of
  the policy; the document is signed over the digest of the attestation that is served; and no verification ever claims a
  production enclave. In Nitro mode there is no document and no release.\<close>

theorem key_release_exact:
  assumes "hash_lib v" "sign_lib lib" "newRuntime v envKey mode defaultOptions = Inr rt0"
    and "getAttestation v lib now sid e (enclaveRun v lib calls rt0) = Inr resp"
  shows "(case ar_document resp of
            None \<Rightarrow> mode = Nitro_mode \<and> ar_kmsRelease resp = Inl AttestationFailed
          | Some doc \<Rightarrow> mode = Mock_mode \<and>
              (\<exists>f. ad_mock doc = Some f \<and> hashDealerBatchAttestation v (ar_attestation resp) = Inr (ma_userData f) \<and>
                 ar_kmsRelease resp = (if 0 \<le> now - ma_timestamp f \<and> now - ma_timestamp f \<le> 3600000
                                       then Inr (mockDek v) else Inl AttestationFailed))) \<and>
    (\<forall>m pk ud p. ar_documentResult resp = Some (VerifyOk mode m pk ud p) \<longrightarrow> \<not> p)"
proof -
  let ?rt = "enclaveRun v lib calls rt0"
  have run: "soundRuntime v lib ?rt" "sameConfig rt0 ?rt"
    using run_sound [OF newRuntime_ok(1) [OF assms(3)], of lib calls] by simp_all
  note cfg = sameConfigD [OF run(2)] newRuntime_ok(2,3) [OF assms(3)]
  note def = newRuntime_default [OF assms(3,1)]
  obtain epoch st a where g: "soundSession v lib ?rt sid epoch st" "es_attestation st = Some a" "ar_attestation resp = a"
    "ar_document resp = es_attestationDocument st"
    "(case ar_document resp of None \<Rightarrow> ar_documentResult resp = None
      | Some doc \<Rightarrow> \<exists>r. verifyDocument v lib (er_verifier ?rt) now doc = Inr r \<and> ar_documentResult resp = Some r)"
    "ar_kmsRelease resp = (case ar_documentResult resp of None \<Rightarrow> Inl AttestationFailed
       | Some r \<Rightarrow> releaseDealerKey (er_kms ?rt) ''mock-dealer-dek'' r)"
    by (rule getAttestation_ok [OF assms(4) run(1)]) auto
  show ?thesis
  proof (cases "es_attestationDocument st")
    case None
    then show ?thesis using g cfg by (simp add: soundSession_def)
  next
    case (Some doc)
    have m: "mode = Mock_mode" "documents v lib ?rt a doc" using g(1,2) Some cfg by (auto simp: soundSession_def)
    obtain f where f: "ad_mock doc = Some f" "hashDealerBatchAttestation v a = Inr (ma_userData f)"
      "\<forall>now. verifyMock v lib (newRegistry_of [er_measurement ?rt]) 3600000 now doc =
         Inr (if 0 \<le> now - ma_timestamp f \<and> now - ma_timestamp f \<le> 3600000
              then VerifyOk Mock_mode (er_measurement ?rt) (ma_publicKey f) (ma_userData f) False else VerifyFail Mock_mode OutOfWindow)"
      using documents_verify [OF assms(2) m(2), of 3600000] cfg by auto
    have "ar_documentResult resp = Some (if 0 \<le> now - ma_timestamp f \<and> now - ma_timestamp f \<le> 3600000
        then VerifyOk Mock_mode (er_measurement ?rt) (ma_publicKey f) (ma_userData f) False else VerifyFail Mock_mode OutOfWindow)"
      using g(4,5) Some f(3) cfg def(1) m(1) by simp
    then show ?thesis using g(3,4,6) Some f(1,2) m(1) cfg def(2) by simp
  qed
qed

theorem key_release_exact_witness:
  "\<exists>rt now resp. getAttestation demo_viem demo_lib now ''s'' (EpochNumber 0) rt = Inr resp \<and> ar_kmsRelease resp = Inr (mockDek demo_viem)"
proof -
  obtain rt0 rt1 resp st a where d: "newRuntime demo_viem None Mock_mode defaultOptions = Inr rt0"
    "rt1 = enclaveRun demo_viem demo_lib (demo_calls @ [Prepare 5000 demo_decks]) rt0"
    "sessionAt rt1 ''s'' 0 = Some st" "es_attestation st = Some a"
    by (rule demo_ready [of 5000])
  have get: "\<exists>r. getAttestation demo_viem demo_lib now ''s'' (EpochNumber 0) rt1 = Inr r \<and> ar_document r = es_attestationDocument st" for now
  proof -
    obtain r where r: "getAttestation demo_viem demo_lib now ''s'' (EpochNumber 0) rt1 = Inr r" using demo_attestation [OF d(3,4)] by blast
    moreover have "locate rt1 ''s'' (EpochNumber 0) = Inr (0, st)" using d(3) by (simp add: locate_ok)
    ultimately show ?thesis using d(4) by (auto simp: getAttestation_def)
  qed
  note exact = key_release_exact [OF demo_viem_hash_lib demo_sign_lib d(1), of _ "''s''" "EpochNumber 0"]
  obtain r where r: "getAttestation demo_viem demo_lib 0 ''s'' (EpochNumber 0) rt1 = Inr r" "ar_document r = es_attestationDocument st"
    using get by blast
  obtain f where f: "es_attestationDocument st = Some doc \<Longrightarrow> ad_mock doc = Some (f doc)" "es_attestationDocument st \<noteq> None" for doc
    using exact [OF r(1) [unfolded d(2)]] r(2) by (cases "es_attestationDocument st") auto
  then obtain doc where doc: "es_attestationDocument st = Some doc" "ad_mock doc = Some (f doc)" by blast
  obtain r' where r': "getAttestation demo_viem demo_lib (ma_timestamp (f doc)) ''s'' (EpochNumber 0) rt1 = Inr r'"
    "ar_document r' = es_attestationDocument st" using get by blast
  have "ar_kmsRelease r' = Inr (mockDek demo_viem)" using exact [OF r'(1) [unfolded d(2)]] r'(2) doc by auto
  then show ?thesis using r'(1) by blast
qed

text \<open>C31: Openings follow the commitment. Once decks are prepared, then after any further operations that do not commit the
  session anew each position of each prepared hand can be opened under the same random word; all openings of a hand are
  under the deck root that was announced, the public verifier accepts each of them, and together they show every card of the
  deck exactly once.\<close>

theorem openings_follow_commitment:
  assumes "hash_lib v" "soundRuntime v lib rt" "prepareDecks v lib now body rt = (Some (Inr resp), rt1)"
    and "parseEpoch (pb_epoch body) = Inr epoch" "\<forall>c \<in> set calls. \<not> commitsTo (pb_sessionId body) epoch c"
    and "j < length (pr_hands resp)" "hand = pr_hands resp ! j"
  shows "pr_deckBatchRoot resp = buildDeckBatchRoot v (map ph_deckRoot (pr_hands resp)) \<and>
    map ph_handNumber (pr_hands resp) = pb_handNumbers body \<and>
    (\<exists>deck. distinct deck \<and> set deck = {0..<52} \<and>
      (\<forall>k < 52. \<exists>op. openPublicCard v \<lparr>oq_sessionId = pb_sessionId body, oq_epoch = pb_epoch body, oq_handNumber = ph_handNumber hand,
          oq_secretIndex = ph_secretIndex hand, oq_vrfWord = pb_vrfWord body, oq_position = int k\<rparr> (enclaveRun v lib calls rt1) =
            Some (Inr \<lparr>ow_handId = ph_handId hand, ow_deckRoot = ph_deckRoot hand, ow_opening = op\<rparr>) \<and>
          co_position op = k \<and> co_cardCode op = deck ! k \<and>
          verifyCardOpening v \<lparr>oi_handId = ph_handId hand, oi_deckRoot = ph_deckRoot hand, oi_position = int k,
            oi_cardCode = co_cardCode op, oi_cardSalt = co_cardSalt op, oi_proof = co_proof op\<rparr> =
            Inr \<lparr>ov_ok = True, ov_cardLeaf = co_cardLeaf op\<rparr>))"
  using assms(3)
proof (cases rule: prepareDecks_cases)
  case refused
  then show ?thesis by blast
next
  case (prepared e st hands d)
  have e: "e = epoch" "sessionAt rt (pb_sessionId body) epoch = Some st" using prepared(1) assms(4) by (auto simp: locate_ok)
  then have s: "es_epoch st = epoch" using assms(2) unfolding soundRuntime_def soundSession_def by blast
  have resp: "pr_hands resp = hands" "pr_deckBatchRoot resp = buildDeckBatchRoot v (map ph_deckRoot hands)"
    using prepared(5) by (cases d; simp)+
  note hs = prepareHands_batch [OF prepared(2) s [folded e(1)]]
  let ?hs = "zip (pb_handNumbers body) (pb_secretIndices body)"
  have numbers: "map ph_handNumber hands = pb_handNumbers body"
  proof (rule nth_equalityI)
    show len: "length (map ph_handNumber hands) = length (pb_handNumbers body)" using hs(2) prepared(3) by simp
    show "map ph_handNumber hands ! i = pb_handNumbers body ! i" if "i < length (map ph_handNumber hands)" for i
      using hs(3) [of i] that len prepared(3) by auto
  qed
  obtain p where p: "prepareSeeded v st epoch (fst (?hs ! j)) (snd (?hs ! j)) (toBytes32 v (pb_vrfWord body)) = Some (Inr p)"
    "hand = \<lparr>ph_handNumber = fst (?hs ! j), ph_handId = pd_handId p, ph_deckRoot = pd_deckRoot p, ph_secretIndex = snd (?hs ! j)\<rparr>"
    using hs(2) hs(3) [of j] assms(6,7) resp(1) e(1) by auto
  have rt1: "rt1 = enclaveStep v lib (Prepare now body) rt" using assms(3) by simp
  have sound1: "soundRuntime v lib rt1" unfolding rt1 using step_sound [OF assms(2)] by blast
  obtain st1 where st1: "sessionAt rt1 (pb_sessionId body) epoch = Some st1" "sameCommitment st st1"
    using step_keeps [of "pb_sessionId body" epoch "Prepare now body" rt st v lib] e(2) assms(2) rt1 by (auto simp: commitsTo_def)
  obtain st2 where st2: "sessionAt (enclaveRun v lib calls rt1) (pb_sessionId body) epoch = Some st2" "sameCommitment st st2"
    using run_keeps [OF st1(1) sound1 assms(5)] st1(2) sameCommitment_trans by blast
  have "prepareSeeded v st2 = prepareSeeded v st" using st2(2) by (intro prepareSeeded_secrets) (simp_all add: sameCommitment_def)
  then have one: "prepareOne v st2 (ph_handNumber hand) (ph_secretIndex hand) (pb_vrfWord body) = Some (Inr p)"
    using p s st2(2) by (simp add: prepareOne_def sameCommitment_def)
  have loc: "locate (enclaveRun v lib calls rt1) (pb_sessionId body) (pb_epoch body) = Inr (epoch, st2)"
    using st2(1) assms(4) by (simp add: locate_ok)
  obtain seed where "prepareHandDeck v (pd_handId p) seed (Some (int (ph_secretIndex hand))) None (Some Production) = Some (Inr p)"
    using prepareSeeded_okD [OF one [unfolded prepareOne_def]] by blast
  from prepareHandDeck_okD(1) [OF this] have deck: "distinct (pd_deck p)" "set (pd_deck p) \<subseteq> {0..<52}" "length (pd_deck p) = 52"
    by (auto simp: assertValidDeck_def validLoop_iff DECK_SIZE_def split: if_splits)
  have full: "set (pd_deck p) = {0..<52}" using deck distinct_card [OF deck(1)] by (intro card_subset_eq) auto
  have hand: "pd_handId p = ph_handId hand" "pd_deckRoot p = ph_deckRoot hand" using p(2) by simp_all
  have opens: "\<exists>op. openPublicCard v \<lparr>oq_sessionId = pb_sessionId body, oq_epoch = pb_epoch body, oq_handNumber = ph_handNumber hand,
          oq_secretIndex = ph_secretIndex hand, oq_vrfWord = pb_vrfWord body, oq_position = int k\<rparr> (enclaveRun v lib calls rt1) =
            Some (Inr \<lparr>ow_handId = ph_handId hand, ow_deckRoot = ph_deckRoot hand, ow_opening = op\<rparr>) \<and>
          co_position op = k \<and> co_cardCode op = pd_deck p ! k \<and>
          verifyCardOpening v \<lparr>oi_handId = ph_handId hand, oi_deckRoot = ph_deckRoot hand, oi_position = int k,
            oi_cardCode = co_cardCode op, oi_cardSalt = co_cardSalt op, oi_proof = co_proof op\<rparr> =
            Inr \<lparr>ov_ok = True, ov_cardLeaf = co_cardLeaf op\<rparr>" if "k < 52" for k
    using openPublicCard_prepared [OF assms(1) loc one that] unfolding hand by blast
  show ?thesis using resp numbers deck(1) full opens by (intro conjI exI [of _ "pd_deck p"]) auto
qed

theorem openings_follow_commitment_witness:
  "\<exists>rt (resp :: PrepareDecksResult) (op :: OpenPublicCardResult). length (pr_hands resp) = 1 \<and>
     openPublicCard demo_viem \<lparr>oq_sessionId = ''s'', oq_epoch = EpochNumber 0, oq_handNumber = 7, oq_secretIndex = 0, oq_vrfWord = ''w'',
       oq_position = 51\<rparr> rt = Some (Inr op) \<and> ow_deckRoot op = ph_deckRoot (pr_hands resp ! 0)"
proof -
  obtain rt0 rt1 resp where d: "newRuntime demo_viem None Mock_mode defaultOptions = Inr rt0"
    "prepareDecks demo_viem demo_lib 5000 demo_decks (enclaveRun demo_viem demo_lib demo_calls rt0) = (Some (Inr resp), rt1)"
    "length (pr_hands resp) = 1"
    by (rule demo_ready [of 5000])
  have sound: "soundRuntime demo_viem demo_lib (enclaveRun demo_viem demo_lib demo_calls rt0)"
    using run_sound [OF newRuntime_ok(1) [OF d(1)]] by blast
  have hand: "ph_handNumber (pr_hands resp ! 0) = 7 \<and> ph_secretIndex (pr_hands resp ! 0) = 0"
  proof -
    from d(2) show ?thesis
    proof (cases rule: prepareDecks_cases)
      case refused
      then show ?thesis by blast
    next
      case (prepared e st hands r)
      have "pr_hands resp = hands" using prepared(5) by (cases r) auto
      moreover have "prepareHand demo_viem st e (toBytes32 demo_viem ''w'') (7, 0) = Some (Inr (hands ! 0))"
        using mapX_ok [OF prepared(2)] by (simp add: demo_decks_def)
      ultimately show ?thesis using prepareHand_fields by blast
    qed
  qed
  have body: "parseEpoch (pb_epoch demo_decks) = Inr 0" "\<forall>c \<in> set []. \<not> commitsTo (pb_sessionId demo_decks) 0 c"
    "0 < length (pr_hands resp)" using d(3) by (simp_all add: demo_decks_def)
  obtain deck where deck: "\<forall>k < 52. \<exists>op. openPublicCard demo_viem \<lparr>oq_sessionId = pb_sessionId demo_decks, oq_epoch = pb_epoch demo_decks,
      oq_handNumber = ph_handNumber (pr_hands resp ! 0), oq_secretIndex = ph_secretIndex (pr_hands resp ! 0),
      oq_vrfWord = pb_vrfWord demo_decks, oq_position = int k\<rparr> (enclaveRun demo_viem demo_lib [] rt1) =
        Some (Inr \<lparr>ow_handId = ph_handId (pr_hands resp ! 0), ow_deckRoot = ph_deckRoot (pr_hands resp ! 0), ow_opening = op\<rparr>) \<and>
      co_cardCode op = deck ! k"
    using openings_follow_commitment [OF demo_viem_hash_lib sound d(2) body refl] by blast
  have fields: "pb_sessionId demo_decks = ''s''" "pb_epoch demo_decks = EpochNumber 0" "pb_vrfWord demo_decks = ''w''" "int 51 = 51"
    by (simp_all add: demo_decks_def)
  have "(51 :: nat) < 52" by simp
  from deck [rule_format, OF this] obtain op where
    "openPublicCard demo_viem \<lparr>oq_sessionId = ''s'', oq_epoch = EpochNumber 0, oq_handNumber = 7, oq_secretIndex = 0, oq_vrfWord = ''w'',
       oq_position = 51\<rparr> (enclaveRun demo_viem demo_lib [] rt1) =
     Some (Inr \<lparr>ow_handId = ph_handId (pr_hands resp ! 0), ow_deckRoot = ph_deckRoot (pr_hands resp ! 0), ow_opening = op\<rparr>)"
    unfolding fields conjunct1 [OF hand] conjunct2 [OF hand] by blast
  moreover have "ow_deckRoot \<lparr>ow_handId = ph_handId (pr_hands resp ! 0), ow_deckRoot = ph_deckRoot (pr_hands resp ! 0), ow_opening = op\<rparr> =
      ph_deckRoot (pr_hands resp ! 0)" by simp
  ultimately show ?thesis
    by (intro exI [of _ "enclaveRun demo_viem demo_lib [] rt1"] exI [of _ resp] exI [of _ "\<lparr>ow_handId = ph_handId (pr_hands resp ! 0),
        ow_deckRoot = ph_deckRoot (pr_hands resp ! 0), ow_opening = op\<rparr>"] conjI d(3))
qed


definition demo_delivery :: DeliverPrivateCardsBody where
  "demo_delivery = \<lparr>dp_sessionId = ''s'', dp_epoch = EpochNumber 0, dp_handNumber = 7, dp_secretIndex = 0, dp_vrfWord = ''w'',
     dp_deals = [\<lparr>sd_seat = \<lparr>si_seatIndex = 0, si_x25519PublicKey = el_publicKey demo_lib ZERO32\<rparr>, sd_positions = [3]\<rparr>]\<rparr>"

lemma demo_delivered:
  assumes "sessionAt rt ''s'' 0 = Some st" "es_secrets st = [ZERO32]"
  shows "\<exists>resp. deliverPrivateCards demo_viem demo_lib (\<lambda>i. (ZERO32, ZERO32)) demo_delivery rt = Some (Inr resp)"
proof -
  have l: "locate rt ''s'' (EpochNumber 0) = Inr (0, st)" using assms(1) by (simp add: locate_ok)
  obtain p where p: "prepareOne demo_viem st 7 0 ''w'' = Some (Inr p)"
    using demo_prepareOne [of 0 st _ 7] assms(2) unfolding prepareOne_def by auto
  obtain op where op: "openCard demo_viem (pd_handId p) (pd_deck p) (pd_cardSalts p) (pd_deckRoot p) 3 = Inr op"
    using openPublicCard_prepared [OF demo_viem_hash_lib l p, of 3] by auto
  have "hexBytes (drop 2 (el_publicKey demo_lib ZERO32)) = 32" using demo_seal_lib by (simp add: seal_lib_def)
  then have "\<exists>s. sealDeal demo_viem demo_lib x p (ZERO32, ZERO32) (dp_deals demo_delivery ! 0) = Inr s" for x
    using op by (simp add: sealDeal_def demo_delivery_def sealPrivateCardsToSeat_def x25519KeyFromRaw_def sealAadDigest_def Let_def)
  then obtain s where "sealDeal demo_viem demo_lib (es_sessionIdBytes32 st) p (ZERO32, ZERO32) (dp_deals demo_delivery ! 0) = Inr s" by blast
  moreover have "length (dp_deals demo_delivery) = 1" by (simp add: demo_delivery_def)
  ultimately show ?thesis using l p by (simp add: deliverPrivateCards_def) (simp add: demo_delivery_def)
qed


text \<open>The VRF result a session is bound to is never compared with the random word of a request: cards are opened under any word,
  and the same cards whatever was bound, or when nothing was.\<close>

lemma vrf_binding_unread:
  "openPublicCard v body (snd (bindVrf v bound rt)) = openPublicCard v body rt"
proof -
  have eq: "locate rt' sid e = (case parseEpoch e of Inl x \<Rightarrow> Inl x | Inr ep \<Rightarrow>
      (case sessionAt rt' sid ep of None \<Rightarrow> Inl (NoSession sid ep) | Some st \<Rightarrow> Inr (ep, st)))" for rt' sid e
    by (simp add: locate_def requireSession_def sessionAt_def split: sum.split option.split)
  have "snd (bindVrf v bound rt) = rt \<or> (\<exists>ep st st'. sessionAt rt (bv_sessionId bound) ep = Some st \<and> sameCommitment st st' \<and>
      snd (bindVrf v bound rt) = putSession (bv_sessionId bound) ep st' rt)"
  proof (cases "locate rt (bv_sessionId bound) (bv_epoch bound)")
    case (Inl x)
    then show ?thesis by (simp add: bindVrf_def)
  next
    case (Inr found)
    obtain ep st where f: "found = (ep, st)" by (cases found)
    let ?st' = "st\<lparr>es_vrfRequestId := Some (toBytes32 v (bv_vrfRequestId bound)), es_vrfResultHash := Some (toBytes32 v (bv_vrfResultHash bound))\<rparr>"
    have "snd (bindVrf v bound rt) = putSession (bv_sessionId bound) ep ?st' rt" using Inr f by (simp add: bindVrf_def Let_def)
    moreover have "sessionAt rt (bv_sessionId bound) ep = Some st" using Inr f by (simp add: locate_ok)
    moreover have "sameCommitment st ?st'" by (simp add: sameCommitment_def)
    ultimately show ?thesis by blast
  qed
  then show ?thesis
  proof (elim disjE exE conjE)
    fix ep st st'
    assume h: "sessionAt rt (bv_sessionId bound) ep = Some st" "sameCommitment st st'"
      "snd (bindVrf v bound rt) = putSession (bv_sessionId bound) ep st' rt"
    have same: "prepareOne v st' = prepareOne v st"
      using h(2) prepareSeeded_secrets [of st' st v] by (intro ext) (simp add: prepareOne_def sameCommitment_def)
    show ?thesis
      unfolding openPublicCard_def h(3) eq using h(1) same by (auto split: sum.split option.split)
  qed simp
qed

end
