(* ===== verification/Session_Seal.thy ===== *)
theory Session_Seal
  imports Watchtower
begin

text \<open>
  \<^verbatim>\<open>packages/session-seal/src\<close>: the builder of a session's commitments. It puts the participants in seat order,
  refuses mixed tickets, builds the participant, opening-balance, controller and profile trees and the session descriptor,
  and hands the descriptor with the ordered tickets to the vault. The vault and \<open>encodeFunctionData\<close> are arguments.
\<close>

section \<open>Data\<close>

text \<open>A ticket as the players send it, and with its numbers and its address normalised.\<close>

record SealTicket =
  tki_arenaAccount :: Hex
  tki_gameTemplateId :: Hex
  tki_matchmakingPool :: Hex
  tki_buyIn :: bigintish
  tki_controllerHash :: Hex
  tki_profileConfigHash :: Hex
  tki_modelPolicyHash :: Hex
  tki_leagueBit :: js_number
  tki_rated :: bool
  tki_expiresAt :: bigintish
  tki_nonce :: bigintish

record SeatTicketV3Wire =
  tkw_arenaAccount :: Hex
  tkw_gameTemplateId :: Hex
  tkw_matchmakingPool :: Hex
  tkw_buyIn :: int
  tkw_controllerHash :: Hex
  tkw_profileConfigHash :: Hex
  tkw_modelPolicyHash :: Hex
  tkw_leagueBit :: js_number
  tkw_rated :: bool
  tkw_expiresAt :: int
  tkw_nonce :: int

record SealParticipant =
  pt_owner :: Hex
  pt_ticket :: SealTicket
  pt_signature :: Hex

record SeatedParticipant = SealParticipant +
  pt_seat :: nat

record SealPolicy =
  pol_dealerSecretRoot :: Hex
  pol_randomnessPolicyId :: Hex
  pol_settlementPolicyId :: Hex

record SessionCommitments =
  cm_descriptor :: SessionDescriptorInput
  cm_sessionDescriptorHash :: Hex
  cm_participantLeaves :: "Hex list"
  cm_openingBalanceLeaves :: "Hex list"
  cm_controllerLeaves :: "Hex list"
  cm_profileLeaves :: "Hex list"
  cm_orderedTickets :: "SeatTicketV3Wire list"
  cm_orderedSignatures :: "Hex list"
  cm_orderedOwners :: "Hex list"

record SealPrepareInput =
  sl_chainId :: int
  sl_gameTemplateId :: Hex
  sl_participants :: "SealParticipant list"
  sl_seatOrder :: "js_number list option"
  sl_sessionNonce :: Hex
  sl_createdAt :: int
  sl_sealDeadline :: int
  sl_policy :: SealPolicy

datatype seal_error =
    NoParticipants
  | SeatOrderLength nat nat
  | InvalidSeat js_number nat
  | DuplicateSeat js_number
  | SeatHole
  | TicketTemplate Hex Hex
  | DuplicateAccount Hex
  | SealBigInt watch_error
  | SealEnc enc_error
  | CreatedAfterDeadline
  | VaultRejected string

fun liftSeal :: "enc_error + 'a \<Rightarrow> seal_error + 'a" where
  "liftSeal (Inl e) = Inl (SealEnc e)"
| "liftSeal (Inr x) = Inr x"

fun sealBigInt :: "bigintish \<Rightarrow> seal_error + int" where
  "sealBigInt b = (case asBigInt b of Inl e \<Rightarrow> Inl (SealBigInt e) | Inr i \<Rightarrow> Inr i)"

lemma liftSeal_Inr_iff [simp]: "liftSeal m = Inr x \<longleftrightarrow> m = Inr x"
  by (cases m) auto

lemma sealBigInt_Inr_iff [simp]: "sealBigInt b = Inr i \<longleftrightarrow> asBigInt b = Inr i"
  by (auto split: sum.splits)

declare sealBigInt.simps [simp del]

section \<open>Seat order\<close>

text \<open>The validation loop; \<open>seen\<close> is the set of seats met. A seat that passes is a natural number below \<open>n\<close>.\<close>

definition validSeat :: "nat \<Rightarrow> js_number \<Rightarrow> nat option" where
  "validSeat n seat =
     (case seat of
        NonFinite \<Rightarrow> None
      | Finite q \<Rightarrow> if \<not> js_isInteger q \<or> q < 0 \<or> of_nat n \<le> q then None else Some (nat \<lfloor>q\<rfloor>))"

fun checkSeatOrder :: "nat \<Rightarrow> nat list \<Rightarrow> js_number list \<Rightarrow> seal_error + nat list" where
  "checkSeatOrder n seen [] = Inr []"
| "checkSeatOrder n seen (seat # rest) =
     (case validSeat n seat of
        None \<Rightarrow> Inl (InvalidSeat seat n)
      | Some s \<Rightarrow>
          if s \<in> set seen then Inl (DuplicateSeat seat)
          else bindE (checkSeatOrder n (s # seen) rest) (\<lambda>ss. Inr (s # ss)))"

definition withSeat :: "SealParticipant \<Rightarrow> nat \<Rightarrow> SeatedParticipant" where
  "withSeat p seat = \<lparr>pt_owner = pt_owner p, pt_ticket = pt_ticket p, pt_signature = pt_signature p, pt_seat = seat\<rparr>"

text \<open>The placement loop writes into an array with holes; reading a hole later would be the \<open>SeatHole\<close> error, which
  \<open>applySeatOrder_no_hole\<close> shows never to occur.\<close>

fun placeSeats :: "SeatedParticipant option list \<Rightarrow> SealParticipant list \<Rightarrow> nat list \<Rightarrow> SeatedParticipant option list" where
  "placeSeats bySeat (p # ps) (seat # order) = placeSeats (bySeat[seat := Some (withSeat p seat)]) ps order"
| "placeSeats bySeat _ _ = bySeat"

definition noHoles :: "SeatedParticipant option list \<Rightarrow> seal_error + SeatedParticipant list" where
  "noHoles = mapE (\<lambda>x. case x of None \<Rightarrow> Inl SeatHole | Some p \<Rightarrow> Inr p)"

definition applySeatOrder :: "SealParticipant list \<Rightarrow> js_number list option \<Rightarrow> seal_error + SeatedParticipant list" where
  "applySeatOrder participants seatOrder =
     (let n = length participants
      in if n = 0 then Inl NoParticipants
         else let order = orElse seatOrder (map (\<lambda>i. Finite (of_nat i)) [0..<n])
              in if length order \<noteq> n then Inl (SeatOrderLength (length order) n)
                 else bindE (checkSeatOrder n [] order) (\<lambda>seats.
                        noHoles (placeSeats (replicate n None) participants seats)))"

fun ticketsLoop :: "Hex \<Rightarrow> Hex list \<Rightarrow> SeatedParticipant list \<Rightarrow> seal_error + unit" where
  "ticketsLoop template accounts [] = Inr ()"
| "ticketsLoop template accounts (p # ps) =
     (if js_lower (tki_gameTemplateId (pt_ticket p)) \<noteq> js_lower template
      then Inl (TicketTemplate (tki_gameTemplateId (pt_ticket p)) template)
      else let key = js_lower (tki_arenaAccount (pt_ticket p))
           in if key \<in> set accounts then Inl (DuplicateAccount (tki_arenaAccount (pt_ticket p)))
              else ticketsLoop template (key # accounts) ps)"

definition assertHomogeneousTickets :: "SeatedParticipant list \<Rightarrow> Hex \<Rightarrow> seal_error + unit" where
  "assertHomogeneousTickets seated template = ticketsLoop template [] seated"

section \<open>Commitments\<close>

definition normalizeTicket :: "viem \<Rightarrow> SealTicket \<Rightarrow> seal_error + SeatTicketV3Wire" where
  "normalizeTicket v t =
     bindE (liftSeal (getAddress v (tki_arenaAccount t))) (\<lambda>account.
     bindE (sealBigInt (tki_buyIn t)) (\<lambda>buyIn.
     bindE (sealBigInt (tki_expiresAt t)) (\<lambda>expiresAt.
     bindE (sealBigInt (tki_nonce t)) (\<lambda>nonce.
       Inr \<lparr>tkw_arenaAccount = account, tkw_gameTemplateId = tki_gameTemplateId t,
            tkw_matchmakingPool = tki_matchmakingPool t, tkw_buyIn = buyIn, tkw_controllerHash = tki_controllerHash t,
            tkw_profileConfigHash = tki_profileConfigHash t, tkw_modelPolicyHash = tki_modelPolicyHash t,
            tkw_leagueBit = tki_leagueBit t, tkw_rated = tki_rated t, tkw_expiresAt = expiresAt, tkw_nonce = nonce\<rparr>))))"

definition sealParticipantLeaf :: "viem \<Rightarrow> SeatedParticipant \<times> SeatTicketV3Wire \<Rightarrow> seal_error + Hex" where
  "sealParticipantLeaf v pt =
     (let p = fst pt; ticket = snd pt
      in bindE (liftSeal (getAddress v (pt_owner p))) (\<lambda>owner.
         bindE (liftSeal (participantLeaf v
           \<lparr>pl_owner = owner, pl_arenaAccount = tkw_arenaAccount ticket, pl_seat = int (pt_seat p),
            pl_buyIn = tkw_buyIn ticket, pl_controllerHash = tkw_controllerHash ticket,
            pl_profileHash = tkw_profileConfigHash ticket, pl_ratingPool = tkw_matchmakingPool ticket,
            pl_rated = tkw_rated ticket, pl_seatTicketNonce = tkw_nonce ticket\<rparr>)) (\<lambda>h. Inr (hash h))))"

definition sealOpeningLeaf :: "viem \<Rightarrow> Hex \<Rightarrow> SeatTicketV3Wire \<times> nat \<Rightarrow> seal_error + Hex" where
  "sealOpeningLeaf v sessionId ti =
     bindE (liftSeal (openingBalanceLeaf v
       \<lparr>ob_sessionId = sessionId, ob_arenaAccount = tkw_arenaAccount (fst ti), ob_seat = int (snd ti),
        ob_openingBalance = tkw_buyIn (fst ti)\<rparr>)) (\<lambda>h. Inr (hash h))"

definition sealControllerLeaf :: "viem \<Rightarrow> SeatTicketV3Wire \<times> nat \<Rightarrow> seal_error + Hex" where
  "sealControllerLeaf v ti =
     bindE (liftSeal (controllerLeaf v \<lparr>cl_seat = int (snd ti), cl_controllerHash = tkw_controllerHash (fst ti)\<rparr>))
       (\<lambda>h. Inr (hash h))"

definition withIndex :: "'a list \<Rightarrow> ('a \<times> nat) list" where
  "withIndex xs = zip xs [0..<length xs]"

text \<open>What is built once the seats are known.\<close>

definition commitSeated :: "viem \<Rightarrow> SealPrepareInput \<Rightarrow> SeatedParticipant list \<Rightarrow> seal_error + SessionCommitments" where
  "commitSeated v inp seated =
     bindE (assertHomogeneousTickets seated (sl_gameTemplateId inp)) (\<lambda>_.
     bindE (mapE (\<lambda>p. normalizeTicket v (pt_ticket p)) seated) (\<lambda>orderedTickets.
     bindE (mapE (sealParticipantLeaf v) (zip seated orderedTickets)) (\<lambda>participantLeaves.
     let participantRoot = root (merkleRoot v participantLeaves) in
     bindE (liftSeal (deriveSessionId v
       \<lparr>si_chainId = sl_chainId inp, si_gameTemplateId = sl_gameTemplateId inp, si_participantRoot = participantRoot,
        si_sessionNonce = sl_sessionNonce inp, si_createdAt = sl_createdAt inp\<rparr>)) (\<lambda>sid.
     bindE (mapE (sealOpeningLeaf v (hash sid)) (withIndex orderedTickets)) (\<lambda>openingBalanceLeaves.
     bindE (mapE (sealControllerLeaf v) (withIndex orderedTickets)) (\<lambda>controllerLeaves.
     let profileLeaves = map tkw_profileConfigHash orderedTickets;
         descriptor =
           \<lparr>sd_chainId = sl_chainId inp, sd_protocolVersion = 3, sd_sessionId = hash sid,
            sd_gameTemplateId = sl_gameTemplateId inp, sd_participantRoot = participantRoot,
            sd_openingBalanceRoot = root (merkleRoot v openingBalanceLeaves),
            sd_controllerRoot = root (merkleRoot v controllerLeaves),
            sd_profileRoot = root (merkleRoot v profileLeaves),
            sd_dealerSecretRoot = pol_dealerSecretRoot (sl_policy inp),
            sd_randomnessPolicyId = pol_randomnessPolicyId (sl_policy inp),
            sd_settlementPolicyId = pol_settlementPolicyId (sl_policy inp),
            sd_createdAt = sl_createdAt inp, sd_sealDeadline = sl_sealDeadline inp, sd_sessionNonce = sl_sessionNonce inp\<rparr> in
     bindE (liftSeal (sessionDescriptorHash v descriptor)) (\<lambda>dh.
     bindE (mapE (\<lambda>p. liftSeal (getAddress v (pt_owner p))) seated) (\<lambda>owners.
       Inr \<lparr>cm_descriptor = descriptor, cm_sessionDescriptorHash = hash dh, cm_participantLeaves = participantLeaves,
            cm_openingBalanceLeaves = openingBalanceLeaves, cm_controllerLeaves = controllerLeaves,
            cm_profileLeaves = profileLeaves, cm_orderedTickets = orderedTickets,
            cm_orderedSignatures = map pt_signature seated, cm_orderedOwners = owners\<rparr>))))))))"

definition buildSessionCommitments :: "viem \<Rightarrow> SealPrepareInput \<Rightarrow> seal_error + SessionCommitments" where
  "buildSessionCommitments v inp =
     bindE (applySeatOrder (sl_participants inp) (sl_seatOrder inp)) (commitSeated v inp)"

section \<open>The coordinator\<close>

datatype SealMode = Dry_run | Submit

record SealCalldata =
  cd_to :: Hex
  cd_data :: Hex
  cd_descriptor :: SessionDescriptorInput
  cd_tickets :: "SeatTicketV3Wire list"
  cd_signatures :: "Hex list"

datatype SealResult =
    DryRunOk SessionCommitments SealCalldata
  | SubmitOk SessionCommitments Hex
  | SealFailed SealMode seal_error "SessionCommitments option"

text \<open>\<open>encodeFunctionData\<close> for \<open>sealAndFundSession\<close>, which throws on a value that does not fit its type, and the vault's
  client, which answers with a transaction hash or throws.\<close>

type_synonym seal_encoder = "SessionDescriptorInput \<Rightarrow> SeatTicketV3Wire list \<Rightarrow> Hex list \<Rightarrow> enc_error + Hex"

record VaultSealClient =
  vc_vaultAddress :: Hex
  vc_sealAndFundSession :: "SessionDescriptorInput \<Rightarrow> SeatTicketV3Wire list \<Rightarrow> Hex list \<Rightarrow> string + Hex"

definition encodeSealAndFundCalldata :: "seal_encoder \<Rightarrow> Hex \<Rightarrow> SessionCommitments \<Rightarrow> seal_error + SealCalldata" where
  "encodeSealAndFundCalldata encode vault c =
     bindE (liftSeal (encode (cm_descriptor c) (cm_orderedTickets c) (cm_orderedSignatures c))) (\<lambda>d.
       Inr \<lparr>cd_to = vault, cd_data = d, cd_descriptor = cm_descriptor c, cd_tickets = cm_orderedTickets c,
            cd_signatures = cm_orderedSignatures c\<rparr>)"

definition prepareSeal :: "viem \<Rightarrow> SealPrepareInput \<Rightarrow> seal_error + SessionCommitments" where
  "prepareSeal v inp =
     (if sl_sealDeadline inp < sl_createdAt inp then Inl CreatedAfterDeadline else buildSessionCommitments v inp)"

text \<open>\<open>Inl\<close> is the rejection of the promise: the encoding is outside the \<open>try\<close> blocks.\<close>

definition seal ::
  "viem \<Rightarrow> seal_encoder \<Rightarrow> VaultSealClient \<Rightarrow> SealPrepareInput \<Rightarrow> SealMode \<Rightarrow> seal_error + SealResult" where
  "seal v encode vault inp mode =
     (case prepareSeal v inp of
        Inl e \<Rightarrow> Inr (SealFailed mode e None)
      | Inr c \<Rightarrow>
          bindE (encodeSealAndFundCalldata encode (vc_vaultAddress vault) c) (\<lambda>calldata.
            if mode = Dry_run then Inr (DryRunOk c calldata)
            else case vc_sealAndFundSession vault (cm_descriptor c) (cm_orderedTickets c) (cm_orderedSignatures c) of
                   Inl e \<Rightarrow> Inr (SealFailed Submit (VaultRejected e) (Some c))
                 | Inr txHash \<Rightarrow> Inr (SubmitOk c txHash)))"

definition dryRunSeal :: "viem \<Rightarrow> seal_encoder \<Rightarrow> SealPrepareInput \<Rightarrow> Hex \<Rightarrow> SealResult" where
  "dryRunSeal v encode inp vaultAddress =
     (case bindE (prepareSeal v inp) (\<lambda>c. bindE (encodeSealAndFundCalldata encode vaultAddress c) (\<lambda>calldata. Inr (c, calldata))) of
        Inl e \<Rightarrow> SealFailed Dry_run e None
      | Inr (c, calldata) \<Rightarrow> DryRunOk c calldata)"

section \<open>Seating\<close>

definition seatNumber :: "nat \<Rightarrow> js_number" where
  "seatNumber s = Finite (of_nat s)"

lemma seatNumber_inj: "inj seatNumber"
  by (auto simp: inj_def seatNumber_def)

lemma js_isInteger_of_nat [simp]: "js_isInteger (of_nat s)"
  using js_isInteger_of_int [of "int s"] by simp

lemma validSeat_Some_iff: "validSeat n x = Some s \<longleftrightarrow> x = seatNumber s \<and> s < n"
proof (cases x)
  case (Finite q)
  have "q = of_nat (nat \<lfloor>q\<rfloor>)" if "js_isInteger q" "\<not> q < 0"
    using that by (metis js_isInteger_def linorder_not_less of_int_0_le_iff of_int_of_nat_eq of_nat_nat)
  then show ?thesis using Finite by (auto simp: validSeat_def seatNumber_def not_le)
qed (simp add: validSeat_def seatNumber_def)

lemma checkSeatOrder_iff:
  "checkSeatOrder n seen order = Inr ss \<longleftrightarrow>
     order = map seatNumber ss \<and> distinct ss \<and> set ss \<subseteq> {..<n} \<and> set ss \<inter> set seen = {}"
proof (induction order arbitrary: seen ss)
  case (Cons x order)
  show ?case
  proof (cases "validSeat n x")
    case None
    then have "\<not> (x = seatNumber s \<and> s < n)" for s by (metis option.distinct(1) validSeat_Some_iff)
    then show ?thesis using None by auto
  next
    case (Some s)
    then have x: "x = seatNumber s" "s < n" by (auto simp: validSeat_Some_iff)
    then have "x = seatNumber t \<longleftrightarrow> t = s" for t using seatNumber_inj by (auto dest: injD)
    then show ?thesis
      using Some x Cons.IH [of "s # seen"] by (cases ss) (auto simp: bindE_Inr_iff)
  qed
qed auto

lemma member_nth: "x \<in> set xs \<Longrightarrow> length xs = n \<Longrightarrow> \<exists>i<n. x = xs ! i"
  by (auto simp: in_set_conv_nth)

lemma length_placeSeats [simp]: "length (placeSeats bySeat ps order) = length bySeat"
  by (induction bySeat ps order rule: placeSeats.induct) auto

lemma placeSeats_other: "k \<notin> set order \<Longrightarrow> placeSeats bySeat ps order ! k = bySeat ! k"
  by (induction bySeat ps order rule: placeSeats.induct) auto

lemma placeSeats_at:
  "distinct order \<Longrightarrow> set order \<subseteq> {..<length bySeat} \<Longrightarrow> length ps = length order \<Longrightarrow> i < length order \<Longrightarrow>
     placeSeats bySeat ps order ! (order ! i) = Some (withSeat (ps ! i) (order ! i))"
proof (induction bySeat ps order arbitrary: i rule: placeSeats.induct)
  case (1 bySeat p ps seat order)
  then show ?case by (cases i) (auto simp: placeSeats_other)
qed auto

lemma noHoles_iff: "noHoles xs = Inr ps \<longleftrightarrow> xs = map Some ps"
  unfolding noHoles_def
  by (induction xs arbitrary: ps) (auto simp: bindE_Inr_iff Cons_eq_map_conv split: option.splits)

lemma full_seats: "distinct ss \<Longrightarrow> set ss \<subseteq> {..<n} \<Longrightarrow> length ss = n \<Longrightarrow> set ss = {..<n}"
  by (simp add: card_subset_eq distinct_card)

lemma placeSeats_full:
  assumes "distinct ss" "set ss \<subseteq> {..<n}" "length ss = n" "length ps = n"
  shows "\<exists>seated. placeSeats (replicate n None) ps ss = map Some seated \<and> length seated = n \<and>
    (\<forall>i<n. seated ! (ss ! i) = withSeat (ps ! i) (ss ! i))"
proof -
  let ?b = "placeSeats (replicate n None) ps ss"
  have at: "?b ! (ss ! i) = Some (withSeat (ps ! i) (ss ! i))" if "i < n" for i
    using placeSeats_at [of ss "replicate n None" ps i] assms that by simp
  have "x \<noteq> None" if x: "x \<in> set ?b" for x
  proof -
    obtain k where k: "k < n" "x = ?b ! k" using member_nth [OF x, of n] by auto
    then have "k \<in> set ss" using full_seats [OF assms(1-3)] by simp
    then obtain i where "i < n" "k = ss ! i" using member_nth [OF _ assms(3)] by blast
    then show ?thesis using at [of i] k(2) by simp
  qed
  then have b: "?b = map Some (map the ?b)" by (simp add: map_idI)
  have "map the ?b ! (ss ! i) = withSeat (ps ! i) (ss ! i)" if "i < n" for i
    using at [OF that] that assms by (auto simp: subset_iff)
  then show ?thesis using b by (intro exI [of _ "map the ?b"]) auto
qed

definition seatsOf :: "nat \<Rightarrow> js_number list option \<Rightarrow> nat list \<Rightarrow> bool" where
  "seatsOf n seatOrder ss \<longleftrightarrow>
     orElse seatOrder (map seatNumber [0..<n]) = map seatNumber ss \<and> distinct ss \<and> set ss = {..<n}"

lemma applySeatOrder_iff:
  "applySeatOrder ps so = Inr seated \<longleftrightarrow>
     ps \<noteq> [] \<and> length seated = length ps \<and>
     (\<exists>ss. seatsOf (length ps) so ss \<and> (\<forall>i<length ps. seated ! (ss ! i) = withSeat (ps ! i) (ss ! i)))"
  (is "?L \<longleftrightarrow> ?R")
proof -
  let ?n = "length ps"
  have order: "orElse so (map (\<lambda>i. Finite (of_nat i)) [0..<?n]) = orElse so (map seatNumber [0..<?n])"
    by (simp add: seatNumber_def [abs_def])
  have len: "length ss = ?n" if "distinct ss" "set ss = {..<?n}" for ss :: "nat list"
    using distinct_card [OF that(1)] that(2) by simp
  show ?thesis
  proof
    assume ?L
    then obtain ss where ss: "ps \<noteq> []" "length (orElse so (map seatNumber [0..<?n])) = ?n"
      "checkSeatOrder ?n [] (orElse so (map seatNumber [0..<?n])) = Inr ss" "placeSeats (replicate ?n None) ps ss = map Some seated"
      unfolding applySeatOrder_def Let_def order by (auto simp: noHoles_iff split: if_splits)
    then have o: "orElse so (map seatNumber [0..<?n]) = map seatNumber ss" "distinct ss" "set ss \<subseteq> {..<?n}"
      by (auto simp: checkSeatOrder_iff)
    then have l: "length ss = ?n" using ss(2) by simp
    obtain seated' where s': "placeSeats (replicate ?n None) ps ss = map Some seated'" "length seated' = ?n"
      "\<forall>i<?n. seated' ! (ss ! i) = withSeat (ps ! i) (ss ! i)"
      using placeSeats_full [OF o(2,3) l, of ps] by auto
    then have "seated' = seated" using ss(4) by (metis inj_map_eq_map inj_Some)
    then show ?R using ss(1) s'(2,3) o(1,2) full_seats [OF o(2,3) l] by (auto simp: seatsOf_def)
  next
    assume ?R
    then obtain ss where r: "ps \<noteq> []" "length seated = ?n" "seatsOf ?n so ss"
      "\<forall>i<?n. seated ! (ss ! i) = withSeat (ps ! i) (ss ! i)" by auto
    then have o: "orElse so (map seatNumber [0..<?n]) = map seatNumber ss" "distinct ss" "set ss = {..<?n}"
      by (auto simp: seatsOf_def)
    have l: "length ss = ?n" using len o(2,3) by blast
    obtain seated' where s': "placeSeats (replicate ?n None) ps ss = map Some seated'" "length seated' = ?n"
      "\<forall>i<?n. seated' ! (ss ! i) = withSeat (ps ! i) (ss ! i)"
      using placeSeats_full [OF o(2) _ l, of ps] o(3) by auto
    have "seated' ! k = seated ! k" if k: "k < ?n" for k
    proof -
      obtain i where "i < ?n" "k = ss ! i" using member_nth [OF _ l, of k] k o(3) by blast
      then show ?thesis using r(4) s'(3) by simp
    qed
    then have "seated' = seated" using r(2) s'(2) by (simp add: list_eq_iff_nth_eq)
    moreover have "checkSeatOrder ?n [] (orElse so (map seatNumber [0..<?n])) = Inr ss" using o by (simp add: checkSeatOrder_iff)
    moreover have "length (orElse so (map seatNumber [0..<?n])) = ?n" using o(1) l by simp
    ultimately show ?L using r(1) s'(1) unfolding applySeatOrder_def Let_def order by (simp add: noHoles_iff)
  qed
qed

text \<open>Every order that passes the checks fills every seat.\<close>

lemma applySeatOrder_no_hole: "applySeatOrder ps so \<noteq> Inl SeatHole"
proof
  assume h: "applySeatOrder ps so = Inl SeatHole"
  let ?n = "length ps"
  let ?o = "orElse so (map (\<lambda>i. Finite (of_nat i)) [0..<?n])"
  have c: "checkSeatOrder n seen order \<noteq> Inl SeatHole" for n seen order
    by (induction order arbitrary: seen) (auto split: option.splits simp: bindE_Inr_iff elim: bindE.elims)
  then obtain ss where ss: "ps \<noteq> []" "length ?o = ?n" "checkSeatOrder ?n [] ?o = Inr ss"
    "noHoles (placeSeats (replicate ?n None) ps ss) = Inl SeatHole"
    using h unfolding applySeatOrder_def Let_def by (auto split: if_splits elim: bindE.elims)
  then have o: "?o = map seatNumber ss" "distinct ss" "set ss \<subseteq> {..<?n}" by (auto simp: checkSeatOrder_iff)
  then have "length ss = ?n" using ss(2) by simp
  then obtain seated where "placeSeats (replicate ?n None) ps ss = map Some seated"
    using placeSeats_full [OF o(2,3)] by blast
  then show False using ss(4) noHoles_iff [of "map Some seated" seated] by simp
qed

section \<open>What is committed\<close>

lemma ticketsLoop_ok:
  "ticketsLoop template accounts ps = Inr u \<Longrightarrow>
     distinct (map (\<lambda>p. js_lower (tki_arenaAccount (pt_ticket p))) ps) \<and>
     (\<forall>p \<in> set ps. js_lower (tki_gameTemplateId (pt_ticket p)) = js_lower template \<and>
        js_lower (tki_arenaAccount (pt_ticket p)) \<notin> set accounts)"
  by (induction template accounts ps rule: ticketsLoop.induct) (auto simp: Let_def split: if_splits)

lemma commitSeatedE:
  assumes "commitSeated v inp seated = Inr c"
  obtains "ticketsLoop (sl_gameTemplateId inp) [] seated = Inr ()"
    "mapE (\<lambda>p. normalizeTicket v (pt_ticket p)) seated = Inr (cm_orderedTickets c)"
    "mapE (sealParticipantLeaf v) (zip seated (cm_orderedTickets c)) = Inr (cm_participantLeaves c)"
    "mapE (sealOpeningLeaf v (sd_sessionId (cm_descriptor c))) (withIndex (cm_orderedTickets c)) = Inr (cm_openingBalanceLeaves c)"
    "mapE (sealControllerLeaf v) (withIndex (cm_orderedTickets c)) = Inr (cm_controllerLeaves c)"
    "cm_orderedSignatures c = map pt_signature seated"
    "mapE (\<lambda>p. liftSeal (getAddress v (pt_owner p))) seated = Inr (cm_orderedOwners c)"
    "sd_participantRoot (cm_descriptor c) = root (merkleRoot v (cm_participantLeaves c))"
    "sd_openingBalanceRoot (cm_descriptor c) = root (merkleRoot v (cm_openingBalanceLeaves c))"
    "sd_controllerRoot (cm_descriptor c) = root (merkleRoot v (cm_controllerLeaves c))"
  using assms by (auto simp: commitSeated_def Let_def assertHomogeneousTickets_def)

lemma hashed_leaf:
  assumes "bindE (liftSeal m) (\<lambda>h. Inr (hash h)) = Inr x"
  obtains h where "m = Inr h" "hash h = x"
  using assms by auto

lemma hashEnc_hex32: "hash_lib v \<Longrightarrow> hashEnc v t vs = Inr h \<Longrightarrow> is_hex32 (hash h)"
  by (auto simp: hash_lib_def dest!: hashEnc_InrD)

lemma mapE_list_all: "mapE f xs = Inr ys \<Longrightarrow> (\<And>x y. f x = Inr y \<Longrightarrow> P y) \<Longrightarrow> list_all P ys"
  by (induction xs arbitrary: ys) auto

lemma sealed_leaf_hex:
  assumes "hash_lib v"
  shows "sealParticipantLeaf v pt = Inr x \<Longrightarrow> is_hex32 x" "sealOpeningLeaf v sid ti = Inr x \<Longrightarrow> is_hex32 x"
    "sealControllerLeaf v ti = Inr x \<Longrightarrow> is_hex32 x"
  using assms
  by (auto simp: sealParticipantLeaf_def sealOpeningLeaf_def sealControllerLeaf_def Let_def participantLeaf_def
      openingBalanceLeaf_def controllerLeaf_def intro: hashEnc_hex32)

lemma withIndex_nth: "i < length xs \<Longrightarrow> withIndex xs ! i = (xs ! i, i)"
  by (simp add: withIndex_def)

lemma length_withIndex [simp]: "length (withIndex xs) = length xs"
  by (simp add: withIndex_def)

lemma prepareSealE:
  assumes "prepareSeal v inp = Inr c"
  obtains seated where "sl_createdAt inp \<le> sl_sealDeadline inp"
    "applySeatOrder (sl_participants inp) (sl_seatOrder inp) = Inr seated" "commitSeated v inp seated = Inr c"
  using assms by (auto simp: prepareSeal_def buildSessionCommitments_def split: if_splits)

lemma seated_distinct:
  assumes "length seated = length ps" "seatsOf (length ps) so ss"
    "\<And>i. i < length ps \<Longrightarrow> seated ! (ss ! i) = withSeat (ps ! i) (ss ! i)"
    "distinct (map (\<lambda>p. js_lower (tki_arenaAccount (pt_ticket p))) seated)"
  shows "distinct (map (\<lambda>p. js_lower (tki_arenaAccount (pt_ticket p))) ps)"
proof -
  have ss: "length ss = length ps" "distinct ss" "set ss = {..<length ps}"
    using assms(2) distinct_card [of ss] by (auto simp: seatsOf_def)
  have at: "ss ! i < length seated" if "i < length ps" for i
    using nth_mem [of i ss] that ss(1,3) assms(1) by simp
  have "i = j" if "i < length ps" "j < length ps"
    "js_lower (tki_arenaAccount (pt_ticket (ps ! i))) = js_lower (tki_arenaAccount (pt_ticket (ps ! j)))" for i j
  proof -
    have "js_lower (tki_arenaAccount (pt_ticket (seated ! (ss ! i)))) = js_lower (tki_arenaAccount (pt_ticket (seated ! (ss ! j))))"
      using that assms(3) [OF that(1)] assms(3) [OF that(2)] by (simp add: withSeat_def)
    then have "ss ! i = ss ! j"
      using assms(4) at [OF that(1)] at [OF that(2)] nth_eq_iff_index_eq [OF assms(4), of "ss ! i" "ss ! j"] by simp
    then show ?thesis using ss(1,2) that(1,2) by (simp add: nth_eq_iff_index_eq)
  qed
  then show ?thesis unfolding distinct_conv_nth by auto
qed


section \<open>The order of arrival\<close>

lemma applySeatOrder_perm:
  assumes "applySeatOrder ps (Some order) = Inr seated" "length order = length ps" "length order' = length ps'"
    "mset (zip ps order) = mset (zip ps' order')"
  shows "applySeatOrder ps' (Some order') = Inr seated"
proof -
  have n: "length ps' = length ps" using mset_eq_length [OF assms(4)] assms(2,3) by simp
  obtain ss where ss: "ps \<noteq> []" "length seated = length ps" "order = map seatNumber ss" "distinct ss"
    "set ss = {..<length ps}" "\<And>i. i < length ps \<Longrightarrow> seated ! (ss ! i) = withSeat (ps ! i) (ss ! i)"
    using assms(1) by (auto simp: applySeatOrder_iff seatsOf_def)
  have "mset order = mset (map snd (zip ps order))" "mset order' = mset (map snd (zip ps' order'))"
    using assms(2,3) by simp_all
  then have m: "mset order' = mset order" using assms(4) by (metis mset_map)
  have "set order' \<subseteq> range seatNumber" using mset_eq_setD [OF m] ss(3) by auto
  then obtain ss' where o': "order' = map seatNumber ss'" by (metis ex_map_conv image_iff subset_eq)
  have "distinct order" using ss(3,4) inj_on_subset [OF seatNumber_inj] by (simp add: distinct_map)
  then have "distinct order'" using mset_eq_imp_distinct_iff [OF m] by simp
  then have d1: "distinct ss'" using o' by (simp add: distinct_map)
  have "seatNumber ` set ss' = seatNumber ` set ss" using mset_eq_setD [OF m] o' ss(3) by simp
  then have d: "distinct ss'" "set ss' = {..<length ps'}" using ss(5) n d1 inj_image_eq_iff [OF seatNumber_inj] by auto
  have "seated ! (ss' ! i) = withSeat (ps' ! i) (ss' ! i)" if i: "i < length ps'" for i
  proof -
    have "(ps' ! i, order' ! i) \<in> set (zip ps' order')" using i assms(3) by (force simp: set_zip)
    then have "(ps' ! i, order' ! i) \<in> set (zip ps order)" using mset_eq_setD [OF assms(4)] by simp
    then obtain j where j: "j < length ps" "ps' ! i = ps ! j" "order' ! i = order ! j" by (auto simp: set_zip)
    then have "seatNumber (ss' ! i) = seatNumber (ss ! j)" using o' ss(3) i assms(2,3) by simp
    then have "ss' ! i = ss ! j" using seatNumber_inj by (simp add: inj_eq)
    then show ?thesis using ss(6) [OF j(1)] j(2) by simp
  qed
  moreover have "ps' \<noteq> []" using ss(1) n by auto
  ultimately show ?thesis using ss(2) n d o' by (auto simp: applySeatOrder_iff seatsOf_def)
qed

lemma commitSeated_order: "commitSeated v (inp\<lparr>sl_participants := ps, sl_seatOrder := so\<rparr>) seated = commitSeated v inp seated"
  by (simp add: commitSeated_def)

text \<open>The order in which the participants arrive does not matter. If the participants are listed in another order
  together with their seats, \<open>prepare\<close> builds the same commitments: the same leaves, roots, session identifier,
  descriptor hash and ordered tickets.\<close>

theorem seal_ignores_arrival_order:
  assumes "prepareSeal v inp = Inr c" "sl_seatOrder inp = Some order" "length order = length (sl_participants inp)"
    "length order' = length ps'" "mset (zip ps' order') = mset (zip (sl_participants inp) order)"
  shows "prepareSeal v (inp\<lparr>sl_participants := ps', sl_seatOrder := Some order'\<rparr>) = Inr c"
proof -
  obtain seated where s: "sl_createdAt inp \<le> sl_sealDeadline inp"
    "applySeatOrder (sl_participants inp) (Some order) = Inr seated" "commitSeated v inp seated = Inr c"
    using assms(1) unfolding assms(2) [symmetric] by (rule prepareSealE)
  have "applySeatOrder ps' (Some order') = Inr seated"
    using applySeatOrder_perm [OF s(2) assms(3,4)] assms(5) by simp
  then show ?thesis using s by (simp add: prepareSeal_def buildSessionCommitments_def commitSeated_order)
qed

section \<open>Dry runs\<close>

text \<open>A dry run of the coordinator and \<open>dryRunSeal\<close> answer alike, except that a calldata encoding that throws is an error
  value of the one and a rejection of the other, and a submission only reaches the vault with what the dry run shows.\<close>

lemma dry_run_agrees:
  "seal v encode vault inp Dry_run =
     (case prepareSeal v inp of
        Inl e \<Rightarrow> Inr (SealFailed Dry_run e None)
      | Inr c \<Rightarrow> (case encode (cm_descriptor c) (cm_orderedTickets c) (cm_orderedSignatures c) of
                   Inl e \<Rightarrow> Inl (SealEnc e)
                 | Inr d \<Rightarrow> Inr (dryRunSeal v encode inp (vc_vaultAddress vault))))"
  by (auto simp: seal_def dryRunSeal_def encodeSealAndFundCalldata_def split: sum.splits)

lemma dryRunSeal_encoding_error:
  "prepareSeal v inp = Inr c \<Longrightarrow> encode (cm_descriptor c) (cm_orderedTickets c) (cm_orderedSignatures c) = Inl e \<Longrightarrow>
     dryRunSeal v encode inp vault = SealFailed Dry_run (SealEnc e) None"
  by (simp add: dryRunSeal_def encodeSealAndFundCalldata_def)

section \<open>An instance\<close>

definition demo_ticket :: "string \<Rightarrow> SealTicket" where
  "demo_ticket account =
     \<lparr>tki_arenaAccount = account, tki_gameTemplateId = ''0xAB'', tki_matchmakingPool = ''0x01'', tki_buyIn = VString ''5'',
      tki_controllerHash = ''0x02'', tki_profileConfigHash = ''0x03'', tki_modelPolicyHash = ''0x04'', tki_leagueBit = Finite 1,
      tki_rated = True, tki_expiresAt = VBig 9, tki_nonce = VNumber (Finite 1)\<rparr>"

definition demo_player :: "string \<Rightarrow> SealParticipant" where
  "demo_player account = \<lparr>pt_owner = ''0x0a'' @ account, pt_ticket = demo_ticket account, pt_signature = ''0x''\<rparr>"

definition demo_seal :: "SealParticipant list \<Rightarrow> nat list \<Rightarrow> SealPrepareInput" where
  "demo_seal ps order =
     \<lparr>sl_chainId = 8453, sl_gameTemplateId = ''0xab'', sl_participants = ps, sl_seatOrder = Some (map seatNumber order),
      sl_sessionNonce = ''0x05'', sl_createdAt = 1, sl_sealDeadline = 2,
      sl_policy = \<lparr>pol_dealerSecretRoot = ''0x06'', pol_randomnessPolicyId = ''0x07'', pol_settlementPolicyId = ''0x08''\<rparr>\<rparr>"

lemma demo_hashEnc_iff: "hashEnc demo_viem t vs = Inr h \<longleftrightarrow>
    h = \<lparr>canonicalBytesHex = concat (map abi_show vs), hash = demo_keccak (concat (map abi_show vs))\<rparr>"
  by (auto simp: hashEnc_def demo_viem_def)

lemma demo_hashEnc_ok: "\<exists>h. hashEnc demo_viem t vs = Inr h"
  by (simp add: demo_hashEnc_iff)

lemma mapE_ok: "(\<And>x. x \<in> set xs \<Longrightarrow> isOk (f x)) \<Longrightarrow> \<exists>ys. mapE f xs = Inr ys"
  by (induction xs) (auto simp: isOk_iff bindE_Inr_iff)

lemma demo_ticket_ok:
  "normalizeTicket demo_viem (demo_ticket a) = Inr
     \<lparr>tkw_arenaAccount = a, tkw_gameTemplateId = ''0xAB'', tkw_matchmakingPool = ''0x01'', tkw_buyIn = 5,
      tkw_controllerHash = ''0x02'', tkw_profileConfigHash = ''0x03'', tkw_modelPolicyHash = ''0x04'',
      tkw_leagueBit = Finite 1, tkw_rated = True, tkw_expiresAt = 9, tkw_nonce = 1\<rparr>"
proof -
  have "sealBigInt (VString ''5'') = Inr 5" by code_simp
  moreover have "sealBigInt (VBig 9) = Inr 9" "sealBigInt (VNumber (Finite 1)) = Inr 1"
    using js_isInteger_of_int [of 1] by (simp_all add: sealBigInt.simps)
  ultimately show ?thesis
    by (simp add: normalizeTicket_def demo_ticket_def demo_viem_def del: sealBigInt_Inr_iff)
qed

lemma demo_seal_ok: "\<exists>c. prepareSeal demo_viem (demo_seal [demo_player ''0x11'', demo_player ''0x22''] [1, 0]) = Inr c"
proof -
  let ?seated = "[withSeat (demo_player ''0x22'') 0, withSeat (demo_player ''0x11'') 1]"
  let ?inp = "demo_seal [demo_player ''0x11'', demo_player ''0x22''] [1, 0]"
  have seated: "applySeatOrder [demo_player ''0x11'', demo_player ''0x22''] (Some (map seatNumber [1, 0])) = Inr ?seated"
    by (auto simp: applySeatOrder_iff seatsOf_def less_Suc_eq intro!: exI [of _ "[1, 0]"])
  have leaf: "isOk (sealParticipantLeaf demo_viem pt)" for pt
    using demo_hashEnc_ok by (auto simp: isOk_iff sealParticipantLeaf_def participantLeaf_def Let_def bindE_Inr_iff)
      (simp add: demo_viem_def)
  have "isOk (sealOpeningLeaf demo_viem sid ti)" "isOk (sealControllerLeaf demo_viem ti)" for sid ti
    using demo_hashEnc_ok
    by (auto simp: isOk_iff sealOpeningLeaf_def sealControllerLeaf_def openingBalanceLeaf_def controllerLeaf_def bindE_Inr_iff)
  then have "\<exists>ys. mapE (sealOpeningLeaf demo_viem sid) xs = Inr ys" "\<exists>ys. mapE (sealControllerLeaf demo_viem) xs = Inr ys"
    "\<exists>ys. mapE (sealParticipantLeaf demo_viem) pts = Inr ys" for sid xs pts
    using leaf by (blast intro: mapE_ok)+
  then obtain pl op ct where all: "\<And>pts. mapE (sealParticipantLeaf demo_viem) pts = Inr (pl pts)"
    "\<And>sid xs. mapE (sealOpeningLeaf demo_viem sid) xs = Inr (op sid xs)"
    "\<And>xs. mapE (sealControllerLeaf demo_viem) xs = Inr (ct xs)" by metis
  have enc: "hashEnc demo_viem t vs =
      Inr \<lparr>canonicalBytesHex = concat (map abi_show vs), hash = demo_keccak (concat (map abi_show vs))\<rparr>" for t vs
    by (simp add: demo_hashEnc_iff)
  have tickets: "ticketsLoop ''0xab'' [] ?seated = Inr ()" by code_simp
  have owners: "getAddress demo_viem a = Inr a" for a by (simp add: demo_viem_def)
  have "\<exists>c. commitSeated demo_viem ?inp ?seated = Inr c"
    using tickets by (simp add: commitSeated_def assertHomogeneousTickets_def all enc deriveSessionId_def
        sessionDescriptorHash_def Let_def owners demo_ticket_ok demo_seal_def withSeat_def demo_player_def)
  then show ?thesis using seated by (simp add: prepareSeal_def buildSessionCommitments_def demo_seal_def)
qed


theorem seal_ignores_arrival_order_witness:
  "prepareSeal demo_viem (demo_seal [demo_player ''0x22'', demo_player ''0x11''] [0, 1]) =
   prepareSeal demo_viem (demo_seal [demo_player ''0x11'', demo_player ''0x22''] [1, 0])"
proof -
  obtain c where c: "prepareSeal demo_viem (demo_seal [demo_player ''0x11'', demo_player ''0x22''] [1, 0]) = Inr c"
    using demo_seal_ok by blast
  show ?thesis
    using seal_ignores_arrival_order [OF c, of "map seatNumber [1, 0]" "map seatNumber [0, 1]"
        "[demo_player ''0x22'', demo_player ''0x11'']"] c
    by (simp add: demo_seal_def)
qed

end
