(* ===== verification/Js_Double.thy ===== *)
theory Js_Double
  imports Watchtower
begin

text \<open>
  Numbers as JavaScript keeps them: a finite number is a rational, and an operation gives the double nearest to the exact
  result, ties to the even significand. Overflow and subnormal numbers are left out; the amounts, times and identifiers
  that the modelled code computes with are far from both. \<open>Number(s)\<close> on a string is here too.
\<close>

section \<open>Rounding to a double\<close>

definition pow2 :: "int \<Rightarrow> rat" where
  "pow2 e = (if 0 \<le> e then 2 ^ nat e else 1 / 2 ^ nat (- e))"

text \<open>The largest power of two below a positive number, from the lengths of its numerator and denominator.\<close>

fun bitLength :: "nat \<Rightarrow> int" where
  "bitLength n = (if n = 0 then 0 else 1 + bitLength (n div 2))"

declare bitLength.simps [simp del]

definition exponentOf :: "rat \<Rightarrow> int" where
  "exponentOf q =
     (let nd = quotient_of q; e = bitLength (nat (fst nd)) - bitLength (nat (snd nd))
      in if pow2 e \<le> q then e else e - 1)"

definition roundEven :: "rat \<Rightarrow> int" where
  "roundEven x =
     (let f = \<lfloor>x\<rfloor>; r = x - of_int f
      in if r < 1 / 2 then f else if 1 / 2 < r then f + 1 else if even f then f else f + 1)"

definition double :: "rat \<Rightarrow> rat" where
  "double q =
     (if q = 0 then 0
      else let u = pow2 (exponentOf \<bar>q\<bar> - 52) in sgn q * of_int (roundEven (\<bar>q\<bar> / u)) * u)"

section \<open>The rounding error\<close>

lemma pow2_pos [simp]: "0 < pow2 e"
  by (simp add: pow2_def)

lemma pow2_powi: "pow2 e = 2 powi e"
  by (simp add: pow2_def power_int_def inverse_eq_divide power_one_over)

lemma pow2_add: "pow2 (a + b) = pow2 a * pow2 b"
  by (simp add: pow2_powi power_int_add)

lemma pow2_mono: "a \<le> b \<Longrightarrow> pow2 a \<le> pow2 b"
  by (simp add: pow2_powi power_int_increasing)

lemma bitLength_bounds: "0 < n \<Longrightarrow> 2 ^ nat (bitLength n - 1) \<le> n \<and> n < 2 ^ nat (bitLength n) \<and> 0 < bitLength n"
proof (induction n rule: less_induct)
  case (less n)
  show ?case
  proof (cases "n = 1")
    case True
    then show ?thesis by (simp add: bitLength.simps)
  next
    case False
    then have d: "0 < n div 2" "n div 2 < n" using less.prems by auto
    note IH = less.IH [OF d(2,1)]
    have b: "bitLength n = 1 + bitLength (n div 2)" using less.prems by (subst bitLength.simps) simp
    have pos: "0 < bitLength (n div 2)" using IH by simp
    have n1: "nat (bitLength n - 1) = Suc (nat (bitLength (n div 2) - 1))" unfolding b using pos by linarith
    have n2: "nat (bitLength n) = Suc (nat (bitLength (n div 2)))" unfolding b using pos by linarith
    have "(2::nat) ^ nat (bitLength n - 1) = 2 * 2 ^ nat (bitLength (n div 2) - 1)" unfolding n1 by simp
    moreover have "(2::nat) ^ nat (bitLength n) = 2 * 2 ^ nat (bitLength (n div 2))" unfolding n2 by simp
    moreover have "2 * (n div 2) \<le> n" "n < 2 * (n div 2) + 2" by linarith+
    ultimately show ?thesis using IH b pos by linarith
  qed
qed

lemma pow2_le_nat: "0 \<le> e \<Longrightarrow> 2 ^ nat e \<le> n \<Longrightarrow> pow2 e \<le> of_nat n"
  by (metis of_nat_le_iff of_nat_numeral of_nat_power pow2_def)

lemma pow2_gt_nat: "0 \<le> e \<Longrightarrow> n < 2 ^ nat e \<Longrightarrow> of_nat n < pow2 e"
  by (metis of_nat_less_iff of_nat_numeral of_nat_power pow2_def)

lemma exponentOf_bounds:
  assumes "0 < q"
  shows "pow2 (exponentOf q) \<le> q" "q < pow2 (exponentOf q + 1)"
proof -
  obtain n d where nd: "quotient_of q = (n, d)" by (cases "quotient_of q")
  have q: "q = of_int n / of_int d" and d: "0 < d" using quotient_of_div [OF nd] quotient_of_denom_pos [OF nd] by auto
  then have n: "0 < n" using assms by (simp add: zero_less_divide_iff)
  define a b where "a = bitLength (nat n)" and "b = bitLength (nat d)"
  have ab: "2 ^ nat (a - 1) \<le> nat n" "nat n < 2 ^ nat a" "0 < a" "2 ^ nat (b - 1) \<le> nat d" "nat d < 2 ^ nat b" "0 < b"
    using bitLength_bounds [of "nat n"] bitLength_bounds [of "nat d"] n d by (auto simp: a_def b_def)
  have lo: "pow2 (a - 1) \<le> of_int n" "of_int d < pow2 b"
    using pow2_le_nat [of "a - 1" "nat n"] pow2_gt_nat [of b "nat d"] n d ab by auto
  have hi: "of_int n < pow2 a" "pow2 (b - 1) \<le> of_int d"
    using pow2_le_nat [of "b - 1" "nat d"] pow2_gt_nat [of a "nat n"] n d ab by auto
  have "pow2 (a - 1 - b) * of_int d \<le> pow2 (a - 1 - b) * pow2 b" using lo(2) by (simp add: less_imp_le)
  then have "pow2 (a - 1 - b) * of_int d \<le> of_int n" using lo(1) by (simp add: pow2_add [symmetric])
  then have l: "pow2 (a - 1 - b) \<le> q" using d by (simp add: q pos_le_divide_eq)
  have "pow2 (a - b + 1) * pow2 (b - 1) \<le> pow2 (a - b + 1) * of_int d" using hi(2) by simp
  then have "of_int n < pow2 (a - b + 1) * of_int d" using hi(1) by (simp add: pow2_add [symmetric])
  then have u: "q < pow2 (a - b + 1)" using d by (simp add: q pos_divide_less_eq)
  have e: "exponentOf q = (if pow2 (a - b) \<le> q then a - b else a - b - 1)"
    by (simp add: exponentOf_def nd a_def b_def Let_def)
  have l: "pow2 (a - b - 1) \<le> q" using l by (simp add: algebra_simps)
  then show "pow2 (exponentOf q) \<le> q" "q < pow2 (exponentOf q + 1)" using e l u by (auto split: if_splits)
qed

lemma exponentOf_eq: "pow2 e \<le> q \<Longrightarrow> q < pow2 (e + 1) \<Longrightarrow> exponentOf q = e"
proof -
  assume h: "pow2 e \<le> q" "q < pow2 (e + 1)"
  then have "0 < q" using pow2_pos [of e] by linarith
  note b = exponentOf_bounds [OF this]
  show ?thesis
    using pow2_mono [of "exponentOf q + 1" e] pow2_mono [of "e + 1" "exponentOf q"] h b
    by (cases "exponentOf q < e"; cases "e < exponentOf q") auto
qed

lemma double_eq:
  "pow2 e \<le> q \<Longrightarrow> q < pow2 (e + 1) \<Longrightarrow> double q = of_int (roundEven (q / pow2 (e - 52))) * pow2 (e - 52)"
proof -
  assume h: "pow2 e \<le> q" "q < pow2 (e + 1)"
  then have "0 < q" using pow2_pos [of e] by linarith
  then show ?thesis using exponentOf_eq [OF h] by (simp add: double_def Let_def)
qed

lemma roundEven_error: "\<bar>of_int (roundEven x) - x\<bar> \<le> 1 / 2"
  proof -
  have "of_int \<lfloor>x\<rfloor> \<le> x" "x < of_int \<lfloor>x\<rfloor> + 1" by linarith+
  then show ?thesis by (auto simp: roundEven_def Let_def abs_le_iff)
qed

lemma roundEven_eq: "\<bar>x - of_int k\<bar> < 1 / 2 \<Longrightarrow> roundEven x = k"
proof -
  assume "\<bar>x - of_int k\<bar> < 1 / 2"
  then have "\<bar>of_int (roundEven x) - of_int k\<bar> < (1 :: rat)" using roundEven_error [of x] by linarith
  then have "of_int \<bar>roundEven x - k\<bar> < (1 :: rat)" by simp
  then have "\<bar>roundEven x - k\<bar> < 1" by linarith
  then show ?thesis by simp
qed

lemma double_error: "\<bar>double q - q\<bar> \<le> \<bar>q\<bar> / 2 ^ 53"
proof (cases "q = 0")
  case False
  define u where "u = pow2 (exponentOf \<bar>q\<bar> - 52)"
  have u: "0 < u" "u * 2 ^ 52 \<le> \<bar>q\<bar>"
    using exponentOf_bounds(1) [of "\<bar>q\<bar>"] False pow2_add [of "exponentOf \<bar>q\<bar> - 52" 52] by (simp_all add: u_def pow2_def)
  have "double q - q = sgn q * (of_int (roundEven (\<bar>q\<bar> / u)) - \<bar>q\<bar> / u) * u"
    using False u(1) mult_sgn_abs [of q] by (simp add: double_def u_def [symmetric] Let_def algebra_simps)
  then have "\<bar>double q - q\<bar> = \<bar>of_int (roundEven (\<bar>q\<bar> / u)) - \<bar>q\<bar> / u\<bar> * u"
    using False u(1) by (simp add: abs_mult abs_sgn_eq)
  also have "\<dots> \<le> 1 / 2 * u" using roundEven_error u(1) by (intro mult_right_mono) auto
  also have "\<dots> \<le> \<bar>q\<bar> / 2 ^ 53" using u(2) by (simp add: field_simps)
  finally show ?thesis .
qed (simp add: double_def)

section \<open>\<open>Number(s)\<close>\<close>

fun spanDigits :: "string \<Rightarrow> string \<times> string" where
  "spanDigits [] = ([], [])"
| "spanDigits (c # cs) =
     (let n = of_char c :: nat
      in if 48 \<le> n \<and> n \<le> 57 then (let r = spanDigits cs in (c # fst r, snd r)) else ([], c # cs))"

text \<open>A decimal literal without a sign.\<close>

definition exponentPart :: "string \<Rightarrow> int option" where
  "exponentPart s =
     (case s of
        [] \<Rightarrow> Some 0
      | c # cs \<Rightarrow>
          if c = CHR ''e'' \<or> c = CHR ''E''
          then let neg = (take 1 cs = ''-''); ds = (if take 1 cs = ''-'' \<or> take 1 cs = ''+'' then drop 1 cs else cs);
                   r = spanDigits ds
               in if fst r = [] \<or> snd r \<noteq> [] then None
                  else Some ((if neg then -1 else 1) * int (digits_value 0 (fst r)))
          else None)"

definition parseUnsigned :: "string \<Rightarrow> rat option" where
  "parseUnsigned s =
     (let r = spanDigits s; ip = fst r;
          f = (if take 1 (snd r) = ''.'' then spanDigits (drop 1 (snd r)) else ([], snd r))
      in if ip = [] \<and> fst f = [] then None
         else case exponentPart (snd f) of
                None \<Rightarrow> None
              | Some e \<Rightarrow>
                  let k = e - int (length (fst f)); m = of_nat (digits_value 0 (ip @ fst f))
                  in Some (if 0 \<le> k then m * 10 ^ nat k else m / 10 ^ nat (- k)))"

definition js_Number :: "string \<Rightarrow> js_number" where
  "js_Number s0 =
     (let s = js_trim s0; of_value = (\<lambda>r. case r of None \<Rightarrow> NonFinite | Some q \<Rightarrow> Finite (double q))
      in if s = [] then Finite 0
         else if take 2 s = ''0x'' \<or> take 2 s = ''0X'' then of_value (map_option of_int (radixValue 16 (drop 2 s)))
         else if take 2 s = ''0o'' \<or> take 2 s = ''0O'' then of_value (map_option of_int (radixValue 8 (drop 2 s)))
         else if take 2 s = ''0b'' \<or> take 2 s = ''0B'' then of_value (map_option of_int (radixValue 2 (drop 2 s)))
         else if take 1 s = ''-'' then of_value (map_option uminus (parseUnsigned (drop 1 s)))
         else if take 1 s = ''+'' then of_value (parseUnsigned (drop 1 s))
         else of_value (parseUnsigned s))"

section \<open>Reading decimal digits\<close>

abbreviation digits :: "string \<Rightarrow> bool" where
  "digits s \<equiv> set s \<subseteq> digit_char ` {..<10}"

lemma radixLoop_digits: "digits s \<Longrightarrow> radixLoop 10 acc s = Some (digits_value acc s)"
proof (induction s arbitrary: acc)
  case (Cons c s)
  then obtain d where d: "c = digit_char d" "d < 10" by auto
  then have "digitOf c = Some d" by (simp add: digitOf_def digit_char_def Let_def)
  moreover have "of_char c - 48 = d" using d by (simp add: digit_char_def)
  ultimately show ?case using Cons d by (simp add: mult.commute)
qed simp

lemma digit_not_white: "c \<in> digit_char ` {..<10} \<Longrightarrow> \<not> js_white c"
  by (auto simp: js_white_def digit_char_def)

lemma js_trim_id: "s \<noteq> [] \<Longrightarrow> \<not> js_white (hd s) \<Longrightarrow> \<not> js_white (last s) \<Longrightarrow> js_trim s = s"
  using dropWhile_eq_self_iff [of js_white s] dropWhile_eq_self_iff [of js_white "rev s"]
  by (simp add: js_trim_def hd_rev)

lemma not_digit: "CHR ''x'' \<notin> digit_char ` {..<10}" "CHR ''X'' \<notin> digit_char ` {..<10}" "CHR ''o'' \<notin> digit_char ` {..<10}"
    "CHR ''O'' \<notin> digit_char ` {..<10}" "CHR ''b'' \<notin> digit_char ` {..<10}" "CHR ''B'' \<notin> digit_char ` {..<10}"
    "CHR ''-'' \<notin> digit_char ` {..<10}" "CHR ''+'' \<notin> digit_char ` {..<10}" "CHR ''.'' \<notin> digit_char ` {..<10}"
  by (auto simp: digit_char_def dest!: arg_cong [where f = "of_char :: char \<Rightarrow> nat"])

lemma digits_head: "digits (c # cs) \<Longrightarrow> c \<noteq> CHR ''-'' \<and> c \<noteq> CHR ''+''"
  using not_digit(7,8) by (metis list.set_intros(1) subsetD)

lemma digits_second: "digits (c # d # cs) \<Longrightarrow> d \<notin> {CHR ''x'', CHR ''X'', CHR ''o'', CHR ''O'', CHR ''b'', CHR ''B''}"
  using not_digit(1-6) by (metis empty_iff insert_iff list.set_intros(1,2) subsetD)

lemma trim_digits: "digits s \<Longrightarrow> js_trim s = s"
proof (cases "s = []")
  case False
  assume "digits s"
  then show ?thesis using False hd_in_set last_in_set digit_not_white by (intro js_trim_id) blast+
qed (simp add: js_trim_def)

lemma radixValue_digits: "s \<noteq> [] \<Longrightarrow> digits s \<Longrightarrow> radixValue 10 s = Some (int (digits_value 0 s))"
  using radixLoop_digits [of s 0] by (simp add: radixValue_def)

lemma parse_digits:
  assumes "digits s" "s \<noteq> []"
  shows "parseBigInt s = Some (int (digits_value 0 s))"
proof -
  obtain c cs where s: "s = c # cs" using assms(2) by (cases s) auto
  have "take 2 s \<notin> {''0x'', ''0X'', ''0o'', ''0O'', ''0b'', ''0B''}"
    using digits_second [of c "hd cs" "tl cs"] assms(1) s by (cases cs) auto
  then show ?thesis
    using trim_digits [OF assms(1)] radixValue_digits [OF assms(2,1)] digits_head [of c cs] assms s
    by (auto simp: parseBigInt_def Let_def)
qed

lemma nat_string_ne [simp]: "nat_string n \<noteq> []"
  by (subst nat_string.simps) simp

lemma parse_int_string: "parseBigInt (int_string i) = Some i" and int_string_trim: "js_trim (int_string i) = int_string i"
  and int_string_ne: "int_string i \<noteq> []"
proof -
  let ?n = "nat_string (nat (- i))"
  have m: "\<not> js_white CHR ''-''" by (simp add: js_white_def)
  have "js_trim (CHR ''-'' # ?n) = CHR ''-'' # ?n"
    using m digit_not_white [OF subsetD [OF nat_string_digits last_in_set [OF nat_string_ne]]] by (intro js_trim_id) auto
  then show t: "js_trim (int_string i) = int_string i" using trim_digits [OF nat_string_digits] by (simp add: int_string_def)
  show "int_string i \<noteq> []" by (simp add: int_string_def)
  show "parseBigInt (int_string i) = Some i"
  proof (cases "i < 0")
    case True
    then show ?thesis
      using t radixValue_digits [OF nat_string_ne nat_string_digits, of "nat (- i)"] digits_value_nat_string [of "nat (- i)"]
      by (simp add: parseBigInt_def int_string_def Let_def)
  next
    case False
    then show ?thesis
      using parse_digits [OF nat_string_digits nat_string_ne, of "nat i"] digits_value_nat_string [of "nat i"] by (simp add: int_string_def)
  qed
qed

section \<open>Amounts in atoms\<close>

text \<open>\<open>Math.floor(Number(row.stack) * 1e6)\<close> for a decimal amount of the database.\<close>

definition floorAtoms :: "rat \<Rightarrow> int" where
  "floorAtoms amount = \<lfloor>double (double amount * 1000000)\<rfloor>"

text \<open>An amount of whole atoms below \<open>2 ^ 51\<close> comes out exactly or one atom short.\<close>

lemma floorAtoms_near:
  assumes "0 \<le> k" "k < 2 ^ 51"
  shows "floorAtoms (of_int k / 1000000) = k \<or> floorAtoms (of_int k / 1000000) = k - 1"
proof -
  define q :: rat where "q = of_int k / 1000000"
  define x where "x = double q * 1000000"
  have k: "0 \<le> (of_int k :: rat)" "(of_int k :: rat) < 2 ^ 51"
    using assms(1) of_int_less_iff [of k "2 ^ 51", where ?'a = rat] assms(2) by simp_all
  have "\<bar>double q - q\<bar> \<le> q / 2 ^ 53" using double_error [of q] k(1) by (simp add: q_def)
  then have x: "\<bar>x - of_int k\<bar> \<le> of_int k / 2 ^ 53" using k(1) by (simp add: x_def q_def field_simps abs_le_iff)
  then have ax: "\<bar>x\<bar> \<le> of_int k * (1 + 1 / 2 ^ 53)" 
  proof -
    have "\<bar>x\<bar> \<le> \<bar>x - of_int k\<bar> + of_int k" using k(1) by linarith
    moreover have "of_int k * (1 + 1 / 2 ^ 53) = (of_int k + of_int k / 2 ^ 53 :: rat)" by (simp add: distrib_left)
    ultimately show ?thesis using x by linarith
  qed
  have "\<bar>double x - x\<bar> \<le> \<bar>x\<bar> / 2 ^ 53" by (rule double_error)
  then have "\<bar>double x - of_int k\<bar> \<le> of_int k / 2 ^ 53 + of_int k * (1 + 1 / 2 ^ 53) / 2 ^ 53"
    using x abs_triangle_ineq [of "double x - x" "x - of_int k"] divide_right_mono [OF ax, of "2 ^ 53"] by simp
  also have "\<dots> < 1" using k by (simp add: field_simps)
  finally have "of_int (k - 1) < double x" "double x < of_int (k + 1)" by (simp_all add: abs_less_iff)
  then have "k - 1 \<le> \<lfloor>double x\<rfloor>" "\<lfloor>double x\<rfloor> < k + 1" by linarith+
  then show ?thesis by (auto simp: floorAtoms_def x_def q_def)
qed

text \<open>It does happen: 2.01 USDC is read as 2.009999 USDC.\<close>

lemma floorAtoms_short: "floorAtoms (201 / 100) = 2009999"
proof -
  have "roundEven (201 / 100 * 2 ^ 51) = 4526117625507348" "roundEven (4526117625507348 * 1000000 / 2 ^ 51 * 2 ^ 32) = 8632884264959999"
    by (rule roundEven_eq; simp)+
  then have d: "double (201 / 100) = 4526117625507348 / 2 ^ 51"
    "double (4526117625507348 / 2 ^ 51 * 1000000) = 8632884264959999 / 2 ^ 32"
    using double_eq [of 1 "201 / 100"] double_eq [of 20 "4526117625507348 / 2 ^ 51 * 1000000"] by (simp_all add: pow2_def)
  have "\<lfloor>8632884264959999 / 2 ^ 32 :: rat\<rfloor> = 2009999" by (rule floor_unique) simp_all
  then show ?thesis unfolding floorAtoms_def d .
qed

end
