(* ===== verification/Attestors.thy ===== *)
theory Attestors
  imports Js_Double
begin

text \<open>
  \<^verbatim>\<open>packages/attestors/src\<close>: the keys of the three attestor roles and their separation, the signing of a final settlement
  and its HTTP form. The account, signature and typed-data functions of viem are a record of parameters; the texts of the
  errors are not modelled.
\<close>

section \<open>Keys\<close>

datatype AttestorRole = Game | Dealer | Replay

definition ATTESTOR_ROLES :: "AttestorRole list" where
  "ATTESTOR_ROLES = [Game, Dealer, Replay]"

fun ATTESTOR_ENV_KEYS :: "AttestorRole \<Rightarrow> string" where
  "ATTESTOR_ENV_KEYS Game = ''GAME_ATTESTOR_PRIVATE_KEY''"
| "ATTESTOR_ENV_KEYS Dealer = ''DEALER_ATTESTOR_PRIVATE_KEY''"
| "ATTESTOR_ENV_KEYS Replay = ''REPLAY_ATTESTOR_PRIVATE_KEY''"

record AttestorKeyMaterial =
  ak_role :: AttestorRole
  ak_privateKey :: Hex
  ak_address :: Hex
  ak_envKey :: string

datatype attestor_error =
    INVALID_PRIVATE_KEY string
  | MISSING_KEY string
  | IDENTICAL_KEYS AttestorRole AttestorRole
  | IDENTICAL_ADDRESSES AttestorRole AttestorRole
  | DIGEST_MISMATCH
  | ADDRESS_MISMATCH
  | INVALID_HTTP_BODY string
  | AttestRoot root_error

type_synonym env = "string \<rightharpoonup> string"

text \<open>\<open>env.X || d\<close>.\<close>

definition envOr :: "env \<Rightarrow> string \<Rightarrow> string \<Rightarrow> string" where
  "envOr env name d = (case env name of Some (c # cs) \<Rightarrow> c # cs | _ \<Rightarrow> d)"

definition normalizePrivateKey :: "string \<Rightarrow> string \<Rightarrow> attestor_error + Hex" where
  "normalizePrivateKey raw envKey =
     (let trimmed = js_trim raw; with0x = (if take 2 trimmed = ''0x'' then trimmed else ''0x'' @ trimmed)
      in if \<not> is_hex32 with0x then Inl (INVALID_PRIVATE_KEY envKey) else Inr (js_lower with0x))"

definition isProductionAttestorMode :: "env \<Rightarrow> bool" where
  "isProductionAttestorMode env \<longleftrightarrow>
     env ''ATTESTOR_REQUIRE_DISTINCT_KEYS'' \<in> {Some ''1'', Some ''true''} \<or>
     env ''MOZETTO_PRODUCTION'' \<in> {Some ''1'', Some ''true''} \<or>
     js_lower (envOr env ''NODE_ENV'' []) = ''production'' \<or>
     js_lower (envOr env ''MOZETTO_ENV'' []) \<in> {''production'', ''mainnet'', ''sepolia''} \<or>
     js_Number (envOr env ''CHAIN_ID'' ''0'') \<in> {Finite 8453, Finite 1}"

text \<open>The functions of viem: the address of a private key, the hash and the signature of typed data, and recovery.\<close>

record TypedDataSignArgs =
  td_name :: string
  td_version :: string
  td_chainId :: rat
  td_verifyingContract :: Hex
  td_types :: "(string \<times> string) list"
  td_primaryType :: string
  td_message :: "abi_val list"

record account_lib =
  al_address :: "Hex \<Rightarrow> Hex"
  al_hashTypedData :: "TypedDataSignArgs \<Rightarrow> Hex"
  al_signTypedData :: "Hex \<Rightarrow> TypedDataSignArgs \<Rightarrow> Hex"
  al_recoverTypedDataAddress :: "TypedDataSignArgs \<Rightarrow> Hex \<Rightarrow> Hex"
  al_recoverAddress :: "Hex \<Rightarrow> Hex \<Rightarrow> Hex"

definition blank :: "string option \<Rightarrow> bool" where
  "blank raw \<longleftrightarrow> (case raw of None \<Rightarrow> True | Some s \<Rightarrow> js_trim s = [])"

definition loadAttestorKey :: "account_lib \<Rightarrow> AttestorRole \<Rightarrow> env \<Rightarrow> attestor_error + AttestorKeyMaterial" where
  "loadAttestorKey al role env =
     (let envKey = ATTESTOR_ENV_KEYS role
      in if blank (env envKey) then Inl (MISSING_KEY envKey)
         else bindE (normalizePrivateKey (the (env envKey)) envKey) (\<lambda>privateKey.
                Inr \<lparr>ak_role = role, ak_privateKey = privateKey, ak_address = al_address al privateKey, ak_envKey = envKey\<rparr>))"

definition tryLoadAttestorKey :: "account_lib \<Rightarrow> AttestorRole \<Rightarrow> env \<Rightarrow> attestor_error + AttestorKeyMaterial option" where
  "tryLoadAttestorKey al role env =
     (if blank (env (ATTESTOR_ENV_KEYS role)) then Inr None
      else bindE (loadAttestorKey al role env) (\<lambda>k. Inr (Some k)))"

fun clashWith :: "AttestorKeyMaterial \<Rightarrow> AttestorKeyMaterial list \<Rightarrow> attestor_error + unit" where
  "clashWith a [] = Inr ()"
| "clashWith a (b # ks) =
     (if js_lower (ak_privateKey a) = js_lower (ak_privateKey b) then Inl (IDENTICAL_KEYS (ak_role a) (ak_role b))
      else if js_lower (ak_address a) = js_lower (ak_address b) then Inl (IDENTICAL_ADDRESSES (ak_role a) (ak_role b))
      else clashWith a ks)"

fun assertDistinctAttestorKeys :: "AttestorKeyMaterial list \<Rightarrow> attestor_error + unit" where
  "assertDistinctAttestorKeys [] = Inr ()"
| "assertDistinctAttestorKeys (a # ks) = bindE (clashWith a ks) (\<lambda>_. assertDistinctAttestorKeys ks)"

text \<open>The loading loop; a missing key is an error or is left out.\<close>

fun loadRoles :: "account_lib \<Rightarrow> env \<Rightarrow> bool \<Rightarrow> AttestorRole list \<Rightarrow> attestor_error + AttestorKeyMaterial list" where
  "loadRoles al env requireAll [] = Inr []"
| "loadRoles al env requireAll (role # roles) =
     bindE (tryLoadAttestorKey al role env) (\<lambda>key.
       case key of
         None \<Rightarrow> if requireAll then Inl (MISSING_KEY (ATTESTOR_ENV_KEYS role)) else loadRoles al env requireAll roles
       | Some k \<Rightarrow> bindE (loadRoles al env requireAll roles) (\<lambda>ks. Inr (k # ks)))"

text \<open>The bundle as the map from roles to the keys that were loaded.\<close>

definition loadAttestorBundle ::
  "account_lib \<Rightarrow> env \<Rightarrow> bool option \<Rightarrow> bool option \<Rightarrow> attestor_error + (AttestorRole \<rightharpoonup> AttestorKeyMaterial)" where
  "loadAttestorBundle al env requireAllOpt requireDistinctOpt =
     (let requireAll = requireAllOpt \<noteq> Some False;
          requireDistinct = orElse requireDistinctOpt (isProductionAttestorMode env)
      in bindE (loadRoles al env requireAll ATTESTOR_ROLES) (\<lambda>loaded.
         bindE (if requireDistinct \<and> 2 \<le> length loaded then assertDistinctAttestorKeys loaded else Inr ()) (\<lambda>_.
           Inr (map_of (map (\<lambda>k. (ak_role k, k)) loaded)))))"

text \<open>The probe of a worker: the loaded keys, the mode and the collision, which is thrown in production mode.\<close>

definition probeAttestorKeys ::
  "account_lib \<Rightarrow> env \<Rightarrow> attestor_error + AttestorKeyMaterial list \<times> bool \<times> attestor_error option" where
  "probeAttestorKeys al env =
     bindE (loadRoles al env False ATTESTOR_ROLES) (\<lambda>loaded.
       let productionMode = isProductionAttestorMode env;
           duplicateError =
             (if 2 \<le> length loaded
              then case assertDistinctAttestorKeys loaded of Inl e \<Rightarrow> Some e | Inr _ \<Rightarrow> None else None)
       in case (duplicateError, productionMode) of
            (Some e, True) \<Rightarrow> Inl e
          | _ \<Rightarrow> Inr (loaded, productionMode, duplicateError))"

section \<open>Typed data and signatures\<close>

definition FINAL_SETTLEMENT_V3_TYPES :: "(string \<times> string) list" where
  "FINAL_SETTLEMENT_V3_TYPES =
     [(''sessionId'', ''bytes32''), (''finalSequence'', ''uint64''), (''finalEventRoot'', ''bytes32''),
      (''handRoot'', ''bytes32''), (''balanceRoot'', ''bytes32''), (''randomnessEpochId'', ''bytes32''),
      (''openingTotal'', ''uint256''), (''endingPlayerTotal'', ''uint256''), (''totalRake'', ''uint256''),
      (''proofBatchSequence'', ''uint64''), (''modelPolicyHash'', ''bytes32''), (''profileSetHash'', ''bytes32''),
      (''gameTemplateId'', ''bytes32''), (''engineHash'', ''bytes32''), (''deadline'', ''uint256'')]"

definition toTypedDataMessage :: "FinalSettlementInput \<Rightarrow> abi_val list" where
  "toTypedDataMessage s =
     [AHex (fs_sessionId s), AInt (fs_finalSequence s), AHex (fs_finalEventRoot s), AHex (fs_handRoot s),
      AHex (fs_balanceRoot s), AHex (fs_randomnessEpochId s), AInt (fs_openingTotal s), AInt (fs_endingPlayerTotal s),
      AInt (fs_totalRake s), AInt (fs_proofBatchSequence s), AHex (fs_modelPolicyHash s), AHex (fs_profileSetHash s),
      AHex (fs_gameTemplateId s), AHex (fs_engineHash s), AInt (fs_deadline s)]"

definition buildTypedDataSignArgs :: "FinalSettlementInput \<Rightarrow> TypedDataSignArgs" where
  "buildTypedDataSignArgs s =
     \<lparr>td_name = ''MozettoPokerSettlement'', td_version = ''3'', td_chainId = double (of_int (fs_chainId s)),
      td_verifyingContract = fs_verifyingContract s, td_types = FINAL_SETTLEMENT_V3_TYPES,
      td_primaryType = ''FinalSettlementV3'', td_message = toTypedDataMessage s\<rparr>"

record Attestation =
  at_role :: AttestorRole
  at_address :: Hex
  at_signature :: Hex
  at_digest :: Hex

definition signFinalSettlementV3 ::
  "viem \<Rightarrow> account_lib \<Rightarrow> AttestorKeyMaterial \<Rightarrow> FinalSettlementInput \<Rightarrow> bool option \<Rightarrow> attestor_error + Attestation" where
  "signFinalSettlementV3 v al key settlement requireConservation =
     (case buildFinalSettlementDigest v settlement requireConservation of
        Inl e \<Rightarrow> Inl (AttestRoot e)
      | Inr digests \<Rightarrow>
          (let typed = buildTypedDataSignArgs settlement
           in if js_lower (al_hashTypedData al typed) \<noteq> js_lower (digest digests) then Inl DIGEST_MISMATCH
              else if js_lower (al_address al (ak_privateKey key)) \<noteq> js_lower (ak_address key) then Inl ADDRESS_MISMATCH
              else Inr \<lparr>at_role = ak_role key, at_address = ak_address key,
                        at_signature = al_signTypedData al (ak_privateKey key) typed, at_digest = digest digests\<rparr>))"

definition signSettlementQuorum ::
  "viem \<Rightarrow> account_lib \<Rightarrow> AttestorKeyMaterial list \<Rightarrow> FinalSettlementInput \<Rightarrow> bool option \<Rightarrow> attestor_error + Attestation list" where
  "signSettlementQuorum v al keys settlement rc = mapE (\<lambda>key. signFinalSettlementV3 v al key settlement rc) keys"

definition recoverAttestationSigner :: "account_lib \<Rightarrow> FinalSettlementInput \<Rightarrow> Hex \<Rightarrow> Hex" where
  "recoverAttestationSigner al settlement signature = al_recoverTypedDataAddress al (buildTypedDataSignArgs settlement) signature"

section \<open>The HTTP form\<close>

definition serializeFinalSettlementV3ForHttp :: "FinalSettlementInput \<Rightarrow> json" where
  "serializeFinalSettlementV3ForHttp s = JObj
     [(''sessionId'', JStr (fs_sessionId s)), (''finalSequence'', JStr (int_string (fs_finalSequence s))),
      (''finalEventRoot'', JStr (fs_finalEventRoot s)), (''handRoot'', JStr (fs_handRoot s)),
      (''balanceRoot'', JStr (fs_balanceRoot s)), (''randomnessEpochId'', JStr (fs_randomnessEpochId s)),
      (''openingTotal'', JStr (int_string (fs_openingTotal s))),
      (''endingPlayerTotal'', JStr (int_string (fs_endingPlayerTotal s))),
      (''totalRake'', JStr (int_string (fs_totalRake s))),
      (''proofBatchSequence'', JStr (int_string (fs_proofBatchSequence s))),
      (''modelPolicyHash'', JStr (fs_modelPolicyHash s)), (''profileSetHash'', JStr (fs_profileSetHash s)),
      (''gameTemplateId'', JStr (fs_gameTemplateId s)), (''engineHash'', JStr (fs_engineHash s)),
      (''deadline'', JStr (int_string (fs_deadline s))), (''chainId'', JStr (int_string (fs_chainId s))),
      (''verifyingContract'', JStr (fs_verifyingContract s))]"

text \<open>\<open>o[field]\<close> of a parsed body; of two equal keys the later counts, and an array has no such field.\<close>

fun bodyField :: "json \<Rightarrow> string \<Rightarrow> json option" where
  "bodyField (JObj kvs) name = map_of (rev kvs) name"
| "bodyField _ name = None"

definition asHex32_http :: "json \<Rightarrow> string \<Rightarrow> attestor_error + Hex" where
  "asHex32_http body name =
     (case bodyField body name of
        Some (JStr raw) \<Rightarrow>
          (if js_trim raw = [] then Inl (INVALID_HTTP_BODY name)
           else let hex = (if take 2 raw = ''0x'' then drop 2 raw else raw)
                in if hex = [] \<or> \<not> list_all hex_digit hex then Inl (INVALID_HTTP_BODY name)
                   else let p = padStart 64 (CHR ''0'') hex in Inr (''0x'' @ js_lower (drop (length p - 64) p)))
      | _ \<Rightarrow> Inl (INVALID_HTTP_BODY name))"

text \<open>\<open>Math.trunc\<close>.\<close>

definition js_trunc :: "rat \<Rightarrow> int" where
  "js_trunc q = (if 0 \<le> q then \<lfloor>q\<rfloor> else - \<lfloor>- q\<rfloor>)"

definition asBigIntField :: "json \<Rightarrow> string \<Rightarrow> attestor_error + int" where
  "asBigIntField body name =
     (case bodyField body name of
        Some (JNum q) \<Rightarrow> Inr (js_trunc q)
      | Some (JStr raw) \<Rightarrow>
          (if js_trim raw = [] then Inl (INVALID_HTTP_BODY name)
           else case parseBigInt raw of None \<Rightarrow> Inl (INVALID_HTTP_BODY name) | Some i \<Rightarrow> Inr i)
      | _ \<Rightarrow> Inl (INVALID_HTTP_BODY name))"

definition asAddress :: "viem \<Rightarrow> json \<Rightarrow> string \<Rightarrow> attestor_error + Hex" where
  "asAddress v body name =
     (case bodyField body name of
        Some (JStr raw) \<Rightarrow>
          (if js_trim raw = [] then Inl (INVALID_HTTP_BODY name)
           else case getAddress v raw of Inl _ \<Rightarrow> Inl (INVALID_HTTP_BODY name) | Inr a \<Rightarrow> Inr a)
      | _ \<Rightarrow> Inl (INVALID_HTTP_BODY name))"

definition parseFinalSettlementV3FromHttp :: "viem \<Rightarrow> json \<Rightarrow> attestor_error + FinalSettlementInput" where
  "parseFinalSettlementV3FromHttp v o' =
     (if \<not> (case o' of JObj _ \<Rightarrow> True | JArr _ \<Rightarrow> True | _ \<Rightarrow> False) then Inl (INVALID_HTTP_BODY ''body'')
      else bindE (asHex32_http o' ''sessionId'') (\<lambda>sessionId.
           bindE (asBigIntField o' ''finalSequence'') (\<lambda>finalSequence.
           bindE (asHex32_http o' ''finalEventRoot'') (\<lambda>finalEventRoot.
           bindE (asHex32_http o' ''handRoot'') (\<lambda>handRoot.
           bindE (asHex32_http o' ''balanceRoot'') (\<lambda>balanceRoot.
           bindE (asHex32_http o' ''randomnessEpochId'') (\<lambda>randomnessEpochId.
           bindE (asBigIntField o' ''openingTotal'') (\<lambda>openingTotal.
           bindE (asBigIntField o' ''endingPlayerTotal'') (\<lambda>endingPlayerTotal.
           bindE (asBigIntField o' ''totalRake'') (\<lambda>totalRake.
           bindE (asBigIntField o' ''proofBatchSequence'') (\<lambda>proofBatchSequence.
           bindE (asHex32_http o' ''modelPolicyHash'') (\<lambda>modelPolicyHash.
           bindE (asHex32_http o' ''profileSetHash'') (\<lambda>profileSetHash.
           bindE (asHex32_http o' ''gameTemplateId'') (\<lambda>gameTemplateId.
           bindE (asHex32_http o' ''engineHash'') (\<lambda>engineHash.
           bindE (asBigIntField o' ''deadline'') (\<lambda>deadline.
           bindE (asBigIntField o' ''chainId'') (\<lambda>chainId.
           bindE (asAddress v o' ''verifyingContract'') (\<lambda>verifyingContract.
             Inr \<lparr>fs_sessionId = sessionId, fs_finalSequence = finalSequence, fs_finalEventRoot = finalEventRoot,
                  fs_handRoot = handRoot, fs_balanceRoot = balanceRoot, fs_randomnessEpochId = randomnessEpochId,
                  fs_openingTotal = openingTotal, fs_endingPlayerTotal = endingPlayerTotal, fs_totalRake = totalRake,
                  fs_proofBatchSequence = proofBatchSequence, fs_modelPolicyHash = modelPolicyHash,
                  fs_profileSetHash = profileSetHash, fs_gameTemplateId = gameTemplateId, fs_engineHash = engineHash,
                  fs_deadline = deadline, fs_chainId = chainId, fs_verifyingContract = verifyingContract\<rparr>))))))))))))))))))"

section \<open>Roles stay separate\<close>

definition distinctKeys :: "AttestorKeyMaterial \<Rightarrow> AttestorKeyMaterial \<Rightarrow> bool" where
  "distinctKeys a b \<longleftrightarrow>
     js_lower (ak_privateKey a) \<noteq> js_lower (ak_privateKey b) \<and> js_lower (ak_address a) \<noteq> js_lower (ak_address b)"

lemma clashWith_ok: "clashWith a ks = Inr u \<longleftrightarrow> (\<forall>b \<in> set ks. distinctKeys a b)"
  by (induction ks) (auto simp: distinctKeys_def)

lemma assertDistinct_ok: "assertDistinctAttestorKeys ks = Inr u \<longleftrightarrow> sorted_wrt distinctKeys ks"
  by (induction ks) (auto simp: bindE_Inr_iff clashWith_ok)

lemma distinctKeys_sym: "distinctKeys a b \<Longrightarrow> distinctKeys b a"
  by (auto simp: distinctKeys_def)

lemma sorted_wrt_pair:
  "sorted_wrt P xs \<Longrightarrow> (\<And>x y. P x y \<Longrightarrow> P y x) \<Longrightarrow> x \<in> set xs \<Longrightarrow> y \<in> set xs \<Longrightarrow> x \<noteq> y \<Longrightarrow> P x y"
  by (induction xs) auto

lemma tryLoad_Some:
  assumes "tryLoadAttestorKey al role env = Inr (Some k)"
  shows "ak_role k = role \<and> ak_address k = al_address al (ak_privateKey k) \<and>
    (\<exists>raw. env (ATTESTOR_ENV_KEYS role) = Some raw \<and> normalizePrivateKey raw (ATTESTOR_ENV_KEYS role) = Inr (ak_privateKey k))"
  using assms by (auto simp: tryLoadAttestorKey_def loadAttestorKey_def Let_def blank_def split: if_splits option.splits)

lemma loadRoles_ok:
  "loadRoles al env ra roles = Inr ks \<Longrightarrow>
     (\<forall>k \<in> set ks. ak_role k \<in> set roles \<and> tryLoadAttestorKey al (ak_role k) env = Inr (Some k)) \<and>
     (ra \<longrightarrow> map ak_role ks = roles)"
proof (induction roles arbitrary: ks)
  case (Cons r roles)
  then obtain key where k: "tryLoadAttestorKey al r env = Inr key" by (auto simp: bindE_Inr_iff)
  show ?case
  proof (cases key)
    case None
    then show ?thesis using Cons k by (auto split: if_splits)
  next
    case (Some m)
    then obtain ks' where ks: "loadRoles al env ra roles = Inr ks'" "ks = m # ks'" using Cons.prems k by auto
    then show ?thesis using Cons.IH [OF ks(1)] tryLoad_Some [of al r env m] k Some by auto
  qed
qed simp


section \<open>The wire\<close>

lemma hex_not_white: "hex_digit c \<Longrightarrow> \<not> js_white c"
  by (auto simp: hex_digit_def js_white_def)

lemma asHex32_http_hex32:
  assumes "bodyField body name = Some (JStr h)" "is_hex32 h"
  shows "asHex32_http body name = Inr (js_lower h)"
proof -
  have h: "length h = 66" "take 2 h = ''0x''" "list_all hex_digit (drop 2 h)" using assms(2) by (auto simp: is_hex32_def)
  then have e: "h = ''0x'' @ drop 2 h" "length (drop 2 h) = 64" by (metis append_take_drop_id, simp)
  have "js_lower h = ''0x'' @ js_lower (drop 2 h)" by (subst e(1)) (simp add: js_lower_def lower_char_def)
  moreover have "js_trim h = h"
  proof (rule js_trim_id)
    have "last h \<in> set (drop 2 h)" using h(1) last_drop [of 2 h] e(2) last_in_set [of "drop 2 h"] by force
    then show "\<not> js_white (last h)" using h(3) hex_not_white by (auto simp: list_all_iff)
    show "\<not> js_white (hd h)" by (subst e(1)) (simp add: js_white_def)
  qed (use h in auto)
  ultimately show ?thesis
    using assms(1) h e(2) by (auto simp: asHex32_http_def Let_def padStart_def)
qed

lemma asBigIntField_string: "bodyField body name = Some (JStr (int_string i)) \<Longrightarrow> asBigIntField body name = Inr i"
  by (simp add: asBigIntField_def int_string_trim int_string_ne parse_int_string)

definition hexFields :: "FinalSettlementInput \<Rightarrow> Hex list" where
  "hexFields s = [fs_sessionId s, fs_finalEventRoot s, fs_handRoot s, fs_balanceRoot s, fs_randomnessEpochId s,
     fs_modelPolicyHash s, fs_profileSetHash s, fs_gameTemplateId s, fs_engineHash s]"

text \<open>C35: What the worker posts is what the attestor signs. A settlement whose hashes are 32 bytes long, sent in its HTTP
  form and parsed by a remote attestor, comes out as the same settlement, in all seventeen fields and for integers of any
  size, with its hashes in lower case and its contract address in the form viem gives it.\<close>

theorem settlement_http_roundtrip:
  assumes "list_all is_hex32 (hexFields s)" "getAddress v (fs_verifyingContract s) = Inr a" "js_trim (fs_verifyingContract s) \<noteq> []"
  shows "parseFinalSettlementV3FromHttp v (serializeFinalSettlementV3ForHttp s) = Inr
    (s\<lparr>fs_sessionId := js_lower (fs_sessionId s), fs_finalEventRoot := js_lower (fs_finalEventRoot s),
       fs_handRoot := js_lower (fs_handRoot s), fs_balanceRoot := js_lower (fs_balanceRoot s),
       fs_randomnessEpochId := js_lower (fs_randomnessEpochId s), fs_modelPolicyHash := js_lower (fs_modelPolicyHash s),
       fs_profileSetHash := js_lower (fs_profileSetHash s), fs_gameTemplateId := js_lower (fs_gameTemplateId s),
       fs_engineHash := js_lower (fs_engineHash s), fs_verifyingContract := a\<rparr>)"
proof -
  define body where "body = serializeFinalSettlementV3ForHttp s"
  have field: "bodyField body ''sessionId'' = Some (JStr (fs_sessionId s))"
    "bodyField body ''finalEventRoot'' = Some (JStr (fs_finalEventRoot s))" "bodyField body ''handRoot'' = Some (JStr (fs_handRoot s))"
    "bodyField body ''balanceRoot'' = Some (JStr (fs_balanceRoot s))"
    "bodyField body ''randomnessEpochId'' = Some (JStr (fs_randomnessEpochId s))"
    "bodyField body ''modelPolicyHash'' = Some (JStr (fs_modelPolicyHash s))"
    "bodyField body ''profileSetHash'' = Some (JStr (fs_profileSetHash s))"
    "bodyField body ''gameTemplateId'' = Some (JStr (fs_gameTemplateId s))"
    "bodyField body ''engineHash'' = Some (JStr (fs_engineHash s))"
    "bodyField body ''verifyingContract'' = Some (JStr (fs_verifyingContract s))"
    "bodyField body ''finalSequence'' = Some (JStr (int_string (fs_finalSequence s)))"
    "bodyField body ''openingTotal'' = Some (JStr (int_string (fs_openingTotal s)))"
    "bodyField body ''endingPlayerTotal'' = Some (JStr (int_string (fs_endingPlayerTotal s)))"
    "bodyField body ''totalRake'' = Some (JStr (int_string (fs_totalRake s)))"
    "bodyField body ''proofBatchSequence'' = Some (JStr (int_string (fs_proofBatchSequence s)))"
    "bodyField body ''deadline'' = Some (JStr (int_string (fs_deadline s)))"
    "bodyField body ''chainId'' = Some (JStr (int_string (fs_chainId s)))"
    by (simp_all add: body_def serializeFinalSettlementV3ForHttp_def)
  have hx: "asHex32_http body n = Inr (js_lower h)" if "bodyField body n = Some (JStr h)" "h \<in> set (hexFields s)" for n h
    using asHex32_http_hex32 [OF that(1)] that(2) assms(1) by (auto simp: list_all_iff)
  have ad: "asAddress v body ''verifyingContract'' = Inr a" using field(10) assms(2,3) by (simp add: asAddress_def)
  have ob: "\<exists>kvs. body = JObj kvs" by (simp add: body_def serializeFinalSettlementV3ForHttp_def)
  show ?thesis
    unfolding body_def [symmetric] parseFinalSettlementV3FromHttp_def
    using ob by (auto simp: hexFields_def field(1-9) [THEN hx] field(11-17) [THEN asBigIntField_string] ad)
qed

section \<open>What a signature shows\<close>

text \<open>The documented behaviour of the signing functions: a signature over typed data is recovered to the address of its key.\<close>

definition signs_correctly :: "account_lib \<Rightarrow> bool" where
  "signs_correctly al \<longleftrightarrow>
     (\<forall>k td. al_recoverTypedDataAddress al td (al_signTypedData al k td) = al_address al k)"

lemma signed_settlement:
  assumes "signs_correctly al" "signFinalSettlementV3 v al key s rc = Inr att"
  shows "js_lower (recoverAttestationSigner al s (at_signature att)) = js_lower (at_address att)"
    "at_role att = ak_role key" "at_address att = ak_address key"
    "\<exists>d. buildFinalSettlementDigest v s rc = Inr d \<and> digest d = at_digest att"
  using assms
  by (auto simp: signFinalSettlementV3_def Let_def recoverAttestationSigner_def signs_correctly_def split: sum.splits if_splits)

text \<open>A quorum is one attestation per key, each over the same conserved settlement. If signing with a list of keys
  succeeds, the attestations stand in the order of the keys with their roles and addresses, each signature is recovered to
  its key's address, all carry the one digest of the settlement, and that settlement's opening total is its ending total
  plus the rake unless conservation was waived.\<close>

theorem quorum_signs_one_digest:
  assumes "signs_correctly al" "signSettlementQuorum v al keys s rc = Inr atts"
  shows "map at_role atts = map ak_role keys \<and> map at_address atts = map ak_address keys \<and>
    (\<forall>att \<in> set atts. js_lower (recoverAttestationSigner al s (at_signature att)) = js_lower (at_address att) \<and>
       (\<exists>d. buildFinalSettlementDigest v s rc = Inr d \<and> at_digest att = digest d \<and>
          (rc \<noteq> Some False \<longrightarrow> fs_openingTotal s = fs_endingPlayerTotal s + fs_totalRake s)))"
proof -
  have len: "length atts = length keys" using assms(2) mapE_Inr_length by (auto simp: signSettlementQuorum_def)
  have at: "signFinalSettlementV3 v al (keys ! i) s rc = Inr (atts ! i)" if "i < length keys" for i
    using mapE_Inr_nth [of _ keys atts i] assms(2) that by (simp add: signSettlementQuorum_def)
  note sg = signed_settlement [OF assms(1) at]
  have "\<exists>d. buildFinalSettlementDigest v s rc = Inr d \<and> at_digest (atts ! i) = digest d \<and>
      (rc \<noteq> Some False \<longrightarrow> fs_openingTotal s = fs_endingPlayerTotal s + fs_totalRake s)" if "i < length keys" for i
    using sg(4) [OF that] buildFinalSettlementDigest_InrD(4,5) [of v s rc] by metis
  moreover have "map at_role atts = map ak_role keys" "map at_address atts = map ak_address keys"
    using len sg(2,3) by (auto intro!: nth_equalityI)
  ultimately show ?thesis using sg(1) len by (auto simp: in_set_conv_nth)
qed

section \<open>An instance\<close>

definition demo_accounts :: account_lib where
  "demo_accounts = \<lparr>al_address = \<lambda>k. ''addr:'' @ k, al_hashTypedData = \<lambda>td. [],
     al_signTypedData = \<lambda>k td. k, al_recoverTypedDataAddress = \<lambda>td sig. ''addr:'' @ sig,
     al_recoverAddress = \<lambda>d sig. ''addr:'' @ sig\<rparr>"

text \<open>A typed-data hash that agrees with the root builder's digest of one settlement.\<close>

definition demo_accounts_for :: "FinalSettlementInput \<Rightarrow> account_lib" where
  "demo_accounts_for s = demo_accounts\<lparr>al_hashTypedData := \<lambda>td.
     case buildFinalSettlementDigest demo_viem s None of Inl _ \<Rightarrow> [] | Inr d \<Rightarrow> digest d\<rparr>"

definition demo_key :: "AttestorRole \<Rightarrow> Hex \<Rightarrow> AttestorKeyMaterial" where
  "demo_key role k = \<lparr>ak_role = role, ak_privateKey = k, ak_address = ''addr:'' @ k, ak_envKey = ATTESTOR_ENV_KEYS role\<rparr>"

definition demo_env :: env where
  "demo_env = [''NODE_ENV'' \<mapsto> ''Production'', ''GAME_ATTESTOR_PRIVATE_KEY'' \<mapsto> replicate 64 (CHR ''1''),
     ''DEALER_ATTESTOR_PRIVATE_KEY'' \<mapsto> '' 0x'' @ replicate 64 (CHR ''a''),
     ''REPLAY_ATTESTOR_PRIVATE_KEY'' \<mapsto> replicate 64 (CHR ''B'')]"


theorem settlement_http_roundtrip_witness:
  "\<exists>s. parseFinalSettlementV3FromHttp demo_viem (serializeFinalSettlementV3ForHttp s) = Inr s \<and> fs_openingTotal s = -5"
proof -
  let ?s = "demo_settlement\<lparr>fs_sessionId := ZERO32, fs_finalEventRoot := ZERO32, fs_handRoot := ZERO32, fs_balanceRoot := ZERO32,
    fs_randomnessEpochId := ZERO32, fs_modelPolicyHash := ZERO32, fs_profileSetHash := ZERO32, fs_gameTemplateId := ZERO32,
    fs_engineHash := ZERO32, fs_openingTotal := -5\<rparr>"
  have "list_all is_hex32 (hexFields ?s)" by (simp add: hexFields_def is_hex32_def ZERO32_def hex_digit_def list_all_iff)
  moreover have "getAddress demo_viem (fs_verifyingContract ?s) = Inr (fs_verifyingContract ?s)" by (simp add: demo_viem_def)
  moreover have "js_trim (fs_verifyingContract ?s) \<noteq> []" by (simp add: demo_settlement_def) code_simp
  ultimately show ?thesis using settlement_http_roundtrip [of ?s demo_viem] by (intro exI [of _ ?s]) simp
qed

theorem quorum_signs_one_digest_witness:
  "\<exists>atts. signSettlementQuorum demo_viem (demo_accounts_for demo_settlement) [demo_key Game ''0x1'', demo_key Replay ''0x2'']
     demo_settlement None = Inr atts \<and> map at_role atts = [Game, Replay]"
proof -
  obtain r where r: "buildFinalSettlementDigest demo_viem demo_settlement None = Inr r"
    by (simp add: buildFinalSettlementDigest_def settlementEip712Digest_def keccakEnc_def enc_def demo_viem_def
        checkConservation_totals_def demo_settlement_def Let_def)
  have "isOk (signSettlementQuorum demo_viem (demo_accounts_for demo_settlement) [demo_key Game ''0x1'', demo_key Replay ''0x2'']
     demo_settlement None)"
    by (simp add: signSettlementQuorum_def signFinalSettlementV3_def r demo_accounts_for_def demo_accounts_def demo_key_def)
  moreover have "signs_correctly (demo_accounts_for demo_settlement)"
    by (simp add: signs_correctly_def demo_accounts_for_def demo_accounts_def)
  ultimately show ?thesis
    using quorum_signs_one_digest [of "demo_accounts_for demo_settlement" demo_viem
        "[demo_key Game ''0x1'', demo_key Replay ''0x2'']" demo_settlement None]
    by (auto simp: isOk_iff demo_key_def)
qed

end
