(* ===== verification/Settlement_Proposal.thy ===== *)
theory Settlement_Proposal
  imports Attestors
begin

text \<open>
  \<^verbatim>\<open>services/settlement-worker/src\<close>, the pure half: \<^verbatim>\<open>chain.ts\<close>, \<^verbatim>\<open>v3/real-roots.ts\<close>, \<^verbatim>\<open>v3/proposal.ts\<close>,
  \<^verbatim>\<open>v3/attest.ts\<close> and the repair of ending balances of \<^verbatim>\<open>v3/process.ts\<close>. A final settlement is built from the players'
  locks and ending stacks and the roots the database holds. SHA-256 and the HTTP client are parameters, as are the
  functions of viem; the environment and the clock are arguments.
\<close>

section \<open>Identifiers\<close>

definition keccakLike :: "(string \<Rightarrow> string) \<Rightarrow> string \<Rightarrow> Hex" where
  "keccakLike sha256 d = ''0x'' @ sha256 d"

definition strip0x :: "string \<Rightarrow> string" where
  "strip0x s = (if take 2 s = ''0x'' then drop 2 s else s)"

definition sessionIdToBytes32 :: "viem \<Rightarrow> string \<Rightarrow> Hex" where
  "sessionIdToBytes32 v sessionId =
     (if is_hex32 sessionId then js_lower sessionId
      else let hex = strip0x sessionId
           in if length hex = 64 \<and> list_all hex_digit hex then ''0x'' @ js_lower hex
              else keccak256 v (toBytes v sessionId))"

definition padBytes32 :: "string \<Rightarrow> Hex" where
  "padBytes32 raw = (let p = padStart 64 (CHR ''0'') (strip0x raw) in ''0x'' @ drop (length p - 64) p)"

datatype hub_mode = Hub_v3 | Hub_v2

definition nonEmpty :: "string option \<Rightarrow> string option" where
  "nonEmpty x = (if x = Some [] then None else x)"

definition resolveSettlementMode :: "env \<Rightarrow> hub_mode \<times> Hex option" where
  "resolveSettlementMode env =
     (let forced = js_lower (envOr env ''SETTLEMENT_HUB_VERSION'' (envOr env ''SETTLEMENT_MODE'' []));
          hubV3 = (case nonEmpty (env ''SETTLEMENT_HUB_V3_ADDRESS'') of
                     Some h \<Rightarrow> Some h | None \<Rightarrow> env ''NEXT_PUBLIC_SETTLEMENT_HUB_V3_ADDRESS'');
          hubV2 = env ''SETTLEMENT_HUB_ADDRESS''
      in if forced = ''3'' \<or> forced = ''v3'' then (Hub_v3, case hubV3 of Some h \<Rightarrow> Some h | None \<Rightarrow> hubV2)
         else if forced = ''2'' \<or> forced = ''v2'' then (Hub_v2, hubV2)
         else if nonEmpty hubV3 \<noteq> None then (Hub_v3, hubV3)
         else (Hub_v2, hubV2))"

section \<open>Players\<close>

record PlayerStackInput =
  ply_user :: Hex
  ply_seat :: int
  ply_startLocked :: int
  ply_endBalance :: int
  ply_cumulativeRake :: "int option"

abbreviation lockedTotal :: "PlayerStackInput list \<Rightarrow> int" where
  "lockedTotal ps \<equiv> sum_of ply_startLocked ps"

abbreviation endingTotal :: "PlayerStackInput list \<Rightarrow> int" where
  "endingTotal ps \<equiv> sum_of ply_endBalance ps"

text \<open>The scaling loop: every player but the last gets the rounded-down share, the last gets the rest.\<close>

fun scaleEnding :: "int \<Rightarrow> int \<Rightarrow> int \<Rightarrow> PlayerStackInput list \<Rightarrow> PlayerStackInput list" where
  "scaleEnding target ending allocated [] = []"
| "scaleEnding target ending allocated [p] = [p\<lparr>ply_endBalance := target - allocated\<rparr>]"
| "scaleEnding target ending allocated (p # q # ps) =
     (let scaled = js_div (ply_endBalance p * target) ending
      in p\<lparr>ply_endBalance := scaled\<rparr> # scaleEnding target ending (allocated + scaled) (q # ps))"

text \<open>The players as the function leaves them come with its result.\<close>

definition repairEndingBalancesForVaultLocks ::
  "PlayerStackInput list \<Rightarrow> int \<Rightarrow> bool \<times> int \<times> PlayerStackInput list" where
  "repairEndingBalancesForVaultLocks players dbOpeningRaw =
     (let opening = lockedTotal players; ending = endingTotal players
      in if ending \<le> opening then (False, ending, players)
         else let intendedRake = (if ending \<le> dbOpeningRaw then dbOpeningRaw - ending else 0);
                  targetEnding = (if intendedRake < opening then opening - intendedRake else opening)
              in if ending = 0 then (False, ending, players)
                 else (True, targetEnding, scaleEnding targetEnding ending 0 players))"

definition balanceLeavesFromPlayers :: "Hex \<Rightarrow> int option \<Rightarrow> int \<Rightarrow> PlayerStackInput list \<Rightarrow> BalanceLeafInput list" where
  "balanceLeavesFromPlayers sessionId epoch finalSequence players =
     map (\<lambda>p. \<lparr>bl_sessionId = sessionId, bl_epoch = orElse epoch 0, bl_arenaAccount = ply_user p, bl_seat = ply_seat p,
               bl_openingBalance = ply_startLocked p, bl_currentBalance = ply_endBalance p,
               bl_cumulativeRake = orElse (ply_cumulativeRake p) 0, bl_lastSequence = finalSequence\<rparr>) players"

section \<open>Roots\<close>

definition noPlayEventRoot :: "(string \<Rightarrow> string) \<Rightarrow> string \<Rightarrow> Hex" where
  "noPlayEventRoot sha256 sessionId = keccakLike sha256 (''mozetto:no-play:events:v1:'' @ sessionId)"

definition noPlayHandRoot :: "(string \<Rightarrow> string) \<Rightarrow> string \<Rightarrow> Hex" where
  "noPlayHandRoot sha256 sessionId = keccakLike sha256 (''mozetto:no-play:hands:v1:'' @ sessionId)"

record ResolveRootsInput =
  rr_sessionId :: string
  rr_storedEventRoot :: "string option"
  rr_storedHandRoot :: "string option"
  rr_finalSequence :: int
  rr_storedBalanceRoot :: "string option"
  rr_balanceLeaves :: "BalanceLeafInput list option"
  rr_noPlay :: bool

record ResolvedRoots =
  rs_finalEventRoot :: Hex
  rs_handRoot :: Hex
  rs_balanceRoot :: Hex
  rs_usedStub :: bool

text \<open>One root: stored, the constant of a session without play, an error under the gate, or the stub.\<close>

definition resolveOne :: "bool \<Rightarrow> string option \<Rightarrow> Hex option \<Rightarrow> StubRootCode \<Rightarrow> Hex \<Rightarrow> root_error + Hex \<times> bool" where
  "resolveOne gated stored computed code stub =
     (case nonEmpty stored of
        Some s \<Rightarrow> Inr (padBytes32 s, False)
      | None \<Rightarrow>
          (case computed of
             Some r \<Rightarrow> Inr (r, False)
           | None \<Rightarrow> if gated then Inl (StubRootError code) else Inr (stub, True)))"

definition resolveSettlementRoots ::
  "viem \<Rightarrow> (string \<Rightarrow> string) \<Rightarrow> env \<Rightarrow> ResolveRootsInput \<Rightarrow> root_error + ResolvedRoots" where
  "resolveSettlementRoots v sha256 env x =
     (let gated = requireRealRoots env; sid = rr_sessionId x; seq = int_string (rr_finalSequence x)
      in bindE (resolveOne gated (rr_storedEventRoot x) (if rr_noPlay x then Some (noPlayEventRoot sha256 sid) else None)
                  MISSING_EVENT_ROOT (keccakLike sha256 (''events:'' @ sid @ '':'' @ seq))) (\<lambda>e.
         bindE (resolveOne gated (rr_storedHandRoot x) (if rr_noPlay x then Some (noPlayHandRoot sha256 sid) else None)
                  MISSING_HAND_ROOT (keccakLike sha256 (''hands:'' @ sid))) (\<lambda>h.
         bindE (if nonEmpty (rr_storedBalanceRoot x) = None \<and> rr_balanceLeaves x \<noteq> None \<and> rr_balanceLeaves x \<noteq> Some []
                then bindE (buildBalanceRoot v (the (rr_balanceLeaves x))) (\<lambda>b. Inr (Some (br_balanceRoot b)))
                else Inr None) (\<lambda>computed.
         bindE (resolveOne gated (rr_storedBalanceRoot x) computed MISSING_BALANCE_ROOT
                  (keccakLike sha256 (''balances:'' @ sid @ '':'' @ seq))) (\<lambda>b.
         bindE (if gated
                then bindE (assertRealRoot (Some (fst e))) (\<lambda>_. bindE (assertRealRoot (Some (fst h))) (\<lambda>_.
                     bindE (assertRealRoot (Some (fst b))) (\<lambda>_. Inr ())))
                else Inr ()) (\<lambda>_.
           Inr \<lparr>rs_finalEventRoot = fst e, rs_handRoot = fst h, rs_balanceRoot = fst b,
                rs_usedStub = (snd e \<or> snd h \<or> snd b)\<rparr>))))))"

section \<open>The proposal\<close>

record SettlementPlayerArg =
  spa_user :: Hex
  spa_startLocked :: int
  spa_endBalance :: int

record BuildV3ProposalInput =
  bvp_sessionId :: string
  bvp_finalSequence :: int
  bvp_finalEventRoot :: Hex
  bvp_handRoot :: Hex
  bvp_players :: "PlayerStackInput list"
  bvp_randomnessEpoch :: "int option"
  bvp_proofBatchSequence :: "int option"
  bvp_modelPolicyHash :: "Hex option"
  bvp_profileSetHash :: "Hex option"
  bvp_gameTemplateId :: "Hex option"
  bvp_engineHash :: "Hex option"
  bvp_deadline :: "int option"
  bvp_chainId :: int
  bvp_verifyingContract :: Hex
  bvp_balanceRoot :: "Hex option"
  bvp_epochForBalanceLeaf :: "int option"

record V3Proposal =
  vpr_settlement :: FinalSettlementInput
  vpr_players :: "SettlementPlayerArg list"
  vpr_digests :: FinalSettlementResult
  vpr_balancesChip :: "string \<rightharpoonup> rat"
  vpr_openingTotal :: int
  vpr_endingPlayerTotal :: int
  vpr_totalRake :: int

datatype proposal_error = NoPlayers | NegativeRake int int | ProposalRoot root_error

fun liftProposal :: "root_error + 'a \<Rightarrow> proposal_error + 'a" where
  "liftProposal (Inl e) = Inl (ProposalRoot e)"
| "liftProposal (Inr x) = Inr x"

lemma liftProposal_Inr_iff [simp]: "liftProposal m = Inr x \<longleftrightarrow> m = Inr x"
  by (cases m) auto

lemma liftProposal_NegativeRake [simp]:
  "bindE (liftProposal m) f = Inl (NegativeRake a b) \<longleftrightarrow> (\<exists>x. m = Inr x \<and> f x = Inl (NegativeRake a b))"
  by (cases m) auto

definition NLHE_HU_STANDARD_V1_TEMPLATE_ID :: Hex where
  "NLHE_HU_STANDARD_V1_TEMPLATE_ID = ''0x028ae0f374b4b519f80e5091d040e5c18e795508c1fdc8838d67edcdf51043b3''"

definition POKER_ENGINE_HASH :: Hex where
  "POKER_ENGINE_HASH = ''0xc4495078b280cc1544d6ec2b6b38a8647f619eaa31b655fb8675ed3a2e00822e''"

definition PROFILE_SET_HASH :: Hex where
  "PROFILE_SET_HASH = ''0xb19aef4953947932cb6e89b956181a83a66ad886fd63479413b3d894f1a45431''"

definition hexEnv :: "env \<Rightarrow> string \<Rightarrow> Hex \<Rightarrow> Hex" where
  "hexEnv env name fallback =
     (case env name of Some x \<Rightarrow> if is_hex32 x then js_lower x else fallback | None \<Rightarrow> fallback)"

text \<open>\<open>Number(atoms) / 1e6\<close>.\<close>

definition atomsNumber :: "int \<Rightarrow> rat" where
  "atomsNumber atoms = double (double (of_int atoms) / 1000000)"

definition chipBalances :: "PlayerStackInput list \<Rightarrow> string \<rightharpoonup> rat" where
  "chipBalances players = map_of (rev (map (\<lambda>p. (js_lower (ply_user p), atomsNumber (ply_endBalance p))) players))"

text \<open>\<open>now\<close> is the clock in milliseconds.\<close>

definition buildV3Proposal :: "viem \<Rightarrow> env \<Rightarrow> int \<Rightarrow> BuildV3ProposalInput \<Rightarrow> proposal_error + V3Proposal" where
  "buildV3Proposal v env now x =
     (let sessionId = sessionIdToBytes32 v (bvp_sessionId x); players = bvp_players x
      in if players = [] then Inl NoPlayers
         else
           let openingTotal = lockedTotal players; endingPlayerTotal = endingTotal players;
               leaves = balanceLeavesFromPlayers sessionId
                 (Some (orElse (bvp_epochForBalanceLeaf x) (orElse (bvp_randomnessEpoch x) 0))) (bvp_finalSequence x) players;
               totalRake = openingTotal - endingPlayerTotal
           in if totalRake < 0 then Inl (NegativeRake openingTotal endingPlayerTotal)
              else
                bindE (liftProposal (assertConservation openingTotal endingPlayerTotal totalRake)) (\<lambda>_.
                bindE (liftProposal (case bvp_balanceRoot x of
                         Some r \<Rightarrow> Inr r | None \<Rightarrow> bindE (buildBalanceRoot v leaves) (\<lambda>b. Inr (br_balanceRoot b)))) (\<lambda>balanceRoot.
                bindE (liftProposal (randomnessEpochId_of v sessionId (orElse (bvp_randomnessEpoch x) 0))) (\<lambda>epochId.
                let settlement =
                      \<lparr>fs_sessionId = sessionId, fs_finalSequence = bvp_finalSequence x, fs_finalEventRoot = bvp_finalEventRoot x,
                       fs_handRoot = bvp_handRoot x, fs_balanceRoot = balanceRoot, fs_randomnessEpochId = epochId,
                       fs_openingTotal = openingTotal, fs_endingPlayerTotal = endingPlayerTotal, fs_totalRake = totalRake,
                       fs_proofBatchSequence = orElse (bvp_proofBatchSequence x) 0,
                       fs_modelPolicyHash = orElse (bvp_modelPolicyHash x) (hexEnv env ''SETTLEMENT_MODEL_POLICY_HASH'' ZERO32),
                       fs_profileSetHash = orElse (bvp_profileSetHash x) (hexEnv env ''SETTLEMENT_PROFILE_SET_HASH'' PROFILE_SET_HASH),
                       fs_gameTemplateId = orElse (bvp_gameTemplateId x)
                         (hexEnv env ''SETTLEMENT_GAME_TEMPLATE_ID'' NLHE_HU_STANDARD_V1_TEMPLATE_ID),
                       fs_engineHash = orElse (bvp_engineHash x) (hexEnv env ''SETTLEMENT_ENGINE_HASH'' POKER_ENGINE_HASH),
                       fs_deadline = orElse (bvp_deadline x) (now div 1000 + 86400), fs_chainId = bvp_chainId x,
                       fs_verifyingContract = bvp_verifyingContract x\<rparr> in
                bindE (liftProposal (buildFinalSettlementDigest v settlement None)) (\<lambda>digests.
                  Inr \<lparr>vpr_settlement = settlement,
                       vpr_players = map (\<lambda>p. \<lparr>spa_user = ply_user p, spa_startLocked = ply_startLocked p,
                                              spa_endBalance = ply_endBalance p\<rparr>) players,
                       vpr_digests = digests, vpr_balancesChip = chipBalances players, vpr_openingTotal = openingTotal,
                       vpr_endingPlayerTotal = endingPlayerTotal, vpr_totalRake = totalRake\<rparr>)))))"

definition normalizeRoot :: "viem \<Rightarrow> env \<Rightarrow> string option \<Rightarrow> string \<Rightarrow> root_error + Hex" where
  "normalizeRoot v env raw fallbackSeed =
     (case nonEmpty raw of
        Some r \<Rightarrow> Inr (padBytes32 r)
      | None \<Rightarrow>
          if env ''REQUIRE_REAL_ROOTS'' \<in> {Some ''1'', Some ''true''} \<or> env ''MOZETTO_GOLDEN'' \<in> {Some ''1'', Some ''true''}
          then Inl (StubRootError STUB_FORBIDDEN) else Inr (keccak256 v (toBytes v fallbackSeed)))"

text \<open>The calldata tuple is the settlement without its domain.\<close>

record FinalSettlementV3Arg =
  fsa_fields :: "abi_val list"

definition toHubSettlementArg :: "FinalSettlementInput \<Rightarrow> FinalSettlementV3Arg" where
  "toHubSettlementArg s = \<lparr>fsa_fields = settlementStruct s\<rparr>"

section \<open>Attestations\<close>

type_synonym attest_adapter = "FinalSettlementInput \<Rightarrow> (Hex \<times> Hex) option"

text \<open>An HTTP answer: whether its status is good and its parsed body, if it is JSON.\<close>

record http_answer =
  hx_ok :: bool
  hx_json :: "json option"

type_synonym http_post = "string \<Rightarrow> json \<Rightarrow> http_answer option"

definition truthyString :: "json option \<Rightarrow> string option" where
  "truthyString x = (case x of Some (JStr (c # cs)) \<Rightarrow> Some (c # cs) | _ \<Rightarrow> None)"

definition createHttpV3AttestAdapter :: "http_post \<Rightarrow> string \<Rightarrow> string \<Rightarrow> attest_adapter" where
  "createHttpV3AttestAdapter post baseUrl path settlement =
     (let url = (if baseUrl \<noteq> [] \<and> last baseUrl = CHR ''/'' then butlast baseUrl else baseUrl) @ path
      in case post url (serializeFinalSettlementV3ForHttp settlement) of
           None \<Rightarrow> None
         | Some res \<Rightarrow>
             if \<not> hx_ok res then None
             else case hx_json res of
                    None \<Rightarrow> None
                  | Some body \<Rightarrow>
                      (case (truthyString (bodyField body ''signature''), truthyString (bodyField body ''attestorAddress'')) of
                         (Some s, Some a) \<Rightarrow> if bodyField body ''ok'' = Some (JBool False) then None else Some (s, a)
                       | _ \<Rightarrow> None))"

definition defaultV3HttpAdapters :: "http_post \<Rightarrow> env \<Rightarrow> AttestorRole \<rightharpoonup> attest_adapter" where
  "defaultV3HttpAdapters post env =
     (if js_lower (orElse (env ''SETTLEMENT_V3_HTTP_ATTEST'') ''1'') \<in> {''0'', ''false'', ''off''} then Map.empty
      else [Replay \<mapsto> createHttpV3AttestAdapter post (orElse (env ''REPLAY_VERIFIER_URL'') ''http://localhost:4004'')
                       ''/v1/attest-settlement-v3'',
            Dealer \<mapsto> createHttpV3AttestAdapter post (orElse (env ''DEALER_URL'') ''http://localhost:4003'')
                       ''/v1/dealer/attest-v3''])"

text \<open>One role of the collection loop: the local key first, then the adapter.\<close>

definition attestRole ::
  "viem \<Rightarrow> account_lib \<Rightarrow> env \<Rightarrow> (AttestorRole \<rightharpoonup> attest_adapter) \<Rightarrow> bool \<Rightarrow> bool option \<Rightarrow> FinalSettlementInput \<Rightarrow> Hex \<Rightarrow>
   AttestorRole \<Rightarrow> attestor_error + Attestation list" where
  "attestRole v al env adapters preferLocal rc settlement dig role =
     bindE (if preferLocal then tryLoadAttestorKey al role env else Inr None) (\<lambda>key.
       case key of
         Some k \<Rightarrow> bindE (signFinalSettlementV3 v al k settlement rc) (\<lambda>att. Inr [att])
       | None \<Rightarrow>
           (case adapters role of
              None \<Rightarrow> Inr []
            | Some adapter \<Rightarrow>
                (case adapter settlement of
                   Some (c # cs, address) \<Rightarrow>
                     Inr [\<lparr>at_role = role, at_address = address, at_signature = c # cs, at_digest = dig\<rparr>]
                 | _ \<Rightarrow> Inr [])))"

definition collectV3Attestations ::
  "viem \<Rightarrow> account_lib \<Rightarrow> env \<Rightarrow> (AttestorRole \<rightharpoonup> attest_adapter) \<Rightarrow> AttestorRole list option \<Rightarrow> bool option \<Rightarrow> bool option \<Rightarrow>
   FinalSettlementInput \<Rightarrow> attestor_error + Attestation list \<times> Hex" where
  "collectV3Attestations v al env adapters roles preferLocalKeys rc settlement =
     (case buildFinalSettlementDigest v settlement rc of
        Inl e \<Rightarrow> Inl (AttestRoot e)
      | Inr d \<Rightarrow>
          bindE (mapE (attestRole v al env adapters (preferLocalKeys \<noteq> Some False) rc settlement (digest d))
                   (orElse roles [Game, Replay, Dealer])) (\<lambda>atts.
            Inr (concat atts, digest d)))"

section \<open>Repaired balances\<close>

lemma length_scaleEnding [simp]: "length (scaleEnding t e a ps) = length ps"
  by (induction t e a ps rule: scaleEnding.induct) (auto simp: Let_def)

lemma scaleEnding_total: "ps \<noteq> [] \<Longrightarrow> endingTotal (scaleEnding t e a ps) = t - a"
  by (induction t e a ps rule: scaleEnding.induct) (auto simp: Let_def)

lemma scaleEnding_keeps:
  "map (\<lambda>p. (ply_user p, ply_seat p, ply_startLocked p, ply_cumulativeRake p)) (scaleEnding t e a ps) =
   map (\<lambda>p. (ply_user p, ply_seat p, ply_startLocked p, ply_cumulativeRake p)) ps"
  by (induction t e a ps rule: scaleEnding.induct) (auto simp: Let_def)

lemma scaleEnding_shares:
  assumes "0 < e" "0 \<le> t" "\<forall>p \<in> set ps. 0 \<le> ply_endBalance p"
    "a * e \<le> (e - endingTotal ps) * t" "(e - endingTotal ps) * t \<le> (a + c) * e" "i < length ps"
  shows "ply_endBalance (ps ! i) * t div e \<le> ply_endBalance (scaleEnding t e a ps ! i) \<and>
    ply_endBalance (scaleEnding t e a ps ! i) \<le> ply_endBalance (ps ! i) * t div e + c + int (length ps) - 1"
  using assms
proof (induction t e a ps arbitrary: c i rule: scaleEnding.induct)
  case (2 t e a p)
  let ?x = "ply_endBalance p * t"
  have b: "?x div e * e \<le> ?x" "?x < ?x div e * e + e"
    using pos_mod_sign [of e ?x] pos_mod_bound [of e ?x] div_mult_mod_eq [of ?x e] 2(1) by linarith+
  have "?x \<le> (t - a) * e" "(t - a) * e \<le> ?x + c * e" using 2(4,5) by (simp_all add: algebra_simps)
  then have "?x div e * e < (t - a + 1) * e" "(t - a) * e < (?x div e + c + 1) * e"
    using b 2(1) by (simp_all add: algebra_simps)
  then have "?x div e < t - a + 1" "t - a < ?x div e + c + 1" using mult_less_cancel_right_pos [OF 2(1)] by blast+
  then show ?case using 2(6) by simp
next
  case (3 t e a p q ps)
  let ?x = "ply_endBalance p * t"
  have nn: "0 \<le> ?x" using 3(3,4) by simp
  have b: "?x div e * e \<le> ?x" "?x < ?x div e * e + e"
    using pos_mod_sign [of e ?x] pos_mod_bound [of e ?x] div_mult_mod_eq [of ?x e] 3(2) by linarith+
  have d: "js_div ?x e = ?x div e" using nn 3(2) by (simp add: js_div_nonneg)
  have "0 \<le> c * e" using 3(5,6) by (simp add: algebra_simps)
  then have c0: "0 \<le> c" using 3(2) by (simp add: zero_le_mult_iff)
  show ?case
  proof (cases i)
    case 0
    then show ?thesis using d c0 by (simp add: Let_def)
  next
    case (Suc j)
    have "(a + js_div ?x e) * e \<le> (e - endingTotal (q # ps)) * t" "(e - endingTotal (q # ps)) * t \<le> (a + js_div ?x e + (c + 1)) * e"
      using 3(5,6) b unfolding d by (simp_all add: algebra_simps)
    then show ?thesis using 3(1) [OF refl 3(2,3), of "c + 1" j] 3(4,7) Suc by (simp add: Let_def algebra_simps)
  qed
qed simp

lemma repair_facts:
  assumes "\<forall>p \<in> set players. 0 \<le> ply_startLocked p \<and> 0 \<le> ply_endBalance p"
    "repairEndingBalancesForVaultLocks players dbOpening = (repaired, target, players')"
  shows "endingTotal players' = target \<and> endingTotal players' \<le> lockedTotal players \<and>
    map (\<lambda>p. (ply_user p, ply_seat p, ply_startLocked p)) players' = map (\<lambda>p. (ply_user p, ply_seat p, ply_startLocked p)) players \<and>
    (\<forall>p \<in> set players'. 0 \<le> ply_endBalance p) \<and>
    (repaired \<longleftrightarrow> lockedTotal players < endingTotal players) \<and> (\<not> repaired \<longrightarrow> players' = players) \<and>
    (repaired \<longrightarrow> (\<forall>i < length players.
       ply_endBalance (players ! i) * target div endingTotal players \<le> ply_endBalance (players' ! i) \<and>
       ply_endBalance (players' ! i) < ply_endBalance (players ! i) * target div endingTotal players + int (length players)))"
proof (cases "endingTotal players \<le> lockedTotal players")
  case True
  then show ?thesis using assms by (auto simp: repairEndingBalancesForVaultLocks_def Let_def)
next
  case False
  have l0: "0 \<le> lockedTotal players" using assms(1) by (auto intro: sum_of_nonneg)
  then have e0: "0 < endingTotal players" using False by linarith
  then have ne: "players \<noteq> []" by auto
  have r: "repaired" "players' = scaleEnding target (endingTotal players) 0 players" "0 \<le> target" "target \<le> lockedTotal players"
    using assms(2) False e0 l0 by (auto simp: repairEndingBalancesForVaultLocks_def Let_def split: if_splits)
  have sh: "ply_endBalance (players ! i) * target div endingTotal players \<le> ply_endBalance (players' ! i) \<and>
      ply_endBalance (players' ! i) \<le> ply_endBalance (players ! i) * target div endingTotal players + int (length players) - 1"
    if "i < length players" for i
    using scaleEnding_shares [OF e0 r(3), of players 0 0 i] that assms(1) r(2) by simp
  have nn: "0 \<le> ply_endBalance p" if p: "p \<in> set players'" for p
  proof -
    obtain i where i: "i < length players" "p = players' ! i" using p r(2) by (auto simp: in_set_conv_nth)
    have "0 \<le> ply_endBalance (players ! i) * target div endingTotal players"
      using assms(1) i(1) r(3) e0 by (simp add: pos_imp_zdiv_nonneg_iff)
    then show ?thesis unfolding i(2) using sh [OF i(1)] by linarith
  qed
  have keep: "map (\<lambda>p. (ply_user p, ply_seat p, ply_startLocked p)) players' = map (\<lambda>p. (ply_user p, ply_seat p, ply_startLocked p)) players"
    using arg_cong [OF scaleEnding_keeps [of target "endingTotal players" 0 players], of "map (\<lambda>(u, s, l, c). (u, s, l))"]
    by (simp add: r(2) comp_def)
  have "endingTotal players' = target" using scaleEnding_total [OF ne] r(2) by simp
  then show ?thesis using r(1,4) sh nn keep False by force
qed

lemma repair_bound:
  assumes "\<forall>p \<in> set players. 0 \<le> ply_startLocked p \<and> 0 \<le> ply_endBalance p"
    "repairEndingBalancesForVaultLocks players dbOpening = (repaired, target, players')"
  shows "endingTotal players' \<le> lockedTotal players'"
proof -
  have third: "map ply_startLocked xs = map (\<lambda>(u, s, l). l) (map (\<lambda>p. (ply_user p, ply_seat p, ply_startLocked p)) xs)" for xs
    by (simp add: comp_def)
  have "map ply_startLocked players' = map ply_startLocked players"
    unfolding third using repair_facts [OF assms] by simp
  then show ?thesis using repair_facts [OF assms] by simp
qed


section \<open>What a proposal says\<close>

lemma buildV3ProposalE:
  assumes "buildV3Proposal v env now x = Inr p"
  obtains "bvp_players x \<noteq> []" "vpr_openingTotal p = lockedTotal (bvp_players x)" "vpr_endingPlayerTotal p = endingTotal (bvp_players x)"
    "vpr_totalRake p = vpr_openingTotal p - vpr_endingPlayerTotal p" "0 \<le> vpr_totalRake p"
    "fs_sessionId (vpr_settlement p) = sessionIdToBytes32 v (bvp_sessionId x)"
    "fs_openingTotal (vpr_settlement p) = vpr_openingTotal p" "fs_endingPlayerTotal (vpr_settlement p) = vpr_endingPlayerTotal p"
    "fs_totalRake (vpr_settlement p) = vpr_totalRake p" "fs_finalSequence (vpr_settlement p) = bvp_finalSequence x"
    "fs_finalEventRoot (vpr_settlement p) = bvp_finalEventRoot x" "fs_handRoot (vpr_settlement p) = bvp_handRoot x"
    "fs_chainId (vpr_settlement p) = bvp_chainId x" "fs_verifyingContract (vpr_settlement p) = bvp_verifyingContract x"
    "buildFinalSettlementDigest v (vpr_settlement p) None = Inr (vpr_digests p)"
    "vpr_players p = map (\<lambda>p. \<lparr>spa_user = ply_user p, spa_startLocked = ply_startLocked p, spa_endBalance = ply_endBalance p\<rparr>)
       (bvp_players x)"
    "case bvp_balanceRoot x of
       Some r \<Rightarrow> fs_balanceRoot (vpr_settlement p) = r
     | None \<Rightarrow> \<exists>b. buildBalanceRoot v (balanceLeavesFromPlayers (sessionIdToBytes32 v (bvp_sessionId x))
           (Some (orElse (bvp_epochForBalanceLeaf x) (orElse (bvp_randomnessEpoch x) 0))) (bvp_finalSequence x) (bvp_players x)) = Inr b \<and>
         fs_balanceRoot (vpr_settlement p) = br_balanceRoot b"
  using assms by (auto simp: buildV3Proposal_def Let_def split: if_splits option.splits)


section \<open>Real roots\<close>

lemma resolveOne_Inr_iff:
  "resolveOne g stored computed code stub = Inr y \<longleftrightarrow>
     (case nonEmpty stored of
        Some s \<Rightarrow> y = (padBytes32 s, False)
      | None \<Rightarrow> (case computed of Some r \<Rightarrow> y = (r, False) | None \<Rightarrow> \<not> g \<and> y = (stub, True)))"
  by (auto simp: resolveOne_def split: option.splits)

lemma assertRealRoot_Some: "assertRealRoot (Some r) = Inr y \<Longrightarrow> is_hex32 r \<and> js_lower r \<noteq> ZERO32"
  by (auto simp: assertRealRoot_def split: if_splits)

text \<open>Under the gate every root of a proposal is real. With \<open>REQUIRE_REAL_ROOTS\<close> or \<open>MOZETTO_GOLDEN\<close> set,
  resolved roots are non-zero 32-byte values, no stub is used, and each root is the stored one, or, with nothing stored, the
  constant of a session without play for the event and hand roots, and the Merkle root of the given leaves for the balance
  root; what is missing is the corresponding error.\<close>

theorem gated_roots_are_real:
  assumes "requireRealRoots env"
  shows "(resolveSettlementRoots v sha256 env x = Inr r \<longrightarrow> \<not> rs_usedStub r \<and>
      (\<forall>h \<in> {rs_finalEventRoot r, rs_handRoot r, rs_balanceRoot r}. is_hex32 h \<and> js_lower h \<noteq> ZERO32) \<and>
      (case nonEmpty (rr_storedEventRoot x) of
         Some s \<Rightarrow> rs_finalEventRoot r = padBytes32 s
       | None \<Rightarrow> rr_noPlay x \<and> rs_finalEventRoot r = noPlayEventRoot sha256 (rr_sessionId x)) \<and>
      (case nonEmpty (rr_storedHandRoot x) of
         Some s \<Rightarrow> rs_handRoot r = padBytes32 s
       | None \<Rightarrow> rr_noPlay x \<and> rs_handRoot r = noPlayHandRoot sha256 (rr_sessionId x)) \<and>
      (case nonEmpty (rr_storedBalanceRoot x) of
         Some s \<Rightarrow> rs_balanceRoot r = padBytes32 s
       | None \<Rightarrow> \<exists>ls b. rr_balanceLeaves x = Some ls \<and> buildBalanceRoot v ls = Inr b \<and> rs_balanceRoot r = br_balanceRoot b)) \<and>
    (\<not> rr_noPlay x \<and> nonEmpty (rr_storedEventRoot x) = None \<longrightarrow>
      resolveSettlementRoots v sha256 env x = Inl (StubRootError MISSING_EVENT_ROOT)) \<and>
    (\<not> rr_noPlay x \<and> nonEmpty (rr_storedEventRoot x) \<noteq> None \<and> nonEmpty (rr_storedHandRoot x) = None \<longrightarrow>
      resolveSettlementRoots v sha256 env x = Inl (StubRootError MISSING_HAND_ROOT))"
proof (intro conjI impI)
  show "resolveSettlementRoots v sha256 env x = Inl (StubRootError MISSING_EVENT_ROOT)"
    if "\<not> rr_noPlay x \<and> nonEmpty (rr_storedEventRoot x) = None"
    using that assms by (simp add: resolveSettlementRoots_def resolveOne_def Let_def)
  show "resolveSettlementRoots v sha256 env x = Inl (StubRootError MISSING_HAND_ROOT)"
    if "\<not> rr_noPlay x \<and> nonEmpty (rr_storedEventRoot x) \<noteq> None \<and> nonEmpty (rr_storedHandRoot x) = None"
    using that assms by (auto simp: resolveSettlementRoots_def resolveOne_def Let_def)
qed (use assms in \<open>auto simp: resolveSettlementRoots_def Let_def resolveOne_Inr_iff dest!: assertRealRoot_Some
      split: option.splits if_splits\<close>)

section \<open>Collected attestations\<close>

lemma attestRole_ok:
  assumes "attestRole v al env adapters pl rc s dig role = Inr atts" "buildFinalSettlementDigest v s rc = Inr d" "dig = digest d"
  shows "length atts \<le> 1 \<and> (\<forall>a \<in> set atts. at_role a = role \<and> at_digest a = dig)"
  using assms
  by (auto simp: attestRole_def signFinalSettlementV3_def Let_def split: option.splits list.splits if_splits dest!: tryLoad_Some)

text \<open>Each role attests at most once, and to the digest of the settlement.\<close>

lemma collected_once_per_role:
  assumes "collectV3Attestations v al env adapters None pl rc s = Inr (atts, dig)"
  shows "distinct (map at_role atts) \<and> (\<forall>a \<in> set atts. at_digest a = dig) \<and> length atts \<le> 3"
proof -
  obtain d a b c where d: "buildFinalSettlementDigest v s rc = Inr d" "dig = digest d" "atts = a @ b @ c" and
    rows: "attestRole v al env adapters (pl \<noteq> Some False) rc s (digest d) Game = Inr a"
    "attestRole v al env adapters (pl \<noteq> Some False) rc s (digest d) Replay = Inr b"
    "attestRole v al env adapters (pl \<noteq> Some False) rc s (digest d) Dealer = Inr c"
    using assms by (auto simp: collectV3Attestations_def split: sum.splits)
  note ok = attestRole_ok [OF rows(1) d(1) refl] attestRole_ok [OF rows(2) d(1) refl] attestRole_ok [OF rows(3) d(1) refl]
  have one: "length xs \<le> 1 \<Longrightarrow> distinct (map at_role xs)" for xs :: "Attestation list"
    by (cases xs) auto
  have g: "at_role ` set a \<subseteq> {Game}" "at_role ` set b \<subseteq> {Replay}" "at_role ` set c \<subseteq> {Dealer}" using ok by blast+
  have "distinct (map at_role a)" "distinct (map at_role b)" "distinct (map at_role c)" using ok one by blast+
  moreover have "A \<inter> B = {}" if "A \<subseteq> {x}" "B \<subseteq> {y}" "x \<noteq> y" for A B and x y :: AttestorRole using that by blast
  note disj = this [OF g(1,2)] this [OF g(1,3)] this [OF g(2,3)]
  ultimately have "distinct (map at_role atts)" using disj by (simp add: d(3) Int_Un_distrib)
  moreover have "\<forall>x \<in> set atts. at_digest x = dig" using ok unfolding d(2,3) set_append by blast
  moreover have "length atts \<le> 3" using ok unfolding d(3) by simp
  ultimately show ?thesis by blast
qed

section \<open>An instance\<close>

definition demo_players :: "PlayerStackInput list" where
  "demo_players =
     [\<lparr>ply_user = ''0xA1'', ply_seat = 0, ply_startLocked = 100, ply_endBalance = 150, ply_cumulativeRake = None\<rparr>,
      \<lparr>ply_user = ''0xB2'', ply_seat = 1, ply_startLocked = 100, ply_endBalance = 100, ply_cumulativeRake = None\<rparr>]"


definition demo_proposal_input :: BuildV3ProposalInput where
  "demo_proposal_input =
     \<lparr>bvp_sessionId = ZERO32, bvp_finalSequence = 7, bvp_finalEventRoot = ''0x02'', bvp_handRoot = ''0x03'',
      bvp_players = snd (snd (repairEndingBalancesForVaultLocks demo_players 253)), bvp_randomnessEpoch = None,
      bvp_proofBatchSequence = None, bvp_modelPolicyHash = None, bvp_profileSetHash = None, bvp_gameTemplateId = None,
      bvp_engineHash = None, bvp_deadline = None, bvp_chainId = 8453, bvp_verifyingContract = ''0x0a'',
      bvp_balanceRoot = Some ''0x04'', bvp_epochForBalanceLeaf = None\<rparr>"


theorem gated_roots_are_real_witness:
  "\<exists>r. resolveSettlementRoots demo_viem (\<lambda>x. replicate 64 (CHR ''5'')) [''MOZETTO_GOLDEN'' \<mapsto> ''true'']
     \<lparr>rr_sessionId = ''s'', rr_storedEventRoot = Some ''0xabc'', rr_storedHandRoot = None, rr_finalSequence = 0,
      rr_storedBalanceRoot = Some ''1'', rr_balanceLeaves = None, rr_noPlay = True\<rparr> = Inr r \<and> \<not> rs_usedStub r"
proof -
  let ?x = "\<lparr>rr_sessionId = ''s'', rr_storedEventRoot = Some ''0xabc'', rr_storedHandRoot = None, rr_finalSequence = 0,
      rr_storedBalanceRoot = Some ''1'', rr_balanceLeaves = None, rr_noPlay = True\<rparr>"
  have "isOk (resolveSettlementRoots demo_viem (\<lambda>x. replicate 64 (CHR ''5'')) [''MOZETTO_GOLDEN'' \<mapsto> ''true''] ?x)"
    by code_simp
  moreover have "requireRealRoots [''MOZETTO_GOLDEN'' \<mapsto> ''true'']" by code_simp
  ultimately show ?thesis using gated_roots_are_real [of "[''MOZETTO_GOLDEN'' \<mapsto> ''true'']" demo_viem] by (auto simp: isOk_iff)
qed

end
