(* ===== verification/Settlement_Worker.thy ===== *)
theory Settlement_Worker
  imports Settlement_Proposal
begin

text \<open>
  \<^verbatim>\<open>services/settlement-worker/src/v3/process.ts\<close>, \<^verbatim>\<open>v3/submit.ts\<close> and \<^verbatim>\<open>checkpoints.ts\<close>: the loop that proposes,
  attests, submits and records final settlements, and the checkpoints it emits. The tables the worker writes are lists of
  rows; what it reads from other tables is part of an environment, in which any statement may also fail. The settlement
  hub and the vault are a record of parameters over a chain state.
\<close>

section \<open>Tables\<close>

record OnchainSession =
  ocs_session_id :: Hex
  ocs_table_id :: "string option"
  ocs_chain_id :: int
  ocs_status :: string
  ocs_created_at :: int
  ocs_settlement_tx_hash :: "Hex option"
  ocs_last_balance_root :: "string option"
  ocs_settled_at :: "int option"

record ProposalRow =
  prp_id :: nat
  prp_session_id :: Hex
  prp_final_sequence :: int
  prp_event_root :: Hex
  prp_hand_root :: Hex
  prp_balance_root :: Hex
  prp_total_rake :: rat
  prp_balancesChip :: "string \<rightharpoonup> rat"
  prp_v3 :: json
  prp_deadline :: int
  prp_status :: string
  prp_created_at :: int

record AttestationRow =
  atr_proposal_id :: nat
  atr_role :: AttestorRole
  atr_address :: Hex
  atr_signature :: Hex

record CheckpointRow =
  cpr_session_id :: Hex
  cpr_sequence :: int
  cpr_hand_number :: "int option"
  cpr_event_root :: Hex
  cpr_balance_root :: Hex
  cpr_checkpoint_root :: Hex
  cpr_tx_hash :: "Hex option"
  cpr_created_at :: int

record SwDb =
  swd_sessions :: "OnchainSession list"
  swd_proposals :: "ProposalRow list"
  swd_attestations :: "AttestationRow list"
  swd_checkpoints :: "CheckpointRow list"
  swd_rated :: "(Hex \<times> Hex) list"

text \<open>\<open>swd_rated\<close> collects the calls of \<open>maybeRateOnchainSession\<close>, whose errors are swallowed. The rows of the queries that
  load a session's stacks, its last event, hand root and number of hands: \<open>None\<close> is a query that failed.\<close>

record StackRow =
  stk_wallet_address :: Hex
  stk_stack :: rat
  stk_buy_in :: rat
  stk_buy_in_raw :: int
  stk_seat :: "int option"

record SessionReads =
  srd_stacks :: "StackRow list option"
  srd_canonical :: "(int \<times> string) option option"
  srd_handRoot :: "string option option"
  srd_dealt :: "int option"

datatype sw_stmt =
    SelectSessions | GhostRetire | StaleReject | ExistingQuery | ReadCheckpoint | InsertProposal | MarkSettling
  | InsertAttestation | MarkConfirmed | MarkSettled | MarkRejected

record SwEnv =
  swe_env :: env
  swe_now :: int
  swe_active :: "string \<Rightarrow> bool"
  swe_completed :: "string \<Rightarrow> bool"
  swe_hasPlayers :: "Hex \<Rightarrow> bool"
  swe_reads :: "Hex \<Rightarrow> SessionReads"
  swe_fails :: "sw_stmt \<Rightarrow> Hex \<Rightarrow> bool"

record sw_lib =
  swl_viem :: viem
  swl_sha256 :: "string \<Rightarrow> string"
  swl_accounts :: account_lib
  swl_post :: http_post

text \<open>The contracts; a call that throws is \<open>None\<close>, \<open>False\<close> or \<open>Inl\<close>.\<close>

record 'c hub_client =
  hub_openedAt :: "'c \<Rightarrow> Hex \<Rightarrow> int option"
  hub_lockedBySession :: "'c \<Rightarrow> Hex \<Rightarrow> Hex \<Rightarrow> int option"
  hub_settle :: "FinalSettlementV3Arg \<Rightarrow> SettlementPlayerArg list \<Rightarrow> Hex list \<Rightarrow> Hex \<Rightarrow> 'c \<Rightarrow> (string + Hex) \<times> 'c"
  hub_waitForReceipt :: "Hex \<Rightarrow> 'c \<Rightarrow> bool \<times> 'c"
  hub_accruedFees :: "'c \<Rightarrow> int option"
  hub_withdrawFees :: "int \<Rightarrow> 'c \<Rightarrow> (string + Hex) \<times> 'c"

section \<open>Reading a session\<close>

definition haveVault :: "env \<Rightarrow> bool" where
  "haveVault env \<longleftrightarrow> nonEmpty (env ''ARENA_VAULT_ADDRESS'') \<noteq> None \<and> nonEmpty (env ''SETTLEMENT_PRIVATE_KEY'') \<noteq> None"

definition isUnknownOnChain :: "sw_lib \<Rightarrow> 'c hub_client \<Rightarrow> SwEnv \<Rightarrow> 'c \<Rightarrow> OnchainSession \<Rightarrow> bool" where
  "isUnknownOnChain L hub E c s \<longleftrightarrow>
     haveVault (swe_env E) \<and> hub_openedAt hub c (sessionIdToBytes32 (swl_viem L) (ocs_session_id s)) = Some 0"

definition readVaultLockedBySession ::
  "sw_lib \<Rightarrow> 'c hub_client \<Rightarrow> SwEnv \<Rightarrow> 'c \<Rightarrow> Hex \<Rightarrow> Hex list \<Rightarrow> (string \<rightharpoonup> int) option" where
  "readVaultLockedBySession L hub E c sessionId accounts =
     (let locked = map (hub_lockedBySession hub c (sessionIdToBytes32 (swl_viem L) sessionId)) accounts
      in if \<not> haveVault (swe_env E) \<or> accounts = [] \<or> None \<in> set locked then None
         else Some (map_of (rev (zip (map js_lower accounts) (map the locked)))))"

definition loadStacks :: "SwEnv \<Rightarrow> OnchainSession \<Rightarrow> StackRow list" where
  "loadStacks E s = orElse (srd_stacks (swe_reads E (ocs_session_id s))) []"

definition noPlayIn :: "SessionReads \<Rightarrow> bool" where
  "noPlayIn r \<longleftrightarrow> orElse (srd_dealt r) 0 = 0"

definition playerOfRow :: "bool \<Rightarrow> StackRow \<times> nat \<Rightarrow> PlayerStackInput" where
  "playerOfRow noPlay ri =
     (let row = fst ri
      in \<lparr>ply_user = stk_wallet_address row, ply_seat = orElse (stk_seat row) (int (snd ri)),
          ply_startLocked = stk_buy_in_raw row,
          ply_endBalance = (if noPlay then stk_buy_in_raw row else floorAtoms (stk_stack row)), ply_cumulativeRake = None\<rparr>)"

definition applyVaultLocks :: "bool \<Rightarrow> (string \<rightharpoonup> int) option \<Rightarrow> PlayerStackInput list \<Rightarrow> PlayerStackInput list" where
  "applyVaultLocks noPlay locks players =
     (case locks of
        None \<Rightarrow> players
      | Some m \<Rightarrow> map (\<lambda>p. case m (js_lower (ply_user p)) of
                            Some locked \<Rightarrow>
                              if 0 < locked
                              then p\<lparr>ply_startLocked := locked, ply_endBalance := (if noPlay then locked else ply_endBalance p)\<rparr>
                              else p
                          | None \<Rightarrow> p) players)"

definition dbOpeningOf :: "StackRow list \<Rightarrow> int" where
  "dbOpeningOf stacks = sum_of (\<lambda>row. max (floorAtoms (stk_buy_in row)) (stk_buy_in_raw row)) stacks"

text \<open>The players of a session as they are proposed.\<close>

definition playersOf :: "sw_lib \<Rightarrow> 'c hub_client \<Rightarrow> SwEnv \<Rightarrow> 'c \<Rightarrow> OnchainSession \<Rightarrow> PlayerStackInput list" where
  "playersOf L hub E c s =
     (let stacks = loadStacks E s; noPlay = noPlayIn (swe_reads E (ocs_session_id s));
          players = map (playerOfRow noPlay) (zip stacks [0..<length stacks]);
          locks = readVaultLockedBySession L hub E c (ocs_session_id s) (map ply_user players)
      in snd (snd (repairEndingBalancesForVaultLocks (applyVaultLocks noPlay locks players) (dbOpeningOf stacks))))"

text \<open>The balance root of the last checkpoint of a session.\<close>

definition lastCheckpoint :: "SwDb \<Rightarrow> Hex \<Rightarrow> CheckpointRow option" where
  "lastCheckpoint db sid =
     (case js_sort (\<lambda>a b. cpr_sequence b - cpr_sequence a) (filter (\<lambda>k. cpr_session_id k = sid) (swd_checkpoints db)) of
        [] \<Rightarrow> None | k # ks \<Rightarrow> Some k)"

section \<open>The proposal of a session\<close>

definition rootsOf :: "sw_lib \<Rightarrow> 'c hub_client \<Rightarrow> SwEnv \<Rightarrow> SwDb \<Rightarrow> 'c \<Rightarrow> OnchainSession \<Rightarrow> root_error + ResolvedRoots" where
  "rootsOf L hub E db c s =
     (let sid = ocs_session_id s; r = swe_reads E sid; canonical = orElse (srd_canonical r) None;
          finalSequence = (case canonical of Some (n, h) \<Rightarrow> n | None \<Rightarrow> 0)
      in resolveSettlementRoots (swl_viem L) (swl_sha256 L) (swe_env E)
           \<lparr>rr_sessionId = sid, rr_storedEventRoot = map_option snd canonical, rr_storedHandRoot = orElse (srd_handRoot r) None,
            rr_finalSequence = finalSequence,
            rr_storedBalanceRoot =
              (if swe_fails E ReadCheckpoint sid then None else map_option cpr_balance_root (lastCheckpoint db sid)),
            rr_balanceLeaves = Some (balanceLeavesFromPlayers (sessionIdToBytes32 (swl_viem L) sid) None finalSequence
              (playersOf L hub E c s)),
            rr_noPlay = noPlayIn r\<rparr>)"

definition proposalInputOf ::
  "sw_lib \<Rightarrow> 'c hub_client \<Rightarrow> SwEnv \<Rightarrow> 'c \<Rightarrow> OnchainSession \<Rightarrow> Hex \<Rightarrow> int \<Rightarrow> ResolvedRoots \<Rightarrow> BuildV3ProposalInput" where
  "proposalInputOf L hub E c s hubAddress chainId roots =
     \<lparr>bvp_sessionId = ocs_session_id s,
      bvp_finalSequence = (case orElse (srd_canonical (swe_reads E (ocs_session_id s))) None of Some (n, h) \<Rightarrow> n | None \<Rightarrow> 0),
      bvp_finalEventRoot = rs_finalEventRoot roots, bvp_handRoot = rs_handRoot roots, bvp_players = playersOf L hub E c s,
      bvp_randomnessEpoch = None, bvp_proofBatchSequence = None, bvp_modelPolicyHash = None, bvp_profileSetHash = None,
      bvp_gameTemplateId = None, bvp_engineHash = None, bvp_deadline = None, bvp_chainId = chainId,
      bvp_verifyingContract = hubAddress, bvp_balanceRoot = Some (rs_balanceRoot roots), bvp_epochForBalanceLeaf = None\<rparr>"

definition proposalV3Json :: "V3Proposal \<Rightarrow> json" where
  "proposalV3Json p = JObj
     [(''digest'', JStr (digest (vpr_digests p))), (''openingTotal'', JStr (int_string (vpr_openingTotal p))),
      (''endingPlayerTotal'', JStr (int_string (vpr_endingPlayerTotal p))), (''totalRake'', JStr (int_string (vpr_totalRake p))),
      (''randomnessEpochId'', JStr (fs_randomnessEpochId (vpr_settlement p))),
      (''proofBatchSequence'', JStr (int_string (fs_proofBatchSequence (vpr_settlement p))))]"

definition proposalRow :: "SwEnv \<Rightarrow> nat \<Rightarrow> OnchainSession \<Rightarrow> V3Proposal \<Rightarrow> ProposalRow" where
  "proposalRow E k s p =
     \<lparr>prp_id = k, prp_session_id = ocs_session_id s, prp_final_sequence = fs_finalSequence (vpr_settlement p),
      prp_event_root = fs_finalEventRoot (vpr_settlement p), prp_hand_root = fs_handRoot (vpr_settlement p),
      prp_balance_root = fs_balanceRoot (vpr_settlement p), prp_total_rake = atomsNumber (vpr_totalRake p),
      prp_balancesChip = vpr_balancesChip p, prp_v3 = proposalV3Json p, prp_deadline = fs_deadline (vpr_settlement p),
      prp_status = ''proposed'', prp_created_at = swe_now E\<rparr>"

text \<open>\<open>BigInt(session.chain_id || chainId)\<close>; the conversion throws on a number that is not an integer.\<close>

definition chainIdOf :: "SwEnv \<Rightarrow> OnchainSession \<Rightarrow> int option" where
  "chainIdOf E s =
     (if ocs_chain_id s \<noteq> 0 then Some (ocs_chain_id s)
      else case js_Number (envOr (swe_env E) ''CHAIN_ID'' ''84532'') of
             Finite q \<Rightarrow> if js_isInteger q then Some \<lfloor>q\<rfloor> else None
           | NonFinite \<Rightarrow> None)"

definition buildProposalV3FromDb ::
  "sw_lib \<Rightarrow> 'c hub_client \<Rightarrow> SwEnv \<Rightarrow> Hex \<Rightarrow> SwDb \<Rightarrow> 'c \<Rightarrow> OnchainSession \<Rightarrow> (nat \<times> V3Proposal) option \<times> SwDb" where
  "buildProposalV3FromDb L hub E hubAddress db c s =
     (if loadStacks E s = [] then (None, db)
      else case (rootsOf L hub E db c s, chainIdOf E s) of
             (Inr roots, Some chainId) \<Rightarrow>
               (case buildV3Proposal (swl_viem L) (swe_env E) (swe_now E) (proposalInputOf L hub E c s hubAddress chainId roots) of
                  Inl e \<Rightarrow> (None, db)
                | Inr p \<Rightarrow>
                    if swe_fails E InsertProposal (ocs_session_id s) then (None, db)
                    else let k = length (swd_proposals db)
                         in (Some (k, p), db\<lparr>swd_proposals := swd_proposals db @ [proposalRow E k s p]\<rparr>))
           | _ \<Rightarrow> (None, db))"

section \<open>Submission\<close>

text \<open>\<open>length < min\<close> for a minimum that may be \<open>NaN\<close>; infinity is not told apart from it.\<close>

definition belowMin :: "nat \<Rightarrow> js_number \<Rightarrow> bool" where
  "belowMin n m = (case m of Finite q \<Rightarrow> of_nat n < q | NonFinite \<Rightarrow> False)"

definition minSignatures :: "env \<Rightarrow> js_number" where
  "minSignatures env = js_Number (envOr env ''SETTLEMENT_MIN_SIGNATURES'' ''2'')"

definition DEFAULT_VERIFIER_POLICY_ID :: Hex where
  "DEFAULT_VERIFIER_POLICY_ID = ZERO32"

datatype sw_error = ChainThrew string | ReceiptThrew | DbThrew | AttestThrew attestor_error

definition submitHubSettlementV3 ::
  "'c hub_client \<Rightarrow> env \<Rightarrow> FinalSettlementV3Arg \<Rightarrow> SettlementPlayerArg list \<Rightarrow> Hex list \<Rightarrow> 'c \<Rightarrow> (sw_error + Hex option) \<times> 'c" where
  "submitHubSettlementV3 hub env settlement players signatures c =
     (if belowMin (length signatures) (minSignatures env) then (Inr None, c)
      else case hub_settle hub settlement players (take 5 signatures) DEFAULT_VERIFIER_POLICY_ID c of
             (Inl e, c1) \<Rightarrow> (Inl (ChainThrew e), c1)
           | (Inr tx, c1) \<Rightarrow>
               (case hub_waitForReceipt hub tx c1 of
                  (True, c2) \<Rightarrow> (Inr (Some tx), c2)
                | (False, c2) \<Rightarrow> (Inl ReceiptThrew, c2)))"

definition withdrawFees :: "'c hub_client \<Rightarrow> env \<Rightarrow> 'c \<Rightarrow> (sw_error + unit) \<times> 'c" where
  "withdrawFees hub env c =
     (if nonEmpty (env ''ARENA_VAULT_ADDRESS'') = None then (Inr (), c)
      else case hub_accruedFees hub c of
             None \<Rightarrow> (Inl (ChainThrew ''accruedProtocolFees''), c)
           | Some fees \<Rightarrow>
               if fees \<le> 0 then (Inr (), c)
               else case hub_withdrawFees hub fees c of
                      (Inl e, c1) \<Rightarrow> (Inl (ChainThrew e), c1)
                    | (Inr tx, c1) \<Rightarrow>
                        (case hub_waitForReceipt hub tx c1 of
                           (True, c2) \<Rightarrow> (Inr (), c2)
                         | (False, c2) \<Rightarrow> (Inl ReceiptThrew, c2)))"

section \<open>One session\<close>

definition onSession :: "Hex \<Rightarrow> (OnchainSession \<Rightarrow> OnchainSession) \<Rightarrow> SwDb \<Rightarrow> SwDb" where
  "onSession sid f db = db\<lparr>swd_sessions := map (\<lambda>s. if ocs_session_id s = sid then f s else s) (swd_sessions db)\<rparr>"

definition onProposals :: "(ProposalRow \<Rightarrow> bool) \<Rightarrow> string \<Rightarrow> SwDb \<Rightarrow> SwDb" where
  "onProposals sel st db = db\<lparr>swd_proposals := map (\<lambda>p. if sel p then p\<lparr>prp_status := st\<rparr> else p) (swd_proposals db)\<rparr>"

definition unless :: "bool \<Rightarrow> (SwDb \<Rightarrow> SwDb) \<Rightarrow> SwDb \<Rightarrow> SwDb" where
  "unless failed f db = (if failed then db else f db)"

definition GHOST_TX :: Hex where
  "GHOST_TX = ''0x'' @ replicate 62 (CHR ''0'') @ ''ff''"

definition retireGhost :: "Hex \<Rightarrow> SwDb \<Rightarrow> SwDb" where
  "retireGhost sid = onSession sid (\<lambda>s.
     if ocs_settlement_tx_hash s = None then s\<lparr>ocs_status := ''settled'', ocs_settlement_tx_hash := Some GHOST_TX\<rparr> else s)"

definition inFlight :: "ProposalRow \<Rightarrow> bool" where
  "inFlight p \<longleftrightarrow> prp_status p \<in> {''proposed'', ''attesting'', ''submitted''}"

definition rejectStale :: "SwEnv \<Rightarrow> Hex \<Rightarrow> SwDb \<Rightarrow> SwDb" where
  "rejectStale E sid =
     onProposals (\<lambda>p. prp_session_id p = sid \<and> inFlight p \<and> prp_created_at p < swe_now E - 90000) ''rejected''"

fun insertAttestations :: "SwEnv \<Rightarrow> Hex \<Rightarrow> nat \<Rightarrow> Attestation list \<Rightarrow> SwDb \<Rightarrow> SwDb" where
  "insertAttestations E sid pid [] db = db"
| "insertAttestations E sid pid (a # as) db =
     insertAttestations E sid pid as
       (unless (swe_fails E InsertAttestation sid \<or>
                (\<exists>r \<in> set (swd_attestations db). atr_proposal_id r = pid \<and> atr_role r = at_role a))
          (\<lambda>d. d\<lparr>swd_attestations := swd_attestations d @
             [\<lparr>atr_proposal_id = pid, atr_role = at_role a, atr_address = at_address a, atr_signature = at_signature a\<rparr>]\<rparr>) db)"

definition markRejected :: "SwEnv \<Rightarrow> Hex \<Rightarrow> nat \<Rightarrow> SwDb \<Rightarrow> SwDb" where
  "markRejected E sid pid = unless (swe_fails E MarkRejected sid) (onProposals (\<lambda>p. prp_id p = pid) ''rejected'')"

text \<open>The body of the \<open>try\<close> block and its handler.\<close>

definition settleProposal ::
  "'c hub_client \<Rightarrow> SwEnv \<Rightarrow> Hex \<Rightarrow> nat \<Rightarrow> V3Proposal \<Rightarrow> Hex list \<Rightarrow> SwDb \<Rightarrow> 'c \<Rightarrow> SwDb \<times> 'c" where
  "settleProposal hub E sid pid p signatures db c =
     (case submitHubSettlementV3 hub (swe_env E) (toHubSettlementArg (vpr_settlement p)) (vpr_players p) signatures c of
        (Inl e, c1) \<Rightarrow> (markRejected E sid pid db, c1)
      | (Inr None, c1) \<Rightarrow> (db, c1)
      | (Inr (Some tx), c1) \<Rightarrow>
          (let db1 = unless (swe_fails E MarkConfirmed sid) (onProposals (\<lambda>q. prp_id q = pid) ''confirmed'') db;
               db2 = unless (swe_fails E MarkSettled sid) (onSession sid (\<lambda>s.
                       s\<lparr>ocs_status := ''settled'', ocs_settlement_tx_hash := Some tx, ocs_settled_at := Some (swe_now E)\<rparr>)) db1
           in case withdrawFees hub (swe_env E) c1 of
                (Inl e, c2) \<Rightarrow> (markRejected E sid pid db2, c2)
              | (Inr _, c2) \<Rightarrow> (db2\<lparr>swd_rated := swd_rated db2 @ [(sid, digest (vpr_digests p))]\<rparr>, c2)))"

text \<open>\<open>Inl\<close> is an exception that ends the whole loop.\<close>

definition processSession ::
  "sw_lib \<Rightarrow> 'c hub_client \<Rightarrow> SwEnv \<Rightarrow> Hex \<Rightarrow> OnchainSession \<Rightarrow> SwDb \<Rightarrow> 'c \<Rightarrow> (sw_error + unit) \<times> SwDb \<times> 'c" where
  "processSession L hub E hubAddress s db c =
     (let sid = ocs_session_id s
      in if isUnknownOnChain L hub E c s then (Inr (), unless (swe_fails E GhostRetire sid) (retireGhost sid) db, c)
         else
           let db1 = unless (swe_fails E StaleReject sid) (rejectStale E sid) db
           in if swe_fails E ExistingQuery sid then (Inl DbThrew, db1, c)
              else if \<exists>p \<in> set (swd_proposals db1). prp_session_id p = sid \<and> inFlight p then (Inr (), db1, c)
              else case buildProposalV3FromDb L hub E hubAddress db1 c s of
                     (None, db2) \<Rightarrow> (Inr (), db2, c)
                   | (Some (pid, p), db2) \<Rightarrow>
                       (let db3 = unless (swe_fails E MarkSettling sid) (onSession sid (\<lambda>s. s\<lparr>ocs_status := ''settling''\<rparr>)) db2
                        in case collectV3Attestations (swl_viem L) (swl_accounts L) (swe_env E)
                                  (defaultV3HttpAdapters (swl_post L) (swe_env E)) None None None (vpr_settlement p) of
                             Inl e \<Rightarrow> (Inl (AttestThrew e), db3, c)
                           | Inr (atts, dig) \<Rightarrow>
                               (let db4 = insertAttestations E sid pid atts db3;
                                    r = settleProposal hub E sid pid p (map at_signature atts) db4 c
                                in (Inr (), fst r, snd r))))"

section \<open>The loop\<close>

definition activeTable :: "SwEnv \<Rightarrow> OnchainSession \<Rightarrow> bool" where
  "activeTable E s = (case ocs_table_id s of None \<Rightarrow> False | Some t \<Rightarrow> swe_active E t)"

definition selectable :: "SwEnv \<Rightarrow> OnchainSession \<Rightarrow> bool" where
  "selectable E s \<longleftrightarrow>
     ocs_settlement_tx_hash s = None \<and> \<not> activeTable E s \<and>
     (ocs_status s \<in> {''playing'', ''settling''} \<or>
      ocs_status s = ''opened'' \<and> (\<exists>t. ocs_table_id s = Some t \<and> swe_completed E t) \<or>
      ocs_status s \<in> {''blocked'', ''pending'', ''opened'', ''settling''} \<and> ocs_created_at s < swe_now E - 120000 \<and>
        swe_hasPlayers E (ocs_session_id s) \<and> \<not> activeTable E s)"

definition pinned :: "SwEnv \<Rightarrow> SwDb \<Rightarrow> OnchainSession \<Rightarrow> int" where
  "pinned E db s =
     (if \<exists>p \<in> set (swd_proposals db). prp_session_id p = ocs_session_id s \<and> inFlight p \<and> swe_now E - 90000 \<le> prp_created_at p
      then 1 else 0)"

definition selectSessions :: "SwEnv \<Rightarrow> SwDb \<Rightarrow> OnchainSession list" where
  "selectSessions E db =
     (if swe_fails E SelectSessions [] then []
      else take 8 (js_sort (\<lambda>a b. if pinned E db a \<noteq> pinned E db b then pinned E db a - pinned E db b
                                    else ocs_created_at b - ocs_created_at a)
                     (filter (selectable E) (swd_sessions db))))"

fun processLoop ::
  "sw_lib \<Rightarrow> 'c hub_client \<Rightarrow> SwEnv \<Rightarrow> Hex \<Rightarrow> OnchainSession list \<Rightarrow> SwDb \<Rightarrow> 'c \<Rightarrow> (sw_error + unit) \<times> SwDb \<times> 'c" where
  "processLoop L hub E hubAddress [] db c = (Inr (), db, c)"
| "processLoop L hub E hubAddress (s # ss) db c =
     (case processSession L hub E hubAddress s db c of
        (Inl e, db1, c1) \<Rightarrow> (Inl e, db1, c1)
      | (Inr _, db1, c1) \<Rightarrow> processLoop L hub E hubAddress ss db1 c1)"

definition processOnchainSettlementsV3 ::
  "sw_lib \<Rightarrow> 'c hub_client \<Rightarrow> SwEnv \<Rightarrow> Hex \<Rightarrow> SwDb \<Rightarrow> 'c \<Rightarrow> (sw_error + unit) \<times> SwDb \<times> 'c" where
  "processOnchainSettlementsV3 L hub E hubAddress db c =
     (if nonEmpty (swe_env E ''SETTLEMENT_PRIVATE_KEY'') = None then (Inr (), db, c)
      else processLoop L hub E hubAddress (selectSessions E db) db c)"

section \<open>Checkpoints\<close>

definition buildTableCheckpointRoot :: "viem \<Rightarrow> Hex \<Rightarrow> Hex \<Rightarrow> enc_error + Hex" where
  "buildTableCheckpointRoot v eventRoot balanceRoot =
     keccakEnc v ''bytes32, bytes32'' [AHex (js_lower eventRoot), AHex (js_lower balanceRoot)]"

record SessionTip =
  tip_sequence :: int
  tip_event_hash :: string
  tip_hand_number :: "int option"

definition latestProposal :: "SwDb \<Rightarrow> Hex \<Rightarrow> ProposalRow option" where
  "latestProposal db sid =
     (case js_sort (\<lambda>a b. prp_created_at b - prp_created_at a) (filter (\<lambda>p. prp_session_id p = sid) (swd_proposals db)) of
        [] \<Rightarrow> None | p # ps \<Rightarrow> Some p)"

definition tipBalanceRoot :: "SwDb \<Rightarrow> OnchainSession \<Rightarrow> SessionTip \<Rightarrow> string" where
  "tipBalanceRoot db s tip =
     (case latestProposal db (ocs_session_id s) of
        Some p \<Rightarrow> prp_balance_root p
      | None \<Rightarrow> orElse (ocs_last_balance_root s) (tip_event_hash tip))"

definition tipRows :: "(Hex \<rightharpoonup> SessionTip) \<Rightarrow> SwDb \<Rightarrow> (OnchainSession \<times> SessionTip) list" where
  "tipRows tips db =
     take 40 (js_sort (\<lambda>a b. tip_sequence (snd b) - tip_sequence (snd a))
       (filter (\<lambda>(s, tip). \<not> (\<exists>k \<in> set (swd_checkpoints db).
                              cpr_session_id k = ocs_session_id s \<and> cpr_sequence k = tip_sequence tip))
         (concat (map (\<lambda>s. case tips (ocs_session_id s) of None \<Rightarrow> [] | Some tip \<Rightarrow> [(s, tip)])
           (filter (\<lambda>s. ocs_status s \<in> {''opened'', ''playing'', ''settling'', ''settled'', ''closed''}) (swd_sessions db))))))"

text \<open>The insertion of one checkpoint, with its conflict rule; the number counts the rows inserted.\<close>

definition insertCheckpoint :: "CheckpointRow \<Rightarrow> SwDb \<Rightarrow> SwDb \<times> nat" where
  "insertCheckpoint k db =
     (if \<exists>k' \<in> set (swd_checkpoints db). cpr_session_id k' = cpr_session_id k \<and> cpr_sequence k' = cpr_sequence k
      then (db, 0) else (db\<lparr>swd_checkpoints := swd_checkpoints db @ [k]\<rparr>, 1))"

definition checkpointOf :: "viem \<Rightarrow> int \<Rightarrow> SwDb \<Rightarrow> OnchainSession \<Rightarrow> SessionTip \<Rightarrow> enc_error + CheckpointRow" where
  "checkpointOf v now db0 s tip =
     (let eventRoot = padBytes32 (tip_event_hash tip);
          balanceRoot = padBytes32 (orElse (nonEmpty (Some (tipBalanceRoot db0 s tip))) (tip_event_hash tip))
      in bindE (buildTableCheckpointRoot v eventRoot balanceRoot) (\<lambda>r.
           Inr \<lparr>cpr_session_id = ocs_session_id s, cpr_sequence = tip_sequence tip, cpr_hand_number = tip_hand_number tip,
                cpr_event_root = eventRoot, cpr_balance_root = balanceRoot, cpr_checkpoint_root = r, cpr_tx_hash = None,
                cpr_created_at = now\<rparr>))"

fun emitLoop ::
  "viem \<Rightarrow> int \<Rightarrow> SwDb \<Rightarrow> (Hex \<Rightarrow> bool) \<Rightarrow> (OnchainSession \<times> SessionTip) list \<Rightarrow> nat \<Rightarrow> SwDb \<Rightarrow> (enc_error + nat) \<times> SwDb" where
  "emitLoop v now db0 fails [] inserted db = (Inr inserted, db)"
| "emitLoop v now db0 fails ((s, tip) # rest) inserted db =
     (case checkpointOf v now db0 s tip of
        Inl e \<Rightarrow> (Inl e, db)
      | Inr k \<Rightarrow>
          if fails (ocs_session_id s) then emitLoop v now db0 fails rest inserted db
          else (let r = insertCheckpoint k db in emitLoop v now db0 fails rest (inserted + snd r) (fst r)))"

definition emitSessionCheckpoints ::
  "viem \<Rightarrow> int \<Rightarrow> (Hex \<rightharpoonup> SessionTip) option \<Rightarrow> (Hex \<Rightarrow> bool) \<Rightarrow> SwDb \<Rightarrow> (enc_error + nat) \<times> SwDb" where
  "emitSessionCheckpoints v now tips fails db =
     (case tips of
        None \<Rightarrow> (Inr 0, db)
      | Some t \<Rightarrow> emitLoop v now db fails (tipRows t db) 0 db)"

text \<open>The anchoring of checkpoints in the registry contract: what it is sent, and its call.\<close>

record AnchorArgs =
  anc_sessionId :: Hex
  anc_sequence :: int
  anc_eventRoot :: Hex
  anc_balanceRoot :: Hex
  anc_timestamp :: int
  anc_attestationHash :: Hex

record 'c anchor_client =
  anc_anchor :: "AnchorArgs \<Rightarrow> 'c \<Rightarrow> (string + Hex) \<times> 'c"
  anc_waitForReceipt :: "Hex \<Rightarrow> 'c \<Rightarrow> bool \<times> 'c"

definition anchorArgs :: "viem \<Rightarrow> int \<Rightarrow> CheckpointRow \<Rightarrow> enc_error + AnchorArgs" where
  "anchorArgs v now row =
     (let sessionId = sessionIdToBytes32 v (cpr_session_id row)
      in bindE (keccakEnc v ''bytes32, uint64'' [AHex sessionId, AInt (cpr_sequence row)]) (\<lambda>h.
           Inr \<lparr>anc_sessionId = sessionId, anc_sequence = cpr_sequence row, anc_eventRoot = padBytes32 (cpr_event_root row),
                anc_balanceRoot = padBytes32 (cpr_balance_root row), anc_timestamp = now div 1000, anc_attestationHash = h\<rparr>))"

definition setTxHash :: "CheckpointRow \<Rightarrow> Hex \<Rightarrow> SwDb \<Rightarrow> SwDb" where
  "setTxHash row tx db =
     db\<lparr>swd_checkpoints := map (\<lambda>k. if cpr_session_id k = cpr_session_id row \<and> cpr_sequence k = cpr_sequence row
                                    then k\<lparr>cpr_tx_hash := Some tx\<rparr> else k) (swd_checkpoints db)\<rparr>"

text \<open>One turn of the loop; whatever throws is swallowed. \<open>fails\<close> says which update of a row fails.\<close>

definition anchorOne ::
  "viem \<Rightarrow> 'c anchor_client \<Rightarrow> int \<Rightarrow> (Hex \<Rightarrow> bool) \<Rightarrow> CheckpointRow \<Rightarrow> SwDb \<times> 'c \<Rightarrow> SwDb \<times> 'c" where
  "anchorOne v reg now fails row dc =
     (case anchorArgs v now row of
        Inl e \<Rightarrow> dc
      | Inr args \<Rightarrow>
          (case anc_anchor reg args (snd dc) of
             (Inl e, c1) \<Rightarrow> (fst dc, c1)
           | (Inr tx, c1) \<Rightarrow>
               (case anc_waitForReceipt reg tx c1 of
                  (False, c2) \<Rightarrow> (fst dc, c2)
                | (True, c2) \<Rightarrow> (unless (fails (cpr_session_id row)) (setTxHash row tx) (fst dc), c2))))"

definition anchorCheckpointsOnchain ::
  "viem \<Rightarrow> 'c anchor_client \<Rightarrow> env \<Rightarrow> int \<Rightarrow> bool \<Rightarrow> (Hex \<Rightarrow> bool) \<Rightarrow> SwDb \<Rightarrow> 'c \<Rightarrow> SwDb \<times> 'c" where
  "anchorCheckpointsOnchain v reg env now selectFails fails db c =
     (if nonEmpty (env ''CHECKPOINT_REGISTRY_ADDRESS'') = None \<or>
         nonEmpty (env ''SETTLEMENT_PRIVATE_KEY'') = None \<and> nonEmpty (env ''GAME_ATTESTOR_PRIVATE_KEY'') = None \<or>
         selectFails
      then (db, c)
      else fold (anchorOne v reg now fails)
             (take 10 (js_sort (\<lambda>a b. cpr_created_at a - cpr_created_at b)
               (filter (\<lambda>k. cpr_tx_hash k = None) (swd_checkpoints db)))) (db, c))"

section \<open>What a tick does to the sessions\<close>

lemma swd_sessions_onProposals [simp]: "swd_sessions (onProposals sel st db) = swd_sessions db"
  by (simp add: onProposals_def)

lemma swd_sessions_insertAttestations [simp]: "swd_sessions (insertAttestations E sid pid atts db) = swd_sessions db"
  by (induction E sid pid atts db rule: insertAttestations.induct) (simp_all add: unless_def)

lemma swd_sessions_rejectStale [simp]: "swd_sessions (rejectStale E sid db) = swd_sessions db"
  by (simp add: rejectStale_def)

lemma swd_sessions_markRejected [simp]: "swd_sessions (markRejected E sid pid db) = swd_sessions db"
  by (simp add: markRejected_def unless_def)

lemma swd_sessions_unless: "swd_sessions (f db) = swd_sessions db \<Longrightarrow> swd_sessions (unless b f db) = swd_sessions db"
  by (simp add: unless_def)

text \<open>What may stand behind the transaction hash of a settled session: a settlement of this session, conserved and signed
  by a quorum, that the hub took and confirmed; or the sentinel of a session the vault never opened.\<close>

definition conservedFor :: "viem \<Rightarrow> Hex \<Rightarrow> V3Proposal \<Rightarrow> bool" where
  "conservedFor v sid p \<longleftrightarrow>
     fs_sessionId (vpr_settlement p) = sessionIdToBytes32 v sid \<and> 0 \<le> fs_totalRake (vpr_settlement p) \<and>
     fs_openingTotal (vpr_settlement p) = fs_endingPlayerTotal (vpr_settlement p) + fs_totalRake (vpr_settlement p) \<and>
     sum_of spa_startLocked (vpr_players p) = fs_openingTotal (vpr_settlement p) \<and>
     sum_of spa_endBalance (vpr_players p) = fs_endingPlayerTotal (vpr_settlement p)"

definition settledBy :: "sw_lib \<Rightarrow> 'c hub_client \<Rightarrow> env \<Rightarrow> Hex \<Rightarrow> Hex \<Rightarrow> bool" where
  "settledBy L hub env sid tx \<longleftrightarrow>
     tx = GHOST_TX \<and> (\<exists>c. hub_openedAt hub c (sessionIdToBytes32 (swl_viem L) sid) = Some 0) \<or>
     (\<exists>p sigs c c1. conservedFor (swl_viem L) sid p \<and> \<not> belowMin (length sigs) (minSignatures env) \<and>
        hub_settle hub (toHubSettlementArg (vpr_settlement p)) (vpr_players p) (take 5 sigs) DEFAULT_VERIFIER_POLICY_ID c = (Inr tx, c1) \<and>
        fst (hub_waitForReceipt hub tx c1))"

definition evolves :: "(Hex \<Rightarrow> Hex \<Rightarrow> bool) \<Rightarrow> Hex set \<Rightarrow> SwDb \<Rightarrow> SwDb \<Rightarrow> bool" where
  "evolves J sids db db' \<longleftrightarrow>
     list_all2 (\<lambda>a b. ocs_session_id b = ocs_session_id a \<and> (ocs_session_id a \<notin> sids \<longrightarrow> b = a) \<and>
         (ocs_settlement_tx_hash b = ocs_settlement_tx_hash a \<or>
          (\<exists>tx. ocs_settlement_tx_hash b = Some tx \<and> J (ocs_session_id a) tx)))
       (swd_sessions db) (swd_sessions db')"

lemma evolves_same: "swd_sessions db' = swd_sessions db \<Longrightarrow> evolves J sids db db'"
  by (simp add: evolves_def list.rel_refl)

lemma evolves_trans: "evolves J A db db1 \<Longrightarrow> evolves J B db1 db2 \<Longrightarrow> evolves J (A \<union> B) db db2"
  unfolding evolves_def by (rule list_all2_trans; auto)

lemma evolves_step: "evolves J A db db1 \<Longrightarrow> evolves J A db1 db2 \<Longrightarrow> evolves J A db db2"
  using evolves_trans [of J A db db1 A db2] by simp

lemma evolves_on:
  assumes "\<And>s. ocs_session_id (f s) = ocs_session_id s"
    "\<And>s. ocs_session_id s = sid \<Longrightarrow> ocs_settlement_tx_hash (f s) = ocs_settlement_tx_hash s \<or>
       (\<exists>tx. ocs_settlement_tx_hash (f s) = Some tx \<and> J sid tx)"
  shows "evolves J {sid} db (onSession sid f db)"
  using assms by (auto simp: evolves_def onSession_def list_all2_conv_all_nth)

lemma evolves_unless: "evolves J A db (f db) \<Longrightarrow> evolves J A db (unless b f db)"
  by (simp add: unless_def evolves_same)

lemma buildProposal_facts:
  assumes "buildProposalV3FromDb L hub E h db c s = (Some (pid, p), db')"
  shows "conservedFor (swl_viem L) (ocs_session_id s) p" "swd_sessions db' = swd_sessions db"
    "pid = length (swd_proposals db)" "swd_proposals db' = swd_proposals db @ [proposalRow E pid s p]"
proof -
  let ?in = "proposalInputOf L hub E c s h"
  have ne: "loadStacks E s \<noteq> []" using assms by (auto simp: buildProposalV3FromDb_def)
  obtain roots where r: "rootsOf L hub E db c s = Inr roots"
    using assms ne by (cases "rootsOf L hub E db c s") (auto simp: buildProposalV3FromDb_def)
  obtain ch where ch: "chainIdOf E s = Some ch"
    using assms ne r by (cases "chainIdOf E s") (auto simp: buildProposalV3FromDb_def)
  obtain q where q: "buildV3Proposal (swl_viem L) (swe_env E) (swe_now E) (?in ch roots) = Inr q"
    using assms ne r ch
    by (cases "buildV3Proposal (swl_viem L) (swe_env E) (swe_now E) (?in ch roots)") (auto simp: buildProposalV3FromDb_def)
  have e: "p = q \<and> pid = length (swd_proposals db) \<and> db' = db\<lparr>swd_proposals := swd_proposals db @ [proposalRow E pid s q]\<rparr>"
    using assms ne r ch q by (auto simp: buildProposalV3FromDb_def Let_def split: if_splits)
  show "conservedFor (swl_viem L) (ocs_session_id s) p"
    using q by (rule buildV3ProposalE) (auto simp: e conservedFor_def proposalInputOf_def comp_def)
  show "swd_sessions db' = swd_sessions db" "pid = length (swd_proposals db)"
    "swd_proposals db' = swd_proposals db @ [proposalRow E pid s p]" using e by simp_all
qed

lemma buildProposal_none: "buildProposalV3FromDb L hub E h db c s = (None, db') \<Longrightarrow> db' = db"
proof -
  assume a: "buildProposalV3FromDb L hub E h db c s = (None, db')"
  show ?thesis
  proof (cases "rootsOf L hub E db c s"; cases "chainIdOf E s")
    fix roots ch
    assume r: "rootsOf L hub E db c s = Inr roots" "chainIdOf E s = Some ch"
    then show ?thesis
      using a by (cases "buildV3Proposal (swl_viem L) (swe_env E) (swe_now E) (proposalInputOf L hub E c s h ch roots)")
        (simp_all add: buildProposalV3FromDb_def Let_def split: if_splits)
  qed (use a in \<open>simp_all add: buildProposalV3FromDb_def split: if_splits\<close>)
qed

lemma submit_confirmed:
  assumes "submitHubSettlementV3 hub env st ps sigs c = (Inr (Some tx), c')"
  shows "\<not> belowMin (length sigs) (minSignatures env)"
    "\<exists>c1. hub_settle hub st ps (take 5 sigs) DEFAULT_VERIFIER_POLICY_ID c = (Inr tx, c1) \<and> fst (hub_waitForReceipt hub tx c1)"
  using assms by (auto simp: submitHubSettlementV3_def split: if_splits prod.splits sum.splits bool.splits)

lemma settleProposal_evolves:
  assumes "conservedFor (swl_viem L) sid p"
  shows "evolves (settledBy L hub (swe_env E)) {sid} db (fst (settleProposal hub E sid pid p sigs db c))"
proof -
  let ?J = "settledBy L hub (swe_env E)"
  obtain r c1 where sub: "submitHubSettlementV3 hub (swe_env E) (toHubSettlementArg (vpr_settlement p)) (vpr_players p) sigs c = (r, c1)"
    by fastforce
  show ?thesis
  proof (cases r)
    case (Inl e)
    then show ?thesis using sub by (simp add: settleProposal_def evolves_same)
  next
    case (Inr o')
    show ?thesis
    proof (cases o')
      case None
      then show ?thesis using sub Inr by (simp add: settleProposal_def evolves_same)
    next
      case (Some tx)
      have J: "?J sid tx"
        using submit_confirmed [OF sub [unfolded Inr Some]] assms unfolding settledBy_def by blast
      let ?db1 = "unless (swe_fails E MarkConfirmed sid) (onProposals (\<lambda>q. prp_id q = pid) ''confirmed'') db"
      let ?db2 = "unless (swe_fails E MarkSettled sid) (onSession sid (\<lambda>s.
                       s\<lparr>ocs_status := ''settled'', ocs_settlement_tx_hash := Some tx, ocs_settled_at := Some (swe_now E)\<rparr>)) ?db1"
      have "evolves ?J {sid} db ?db1" by (intro evolves_same) (simp add: unless_def)
      moreover have "evolves ?J {sid} ?db1 ?db2" using J by (intro evolves_unless evolves_on) auto
      ultimately have e: "evolves ?J {sid} db ?db2" by (rule evolves_step)
      have "evolves ?J {sid} ?db2 (fst (settleProposal hub E sid pid p sigs db c))"
        using sub Inr Some by (intro evolves_same) (simp add: settleProposal_def Let_def split: prod.splits sum.splits)
      with e show ?thesis by (rule evolves_step)
    qed
  qed
qed

lemma processSession_evolves:
  assumes "processSession L hub E h s db c = (r, db', c')"
  shows "evolves (settledBy L hub (swe_env E)) {ocs_session_id s} db db'"
proof -
  let ?J = "settledBy L hub (swe_env E)" and ?sid = "ocs_session_id s"
  define db1 where "db1 = unless (swe_fails E StaleReject ?sid) (rejectStale E ?sid) db"
  have s1: "swd_sessions db1 = swd_sessions db" by (simp add: db1_def unless_def)
  show ?thesis
  proof (cases "isUnknownOnChain L hub E c s")
    case True
    then have "\<exists>c. hub_openedAt hub c (sessionIdToBytes32 (swl_viem L) ?sid) = Some 0" by (auto simp: isUnknownOnChain_def)
    then have "?J ?sid GHOST_TX" by (simp add: settledBy_def)
    then have "evolves ?J {?sid} db (retireGhost ?sid db)" unfolding retireGhost_def by (intro evolves_on) auto
    then show ?thesis using assms True by (auto simp: processSession_def Let_def intro: evolves_unless)
  next
    case False
    note d = assms [unfolded processSession_def Let_def, folded db1_def]
    consider (stop) "db' = db1" | (build) pid p db2 where "buildProposalV3FromDb L hub E h db1 c s = (Some (pid, p), db2)"
      "processSession L hub E h s db c = (r, db', c')" "\<not> swe_fails E ExistingQuery ?sid"
      "\<not> (\<exists>p \<in> set (swd_proposals db1). prp_session_id p = ?sid \<and> inFlight p)"
      using d False assms
      by (cases "buildProposalV3FromDb L hub E h db1 c s"; cases "fst (buildProposalV3FromDb L hub E h db1 c s)")
        (auto split: if_splits dest: buildProposal_none)
    then show ?thesis
    proof cases
      case stop
      then show ?thesis using s1 by (simp add: evolves_same)
    next
      case build
      note bf = buildProposal_facts [OF build(1)]
      define db3 where "db3 = unless (swe_fails E MarkSettling ?sid) (onSession ?sid (\<lambda>s. s\<lparr>ocs_status := ''settling''\<rparr>)) db2"
      have "evolves ?J {?sid} db db2" using s1 bf(2) by (simp add: evolves_same)
      moreover have "evolves ?J {?sid} db2 db3" unfolding db3_def by (intro evolves_unless evolves_on) auto
      ultimately have e3: "evolves ?J {?sid} db db3" by (rule evolves_step)
      have rest: "db' = db3 \<or> (\<exists>atts. db' = fst (settleProposal hub E ?sid pid p (map at_signature atts)
          (insertAttestations E ?sid pid atts db3) c))"
      proof (cases "collectV3Attestations (swl_viem L) (swl_accounts L) (swe_env E)
          (defaultV3HttpAdapters (swl_post L) (swe_env E)) None None None (vpr_settlement p)")
        case (Inl e)
        then show ?thesis using d False build(1,3,4) by (simp add: db3_def)
      next
        case (Inr ad)
        obtain atts dig where ad: "ad = (atts, dig)" by (cases ad)
        have "db' = fst (settleProposal hub E ?sid pid p (map at_signature atts) (insertAttestations E ?sid pid atts db3) c)"
          using d False build(1,3,4) Inr ad by (simp add: db3_def)
        then show ?thesis by blast
      qed
      show ?thesis
      proof (cases "db' = db3")
        case False
        then obtain atts where a: "db' = fst (settleProposal hub E ?sid pid p (map at_signature atts)
          (insertAttestations E ?sid pid atts db3) c)" using rest by blast
        have e4: "evolves ?J {?sid} db3 (insertAttestations E ?sid pid atts db3)" by (simp add: evolves_same)
        show ?thesis unfolding a by (rule evolves_step [OF evolves_step [OF e3 e4] settleProposal_evolves [OF bf(1)]])
      qed (use e3 in simp)
    qed
  qed
qed

lemma processLoop_evolves:
  "processLoop L hub E h ss db c = (r, db', c') \<Longrightarrow> evolves (settledBy L hub (swe_env E)) (ocs_session_id ` set ss) db db'"
proof (induction L hub E h ss db c arbitrary: r db' c' rule: processLoop.induct)
  case (2 L hub E h s ss db c)
  obtain r1 db1 c1 where p: "processSession L hub E h s db c = (r1, db1, c1)" by (metis surj_pair)
  note e = processSession_evolves [OF p]
  show ?case
  proof (cases r1)
    case (Inl e')
    then have "db' = db1" using 2(2) p by simp
    then show ?thesis using evolves_trans [OF e evolves_same [OF refl]] by (metis image_insert insert_is_Un list.simps(15))
  next
    case (Inr u)
    then have "processLoop L hub E h ss db1 c1 = (r, db', c')" using 2(2) p by simp
    then have "evolves (settledBy L hub (swe_env E)) (ocs_session_id ` set ss) db1 db'"
      using 2(1) [OF p [symmetric] Inr refl] by blast
    then show ?thesis using evolves_trans [OF e] by (metis image_insert insert_is_Un list.simps(15))
  qed
qed (simp add: evolves_same)


section \<open>What can go wrong around a settlement\<close>

text \<open>When the withdrawal of the protocol fees fails after a confirmed settlement, the proposal of the settled session is
  marked rejected and the match is never rated.\<close>

lemma fee_failure_rejects_settled:
  assumes "submitHubSettlementV3 hub (swe_env E) (toHubSettlementArg (vpr_settlement p)) (vpr_players p) sigs c = (Inr (Some tx), c1)"
    "withdrawFees hub (swe_env E) c1 = (Inl e, c2)" "\<not> swe_fails E MarkRejected sid" "\<not> swe_fails E MarkSettled sid"
  shows "\<forall>q \<in> set (swd_proposals (fst (settleProposal hub E sid pid p sigs db c))). prp_id q = pid \<longrightarrow> prp_status q = ''rejected''"
    "\<forall>s \<in> set (swd_sessions (fst (settleProposal hub E sid pid p sigs db c))). ocs_session_id s = sid \<longrightarrow>
       ocs_status s = ''settled'' \<and> ocs_settlement_tx_hash s = Some tx"
    "swd_rated (fst (settleProposal hub E sid pid p sigs db c)) = swd_rated db"
proof -
  define db2 where "db2 = onSession sid (\<lambda>s. s\<lparr>ocs_status := ''settled'', ocs_settlement_tx_hash := Some tx,
    ocs_settled_at := Some (swe_now E)\<rparr>) (unless (swe_fails E MarkConfirmed sid) (onProposals (\<lambda>q. prp_id q = pid) ''confirmed'') db)"
  have e: "fst (settleProposal hub E sid pid p sigs db c) = onProposals (\<lambda>q. prp_id q = pid) ''rejected'' db2"
    using assms by (simp add: settleProposal_def Let_def markRejected_def unless_def db2_def)
  show "\<forall>q \<in> set (swd_proposals (fst (settleProposal hub E sid pid p sigs db c))). prp_id q = pid \<longrightarrow> prp_status q = ''rejected''"
    unfolding e by (simp add: onProposals_def ball_Un)
  show "\<forall>s \<in> set (swd_sessions (fst (settleProposal hub E sid pid p sigs db c))). ocs_session_id s = sid \<longrightarrow>
       ocs_status s = ''settled'' \<and> ocs_settlement_tx_hash s = Some tx"
    unfolding e swd_sessions_onProposals db2_def by (simp add: onSession_def ball_Un)
  show "swd_rated (fst (settleProposal hub E sid pid p sigs db c)) = swd_rated db"
    unfolding e db2_def by (simp add: onProposals_def onSession_def unless_def)
qed

text \<open>When the hub takes the settlement but its receipt cannot be awaited, the session keeps no trace of the transaction and
  stays open to selection.\<close>

lemma lost_receipt_forgets_transaction:
  assumes "\<not> belowMin (length sigs) (minSignatures (swe_env E))"
    "hub_settle hub (toHubSettlementArg (vpr_settlement p)) (vpr_players p) (take 5 sigs) DEFAULT_VERIFIER_POLICY_ID c = (Inr tx, c1)"
    "hub_waitForReceipt hub tx c1 = (False, c2)"
  shows "settleProposal hub E sid pid p sigs db c = (markRejected E sid pid db, c2) \<and>
    swd_sessions (markRejected E sid pid db) = swd_sessions db"
  using assms by (simp add: settleProposal_def submitHubSettlementV3_def)

text \<open>When the number of hands cannot be read, the session is settled as if nobody had played: everybody gets back what they
  locked, whatever their stacks.\<close>

lemma zip_index_map: "map fst (zip xs [0..<length xs]) = xs"
  by simp

lemma unread_hand_count_refunds:
  assumes "srd_dealt (swe_reads E (ocs_session_id s)) = None"
  shows "\<forall>p \<in> set (playersOf L hub E c s). ply_endBalance p = ply_startLocked p"
proof -
  let ?stacks = "loadStacks E s"
  let ?players = "map (playerOfRow True) (zip ?stacks [0..<length ?stacks])"
  let ?locked = "\<lambda>l. applyVaultLocks True l ?players"
  have eq: "\<forall>p \<in> set (?locked l). ply_endBalance p = ply_startLocked p" for l
    by (auto simp: applyVaultLocks_def playerOfRow_def Let_def split: option.splits)
  then have "endingTotal (?locked l) = lockedTotal (?locked l)" for l by (intro arg_cong [where f = sum_list] map_cong) auto
  then have "repairEndingBalancesForVaultLocks (?locked l) d = (False, endingTotal (?locked l), ?locked l)" for l d
    by (simp add: repairEndingBalancesForVaultLocks_def Let_def)
  then show ?thesis using eq assms by (simp add: playersOf_def Let_def noPlayIn_def)
qed

text \<open>A session without a proposal and without a balance root of its own gets a checkpoint whose balance root is the hash of
  its last event, and the next settlement is proposed with that hash as the root of the players' balances.\<close>

lemma padBytes32_length [simp]: "length (padBytes32 s) = 66"
  by (simp add: padBytes32_def padStart_def Let_def)

lemma padBytes32_idem [simp]: "padBytes32 (padBytes32 s) = padBytes32 s"
proof -
  have "strip0x (padBytes32 s) = drop 2 (padBytes32 s)" by (simp add: strip0x_def padBytes32_def Let_def)
  moreover have "padBytes32 s = ''0x'' @ drop 2 (padBytes32 s)" by (simp add: padBytes32_def Let_def)
  ultimately show ?thesis by (subst padBytes32_def) (simp add: padStart_def Let_def)
qed

lemma checkpoint_commits_event_hash:
  assumes "latestProposal db0 (ocs_session_id s) = None" "ocs_last_balance_root s = None" "checkpointOf v now db0 s tip = Inr k"
    "lastCheckpoint db (ocs_session_id s) = Some k" "\<not> swe_fails E ReadCheckpoint (ocs_session_id s)"
    "rootsOf L hub E db c s = Inr roots"
  shows "cpr_balance_root k = cpr_event_root k \<and> rs_balanceRoot roots = padBytes32 (tip_event_hash tip)"
proof -
  have k: "cpr_balance_root k = padBytes32 (tip_event_hash tip)" "cpr_event_root k = padBytes32 (tip_event_hash tip)"
    using assms(1-3) by (auto simp: checkpointOf_def Let_def tipBalanceRoot_def nonEmpty_def split: if_splits)
  have "padBytes32 (tip_event_hash tip) \<noteq> []" by (metis padBytes32_length length_0_conv zero_neq_numeral)
  then have "rs_balanceRoot roots = padBytes32 (cpr_balance_root k)"
    using assms(4-6) k by (auto simp: rootsOf_def Let_def resolveSettlementRoots_def resolveOne_Inr_iff nonEmpty_def
        split: if_splits option.splits)
  then show ?thesis using k by simp
qed

text \<open>A stack of 2.01 is settled as 2009999 atoms.\<close>

lemma stack_loses_an_atom: "stk_stack row = 201 / 100 \<Longrightarrow> ply_endBalance (playerOfRow False (row, i)) = 2009999"
proof -
  assume "stk_stack row = 201 / 100"
  then have "floorAtoms (stk_stack row) = 2009999" using floorAtoms_short by (simp only:)
  then show ?thesis by (simp add: playerOfRow_def Let_def)
qed

section \<open>Checkpoints are inserted once\<close>

lemma emitLoop_inv:
  "emitLoop v now db0 fails rows n db = (r, db') \<Longrightarrow> distinct (map (\<lambda>k. (cpr_session_id k, cpr_sequence k)) (swd_checkpoints db)) \<Longrightarrow>
     distinct (map (\<lambda>k. (cpr_session_id k, cpr_sequence k)) (swd_checkpoints db')) \<and>
     (\<exists>new. swd_checkpoints db' = swd_checkpoints db @ new \<and> (\<forall>m. r = Inr m \<longrightarrow> m = n + length new) \<and>
        (\<forall>k \<in> set new. \<exists>(s, tip) \<in> set rows. checkpointOf v now db0 s tip = Inr k))"
proof (induction v now db0 fails rows n db arbitrary: r db' rule: emitLoop.induct)
  case (2 v now db0 fails s tip rest inserted db)
  show ?case
  proof (cases "checkpointOf v now db0 s tip")
    case (Inl e)
    then show ?thesis using 2(3,4) by auto
  next
    case (Inr k)
    show ?thesis
    proof (cases "fails (ocs_session_id s)")
      case True
      then show ?thesis using 2(1) [OF Inr True _ 2(4)] 2(3) Inr by fastforce
    next
      case False
      define d1 m1 where "d1 = fst (insertCheckpoint k db)" and "m1 = snd (insertCheckpoint k db)"
      have run: "emitLoop v now db0 fails rest (inserted + m1) d1 = (r, db')"
        using 2(3) Inr False by (simp add: d1_def m1_def Let_def)
      have d: "distinct (map (\<lambda>k. (cpr_session_id k, cpr_sequence k)) (swd_checkpoints d1))"
        "swd_checkpoints d1 = swd_checkpoints db \<and> m1 = 0 \<or> swd_checkpoints d1 = swd_checkpoints db @ [k] \<and> m1 = 1"
        using 2(4) by (auto simp: d1_def m1_def insertCheckpoint_def)
      obtain new where n: "distinct (map (\<lambda>k. (cpr_session_id k, cpr_sequence k)) (swd_checkpoints db'))"
        "swd_checkpoints db' = swd_checkpoints d1 @ new" "\<forall>m. r = Inr m \<longrightarrow> m = inserted + m1 + length new"
        "\<forall>k \<in> set new. \<exists>(s, tip) \<in> set rest. checkpointOf v now db0 s tip = Inr k"
        using 2(2) [OF Inr False refl run [unfolded d1_def m1_def] d(1) [unfolded d1_def]] unfolding d1_def m1_def by blast
      from d(2) show ?thesis
      proof
        assume "swd_checkpoints d1 = swd_checkpoints db \<and> m1 = 0"
        then show ?thesis using n by (intro conjI exI [of _ new]) auto
      next
        assume "swd_checkpoints d1 = swd_checkpoints db @ [k] \<and> m1 = 1"
        then show ?thesis using n Inr by (intro conjI exI [of _ "k # new"]) auto
      qed
    qed
  qed
qed auto

text \<open>Emitting checkpoints only appends, keeps the pairs of session and sequence distinct, and counts what it appended.\<close>

lemma checkpoints_once:
  assumes "emitSessionCheckpoints v now tips fails db = (r, db')"
    "distinct (map (\<lambda>k. (cpr_session_id k, cpr_sequence k)) (swd_checkpoints db))"
  shows "distinct (map (\<lambda>k. (cpr_session_id k, cpr_sequence k)) (swd_checkpoints db')) \<and>
    (\<exists>new. swd_checkpoints db' = swd_checkpoints db @ new \<and> (\<forall>m. r = Inr m \<longrightarrow> m = length new))"
  using assms emitLoop_inv [of v now db fails _ 0 db r db'] by (fastforce simp: emitSessionCheckpoints_def split: option.splits)

text \<open>Anchoring changes nothing but transaction hashes, and writes one only after the registry took this session's sequence
  and the receipt arrived.\<close>

definition anchored :: "viem \<Rightarrow> 'c anchor_client \<Rightarrow> CheckpointRow \<Rightarrow> bool" where
  "anchored v reg k \<longleftrightarrow> (\<exists>args tx d d1. cpr_tx_hash k = Some tx \<and> anc_sessionId args = sessionIdToBytes32 v (cpr_session_id k) \<and>
     anc_sequence args = cpr_sequence k \<and> anc_anchor reg args d = (Inr tx, d1) \<and> fst (anc_waitForReceipt reg tx d1))"

definition anchoredFrom :: "viem \<Rightarrow> 'c anchor_client \<Rightarrow> SwDb \<Rightarrow> SwDb \<Rightarrow> bool" where
  "anchoredFrom v reg db0 db \<longleftrightarrow>
     map (\<lambda>k. k\<lparr>cpr_tx_hash := None\<rparr>) (swd_checkpoints db) = map (\<lambda>k. k\<lparr>cpr_tx_hash := None\<rparr>) (swd_checkpoints db0) \<and>
     (\<forall>k \<in> set (swd_checkpoints db). k \<in> set (swd_checkpoints db0) \<or> anchored v reg k)"

lemma anchorArgs_fields:
  assumes "anchorArgs v now row = Inr args"
  shows "anc_sessionId args = sessionIdToBytes32 v (cpr_session_id row)" "anc_sequence args = cpr_sequence row"
  using assms by (cases "keccakEnc v ''bytes32, uint64'' [AHex (sessionIdToBytes32 v (cpr_session_id row)), AInt (cpr_sequence row)]";
    auto simp: anchorArgs_def Let_def)+

lemma setTxHash_anchored:
  assumes inv: "anchoredFrom v reg db0 db" and a: "anchorArgs v now row = Inr args" "anc_anchor reg args d = (Inr tx, d1)"
    "anc_waitForReceipt reg tx d1 = (True, d2)"
  shows "anchoredFrom v reg db0 (setTxHash row tx db)"
proof -
  have "anchored v reg (k\<lparr>cpr_tx_hash := Some tx\<rparr>)" if "cpr_session_id k = cpr_session_id row" "cpr_sequence k = cpr_sequence row" for k
    unfolding anchored_def using a that anchorArgs_fields [OF a(1)] by (intro exI [of _ args] exI [of _ tx] exI [of _ d] exI [of _ d1]) simp
  then show ?thesis
    using inv by (auto simp: anchoredFrom_def setTxHash_def comp_def if_distrib cong: if_cong)
qed

lemma anchorOne_anchored:
  assumes "anchoredFrom v reg db0 (fst dc)"
  shows "anchoredFrom v reg db0 (fst (anchorOne v reg now fails row dc))"
proof (cases "anchorArgs v now row")
  case (Inl e)
  then show ?thesis using assms by (simp add: anchorOne_def)
next
  case (Inr args)
  obtain r c1 where r: "anc_anchor reg args (snd dc) = (r, c1)" by (cases "anc_anchor reg args (snd dc)")
  show ?thesis
  proof (cases r)
    case (Inl e)
    then show ?thesis using assms r Inr by (simp add: anchorOne_def)
  next
    case tx: (Inr tx)
    obtain b c2 where w: "anc_waitForReceipt reg tx c1 = (b, c2)" by (cases "anc_waitForReceipt reg tx c1")
    show ?thesis
      using assms r Inr tx w setTxHash_anchored [OF assms Inr]
      by (cases b) (simp_all add: anchorOne_def unless_def)
  qed
qed

lemma fold_anchored:
  "anchoredFrom v reg db0 (fst dc) \<Longrightarrow> anchoredFrom v reg db0 (fst (fold (anchorOne v reg now fails) rows dc))"
  by (induction rows arbitrary: dc) (simp_all add: anchorOne_anchored)

lemma anchored_only_when_confirmed:
  "anchoredFrom v reg db (fst (anchorCheckpointsOnchain v reg env now selectFails fails db c))"
proof -
  have "anchoredFrom v reg db db" by (simp add: anchoredFrom_def)
  then show ?thesis by (simp add: anchorCheckpointsOnchain_def fold_anchored)
qed

section \<open>An instance\<close>

definition demo_hub :: "unit hub_client" where
  "demo_hub = \<lparr>hub_openedAt = \<lambda>c sid. Some 0, hub_lockedBySession = \<lambda>c sid a. None,
     hub_settle = \<lambda>st ps sigs policy c. (Inr ''0xfeed'', c), hub_waitForReceipt = \<lambda>tx c. (True, c),
     hub_accruedFees = \<lambda>c. Some 0, hub_withdrawFees = \<lambda>fees c. (Inr ''0xfee'', c)\<rparr>"

definition demo_lib :: sw_lib where
  "demo_lib = \<lparr>swl_viem = demo_viem, swl_sha256 = \<lambda>x. x, swl_accounts = demo_accounts, swl_post = \<lambda>url body. None\<rparr>"

definition demo_worker_env :: SwEnv where
  "demo_worker_env = \<lparr>swe_env = [''SETTLEMENT_PRIVATE_KEY'' \<mapsto> ''k'', ''ARENA_VAULT_ADDRESS'' \<mapsto> ''0xva''], swe_now = 1000,
     swe_active = \<lambda>t. False, swe_completed = \<lambda>t. False, swe_hasPlayers = \<lambda>s. True,
     swe_reads = \<lambda>s. \<lparr>srd_stacks = None, srd_canonical = None, srd_handRoot = None, srd_dealt = None\<rparr>, swe_fails = \<lambda>st s. False\<rparr>"

definition demo_session :: "Hex \<Rightarrow> Hex option \<Rightarrow> OnchainSession" where
  "demo_session sid tx = \<lparr>ocs_session_id = sid, ocs_table_id = None, ocs_chain_id = 1, ocs_status = ''settling'', ocs_created_at = 0,
     ocs_settlement_tx_hash = tx, ocs_last_balance_root = None, ocs_settled_at = None\<rparr>"

definition demo_db :: SwDb where
  "demo_db = \<lparr>swd_sessions = [demo_session ''s1'' (Some ''0xold''), demo_session ''s2'' None], swd_proposals = [],
     swd_attestations = [], swd_checkpoints = [], swd_rated = []\<rparr>"


end
