(* ===== verification/Reconciliation.thy ===== *)
theory Reconciliation
  imports Js_Double
begin

text \<open>
  \<^verbatim>\<open>packages/reconciliation/src\<close> and \<^verbatim>\<open>services/reconciliation-worker/src\<close>: the balances of the vault on the chain are
  compared with the open sessions of the database; a critical difference pauses matchmaking and opens an incident. The
  readers of the chain and of the mirrors are arguments, the persistence port is a record of operations over a state, and
  its Postgres implementation works on tables as lists of rows. Evidence and messages are kept as the code writes them, in ASCII.
\<close>

section \<open>Amounts\<close>

datatype recon_error = RpcError string | BadBigInt | ExponentForm | PortError string

text \<open>\<open>abs.toFixed(6)\<close> below \<open>10 ^ 21\<close>; from there on the number is rendered with an exponent, which the code does not
  expect and which is an error of the model.\<close>

definition toFixed6 :: "rat \<Rightarrow> recon_error + string" where
  "toFixed6 q =
     (if 10 ^ 21 \<le> q then Inl ExponentForm
      else let n = nat \<lfloor>q * 1000000 + 1 / 2\<rfloor>
           in Inr (nat_string (n div 1000000) @ ''.'' @ padStart 6 (CHR ''0'') (nat_string (n mod 1000000))))"

definition bigIntOf :: "string \<Rightarrow> recon_error + int" where
  "bigIntOf s = (case parseBigInt s of None \<Rightarrow> Inl BadBigInt | Some i \<Rightarrow> Inr i)"

definition usdcToRaw :: "js_number \<Rightarrow> recon_error + int" where
  "usdcToRaw usdc =
     (case usdc of
        NonFinite \<Rightarrow> Inr 0
      | Finite q \<Rightarrow>
          bindE (toFixed6 \<bar>q\<bar>) (\<lambda>s.
            let whole = takeWhile (\<lambda>c. c \<noteq> CHR ''.'') s; frac = drop 1 (dropWhile (\<lambda>c. c \<noteq> CHR ''.'') s)
            in bindE (bigIntOf whole) (\<lambda>w. bindE (bigIntOf (take 6 (frac @ ''000000''))) (\<lambda>f.
                 Inr ((if q < 0 then -1 else 1) * (w * 1000000 + f))))))"

definition rawToUsdcString :: "int \<Rightarrow> string" where
  "rawToUsdcString raw =
     (let neg = raw < 0; a = (if neg then - raw else raw)
      in (if neg then ''-'' else []) @ int_string (js_div a 1000000) @ ''.'' @
         padStart 6 (CHR ''0'') (int_string (js_rem a 1000000)))"

definition withinTolerance :: "int \<Rightarrow> int \<Rightarrow> int \<Rightarrow> bool" where
  "withinTolerance a b toleranceRaw \<longleftrightarrow> (let d = (if b < a then a - b else b - a) in d \<le> toleranceRaw)"

section \<open>The comparison\<close>

record ChainBalances =
  cb_vaultUsdcBalance :: int
  cb_accruedProtocolFees :: int
  cb_feeVaultUsdcBalance :: "int option"
  cb_feeVaultAccrued :: "int option"

record MirrorBalances =
  mb_openSessionLockedRaw :: int
  mb_mirrorAvailableUsdc :: js_number
  mb_mirrorEscrowUsdc :: js_number

datatype CheckSeverity = Critical | Warning | Info

datatype AutomaticAction = Pause_new_sessions | No_action

datatype evidence_value = EStr string | ENum js_number | EBool bool

record ReconciliationCheck =
  rc_id :: string
  rc_ok :: bool
  rc_severity :: CheckSeverity
  rc_automaticAction :: AutomaticAction
  rc_message :: string
  rc_evidence :: "(string \<times> evidence_value) list"

record ReconciliationReport =
  rep_ok :: bool
  rep_criticalFailure :: bool
  rep_checks :: "ReconciliationCheck list"
  rep_impliedLockedRaw :: int
  rep_lockedSkewRaw :: int

definition raws :: "(string \<times> int) list \<Rightarrow> (string \<times> evidence_value) list" where
  "raws = map (\<lambda>(k, i). (k, EStr (int_string i)))"

definition usdcs :: "(string \<times> int) list \<Rightarrow> (string \<times> evidence_value) list" where
  "usdcs = map (\<lambda>(k, i). (k, EStr (rawToUsdcString i)))"

definition critical :: "string \<Rightarrow> bool \<Rightarrow> string \<Rightarrow> string \<Rightarrow> (string \<times> evidence_value) list \<Rightarrow> ReconciliationCheck" where
  "critical i b good bad ev =
     \<lparr>rc_id = i, rc_ok = b, rc_severity = Critical, rc_automaticAction = (if b then No_action else Pause_new_sessions),
      rc_message = (if b then good else bad), rc_evidence = ev\<rparr>"

definition vaultFeesCheck :: "ChainBalances \<Rightarrow> ReconciliationCheck" where
  "vaultFeesCheck chain =
     critical ''vault_fees_covered'' (cb_accruedProtocolFees chain \<le> cb_vaultUsdcBalance chain)
       ''accruedProtocolFees <= vault USDC balance'' ''accruedProtocolFees exceeds vault USDC balance''
       (raws [(''vaultUsdcBalance'', cb_vaultUsdcBalance chain), (''accruedProtocolFees'', cb_accruedProtocolFees chain)] @
        usdcs [(''vaultUsdc'', cb_vaultUsdcBalance chain), (''accruedFeesUsdc'', cb_accruedProtocolFees chain)])"

definition liabilitiesCheck :: "ChainBalances \<Rightarrow> MirrorBalances \<Rightarrow> int \<Rightarrow> ReconciliationCheck" where
  "liabilitiesCheck chain mirror toleranceRaw =
     (let expected = mb_openSessionLockedRaw mirror + cb_accruedProtocolFees chain;
          skew = cb_vaultUsdcBalance chain - expected
      in critical ''vault_vs_session_liabilities'' (withinTolerance (cb_vaultUsdcBalance chain) expected toleranceRaw)
           ''vault USDC == open-session locked + accruedProtocolFees''
           ''vault USDC diverges from open-session liabilities + accrued fees''
           (raws [(''vaultUsdcBalance'', cb_vaultUsdcBalance chain), (''openSessionLockedRaw'', mb_openSessionLockedRaw mirror),
                  (''accruedProtocolFees'', cb_accruedProtocolFees chain), (''expectedRaw'', expected), (''skewRaw'', skew)] @
            usdcs [(''vaultUsdc'', cb_vaultUsdcBalance chain), (''openSessionLockedUsdc'', mb_openSessionLockedRaw mirror),
                   (''expectedUsdc'', expected), (''skewUsdc'', skew)] @
            raws [(''toleranceRaw'', toleranceRaw)]))"

definition impliedLockedCheck :: "ChainBalances \<Rightarrow> MirrorBalances \<Rightarrow> int \<Rightarrow> ReconciliationCheck" where
  "impliedLockedCheck chain mirror toleranceRaw =
     (let implied = cb_vaultUsdcBalance chain - cb_accruedProtocolFees chain; skew = implied - mb_openSessionLockedRaw mirror
      in critical ''implied_locked_vs_mirror'' (withinTolerance implied (mb_openSessionLockedRaw mirror) toleranceRaw)
           ''implied locked (vault - fees) matches open-session buy-in sum''
           ''implied locked diverges from DB open-session buy-in sum''
           (raws [(''impliedLockedRaw'', implied), (''openSessionLockedRaw'', mb_openSessionLockedRaw mirror), (''lockedSkewRaw'', skew)] @
            usdcs [(''impliedLockedUsdc'', implied), (''openSessionLockedUsdc'', mb_openSessionLockedRaw mirror),
                   (''lockedSkewUsdc'', skew)]))"

definition feeVaultChecks :: "ChainBalances \<Rightarrow> ReconciliationCheck list" where
  "feeVaultChecks chain =
     (case (cb_feeVaultUsdcBalance chain, cb_feeVaultAccrued chain) of
        (Some balance, Some accrued) \<Rightarrow>
          [critical ''fee_vault_accrued_le_balance'' (accrued \<le> balance)
             ''ProtocolFeeVault accruedFees <= USDC balance'' ''ProtocolFeeVault accruedFees exceeds USDC balance''
             (raws [(''feeVaultAccrued'', accrued), (''feeVaultUsdcBalance'', balance)] @
              usdcs [(''feeVaultAccruedUsdc'', accrued), (''feeVaultUsdc'', balance)]),
           \<lparr>rc_id = ''fee_vault_no_stray_principal'', rc_ok = (accrued = balance), rc_severity = Warning,
            rc_automaticAction = No_action,
            rc_message = (if accrued = balance then ''ProtocolFeeVault accruedFees == USDC balance (fee-only)''
                          else ''ProtocolFeeVault USDC != accruedFees (possible donation; investigate, do not mint/patch)''),
            rc_evidence = raws [(''feeVaultAccrued'', accrued), (''feeVaultUsdcBalance'', balance), (''strayRaw'', balance - accrued)]\<rparr>]
      | _ \<Rightarrow>
          [\<lparr>rc_id = ''fee_vault_skipped'', rc_ok = True, rc_severity = Info, rc_automaticAction = No_action,
            rc_message = ''ProtocolFeeVault not configured - fee-vault checks skipped'',
            rc_evidence = [(''feeVaultConfigured'', EBool False)]\<rparr>])"

fun js_add :: "js_number \<Rightarrow> js_number \<Rightarrow> js_number" where
  "js_add (Finite a) (Finite b) = Finite (double (a + b))"
| "js_add _ _ = NonFinite"

definition mirrorCheck :: "MirrorBalances \<Rightarrow> recon_error + ReconciliationCheck" where
  "mirrorCheck mirror =
     bindE (usdcToRaw (mb_mirrorAvailableUsdc mirror)) (\<lambda>available.
     bindE (usdcToRaw (mb_mirrorEscrowUsdc mirror)) (\<lambda>escrow.
       Inr \<lparr>rc_id = ''ledger_mirror_totals'', rc_ok = True, rc_severity = Info, rc_automaticAction = No_action,
            rc_message = ''Indexer ledger mirrors recorded for ops (V2 idle funds live in ArenaAccounts; vault holds locks+fees only)'',
            rc_evidence =
              [(''mirrorAvailableUsdc'', ENum (mb_mirrorAvailableUsdc mirror)), (''mirrorEscrowUsdc'', ENum (mb_mirrorEscrowUsdc mirror)),
               (''mirrorTotalUsdc'', ENum (js_add (mb_mirrorAvailableUsdc mirror) (mb_mirrorEscrowUsdc mirror)))] @
              raws [(''mirrorAvailableRaw'', available), (''mirrorEscrowRaw'', escrow)]\<rparr>))"

definition criticalFail :: "ReconciliationCheck \<Rightarrow> bool" where
  "criticalFail c \<longleftrightarrow> \<not> rc_ok c \<and> rc_severity c = Critical"

definition compareBalances :: "ChainBalances \<Rightarrow> MirrorBalances \<Rightarrow> int \<Rightarrow> recon_error + ReconciliationReport" where
  "compareBalances chain mirror toleranceRaw =
     bindE (mirrorCheck mirror) (\<lambda>m.
       let checks = [vaultFeesCheck chain, liabilitiesCheck chain mirror toleranceRaw, impliedLockedCheck chain mirror toleranceRaw] @
             feeVaultChecks chain @ [m];
           criticalFailure = list_ex criticalFail checks;
           implied = cb_vaultUsdcBalance chain - cb_accruedProtocolFees chain
       in Inr \<lparr>rep_ok = \<not> criticalFailure, rep_criticalFailure = criticalFailure, rep_checks = checks,
               rep_impliedLockedRaw = implied, rep_lockedSkewRaw = implied - mb_openSessionLockedRaw mirror\<rparr>)"

section \<open>The pause signal\<close>

definition PAUSE_FEATURE_FLAG :: string where
  "PAUSE_FEATURE_FLAG = ''onchain_matchmaking''"

type_synonym check_summary = "string \<times> CheckSeverity \<times> string \<times> (string \<times> evidence_value) list"

definition summarizeChecks_rec :: "ReconciliationCheck list \<Rightarrow> check_summary list" where
  "summarizeChecks_rec = map (\<lambda>c. (rc_id c, rc_severity c, rc_message c, rc_evidence c))"

record IncidentDetail =
  idt_reason :: string
  idt_chainId :: int
  idt_runId :: "string option"
  idt_impliedLockedRaw :: string
  idt_lockedSkewRaw :: string
  idt_failedCheckIds :: "string list"
  idt_checks :: "check_summary list"
  idt_opsNote :: string

record PauseSignal =
  ps_reason :: string
  ps_featureFlagKeys :: "string list"
  ps_incidentTitle :: string
  ps_incidentDetail :: IncidentDetail
  ps_failedChecks :: "ReconciliationCheck list"

definition buildPauseSignal :: "ReconciliationReport \<Rightarrow> int \<Rightarrow> string option \<Rightarrow> PauseSignal option" where
  "buildPauseSignal report chainId runId =
     (if \<not> rep_criticalFailure report then None
      else let failedChecks = filter criticalFail (rep_checks report)
           in Some \<lparr>ps_reason = ''reconciliation_failed'', ps_featureFlagKeys = [PAUSE_FEATURE_FLAG],
                ps_incidentTitle = ''Vault reconciliation failed (chain '' @ int_string chainId @ '')'',
                ps_incidentDetail =
                  \<lparr>idt_reason = ''reconciliation_failed'', idt_chainId = chainId, idt_runId = runId,
                   idt_impliedLockedRaw = int_string (rep_impliedLockedRaw report),
                   idt_lockedSkewRaw = int_string (rep_lockedSkewRaw report),
                   idt_failedCheckIds = map rc_id failedChecks, idt_checks = summarizeChecks_rec failedChecks,
                   idt_opsNote = ''New sessions paused via feature_flags.onchain_matchmaking=false. Do not mint or manually patch balances. Investigate chain vs mirrors, then re-enable only after a clean reconcile run.''\<rparr>,
                ps_failedChecks = failedChecks\<rparr>)"

datatype force_env = ForceBool bool | ForceStr string

definition shouldAutoPause :: "string \<Rightarrow> force_env option \<Rightarrow> bool" where
  "shouldAutoPause env forceEnv =
     (if forceEnv \<in> {Some (ForceBool True), Some (ForceStr ''1''), Some (ForceStr ''true'')} then True
      else if forceEnv \<in> {Some (ForceBool False), Some (ForceStr ''0''), Some (ForceStr ''false'')} then False
      else js_lower env \<in> {''base'', ''base-sepolia'', ''mainnet''})"

section \<open>Readers\<close>

record ChainReader =
  cr_readVaultUsdcBalance :: "recon_error + int"
  cr_readAccruedProtocolFees :: "recon_error + int"
  cr_readFeeVaultUsdcBalance :: "recon_error + int option"
  cr_readFeeVaultAccrued :: "recon_error + int option"

text \<open>\<open>readContract\<close> of the client, by address and function.\<close>

type_synonym read_contract = "Hex \<Rightarrow> string \<Rightarrow> recon_error + int"

definition createViemChainReader :: "read_contract \<Rightarrow> Hex \<Rightarrow> Hex option \<Rightarrow> ChainReader" where
  "createViemChainReader readContract vault feeVault =
     (let fee = (\<lambda>f. case feeVault of
                       Some (c # cs) \<Rightarrow> bindE (readContract (c # cs) f) (\<lambda>i. Inr (Some i))
                     | _ \<Rightarrow> Inr None)
      in \<lparr>cr_readVaultUsdcBalance = readContract vault ''usdcBalance'',
          cr_readAccruedProtocolFees = (case readContract vault ''accruedProtocolFees'' of Inl _ \<Rightarrow> Inr 0 | Inr i \<Rightarrow> Inr i),
          cr_readFeeVaultUsdcBalance = fee ''usdcBalance'', cr_readFeeVaultAccrued = fee ''accruedFees''\<rparr>)"

text \<open>\<open>Promise.all\<close> of the reads; the error of a failing one is what counts.\<close>

definition fetchChainBalances :: "ChainReader \<Rightarrow> recon_error + ChainBalances" where
  "fetchChainBalances r =
     bindE (cr_readVaultUsdcBalance r) (\<lambda>v. bindE (cr_readAccruedProtocolFees r) (\<lambda>a.
     bindE (cr_readFeeVaultUsdcBalance r) (\<lambda>fb. bindE (cr_readFeeVaultAccrued r) (\<lambda>fa.
       Inr \<lparr>cb_vaultUsdcBalance = v, cb_accruedProtocolFees = a, cb_feeVaultUsdcBalance = fb, cb_feeVaultAccrued = fa\<rparr>))))"

record MirrorReader =
  mr_readOpenSessionLockedRaw :: "int \<Rightarrow> recon_error + int"
  mr_readLedgerMirrors :: "recon_error + js_number \<times> js_number"

definition fetchMirrorBalances :: "MirrorReader \<Rightarrow> int \<Rightarrow> recon_error + MirrorBalances" where
  "fetchMirrorBalances r chainId =
     bindE (mr_readOpenSessionLockedRaw r chainId) (\<lambda>l. bindE (mr_readLedgerMirrors r) (\<lambda>(a, e).
       Inr \<lparr>mb_openSessionLockedRaw = l, mb_mirrorAvailableUsdc = a, mb_mirrorEscrowUsdc = e\<rparr>))"

text \<open>The mirrors of the database: the buy-ins of the open sessions of a chain, and the sums of the entries of the on-chain
  ledger accounts by kind.\<close>

record MirrorTables =
  mt_sessions :: "(Hex \<times> int \<times> string) list"
  mt_players :: "(Hex \<times> int) list"
  mt_accounts :: "(nat \<times> string \<times> string) list"
  mt_entries :: "(nat \<times> rat) list"

definition openLocked :: "MirrorTables \<Rightarrow> int \<Rightarrow> int" where
  "openLocked t chainId =
     sum_list (concat (map (\<lambda>(sid, buyIn). map (\<lambda>_. buyIn)
       (filter (\<lambda>(sid', chain, st). sid' = sid \<and> chain = chainId \<and> st \<in> {''pending'', ''opened'', ''playing'', ''settling''})
          (mt_sessions t))) (mt_players t)))"

definition kindSum :: "MirrorTables \<Rightarrow> string \<Rightarrow> rat" where
  "kindSum t kind =
     sum_list (concat (map (\<lambda>(i, mode, k). map snd (filter (\<lambda>(j, amount). j = i) (mt_entries t)))
       (filter (\<lambda>(i, mode, k). mode = ''onchain'' \<and> k = kind) (mt_accounts t))))"

definition createDbMirrorReader :: "MirrorTables \<Rightarrow> MirrorReader" where
  "createDbMirrorReader t =
     \<lparr>mr_readOpenSessionLockedRaw = (\<lambda>chainId. Inr (openLocked t chainId)),
      mr_readLedgerMirrors =
        Inr (Finite (double (kindSum t ''user_available'')), Finite (double (kindSum t ''user_table_escrow'')))\<rparr>"

section \<open>A run\<close>

record SnapshotArgs =
  sna_chainId :: int
  sna_tokenBalanceRaw :: string
  sna_mirrorAvailableSum :: js_number
  sna_mirrorEscrowSum :: js_number
  sna_differenceUsdc :: js_number
  sna_ok :: bool

definition snapshotArgsFromReport :: "int \<Rightarrow> int \<Rightarrow> js_number \<Rightarrow> js_number \<Rightarrow> ReconciliationReport \<Rightarrow> SnapshotArgs" where
  "snapshotArgsFromReport chainId vaultUsdcBalance available escrow report =
     \<lparr>sna_chainId = chainId, sna_tokenBalanceRaw = int_string vaultUsdcBalance, sna_mirrorAvailableSum = available,
      sna_mirrorEscrowSum = escrow, sna_differenceUsdc = js_Number (rawToUsdcString (rep_lockedSkewRaw report)), sna_ok = rep_ok report\<rparr>"

datatype RunDetail =
    RunReport ReconciliationReport bool bool ChainBalances MirrorBalances "check_summary list"
  | RunError recon_error

text \<open>The persistence port: an operation gives its outcome and the state it leaves.\<close>

record 'd PersistPort =
  pp_beginRun :: "int \<Rightarrow> 'd \<Rightarrow> (recon_error + string) \<times> 'd"
  pp_finishRun :: "string \<Rightarrow> bool \<Rightarrow> RunDetail \<Rightarrow> 'd \<Rightarrow> (recon_error + unit) \<times> 'd"
  pp_writeSnapshot :: "SnapshotArgs \<Rightarrow> 'd \<Rightarrow> (recon_error + unit) \<times> 'd"
  pp_writeDifferences :: "string \<Rightarrow> int \<Rightarrow> ReconciliationReport \<Rightarrow> 'd \<Rightarrow> (recon_error + unit) \<times> 'd"
  pp_applyPause :: "PauseSignal \<Rightarrow> 'd \<Rightarrow> (recon_error + unit) \<times> 'd"

text \<open>\<open>await\<close> in sequence: an error skips what follows.\<close>

definition andThen :: "(recon_error + 'a) \<times> 'd \<Rightarrow> ('a \<Rightarrow> 'd \<Rightarrow> (recon_error + 'b) \<times> 'd) \<Rightarrow> (recon_error + 'b) \<times> 'd" where
  "andThen m f = (case m of (Inl e, d) \<Rightarrow> (Inl e, d) | (Inr x, d) \<Rightarrow> f x d)"

record ReconcileResult =
  res_runId :: string
  res_report :: ReconciliationReport
  res_paused :: bool

definition reconcileBody ::
  "'d PersistPort \<Rightarrow> int \<Rightarrow> ChainReader \<Rightarrow> MirrorReader \<Rightarrow> int \<Rightarrow> bool \<Rightarrow> string \<Rightarrow> 'd \<Rightarrow> (recon_error + ReconcileResult) \<times> 'd" where
  "reconcileBody port chainId chain mirrors toleranceRaw autoPause runId d =
     (case bindE (fetchChainBalances chain) (\<lambda>cb. bindE (fetchMirrorBalances mirrors chainId) (\<lambda>mb.
             bindE (compareBalances cb mb toleranceRaw) (\<lambda>report. Inr (cb, mb, report)))) of
        Inl e \<Rightarrow> (Inl e, d)
      | Inr (cb, mb, report) \<Rightarrow>
          andThen (pp_writeSnapshot port (snapshotArgsFromReport chainId (cb_vaultUsdcBalance cb) (mb_mirrorAvailableUsdc mb)
                     (mb_mirrorEscrowUsdc mb) report) d) (\<lambda>_ d.
          andThen (pp_writeDifferences port runId chainId report d) (\<lambda>_ d.
          andThen (case buildPauseSignal report chainId (Some runId) of
                     Some signal \<Rightarrow> if autoPause then andThen (pp_applyPause port signal d) (\<lambda>_ d. (Inr True, d)) else (Inr False, d)
                   | None \<Rightarrow> (Inr False, d)) (\<lambda>paused d.
          andThen (pp_finishRun port runId (rep_ok report)
                     (RunReport report paused autoPause cb mb (summarizeChecks_rec (rep_checks report))) d) (\<lambda>_ d.
            (Inr \<lparr>res_runId = runId, res_report = report, res_paused = paused\<rparr>, d))))))"

definition runReconciliation ::
  "'d PersistPort \<Rightarrow> int \<Rightarrow> ChainReader \<Rightarrow> MirrorReader \<Rightarrow> int option \<Rightarrow> bool option \<Rightarrow> 'd \<Rightarrow> (recon_error + ReconcileResult) \<times> 'd" where
  "runReconciliation port chainId chain mirrors toleranceRaw autoPause d =
     andThen (pp_beginRun port chainId d) (\<lambda>runId d.
       case reconcileBody port chainId chain mirrors (orElse toleranceRaw 0) (orElse autoPause False) runId d of
         (Inr r, d) \<Rightarrow> (Inr r, d)
       | (Inl e, d) \<Rightarrow> (Inl e, snd (pp_finishRun port runId False (RunError e) d)))"

section \<open>The Postgres port\<close>

record RunRow =
  rrw_id :: string
  rrw_chain_id :: int
  rrw_ok :: "bool option"
  rrw_detail :: "RunDetail option"

record DifferenceRow =
  dfr_run_id :: string
  dfr_chain_id :: int
  dfr_check :: ReconciliationCheck
  dfr_status :: string

record FlagRow =
  ffr_enabled :: bool
  ffr_meta :: "string \<rightharpoonup> string"
  ffr_updated_at :: int

record IncidentRow =
  inc_severity :: string
  inc_title :: string
  inc_detail :: IncidentDetail
  inc_status :: string

record ReconDb =
  rdb_runs :: "RunRow list"
  rdb_snapshots :: "SnapshotArgs list"
  rdb_differences :: "DifferenceRow list"
  rdb_flags :: "string \<rightharpoonup> FlagRow"
  rdb_incidents :: "IncidentRow list"

text \<open>The checks that are written as differences: failures, and warnings even when they passed.\<close>

definition persisted :: "ReconciliationCheck \<Rightarrow> bool" where
  "persisted c \<longleftrightarrow>
     \<not> (rc_ok c \<and> rc_severity c = Info) \<and> \<not> (rc_ok c \<and> rc_id c = ''fee_vault_skipped'') \<and> \<not> (rc_ok c \<and> rc_severity c \<noteq> Warning)"

definition disableFlag :: "int \<Rightarrow> (string \<rightharpoonup> string) \<Rightarrow> FlagRow \<Rightarrow> FlagRow" where
  "disableFlag now meta row = row\<lparr>ffr_enabled := False, ffr_updated_at := now, ffr_meta := ffr_meta row ++ meta\<rparr>"

definition applyPauseDb :: "int \<Rightarrow> string \<Rightarrow> PauseSignal \<Rightarrow> ReconDb \<Rightarrow> ReconDb" where
  "applyPauseDb now isoNow signal d =
     (let update = (\<lambda>m key. case m key of
                      None \<Rightarrow> m
                    | Some row \<Rightarrow> m(key \<mapsto> disableFlag now [''reason'' \<mapsto> ps_reason signal, ''pausedAt'' \<mapsto> isoNow,
                                     ''incidentTitle'' \<mapsto> ps_incidentTitle signal] row));
          flags1 = foldl update (rdb_flags d) (ps_featureFlagKeys signal);
          note = [''reason'' \<mapsto> ps_reason signal, ''note'' \<mapsto> ''disabled automatically on reconciliation failure''];
          flags2 = flags1(PAUSE_FEATURE_FLAG \<mapsto>
                     (case flags1 PAUSE_FEATURE_FLAG of
                        None \<Rightarrow> \<lparr>ffr_enabled = False, ffr_meta = note, ffr_updated_at = now\<rparr>
                      | Some row \<Rightarrow> disableFlag now note row))
      in d\<lparr>rdb_flags := flags2,
           rdb_incidents := rdb_incidents d @
             [\<lparr>inc_severity = ''critical'', inc_title = ps_incidentTitle signal, inc_detail = ps_incidentDetail signal,
               inc_status = ''open''\<rparr>]\<rparr>)"

text \<open>\<open>freshId\<close> gives the identifier of the next run; \<open>now\<close> and \<open>isoNow\<close> are the clock.\<close>

definition createDbPersistPort :: "(nat \<Rightarrow> string) \<Rightarrow> int \<Rightarrow> string \<Rightarrow> ReconDb PersistPort" where
  "createDbPersistPort freshId now isoNow =
     \<lparr>pp_beginRun = (\<lambda>chainId d.
        let i = freshId (length (rdb_runs d));
            d' = d\<lparr>rdb_runs := rdb_runs d @ [\<lparr>rrw_id = i, rrw_chain_id = chainId, rrw_ok = None, rrw_detail = None\<rparr>]\<rparr>
        in (if i = [] then Inl (PortError ''failed to insert reconciliation_runs'') else Inr i, d')),
      pp_finishRun = (\<lambda>runId b detail d.
        (Inr (), d\<lparr>rdb_runs := map (\<lambda>r. if rrw_id r = runId then r\<lparr>rrw_ok := Some b, rrw_detail := Some detail\<rparr> else r) (rdb_runs d)\<rparr>)),
      pp_writeSnapshot = (\<lambda>args d. (Inr (), d\<lparr>rdb_snapshots := rdb_snapshots d @ [args]\<rparr>)),
      pp_writeDifferences = (\<lambda>runId chainId report d.
        (Inr (), d\<lparr>rdb_differences := rdb_differences d @
           map (\<lambda>c. \<lparr>dfr_run_id = runId, dfr_chain_id = chainId, dfr_check = c, dfr_status = ''open''\<rparr>)
             (filter persisted (rep_checks report))\<rparr>)),
      pp_applyPause = (\<lambda>signal d. (Inr (), applyPauseDb now isoNow signal d))\<rparr>"

section \<open>For the operators\<close>

record SerializedBalances =
  szb_vaultUsdcBalance :: "string \<times> string"
  szb_accruedProtocolFees :: "string \<times> string"
  szb_feeVaultUsdcBalance :: "(string \<times> string) option"
  szb_feeVaultAccrued :: "(string \<times> string) option"

definition serializeChainBalances :: "ChainBalances \<Rightarrow> SerializedBalances" where
  "serializeChainBalances chain =
     (let both = (\<lambda>i. (int_string i, rawToUsdcString i))
      in \<lparr>szb_vaultUsdcBalance = both (cb_vaultUsdcBalance chain), szb_accruedProtocolFees = both (cb_accruedProtocolFees chain),
          szb_feeVaultUsdcBalance = map_option both (cb_feeVaultUsdcBalance chain),
          szb_feeVaultAccrued = map_option both (cb_feeVaultAccrued chain)\<rparr>)"

record SerializedReport =
  szr_ok :: bool
  szr_criticalFailure :: bool
  szr_impliedLocked :: "string \<times> string"
  szr_lockedSkew :: "string \<times> string"
  szr_checks :: "ReconciliationCheck list"

definition serializeReport :: "ReconciliationReport \<Rightarrow> SerializedReport" where
  "serializeReport r =
     \<lparr>szr_ok = rep_ok r, szr_criticalFailure = rep_criticalFailure r,
      szr_impliedLocked = (int_string (rep_impliedLockedRaw r), rawToUsdcString (rep_impliedLockedRaw r)),
      szr_lockedSkew = (int_string (rep_lockedSkewRaw r), rawToUsdcString (rep_lockedSkewRaw r)), szr_checks = rep_checks r\<rparr>"

datatype solvency = PROTOCOL_SOLVENT | PROTOCOL_INSOLVENT | UNAVAILABLE

definition solvencyStatusLabel :: "bool option \<Rightarrow> bool \<Rightarrow> string option \<Rightarrow> solvency" where
  "solvencyStatusLabel liveOk criticalFailure rpcError =
     (if rpcError \<noteq> None \<and> rpcError \<noteq> Some [] \<or> liveOk = None then UNAVAILABLE
      else if criticalFailure \<or> liveOk = Some False then PROTOCOL_INSOLVENT
      else PROTOCOL_SOLVENT)"

text \<open>The worker's health after a tick, and the status of its health endpoint.\<close>

record HealthState =
  hst_ok :: bool
  hst_lastRunId :: "string option"
  hst_lastOk :: "bool option"
  hst_lastPaused :: "bool option"
  hst_lastError :: "recon_error option"
  hst_chainId :: "int option"

definition initialHealth :: HealthState where
  "initialHealth = \<lparr>hst_ok = True, hst_lastRunId = None, hst_lastOk = None, hst_lastPaused = None, hst_lastError = None, hst_chainId = None\<rparr>"

definition tickHealth :: "int \<Rightarrow> recon_error + ReconcileResult \<Rightarrow> HealthState \<Rightarrow> HealthState" where
  "tickHealth chainId result h =
     (case result of
        Inr r \<Rightarrow> \<lparr>hst_ok = rep_ok (res_report r), hst_lastRunId = Some (res_runId r), hst_lastOk = Some (rep_ok (res_report r)),
                  hst_lastPaused = Some (res_paused r), hst_lastError = None, hst_chainId = Some chainId\<rparr>
      | Inl e \<Rightarrow> h\<lparr>hst_ok := False, hst_lastError := Some e\<rparr>)"

definition healthStatusCode :: "HealthState \<Rightarrow> int" where
  "healthStatusCode h = (if hst_lastOk h = Some False then 503 else 200)"

section \<open>The verdict\<close>

lemma compareBalances_InrE:
  assumes "compareBalances chain mirror tol = Inr r"
  obtains m where "mirrorCheck mirror = Inr m" "rc_ok m" "rc_severity m = Info"
    "rep_checks r = [vaultFeesCheck chain, liabilitiesCheck chain mirror tol, impliedLockedCheck chain mirror tol] @ feeVaultChecks chain @ [m]"
    "rep_criticalFailure r = list_ex criticalFail (rep_checks r)" "rep_ok r = (\<not> rep_criticalFailure r)"
    "rep_impliedLockedRaw r = cb_vaultUsdcBalance chain - cb_accruedProtocolFees chain"
    "rep_lockedSkewRaw r = rep_impliedLockedRaw r - mb_openSessionLockedRaw mirror"
  using assms by (auto simp: compareBalances_def mirrorCheck_def Let_def)

definition solvent :: "ChainBalances \<Rightarrow> MirrorBalances \<Rightarrow> int \<Rightarrow> bool" where
  "solvent chain mirror tol \<longleftrightarrow>
     cb_accruedProtocolFees chain \<le> cb_vaultUsdcBalance chain \<and>
     \<bar>cb_vaultUsdcBalance chain - (mb_openSessionLockedRaw mirror + cb_accruedProtocolFees chain)\<bar> \<le> tol \<and>
     (\<forall>balance accrued. cb_feeVaultUsdcBalance chain = Some balance \<and> cb_feeVaultAccrued chain = Some accrued \<longrightarrow> accrued \<le> balance)"

lemma criticalFail_critical [simp]: "criticalFail (critical i b g n ev) \<longleftrightarrow> \<not> b"
  by (simp add: criticalFail_def critical_def)

lemma rc_action_critical [simp]: "rc_automaticAction (critical i b g n ev) = (if b then No_action else Pause_new_sessions)"
  by (simp add: critical_def)

lemma feeVaultChecks_fail:
  assumes "c \<in> set (feeVaultChecks chain)" "criticalFail c"
  obtains balance accrued where "cb_feeVaultUsdcBalance chain = Some balance" "cb_feeVaultAccrued chain = Some accrued"
    "balance < accrued" "rc_automaticAction c = Pause_new_sessions"
proof (cases "cb_feeVaultUsdcBalance chain")
  case None
  then show ?thesis using assms by (simp add: feeVaultChecks_def criticalFail_def)
next
  case (Some balance)
  note b = this
  show ?thesis
  proof (cases "cb_feeVaultAccrued chain")
    case None
    then show ?thesis using assms b by (simp add: feeVaultChecks_def criticalFail_def)
  next
    case (Some accrued)
    from assms(1) b Some have "c = hd (feeVaultChecks chain) \<or> rc_severity c = Warning"
      by (auto simp: feeVaultChecks_def)
    with assms(2) have c: "c = hd (feeVaultChecks chain)" by (auto simp: criticalFail_def)
    have "\<not> accrued \<le> balance" using assms(2) b Some unfolding c by (simp add: feeVaultChecks_def)
    moreover from this have "rc_automaticAction c = Pause_new_sessions"
      unfolding c using b Some by (simp add: feeVaultChecks_def)
    ultimately show ?thesis using that b Some by simp
  qed
qed

lemma feeVaultChecks_critical:
  assumes "cb_feeVaultUsdcBalance chain = Some balance" "cb_feeVaultAccrued chain = Some accrued" "balance < accrued"
  shows "\<exists>c \<in> set (feeVaultChecks chain). criticalFail c"
  using assms by (simp add: feeVaultChecks_def)

lemma withinTolerance_abs: "withinTolerance a b t \<longleftrightarrow> \<bar>a - b\<bar> \<le> t"
  by (auto simp: withinTolerance_def Let_def)

lemma critical_iff:
  assumes "compareBalances chain mirror tol = Inr r"
  shows "rep_criticalFailure r \<longleftrightarrow> \<not> solvent chain mirror tol"
proof -
  have i: "\<bar>cb_vaultUsdcBalance chain - cb_accruedProtocolFees chain - mb_openSessionLockedRaw mirror\<bar> =
      \<bar>cb_vaultUsdcBalance chain - (mb_openSessionLockedRaw mirror + cb_accruedProtocolFees chain)\<bar>"
    by (simp add: algebra_simps)
  have f: "list_ex criticalFail (feeVaultChecks chain) \<longleftrightarrow>
      \<not> (\<forall>balance accrued. cb_feeVaultUsdcBalance chain = Some balance \<and> cb_feeVaultAccrued chain = Some accrued \<longrightarrow> accrued \<le> balance)"
  proof
    assume "list_ex criticalFail (feeVaultChecks chain)"
    then obtain c where "c \<in> set (feeVaultChecks chain)" "criticalFail c" by (auto simp: list_ex_iff)
    then obtain balance accrued where "cb_feeVaultUsdcBalance chain = Some balance" "cb_feeVaultAccrued chain = Some accrued"
      "balance < accrued" by (rule feeVaultChecks_fail)
    then show "\<not> (\<forall>balance accrued. cb_feeVaultUsdcBalance chain = Some balance \<and> cb_feeVaultAccrued chain = Some accrued \<longrightarrow> accrued \<le> balance)"
      by auto
  next
    assume "\<not> (\<forall>balance accrued. cb_feeVaultUsdcBalance chain = Some balance \<and> cb_feeVaultAccrued chain = Some accrued \<longrightarrow> accrued \<le> balance)"
    then obtain balance accrued where "cb_feeVaultUsdcBalance chain = Some balance" "cb_feeVaultAccrued chain = Some accrued"
      "balance < accrued" by (auto simp: not_le)
    then show "list_ex criticalFail (feeVaultChecks chain)" using feeVaultChecks_critical by (auto simp: list_ex_iff)
  qed
  show ?thesis
    using assms
  proof (rule compareBalances_InrE)
    fix m
    assume m: "rc_ok m" "rep_criticalFailure r = list_ex criticalFail (rep_checks r)"
      "rep_checks r = [vaultFeesCheck chain, liabilitiesCheck chain mirror tol, impliedLockedCheck chain mirror tol] @ feeVaultChecks chain @ [m]"
    have "\<not> criticalFail m" using m(1) by (simp add: criticalFail_def)
    then show ?thesis
      unfolding m(2,3) solvent_def
      by (auto simp: f i vaultFeesCheck_def liabilitiesCheck_def impliedLockedCheck_def Let_def withinTolerance_abs)
  qed
qed

text \<open>C39: The verdict is exactly solvency. A comparison reports a critical failure if and only if the accrued fees exceed the
  vault's balance, the balance is further than the tolerance from the open sessions' locks plus the fees, or the fee vault
  has accrued more than it holds; a pause signal exists in exactly these cases and names exactly the failed critical
  checks, each of which asks for a pause; and the operators' label is INSOLVENT exactly then when the chain could be read.\<close>

theorem verdict_is_solvency:
  assumes "compareBalances chain mirror tol = Inr r"
  shows "(rep_ok r \<longleftrightarrow> solvent chain mirror tol) \<and> (rep_criticalFailure r \<longleftrightarrow> \<not> rep_ok r) \<and>
    (buildPauseSignal r chainId runId = None \<longleftrightarrow> solvent chain mirror tol) \<and>
    (\<forall>s. buildPauseSignal r chainId runId = Some s \<longrightarrow>
       ps_failedChecks s \<noteq> [] \<and> (\<forall>c. c \<in> set (ps_failedChecks s) \<longleftrightarrow> c \<in> set (rep_checks r) \<and> criticalFail c) \<and>
       (\<forall>c \<in> set (ps_failedChecks s). rc_automaticAction c = Pause_new_sessions) \<and>
       idt_failedCheckIds (ps_incidentDetail s) = map rc_id (ps_failedChecks s)) \<and>
    solvencyStatusLabel (Some (rep_ok r)) (rep_criticalFailure r) None =
      (if solvent chain mirror tol then PROTOCOL_SOLVENT else PROTOCOL_INSOLVENT)"
proof -
  note c = critical_iff [OF assms]
  obtain m where m: "rc_ok m" "rep_ok r = (\<not> rep_criticalFailure r)" "rep_criticalFailure r = list_ex criticalFail (rep_checks r)"
    "rep_checks r = [vaultFeesCheck chain, liabilitiesCheck chain mirror tol, impliedLockedCheck chain mirror tol] @ feeVaultChecks chain @ [m]"
    using assms by (rule compareBalances_InrE)
  have act: "rc_automaticAction k = Pause_new_sessions" if k: "k \<in> set (rep_checks r)" and f: "criticalFail k" for k
  proof (cases "k \<in> set (feeVaultChecks chain)")
    case True
    then show ?thesis using f by (rule feeVaultChecks_fail)
  next
    case False
    have "\<not> criticalFail m" using m(1) by (simp add: criticalFail_def)
    with False k f consider "k = vaultFeesCheck chain" | "k = liabilitiesCheck chain mirror tol" | "k = impliedLockedCheck chain mirror tol"
      unfolding m(4) by auto
    then show ?thesis using f by cases (simp_all add: vaultFeesCheck_def liabilitiesCheck_def impliedLockedCheck_def Let_def)
  qed
  have ne: "filter criticalFail (rep_checks r) \<noteq> []" if "rep_criticalFailure r"
    using that m(3) by (auto simp: list_ex_iff filter_empty_conv)
  show ?thesis
    using c m(2) act ne by (auto simp: buildPauseSignal_def Let_def solvencyStatusLabel_def)
qed

definition solventChain :: ChainBalances where
  "solventChain = \<lparr>cb_vaultUsdcBalance = 25000000, cb_accruedProtocolFees = 5000000, cb_feeVaultUsdcBalance = Some 7,
     cb_feeVaultAccrued = Some 7\<rparr>"

definition openMirror :: MirrorBalances where
  "openMirror = \<lparr>mb_openSessionLockedRaw = 20000000, mb_mirrorAvailableUsdc = Finite 0, mb_mirrorEscrowUsdc = Finite 0\<rparr>"

lemma zero_fixed: "toFixed6 0 = Inr ''0.000000''"
proof -
  have n: "nat_string 0 @ ''.'' @ padStart 6 (CHR ''0'') (nat_string 0) = ''0.000000''" by code_simp
  have "nat \<lfloor>(0 :: rat) * 1000000 + 1 / 2\<rfloor> = 0" by simp
  then show ?thesis using n by (simp add: toFixed6_def Let_def)
qed

lemma usdcToRaw_zero [simp]: "usdcToRaw (Finite 0) = Inr 0"
proof -
  have "bigIntOf ''0'' = Inr 0" "bigIntOf ''000000'' = Inr 0" by code_simp+
  then show ?thesis by (simp add: usdcToRaw_def zero_fixed Let_def)
qed

lemma example_mirrorCheck: "\<exists>m. mirrorCheck openMirror = Inr m"
  by (simp add: mirrorCheck_def openMirror_def)

lemma example_compare: "\<exists>r. compareBalances chain openMirror tol = Inr r"
  using example_mirrorCheck by (auto simp: compareBalances_def Let_def)

lemma solventChain_solvent: "solvent solventChain openMirror 0"
  by (simp add: solvent_def solventChain_def openMirror_def)

theorem verdict_is_solvency_witness:
  "\<exists>r. compareBalances solventChain openMirror 0 = Inr r \<and> rep_ok r"
  using example_compare [of solventChain 0] verdict_is_solvency [of solventChain openMirror 0] solventChain_solvent by blast

section \<open>What a run does to the matchmaking flag\<close>

text \<open>What the runner relies on: only the pause changes the gate, and a pause that reports success has closed it.\<close>

locale pause_port =
  fixes port :: "'d PersistPort" and gate :: "'d \<Rightarrow> 'g" and closed :: "'g \<Rightarrow> bool"
  assumes begin_keeps: "gate (snd (pp_beginRun port chainId d)) = gate d"
    and finish_keeps: "gate (snd (pp_finishRun port runId b detail d)) = gate d"
    and snapshot_keeps: "gate (snd (pp_writeSnapshot port args d)) = gate d"
    and differences_keeps: "gate (snd (pp_writeDifferences port runId chainId report d)) = gate d"
    and pause_closes: "pp_applyPause port signal d = (Inr (), d') \<Longrightarrow> closed (gate d')"
begin

lemma body_gate:
  assumes "reconcileBody port chainId chain mirrors tol ap runId d = (Inr r, d')"
  obtains cb mb where "fetchChainBalances chain = Inr cb" "fetchMirrorBalances mirrors chainId = Inr mb"
    "compareBalances cb mb tol = Inr (res_report r)" "res_runId r = runId"
    "res_paused r \<longleftrightarrow> ap \<and> rep_criticalFailure (res_report r)"
    "if res_paused r then closed (gate d') else gate d' = gate d"
proof -
  obtain cb where cb: "fetchChainBalances chain = Inr cb"
    using assms by (cases "fetchChainBalances chain") (auto simp: reconcileBody_def)
  obtain mb where mb: "fetchMirrorBalances mirrors chainId = Inr mb"
    using assms cb by (cases "fetchMirrorBalances mirrors chainId") (auto simp: reconcileBody_def)
  obtain rep where rep: "compareBalances cb mb tol = Inr rep"
    using assms cb mb by (cases "compareBalances cb mb tol") (auto simp: reconcileBody_def)
  define args where "args = snapshotArgsFromReport chainId (cb_vaultUsdcBalance cb) (mb_mirrorAvailableUsdc mb) (mb_mirrorEscrowUsdc mb) rep"
  obtain d1 where d1: "pp_writeSnapshot port args d = (Inr (), d1)"
    using assms cb mb rep by (cases "pp_writeSnapshot port args d"; cases "fst (pp_writeSnapshot port args d)")
      (auto simp: reconcileBody_def args_def andThen_def)
  obtain d2 where d2: "pp_writeDifferences port runId chainId rep d1 = (Inr (), d2)"
    using assms cb mb rep d1 [unfolded args_def]
    by (cases "pp_writeDifferences port runId chainId rep d1"; cases "fst (pp_writeDifferences port runId chainId rep d1)")
      (auto simp: reconcileBody_def andThen_def)
  have g2: "gate d2 = gate d"
    using snapshot_keeps [of args d] differences_keeps [of runId chainId rep d1] d1 d2 by simp
  show ?thesis
  proof (cases "ap \<and> rep_criticalFailure rep")
    case True
    then obtain signal where s: "buildPauseSignal rep chainId (Some runId) = Some signal"
      by (simp add: buildPauseSignal_def Let_def)
    obtain d3 where d3: "pp_applyPause port signal d2 = (Inr (), d3)"
      using assms cb mb rep d1 [unfolded args_def] d2 s True
      by (cases "pp_applyPause port signal d2"; cases "fst (pp_applyPause port signal d2)")
        (auto simp: reconcileBody_def andThen_def)
    define detail where "detail = RunReport rep True ap cb mb (summarizeChecks_rec (rep_checks rep))"
    have f: "pp_finishRun port runId (rep_ok rep) detail d3 = (Inr (), d') \<and> r = \<lparr>res_runId = runId, res_report = rep, res_paused = True\<rparr>"
      using assms cb mb rep d1 [unfolded args_def] d2 s d3 True
      by (cases "pp_finishRun port runId (rep_ok rep) detail d3"; cases "fst (pp_finishRun port runId (rep_ok rep) detail d3)")
        (auto simp: reconcileBody_def andThen_def detail_def)
    have "closed (gate d')" using pause_closes [OF d3] finish_keeps [of runId "rep_ok rep" detail d3] f by simp
    then show ?thesis using that [OF cb mb] rep f True by simp
  next
    case False
    define detail where "detail = RunReport rep False ap cb mb (summarizeChecks_rec (rep_checks rep))"
    have f: "pp_finishRun port runId (rep_ok rep) detail d2 = (Inr (), d') \<and> r = \<lparr>res_runId = runId, res_report = rep, res_paused = False\<rparr>"
      using assms cb mb rep d1 [unfolded args_def] d2 False
      by (cases "pp_finishRun port runId (rep_ok rep) detail d2"; cases "fst (pp_finishRun port runId (rep_ok rep) detail d2)";
          cases "rep_criticalFailure rep")
        (auto simp: reconcileBody_def andThen_def detail_def buildPauseSignal_def Let_def)
    then have "gate d' = gate d" using g2 finish_keeps [of runId "rep_ok rep" detail d2] by simp
    then show ?thesis using that [OF cb mb] rep f False by simp
  qed
qed

lemma run_gate:
  assumes "runReconciliation port chainId chain mirrors tol ap d = (Inr r, d')"
  obtains cb mb where "fetchChainBalances chain = Inr cb" "fetchMirrorBalances mirrors chainId = Inr mb"
    "compareBalances cb mb (orElse tol 0) = Inr (res_report r)"
    "res_paused r \<longleftrightarrow> orElse ap False \<and> rep_criticalFailure (res_report r)"
    "if res_paused r then closed (gate d') else gate d' = gate d"
proof -
  obtain i d1 where b: "pp_beginRun port chainId d = (Inr i, d1)"
    using assms by (cases "pp_beginRun port chainId d"; cases "fst (pp_beginRun port chainId d)")
      (auto simp: runReconciliation_def andThen_def)
  have body: "reconcileBody port chainId chain mirrors (orElse tol 0) (orElse ap False) i d1 = (Inr r, d')"
    using assms b by (auto simp: runReconciliation_def andThen_def split: prod.splits sum.splits)
  have "gate d1 = gate d" using begin_keeps [of chainId d] b by simp
  with body show ?thesis using that by (elim body_gate) simp
qed

end

definition matchmakingClosed :: "(string \<rightharpoonup> FlagRow) \<times> IncidentRow list \<Rightarrow> bool" where
  "matchmakingClosed g \<longleftrightarrow> (\<exists>row. fst g PAUSE_FEATURE_FLAG = Some row \<and> \<not> ffr_enabled row) \<and>
     snd g \<noteq> [] \<and> inc_severity (last (snd g)) = ''critical'' \<and> inc_status (last (snd g)) = ''open''"

definition pauseGate :: "ReconDb \<Rightarrow> (string \<rightharpoonup> FlagRow) \<times> IncidentRow list" where
  "pauseGate d = (rdb_flags d, rdb_incidents d)"

lemma applyPauseDb_closes: "matchmakingClosed (pauseGate (applyPauseDb now isoNow signal d))"
  by (simp add: matchmakingClosed_def pauseGate_def applyPauseDb_def Let_def disableFlag_def split: option.splits)

interpretation dbport: pause_port "createDbPersistPort freshId now isoNow" pauseGate matchmakingClosed
  for freshId :: "nat \<Rightarrow> string" and now :: int and isoNow :: string
proof
  fix signal d d'
  assume "pp_applyPause (createDbPersistPort freshId now isoNow) signal d = (Inr (), d')"
  then show "matchmakingClosed (pauseGate d')" using applyPauseDb_closes by (auto simp: createDbPersistPort_def)
qed (simp_all add: createDbPersistPort_def pauseGate_def Let_def)

lemma db_body_error:
  assumes "reconcileBody (createDbPersistPort freshId now isoNow) chainId chain mirrors tol ap runId d = (Inl e, d')"
  shows "d' = d"
  using assms by (auto simp: reconcileBody_def createDbPersistPort_def andThen_def split: sum.splits option.splits if_splits)

lemma db_run_error:
  assumes "runReconciliation (createDbPersistPort freshId now isoNow) chainId chain mirrors tol ap d = (Inl e, d')"
  shows "pauseGate d' = pauseGate d"
proof -
  let ?port = "createDbPersistPort freshId now isoNow"
  obtain x d1 where b: "pp_beginRun ?port chainId d = (x, d1)" by (cases "pp_beginRun ?port chainId d")
  have g: "pauseGate d1 = pauseGate d" using dbport.begin_keeps [of freshId now isoNow chainId d] b by simp
  show ?thesis
  proof (cases x)
    case (Inl a)
    then show ?thesis using assms b g by (simp add: runReconciliation_def andThen_def)
  next
    case (Inr i)
    obtain y d2 where y: "reconcileBody ?port chainId chain mirrors (orElse tol 0) (orElse ap False) i d1 = (y, d2)"
      by (cases "reconcileBody ?port chainId chain mirrors (orElse tol 0) (orElse ap False) i d1")
    then obtain a where "y = Inl a" and d': "d' = snd (pp_finishRun ?port i False (RunError a) d2)"
      using assms b Inr by (cases y) (auto simp: runReconciliation_def andThen_def)
    with y have "d2 = d1" using db_body_error by blast
    then show ?thesis using g d' dbport.finish_keeps by simp
  qed
qed


text \<open>When the read of the accrued fees fails, the reader takes them to be zero, and a solvent vault is declared insolvent.\<close>

lemma fees_read_failure_is_insolvency:
  assumes vault: "readContract vault ''usdcBalance'' = Inr (locked + fees)" and "readContract vault ''accruedProtocolFees'' = Inl e"
    and "tol < fees" "0 \<le> tol"
  shows "\<exists>cb. fetchChainBalances (createViemChainReader readContract vault None) = Inr cb \<and>
    \<not> solvent cb \<lparr>mb_openSessionLockedRaw = locked, mb_mirrorAvailableUsdc = a, mb_mirrorEscrowUsdc = b\<rparr> tol"
  using assms by (simp add: fetchChainBalances_def createViemChainReader_def solvent_def)

text \<open>A check that passed is still written as an open difference when it is a warning.\<close>

lemma passed_warning_is_persisted:
  "cb_feeVaultUsdcBalance chain = Some n \<Longrightarrow> cb_feeVaultAccrued chain = Some n \<Longrightarrow>
     \<exists>c \<in> set (feeVaultChecks chain). rc_ok c \<and> persisted c"
  by (auto simp: feeVaultChecks_def persisted_def)

end
