(* ===== verification/Spec2Isabelle.thy ===== *)
theory Spec2Isabelle
  imports Holdem_Props Energy_Store Lease Outbox Watchtower Indexer Enclave_Run Session_Seal Settlement_Worker Reconciliation
begin

text \<open>
  A model of the MozettoCasino poker platform and the theorems that make it correct. Agents and people play no-limit
  hold'em on off-chain tables; the money is locked in a vault contract, every event of a table is hashed into a chain,
  and a settlement commits to that chain, is signed by three attestors and paid out by a hub contract. Roots of running
  tables are published in batches, a watchtower checks what was published, an indexer mirrors the contracts into a
  double-entry ledger, and a reconciliation compares the mirror with the chain.

  \<^bold>\<open>How to read the model.\<close> Each theory translates the files its opening text names, operation by operation and under the
  names of the source; a name that HOL uses or that two files share has a suffix or prefix. Objects and interfaces are
  records, unions are datatypes, \<open>bigint\<close> is \<open>int\<close>, a thrown error is \<open>Inl\<close>, a state is passed and returned, and a
  SQL table is the list of its rows in the order of creation. What the sources import from elsewhere is an argument:
  hashing and ABI encoding (the record \<open>viem\<close>), SHA-256 and HMAC, account signatures, X25519 and AES-GCM, the parser of
  JSON, HTTP, the contracts and their clients, clocks and random values. What is assumed of them is documented behaviour
  (two equal digests exhibit a collision, a signature verifies under its key) and is named in each theorem; every theorem
  with hypotheses has a witness at concrete arguments. \<open>Mz_Prelude\<close> holds the JavaScript operations HOL lacks, among them the
  stable sort, and the facts on lists and sums that the parts share; \<open>Js_Double\<close> holds doubles and \<open>Number\<close> of a string.

  \<^bold>\<open>The table\<close> (\<^verbatim>\<open>packages/game-rules/src\<close>, \<^verbatim>\<open>services/game-server/src/table-runtime.ts\<close>).
  \<^item> \<open>Cards\<close>, \<open>Hand_Rank\<close>, \<open>Money\<close>, \<open>Rake\<close>: the deck and its shuffle (\<^verbatim>\<open>cards.ts\<close>), five-card ranking and best of seven
    (\<^verbatim>\<open>hand-rank.ts\<close>), the two money scales, the rake formula. The shuffle permutes the deck for every HMAC, and
    \<open>bestHand\<close> is the maximum over the five-card subsets.
  \<^item> \<open>Holdem\<close>, \<open>Holdem_Pots\<close>, \<open>Holdem_Play\<close>: the engine of \<^verbatim>\<open>holdem.ts\<close>. \<open>Holdem_Seats\<close> to \<open>Holdem_Start\<close> prove the
    invariant \<open>hand_ok\<close> of a hand in progress and what every operation keeps of it; the contract of an operation is the
    locale \<open>hand_op\<close>, interpreted for actions, run-out, fold win and showdown.
  \<^item> \<open>Holdem_Session\<close> has the loop of the game server as the step relation \<open>hand_step\<close> and whole sessions with
    sit-downs and departures; \<open>Holdem_Props\<close> has the properties: chips are conserved, no card is dealt twice, states are
    well formed, hands never get stuck and end within \<open>hmeasure + 1\<close> steps (a bound from chips, streets and seats, no
    fuel), actions are refused exactly when they should be, pots hold the bets, and a showdown pays the best hands.

  \<^bold>\<open>Commitments\<close> (\<^verbatim>\<open>packages/protocol-vectors-ts\<close>, \<^verbatim>\<open>event-store\<close>, \<^verbatim>\<open>root-builder\<close>, \<^verbatim>\<open>dealer-deck\<close>, \<^verbatim>\<open>session-seal\<close>).
  \<^item> \<open>Protocol\<close> and \<open>Merkle\<close>: the tagged encodings, their injectivity up to collisions, and Merkle trees (proofs verify
    and bind the leaf; padding and climbing terminate by the length of a level).
  \<^item> \<open>Event_Store\<close>: the hash chain of a session. Equal tips mean equal logs; appends that fork are refused; chains
    reload from their rows.
  \<^item> \<open>Root_Builder\<close>: balance, hand, session and proof-batch roots and the settlement digest, which exists only for conserved
    totals and binds all its fields.
  \<^item> \<open>Dealer_Deck\<close>: the committed decks. The rejection loop of \<open>uniformBelow\<close> has no bound in the code, so it is a
    \<open>partial_function\<close> whose \<open>None\<close> is a run that does not return; \<open>shuffleV2_total_permutation\<close> proves that it returns
    whenever the stream of blocks keeps offering a word that is not rejected. The locale \<open>index_source\<close> is the contract of
    a source of shuffle indices; the HMAC source and this generator interpret it.
  \<^item> \<open>Session_Seal\<close>: the descriptor with which a session is sealed and funded; every seat is provable in every tree, and
    the order in which the participants arrive does not matter.

  \<^bold>\<open>The dealer\<close> (\<^verbatim>\<open>services/dealer-enclave\<close>). \<open>Enclave\<close> has the operations of the confidential dealer and
  \<open>Enclave_Run\<close> their runs in any order: served attestations are faithful, keys are released only under a fresh document
  in mock mode, openings follow the commitment, and a sealed card is read by its seat and nobody else.

  \<^bold>\<open>Running the tables\<close> (\<^verbatim>\<open>services/game-server\<close>, \<^verbatim>\<open>services/agent-runtime\<close>).
  \<^item> \<open>Lease\<close>: one writer per table; the locale \<open>lease_backend\<close> is interpreted on the in-memory backend, and runs of several
    managers never split.
  \<^item> \<open>Outbox\<close>: persist, then broadcast, then recover; the locale \<open>outbox_store\<close> is interpreted on the in-memory store.
  \<^item> \<open>Energy\<close> and \<open>Energy_Store\<close>: the budget of an agent for a hand and its snapshots (locale \<open>ledger_store\<close>).

  \<^bold>\<open>Settlement\<close> (\<^verbatim>\<open>packages/attestors\<close>, \<^verbatim>\<open>services/settlement-worker\<close>).
  \<^item> \<open>Attestors\<close>: the keys of the roles, kept apart in production; signing, and the HTTP form with its round trip.
  \<^item> \<open>Settlement_Proposal\<close>: roots with the gate against stubs, the repair of ending balances, which never pays more
    than is locked, and conserved proposals with their signatures.
  \<^item> \<open>Settlement_Worker\<close>: the polling worker. Any statement may fail; still a session is recorded as settled only behind a
    confirmed settlement of it, conserved and with a quorum, or as a ghost. Checkpoints are emitted once and anchored
    only when confirmed.

  \<^bold>\<open>Publishing and watching\<close> (\<^verbatim>\<open>packages/proof-batch-publisher\<close>, \<^verbatim>\<open>packages/watchtower\<close>).
  \<open>Proof_Batch\<close> orders, aggregates and registers checkpoints; racing publishers refine an append-only ledger (locale
  \<open>registry_client\<close>, interpreted on the in-process registry). \<open>Watchtower\<close> checks packages; a positive report implies each
  of its claims, and honest publications pass.

  \<^bold>\<open>The mirror\<close> (\<^verbatim>\<open>packages/database/src/ledger.ts\<close>, \<^verbatim>\<open>services/chain-indexer\<close>, \<^verbatim>\<open>packages/reconciliation\<close>).
  \<open>Ledger\<close> is the double-entry ledger and refines an abstract bank; \<open>Indexer\<close> credits each deposit once and undoes
  reorganisations; \<open>Reconciliation\<close> compares the vault with the mirror, and a run pauses matchmaking exactly when
  pausing is on and the balances are insolvent (locale \<open>pause_port\<close>, interpreted on the Postgres port).

  \<^bold>\<open>How the parts meet.\<close> The engine's chips are the balances that \<open>Root_Builder\<close> commits to; the event chain gives the
  roots of \<open>Settlement_Proposal\<close>; the worker's checkpoints feed \<open>Proof_Batch\<close>, whose packages \<open>Watchtower\<close> reads
  together with the card openings of \<open>Dealer_Deck\<close>, which \<open>Enclave\<close> serves; \<open>Indexer\<close> drives \<open>Ledger\<close>, and
  \<open>Reconciliation\<close> reads what both have written.

  \<^bold>\<open>What modelling showed.\<close> Lemmas state behaviour that deserves attention: overdrafts by concurrent buy-ins
  (\<open>concurrent_buyins_overdraw\<close>), deposits lost or blocking after a reorganisation or for dust (\<open>moved_deposit_is_lost\<close>,
  \<open>dust_deposit_stops_indexer\<close>, \<open>same_transaction_deposit_lost\<close>), blocks skipped after failed requests
  (\<open>failed_requests_skip_blocks\<close>), decks opened under a word that was never bound (\<open>vrf_binding_unread\<close>), confirmed
  settlements marked rejected or forgotten (\<open>fee_failure_rejects_settled\<close>, \<open>lost_receipt_forgets_transaction\<close>), played
  sessions refunded (\<open>unread_hand_count_refunds\<close>), event hashes taken for balance roots (\<open>checkpoint_commits_event_hash\<close>),
  atoms lost to doubles (\<open>stack_loses_an_atom\<close>), and solvent vaults called insolvent
  (\<open>fees_read_failure_is_insolvency\<close>).

  \<^bold>\<open>Limits.\<close> Doubles round to nearest without overflow or subnormal numbers; where a text says so, a number is the
  rational it denotes. Error and log texts are left out unless the code reads them. Statements of one process run to
  their end one after the other, except where a theory says how they interleave. Seats are at most 22, what one deck serves.

  \<^bold>\<open>Not modelled.\<close> The HTTP API, the administration routes and the web applications (request handling, SQL and user
  interface); matchmaking queues and other code whose logic is in SQL; Redis scripts and Postgres stores behind
  interfaces whose in-memory implementation is modelled; sockets, timers, polling loops and command lines; the
  poker advice, ratings and cost forecasts in floating-point numbers with transcendental functions; language-model prompting;
  the V2 settlement path and the dealer and replay services; calldata of governance; the Solidity contracts, which are parameters
  of their clients; scripts, fixtures and generated files.
\<close>

end
